(* ===== verification/Prelude.thy ===== *)
theory Prelude
  imports Main "HOL-Library.Word" "HOL-Library.AList" "HOL-Library.Monad_Syntax"
begin

text \<open>
  Shared vocabulary of the development: the machine integers of the Rust sources, the
  encoding of panics, slices of vectors, hash maps as association lists, and the lemma
  collections the component theories use.

  \<^item> A computation that may panic has a result of type \<open>'a option\<close>: \<open>None\<close> is the panic
    (an \<open>assert!\<close>, an index or a slice out of range), \<open>Some r\<close> a normal return of \<open>r\<close>.
    A Rust \<open>Option\<close> that is returned as a value is an inner option.
  \<^item> \<open>debug_assert!\<close> is compiled out, as in a release build.
  \<^item> Counters of type \<open>usize\<close> and \<open>u64\<close> that grow by one per operation are \<open>nat\<close>;
    saturating and wrapping operations of the source are written out.
  \<^item> A \<open>Vec\<close> is a list in vector order: \<open>push\<close> appends, \<open>pop\<close> takes the last element.
  \<^item> A \<open>HashMap\<close> whose iteration order is observable is an association list with
    distinct keys, the list order being the iteration order; no theorem fixes that order.
\<close>

type_synonym u32 = "32 word"
type_synonym u64 = "64 word"

named_theorems run_simps \<open>unfolding rules of operations that may panic\<close>

section \<open>Saturating arithmetic\<close>

definition u32_max :: nat where
  "u32_max = 2 ^ 32 - 1"

definition u64_max :: nat where
  "u64_max = 2 ^ 64 - 1"

definition saturating_add_u32 :: "nat \<Rightarrow> nat \<Rightarrow> nat" where
  "saturating_add_u32 a b = min u32_max (a + b)"

definition div_ceil :: "nat \<Rightarrow> nat \<Rightarrow> nat" where
  "div_ceil a b = (a + b - 1) div b"

lemma div_ceil_mult_ge:
  assumes "0 < b"
  shows "a \<le> div_ceil a b * b"
proof -
  have "(a + b - 1) mod b \<le> b - 1"
    using assms by (metis One_nat_def Suc_leI diff_Suc_1 le_diff_conv mod_less_divisor
        add.commute less_eq_Suc_le plus_1_eq_Suc Suc_diff_1 less_Suc_eq_le)
  moreover have "(a + b - 1) div b * b + (a + b - 1) mod b = a + b - 1"
    by simp
  ultimately show ?thesis
    using assms unfolding div_ceil_def by linarith
qed

section \<open>Vectors: indexing and slices that panic out of range\<close>

definition vec_get :: "'a list \<Rightarrow> nat \<Rightarrow> 'a option" where
  "vec_get xs i = (if i < length xs then Some (xs ! i) else None)"

definition slice_from :: "'a list \<Rightarrow> nat \<Rightarrow> 'a list option" where
  "slice_from xs i = (if i \<le> length xs then Some (drop i xs) else None)"

definition slice_to :: "'a list \<Rightarrow> nat \<Rightarrow> 'a list option" where
  "slice_to xs i = (if i \<le> length xs then Some (take i xs) else None)"

definition slice_between :: "'a list \<Rightarrow> nat \<Rightarrow> nat \<Rightarrow> 'a list option" where
  "slice_between xs i j =
     (if i \<le> j \<and> j \<le> length xs then Some (take (j - i) (drop i xs)) else None)"

lemma vec_get_eq_Some [simp]: "vec_get xs i = Some x \<longleftrightarrow> i < length xs \<and> xs ! i = x"
  by (auto simp: vec_get_def)

lemma vec_get_eq_None [simp]: "vec_get xs i = None \<longleftrightarrow> length xs \<le> i"
  by (auto simp: vec_get_def)

lemma slice_from_eq_Some [simp]: "slice_from xs i = Some ys \<longleftrightarrow> i \<le> length xs \<and> drop i xs = ys"
  by (auto simp: slice_from_def)

lemma slice_to_eq_Some [simp]: "slice_to xs i = Some ys \<longleftrightarrow> i \<le> length xs \<and> take i xs = ys"
  by (auto simp: slice_to_def)

lemma slice_between_eq_Some [simp]:
  "slice_between xs i j = Some ys \<longleftrightarrow> i \<le> j \<and> j \<le> length xs \<and> take (j - i) (drop i xs) = ys"
  by (auto simp: slice_between_def)

text \<open>\<open>iter().position(..)\<close>: the index of the first match.\<close>

fun find_index :: "('a \<Rightarrow> bool) \<Rightarrow> 'a list \<Rightarrow> nat option" where
  "find_index P [] = None"
| "find_index P (x # xs) = (if P x then Some 0 else map_option Suc (find_index P xs))"

lemma find_index_Some:
  "find_index P xs = Some k \<Longrightarrow> k < length xs \<and> P (xs ! k) \<and> (\<forall>j < k. \<not> P (xs ! j))"
proof (induction xs arbitrary: k)
  case (Cons x xs)
  then show ?case by (cases k) (auto simp: less_Suc_eq_0_disj split: if_splits)
qed simp

lemma find_index_None: "find_index P xs = None \<longleftrightarrow> (\<forall>x \<in> set xs. \<not> P x)"
  by (induction xs) auto

section \<open>Loops whose body may panic\<close>

text \<open>\<open>for x in xs { s = f(x, s) }\<close>: the first panic ends the loop.\<close>

fun fold_opt :: "('a \<Rightarrow> 's \<Rightarrow> 's option) \<Rightarrow> 'a list \<Rightarrow> 's \<Rightarrow> 's option" where
  "fold_opt f [] s = Some s"
| "fold_opt f (x # xs) s = do { s1 \<leftarrow> f x s; fold_opt f xs s1 }"

lemma fold_opt_append:
  "fold_opt f (xs @ ys) s = do { s1 \<leftarrow> fold_opt f xs s; fold_opt f ys s1 }"
  by (induction xs arbitrary: s) (auto split: Option.bind_splits)

text \<open>An invariant that every iteration keeps holds after the loop.\<close>

lemma fold_opt_invariant:
  assumes "fold_opt f xs s = Some s'" and "I s"
    and "\<And>x s s'. x \<in> set xs \<Longrightarrow> I s \<Longrightarrow> f x s = Some s' \<Longrightarrow> I s'"
  shows "I s'"
  using assms
proof (induction xs arbitrary: s)
  case Nil
  then show ?case by simp
next
  case (Cons x xs)
  from Cons.prems(1) obtain s1 where s1: "f x s = Some s1" "fold_opt f xs s1 = Some s'"
    by (auto split: Option.bind_splits)
  from Cons.prems(2,3) s1(1) have "I s1" by (meson list.set_intros(1))
  with Cons.IH [OF s1(2)] Cons.prems(3) show ?case by (meson list.set_intros(2))
qed

section \<open>Counting elements\<close>

lemma length_filter_update:
  assumes "i < length xs"
  shows "length (filter P (xs[i := y])) + (if P (xs ! i) then 1 else 0)
       = length (filter P xs) + (if P y then 1 else 0)"
  using assms
proof (induction xs arbitrary: i)
  case Nil
  then show ?case by simp
next
  case (Cons x xs)
  then show ?case by (cases i) auto
qed

lemma map_of_rev_distinct: "distinct (map fst xs) \<Longrightarrow> map_of (rev xs) = map_of xs"
  by (simp add: map_of_inject_set rev_map [symmetric])

section \<open>Strings\<close>

fun starts_with :: "string \<Rightarrow> string \<Rightarrow> bool" where
  "starts_with s [] = True"
| "starts_with [] (c # p) = False"
| "starts_with (d # s) (c # p) = (d = c \<and> starts_with s p)"

lemma starts_with_iff: "starts_with s p \<longleftrightarrow> (\<exists>r. s = p @ r)"
  by (induction s p rule: starts_with.induct) auto

lemma starts_with_same [simp]: "starts_with s s"
  by (induction s) auto

text \<open>Decimal printing, as \<open>to_string\<close> of an unsigned integer.\<close>

function nat_str :: "nat \<Rightarrow> string" where
  "nat_str n = (if n < 10 then [char_of (48 + n)] else nat_str (n div 10) @ [char_of (48 + n mod 10)])"
  by pat_completeness auto
termination
  by (relation "measure id") auto

declare nat_str.simps [simp del]

fun digits_value :: "string \<Rightarrow> nat" where
  "digits_value [] = 0"
| "digits_value (c # cs) = (of_char c - 48) * 10 ^ length cs + digits_value cs"

lemma digits_value_append: "digits_value (xs @ ys) = digits_value xs * 10 ^ length ys + digits_value ys"
  by (induction xs) (simp_all add: algebra_simps power_add)

lemma digits_value_nat_str: "digits_value (nat_str n) = n"
proof (induction n rule: nat_str.induct)
  case (1 n)
  then show ?case by (subst nat_str.simps) (auto simp: digits_value_append of_char_of take_bit_eq_mod)
qed

lemma nat_str_inject [simp]: "nat_str m = nat_str n \<longleftrightarrow> m = n"
  by (metis digits_value_nat_str)

text \<open>\<open>str::replace\<close> for a non-empty pattern: non-overlapping occurrences from left to right.\<close>

function str_replace :: "string \<Rightarrow> string \<Rightarrow> string \<Rightarrow> string" where
  "str_replace pat to s =
     (if s = [] then []
      else if pat \<noteq> [] \<and> starts_with s pat then to @ str_replace pat to (drop (length pat) s)
      else hd s # str_replace pat to (tl s))"
  by pat_completeness auto
termination
  by (relation "measure (\<lambda>(pat, to, s). length s)") auto

declare str_replace.simps [simp del]

section \<open>Vectors: replacing and choosing elements\<close>

text \<open>\<open>iter_mut().find(p)\<close> followed by an update of the element found.\<close>

fun update_first :: "('a \<Rightarrow> bool) \<Rightarrow> ('a \<Rightarrow> 'a) \<Rightarrow> 'a list \<Rightarrow> 'a list" where
  "update_first p f [] = []"
| "update_first p f (x # xs) = (if p x then f x # xs else x # update_first p f xs)"

fun remove_first :: "('a \<Rightarrow> bool) \<Rightarrow> 'a list \<Rightarrow> 'a list" where
  "remove_first p [] = []"
| "remove_first p (x # xs) = (if p x then xs else x # remove_first p xs)"

text \<open>\<open>max_by_key\<close> returns the last of several maxima; \<open>arg_min_list\<close> the first minimum, as \<open>min_by_key\<close> does.\<close>

fun max_last :: "('a \<Rightarrow> 'b :: linorder) \<Rightarrow> 'a list \<Rightarrow> 'a option" where
  "max_last key [] = None"
| "max_last key (x # xs) =
     (case max_last key xs of None \<Rightarrow> Some x | Some y \<Rightarrow> if key x \<le> key y then Some y else Some x)"

lemma update_first_id: "\<not> list_ex p xs \<Longrightarrow> update_first p f xs = xs"
  by (induction xs) auto

lemma length_update_first [simp]: "length (update_first p f xs) = length xs"
  by (induction xs) auto

lemma map_update_first: "(\<And>x. p x \<Longrightarrow> g (f x) = g x) \<Longrightarrow> map g (update_first p f xs) = map g xs"
  by (induction xs) auto

lemma set_update_first: "x \<in> set (update_first p f xs) \<Longrightarrow> x \<in> set xs \<or> (\<exists>y \<in> set xs. p y \<and> x = f y)"
  by (induction xs) (auto split: if_splits)

lemma set_remove_first: "set (remove_first p xs) \<subseteq> set xs"
  by (induction xs) auto

lemma remove_first_key:
  "distinct (map key xs) \<Longrightarrow> remove_first (\<lambda>x. key x = k) xs = filter (\<lambda>x. key x \<noteq> k) xs"
  by (induction xs) (auto simp: filter_id_conv rev_image_eqI intro!: filter_True [symmetric])

lemma find_SomeD: "find p xs = Some x \<Longrightarrow> x \<in> set xs \<and> p x"
  by (induction xs) (auto split: if_splits)

end
