(* ===== verification/Kv_Cache.thy ===== *)
theory Kv_Cache
  imports Prelude Complex_Main
begin

text \<open>
  The paged KV-cache manager of \<^verbatim>\<open>crates/justapi-inference/src/kv_cache.rs\<close>: the block pool
  \<open>KvBlockPool\<close> with its clock-sweep evictor, the per-request \<open>Sequence\<close>, and the hash-keyed
  \<open>PrefixCache\<close>. Every method is one definition. Block ids (\<open>u32\<close>) are \<open>nat\<close>: a pool never
  has more than \<open>MAX_BLOCKS = 2^24\<close> blocks, so the cast from \<open>usize\<close> is exact. Indexing a
  block outside the pool and the \<open>assert!\<close>s of the methods are panics (outer \<open>None\<close>).

  The lemmas give the pool invariant and the exact conditions under which each operation
  keeps it, the fast path of \<open>alloc\<close>, the clock sweep, and what goes wrong on the slow path.
\<close>

unbundle bit_operations_syntax

section \<open>Constants and block metadata\<close>

definition BLOCK_SIZE :: nat where
  "BLOCK_SIZE = 16"

definition MAX_BLOCKS :: nat where
  "MAX_BLOCKS = 2 ^ 24"

type_synonym block_id = nat
type_synonym token = u32

record block_meta =
  ref_count :: nat
  pinned :: bool
  meta_hash :: u64

definition block_meta_new :: block_meta where
  "block_meta_new = \<lparr>ref_count = 0, pinned = False, meta_hash = 0\<rparr>"

section \<open>The block pool\<close>

record kv_block_pool =
  metas :: "block_meta list"
  free :: "block_id list"
  clock_hand :: nat
  eviction_count :: nat
  allocated_count :: nat
  cached_count :: nat

definition pool_new :: "nat \<Rightarrow> kv_block_pool" where
  "pool_new cap =
     (let capacity = max 1 (min cap MAX_BLOCKS) in
      \<lparr>metas = replicate capacity block_meta_new,
       free = rev [0..<capacity],
       clock_hand = 0, eviction_count = 0, allocated_count = 0, cached_count = 0\<rparr>)"

definition capacity :: "kv_block_pool \<Rightarrow> nat" where
  "capacity p = length (metas p)"

definition allocated :: "kv_block_pool \<Rightarrow> nat" where
  "allocated p = allocated_count p"

definition in_use :: "kv_block_pool \<Rightarrow> nat" where
  "in_use p = allocated_count p - cached_count p"

definition cached :: "kv_block_pool \<Rightarrow> nat" where
  "cached p = cached_count p"

definition available :: "kv_block_pool \<Rightarrow> nat" where
  "available p = length (free p)"

text \<open>The exact value of the percentage, before rounding to \<open>f32\<close>.\<close>

definition pressure_pct :: "kv_block_pool \<Rightarrow> rat" where
  "pressure_pct p = 100 - of_nat (length (free p)) / of_nat (length (metas p)) * 100"

record pool_stats =
  stat_total :: nat
  stat_allocated :: nat
  stat_cached :: nat
  stat_free :: nat
  stat_pressure_pct :: rat
  evictions :: nat

definition kv_stats :: "kv_block_pool \<Rightarrow> pool_stats" where
  "kv_stats p =
     \<lparr>stat_total = length (metas p), stat_allocated = allocated_count p,
      stat_cached = cached_count p, stat_free = length (free p),
      stat_pressure_pct = pressure_pct p, evictions = eviction_count p\<rparr>"

subsection \<open>Clock-sweep eviction\<close>

text \<open>The \<open>for offset in 0..n\<close> loop of \<open>evict_one\<close>; \<open>k\<close> iterations remain.\<close>

fun evict_scan :: "nat \<Rightarrow> nat \<Rightarrow> nat \<Rightarrow> kv_block_pool \<Rightarrow> block_id option \<times> kv_block_pool" where
  "evict_scan start offset 0 p = (None, p)"
| "evict_scan start offset (Suc k) p =
     (let n = length (metas p);
          idx = (start + offset) mod n;
          p1 = p\<lparr>clock_hand := (idx + 1) mod n\<rparr>;
          meta = metas p ! idx
      in if ref_count meta > 0 \<or> pinned meta then evict_scan start (Suc offset) k p1
         else (Some idx,
               p1\<lparr>metas := (metas p)[idx := block_meta_new],
                  free := free p @ [idx],
                  eviction_count := eviction_count p + 1,
                  allocated_count := allocated_count p - 1,
                  cached_count := cached_count p - 1\<rparr>))"

definition evict_one :: "kv_block_pool \<Rightarrow> block_id option \<times> kv_block_pool" where
  "evict_one p = evict_scan (clock_hand p) 0 (length (metas p)) p"

fun evict :: "nat \<Rightarrow> kv_block_pool \<Rightarrow> nat \<times> kv_block_pool" where
  "evict 0 p = (0, p)"
| "evict (Suc target) p =
     (case evict_one p of
        (None, p1) \<Rightarrow> (0, p1)
      | (Some _, p1) \<Rightarrow> (let (k, p2) = evict target p1 in (Suc k, p2)))"

subsection \<open>Allocation, references, pinning\<close>

definition claim_block :: "block_id \<Rightarrow> kv_block_pool \<Rightarrow> (block_id option \<times> kv_block_pool) option" where
  "claim_block block p =
     do { meta \<leftarrow> vec_get (metas p) block;
          Some (Some block,
                p\<lparr>metas := (metas p)[block := meta\<lparr>ref_count := 1, meta_hash := 0\<rparr>],
                  allocated_count := allocated_count p + 1\<rparr>) }"

definition alloc :: "kv_block_pool \<Rightarrow> (block_id option \<times> kv_block_pool) option" where
  "alloc p =
     (if free p \<noteq> []
      then claim_block (last (free p)) (p\<lparr>free := butlast (free p)\<rparr>)
      else case evict_one p of
             (None, p1) \<Rightarrow> Some (None, p1)
           | (Some evicted, p1) \<Rightarrow> claim_block evicted p1)"

definition retain :: "kv_block_pool \<Rightarrow> block_id \<Rightarrow> kv_block_pool option" where
  "retain p block =
     do { meta \<leftarrow> vec_get (metas p) block;
          if ref_count meta > 0
          then Some (p\<lparr>metas := (metas p)[block := meta\<lparr>ref_count := saturating_add_u32 (ref_count meta) 1\<rparr>]\<rparr>)
          else None }"

definition reclaim :: "kv_block_pool \<Rightarrow> block_id \<Rightarrow> kv_block_pool option" where
  "reclaim p block =
     do { meta \<leftarrow> vec_get (metas p) block;
          if ref_count meta = 0
          then Some (p\<lparr>metas := (metas p)[block := meta\<lparr>ref_count := 1\<rparr>],
                       cached_count := cached_count p - 1\<rparr>)
          else None }"

definition release :: "kv_block_pool \<Rightarrow> block_id \<Rightarrow> u64 \<Rightarrow> kv_block_pool option" where
  "release p block h =
     do { meta \<leftarrow> vec_get (metas p) block;
          if ref_count meta > 0
          then (let rc = ref_count meta - 1 in
                Some (if rc = 0
                      then p\<lparr>metas := (metas p)[block := meta\<lparr>ref_count := 0, meta_hash := h\<rparr>],
                             cached_count := cached_count p + 1\<rparr>
                      else p\<lparr>metas := (metas p)[block := meta\<lparr>ref_count := rc\<rparr>]\<rparr>))
          else None }"

definition free_cached :: "kv_block_pool \<Rightarrow> block_id \<Rightarrow> kv_block_pool option" where
  "free_cached p block =
     do { meta \<leftarrow> vec_get (metas p) block;
          if ref_count meta = 0
          then Some (p\<lparr>metas := (metas p)[block := meta\<lparr>pinned := False, meta_hash := 0\<rparr>],
                       cached_count := cached_count p - 1,
                       free := free p @ [block]\<rparr>)
          else None }"

definition pin :: "kv_block_pool \<Rightarrow> block_id \<Rightarrow> kv_block_pool option" where
  "pin p block =
     do { meta \<leftarrow> vec_get (metas p) block;
          Some (p\<lparr>metas := (metas p)[block := meta\<lparr>pinned := True\<rparr>]\<rparr>) }"

definition unpin :: "kv_block_pool \<Rightarrow> block_id \<Rightarrow> kv_block_pool option" where
  "unpin p block =
     do { meta \<leftarrow> vec_get (metas p) block;
          Some (p\<lparr>metas := (metas p)[block := meta\<lparr>pinned := False\<rparr>]\<rparr>) }"

definition is_in_use :: "kv_block_pool \<Rightarrow> block_id \<Rightarrow> bool option" where
  "is_in_use p block = map_option (\<lambda>meta. ref_count meta > 0) (vec_get (metas p) block)"

definition block_hash :: "kv_block_pool \<Rightarrow> block_id \<Rightarrow> u64 option" where
  "block_hash p block = map_option meta_hash (vec_get (metas p) block)"

section \<open>Sequences\<close>

record sequence =
  seq_id :: nat
  seq_blocks :: "block_id list"
  num_tokens :: nat

definition sequence_new :: "nat \<Rightarrow> sequence" where
  "sequence_new i = \<lparr>seq_id = i, seq_blocks = [], num_tokens = 0\<rparr>"

definition num_blocks :: "sequence \<Rightarrow> nat" where
  "num_blocks s = length (seq_blocks s)"

definition grow :: "sequence \<Rightarrow> kv_block_pool \<Rightarrow> (block_id option \<times> sequence \<times> kv_block_pool) option" where
  "grow s p =
     do { (r, p1) \<leftarrow> alloc p;
          Some (case r of
                  None \<Rightarrow> (None, s, p1)
                | Some block \<Rightarrow> (Some block, s\<lparr>seq_blocks := seq_blocks s @ [block]\<rparr>, p1)) }"

definition advance :: "sequence \<Rightarrow> nat \<Rightarrow> sequence" where
  "advance s n = s\<lparr>num_tokens := num_tokens s + n\<rparr>"

definition set_num_tokens :: "sequence \<Rightarrow> nat \<Rightarrow> sequence" where
  "set_num_tokens s n = s\<lparr>num_tokens := n\<rparr>"

definition restore_from_cache ::
  "sequence \<Rightarrow> block_id list \<Rightarrow> nat \<Rightarrow> kv_block_pool \<Rightarrow> (sequence \<times> kv_block_pool) option" where
  "restore_from_cache s blocks n p =
     do { p1 \<leftarrow> fold_opt (\<lambda>b q. reclaim q b) blocks p;
          Some (s\<lparr>seq_blocks := blocks, num_tokens := n\<rparr>, p1) }"

section \<open>The hash-keyed prefix cache\<close>

definition hash_tokens :: "token list \<Rightarrow> u64" where
  "hash_tokens tokens =
     foldl (\<lambda>h t. (h XOR ucast t) * 0x100000001b3) 0xcbf29ce484222325 tokens"

record prefix_cache =
  pc_entries :: "(u64 \<times> block_id list) list"
  prefix_lengths :: "(u64 \<times> nat) list"
  pc_hits :: nat
  pc_misses :: nat

definition prefix_cache_new :: prefix_cache where
  "prefix_cache_new = \<lparr>pc_entries = [], prefix_lengths = [], pc_hits = 0, pc_misses = 0\<rparr>"

definition prefix_hash :: "token list \<Rightarrow> nat \<Rightarrow> u64" where
  "prefix_hash tokens n = hash_tokens (take (min (length tokens) n) tokens)"

definition prefix_cache_len :: "prefix_cache \<Rightarrow> nat" where
  "prefix_cache_len c = length (pc_entries c)"

definition total_stored_blocks :: "prefix_cache \<Rightarrow> nat" where
  "total_stored_blocks c = sum_list (map (\<lambda>(_, blocks). length blocks) (pc_entries c))"

definition prefix_insert_one ::
  "token list \<Rightarrow> block_id list \<Rightarrow> nat \<Rightarrow> prefix_cache \<Rightarrow> prefix_cache" where
  "prefix_insert_one tokens blocks n c =
     (let num = n * BLOCK_SIZE; h = prefix_hash tokens num in
      case map_of (pc_entries c) h of
        Some _ \<Rightarrow> c
      | None \<Rightarrow> c\<lparr>prefix_lengths := AList.update h num (prefix_lengths c),
                  pc_entries := AList.update h (take n blocks) (pc_entries c)\<rparr>)"

definition prefix_insert :: "prefix_cache \<Rightarrow> token list \<Rightarrow> block_id list \<Rightarrow> prefix_cache" where
  "prefix_insert c tokens blocks =
     fold (prefix_insert_one tokens blocks) [1..<length blocks + 1] c"

fun prefix_search :: "prefix_cache \<Rightarrow> token list \<Rightarrow> nat \<Rightarrow> (nat \<times> block_id list) option" where
  "prefix_search c tokens 0 = None"
| "prefix_search c tokens (Suc n) =
     (case map_of (pc_entries c) (prefix_hash tokens (Suc n * BLOCK_SIZE)) of
        Some blocks \<Rightarrow> Some (Suc n * BLOCK_SIZE, blocks)
      | None \<Rightarrow> prefix_search c tokens n)"

definition prefix_lookup ::
  "prefix_cache \<Rightarrow> token list \<Rightarrow> (nat \<times> block_id list) option \<times> prefix_cache" where
  "prefix_lookup c tokens =
     (case prefix_search c tokens (div_ceil (length tokens) BLOCK_SIZE) of
        Some r \<Rightarrow> (Some r, c\<lparr>pc_hits := pc_hits c + 1\<rparr>)
      | None \<Rightarrow> (None, c\<lparr>pc_misses := pc_misses c + 1\<rparr>))"

definition prefix_remove :: "prefix_cache \<Rightarrow> u64 \<Rightarrow> block_id list option \<times> prefix_cache" where
  "prefix_remove c h =
     (map_of (pc_entries c) h,
      c\<lparr>prefix_lengths := AList.delete h (prefix_lengths c),
        pc_entries := AList.delete h (pc_entries c)\<rparr>)"

section \<open>The three block states and the pool invariant\<close>

text \<open>
  The module documentation puts every block into one of three states. \<open>block_state\<close> reads the
  state off the pool; \<open>pool_wf\<close> is the representation invariant: the free list has no
  duplicates and holds only unreferenced, unpinned blocks, the clock hand is in range, and
  \<open>cached_count\<close> counts exactly the cached blocks.
\<close>

datatype block_state = Absent | Free | In_use nat | Cached

definition block_state :: "kv_block_pool \<Rightarrow> block_id \<Rightarrow> block_state" where
  "block_state p b =
     (if b < length (metas p)
      then if b \<in> set (free p) then Free
           else if ref_count (metas p ! b) > 0 then In_use (ref_count (metas p ! b))
           else Cached
      else Absent)"

definition cached_set :: "kv_block_pool \<Rightarrow> block_id set" where
  "cached_set p = set (filter (\<lambda>b. block_state p b = Cached) [0..<length (metas p)])"

definition pool_wf :: "kv_block_pool \<Rightarrow> bool" where
  "pool_wf p \<longleftrightarrow>
     clock_hand p < length (metas p) \<and> distinct (free p) \<and>
     (\<forall>b \<in> set (free p). b < length (metas p) \<and> ref_count (metas p ! b) = 0
                          \<and> \<not> pinned (metas p ! b)) \<and>
     (\<forall>m \<in> set (metas p). ref_count m \<le> u32_max) \<and>
     cached_count p = card (cached_set p)"

definition evictable :: "kv_block_pool \<Rightarrow> bool" where
  "evictable p \<longleftrightarrow> list_ex (\<lambda>m. ref_count m = 0 \<and> \<not> pinned m) (metas p)"

lemma cached_set_iff: "b \<in> cached_set p \<longleftrightarrow> block_state p b = Cached"
  by (auto simp: cached_set_def block_state_def)

lemma finite_cached_set [simp, intro]: "finite (cached_set p)"
  by (simp add: cached_set_def)

lemma pool_new_wf: "pool_wf (pool_new cap)"
proof -
  have "cached_set (pool_new cap) = {}"
    by (auto simp: cached_set_iff block_state_def pool_new_def Let_def split: if_splits)
  then show ?thesis
    by (auto simp: pool_wf_def pool_new_def Let_def block_meta_new_def)
qed

text \<open>A pool whose blocks change state at \<open>b\<close> only changes its cached set at \<open>b\<close> only.\<close>

lemma cached_set_upd:
  assumes "block_state q = (block_state p)(b := s)"
  shows "cached_set q = (if s = Cached then insert b (cached_set p) else cached_set p - {b})"
  using assms by (auto simp: cached_set_iff split: if_splits)

lemma card_cached_set_upd:
  assumes "block_state q = (block_state p)(b := s)" and "s = Cached \<longleftrightarrow> block_state p b \<noteq> Cached"
  shows "card (cached_set q) =
           (if s = Cached then card (cached_set p) + 1 else card (cached_set p) - 1)"
  using assms cached_set_upd [OF assms(1)]
  by (auto simp: cached_set_iff card_Diff_singleton card_insert_if)

lemma card_cached_set_keep:
  assumes "block_state q = (block_state p)(b := s)" and "s \<noteq> Cached" and "block_state p b \<noteq> Cached"
  shows "card (cached_set q) = card (cached_set p)"
  using assms cached_set_upd [OF assms(1)] by (simp add: cached_set_iff)

lemmas pool_ops_defs =
  claim_block_def retain_def reclaim_def release_def free_cached_def pin_def unpin_def

lemma pool_wf_meta_le: "pool_wf p \<Longrightarrow> b < length (metas p) \<Longrightarrow> ref_count (metas p ! b) \<le> u32_max"
  by (simp add: pool_wf_def)

lemma pool_wf_free: 
  "pool_wf p \<Longrightarrow> b \<in> set (free p) \<Longrightarrow>
     b < length (metas p) \<and> ref_count (metas p ! b) = 0 \<and> \<not> pinned (metas p ! b)"
  by (simp add: pool_wf_def)

lemma set_update_cases: "y \<in> set (xs[i := x]) \<Longrightarrow> y = x \<or> y \<in> set xs"
  by (meson insertE set_update_subset_insert subsetD)

text \<open>
  One lemma per operation: what it does to the block states, and that it keeps the invariant.
  The preconditions are what a client has to respect: \<open>reclaim\<close>, \<open>free_cached\<close> and \<open>pin\<close> are
  for blocks that are not in the free list.
\<close>

lemma retain_spec:
  assumes wf: "pool_wf p" and r: "retain p b = Some q"
  shows "\<exists>n. block_state p b = In_use n \<and>
             block_state q = (block_state p)(b := In_use (saturating_add_u32 n 1))"
    and "pool_wf q"
proof -
  from r have b: "b < length (metas p)" "0 < ref_count (metas p ! b)"
    and q: "q = p\<lparr>metas := (metas p)[b := (metas p ! b)
                \<lparr>ref_count := saturating_add_u32 (ref_count (metas p ! b)) 1\<rparr>]\<rparr>"
    by (auto simp: retain_def vec_get_def split: if_splits Option.bind_splits)
  with wf have nf: "b \<notin> set (free p)" by (auto simp: pool_wf_def)
  have st: "block_state q = (block_state p)(b := In_use (saturating_add_u32 (ref_count (metas p ! b)) 1))"
    using b nf by (auto simp: fun_eq_iff block_state_def q saturating_add_u32_def u32_max_def)
  have old: "block_state p b = In_use (ref_count (metas p ! b))"
    using b nf by (simp add: block_state_def)
  from st old show "\<exists>n. block_state p b = In_use n \<and>
      block_state q = (block_state p)(b := In_use (saturating_add_u32 n 1))" by blast
  have "card (cached_set q) = card (cached_set p)"
    by (rule card_cached_set_keep [OF st]) (simp_all add: old)
  then show "pool_wf q"
    using wf b nf by (auto simp: pool_wf_def q nth_list_update saturating_add_u32_def
        dest!: set_update_cases)
qed

lemma reclaim_spec:
  assumes wf: "pool_wf p" and nf: "b \<notin> set (free p)" and r: "reclaim p b = Some q"
  shows "block_state p b = Cached \<and> block_state q = (block_state p)(b := In_use 1)"
    and "pool_wf q"
proof -
  from r have b: "b < length (metas p)" "ref_count (metas p ! b) = 0"
    and q: "q = p\<lparr>metas := (metas p)[b := (metas p ! b)\<lparr>ref_count := 1\<rparr>],
                  cached_count := cached_count p - 1\<rparr>"
    by (auto simp: reclaim_def vec_get_def split: if_splits Option.bind_splits)
  have st: "block_state q = (block_state p)(b := In_use 1)"
    using b nf by (auto simp: fun_eq_iff block_state_def q)
  have old: "block_state p b = Cached"
    using b nf by (simp add: block_state_def)
  from st old show "block_state p b = Cached \<and> block_state q = (block_state p)(b := In_use 1)" by blast
  have "card (cached_set q) = card (cached_set p) - 1"
    using card_cached_set_upd [OF st] by (simp add: old)
  then show "pool_wf q"
    using wf b nf by (auto simp: pool_wf_def q nth_list_update u32_max_def dest!: set_update_cases)
qed

lemma release_spec:
  assumes wf: "pool_wf p" and r: "release p b h = Some q"
  shows "\<exists>n. block_state p b = In_use (Suc n) \<and>
             block_state q = (block_state p)(b := (if n = 0 then Cached else In_use n))"
    and "pool_wf q"
proof -
  from r have b: "b < length (metas p)" "0 < ref_count (metas p ! b)"
    and q: "q = (if ref_count (metas p ! b) - 1 = 0
                 then p\<lparr>metas := (metas p)[b := (metas p ! b)\<lparr>ref_count := 0, meta_hash := h\<rparr>],
                        cached_count := cached_count p + 1\<rparr>
                 else p\<lparr>metas := (metas p)[b := (metas p ! b)\<lparr>ref_count := ref_count (metas p ! b) - 1\<rparr>]\<rparr>)"
    by (auto simp: release_def vec_get_def Let_def split: if_splits Option.bind_splits)
  from wf b have nf: "b \<notin> set (free p)" by (auto simp: pool_wf_def)
  obtain n where n: "ref_count (metas p ! b) = Suc n" using b(2) gr0_implies_Suc by blast
  have st: "block_state q = (block_state p)(b := (if n = 0 then Cached else In_use n))"
    using b nf n by (auto simp: fun_eq_iff block_state_def q)
  have old: "block_state p b = In_use (Suc n)"
    using b nf n by (simp add: block_state_def)
  from st old show "\<exists>n. block_state p b = In_use (Suc n) \<and>
             block_state q = (block_state p)(b := (if n = 0 then Cached else In_use n))" by blast
  have "card (cached_set q) = (if n = 0 then card (cached_set p) + 1 else card (cached_set p))"
    using card_cached_set_upd [OF st] card_cached_set_keep [OF st] by (simp add: old)
  moreover have "n \<le> u32_max"
    using pool_wf_meta_le [OF wf b(1)] n by simp
  ultimately show "pool_wf q"
    using wf b nf n by (auto simp: pool_wf_def q nth_list_update dest!: set_update_cases)
qed

lemma free_cached_spec:
  assumes wf: "pool_wf p" and nf: "b \<notin> set (free p)" and r: "free_cached p b = Some q"
  shows "block_state p b = Cached \<and> block_state q = (block_state p)(b := Free)"
    and "pool_wf q"
proof -
  from r have b: "b < length (metas p)" "ref_count (metas p ! b) = 0"
    and q: "q = p\<lparr>metas := (metas p)[b := (metas p ! b)\<lparr>pinned := False, meta_hash := 0\<rparr>],
                  cached_count := cached_count p - 1, free := free p @ [b]\<rparr>"
    by (auto simp: free_cached_def vec_get_def split: if_splits Option.bind_splits)
  have st: "block_state q = (block_state p)(b := Free)"
    using b nf by (auto simp: fun_eq_iff block_state_def q)
  have old: "block_state p b = Cached"
    using b nf by (simp add: block_state_def)
  from st old show "block_state p b = Cached \<and> block_state q = (block_state p)(b := Free)" by blast
  have "card (cached_set q) = card (cached_set p) - 1"
    using card_cached_set_upd [OF st] by (simp add: old)
  then show "pool_wf q"
    using wf b nf by (auto simp: pool_wf_def q nth_list_update dest!: set_update_cases)
qed

lemma pin_unpin_spec:
  assumes wf: "pool_wf p" and r: "(b \<notin> set (free p) \<and> pin p b = Some q) \<or> unpin p b = Some q"
  shows "block_state q = block_state p" and "pool_wf q"
proof -
  from r obtain v where b: "b < length (metas p)" and v: "b \<in> set (free p) \<Longrightarrow> \<not> v"
    and q: "q = p\<lparr>metas := (metas p)[b := (metas p ! b)\<lparr>pinned := v\<rparr>]\<rparr>"
    by (auto simp: pin_def unpin_def vec_get_def split: if_splits Option.bind_splits)
  show st: "block_state q = block_state p"
    using b by (auto simp: fun_eq_iff block_state_def q nth_list_update)
  then have "cached_set q = cached_set p"
    by (auto simp: cached_set_iff)
  then show "pool_wf q"
    using wf b v by (auto simp: pool_wf_def q nth_list_update dest!: set_update_cases)
qed

lemma alloc_fast_spec:
  assumes wf: "pool_wf p" and ne: "free p \<noteq> []"
  shows "\<exists>q. alloc p = Some (Some (last (free p)), q) \<and> pool_wf q \<and>
             block_state p (last (free p)) = Free \<and>
             block_state q = (block_state p)(last (free p) := In_use 1) \<and>
             free q = butlast (free p)"
proof -
  let ?b = "last (free p)"
  have bf: "?b \<in> set (free p)" using ne by simp
  then have b: "?b < length (metas p)" using wf by (auto simp: pool_wf_def)
  have dist: "distinct (butlast (free p))" "?b \<notin> set (butlast (free p))"
    using wf ne by (metis append_butlast_last_id distinct_append distinct_butlast
        disjoint_iff list.set_intros(1) pool_wf_def)+
  have setb: "set (free p) = insert ?b (set (butlast (free p)))"
    using ne by (metis append_butlast_last_id insert_is_Un list.simps(15) set_append sup_commute empty_set)
  define q where "q = p\<lparr>free := butlast (free p),
     metas := (metas p)[?b := (metas p ! ?b)\<lparr>ref_count := 1, meta_hash := 0\<rparr>],
     allocated_count := allocated_count p + 1\<rparr>"
  have a: "alloc p = Some (Some ?b, q)"
    using ne b by (simp add: alloc_def claim_block_def vec_get_def q_def)
  have st: "block_state q = (block_state p)(?b := In_use 1)"
    using b dist setb by (auto simp: fun_eq_iff block_state_def q_def)
  have old: "block_state p ?b = Free" using bf b by (simp add: block_state_def)
  have "card (cached_set q) = card (cached_set p)"
    by (rule card_cached_set_keep [OF st]) (simp_all add: old)
  then have "pool_wf q"
    using wf b dist setb by (auto simp: pool_wf_def q_def nth_list_update u32_max_def dest!: set_update_cases)
  with a st old show ?thesis by (auto simp: q_def)
qed

section \<open>The clock sweep\<close>

definition blocked :: "kv_block_pool \<Rightarrow> nat \<Rightarrow> bool" where
  "blocked p i \<longleftrightarrow> ref_count (metas p ! i) > 0 \<or> pinned (metas p ! i)"

definition evicted_pool :: "kv_block_pool \<Rightarrow> block_id \<Rightarrow> kv_block_pool" where
  "evicted_pool p b =
     p\<lparr>clock_hand := (b + 1) mod length (metas p),
       metas := (metas p)[b := block_meta_new], free := free p @ [b],
       eviction_count := eviction_count p + 1, allocated_count := allocated_count p - 1,
       cached_count := cached_count p - 1\<rparr>"

lemma evict_scan_Some:
  "evict_scan s off k p = (Some b, q) \<Longrightarrow>
     \<exists>i < k. b = (s + off + i) mod length (metas p) \<and> \<not> blocked p b \<and>
       (\<forall>j < i. blocked p ((s + off + j) mod length (metas p))) \<and> q = evicted_pool p b"
proof (induction s off k p rule: evict_scan.induct)
  case (1 start offset p)
  then show ?case by simp
next
  case (2 s off k p)
  let ?n = "length (metas p)" and ?idx = "(s + off) mod length (metas p)"
  show ?case
  proof (cases "blocked p ?idx")
    case True
    define p1 where "p1 = p\<lparr>clock_hand := (?idx + 1) mod ?n\<rparr>"
    have "evict_scan s (Suc off) k p1 = (Some b, q)"
      using "2.prems" True by (simp add: Let_def blocked_def p1_def)
    then obtain i where i: "i < k" "b = (s + Suc off + i) mod length (metas p1)" "\<not> blocked p1 b"
        "\<forall>j < i. blocked p1 ((s + Suc off + j) mod length (metas p1))" "q = evicted_pool p1 b"
      using "2.IH" [OF refl refl refl refl] True by (auto simp: blocked_def p1_def)
    have "\<forall>j < Suc i. blocked p ((s + off + j) mod ?n)"
    proof (intro allI impI)
      fix j assume "j < Suc i"
      then show "blocked p ((s + off + j) mod ?n)"
        using True i(4) by (cases j) (auto simp: p1_def blocked_def)
    qed
    with i show ?thesis
      by (intro exI [of _ "Suc i"]) (auto simp: p1_def blocked_def evicted_pool_def)
  next
    case False
    with "2.prems" show ?thesis
      by (intro exI [of _ 0]) (auto simp: Let_def blocked_def evicted_pool_def)
  qed
qed

lemma evict_scan_None:
  "evict_scan s off k p = (None, q) \<Longrightarrow>
     (\<forall>i < k. blocked p ((s + off + i) mod length (metas p))) \<and>
     (\<exists>h. q = p\<lparr>clock_hand := h\<rparr> \<and> (metas p \<noteq> [] \<and> clock_hand p < length (metas p)
          \<longrightarrow> h < length (metas p)))"
proof (induction s off k p rule: evict_scan.induct)
  case (1 start offset p)
  then have "q = p\<lparr>clock_hand := clock_hand p\<rparr>" by simp
  then show ?case by (intro conjI exI [of _ "clock_hand p"]) simp_all
next
  case (2 s off k p)
  let ?n = "length (metas p)" and ?idx = "(s + off) mod length (metas p)"
  define p1 where "p1 = p\<lparr>clock_hand := (?idx + 1) mod ?n\<rparr>"
  have bl: "blocked p ?idx"
    using "2.prems" by (auto simp: Let_def blocked_def split: if_splits)
  then have "evict_scan s (Suc off) k p1 = (None, q)"
    using "2.prems" by (simp add: Let_def blocked_def p1_def)
  then have IH: "\<forall>i < k. blocked p1 ((s + Suc off + i) mod length (metas p1))"
      "\<exists>h. q = p1\<lparr>clock_hand := h\<rparr> \<and> (metas p1 \<noteq> [] \<and> clock_hand p1 < length (metas p1)
          \<longrightarrow> h < length (metas p1))"
    using "2.IH" [OF refl refl refl refl] bl by (auto simp: blocked_def p1_def)
  have "blocked p ((s + off + i) mod ?n)" if "i < Suc k" for i
    using that bl IH(1) by (cases i) (auto simp: p1_def blocked_def)
  moreover have "\<exists>h. q = p\<lparr>clock_hand := h\<rparr> \<and> (metas p \<noteq> [] \<and> clock_hand p < ?n \<longrightarrow> h < ?n)"
    using IH(2) by (auto simp: p1_def)
  ultimately show ?case by blast
qed

lemma clock_covers:
  assumes "b < n"
  shows "\<exists>i < n. (s + i) mod n = (b::nat)"
proof -
  let ?i = "(b + (n - s mod n)) mod n"
  have "s mod n < n" using assms by simp
  then have "s mod n + (b + (n - s mod n)) = b + n" by simp
  then have "(s mod n + (b + (n - s mod n))) mod n = b"
    using assms by (metis mod_add_self2 mod_less)
  then have "(s + ?i) mod n = b"
    by (metis mod_add_eq mod_mod_trivial)
  then show ?thesis using assms by (intro exI [of _ ?i]) simp
qed

lemma evict_one_None_iff: "fst (evict_one p) = None \<longleftrightarrow> \<not> evictable p"
proof (cases "evict_one p")
  case (Pair r q)
  show ?thesis
  proof (cases r)
    case None
    with Pair have all: "\<forall>i < length (metas p). blocked p ((clock_hand p + i) mod length (metas p))"
      using evict_scan_None [of "clock_hand p" 0 "length (metas p)" p q] by (simp add: evict_one_def)
    have "blocked p b" if "b < length (metas p)" for b
      using clock_covers [OF that, of "clock_hand p"] all by auto
    with None Pair show ?thesis
      by (auto simp: evictable_def list_ex_length blocked_def)
  next
    case (Some b)
    with Pair obtain i where i: "i < length (metas p)" "b = (clock_hand p + i) mod length (metas p)"
      and nb: "\<not> blocked p b"
      using evict_scan_Some [of "clock_hand p" 0 "length (metas p)" p b q] by (auto simp: evict_one_def)
    from i have "b < length (metas p)" by (cases "metas p") simp_all
    with nb have "evictable p"
      unfolding evictable_def list_ex_length by (intro exI [of _ b]) (simp add: blocked_def)
    with Some Pair show ?thesis by simp
  qed
qed

lemma alloc_exhausted_spec:
  assumes wf: "pool_wf p" and e: "free p = []" and ne: "\<not> evictable p"
  shows "\<exists>q. alloc p = Some (None, q) \<and> pool_wf q \<and> block_state q = block_state p \<and> \<not> evictable q \<and> free q = []"
proof -
  obtain q where q: "evict_one p = (None, q)"
    using ne evict_one_None_iff [of p] by (metis prod.collapse)
  then obtain h where h: "q = p\<lparr>clock_hand := h\<rparr>" "h < length (metas p)"
    using evict_scan_None [of "clock_hand p" 0 "length (metas p)" p q] wf
    by (auto simp: evict_one_def pool_wf_def)
  have st: "block_state q = block_state p" by (auto simp: fun_eq_iff block_state_def h)
  then have "cached_set q = cached_set p" by (auto simp: cached_set_iff)
  with h wf have "pool_wf q" by (simp add: pool_wf_def)
  with q st e h ne show ?thesis by (simp add: alloc_def evictable_def)
qed

lemma evict_one_Some:
  assumes "evict_one p = (Some b, q)"
  shows "\<exists>i < length (metas p). b = (clock_hand p + i) mod length (metas p) \<and> \<not> blocked p b \<and>
       (\<forall>j < i. blocked p ((clock_hand p + j) mod length (metas p))) \<and> q = evicted_pool p b"
  using evict_scan_Some [of "clock_hand p" 0 "length (metas p)" p b q] assms
  by (simp add: evict_one_def)

section \<open>The pool as a provider of blocks\<close>

text \<open>
  What a client of the pool may rely on, over the abstract block states alone. The scheduler
  is such a client: it takes blocks out of the prefix cache (\<open>reclaim\<close>), gives blocks back
  (\<open>release\<close>, then \<open>pin\<close>) and frees evicted ones.
\<close>

locale block_store =
  fixes wf :: "'p \<Rightarrow> bool"
    and st :: "'p \<Rightarrow> nat \<Rightarrow> block_state"
    and reclaim_op :: "'p \<Rightarrow> nat \<Rightarrow> 'p option"
    and release_op :: "'p \<Rightarrow> nat \<Rightarrow> 'h \<Rightarrow> 'p option"
    and free_op :: "'p \<Rightarrow> nat \<Rightarrow> 'p option"
    and pin_op :: "'p \<Rightarrow> nat \<Rightarrow> 'p option"
    and unpin_op :: "'p \<Rightarrow> nat \<Rightarrow> 'p option"
  assumes reclaim_law: "wf p \<Longrightarrow> st p b = Cached \<Longrightarrow>
      \<exists>q. reclaim_op p b = Some q \<and> wf q \<and> st q = (st p)(b := In_use 1)"
    and reclaim_panics: "wf p \<Longrightarrow> st p b = In_use n \<Longrightarrow> reclaim_op p b = None"
    and release_law: "wf p \<Longrightarrow> st p b = In_use (Suc n) \<Longrightarrow>
      \<exists>q. release_op p b h = Some q \<and> wf q \<and> st q = (st p)(b := (if n = 0 then Cached else In_use n))"
    and free_law: "wf p \<Longrightarrow> st p b = Cached \<Longrightarrow>
      \<exists>q. free_op p b = Some q \<and> wf q \<and> st q = (st p)(b := Free)"
    and pin_law: "wf p \<Longrightarrow> st p b = Cached \<or> st p b = In_use n \<Longrightarrow>
      \<exists>q. pin_op p b = Some q \<and> wf q \<and> st q = st p"
    and unpin_law: "wf p \<Longrightarrow> st p b \<noteq> Absent \<Longrightarrow> \<exists>q. unpin_op p b = Some q \<and> wf q \<and> st q = st p"
begin

text \<open>Adopting a list of distinct cached blocks never panics and puts exactly them in use.\<close>

lemma reclaim_all_law:
  assumes "wf p" and "distinct bs" and "\<forall>b \<in> set bs. st p b = Cached"
  shows "\<exists>q. fold_opt (\<lambda>b q. reclaim_op q b) bs p = Some q \<and> wf q \<and>
             st q = (\<lambda>b. if b \<in> set bs then In_use 1 else st p b)"
  using assms
proof (induction bs arbitrary: p)
  case Nil
  then show ?case by simp
next
  case (Cons b bs)
  from Cons.prems obtain p1 where p1: "reclaim_op p b = Some p1" "wf p1" "st p1 = (st p)(b := In_use 1)"
    using reclaim_law by (meson list.set_intros(1))
  with Cons.prems have "\<forall>c \<in> set bs. st p1 c = Cached" by auto
  with Cons.IH [OF p1(2)] Cons.prems(2) obtain q where
    "fold_opt (\<lambda>b q. reclaim_op q b) bs p1 = Some q" "wf q"
    "st q = (\<lambda>c. if c \<in> set bs then In_use 1 else st p1 c)" by auto
  with p1 Cons.prems(2) show ?case by (auto simp: fun_eq_iff)
qed

text \<open>Adopting a list that contains a block in use panics: sharing is impossible.\<close>

lemma reclaim_all_shared_panics:
  assumes "wf p" and "distinct bs" and "\<forall>b \<in> set bs. st p b = Cached \<or> (\<exists>n. st p b = In_use n)"
    and "b \<in> set bs" and "st p b = In_use n"
  shows "fold_opt (\<lambda>b q. reclaim_op q b) bs p = None"
  using assms
proof (induction bs arbitrary: p)
  case Nil
  then show ?case by simp
next
  case (Cons c bs)
  show ?case
  proof (cases "st p c = Cached")
    case True
    with Cons.prems(5) have bc: "b \<noteq> c" by auto
    from True obtain p1 where p1: "reclaim_op p c = Some p1" "wf p1" "st p1 = (st p)(c := In_use 1)"
      using reclaim_law [OF Cons.prems(1)] by blast
    with Cons.IH [of p1] Cons.prems bc show ?thesis by (auto split: if_splits)
  next
    case False
    with Cons.prems obtain k where "st p c = In_use k" by auto
    then show ?thesis using reclaim_panics [OF Cons.prems(1)] by simp
  qed
qed

text \<open>Giving a block back and pinning it: the in-use block of one owner becomes cached.\<close>

lemma release_pin_law:
  assumes "wf p" and "st p b = In_use 1"
  shows "\<exists>q. do { q1 \<leftarrow> release_op p b h; pin_op q1 b } = Some q \<and> wf q \<and> st q = (st p)(b := Cached)"
proof -
  obtain q1 where "release_op p b h = Some q1" "wf q1" "st q1 = (st p)(b := Cached)"
    using release_law [OF assms(1), of b 0 h] assms(2) by auto
  with pin_law [of q1 b] show ?thesis by fastforce
qed

text \<open>Freeing a list of distinct cached blocks never panics.\<close>

lemma free_all_law:
  assumes "wf p" and "distinct bs" and "\<forall>b \<in> set bs. st p b = Cached"
  shows "\<exists>q. fold_opt (\<lambda>b q. do { q1 \<leftarrow> unpin_op q b; free_op q1 b }) bs p = Some q \<and> wf q \<and>
             st q = (\<lambda>b. if b \<in> set bs then Free else st p b)"
  using assms
proof (induction bs arbitrary: p)
  case Nil
  then show ?case by simp
next
  case (Cons b bs)
  then obtain p1 where p1: "unpin_op p b = Some p1" "wf p1" "st p1 = st p"
    using unpin_law [of p b] by auto
  then obtain p2 where p2: "free_op p1 b = Some p2" "wf p2" "st p2 = (st p)(b := Free)"
    using free_law [of p1 b] Cons.prems by auto
  with Cons.prems have "\<forall>c \<in> set bs. st p2 c = Cached" by auto
  with Cons.IH [OF p2(2)] Cons.prems(2) obtain q where
    "fold_opt (\<lambda>b q. do { q1 \<leftarrow> unpin_op q b; free_op q1 b }) bs p2 = Some q" "wf q"
    "st q = (\<lambda>c. if c \<in> set bs then Free else st p2 c)" by auto
  with p1 p2 Cons.prems(2) show ?case by (auto simp: fun_eq_iff)
qed

end

interpretation kv: block_store pool_wf block_state reclaim release free_cached pin unpin
proof unfold_locales
  fix p b assume wf: "pool_wf p" and c: "block_state p b = Cached"
  then have b: "b < length (metas p)" "ref_count (metas p ! b) = 0" and nf: "b \<notin> set (free p)"
    by (auto simp: block_state_def split: if_splits)
  from b obtain q where q: "reclaim p b = Some q" by (simp add: reclaim_def vec_get_def)
  with reclaim_spec [OF wf nf q]
  show "\<exists>q. reclaim p b = Some q \<and> pool_wf q \<and> block_state q = (block_state p)(b := In_use 1)" by simp
  from b obtain q where q: "free_cached p b = Some q" by (simp add: free_cached_def vec_get_def)
  with free_cached_spec [OF wf nf q]
  show "\<exists>q. free_cached p b = Some q \<and> pool_wf q \<and> block_state q = (block_state p)(b := Free)" by simp
next
  fix p b n assume "pool_wf p" "block_state p b = In_use n"
  then show "reclaim p b = None"
    by (auto simp: block_state_def reclaim_def vec_get_def split: if_splits)
next
  fix p b n and h :: u64 assume wf: "pool_wf p" and c: "block_state p b = In_use (Suc n)"
  then obtain q where q: "release p b h = Some q"
    by (auto simp: block_state_def release_def vec_get_def Let_def split: if_splits)
  with release_spec [OF wf q] c
  show "\<exists>q. release p b h = Some q \<and> pool_wf q \<and>
            block_state q = (block_state p)(b := (if n = 0 then Cached else In_use n))" by auto
next
  fix p b n assume wf: "pool_wf p" and c: "block_state p b = Cached \<or> block_state p b = In_use n"
  then have nf: "b \<notin> set (free p)" by (auto simp: block_state_def split: if_splits)
  from c obtain q where q: "pin p b = Some q"
    by (auto simp: block_state_def pin_def vec_get_def split: if_splits)
  with pin_unpin_spec [OF wf, of b q] nf
  show "\<exists>q. pin p b = Some q \<and> pool_wf q \<and> block_state q = block_state p" by auto
next
  fix p b assume wf: "pool_wf p" and c: "block_state p b \<noteq> Absent"
  then obtain q where q: "unpin p b = Some q"
    by (auto simp: block_state_def unpin_def vec_get_def split: if_splits)
  with pin_unpin_spec [OF wf, of b q]
  show "\<exists>q. unpin p b = Some q \<and> pool_wf q \<and> block_state q = block_state p" by auto
qed

section \<open>Repeated eviction\<close>

text \<open>An allocation that has to evict takes a cached block and leaves it in the free list.\<close>

lemma alloc_evicts:
  assumes "pool_wf p" and "free p = []" and "evictable p"
  shows "\<exists>b q. alloc p = Some (Some b, q) \<and> block_state p b = Cached \<and> ref_count (metas q ! b) = 1 \<and> free q = [b] \<and> b < length (metas q)"
proof -
  obtain b p1 where e: "evict_one p = (Some b, p1)"
    using assms(3) evict_one_None_iff [of p] by (metis option.collapse prod.collapse)
  from evict_one_Some [OF e] obtain i where i: "i < length (metas p)" "b = (clock_hand p + i) mod length (metas p)"
    and nb: "\<not> blocked p b" and p1: "p1 = evicted_pool p b"
    by blast
  from i have b: "b < length (metas p)" by (cases "metas p") simp_all
  define q where "q = p1\<lparr>metas := (metas p1)[b := (metas p1 ! b)\<lparr>ref_count := 1, meta_hash := 0\<rparr>],
                          allocated_count := allocated_count p1 + 1\<rparr>"
  have "alloc p = Some (Some b, q)"
    using assms(2) e b by (simp add: alloc_def claim_block_def vec_get_def q_def p1 evicted_pool_def)
  moreover have "free q = [b]" "ref_count (metas q ! b) = 1" "b < length (metas q)"
    using assms(2) b by (simp_all add: q_def p1 evicted_pool_def)
  moreover have "block_state p b = Cached" using b nb assms(2) by (simp add: block_state_def blocked_def)
  ultimately show ?thesis by blast
qed

text \<open>How far the clock hand has to move to reach a block.\<close>

definition clock_distance :: "nat \<Rightarrow> nat \<Rightarrow> nat \<Rightarrow> nat" where
  "clock_distance n h b = (if h \<le> b then b - h else b + n - h)"

lemma clock_distance_inverse:
  assumes "h < n" and "i < n"
  shows "clock_distance n h ((h + i) mod n) = i"
proof (cases "h + i < n")
  case False
  then have "(h + i) mod n = h + i - n" using assms by (simp add: mod_if)
  then show ?thesis using assms False by (simp add: clock_distance_def)
qed (simp add: clock_distance_def)

lemma clock_distance_mod: "h < n \<Longrightarrow> b < n \<Longrightarrow> (h + clock_distance n h b) mod n = b"
  by (auto simp: clock_distance_def)

lemma clock_distance_next:
  assumes "h < n" "b < n" "c < n" "clock_distance n h b < clock_distance n h c"
  shows "clock_distance n ((b + 1) mod n) c = clock_distance n h c - clock_distance n h b - 1"
  using assms by (cases "b + 1 < n") (auto simp: clock_distance_def mod_if split: if_splits)

lemma clock_distance_last: "b < n \<Longrightarrow> clock_distance n ((b + 1) mod n) b = n - 1"
  by (cases "b + 1 < n") (auto simp: clock_distance_def mod_if)

lemma clock_distance_less: "h < n \<Longrightarrow> b < n \<Longrightarrow> clock_distance n h b < n"
  by (auto simp: clock_distance_def)

lemma clock_distance_inj: "h < n \<Longrightarrow> b < n \<Longrightarrow> c < n \<Longrightarrow> clock_distance n h b = clock_distance n h c \<Longrightarrow> b = c"
  by (metis clock_distance_mod)

text \<open>The victim is the nearest block that is neither referenced nor pinned.\<close>

lemma evict_one_nearest:
  assumes "pool_wf p" and "evict_one p = (Some b, q)"
  shows "b < length (metas p)" and "\<not> blocked p b" and "q = evicted_pool p b"
    and "c < length (metas p) \<Longrightarrow> \<not> blocked p c \<Longrightarrow>
      clock_distance (length (metas p)) (clock_hand p) b \<le> clock_distance (length (metas p)) (clock_hand p) c"
proof -
  let ?n = "length (metas p)" and ?h = "clock_hand p"
  have h: "?h < ?n" using assms(1) by (simp add: pool_wf_def)
  obtain i where i: "i < ?n" "b = (?h + i) mod ?n" "\<not> blocked p b" "\<forall>j < i. blocked p ((?h + j) mod ?n)" "q = evicted_pool p b"
    using evict_one_Some [OF assms(2)] by blast
  have "0 < ?n" using h by linarith
  then show "b < ?n" "\<not> blocked p b" "q = evicted_pool p b" using i by simp_all
  assume c: "c < ?n" "\<not> blocked p c"
  have "\<not> clock_distance ?n ?h c < i" using c i(4) clock_distance_mod [OF h c(1)] by metis
  then show "clock_distance ?n ?h b \<le> clock_distance ?n ?h c" using clock_distance_inverse [OF h i(1)] i(2) by simp
qed

lemma evict_cached:
  assumes "pool_wf p" and "b < length (metas p)" and "\<not> blocked p b" and "b \<notin> set (free p)"
  shows "block_state p b = Cached" and "block_state (evicted_pool p b) = (block_state p)(b := Free)"
    and "pool_wf (evicted_pool p b)"
proof -
  let ?q = "evicted_pool p b"
  show old: "block_state p b = Cached" using assms by (simp add: block_state_def blocked_def)
  show st: "block_state ?q = (block_state p)(b := Free)"
    using assms by (auto simp: fun_eq_iff block_state_def evicted_pool_def)
  have "0 < length (metas p)" using assms(2) by linarith
  then have "Suc b mod length (metas p) < length (metas p)" by simp
  moreover have "card (cached_set ?q) = card (cached_set p) - 1" using card_cached_set_upd [OF st] by (simp add: old)
  ultimately show "pool_wf ?q"
    using assms
    by (auto simp: pool_wf_def evicted_pool_def nth_list_update block_meta_new_def dest!: set_update_cases)
qed

text \<open>While a call evicts, the blocks it has already freed are behind all that are still evictable.\<close>

definition freed_behind :: "kv_block_pool \<Rightarrow> bool" where
  "freed_behind p \<longleftrightarrow>
     (\<forall>f \<in> set (free p). \<forall>c < length (metas p). \<not> blocked p c \<and> c \<notin> set (free p) \<longrightarrow>
        clock_distance (length (metas p)) (clock_hand p) c < clock_distance (length (metas p)) (clock_hand p) f)"

definition victims :: "kv_block_pool \<Rightarrow> nat set" where
  "victims p = {b. b < length (metas p) \<and> \<not> blocked p b \<and> b \<notin> set (free p)}"

lemma evict_one_victim:
  assumes "pool_wf p" and "freed_behind p" and "victims p \<noteq> {}"
  shows "\<exists>b \<in> victims p. evict_one p = (Some b, evicted_pool p b) \<and> freed_behind (evicted_pool p b) \<and>
    victims (evicted_pool p b) = victims p - {b}"
proof -
  let ?n = "length (metas p)" and ?h = "clock_hand p"
  let ?d = "clock_distance ?n ?h"
  obtain c where c: "c < ?n" "\<not> blocked p c" "c \<notin> set (free p)" using assms(3) by (auto simp: victims_def)
  then have "evictable p" by (auto simp: evictable_def list_ex_length blocked_def)
  then obtain b q where e: "evict_one p = (Some b, q)" using evict_one_None_iff [of p] by (metis option.collapse prod.collapse)
  note b = evict_one_nearest [OF assms(1) e]
  have nb: "b \<notin> set (free p)"
    using b(4) [OF c(1,2)] assms(2) c by (auto simp: freed_behind_def dest!: bspec [of _ _ b] spec [of _ c])
  have h: "?h < ?n" using assms(1) by (simp add: pool_wf_def)
  have bl: "blocked (evicted_pool p b) x = blocked p x" if "x < ?n" for x
    using that b(1,2) by (cases "x = b") (simp_all add: blocked_def evicted_pool_def block_meta_new_def)
  have near: "?d b < ?d x" if "x < ?n" "\<not> blocked p x" "x \<noteq> b" for x
    using b(4) [OF that(1,2)] clock_distance_inj [OF h b(1) that(1)] that(3) by fastforce
  have lt: "clock_distance ?n ((b + 1) mod ?n) c' < clock_distance ?n ((b + 1) mod ?n) f"
    if f: "f = b \<or> f \<in> set (free p)" and c': "c' < ?n" "\<not> blocked p c'" "c' \<notin> set (free p)" "c' \<noteq> b" for f c'
  proof (cases "f = b")
    case True
    then show ?thesis
      using clock_distance_next [OF h b(1) c'(1) near [OF c'(1,2,4)]] clock_distance_less [OF h c'(1)] clock_distance_last [OF b(1)] near [OF c'(1,2,4)]
      by simp
  next
    case False
    then have f: "f \<in> set (free p)" "f < ?n" "\<not> blocked p f" using f pool_wf_free [OF assms(1)] by (auto simp: blocked_def)
    then have "?d c' < ?d f" using assms(2) c' by (simp add: freed_behind_def)
    then show ?thesis
      using clock_distance_next [OF h b(1) c'(1) near [OF c'(1,2,4)]] clock_distance_next [OF h b(1) f(2) near [OF f(2,3) False]]
        near [OF c'(1,2,4)] by linarith
  qed
  have "freed_behind (evicted_pool p b)"
    using lt bl by (auto simp: freed_behind_def) (auto simp: evicted_pool_def)
  moreover have "victims (evicted_pool p b) = victims p - {b}"
    using bl by (auto simp: victims_def) (auto simp: evicted_pool_def)
  ultimately show ?thesis using b nb e by (auto simp: victims_def)
qed

lemma evict_victims:
  assumes "pool_wf p" and "freed_behind p" and "target \<le> card (victims p)"
  shows "\<exists>B. B \<subseteq> victims p \<and> card B = target \<and> fst (evict target p) = target \<and> pool_wf (snd (evict target p)) \<and>
    block_state (snd (evict target p)) = (\<lambda>b. if b \<in> B then Free else block_state p b)"
  using assms
proof (induction target arbitrary: p)
  case 0
  then show ?case by (intro exI [of _ "{}"]) simp
next
  case (Suc k)
  have fin: "finite (victims p)" by (simp add: victims_def)
  obtain b where b: "b \<in> victims p" "evict_one p = (Some b, evicted_pool p b)" "freed_behind (evicted_pool p b)"
    "victims (evicted_pool p b) = victims p - {b}" using evict_one_victim [OF Suc.prems(1,2)] Suc.prems(3) by force
  have st: "block_state (evicted_pool p b) = (block_state p)(b := Free)" "pool_wf (evicted_pool p b)"
    using evict_cached [OF Suc.prems(1)] b(1) by (auto simp: victims_def)
  have "k \<le> card (victims (evicted_pool p b))" using Suc.prems(3) b(1) fin by (simp add: b(4))
  then obtain B where B: "B \<subseteq> victims p - {b}" "card B = k" "fst (evict k (evicted_pool p b)) = k"
    "pool_wf (snd (evict k (evicted_pool p b)))"
    "block_state (snd (evict k (evicted_pool p b))) = (\<lambda>c. if c \<in> B then Free else block_state (evicted_pool p b) c)"
    using Suc.IH [OF st(2) b(3)] b(4) by auto
  have "finite B" using B(1) fin finite_subset by blast
  then show ?case using B b(1,2) st(1) by (intro exI [of _ "insert b B"]) (auto simp: split_beta fun_eq_iff)
qed

lemma card_victims:
  assumes "free p = []"
  shows "card (victims p) = length (filter (\<lambda>m. ref_count m = 0 \<and> \<not> pinned m) (metas p))"
  using assms by (simp add: victims_def blocked_def length_filter_conv_card conj_commute)

lemma victims_cached: "b \<in> victims p \<Longrightarrow> block_state p b = Cached"
  by (simp add: victims_def block_state_def blocked_def)

section \<open>The pool operations as a state machine\<close>

datatype pool_op =
    Do_alloc | Do_retain block_id | Do_reclaim block_id | Do_release block_id u64
  | Do_free_cached block_id | Do_pin block_id | Do_unpin block_id | Do_evict nat

fun pool_exec :: "pool_op \<Rightarrow> kv_block_pool \<Rightarrow> kv_block_pool option" where
  "pool_exec Do_alloc p = map_option snd (alloc p)"
| "pool_exec (Do_retain b) p = retain p b"
| "pool_exec (Do_reclaim b) p = reclaim p b"
| "pool_exec (Do_release b h) p = release p b h"
| "pool_exec (Do_free_cached b) p = free_cached p b"
| "pool_exec (Do_pin b) p = pin p b"
| "pool_exec (Do_unpin b) p = unpin p b"
| "pool_exec (Do_evict target) p = Some (snd (evict target p))"

text \<open>
  The usage discipline: blocks named by the client are not in the free list, \<open>alloc\<close> is
  not called when it would have to evict (every cached block is pinned), and \<open>evict\<close> is called
  on an empty free list, for at most as many blocks as are evictable.
\<close>

fun pool_guard :: "pool_op \<Rightarrow> kv_block_pool \<Rightarrow> bool" where
  "pool_guard Do_alloc p \<longleftrightarrow> free p \<noteq> [] \<or> \<not> evictable p"
| "pool_guard (Do_reclaim b) p \<longleftrightarrow> b \<notin> set (free p)"
| "pool_guard (Do_free_cached b) p \<longleftrightarrow> b \<notin> set (free p)"
| "pool_guard (Do_pin b) p \<longleftrightarrow> b \<notin> set (free p)"
| "pool_guard (Do_evict target) p \<longleftrightarrow> free p = [] \<and> target \<le> length (filter (\<lambda>m. ref_count m = 0 \<and> \<not> pinned m) (metas p))"
| "pool_guard _ p \<longleftrightarrow> True"

inductive pool_reachable :: "kv_block_pool \<Rightarrow> bool" where
  start: "pool_reachable (pool_new cap)"
| step: "pool_reachable p \<Longrightarrow> pool_guard op p \<Longrightarrow> pool_exec op p = Some q \<Longrightarrow> pool_reachable q"

text \<open>The abstract machine over block states that the pool implements.\<close>

inductive block_step :: "pool_op \<Rightarrow> (nat \<Rightarrow> block_state) \<Rightarrow> (nat \<Rightarrow> block_state) \<Rightarrow> bool" where
  take_free: "s b = Free \<Longrightarrow> block_step Do_alloc s (s(b := In_use 1))"
| exhausted: "\<forall>b. s b \<noteq> Free \<Longrightarrow> block_step Do_alloc s s"
| share: "s b = In_use n \<Longrightarrow> block_step (Do_retain b) s (s(b := In_use (saturating_add_u32 n 1)))"
| adopt: "s b = Cached \<Longrightarrow> block_step (Do_reclaim b) s (s(b := In_use 1))"
| drop_last: "s b = In_use 1 \<Longrightarrow> block_step (Do_release b h) s (s(b := Cached))"
| drop_one: "s b = In_use (Suc (Suc n)) \<Longrightarrow> block_step (Do_release b h) s (s(b := In_use (Suc n)))"
| uncache: "s b = Cached \<Longrightarrow> block_step (Do_free_cached b) s (s(b := Free))"
| set_pin: "block_step (Do_pin b) s s"
| clear_pin: "block_step (Do_unpin b) s s"
| recycle: "finite B \<Longrightarrow> \<forall>b \<in> B. s b = Cached \<Longrightarrow> block_step (Do_evict (card B)) s (\<lambda>b. if b \<in> B then Free else s b)"

lemmas block_step_rules = block_step.intros block_step.intros [unfolded One_nat_def]

lemma alloc_guarded_cases:
  assumes "pool_wf p" and "pool_guard Do_alloc p"
  obtains (fast) q where "free p \<noteq> []" "alloc p = Some (Some (last (free p)), q)" "pool_wf q"
      "block_state p (last (free p)) = Free"
      "block_state q = (block_state p)(last (free p) := In_use 1)" "free q = butlast (free p)"
  | (none) q where "free p = []" "alloc p = Some (None, q)" "pool_wf q" "block_state q = block_state p"
  using assms alloc_fast_spec [OF assms(1)] alloc_exhausted_spec [OF assms(1)] by auto

lemma pool_step_refines:
  assumes wf: "pool_wf p" and g: "pool_guard op p" and e: "pool_exec op p = Some q"
  shows "pool_wf q \<and> block_step op (block_state p) (block_state q)"
proof (cases op)
  case Do_alloc
  with wf g have "pool_guard Do_alloc p" by simp
  with wf show ?thesis
  proof (cases rule: alloc_guarded_cases)
    case (fast q')
    with e Do_alloc show ?thesis by (auto intro: block_step_rules)
  next
    case (none q')
    then have "\<forall>b. block_state p b \<noteq> Free" by (auto simp: block_state_def)
    with none e Do_alloc show ?thesis by (auto intro: block_step_rules)
  qed
next
  case (Do_retain b)
  with e retain_spec [OF wf, of b q] show ?thesis by (auto intro: block_step_rules)
next
  case (Do_reclaim b)
  with e g reclaim_spec [OF wf, of b q] show ?thesis by (auto intro: block_step_rules)
next
  case (Do_release b h)
  with e have r: "release p b h = Some q" by simp
  from release_spec(1) [OF wf r] obtain n where n: "block_state p b = In_use (Suc n)"
    "block_state q = (block_state p)(b := (if n = 0 then Cached else In_use n))" by blast
  with release_spec(2) [OF wf r] Do_release show ?thesis
    by (cases n) (auto intro: block_step_rules)
next
  case (Do_free_cached b)
  with e g free_cached_spec [OF wf, of b q] show ?thesis by (auto intro: block_step_rules)
next
  case (Do_pin b)
  with e g pin_unpin_spec [OF wf, of b q] show ?thesis by (auto intro: block_step_rules)
next
  case (Do_unpin b)
  with e g pin_unpin_spec [OF wf, of b q] show ?thesis by (auto intro: block_step_rules)
next
  case (Do_evict k)
  then have fr: "free p = []" "k \<le> card (victims p)" using g card_victims [of p] by auto
  then obtain B where B: "B \<subseteq> victims p" "card B = k" "pool_wf (snd (evict k p))"
    "block_state (snd (evict k p)) = (\<lambda>b. if b \<in> B then Free else block_state p b)"
    using evict_victims [OF wf, of k] by (auto simp: freed_behind_def)
  moreover have "finite B" using B(1) finite_subset [of B "victims p"] by (simp add: victims_def)
  moreover have "\<forall>b \<in> B. block_state p b = Cached" using B(1) victims_cached by blast
  ultimately show ?thesis using e Do_evict block_step.recycle [of B "block_state p"] by auto
qed

lemma pool_reachable_wf: "pool_reachable p \<Longrightarrow> pool_wf p"
  by (induction rule: pool_reachable.induct) (auto simp: pool_new_wf dest: pool_step_refines)

section \<open>Properties of the pool\<close>



text \<open>C2: a block handed out by \<open>alloc\<close> was free, is owned exactly once afterwards, and is not
  handed out again by the next allocation while it is in use (under the usage discipline).\<close>

theorem alloc_never_hands_out_twice:
  assumes "pool_reachable p" and "pool_guard Do_alloc p" and "alloc p = Some (Some b, q)"
  shows "block_state p b = Free \<and> block_state q b = In_use 1 \<and>
         (\<forall>c r. pool_guard Do_alloc q \<and> alloc q = Some (Some c, r) \<longrightarrow> c \<noteq> b)"
proof -
  have wf: "pool_wf p" using assms(1) by (rule pool_reachable_wf)
  from wf assms(2) show ?thesis
  proof (cases rule: alloc_guarded_cases)
    case (fast q')
    with assms(3) have bq: "b = last (free p)" "q' = q" by auto
    have "c \<noteq> b" if g: "pool_guard Do_alloc q" and a: "alloc q = Some (Some c, r)" for c r
    proof -
      have "pool_wf q" using fast(3) bq by simp
      from this g have "block_state q c = Free"
        by (cases rule: alloc_guarded_cases) (use a in auto)
      with fast(5) bq show ?thesis by auto
    qed
    with fast bq show ?thesis by auto
  next
    case (none q')
    with assms(3) show ?thesis by simp
  qed
qed

theorem alloc_never_hands_out_twice_witness:
  "\<exists>q. alloc (pool_new 2) = Some (Some 0, q) \<and> block_state q 0 = In_use 1"
proof -
  have r: "pool_reachable (pool_new 2)" by (rule pool_reachable.start)
  have g: "pool_guard Do_alloc (pool_new 2)"
    by (simp add: pool_new_def Let_def MAX_BLOCKS_def upt_rec)
  obtain q where a: "alloc (pool_new 2) = Some (Some 0, q)"
    by (simp add: alloc_def claim_block_def vec_get_def pool_new_def Let_def MAX_BLOCKS_def upt_rec)
  show ?thesis using a alloc_never_hands_out_twice [OF r g a] by blast
qed

text \<open>When the free list is empty and some cached block is unpinned, \<open>alloc\<close> evicts that block,
  marks it in use, and leaves it in the free list; the very next \<open>alloc\<close> returns the same
  block although it is still in use. The slow path double-allocates.\<close>

theorem alloc_after_eviction_double_allocates:
  assumes "pool_wf p" and "free p = []" and "evictable p"
  shows "\<exists>b q r. alloc p = Some (Some b, q) \<and> ref_count (metas q ! b) = 1 \<and> b \<in> set (free q) \<and>
                 alloc q = Some (Some b, r)"
proof -
  obtain b q where q: "alloc p = Some (Some b, q)" "free q = [b]" "b < length (metas q)" "ref_count (metas q ! b) = 1"
    using alloc_evicts [OF assms] by blast
  then obtain r where "alloc q = Some (Some b, r)" by (simp add: alloc_def claim_block_def vec_get_def)
  with q show ?thesis by auto
qed

theorem alloc_after_eviction_double_allocates_witness:
  "\<exists>p. pool_wf p \<and> free p = [] \<and> evictable p \<and>
     (\<exists>b q r. alloc p = Some (Some b, q) \<and> b \<in> set (free q) \<and> alloc q = Some (Some b, r))"
proof -
  let ?p = "\<lparr>metas = [\<lparr>ref_count = 0, pinned = False, meta_hash = 42\<rparr>, \<lparr>ref_count = 1, pinned = False, meta_hash = 0\<rparr>],
     free = [], clock_hand = 0, eviction_count = 0, allocated_count = 2, cached_count = 1\<rparr>"
  have "cached_set ?p = {0}"
    by (auto simp: cached_set_iff block_state_def less_Suc_eq numeral_2_eq_2 split: if_splits)
  then have wf: "pool_wf ?p" by (simp add: pool_wf_def u32_max_def)
  have e: "evictable ?p" by (simp add: evictable_def)
  have f: "free ?p = []" by simp
  show ?thesis using wf e f alloc_after_eviction_double_allocates [OF wf f e] by blast
qed

text \<open>The clock sweep evicts the first block at or after the clock hand that is neither
  referenced nor pinned, moves the hand just past it, and gives up only when there is none.\<close>

theorem evict_one_clock_order:
  assumes "pool_wf p" and "evictable p"
  shows "\<exists>b q i. evict_one p = (Some b, q) \<and> i < length (metas p) \<and>
           b = (clock_hand p + i) mod length (metas p) \<and> \<not> blocked p b \<and>
           (\<forall>j < i. blocked p ((clock_hand p + j) mod length (metas p))) \<and>
           clock_hand q = (b + 1) mod length (metas p) \<and> eviction_count q = eviction_count p + 1"
proof -
  obtain b q where e: "evict_one p = (Some b, q)"
    using assms(2) evict_one_None_iff [of p] by (metis option.collapse prod.collapse)
  with evict_one_Some [OF e] show ?thesis by (auto simp: evicted_pool_def)
qed

theorem evict_one_clock_order_witness:
  "\<exists>b q. evict_one (pool_new 3) = (Some b, q) \<and> clock_hand q = (b + 1) mod length (metas (pool_new 3))"
proof -
  have e: "evictable (pool_new 3)"
    by (simp add: evictable_def pool_new_def Let_def MAX_BLOCKS_def block_meta_new_def list_ex_iff)
  show ?thesis using evict_one_clock_order [OF pool_new_wf e] by blast
qed

text \<open>The bookkeeping identity of allocated plus available blocks is kept by every guarded
  operation other than \<open>evict\<close> except \<open>free_cached\<close>, which returns a block to the free list without lowering
  \<open>allocated_count\<close> and so inflates the sum by one on every call.\<close>

theorem allocated_count_drifts_on_free_cached:
  assumes "pool_wf p" and "pool_guard op p" and "pool_exec op p = Some q" and "op \<notin> range Do_evict"
  shows "allocated q + available q =
           allocated p + available p + (case op of Do_free_cached _ \<Rightarrow> 1 | _ \<Rightarrow> 0)"
proof (cases op)
  case Do_alloc
  show ?thesis
  proof (cases "free p = []")
    case True
    with Do_alloc assms(2) have ne: "\<not> evictable p" by simp
    then obtain r where r: "evict_one p = (None, r)"
      using evict_one_None_iff [of p] by (metis prod.collapse)
    then obtain h where "r = p\<lparr>clock_hand := h\<rparr>"
      using evict_scan_None [of "clock_hand p" 0 "length (metas p)" p r] by (auto simp: evict_one_def)
    then have "allocated_count r = allocated_count p \<and> free r = free p" by simp
    with r True Do_alloc assms(3) show ?thesis
      by (simp add: alloc_def allocated_def available_def)
  next
    case False
    with Do_alloc assms(3) show ?thesis
      by (auto simp: alloc_def claim_block_def allocated_def available_def vec_get_def
          split: if_splits Option.bind_splits)
  qed
qed (use assms(3,4) in \<open>auto simp: pool_ops_defs allocated_def available_def vec_get_def Let_def
       split: if_splits Option.bind_splits\<close>)

theorem allocated_count_drifts_on_free_cached_witness:
  "\<exists>p q. pool_wf p \<and> free_cached p 0 = Some q \<and> allocated q + available q = allocated p + available p + 1"
proof -
  let ?p = "\<lparr>metas = [\<lparr>ref_count = 0, pinned = False, meta_hash = 42\<rparr>],
     free = [], clock_hand = 0, eviction_count = 0, allocated_count = 1, cached_count = 1\<rparr>"
  have "cached_set ?p = {0}"
    by (auto simp: cached_set_iff block_state_def split: if_splits)
  then have wf: "pool_wf ?p" by (simp add: pool_wf_def u32_max_def)
  obtain q where q: "pool_exec (Do_free_cached 0) ?p = Some q"
    by (simp add: free_cached_def vec_get_def)
  have g: "pool_guard (Do_free_cached 0) ?p" by simp
  show ?thesis using wf q allocated_count_drifts_on_free_cached [OF wf g q] by auto
qed

text \<open>The best-effort \<open>evict\<close> does not look at the free list: on a fresh pool of any capacity,
  where nothing is cached, it reports one eviction and puts a free block into the free list a
  second time.\<close>

theorem evict_on_fresh_pool_duplicates_free_block:
  "fst (evict 1 (pool_new cap)) = 1 \<and> \<not> distinct (free (snd (evict 1 (pool_new cap))))"
proof -
  let ?p = "pool_new cap"
  have e: "evictable ?p"
    by (simp add: evictable_def pool_new_def Let_def block_meta_new_def list_ex_iff)
  then obtain b q where ev: "evict_one ?p = (Some b, q)"
    using evict_one_None_iff [of ?p] by (metis option.collapse prod.collapse)
  from evict_one_Some [OF ev] obtain i where i: "i < length (metas ?p)"
      "b = (clock_hand ?p + i) mod length (metas ?p)" "q = evicted_pool ?p b" by blast
  then have "b \<in> set (free ?p)" by (simp add: pool_new_def Let_def)
  with i ev show ?thesis by (simp add: evicted_pool_def)
qed

section \<open>The prefix cache\<close>

text \<open>
  The cache after a history of insertions. Its keys are exactly the hashes of the block
  prefixes of the inserted sequences, and each key stores a block prefix inserted under it.
\<close>

definition cache_of :: "(token list \<times> block_id list) list \<Rightarrow> prefix_cache" where
  "cache_of ins = fold (\<lambda>(t, b) c. prefix_insert c t b) ins prefix_cache_new"

definition inserted_prefix ::
  "(token list \<times> block_id list) list \<Rightarrow> token list \<Rightarrow> block_id list \<Rightarrow> nat \<Rightarrow> bool" where
  "inserted_prefix ins t b n \<longleftrightarrow> (t, b) \<in> set ins \<and> 1 \<le> n \<and> n \<le> length b"

definition stored_ok :: "(token list \<times> block_id list) list \<Rightarrow> prefix_cache \<Rightarrow> bool" where
  "stored_ok ins c \<longleftrightarrow>
     (\<forall>h bs. map_of (pc_entries c) h = Some bs \<longrightarrow>
        (\<exists>t b n. inserted_prefix ins t b n \<and> h = prefix_hash t (n * BLOCK_SIZE) \<and> bs = take n b))"

definition complete_for :: "token list \<Rightarrow> nat set \<Rightarrow> prefix_cache \<Rightarrow> bool" where
  "complete_for t N c \<longleftrightarrow> (\<forall>n \<in> N. map_of (pc_entries c) (prefix_hash t (n * BLOCK_SIZE)) \<noteq> None)"

lemma map_of_update: "map_of (AList.update k v xs) = (map_of xs)(k \<mapsto> v)"
  by (simp add: update_conv fun_eq_iff)

lemma insert_one_entries:
  "map_of (pc_entries (prefix_insert_one t b n c)) =
     (case map_of (pc_entries c) (prefix_hash t (n * BLOCK_SIZE)) of
        Some _ \<Rightarrow> map_of (pc_entries c)
      | None \<Rightarrow> (map_of (pc_entries c))(prefix_hash t (n * BLOCK_SIZE) \<mapsto> take n b))"
  by (auto simp: prefix_insert_one_def Let_def map_of_update split: option.splits)

lemma insert_one_stored_ok:
  assumes "stored_ok ins c" and "inserted_prefix ins t b n"
  shows "stored_ok ins (prefix_insert_one t b n c)"
  using assms unfolding stored_ok_def insert_one_entries by (auto split: option.splits)

lemma insert_one_complete:
  "complete_for t N c \<Longrightarrow> complete_for t N (prefix_insert_one t' b n c)"
  "complete_for t {n} (prefix_insert_one t b n c)"
  by (auto simp: complete_for_def insert_one_entries split: option.splits)

lemma fold_insert_stored_ok:
  assumes "stored_ok ins c" and "\<forall>n \<in> set ns. inserted_prefix ins t b n"
  shows "stored_ok ins (fold (prefix_insert_one t b) ns c)"
  using assms by (induction ns arbitrary: c) (auto simp: insert_one_stored_ok)

lemma fold_insert_complete_mono:
  "complete_for t N c \<Longrightarrow> complete_for t N (fold (prefix_insert_one t' b) ns c)"
  by (induction ns arbitrary: c) (auto simp: insert_one_complete)

lemma fold_insert_complete:
  "complete_for t (set ns) (fold (prefix_insert_one t b) ns c)"
proof (induction ns arbitrary: c)
  case Nil
  then show ?case by (simp add: complete_for_def)
next
  case (Cons n ns)
  have "complete_for t {n} (fold (prefix_insert_one t b) ns (prefix_insert_one t b n c))"
    by (rule fold_insert_complete_mono) (rule insert_one_complete)
  with Cons.IH [of "prefix_insert_one t b n c"] show ?case
    by (auto simp: complete_for_def)
qed

lemma stored_ok_mono: "stored_ok ins c \<Longrightarrow> set ins \<subseteq> set ins' \<Longrightarrow> stored_ok ins' c"
  by (fastforce simp: stored_ok_def inserted_prefix_def)

lemma cache_of_snoc: "cache_of (ins @ [(t, b)]) = prefix_insert (cache_of ins) t b"
  by (simp add: cache_of_def)

lemma cache_of_stored_ok: "stored_ok ins (cache_of ins)"
proof (induction ins rule: rev_induct)
  case Nil
  then show ?case by (simp add: stored_ok_def cache_of_def prefix_cache_new_def)
next
  case (snoc x ins)
  obtain t b where x: "x = (t, b)" by (cases x)
  have "stored_ok (ins @ [(t, b)]) (cache_of ins)"
    using snoc.IH by (rule stored_ok_mono) auto
  then show ?case
    unfolding x cache_of_snoc prefix_insert_def
    by (rule fold_insert_stored_ok) (auto simp: inserted_prefix_def)
qed

lemma cache_of_complete: "(t, b) \<in> set ins \<Longrightarrow> complete_for t {1..length b} (cache_of ins)"
proof (induction ins rule: rev_induct)
  case Nil
  then show ?case by simp
next
  case (snoc x ins)
  obtain t' b' where x: "x = (t', b')" by (cases x)
  show ?case
  proof (cases "(t, b) \<in> set ins")
    case True
    with snoc.IH show ?thesis
      unfolding x cache_of_snoc prefix_insert_def by (blast intro: fold_insert_complete_mono)
  next
    case False
    with snoc.prems x have "t' = t" "b' = b" by auto
    then show ?thesis
      unfolding x cache_of_snoc prefix_insert_def
      using fold_insert_complete [of t "[1..<length b + 1]" b "cache_of ins"]
      by (simp add: atLeastLessThanSuc_atLeastAtMost del: upt_Suc)
  qed
qed

lemma prefix_search_Some:
  "prefix_search c q n = Some (m, bs) \<Longrightarrow>
     \<exists>k. 1 \<le> k \<and> k \<le> n \<and> m = k * BLOCK_SIZE \<and> map_of (pc_entries c) (prefix_hash q m) = Some bs \<and>
         (\<forall>j. k < j \<and> j \<le> n \<longrightarrow> map_of (pc_entries c) (prefix_hash q (j * BLOCK_SIZE)) = None)"
proof (induction n)
  case 0
  then show ?case by simp
next
  case (Suc n)
  show ?case
  proof (cases "map_of (pc_entries c) (prefix_hash q (Suc n * BLOCK_SIZE))")
    case None
    with Suc.prems have "prefix_search c q n = Some (m, bs)" by simp
    with Suc.IH None show ?thesis by (auto simp: le_Suc_eq)
  next
    case (Some a)
    with Suc.prems show ?thesis by (intro exI [of _ "Suc n"]) auto
  qed
qed

lemma prefix_search_None:
  "prefix_search c q n = None \<Longrightarrow> 1 \<le> j \<Longrightarrow> j \<le> n \<Longrightarrow>
     map_of (pc_entries c) (prefix_hash q (j * BLOCK_SIZE)) = None"
  by (induction n) (auto simp: le_Suc_eq split: option.splits)

lemma prefix_hash_eq: "prefix_hash q n = hash_tokens (take n q)"
  by (simp add: prefix_hash_def min_def)

text \<open>No two of the token prefixes in play have the same 64-bit hash.\<close>

definition collision_free :: "(token list \<times> block_id list) list \<Rightarrow> token list \<Rightarrow> bool" where
  "collision_free ins q \<longleftrightarrow>
     inj_on hash_tokens
       (set (concat (map (\<lambda>(t, b). map (\<lambda>n. take (n * BLOCK_SIZE) t) [0..<length b + 1]) ins)) \<union>
        set (map (\<lambda>n. take (n * BLOCK_SIZE) q) [0..<length q + 1]))"

definition aligned :: "(token list \<times> block_id list) list \<Rightarrow> bool" where
  "aligned ins \<longleftrightarrow> list_all (\<lambda>(t, b). length t = length b * BLOCK_SIZE) ins"

lemma div_ceil_le: "div_ceil n BLOCK_SIZE \<le> n"
  by (cases n) (auto simp: div_ceil_def BLOCK_SIZE_def)

lemma collision_free_eq:
  assumes "collision_free ins q" and "inserted_prefix ins t b n" and "k \<le> length q"
    and "hash_tokens (take (n * BLOCK_SIZE) t) = hash_tokens (take (k * BLOCK_SIZE) q)"
  shows "take (n * BLOCK_SIZE) t = take (k * BLOCK_SIZE) q"
proof -
  have "take (n * BLOCK_SIZE) t \<in> set (concat (map (\<lambda>(t, b). map (\<lambda>n. take (n * BLOCK_SIZE) t) [0..<length b + 1]) ins))"
    using assms(2) by (auto simp: inserted_prefix_def simp del: upt_Suc intro!: bexI [of _ "(t, b)"])
  moreover have "take (k * BLOCK_SIZE) q \<in> set (map (\<lambda>n. take (n * BLOCK_SIZE) q) [0..<length q + 1])"
    using assms(3) by (simp del: upt_Suc)
  ultimately show ?thesis
    using inj_onD [OF assms(1) [unfolded collision_free_def] assms(4)] by blast
qed

lemma aligned_take_length:
  assumes "aligned ins" and "inserted_prefix ins t b n"
  shows "length (take (n * BLOCK_SIZE) t) = n * BLOCK_SIZE"
  using assms by (auto simp: aligned_def inserted_prefix_def list_all_iff BLOCK_SIZE_def)

text \<open>Without 64-bit hash collisions, a hit of the hash-keyed prefix cache returns the blocks that
  were inserted for exactly the matched prompt prefix, the match is whole blocks of the prompt,
  and no inserted sequence shares a longer whole-block prefix with the prompt.\<close>

theorem prefix_cache_lookup_sound_maximal:
  assumes al: "aligned ins" and cf: "collision_free ins q"
    and l: "prefix_lookup (cache_of ins) q = (Some (m, bs), c')"
  shows "\<exists>t b n. inserted_prefix ins t b n \<and> m = n * BLOCK_SIZE \<and> m \<le> length q \<and> bs = take n b \<and>
           take m t = take m q \<and>
           (\<forall>t' b' n'. inserted_prefix ins t' b' n' \<and> n' * BLOCK_SIZE \<le> length q \<and>
              take (n' * BLOCK_SIZE) t' = take (n' * BLOCK_SIZE) q \<longrightarrow> n' \<le> n)"
proof -
  let ?c = "cache_of ins" and ?N = "div_ceil (length q) BLOCK_SIZE"
  from l have "prefix_search ?c q ?N = Some (m, bs)"
    by (auto simp: prefix_lookup_def split: option.splits)
  then obtain k where k: "1 \<le> k" "k \<le> ?N" "m = k * BLOCK_SIZE"
      "map_of (pc_entries ?c) (prefix_hash q m) = Some bs"
      "\<forall>j. k < j \<and> j \<le> ?N \<longrightarrow> map_of (pc_entries ?c) (prefix_hash q (j * BLOCK_SIZE)) = None"
    using prefix_search_Some by blast
  from cache_of_stored_ok [of ins] k(4) obtain t b n where
    ip: "inserted_prefix ins t b n" and h: "prefix_hash q m = prefix_hash t (n * BLOCK_SIZE)" and bs: "bs = take n b"
    unfolding stored_ok_def by blast
  have kq: "k \<le> length q" using k(2) div_ceil_le by (rule le_trans)
  have eq: "take (n * BLOCK_SIZE) t = take (k * BLOCK_SIZE) q"
    using collision_free_eq [OF cf ip kq] h k(3) by (simp add: prefix_hash_eq)
  have "n * BLOCK_SIZE = min (length q) (k * BLOCK_SIZE)"
    using aligned_take_length [OF al ip] eq by (metis length_take)
  moreover have "length q > (k - 1) * BLOCK_SIZE"
    using k(1,2) by (auto simp: div_ceil_def BLOCK_SIZE_def)
  ultimately have nk: "n = k"
    using k(1,3) unfolding BLOCK_SIZE_def by linarith
  with \<open>n * BLOCK_SIZE = min (length q) (k * BLOCK_SIZE)\<close> k(3) have mq: "m \<le> length q" by simp
  have "n' \<le> n" if n': "inserted_prefix ins t' b' n'" "n' * BLOCK_SIZE \<le> length q"
      "take (n' * BLOCK_SIZE) t' = take (n' * BLOCK_SIZE) q" for t' b' n'
  proof (rule ccontr)
    assume "\<not> n' \<le> n"
    moreover have "n' \<le> ?N" using n'(2) by (auto simp: div_ceil_def BLOCK_SIZE_def)
    ultimately have "map_of (pc_entries ?c) (prefix_hash q (n' * BLOCK_SIZE)) = None"
      using k(5) nk by simp
    moreover have "map_of (pc_entries ?c) (prefix_hash t' (n' * BLOCK_SIZE)) \<noteq> None"
      using cache_of_complete [of t' b' ins] n'(1) by (auto simp: inserted_prefix_def complete_for_def)
    ultimately show False using n'(3) by (simp add: prefix_hash_eq)
  qed
  with ip bs eq nk mq k(3) show ?thesis by blast
qed

theorem prefix_cache_lookup_sound_maximal_witness:
  "\<exists>m bs c'. prefix_lookup (cache_of [([0, 1, 2, 3, 4, 5, 6, 7, 8, 9, 10, 11, 12, 13, 14, 15], [7])])
       [0, 1, 2, 3, 4, 5, 6, 7, 8, 9, 10, 11, 12, 13, 14, 15] = (Some (m, bs), c') \<and> m \<le> 16"
proof -
  let ?t = "[0, 1, 2, 3, 4, 5, 6, 7, 8, 9, 10, 11, 12, 13, 14, 15] :: token list"
  have al: "aligned [(?t, [7])]" by (simp add: aligned_def BLOCK_SIZE_def)
  have eq: "set (concat (map (\<lambda>(t, b). map (\<lambda>n. take (n * BLOCK_SIZE) t) [0..<length b + 1]) [(?t, [7::nat])])) \<union>
        set (map (\<lambda>n. take (n * BLOCK_SIZE) ?t) [0..<length ?t + 1]) = {[], ?t}"
    by (simp add: BLOCK_SIZE_def)
  have ne: "hash_tokens [] \<noteq> hash_tokens ?t"
    by (simp add: hash_tokens_def)
  have cf: "collision_free [(?t, [7])] ?t"
    unfolding collision_free_def eq using ne by (auto simp: inj_on_def)
  have "map_of (pc_entries (cache_of [(?t, [7])])) (prefix_hash ?t (1 * BLOCK_SIZE)) \<noteq> None"
    using cache_of_complete [of ?t "[7]" "[(?t, [7])]"] by (simp add: complete_for_def)
  then obtain m bs c' where l: "prefix_lookup (cache_of [(?t, [7])]) ?t = (Some (m, bs), c')"
    by (auto simp: prefix_lookup_def div_ceil_def BLOCK_SIZE_def split: option.splits)
  show ?thesis using l prefix_cache_lookup_sound_maximal [OF al cf l] by auto
qed

end
