(* ===== verification/Radix_Cache.thy ===== *)
theory Radix_Cache
  imports Kv_Cache "HOL-Library.Multiset"
begin

text \<open>
  The radix-tree prefix cache of \<^verbatim>\<open>crates/justapi-inference/src/radix_cache.rs\<close>. A node is a
  constructor with the fields of \<open>RadixNode\<close>; its \<open>HashMap\<close> of children is an association list
  keyed by the first token of the edge. Recursive helpers of the module are recursive
  functions; a slice out of range is a panic (\<open>None\<close>). The counters in \<open>Cell\<close>s are fields of
  the cache record. The \<open>hash_tokens\<close> of this module is the one of \<open>Kv_Cache\<close> (the two Rust
  functions have the same body).

  The lemmas show that a lookup finds the longest prefix shared with any inserted sequence,
  that no lookup or insertion panics on a block-aligned history, that the blocks returned at
  position \<open>j\<close> were computed for the same first \<open>16 * (j + 1)\<close> tokens, and that all of this fails once
  two prompts diverge inside a block.
\<close>

section \<open>Nodes\<close>

datatype radix_node =
  RadixNode (rn_tokens: "token list") (rn_blocks: "block_id list")
            (rn_children: "(token \<times> radix_node) list") (rn_last_access: nat) (rn_token_hash: u64)

definition node_new :: "token list \<Rightarrow> block_id list \<Rightarrow> nat \<Rightarrow> radix_node" where
  "node_new tokens blocks now = RadixNode tokens blocks [] now (hash_tokens tokens)"

definition is_leaf :: "radix_node \<Rightarrow> bool" where
  "is_leaf n \<longleftrightarrow> rn_children n = []"

definition set_children :: "radix_node \<Rightarrow> (token \<times> radix_node) list \<Rightarrow> radix_node" where
  "set_children n cs = RadixNode (rn_tokens n) (rn_blocks n) cs (rn_last_access n) (rn_token_hash n)"

definition set_child :: "radix_node \<Rightarrow> token \<Rightarrow> radix_node \<Rightarrow> radix_node" where
  "set_child n k c = set_children n (AList.update k c (rn_children n))"

definition touch :: "radix_node \<Rightarrow> nat \<Rightarrow> radix_node" where
  "touch n now = RadixNode (rn_tokens n) (rn_blocks n) (rn_children n) now (rn_token_hash n)"

lemma node_sel_simps [simp]:
  "rn_tokens (set_children n cs) = rn_tokens n" "rn_blocks (set_children n cs) = rn_blocks n"
  "rn_children (set_children n cs) = cs" "rn_token_hash (set_children n cs) = rn_token_hash n"
  "rn_last_access (set_children n cs) = rn_last_access n"
  "rn_tokens (touch n t) = rn_tokens n" "rn_blocks (touch n t) = rn_blocks n"
  "rn_children (touch n t) = rn_children n" "rn_token_hash (touch n t) = rn_token_hash n"
  "rn_last_access (touch n t) = t"
  "rn_tokens (node_new ts bs t) = ts" "rn_blocks (node_new ts bs t) = bs"
  "rn_children (node_new ts bs t) = []" "rn_token_hash (node_new ts bs t) = hash_tokens ts"
  "rn_last_access (node_new ts bs t) = t"
  by (simp_all add: set_children_def touch_def node_new_def)

lemma set_child_simps [simp]:
  "rn_tokens (set_child n k c) = rn_tokens n" "rn_blocks (set_child n k c) = rn_blocks n"
  "rn_token_hash (set_child n k c) = rn_token_hash n"
  "rn_children (set_child n k c) = AList.update k c (rn_children n)"
  "rn_last_access (set_child n k c) = rn_last_access n"
  by (simp_all add: set_child_def)

fun common_prefix_len :: "token list \<Rightarrow> token list \<Rightarrow> nat" where
  "common_prefix_len (a # as) (b # bs) = (if a = b then Suc (common_prefix_len as bs) else 0)"
| "common_prefix_len _ _ = 0"

lemma child_size_list: "(k, c) \<in> set cs \<Longrightarrow> size c < Suc (size_list (size_prod (\<lambda>_. 0) size) cs)"
  by (induction cs) auto

lemma child_size: "(k, c) \<in> set (rn_children n) \<Longrightarrow> size c < size n"
  using child_size_list [of k c "rn_children n"] by (cases n) simp

lemma map_of_child_size: "map_of (rn_children n) k = Some c \<Longrightarrow> size c < size n"
  by (auto dest!: map_of_SomeD intro: child_size)

lemma cpl_le: "common_prefix_len a b \<le> length a" "common_prefix_len a b \<le> length b"
  by (induction a b rule: common_prefix_len.induct) auto

lemma cpl_pos: "a \<noteq> [] \<Longrightarrow> b \<noteq> [] \<Longrightarrow> hd a = hd b \<Longrightarrow> 0 < common_prefix_len a b"
  by (cases a; cases b) auto

lemma cpl_zero_hd: "common_prefix_len a b = 0 \<Longrightarrow> a \<noteq> [] \<Longrightarrow> b \<noteq> [] \<Longrightarrow> hd a \<noteq> hd b"
  by (cases a; cases b) (auto split: if_splits)

section \<open>Insertion and lookup in a subtree\<close>

text \<open>The two halves of an edge split at \<open>cp\<close>: the shortened child with the tail as its only child.\<close>

definition split_child :: "radix_node \<Rightarrow> nat \<Rightarrow> block_id list \<Rightarrow> radix_node" where
  "split_child child cp tail_blocks =
     (let split = RadixNode (drop cp (rn_tokens child)) tail_blocks (rn_children child)
                    (rn_last_access child) (hash_tokens (drop cp (rn_tokens child)))
      in RadixNode (take cp (rn_tokens child)) (take (cp div BLOCK_SIZE) (rn_blocks child))
           [(hd (rn_tokens split), split)] (rn_last_access child) (hash_tokens (take cp (rn_tokens child))))"

function insert_node :: "radix_node \<Rightarrow> token list \<Rightarrow> block_id list \<Rightarrow> nat \<Rightarrow> radix_node option" where
  "insert_node node tokens blocks now =
     (case tokens of
        [] \<Rightarrow> Some (touch node now)
      | first # _ \<Rightarrow>
          (case map_of (rn_children node) first of
             Some child \<Rightarrow>
               (let cp = common_prefix_len tokens (rn_tokens child) in
                if cp = length (rn_tokens child)
                then do { bs \<leftarrow> slice_from blocks (cp div BLOCK_SIZE);
                          child' \<leftarrow> insert_node child (drop cp tokens) bs now;
                          Some (set_child node first child') }
                else do { tail_blocks \<leftarrow> slice_from (rn_blocks child) (cp div BLOCK_SIZE);
                          bs \<leftarrow> slice_from blocks (cp div BLOCK_SIZE);
                          child' \<leftarrow> insert_node (split_child child cp tail_blocks) (drop cp tokens) bs now;
                          Some (set_child node first child') })
           | None \<Rightarrow> Some (set_child node first (node_new tokens blocks now))))"
  by pat_completeness auto
termination
proof (relation "measures [\<lambda>(n, t, b, now). length t,
    \<lambda>(n, t, b, now). case t of [] \<Rightarrow> 0 | f # _ \<Rightarrow>
       (case map_of (rn_children n) f of None \<Rightarrow> 0 | Some c \<Rightarrow> size c + 1)]", goal_cases)
  case 1
  then show ?case by simp
next
  case (2 node tokens blocks now f r child cp bs)
  then show ?case
    using cpl_le(1) [of tokens "rn_tokens child"]
    by (auto dest: map_of_child_size split: list.splits option.splits)
next
  case (3 node tokens blocks now f r child cp tb bs)
  then show ?case
    using cpl_le(1) [of tokens "rn_tokens child"] cpl_zero_hd [of tokens "rn_tokens child"]
    by (cases "cp = 0") (auto simp: split_child_def Let_def)
qed

declare insert_node.simps [simp del]

function lookup_node ::
  "radix_node \<Rightarrow> token list \<Rightarrow> nat \<times> block_id list \<times> bool \<Rightarrow> nat
     \<Rightarrow> (radix_node \<times> nat \<times> block_id list \<times> bool) option" where
  "lookup_node node tokens out now =
     (case tokens of
        [] \<Rightarrow> Some (node, out)
      | first # _ \<Rightarrow>
          (case map_of (rn_children node) first of
             None \<Rightarrow> Some (node, out)
           | Some child \<Rightarrow>
               (let cp = common_prefix_len tokens (rn_tokens child) in
                if cp = length (rn_tokens child)
                then if rn_token_hash child \<noteq> hash_tokens (take cp tokens)
                     then Some (node, fst out, fst (snd out), True)
                     else do { (child', out') \<leftarrow>
                                 lookup_node (touch child now) (drop cp tokens)
                                   (fst out + cp, fst (snd out) @ rn_blocks child, snd (snd out)) now;
                               Some (set_child node first child', out') }
                else if cp > 0
                then do { bs \<leftarrow> slice_to (rn_blocks child) (cp div BLOCK_SIZE);
                          Some (set_child node first (touch child now),
                                fst out + cp, fst (snd out) @ bs, snd (snd out)) }
                else Some (node, out))))"
  by pat_completeness auto
termination
proof (relation "measures [\<lambda>(n, t, out, now). length t,
    \<lambda>(n, t, out, now). case t of [] \<Rightarrow> 0 | f # _ \<Rightarrow>
       (case map_of (rn_children n) f of None \<Rightarrow> 0 | Some c \<Rightarrow> size c + 1)]", goal_cases)
  case 1
  then show ?case by simp
next
  case (2 node tokens out now f r child cp)
  then show ?case
    using cpl_le(1) [of tokens "rn_tokens child"]
    by (auto dest: map_of_child_size split: list.splits option.splits)
qed

declare lookup_node.simps [simp del]

section \<open>Whole-tree walks\<close>

fun count_nodes :: "radix_node \<Rightarrow> nat" where
  "count_nodes (RadixNode ts bs cs la h) =
     length cs + sum_list (map (\<lambda>(k, c). count_nodes c) cs)"

fun cached_tokens :: "radix_node \<Rightarrow> nat" where
  "cached_tokens (RadixNode ts bs cs la h) =
     length ts + sum_list (map (\<lambda>(k, c). cached_tokens c) cs)"

fun check_hashes :: "radix_node \<Rightarrow> bool" where
  "check_hashes (RadixNode ts bs cs la h) \<longleftrightarrow>
     h = hash_tokens ts \<and> list_all (\<lambda>(k, c). check_hashes c) cs"

text \<open>
  \<open>find_lru_leaf\<close>: the oldest direct leaf child if there is one; otherwise recurse, keeping the
  candidate of the child with the least \<open>last_access\<close>. \<open>find_best\<close> is the second loop.
\<close>

fun find_lru_leaf :: "radix_node \<Rightarrow> (token list \<times> block_id list) option"
and find_best :: "(token \<times> radix_node) list \<Rightarrow> (token list \<times> block_id list) option \<Rightarrow> nat
                   \<Rightarrow> (token list \<times> block_id list) option" where
  "find_lru_leaf (RadixNode ts bs cs la h) =
     (case sort_key snd (map (\<lambda>(k, c). (k, rn_last_access c)) (filter (\<lambda>(k, c). is_leaf c) cs)) of
        (key, _) # _ \<Rightarrow> map_option (\<lambda>child. ([key], rn_blocks child)) (map_of cs key)
      | [] \<Rightarrow> find_best cs None u64_max)"
| "find_best [] best best_access = best"
| "find_best ((k, child) # cs) best best_access =
     (case find_lru_leaf child of
        Some (path, blocks) \<Rightarrow>
          if rn_last_access child < best_access
          then find_best cs (Some (k # path, blocks)) (rn_last_access child)
          else find_best cs best best_access
      | None \<Rightarrow> find_best cs best best_access)"

fun collect_leaves :: "radix_node \<Rightarrow> token list \<Rightarrow> (nat \<times> token list \<times> block_id list) list" where
  "collect_leaves (RadixNode ts bs cs la h) path =
     concat (map (\<lambda>(k, c).
        if is_leaf c then [(rn_last_access c, path @ [k], rn_blocks c)]
        else collect_leaves c (path @ [k])) cs)"

fun remove_path :: "radix_node \<Rightarrow> token list \<Rightarrow> bool \<times> radix_node" where
  "remove_path node [] = (False, node)"
| "remove_path node (key # rest) =
     (case map_of (rn_children node) key of
        None \<Rightarrow> (False, node)
      | Some child \<Rightarrow>
          if rest = [] then (True, set_children node (AList.delete key (rn_children node)))
          else (let (r, child') = remove_path child rest in (r, set_child node key child')))"

section \<open>The cache\<close>

record radix_prefix_cache =
  root :: radix_node
  rc_hits :: nat
  rc_misses :: nat
  hash_collisions :: nat
  tokens_saved :: nat
  clock :: nat

definition radix_new :: radix_prefix_cache where
  "radix_new =
     \<lparr>root = node_new [] [] 0, rc_hits = 0, rc_misses = 0, hash_collisions = 0,
      tokens_saved = 0, clock = 0\<rparr>"

definition tick :: "radix_prefix_cache \<Rightarrow> nat \<times> radix_prefix_cache" where
  "tick c = (clock c + 1, c\<lparr>clock := clock c + 1\<rparr>)"

definition nodes :: "radix_prefix_cache \<Rightarrow> nat" where
  "nodes c = count_nodes (root c)"

definition cache_cached_tokens :: "radix_prefix_cache \<Rightarrow> nat" where
  "cache_cached_tokens c = cached_tokens (root c)"

definition radix_insert ::
  "radix_prefix_cache \<Rightarrow> token list \<Rightarrow> block_id list \<Rightarrow> radix_prefix_cache option" where
  "radix_insert c tokens blocks =
     (if length tokens = length blocks * BLOCK_SIZE
      then (let (now, c1) = tick c in
            do { r \<leftarrow> insert_node (root c1) tokens blocks now; Some (c1\<lparr>root := r\<rparr>) })
      else None)"

definition radix_lookup ::
  "radix_prefix_cache \<Rightarrow> token list
     \<Rightarrow> ((nat \<times> block_id list) option \<times> radix_prefix_cache) option" where
  "radix_lookup c tokens =
     (let (now, c1) = tick c in
      do { (r, matched, blocks, collision) \<leftarrow> lookup_node (root c1) tokens (0, [], False) now;
           (let c2 = c1\<lparr>root := r\<rparr> in
            Some (if collision
                  then (None, c2\<lparr>hash_collisions := hash_collisions c2 + 1, rc_misses := rc_misses c2 + 1\<rparr>)
                  else if matched > 0
                  then (Some (matched, blocks),
                        c2\<lparr>rc_hits := rc_hits c2 + 1, tokens_saved := tokens_saved c2 + matched\<rparr>)
                  else (None, c2\<lparr>rc_misses := rc_misses c2 + 1\<rparr>))) })"

definition verify_hashes :: "radix_prefix_cache \<Rightarrow> bool" where
  "verify_hashes c = check_hashes (root c)"

text \<open>
  The \<open>while freed.len() < k\<close> loop of \<open>evict\<close>. Every iteration removes a node, so one more than the
  number of nodes is enough fuel; \<open>None\<close> is running out of it.
\<close>

fun evict_loop :: "nat \<Rightarrow> nat \<Rightarrow> radix_node \<Rightarrow> block_id list \<Rightarrow> (block_id list \<times> radix_node) option" where
  "evict_loop 0 k r freed = None"
| "evict_loop (Suc fuel) k r freed =
     (if length freed < k
      then case find_lru_leaf r of
             Some (path, blocks) \<Rightarrow> evict_loop fuel k (snd (remove_path r path)) (freed @ blocks)
           | None \<Rightarrow> Some (freed, r)
      else Some (freed, r))"

definition radix_evict :: "radix_prefix_cache \<Rightarrow> nat \<Rightarrow> (block_id list \<times> radix_prefix_cache) option" where
  "radix_evict c k =
     do { (freed, r) \<leftarrow> evict_loop (Suc (nodes c)) k (root c) []; Some (freed, c\<lparr>root := r\<rparr>) }"

fun evict_filter_loop ::
  "nat \<Rightarrow> (block_id list \<Rightarrow> bool) \<Rightarrow> (nat \<times> token list \<times> block_id list) list
     \<Rightarrow> radix_node \<Rightarrow> block_id list \<Rightarrow> block_id list \<times> radix_node" where
  "evict_filter_loop k keep [] r freed = (freed, r)"
| "evict_filter_loop k keep ((_, path, blocks) # leaves) r freed =
     (if k \<le> length freed then (freed, r)
      else if keep blocks
      then evict_filter_loop k keep leaves (snd (remove_path r path)) (freed @ blocks)
      else evict_filter_loop k keep leaves r freed)"

definition evict_filter ::
  "radix_prefix_cache \<Rightarrow> nat \<Rightarrow> (block_id list \<Rightarrow> bool) \<Rightarrow> block_id list \<times> radix_prefix_cache" where
  "evict_filter c k keep =
     (let leaves = sort_key fst (collect_leaves (root c) []);
          (freed, r) = evict_filter_loop k keep leaves (root c) []
      in (freed, c\<lparr>root := r\<rparr>))"

record radix_prefix_cache_stats =
  stat_nodes :: nat
  stat_hits :: nat
  stat_misses :: nat
  stat_hash_collisions :: nat
  stat_tokens_saved :: nat

definition radix_stats :: "radix_prefix_cache \<Rightarrow> radix_prefix_cache_stats" where
  "radix_stats c =
     \<lparr>stat_nodes = nodes c, stat_hits = rc_hits c, stat_misses = rc_misses c,
      stat_hash_collisions = hash_collisions c, stat_tokens_saved = tokens_saved c\<rparr>"

section \<open>Common prefixes\<close>

lemma cpl_same [simp]: "common_prefix_len a a = length a"
  by (induction a) auto

lemma cpl_commute: "common_prefix_len a b = common_prefix_len b a"
  by (induction a b rule: common_prefix_len.induct) auto

lemma cpl_append_same [simp]:
  "common_prefix_len (u @ a) (u @ b) = length u + common_prefix_len a b"
  by (induction u) auto

lemma cpl_Nil [simp]: "common_prefix_len [] b = 0" "common_prefix_len a [] = 0"
  by (cases a; simp)+

lemma cpl_take: "take (common_prefix_len a b) a = take (common_prefix_len a b) b"
  by (induction a b rule: common_prefix_len.induct) auto

lemma cpl_full: "common_prefix_len a b = length b \<longleftrightarrow> (\<exists>a'. a = b @ a')"
  by (induction a b rule: common_prefix_len.induct) auto

lemma cpl_full_append: "common_prefix_len (b @ a) b = length b" "common_prefix_len b (b @ a) = length b"
  using cpl_full [of "b @ a" b] cpl_commute by auto

lemma cpl_short:
  assumes "common_prefix_len q u < length u"
  shows "common_prefix_len q (u @ v) = common_prefix_len q u"
  using assms by (induction q u rule: common_prefix_len.induct) auto

lemma cpl_hd_neq: "hd a \<noteq> hd b \<Longrightarrow> common_prefix_len a b = 0"
  by (cases a; cases b) auto

lemma cpl_ge_take: "take k a = take k b \<Longrightarrow> k \<le> length a \<Longrightarrow> k \<le> length b \<Longrightarrow> k \<le> common_prefix_len a b"
proof (induction a b arbitrary: k rule: common_prefix_len.induct)
  case (1 a as b bs)
  then show ?case by (cases k) auto
qed auto

lemma cpl_take_le: "k \<le> common_prefix_len a b \<Longrightarrow> take k a = take k b"
  using cpl_take [of a b] by (metis min.absorb1 take_take)

section \<open>Well-formed trees\<close>

text \<open>
  An edge is filed under its first token, carries the hash of its tokens and at least the
  full blocks its tokens need. This holds of every tree the operations build, aligned or not.
\<close>

definition edge_ok :: "token \<Rightarrow> radix_node \<Rightarrow> bool" where
  "edge_ok k c \<longleftrightarrow> rn_tokens c \<noteq> [] \<and> hd (rn_tokens c) = k
     \<and> length (rn_tokens c) div BLOCK_SIZE \<le> length (rn_blocks c)
     \<and> rn_token_hash c = hash_tokens (rn_tokens c)"

fun node_wf :: "radix_node \<Rightarrow> bool" where
  "node_wf (RadixNode ts bs cs la h) \<longleftrightarrow>
     distinct (map fst cs) \<and> list_all (\<lambda>(k, c). edge_ok k c \<and> node_wf c) cs"

lemma node_wf_iff:
  "node_wf n \<longleftrightarrow> distinct (map fst (rn_children n))
     \<and> (\<forall>k c. map_of (rn_children n) k = Some c \<longrightarrow> edge_ok k c \<and> node_wf c)"
  by (cases n) (auto simp: list_all_iff dest: map_of_SomeD)

lemma node_wf_touch [simp]: "node_wf (touch n t) = node_wf n"
  by (simp add: node_wf_iff [of n] node_wf_iff [of "touch n t"])

lemma node_wf_child:
  "node_wf n \<Longrightarrow> map_of (rn_children n) k = Some c \<Longrightarrow> edge_ok k c \<and> node_wf c"
  by (simp add: node_wf_iff [of n])

lemma node_wf_set_child:
  assumes "node_wf n" and "edge_ok k c" and "node_wf c"
  shows "node_wf (set_child n k c)"
  using assms by (auto simp: node_wf_iff [of n] node_wf_iff [of "set_child n k c"] distinct_update
      update_conv split: if_splits)

lemma node_wf_new [simp]: "node_wf (node_new ts bs t)"
  by (simp add: node_new_def)

lemma edge_ok_touch [simp]: "edge_ok k (touch c t) = edge_ok k c"
  by (simp add: edge_ok_def)

lemma edge_ok_same:
  "edge_ok k c \<Longrightarrow> rn_tokens c' = rn_tokens c \<Longrightarrow> rn_blocks c' = rn_blocks c
     \<Longrightarrow> rn_token_hash c' = rn_token_hash c \<Longrightarrow> edge_ok k c'"
  by (simp add: edge_ok_def)

lemma edge_ok_split_child:
  assumes "edge_ok k c" and "0 < cp" and "cp < length (rn_tokens c)"
  shows "edge_ok k (split_child c cp (drop (cp div BLOCK_SIZE) (rn_blocks c)))"
proof -
  have "cp div BLOCK_SIZE \<le> length (rn_tokens c) div BLOCK_SIZE"
    using assms(3) by (simp add: div_le_mono)
  then show ?thesis
    using assms by (auto simp: edge_ok_def split_child_def Let_def min_def hd_take)
qed

lemma node_wf_split_child:
  assumes "edge_ok k c" and "node_wf c" and "cp < length (rn_tokens c)"
  shows "node_wf (split_child c cp (drop (cp div BLOCK_SIZE) (rn_blocks c)))"
proof -
  have "(length (rn_tokens c) - cp) div BLOCK_SIZE \<le> length (rn_tokens c) div BLOCK_SIZE - cp div BLOCK_SIZE"
  proof -
    have "(length (rn_tokens c) - cp) div BLOCK_SIZE + cp div BLOCK_SIZE
            \<le> ((length (rn_tokens c) - cp) + cp) div BLOCK_SIZE"
      by (simp only: div_add1_eq [of "length (rn_tokens c) - cp" cp] le_add1)
    then show ?thesis using assms(3) by simp
  qed
  moreover have "length (rn_tokens c) div BLOCK_SIZE \<le> length (rn_blocks c)"
    using assms(1) by (simp add: edge_ok_def)
  ultimately have "(length (rn_tokens c) - cp) div BLOCK_SIZE \<le> length (rn_blocks c) - cp div BLOCK_SIZE"
    by linarith
  then show ?thesis
    using assms by (cases c) (auto simp: split_child_def Let_def edge_ok_def)
qed

lemma split_child_sel [simp]:
  "rn_tokens (split_child c cp tb) = take cp (rn_tokens c)"
  "rn_blocks (split_child c cp tb) = take (cp div BLOCK_SIZE) (rn_blocks c)"
  by (simp_all add: split_child_def Let_def)

section \<open>Insertion and lookup keep the tree well-formed and never panic\<close>

lemma cp_drop_blocks:
  assumes "length ts \<le> length bs * BLOCK_SIZE" and "cp \<le> length ts"
  shows "cp div BLOCK_SIZE \<le> length bs" "length (drop cp ts) \<le> length (drop (cp div BLOCK_SIZE) bs) * BLOCK_SIZE"
proof -
  have le: "cp \<le> length bs * BLOCK_SIZE" using assms by linarith
  then show 1: "cp div BLOCK_SIZE \<le> length bs"
    by (metis BLOCK_SIZE_def div_le_mono nonzero_mult_div_cancel_right zero_neq_numeral)
  have "cp div BLOCK_SIZE * BLOCK_SIZE \<le> cp" by simp
  with assms have "length ts - cp \<le> length bs * BLOCK_SIZE - cp div BLOCK_SIZE * BLOCK_SIZE"
    by linarith
  then show "length (drop cp ts) \<le> length (drop (cp div BLOCK_SIZE) bs) * BLOCK_SIZE"
    by (simp add: diff_mult_distrib)
qed

lemma insert_node_full:
  assumes "ts \<noteq> []" and "map_of (rn_children n) (hd ts) = Some c"
    and "common_prefix_len ts (rn_tokens c) = cp" and "cp = length (rn_tokens c)"
    and "cp div BLOCK_SIZE \<le> length bs"
  shows "insert_node n ts bs now =
           do { c' \<leftarrow> insert_node c (drop cp ts) (drop (cp div BLOCK_SIZE) bs) now;
                Some (set_child n (hd ts) c') }"
  using assms by (subst insert_node.simps) (auto simp: slice_from_def Let_def neq_Nil_conv)

lemma insert_node_split:
  assumes "ts \<noteq> []" and "map_of (rn_children n) (hd ts) = Some c"
    and "common_prefix_len ts (rn_tokens c) = cp" and "cp \<noteq> length (rn_tokens c)"
    and "cp div BLOCK_SIZE \<le> length bs" and "cp div BLOCK_SIZE \<le> length (rn_blocks c)"
  shows "insert_node n ts bs now =
           do { c' \<leftarrow> insert_node (split_child c cp (drop (cp div BLOCK_SIZE) (rn_blocks c)))
                        (drop cp ts) (drop (cp div BLOCK_SIZE) bs) now;
                Some (set_child n (hd ts) c') }"
  using assms by (subst insert_node.simps) (auto simp: slice_from_def Let_def neq_Nil_conv)

lemma insert_node_leaf:
  "ts \<noteq> [] \<Longrightarrow> map_of (rn_children n) (hd ts) = None
     \<Longrightarrow> insert_node n ts bs now = Some (set_child n (hd ts) (node_new ts bs now))"
  by (subst insert_node.simps) (auto simp: neq_Nil_conv)

lemma insert_node_Nil [simp]: "insert_node n [] bs now = Some (touch n now)"
  by (subst insert_node.simps) simp

text \<open>
  The four cases of an insertion into a well-formed tree, as a relation to induct over:
  the tokens are used up, they become a new leaf, they run past a whole edge, or they leave
  an edge \<open>u @ v\<close> after \<open>u\<close>, which is then split.
\<close>

inductive node_inserted ::
  "nat \<Rightarrow> radix_node \<Rightarrow> token list \<Rightarrow> block_id list \<Rightarrow> radix_node \<Rightarrow> bool" for now where
  ins_done: "node_wf n \<Longrightarrow> node_inserted now n [] bs (touch n now)"
| ins_leaf: "node_wf n \<Longrightarrow> ts \<noteq> [] \<Longrightarrow> length ts \<le> length bs * BLOCK_SIZE
     \<Longrightarrow> map_of (rn_children n) (hd ts) = None
     \<Longrightarrow> node_inserted now n ts bs (set_child n (hd ts) (node_new ts bs now))"
| ins_full: "node_wf n \<Longrightarrow> map_of (rn_children n) (hd (rn_tokens c)) = Some c
     \<Longrightarrow> length (rn_tokens c) div BLOCK_SIZE \<le> length bs
     \<Longrightarrow> node_inserted now c ts (drop (length (rn_tokens c) div BLOCK_SIZE) bs) c'
     \<Longrightarrow> node_inserted now n (rn_tokens c @ ts) bs (set_child n (hd (rn_tokens c)) c')"
| ins_split: "node_wf n \<Longrightarrow> map_of (rn_children n) (hd u) = Some c
     \<Longrightarrow> rn_tokens c = u @ v \<Longrightarrow> u \<noteq> [] \<Longrightarrow> v \<noteq> [] \<Longrightarrow> common_prefix_len ts v = 0
     \<Longrightarrow> length u div BLOCK_SIZE \<le> length bs
     \<Longrightarrow> node_inserted now (split_child c (length u) (drop (length u div BLOCK_SIZE) (rn_blocks c)))
           ts (drop (length u div BLOCK_SIZE) bs) c'
     \<Longrightarrow> node_inserted now n (u @ ts) bs (set_child n (hd u) c')"

lemma node_inserted_wf:
  assumes "node_inserted now n ts bs n'"
  shows "node_wf n \<and> node_wf n' \<and> rn_tokens n' = rn_tokens n \<and> rn_blocks n' = rn_blocks n
       \<and> rn_token_hash n' = rn_token_hash n"
  using assms
proof induction
  case (ins_leaf n ts bs)
  then have "edge_ok (hd ts) (node_new ts bs now)"
    by (auto simp: edge_ok_def BLOCK_SIZE_def)
  with ins_leaf show ?case by (simp add: node_wf_set_child)
next
  case (ins_full n c bs ts c')
  then show ?case
    using node_wf_child edge_ok_same [of _ c c'] by (metis node_wf_set_child set_child_simps(1,2,3))
next
  case (ins_split n u c v ts bs c')
  have "edge_ok (hd u) (split_child c (length u) (drop (length u div BLOCK_SIZE) (rn_blocks c)))"
    using ins_split node_wf_child by (intro edge_ok_split_child) auto
  with ins_split have "edge_ok (hd u) c'" by (auto simp: edge_ok_def)
  with ins_split show ?case by (simp add: node_wf_set_child)
qed simp

lemma insert_node_total:
  assumes "node_wf n" and "length ts \<le> length bs * BLOCK_SIZE"
  shows "\<exists>n'. insert_node n ts bs now = Some n' \<and> node_inserted now n ts bs n'"
  using assms
proof (induction "length ts" arbitrary: n ts bs rule: less_induct)
  case less
  show ?case
  proof (cases "ts = []")
    case True
    then show ?thesis using less by (simp add: ins_done)
  next
    case ne: False
    show ?thesis
    proof (cases "map_of (rn_children n) (hd ts)")
      case None
      then show ?thesis using less ne by (simp add: insert_node_leaf ins_leaf)
    next
      case (Some c)
      define cp where "cp = common_prefix_len ts (rn_tokens c)"
      have c: "edge_ok (hd ts) c" "node_wf c" using node_wf_child [OF less(2) Some] by auto
      have cp: "cp \<le> length ts" "cp \<le> length (rn_tokens c)"
        unfolding cp_def by (rule cpl_le)+
      have pos: "0 < cp" unfolding cp_def
        using c(1) ne by (intro cpl_pos) (auto simp: edge_ok_def)
      have shorter: "length (drop cp ts) < length ts" using pos ne by simp
      have ts: "ts = take cp (rn_tokens c) @ drop cp ts"
        by (metis append_take_drop_id cp_def cpl_take)
      have hd: "hd (take cp (rn_tokens c)) = hd ts" using pos c(1) by (simp add: edge_ok_def hd_take)
      note bl = cp_drop_blocks [OF less(3) cp(1)]
      show ?thesis
      proof (cases "cp = length (rn_tokens c)")
        case True
        obtain c' where "insert_node c (drop cp ts) (drop (cp div BLOCK_SIZE) bs) now = Some c'"
          "node_inserted now c (drop cp ts) (drop (cp div BLOCK_SIZE) bs) c'"
          using less(1) [OF shorter c(2) bl(2)] by auto
        then show ?thesis
          using insert_node_full [OF ne Some cp_def [symmetric] True bl(1), of now]
            ins_full [OF less(2), of c bs now "drop cp ts" c'] True ts hd Some bl(1) by simp
      next
        case False
        then have lt: "cp < length (rn_tokens c)" using cp by simp
        let ?s = "split_child c cp (drop (cp div BLOCK_SIZE) (rn_blocks c))"
        have tb: "cp div BLOCK_SIZE \<le> length (rn_blocks c)"
          using c(1) div_le_mono [OF cp(2), of BLOCK_SIZE] by (simp add: edge_ok_def)
        obtain c' where c': "insert_node ?s (drop cp ts) (drop (cp div BLOCK_SIZE) bs) now = Some c'"
          "node_inserted now ?s (drop cp ts) (drop (cp div BLOCK_SIZE) bs) c'"
          using less(1) [OF shorter node_wf_split_child [OF c lt] bl(2)] by auto
        have "common_prefix_len ts (rn_tokens c) = cp + common_prefix_len (drop cp ts) (drop cp (rn_tokens c))"
          by (metis append_take_drop_id cp(2) cpl_append_same length_take min.absorb2 ts)
        then have "common_prefix_len (drop cp ts) (drop cp (rn_tokens c)) = 0"
          by (simp add: cp_def)
        then have "node_inserted now n (take cp (rn_tokens c) @ drop cp ts) bs (set_child n (hd ts) c')"
          using ins_split [OF less(2), of "take cp (rn_tokens c)" c "drop cp (rn_tokens c)" "drop cp ts" bs now c']
            Some hd pos lt bl(1) c'(2) cp(2) c(1) by (auto simp: min_def edge_ok_def)
        then show ?thesis
          using insert_node_split [OF ne Some cp_def [symmetric] False bl(1) tb, of now] c'(1) ts by simp
      qed
    qed
  qed
qed

section \<open>What a walk matches\<close>

text \<open>
  \<open>match_len\<close> and \<open>match_blocks\<close>: how many tokens of a query the tree matches and the blocks on
  the way. They are the reference semantics of a tree: \<open>lookup_node\<close> computes them and
  the other operations are specified through them.
\<close>

function match_len :: "radix_node \<Rightarrow> token list \<Rightarrow> nat" where
  "match_len n q =
     (case map_of (rn_children n) (hd q) of
        None \<Rightarrow> 0
      | Some c \<Rightarrow>
          (let cp = common_prefix_len q (rn_tokens c) in
           if q \<noteq> [] \<and> cp = length (rn_tokens c) then cp + match_len c (drop cp q) else cp))"
  by pat_completeness auto
termination
  by (relation "measure (\<lambda>(n, q). size n)") (auto dest: map_of_child_size)

function match_blocks :: "radix_node \<Rightarrow> token list \<Rightarrow> block_id list" where
  "match_blocks n q =
     (case map_of (rn_children n) (hd q) of
        None \<Rightarrow> []
      | Some c \<Rightarrow>
          (let cp = common_prefix_len q (rn_tokens c) in
           if q \<noteq> [] \<and> cp = length (rn_tokens c) then rn_blocks c @ match_blocks c (drop cp q)
           else take (cp div BLOCK_SIZE) (rn_blocks c)))"
  by pat_completeness auto
termination
  by (relation "measure (\<lambda>(n, q). size n)") (auto dest: map_of_child_size)

declare match_len.simps [simp del] match_blocks.simps [simp del]

text \<open>The matched part of a query below an edge.\<close>

definition edge_match :: "radix_node \<Rightarrow> token list \<Rightarrow> nat" where
  "edge_match c q = (if common_prefix_len q (rn_tokens c) = length (rn_tokens c)
     then length (rn_tokens c) + match_len c (drop (length (rn_tokens c)) q)
     else common_prefix_len q (rn_tokens c))"

definition edge_blocks :: "radix_node \<Rightarrow> token list \<Rightarrow> block_id list" where
  "edge_blocks c q = (if common_prefix_len q (rn_tokens c) = length (rn_tokens c)
     then rn_blocks c @ match_blocks c (drop (length (rn_tokens c)) q)
     else take (common_prefix_len q (rn_tokens c) div BLOCK_SIZE) (rn_blocks c))"

lemma match_Nil [simp]: "match_len n [] = 0" "match_blocks n [] = []"
  by (auto simp: match_len.simps [of n] match_blocks.simps [of n] Let_def split: option.splits)

lemma match_child:
  assumes "q \<noteq> []"
  shows "match_len n q = (case map_of (rn_children n) (hd q) of None \<Rightarrow> 0 | Some c \<Rightarrow> edge_match c q)"
    and "match_blocks n q = (case map_of (rn_children n) (hd q) of None \<Rightarrow> [] | Some c \<Rightarrow> edge_blocks c q)"
  using assms by (auto simp: match_len.simps [of n] match_blocks.simps [of n] Let_def edge_match_def
      edge_blocks_def split: option.splits)

lemma match_touch [simp]: "match_len (touch n t) q = match_len n q" "match_blocks (touch n t) q = match_blocks n q"
  by (simp_all add: match_len.simps [of n] match_blocks.simps [of n]
      match_len.simps [of "touch n t"] match_blocks.simps [of "touch n t"])

lemma match_set_child:
  assumes "q \<noteq> []"
  shows "match_len (set_child n k c) q = (if hd q = k then edge_match c q else match_len n q)"
    and "match_blocks (set_child n k c) q = (if hd q = k then edge_blocks c q else match_blocks n q)"
  using assms by (auto simp: match_child update_conv)

lemma match_new [simp]: "match_len (node_new ts bs t) q = 0" "match_blocks (node_new ts bs t) q = []"
  by (simp_all add: match_len.simps [of "node_new ts bs t"] match_blocks.simps [of "node_new ts bs t"])

lemma edge_match_full:
  "rn_tokens c = u \<Longrightarrow> edge_match c (u @ q) = length u + match_len c q"
  "rn_tokens c = u \<Longrightarrow> edge_blocks c (u @ q) = rn_blocks c @ match_blocks c q"
  by (simp_all add: edge_match_def edge_blocks_def cpl_full_append)

lemma edge_match_part:
  assumes "common_prefix_len q (rn_tokens c) < length (rn_tokens c)"
  shows "edge_match c q = common_prefix_len q (rn_tokens c)"
    and "edge_blocks c q = take (common_prefix_len q (rn_tokens c) div BLOCK_SIZE) (rn_blocks c)"
  using assms by (simp_all add: edge_match_def edge_blocks_def)

text \<open>Splitting an edge changes no match.\<close>

lemma cpl_cases:
  obtains (full) q' where "q = u @ q'" | (part) "common_prefix_len q u < length u"
  using cpl_full [of q u] cpl_le(2) [of q u] by fastforce

lemma split_child_children:
  "rn_tokens c = u @ v \<Longrightarrow> rn_children (split_child c (length u) tb) =
     [(hd v, RadixNode v tb (rn_children c) (rn_last_access c) (hash_tokens v))]"
  by (simp add: split_child_def Let_def)

lemma match_len_cong: "rn_children n = rn_children n' \<Longrightarrow> match_len n q = match_len n' q"
  by (simp add: match_len.simps [of n] match_len.simps [of n'])

lemma match_blocks_cong: "rn_children n = rn_children n' \<Longrightarrow> match_blocks n q = match_blocks n' q"
  by (simp add: match_blocks.simps [of n] match_blocks.simps [of n'])

lemma edge_match_split_child:
  assumes "rn_tokens c = u @ v" and "v \<noteq> []"
  shows "edge_match (split_child c (length u) tb) q = edge_match c q"
proof (cases q u rule: cpl_cases)
  case part
  then show ?thesis using assms cpl_short [OF part, of v] by (simp add: edge_match_def)
next
  case (full q')
  let ?s = "split_child c (length u) tb"
  let ?c = "RadixNode v tb (rn_children c) (rn_last_access c) (hash_tokens v)"
  have c: "match_len ?c r = match_len c r" for r by (rule match_len_cong) simp
  have "match_len ?s q' = (if common_prefix_len q' v = length v then length v + match_len c (drop (length v) q')
                           else common_prefix_len q' v)"
    using assms c by (cases "q' = []") (auto simp: match_child split_child_children edge_match_def cpl_hd_neq
      dest!: cpl_hd_neq [of q' v])
  then show ?thesis
    using full assms edge_match_full(1) [of ?s u q'] by (auto simp: edge_match_def drop_Cons')
qed

lemma edge_blocks_split_child:
  assumes "rn_tokens c = u @ v" and "v \<noteq> []" and "BLOCK_SIZE dvd length u"
    and "length u div BLOCK_SIZE \<le> length (rn_blocks c)"
  shows "edge_blocks (split_child c (length u) (drop (length u div BLOCK_SIZE) (rn_blocks c))) q = edge_blocks c q"
proof (cases q u rule: cpl_cases)
  case part
  have "common_prefix_len q u div BLOCK_SIZE \<le> length u div BLOCK_SIZE"
    using part by (simp add: div_le_mono)
  then show ?thesis using assms part cpl_short [OF part, of v] by (simp add: edge_blocks_def min_def)
next
  case (full q')
  let ?tb = "drop (length u div BLOCK_SIZE) (rn_blocks c)"
  let ?s = "split_child c (length u) ?tb"
  let ?c = "RadixNode v ?tb (rn_children c) (rn_last_access c) (hash_tokens v)"
  have c: "match_blocks ?c r = match_blocks c r" for r by (rule match_blocks_cong) simp
  have "match_blocks ?s q' = (if common_prefix_len q' v = length v then ?tb @ match_blocks c (drop (length v) q')
                           else take (common_prefix_len q' v div BLOCK_SIZE) ?tb)"
    using assms c by (cases "q' = []") (auto simp: match_child split_child_children edge_blocks_def cpl_hd_neq
      dest!: cpl_hd_neq [of q' v])
  moreover have "(length u + common_prefix_len q' v) div BLOCK_SIZE
      = length u div BLOCK_SIZE + common_prefix_len q' v div BLOCK_SIZE"
    using assms(3) by (simp add: div_plus_div_distrib_dvd_left)
  ultimately show ?thesis
    using full assms edge_match_full(2) [of ?s u q']
    by (simp add: edge_blocks_def take_add)
qed

section \<open>Insertion and lookup through the reference semantics\<close>

lemma match_len_inserted:
  assumes "node_inserted now n ts bs n'"
  shows "match_len n' q = max (match_len n q) (common_prefix_len ts q)"
  using assms
proof (induction arbitrary: q)
  case (ins_leaf n ts bs)
  then show ?case
    using cpl_commute [of ts q]
    by (cases "q = []") (auto simp: edge_match_def match_child update_conv cpl_hd_neq split: option.splits)
next
  case (ins_full n c bs ts c')
  note tok = node_inserted_wf [OF ins_full(4)]
  have hd: "rn_tokens c \<noteq> []" using node_wf_child [OF ins_full(1,2)] by (simp add: edge_ok_def)
  show ?case
  proof (cases "q = [] \<or> hd q \<noteq> hd (rn_tokens c)")
    case True
    then show ?thesis using hd by (cases "q = []") (auto simp: match_set_child cpl_hd_neq)
  next
    case same: False
    show ?thesis
    proof (cases q "rn_tokens c" rule: cpl_cases)
      case (full q')
      then show ?thesis
        using same hd tok ins_full edge_match_full(1) [of c "rn_tokens c" q'] edge_match_full(1) [of c' "rn_tokens c" q']
        by (simp add: match_child update_conv max_def)
    next
      case part
      then show ?thesis
        using same tok ins_full cpl_short [OF part, of ts] cpl_commute [of q]
        by (simp add: match_child update_conv edge_match_part)
    qed
  qed
next
  case (ins_split n u c v ts bs c')
  let ?s = "split_child c (length u) (drop (length u div BLOCK_SIZE) (rn_blocks c))"
  note tok = node_inserted_wf [OF ins_split(8)]
  show ?case
  proof (cases "q = [] \<or> hd q \<noteq> hd u")
    case True
    then show ?thesis using ins_split by (cases "q = []") (auto simp: match_set_child cpl_hd_neq)
  next
    case same: False
    have n: "match_len n q = edge_match ?s q"
      using same ins_split by (simp add: match_child edge_match_split_child)
    show ?thesis
    proof (cases q u rule: cpl_cases)
      case (full q')
      then show ?thesis
        using same tok n ins_split edge_match_full(1) [of ?s u q'] edge_match_full(1) [of c' u q']
        by (simp add: match_set_child)
    next
      case part
      then show ?thesis
        using same tok n ins_split cpl_short [OF part, of ts] cpl_commute [of q]
        by (simp add: match_set_child edge_match_part)
    qed
  qed
qed simp

lemma edge_match_touch [simp]:
  "edge_match (touch c t) q = edge_match c q" "edge_blocks (touch c t) q = edge_blocks c q"
  by (simp_all add: edge_match_def edge_blocks_def)

lemma edge_match_same:
  assumes "rn_tokens c' = rn_tokens c" and "rn_blocks c' = rn_blocks c"
    and "\<And>q. match_len c' q = match_len c q" and "\<And>q. match_blocks c' q = match_blocks c q"
  shows "edge_match c' q = edge_match c q" and "edge_blocks c' q = edge_blocks c q"
  using assms by (simp_all add: edge_match_def edge_blocks_def)

text \<open>A tree that differs from another only in its access times.\<close>

definition same_matches :: "radix_node \<Rightarrow> radix_node \<Rightarrow> bool" where
  "same_matches n n' \<longleftrightarrow> rn_tokens n' = rn_tokens n \<and> rn_blocks n' = rn_blocks n
     \<and> rn_token_hash n' = rn_token_hash n
     \<and> (\<forall>q. match_len n' q = match_len n q \<and> match_blocks n' q = match_blocks n q)"

lemma same_matches_set_child:
  assumes "map_of (rn_children n) k = Some c" and "same_matches c c'"
  shows "same_matches n (set_child n k c')"
proof -
  have "match_len (set_child n k c') q = match_len n q \<and> match_blocks (set_child n k c') q = match_blocks n q" for q
    using assms edge_match_same [of c' c]
    by (cases "q = []") (auto simp: same_matches_def match_child update_conv)
  then show ?thesis by (simp add: same_matches_def)
qed

lemma lookup_node_child:
  assumes "ts \<noteq> []" and "map_of (rn_children n) (hd ts) = Some c"
  shows "lookup_node n ts out now =
    (let cp = common_prefix_len ts (rn_tokens c) in
     if cp = length (rn_tokens c)
     then if rn_token_hash c \<noteq> hash_tokens (take cp ts)
          then Some (n, fst out, fst (snd out), True)
          else do { (c', out') \<leftarrow> lookup_node (touch c now) (drop cp ts)
                        (fst out + cp, fst (snd out) @ rn_blocks c, snd (snd out)) now;
                    Some (set_child n (hd ts) c', out') }
     else if cp > 0
     then do { bs \<leftarrow> slice_to (rn_blocks c) (cp div BLOCK_SIZE);
               Some (set_child n (hd ts) (touch c now), fst out + cp, fst (snd out) @ bs, snd (snd out)) }
     else Some (n, out))"
  using assms by (cases ts) (simp_all add: lookup_node.simps [of n] Let_def)

lemma lookup_node_full:
  assumes "ts \<noteq> []" and "map_of (rn_children n) (hd ts) = Some c" and "edge_ok (hd ts) c"
    and "ts = rn_tokens c @ r"
  shows "lookup_node n ts (m, b, col) now =
           do { (c', out) \<leftarrow> lookup_node (touch c now) r (m + length (rn_tokens c), b @ rn_blocks c, col) now;
                Some (set_child n (hd ts) c', out) }"
proof -
  have "common_prefix_len ts (rn_tokens c) = length (rn_tokens c)"
    "take (length (rn_tokens c)) ts = rn_tokens c" "drop (length (rn_tokens c)) ts = r"
    using assms(4) by (simp_all add: cpl_full_append)
  then show ?thesis
    using assms(3) unfolding lookup_node_child [OF assms(1,2)] by (simp add: edge_ok_def)
qed

lemma lookup_node_part:
  assumes "ts \<noteq> []" and "map_of (rn_children n) (hd ts) = Some c" and "edge_ok (hd ts) c"
    and "common_prefix_len ts (rn_tokens c) = cp" and "cp < length (rn_tokens c)"
  shows "lookup_node n ts (m, b, col) now =
           Some (set_child n (hd ts) (touch c now), m + cp, b @ take (cp div BLOCK_SIZE) (rn_blocks c), col)"
proof -
  have "0 < cp" using cpl_pos [of ts "rn_tokens c"] assms by (auto simp: edge_ok_def)
  moreover have "cp div BLOCK_SIZE \<le> length (rn_blocks c)"
    using assms(3) div_le_mono [of cp "length (rn_tokens c)" BLOCK_SIZE] assms(5) by (simp add: edge_ok_def)
  ultimately show ?thesis
    using assms(4,5) unfolding lookup_node_child [OF assms(1,2)] by (simp add: slice_to_def)
qed

lemma lookup_node_none:
  "ts = [] \<or> map_of (rn_children n) (hd ts) = None \<Longrightarrow> lookup_node n ts out now = Some (n, out)"
  by (subst lookup_node.simps) (auto split: list.splits)

text \<open>A lookup computes the reference match, reports no collision, and leaves the matches alone.\<close>

lemma lookup_node_match:
  assumes "node_wf n"
  shows "\<exists>n'. lookup_node n ts (m, b, col) now = Some (n', m + match_len n ts, b @ match_blocks n ts, col)
           \<and> node_wf n' \<and> same_matches n n'"
  using assms
proof (induction "length ts" arbitrary: n ts m b rule: less_induct)
  case less
  show ?case
  proof (cases "ts = [] \<or> map_of (rn_children n) (hd ts) = None")
    case True
    then show ?thesis
      using less(2) by (cases "ts = []") (auto simp: lookup_node_none match_child same_matches_def)
  next
    case False
    then obtain c where ne: "ts \<noteq> []" and c: "map_of (rn_children n) (hd ts) = Some c" by auto
    note ok = node_wf_child [OF less(2) c]
    show ?thesis
    proof (cases ts "rn_tokens c" rule: cpl_cases)
      case (full r)
      have "length r < length ts" using full ok by (simp add: edge_ok_def)
      from less(1) [OF this, of "touch c now" "m + length (rn_tokens c)" "b @ rn_blocks c"] ok
      obtain c' where c': "lookup_node (touch c now) r (m + length (rn_tokens c), b @ rn_blocks c, col) now
            = Some (c', m + length (rn_tokens c) + match_len c r, (b @ rn_blocks c) @ match_blocks c r, col)"
          "node_wf c'" "same_matches (touch c now) c'"
        by auto
      have sc: "same_matches c c'" using c'(3) by (simp add: same_matches_def)
      then have "edge_ok (hd ts) c'" using ok by (simp add: same_matches_def edge_ok_def)
      then show ?thesis
        using lookup_node_full [OF ne c _ full, of m b col now] c' ok less(2) full ne c sc
          edge_match_full [of c "rn_tokens c" r]
        by (simp add: node_wf_set_child same_matches_set_child match_child)
    next
      case part
      have "same_matches c (touch c now)" by (simp add: same_matches_def)
      then show ?thesis
        using lookup_node_part [OF ne c _ refl part, of m b col now] ok less(2) ne c part
        by (simp add: node_wf_set_child same_matches_set_child match_child edge_match_part)
    qed
  qed
qed

section \<open>Block-aligned trees\<close>

fun node_aligned :: "radix_node \<Rightarrow> bool" where
  "node_aligned (RadixNode ts bs cs la h) \<longleftrightarrow>
     list_all (\<lambda>(k, c). length (rn_tokens c) = length (rn_blocks c) * BLOCK_SIZE \<and> node_aligned c) cs"

lemma node_aligned_iff:
  assumes "node_wf n"
  shows "node_aligned n \<longleftrightarrow> (\<forall>k c. map_of (rn_children n) k = Some c \<longrightarrow>
           length (rn_tokens c) = length (rn_blocks c) * BLOCK_SIZE \<and> node_aligned c)"
  using assms by (cases n) (fastforce simp: list_all_iff dest: map_of_SomeD)

lemma node_aligned_touch [simp]: "node_aligned (touch n t) = node_aligned n"
  by (cases n) (simp add: touch_def)

lemma node_aligned_new [simp]: "node_aligned (node_new ts bs t)"
  by (simp add: node_new_def)

lemma node_aligned_set_child:
  assumes "node_wf n" "edge_ok k c" "node_wf c" and "node_aligned n" and "node_aligned c"
    and "length (rn_tokens c) = length (rn_blocks c) * BLOCK_SIZE"
  shows "node_aligned (set_child n k c)"
  using assms node_wf_set_child [OF assms(1-3)] by (auto simp: node_aligned_iff update_conv split: if_splits)

lemma node_aligned_child:
  "node_wf n \<Longrightarrow> node_aligned n \<Longrightarrow> map_of (rn_children n) k = Some c
     \<Longrightarrow> length (rn_tokens c) = length (rn_blocks c) * BLOCK_SIZE \<and> node_aligned c"
  by (simp add: node_aligned_iff)

lemma block_div_add:
  "(a * BLOCK_SIZE + b) div BLOCK_SIZE = a + b div BLOCK_SIZE"
  by (simp add: BLOCK_SIZE_def)

lemma block_dvd_add: "BLOCK_SIZE dvd a * BLOCK_SIZE + b \<longleftrightarrow> BLOCK_SIZE dvd b"
  by (simp add: dvd_add_right_iff)

lemma drop_take_shift: "drop (a + b) (take (a + c) xs) = drop b (take c (drop a xs))"
  by (simp add: drop_take add.commute)

lemma match_blocks_length:
  assumes "node_wf n" and "node_aligned n"
  shows "length (match_blocks n q) = match_len n q div BLOCK_SIZE"
  using assms
proof (induction n q rule: match_len.induct)
  case (1 n q)
  show ?case
  proof (cases "q = [] \<or> map_of (rn_children n) (hd q) = None")
    case True
    then show ?thesis by (cases "q = []") (auto simp: match_child)
  next
    case False
    then obtain c where c: "q \<noteq> []" "map_of (rn_children n) (hd q) = Some c" by auto
    note ok = node_wf_child [OF 1(2) c(2)] node_aligned_child [OF 1(2,3) c(2)]
    show ?thesis
    proof (cases q "rn_tokens c" rule: cpl_cases)
      case (full r)
      then have "length (match_blocks c r) = match_len c r div BLOCK_SIZE"
        using 1(1) [OF c(2) refl] c(1) ok by (simp add: cpl_full_append)
      then show ?thesis
        using c ok full edge_match_full [of c "rn_tokens c" r] by (simp add: match_child block_div_add)
    next
      case part
      then have "common_prefix_len q (rn_tokens c) div BLOCK_SIZE \<le> length (rn_blocks c)"
        using ok by (auto simp: edge_ok_def less_mult_imp_div_less less_imp_le)
      then show ?thesis using c part by (simp add: match_child edge_match_part)
    qed
  qed
qed

lemma split_child_aligned:
  assumes "length (rn_tokens c) = length (rn_blocks c) * BLOCK_SIZE" and "node_aligned c"
    and "rn_tokens c = u @ v" and "BLOCK_SIZE dvd length u"
  shows "node_aligned (split_child c (length u) (drop (length u div BLOCK_SIZE) (rn_blocks c)))"
    and "length u = length (take (length u div BLOCK_SIZE) (rn_blocks c)) * BLOCK_SIZE"
proof -
  obtain k where k: "length u = k * BLOCK_SIZE" using assms(4) by (metis dvdE mult.commute)
  have "k * BLOCK_SIZE + length v = length (rn_blocks c) * BLOCK_SIZE" using assms(1,3) k by simp
  then have v: "length v = (length (rn_blocks c) - k) * BLOCK_SIZE" and "k \<le> length (rn_blocks c)"
    by (simp add: diff_mult_distrib, metis BLOCK_SIZE_def le_add1 mult_le_cancel2 zero_less_numeral)
  then show "length u = length (take (length u div BLOCK_SIZE) (rn_blocks c)) * BLOCK_SIZE"
    using k by (simp add: BLOCK_SIZE_def)
  show "node_aligned (split_child c (length u) (drop (length u div BLOCK_SIZE) (rn_blocks c)))"
    using assms k v by (cases c) (simp add: split_child_def BLOCK_SIZE_def)
qed

text \<open>
  Insertion into an aligned tree at an aligned point of divergence: the tree stays aligned, what
  was matched keeps its blocks, and only the part beyond it gets the new blocks.
\<close>

lemma match_blocks_inserted:
  assumes "node_inserted now n ts bs n'" and "node_aligned n"
    and "length ts = length bs * BLOCK_SIZE" and "BLOCK_SIZE dvd match_len n ts"
  shows "node_aligned n' \<and> match_blocks n' q = match_blocks n q @
           drop (match_len n q div BLOCK_SIZE) (take (common_prefix_len ts q div BLOCK_SIZE) bs)"
  using assms
proof (induction arbitrary: q)
  case (ins_leaf n ts bs)
  have "edge_ok (hd ts) (node_new ts bs now)"
    using ins_leaf by (auto simp: edge_ok_def BLOCK_SIZE_def)
  then have "node_aligned (set_child n (hd ts) (node_new ts bs now))"
    using ins_leaf by (intro node_aligned_set_child) auto
  then show ?case
    using ins_leaf cpl_commute [of ts q]
    by (cases "q = []") (auto simp: edge_blocks_def match_child update_conv cpl_hd_neq split: option.splits)
next
  case (ins_full n c bs ts c')
  note tok = node_inserted_wf [OF ins_full(4)]
  note c = node_wf_child [OF ins_full(1,2)] node_aligned_child [OF ins_full(1,6,2)]
  have lb: "length (rn_tokens c) div BLOCK_SIZE = length (rn_blocks c)" using c by (simp add: BLOCK_SIZE_def)
  have m: "match_len n (rn_tokens c @ ts) = length (rn_tokens c) + match_len c ts"
    using c ins_full(2) edge_match_full(1) [of c "rn_tokens c" ts] by (simp add: match_child edge_ok_def)
  have IH: "node_aligned c'" "match_blocks c' q = match_blocks c q @
      drop (match_len c q div BLOCK_SIZE) (take (common_prefix_len ts q div BLOCK_SIZE) (drop (length (rn_blocks c)) bs))" for q
    using ins_full(5) [of q] c lb m ins_full(7,8) by (auto simp: block_dvd_add diff_mult_distrib)
  have al: "node_aligned (set_child n (hd (rn_tokens c)) c')"
    using c tok IH(1) ins_full by (intro node_aligned_set_child) (auto simp: edge_ok_def)
  show ?case
  proof (cases "q = [] \<or> hd q \<noteq> hd (rn_tokens c)")
    case True
    then show ?thesis using al c by (cases "q = []") (auto simp: match_set_child cpl_hd_neq edge_ok_def)
  next
    case same: False
    show ?thesis
    proof (cases q "rn_tokens c" rule: cpl_cases)
      case (full q')
      then show ?thesis
        using same c tok al ins_full(2) edge_match_full [of c "rn_tokens c" q']
          edge_match_full(2) [of c' "rn_tokens c" q'] IH(2) [of q']
        by (simp add: match_child update_conv block_div_add drop_take_shift edge_ok_def)
    next
      case part
      then show ?thesis
        using same al tok ins_full(2) cpl_short [OF part, of ts] cpl_commute [of q]
        by (simp add: match_child update_conv edge_match_part)
    qed
  qed
next
  case (ins_split n u c v ts bs c')
  let ?s = "split_child c (length u) (drop (length u div BLOCK_SIZE) (rn_blocks c))"
  note tok = node_inserted_wf [OF ins_split(8)]
  note c = node_wf_child [OF ins_split(1,2)] node_aligned_child [OF ins_split(1,10,2)]
  have mu: "edge_match c (u @ ts) = length u"
    using ins_split(3,5,6) by (simp add: edge_match_def)
  then have dvd: "BLOCK_SIZE dvd length u" using ins_split by (simp add: match_child)
  have s0: "match_len ?s ts = 0"
    using mu edge_match_full(1) [of ?s u ts] edge_match_split_child [OF ins_split(3,5)] ins_split(3) by simp
  note sa = split_child_aligned [OF _ _ ins_split(3) dvd]
  obtain k where k: "length u = k * BLOCK_SIZE" using dvd by (metis dvdE mult.commute)
  have kd: "length u div BLOCK_SIZE = k" using k by (simp add: BLOCK_SIZE_def)
  have lts: "length ts = (length bs - k) * BLOCK_SIZE"
    using ins_split(11) k by (simp add: diff_mult_distrib)
  have IH: "node_aligned c'" "match_blocks c' q = match_blocks ?s q @
      drop (match_len ?s q div BLOCK_SIZE) (take (common_prefix_len ts q div BLOCK_SIZE) (drop k bs))" for q
    using ins_split(9) [of q] c sa(1) s0 lts unfolding kd by auto
  have "edge_ok (hd u) ?s" using c(1) ins_split(3-5) by (intro edge_ok_split_child) auto
  then have eok: "edge_ok (hd u) c'" using tok edge_ok_same by blast
  have "length (rn_tokens c') = length (rn_blocks c') * BLOCK_SIZE"
    using tok sa(2) c ins_split(3) by simp
  then have al: "node_aligned (set_child n (hd u) c')"
    using node_aligned_set_child [OF ins_split(1) eok _ ins_split(10) IH(1)] tok by simp
  show ?case
  proof (cases "q = [] \<or> hd q \<noteq> hd u")
    case True
    then show ?thesis using al ins_split by (cases "q = []") (auto simp: match_set_child cpl_hd_neq)
  next
    case same: False
    have le: "k \<le> length (rn_blocks c)" using sa(2) c k by (simp add: kd min_def BLOCK_SIZE_def split: if_splits)
    have n: "match_len n q = edge_match ?s q" "match_blocks n q = edge_blocks ?s q"
      using same ins_split edge_match_split_child [OF ins_split(3,5)]
        edge_blocks_split_child [OF ins_split(3,5) dvd] le by (simp_all add: match_child kd)
    show ?thesis
    proof (cases q u rule: cpl_cases)
      case (full q')
      then show ?thesis
        using same tok n al ins_split(3,4) edge_match_full [of ?s u q'] edge_match_full(2) [of c' u q'] IH(2) [of q']
        by (simp add: match_set_child k block_div_add drop_take_shift kd)
    next
      case part
      then show ?thesis
        using same tok n al ins_split(3) cpl_short [OF part, of ts] cpl_commute [of q]
        by (simp add: match_set_child edge_match_part)
    qed
  qed
qed simp

section \<open>Removing leaves\<close>

fun leaf_at :: "radix_node \<Rightarrow> token list \<Rightarrow> block_id list \<Rightarrow> bool" where
  "leaf_at n [] b = False"
| "leaf_at n (k # rest) b =
     (case map_of (rn_children n) k of
        None \<Rightarrow> False
      | Some c \<Rightarrow> if rest = [] then is_leaf c \<and> rn_blocks c = b else leaf_at c rest b)"

fun tree_blocks :: "radix_node \<Rightarrow> block_id multiset" where
  "tree_blocks (RadixNode ts bs cs la h) = sum_list (map (\<lambda>(k, c). mset (rn_blocks c) + tree_blocks c) cs)"

lemma mset_delete_key:
  assumes "distinct (map fst cs)" and "map_of cs k = Some c"
  shows "mset cs = add_mset (k, c) (mset (AList.delete k cs))"
  using assms
proof (induction cs)
  case (Cons a cs)
  then show ?case
    by (cases a) (auto simp: delete_conv' dest: map_of_SomeD
        simp flip: AList.delete_eq intro!: arg_cong [where f = mset] split: if_splits)
qed simp

lemma delete_update_same: "AList.delete k (AList.update k c cs) = AList.delete k cs"
  by (induction cs) auto

lemma mset_update_key:
  assumes "distinct (map fst cs)" and "map_of cs k = Some c"
  shows "mset (AList.update k c' cs) = add_mset (k, c') (mset (AList.delete k cs))"
  using mset_delete_key [of "AList.update k c' cs" k c'] assms
  by (simp add: distinct_update update_conv delete_update_same)

lemma tree_blocks_mset: "tree_blocks n = (\<Sum>(k, c) \<in># mset (rn_children n). mset (rn_blocks c) + tree_blocks c)"
  by (cases n) (simp flip: sum_mset_sum_list mset_map)

lemma count_nodes_mset: "count_nodes n = (\<Sum>(k, c) \<in># mset (rn_children n). Suc (count_nodes c))"
proof (cases n)
  case (RadixNode ts bs cs la h)
  have "length cs + sum_list (map (\<lambda>(k, c). count_nodes c) cs) = sum_list (map (\<lambda>(k, c). Suc (count_nodes c)) cs)"
    by (induction cs) auto
  then show ?thesis using RadixNode by (simp flip: sum_mset_sum_list mset_map)
qed

text \<open>
  Removing a path keeps the invariants, never lengthens a match, and the blocks that are still
  matched are the first ones of what was matched before.
\<close>

definition weaker_matches :: "radix_node \<Rightarrow> radix_node \<Rightarrow> bool" where
  "weaker_matches n n' \<longleftrightarrow> rn_tokens n' = rn_tokens n \<and> rn_blocks n' = rn_blocks n
     \<and> rn_token_hash n' = rn_token_hash n
     \<and> (\<forall>q. match_len n' q \<le> match_len n q \<and> (\<exists>k. match_blocks n' q = take k (match_blocks n q)))"

lemma weaker_matches_refl: "weaker_matches n n"
  unfolding weaker_matches_def by (metis order_refl take_all)

lemma weaker_matches_trans: "weaker_matches n n' \<Longrightarrow> weaker_matches n' n'' \<Longrightarrow> weaker_matches n n''"
  unfolding weaker_matches_def by (metis order_trans take_take)

lemma weaker_edge_blocks:
  assumes "weaker_matches c c'"
  shows "edge_match c' q \<le> edge_match c q" "\<exists>k. edge_blocks c' q = take k (edge_blocks c q)"
proof -
  show "edge_match c' q \<le> edge_match c q" using assms by (simp add: weaker_matches_def edge_match_def)
  show "\<exists>k. edge_blocks c' q = take k (edge_blocks c q)"
  proof (cases "common_prefix_len q (rn_tokens c) = length (rn_tokens c)")
    case True
    obtain k where "match_blocks c' (drop (length (rn_tokens c)) q) = take k (match_blocks c (drop (length (rn_tokens c)) q))"
      using assms unfolding weaker_matches_def by blast
    then show ?thesis
      using True assms by (intro exI [of _ "length (rn_blocks c) + k"]) (simp add: weaker_matches_def edge_blocks_def)
  next
    case False
    then show ?thesis
      using assms by (intro exI [of _ "common_prefix_len q (rn_tokens c) div BLOCK_SIZE"])
        (simp add: weaker_matches_def edge_blocks_def)
  qed
qed

lemma weaker_set_child:
  assumes "map_of (rn_children n) k = Some c" and "weaker_matches c c'"
  shows "weaker_matches n (set_child n k c')"
proof -
  have "match_len (set_child n k c') q \<le> match_len n q \<and> (\<exists>i. match_blocks (set_child n k c') q = take i (match_blocks n q))" for q
  proof (cases "q = [] \<or> hd q \<noteq> k")
    case True
    then show ?thesis by (cases "q = []") (auto simp: match_set_child intro: exI [of _ "length (match_blocks n q)"])
  next
    case False
    then show ?thesis using weaker_edge_blocks [OF assms(2), of q] assms(1) by (simp add: match_set_child) (simp add: match_child)
  qed
  then show ?thesis by (simp add: weaker_matches_def)
qed

lemma weaker_delete:
  "weaker_matches n (set_children n (AList.delete k (rn_children n)))"
proof -
  let ?n = "set_children n (AList.delete k (rn_children n))"
  have "match_len ?n q \<le> match_len n q \<and> (\<exists>i. match_blocks ?n q = take i (match_blocks n q))" for q
  proof (cases "q = [] \<or> hd q \<noteq> k")
    case True
    then show ?thesis by (cases "q = []") (auto simp: match_child delete_conv' intro: exI [of _ "length (match_blocks n q)"])
  next
    case False
    then show ?thesis by (auto simp: match_child delete_conv' intro: exI [of _ 0])
  qed
  then show ?thesis by (simp add: weaker_matches_def)
qed

lemma remove_path_weaker:
  assumes "node_wf n"
  shows "node_wf (snd (remove_path n p)) \<and> weaker_matches n (snd (remove_path n p))
       \<and> (node_aligned n \<longrightarrow> node_aligned (snd (remove_path n p)))"
  using assms
proof (induction n p rule: remove_path.induct)
  case (2 n k rest)
  show ?case
  proof (cases "map_of (rn_children n) k")
    case None
    then show ?thesis using 2(2) by (simp add: weaker_matches_refl)
  next
    case (Some c)
    note c = node_wf_child [OF 2(2) Some]
    show ?thesis
    proof (cases "rest = []")
      case True
      have wf: "node_wf (set_children n (AList.delete k (rn_children n)))"
        using 2(2) by (auto simp: node_wf_iff [of n] node_wf_iff [of "set_children n x" for x]
            delete_conv' distinct_delete split: if_splits)
      then have "node_aligned n \<longrightarrow> node_aligned (set_children n (AList.delete k (rn_children n)))"
        using 2(2) by (auto simp: node_aligned_iff delete_conv' split: if_splits)
      then show ?thesis using True Some wf weaker_delete by simp
    next
      case False
      let ?c = "snd (remove_path c rest)"
      have IH: "node_wf ?c" "weaker_matches c ?c" "node_aligned c \<longrightarrow> node_aligned ?c"
        using 2(1) [OF Some False] c by auto
      then have e: "edge_ok k ?c" using c by (simp add: weaker_matches_def edge_ok_def)
      have "node_aligned n \<longrightarrow> node_aligned (set_child n k ?c)"
        using node_aligned_child [OF 2(2) _ Some] IH node_aligned_set_child [OF 2(2) e IH(1)]
        by (auto simp: weaker_matches_def)
      then show ?thesis
        using False Some 2(2) IH e
        by (simp add: case_prod_unfold Let_def node_wf_set_child weaker_set_child)
    qed
  qed
qed (simp add: weaker_matches_refl)

lemma leaf_blocks_removed:
  assumes "node_wf n" and "leaf_at n p b"
  shows "tree_blocks n = mset b + tree_blocks (snd (remove_path n p))
       \<and> count_nodes n = Suc (count_nodes (snd (remove_path n p)))
       \<and> fst (remove_path n p)"
  using assms
proof (induction n p rule: remove_path.induct)
  case (2 n k rest)
  then obtain c where c: "map_of (rn_children n) k = Some c" by (auto split: option.splits)
  have d: "distinct (map fst (rn_children n))" using 2(2) by (simp add: node_wf_iff [of n])
  note wf = node_wf_child [OF 2(2) c]
  note del = mset_delete_key [OF d c] and upd = mset_update_key [OF d c]
  show ?case
  proof (cases "rest = []")
    case True
    then have l: "rn_children c = []" "rn_blocks c = b" using 2(3) c by (auto simp: is_leaf_def)
    then have "tree_blocks c = {#}" "count_nodes c = 0" by (simp_all add: tree_blocks_mset [of c] count_nodes_mset [of c])
    then show ?thesis
      using True c l del by (simp add: tree_blocks_mset [of n] count_nodes_mset [of n]
          tree_blocks_mset [of "set_children n x" for x] count_nodes_mset [of "set_children n x" for x])
  next
    case False
    let ?c = "snd (remove_path c rest)"
    have IH: "tree_blocks c = mset b + tree_blocks ?c" "count_nodes c = Suc (count_nodes ?c)" "fst (remove_path c rest)"
      using 2(1) [OF c False] 2(3) wf c False by auto
    have "rn_blocks ?c = rn_blocks c" using remove_path_weaker [of c rest] wf by (simp add: weaker_matches_def)
    then show ?thesis
      using False c IH del upd [of ?c]
      by (simp add: case_prod_unfold Let_def tree_blocks_mset [of n] count_nodes_mset [of n]
          tree_blocks_mset [of "set_child n x y" for x y] count_nodes_mset [of "set_child n x y" for x y])
  qed
qed simp

section \<open>Finding leaves\<close>

lemma sort_key_hd_in: "sort_key f xs = x # ys \<Longrightarrow> x \<in> set xs"
  by (metis list.set_intros(1) set_sort)

lemma sort_key_Nil: "sort_key f xs = [] \<longleftrightarrow> xs = []"
  by (metis length_0_conv length_sort)

lemma sort_key_hd_least: "sort_key f xs = x # ys \<Longrightarrow> z \<in> set xs \<Longrightarrow> f x \<le> f z"
  by (metis (no_types, opaque_lifting) eq_iff list.simps(9) set_ConsD set_sort sorted_simps(2)
      sorted_sort_key imageI list.set_map)

lemma direct_leaf:
  assumes "distinct (map fst cs)"
    and "sort_key snd (map (\<lambda>(k, c). (k, rn_last_access c)) (filter (\<lambda>(k, c). is_leaf c) cs)) = (key, a) # rest"
  shows "\<exists>c. map_of cs key = Some c \<and> is_leaf c"
  using sort_key_hd_in [OF assms(2)] assms(1) by (fastforce simp: map_of_eq_Some_iff)

lemma find_lru_leaf_is_leaf:
  "node_wf n \<Longrightarrow> find_lru_leaf n = Some (p, b) \<Longrightarrow> leaf_at n p b"
  "list_all (\<lambda>(k, c). node_wf c) cs \<Longrightarrow> find_best cs best acc = Some (p, b)
     \<Longrightarrow> best = Some (p, b) \<or> (\<exists>k c r. (k, c) \<in> set cs \<and> p = k # r \<and> r \<noteq> [] \<and> leaf_at c r b)"
proof (induction n and cs best acc arbitrary: p b and p b rule: find_lru_leaf_find_best.induct)
  case (1 ts bs cs la h)
  have d: "distinct (map fst cs)" and wf: "list_all (\<lambda>(k, c). node_wf c) cs"
    using 1(2) by (auto simp: list_all_iff)
  show ?case
  proof (cases "sort_key snd (map (\<lambda>(k, c). (k, rn_last_access c)) (filter (\<lambda>(k, c). is_leaf c) cs))")
    case Nil
    then have "find_best cs None u64_max = Some (p, b)" using 1(3) by simp
    with 1(1) [OF Nil wf] obtain k c r where "(k, c) \<in> set cs" "p = k # r" "r \<noteq> []" "leaf_at c r b" by auto
    then show ?thesis using d by (simp add: map_of_eq_Some_iff)
  next
    case (Cons ka rest)
    obtain key a where ka: "ka = (key, a)" by (cases ka)
    from direct_leaf [OF d Cons [unfolded ka]] 1(3) Cons ka show ?thesis by auto
  qed
next
  case (3 k c cs best acc)
  show ?case
  proof (cases "find_lru_leaf c")
    case None
    then show ?thesis using 3 by fastforce
  next
    case (Some pb)
    obtain p1 b1 where pb: "pb = (p1, b1)" by (cases pb)
    have l: "leaf_at c p1 b1" and "p1 \<noteq> []" using 3(1) [of p1 b1] 3(5) Some pb by auto
    show ?thesis
    proof (cases "rn_last_access c < acc")
      case True
      then have "find_best cs (Some (k # p1, b1)) (rn_last_access c) = Some (p, b)"
        using 3(6) Some pb by simp
      with 3(3) [OF Some pb [symmetric] True] 3(5) l \<open>p1 \<noteq> []\<close> show ?thesis by fastforce
    next
      case False
      with 3(4) [OF Some pb [symmetric] False] 3(5,6) Some pb show ?thesis by fastforce
    qed
  qed
qed auto

section \<open>Access times are bounded by the clock\<close>

fun acc_le :: "nat \<Rightarrow> radix_node \<Rightarrow> bool" where
  "acc_le T (RadixNode ts bs cs la h) \<longleftrightarrow> la \<le> T \<and> list_all (\<lambda>(k, c). acc_le T c) cs"

lemma acc_le_iff: "acc_le T n \<longleftrightarrow> rn_last_access n \<le> T \<and> (\<forall>(k, c) \<in> set (rn_children n). acc_le T c)"
  by (cases n) (simp add: list_all_iff)

lemma acc_le_touch: "acc_le T n \<Longrightarrow> t \<le> T \<Longrightarrow> acc_le T (touch n t)"
  by (simp add: acc_le_iff [of T n] acc_le_iff [of T "touch n t"])

lemma acc_le_child: "acc_le T n \<Longrightarrow> map_of (rn_children n) k = Some c \<Longrightarrow> acc_le T c"
  by (auto simp: acc_le_iff [of T n] dest: map_of_SomeD)

lemma set_update_subset: "set (AList.update k c cs) \<subseteq> insert (k, c) (set cs)"
  by (induction cs) auto

lemma acc_le_set_child: "acc_le T n \<Longrightarrow> acc_le T c \<Longrightarrow> acc_le T (set_child n k c)"
  using set_update_subset [of k c "rn_children n"]
  by (auto simp: acc_le_iff [of T n] acc_le_iff [of T "set_child n k c"])

lemma acc_le_mono: "acc_le T n \<Longrightarrow> T \<le> T' \<Longrightarrow> acc_le T' n"
proof (induction n)
  case (RadixNode ts bs cs la h)
  then show ?case by (fastforce simp: list_all_iff)
qed

lemma acc_le_inserted:
  "node_inserted now n ts bs n' \<Longrightarrow> now \<le> T \<Longrightarrow> acc_le T n \<Longrightarrow> acc_le T n'"
proof (induction rule: node_inserted.induct)
  case (ins_leaf n ts bs)
  then show ?case by (intro acc_le_set_child) (simp_all add: node_new_def)
next
  case (ins_split n u c v ts bs c')
  have c: "acc_le T c" using acc_le_child ins_split by blast
  then have "acc_le T (split_child c (length u) (drop (length u div BLOCK_SIZE) (rn_blocks c)))"
    by (cases c) (simp add: split_child_def Let_def)
  with ins_split show ?case by (simp add: acc_le_set_child)
qed (auto simp: acc_le_touch intro: acc_le_set_child acc_le_child)

lemma acc_le_lookup:
  assumes "lookup_node n ts out now = Some (n', out')" and "now \<le> T" and "acc_le T n"
  shows "acc_le T n'"
  using assms
proof (induction n ts out now arbitrary: n' out' rule: lookup_node.induct)
  case (1 n ts out now)
  show ?case
  proof (cases "ts = [] \<or> map_of (rn_children n) (hd ts) = None")
    case True
    then show ?thesis using 1 by (auto simp: lookup_node_none)
  next
    case False
    then obtain f r c where ts: "ts = f # r" and c: "map_of (rn_children n) f = Some c"
      by (cases ts) auto
    have ac: "acc_le T (touch c now)" using acc_le_child [OF 1(4) c] 1(3) by (rule acc_le_touch)
    note IH = 1(1) [OF ts c refl]
    show ?thesis
    proof (cases "common_prefix_len ts (rn_tokens c) = length (rn_tokens c)
                   \<and> rn_token_hash c = hash_tokens (take (length (rn_tokens c)) ts)")
      case True
      then show ?thesis
        using 1(2) ts c IH 1(3) ac 1(4)
        by (auto simp: lookup_node_child Let_def split: Option.bind_splits intro!: acc_le_set_child)
    next
      case False
      then show ?thesis
        using 1(2) ts c ac 1(4)
        by (auto simp: lookup_node_child Let_def split: if_splits Option.bind_splits intro!: acc_le_set_child)
    qed
  qed
qed

lemma acc_le_remove: "acc_le T n \<Longrightarrow> acc_le T (snd (remove_path n p))"
proof (induction n p rule: remove_path.induct)
  case (2 n k rest)
  show ?case
  proof (cases "map_of (rn_children n) k")
    case (Some c)
    have "acc_le T (set_children n (AList.delete k (rn_children n)))"
      using 2(2) by (auto simp: acc_le_iff [of T n] acc_le_iff [of T "set_children n x" for x] AList.delete_eq)
    then show ?thesis
      using Some 2 acc_le_child [OF 2(2) Some] by (auto simp: case_prod_unfold Let_def intro!: acc_le_set_child)
  qed (use 2 in simp)
qed simp

lemma find_lru_leaf_Some:
  "acc_le T n \<Longrightarrow> T < u64_max \<Longrightarrow> node_wf n \<Longrightarrow> rn_children n \<noteq> [] \<Longrightarrow> find_lru_leaf n \<noteq> None"
  "T < u64_max \<Longrightarrow> list_all (\<lambda>(k, c). acc_le T c \<and> node_wf c \<and> \<not> is_leaf c) cs
     \<Longrightarrow> best \<noteq> None \<or> (acc = u64_max \<and> cs \<noteq> []) \<Longrightarrow> find_best cs best acc \<noteq> None"
proof (induction n and cs best acc rule: find_lru_leaf_find_best.induct)
  case (1 ts bs cs la h)
  have d: "distinct (map fst cs)" using 1(4) by simp
  show ?case
  proof (cases "sort_key snd (map (\<lambda>(k, c). (k, rn_last_access c)) (filter (\<lambda>(k, c). is_leaf c) cs))")
    case Nil
    then have "filter (\<lambda>(k, c). is_leaf c) cs = []" by (simp add: sort_key_Nil)
    then have "list_all (\<lambda>(k, c). acc_le T c \<and> node_wf c \<and> \<not> is_leaf c) cs"
      using 1(2,4) by (auto simp: list_all_iff filter_empty_conv)
    then show ?thesis using 1(1) [OF Nil] 1(3,5) Nil by simp
  next
    case (Cons ka rest)
    obtain key a where ka: "ka = (key, a)" by (cases ka)
    from direct_leaf [OF d Cons [unfolded ka]] Cons ka show ?thesis by auto
  qed
next
  case (3 k c cs best acc)
  have c: "find_lru_leaf c \<noteq> None" using 3(1) 3(5,6) by (simp add: is_leaf_def)
  have la: "rn_last_access c < u64_max" using 3(5,6) acc_le_iff [of T c] by auto
  obtain p b where pb: "find_lru_leaf c = Some (p, b)" using c by auto
  show ?case
    using 3(3) [OF pb refl] 3(4) [OF pb refl] 3(5-7) la pb by auto
qed auto

section \<open>Eviction\<close>

text \<open>What removing leaves does to a tree: the invariants stay and matches only shrink.\<close>

definition pruned :: "radix_node \<Rightarrow> radix_node \<Rightarrow> bool" where
  "pruned r r' \<longleftrightarrow> node_wf r' \<and> weaker_matches r r' \<and> (node_aligned r \<longrightarrow> node_aligned r')
     \<and> (\<forall>T. acc_le T r \<longrightarrow> acc_le T r')"

lemma pruned_refl: "node_wf r \<Longrightarrow> pruned r r"
  by (simp add: pruned_def weaker_matches_refl)

lemma pruned_trans: "pruned r s \<Longrightarrow> pruned s t \<Longrightarrow> pruned r t"
  unfolding pruned_def using weaker_matches_trans by blast

lemma pruned_remove_path: "node_wf r \<Longrightarrow> pruned r (snd (remove_path r p))"
  unfolding pruned_def using remove_path_weaker acc_le_remove by blast

lemma pruned_wf: "pruned r r' \<Longrightarrow> node_wf r'"
  by (simp add: pruned_def)

lemma evict_loop_law:
  assumes "node_wf r" and "count_nodes r < fuel"
  shows "\<exists>freed' r'. evict_loop fuel k r freed = Some (freed @ freed', r') \<and> pruned r r'
    \<and> tree_blocks r = mset freed' + tree_blocks r'
    \<and> (\<forall>T < u64_max. acc_le T r \<longrightarrow> k \<le> length freed + length freed' \<or> rn_children r' = [])"
  using assms
proof (induction fuel arbitrary: r freed)
  case (Suc fuel)
  show ?case
  proof (cases "length freed < k")
    case False
    then show ?thesis using Suc(2) by (auto simp: pruned_refl)
  next
    case lt: True
    show ?thesis
    proof (cases "find_lru_leaf r")
      case None
      then show ?thesis using Suc(2) lt find_lru_leaf_Some(1) [of _ r] by (auto simp: pruned_refl)
    next
      case (Some pb)
      obtain p b where pb: "pb = (p, b)" by (cases pb)
      have l: "leaf_at r p b" using find_lru_leaf_is_leaf(1) [OF Suc(2)] Some pb by simp
      let ?r = "snd (remove_path r p)"
      note law = leaf_blocks_removed [OF Suc(2) l] and w = pruned_remove_path [OF Suc(2), of p]
      have "node_wf ?r" "count_nodes ?r < fuel" using pruned_wf [OF w] law Suc(3) by auto
      from Suc(1) [OF this, of "freed @ b"] obtain f' r' where
        IH: "evict_loop fuel k ?r (freed @ b) = Some ((freed @ b) @ f', r')" "pruned ?r r'"
          "tree_blocks ?r = mset f' + tree_blocks r'"
          "\<forall>T < u64_max. acc_le T ?r \<longrightarrow> k \<le> length (freed @ b) + length f' \<or> rn_children r' = []"
        by blast
      have "evict_loop (Suc fuel) k r freed = Some (freed @ (b @ f'), r')"
        using lt Some pb IH(1) by simp
      moreover have "\<forall>T < u64_max. acc_le T r \<longrightarrow> k \<le> length freed + length (b @ f') \<or> rn_children r' = []"
        using IH(4) acc_le_remove [of _ r p] by fastforce
      moreover have "tree_blocks r = mset (b @ f') + tree_blocks r'" using law IH(3) by simp
      ultimately show ?thesis using pruned_trans [OF w IH(2)] by blast
    qed
  qed
qed simp

lemma leaf_at_remove_other:
  assumes "leaf_at n p b" and "leaf_at n p' b'" and "p \<noteq> p'"
  shows "leaf_at (snd (remove_path n p')) p b"
  using assms
proof (induction n p' arbitrary: p rule: remove_path.induct)
  case (2 n k' r')
  then obtain k r where p: "p = k # r" by (cases p) auto
  show ?case
  proof (cases "k = k'")
    case False
    then show ?thesis
      using 2(2) p by (auto simp: case_prod_unfold Let_def delete_conv' update_conv split: option.splits if_splits)
  next
    case True
    obtain c where c: "map_of (rn_children n) k = Some c" using 2(2) p by (auto split: option.splits)
    have "r' \<noteq> []"
    proof
      assume "r' = []"
      then have "r \<noteq> []" "rn_children c = []" using 2(3,4) p True c by (auto simp: is_leaf_def)
      then show False using 2(2) p c by (cases r) auto
    qed
    moreover have "r \<noteq> []"
    proof
      assume "r = []"
      then have "rn_children c = []" using 2(2) p c by (auto simp: is_leaf_def)
      then show False using 2(3) p c True \<open>r' \<noteq> []\<close> by (cases r') auto
    qed
    ultimately show ?thesis
      using 2(1) [of c r] 2(2-4) p c True by (simp add: case_prod_unfold Let_def update_conv)
  qed
qed simp

lemma collect_leaves_paths:
  "node_wf n \<Longrightarrow> (a, q, b) \<in> set (collect_leaves n path) \<Longrightarrow> \<exists>p. q = path @ p \<and> leaf_at n p b"
proof (induction n path arbitrary: q rule: collect_leaves.induct)
  case (1 ts bs cs la h path)
  from 1(3) obtain k c where kc: "(k, c) \<in> set cs"
    and m: "(a, q, b) \<in> set (if is_leaf c then [(rn_last_access c, path @ [k], rn_blocks c)]
                          else collect_leaves c (path @ [k]))" by auto
  have mo: "map_of cs k = Some c" using 1(2) kc by simp
  show ?case
  proof (cases "is_leaf c")
    case True
    then show ?thesis using m mo by auto
  next
    case False
    then have "\<exists>p. q = (path @ [k]) @ p \<and> leaf_at c p b"
      using 1(1) [OF kc refl False, of q] 1(2) kc m by (auto simp: list_all_iff)
    then obtain p where "q = path @ (k # p)" "leaf_at c p b" by auto
    then show ?thesis using mo by (cases p) auto
  qed
qed

lemma distinct_concat_map:
  assumes "distinct (map key xs)" and "\<And>x. x \<in> set xs \<Longrightarrow> distinct (f x)"
    and "\<And>x y. x \<in> set xs \<Longrightarrow> y \<in> set (f x) \<Longrightarrow> tag y = key x"
  shows "distinct (concat (map f xs))"
  using assms
proof (induction xs)
  case (Cons x xs)
  have "y \<notin> set (concat (map f xs))" if y: "y \<in> set (f x)" for y
  proof
    assume "y \<in> set (concat (map f xs))"
    then obtain z where z: "z \<in> set xs" "y \<in> set (f z)" by auto
    then have "key z = key x" using Cons.prems(3) y by (metis list.set_intros)
    then show False using Cons.prems(1) z(1) by (metis distinct.simps(2) image_eqI list.set_map list.simps(9))
  qed
  then have "set (f x) \<inter> set (concat (map f xs)) = {}" by blast
  moreover have "distinct (concat (map f xs))" using Cons by simp
  ultimately show ?case using Cons.prems(2) [of x] by simp
qed simp

lemma collect_leaves_distinct:
  "node_wf n \<Longrightarrow> distinct (map (\<lambda>l. fst (snd l)) (collect_leaves n path))"
proof (induction n path rule: collect_leaves.induct)
  case (1 ts bs cs la h path)
  let ?f = "\<lambda>kc. case kc of (k, c) \<Rightarrow> map (\<lambda>l. fst (snd l))
      (if is_leaf c then [(rn_last_access c, path @ [k], rn_blocks c)] else collect_leaves c (path @ [k]))"
  have eq: "map (\<lambda>l. fst (snd l)) (collect_leaves (RadixNode ts bs cs la h) path) = concat (map ?f cs)"
    by (simp add: map_concat comp_def case_prod_unfold)
  have "distinct (concat (map ?f cs))"
  proof (rule distinct_concat_map [where key = fst and tag = "\<lambda>q. q ! length path"])
    show "distinct (map fst cs)" using 1(2) by simp
  next
    fix kc assume kc: "kc \<in> set cs"
    obtain k c where e: "kc = (k, c)" by (cases kc)
    have wf: "node_wf c" using 1(2) kc e by (auto simp: list_all_iff)
    show "distinct (?f kc)" using 1(1) [OF kc e [symmetric] _ wf] e by (cases "is_leaf c") simp_all
    fix q assume q: "q \<in> set (?f kc)"
    then show "q ! length path = fst kc"
    proof (cases "is_leaf c")
      case False
      then obtain a b where "(a, q, b) \<in> set (collect_leaves c (path @ [k]))" using q e by auto
      then obtain p where "q = (path @ [k]) @ p" using collect_leaves_paths [OF wf] by blast
      then show ?thesis using e by (simp add: nth_append)
    qed (use e q in auto)
  qed
  then show ?case by (simp only: eq)
qed

text \<open>The leaves an \<open>evict_filter\<close> may free, in the order of the list.\<close>

definition evictable_leaves :: "(block_id list \<Rightarrow> bool) \<Rightarrow> (nat \<times> token list \<times> block_id list) list \<Rightarrow> block_id list list" where
  "evictable_leaves keep ls = filter keep (map (\<lambda>(a, p, b). b) ls)"

lemma evictable_leaves_simps [simp]:
  "evictable_leaves keep [] = []"
  "evictable_leaves keep ((a, p, b) # ls) = (if keep b then b # evictable_leaves keep ls else evictable_leaves keep ls)"
  by (simp_all add: evictable_leaves_def)

lemma evict_filter_loop_law:
  assumes "node_wf r" and "distinct (map (\<lambda>l. fst (snd l)) ls)"
    and "\<forall>(a, p, b) \<in> set ls. leaf_at r p b"
  shows "\<exists>i r'. evict_filter_loop k keep ls r freed = (freed @ concat (take i (evictable_leaves keep ls)), r')
    \<and> pruned r r' \<and> tree_blocks r = mset (concat (take i (evictable_leaves keep ls))) + tree_blocks r'
    \<and> (k \<le> length freed + length (concat (take i (evictable_leaves keep ls))) \<or> length (evictable_leaves keep ls) \<le> i)"
  using assms
proof (induction ls arbitrary: r freed)
  case Nil
  then show ?case by (auto simp: pruned_refl)
next
  case (Cons l ls)
  obtain a p b where l: "l = (a, p, b)" by (cases l)
  show ?case
  proof (cases "k \<le> length freed")
    case True
    then show ?thesis using Cons(2) l by (intro exI [of _ 0] exI [of _ r]) (simp add: pruned_refl)
  next
    case lt: False
    show ?thesis
    proof (cases "keep b")
      case False
      have "\<forall>(a, p, b) \<in> set ls. leaf_at r p b" "distinct (map (\<lambda>l. fst (snd l)) ls)"
        using Cons(3,4) by simp_all
      from Cons(1) [OF Cons(2) this(2,1), of freed] show ?thesis using False l lt by simp
    next
      case True
      let ?r = "snd (remove_path r p)"
      have lf: "leaf_at r p b" using Cons(4) l by auto
      note law = leaf_blocks_removed [OF Cons(2) lf] and w = pruned_remove_path [OF Cons(2), of p]
      have others: "\<forall>(a', p', b') \<in> set ls. leaf_at ?r p' b'"
      proof clarify
        fix a' p' b' assume m: "(a', p', b') \<in> set ls"
        then have "p' \<noteq> p" using Cons(3) l by force
        then show "leaf_at ?r p' b'" using Cons(4) m lf by (intro leaf_at_remove_other) auto
      qed
      have d: "distinct (map (\<lambda>l. fst (snd l)) ls)" using Cons(3) by simp
      from Cons(1) [OF pruned_wf [OF w] d others, of "freed @ b"] obtain i r' where
        IH: "evict_filter_loop k keep ls ?r (freed @ b) = ((freed @ b) @ concat (take i (evictable_leaves keep ls)), r')"
          "pruned ?r r'" "tree_blocks ?r = mset (concat (take i (evictable_leaves keep ls))) + tree_blocks r'"
          "k \<le> length (freed @ b) + length (concat (take i (evictable_leaves keep ls))) \<or> length (evictable_leaves keep ls) \<le> i"
        by blast
      show ?thesis
        using IH law lt True l pruned_trans [OF w IH(2)]
        by (intro exI [of _ "Suc i"] exI [of _ r']) auto
    qed
  qed
qed

section \<open>The cache invariant\<close>

definition cache_inv :: "radix_prefix_cache \<Rightarrow> bool" where
  "cache_inv c \<longleftrightarrow> node_wf (root c) \<and> rn_tokens (root c) = [] \<and> rn_blocks (root c) = []
     \<and> rn_token_hash (root c) = hash_tokens [] \<and> acc_le (clock c) (root c) \<and> hash_collisions c = 0"

lemma cache_inv_new: "cache_inv radix_new"
  by (simp add: cache_inv_def radix_new_def node_new_def)

lemma radix_insert_law:
  assumes "cache_inv c" and "length ts = length bs * BLOCK_SIZE"
  shows "\<exists>c'. radix_insert c ts bs = Some c' \<and> cache_inv c' \<and> clock c' = Suc (clock c)
    \<and> node_inserted (Suc (clock c)) (root c) ts bs (root c')"
proof -
  obtain r where r: "insert_node (root c) ts bs (Suc (clock c)) = Some r"
      "node_inserted (Suc (clock c)) (root c) ts bs r"
    using insert_node_total [of "root c" ts bs "Suc (clock c)"] assms by (auto simp: cache_inv_def)
  have "acc_le (Suc (clock c)) r"
    using acc_le_inserted [OF r(2)] acc_le_mono [of "clock c" "root c" "Suc (clock c)"] assms(1)
    by (simp add: cache_inv_def)
  then show ?thesis
    using r assms node_inserted_wf [OF r(2)] by (simp add: radix_insert_def tick_def cache_inv_def)
qed

lemma radix_lookup_law:
  assumes "cache_inv c"
  shows "\<exists>c'. radix_lookup c q =
      Some (if 0 < match_len (root c) q then Some (match_len (root c) q, match_blocks (root c) q) else None, c')
    \<and> cache_inv c' \<and> clock c' = Suc (clock c) \<and> same_matches (root c) (root c')"
proof -
  obtain r where r: "lookup_node (root c) q (0, [], False) (Suc (clock c))
        = Some (r, 0 + match_len (root c) q, [] @ match_blocks (root c) q, False)"
      "node_wf r" "same_matches (root c) r"
    using lookup_node_match [of "root c" q 0 "[]" False "Suc (clock c)"] assms unfolding cache_inv_def by blast
  have "acc_le (Suc (clock c)) r"
    using acc_le_lookup [OF r(1)] acc_le_mono [of "clock c" "root c" "Suc (clock c)"] assms
    by (simp add: cache_inv_def)
  then show ?thesis
    using r assms by (simp add: radix_lookup_def tick_def cache_inv_def same_matches_def)
qed

lemma radix_evict_law:
  assumes "cache_inv c"
  shows "\<exists>freed c'. radix_evict c k = Some (freed, c') \<and> cache_inv c' \<and> clock c' = clock c
    \<and> pruned (root c) (root c') \<and> tree_blocks (root c) = mset freed + tree_blocks (root c')
    \<and> (clock c < u64_max \<longrightarrow> k \<le> length freed \<or> rn_children (root c') = [])"
proof -
  have "node_wf (root c)" "count_nodes (root c) < Suc (nodes c)" using assms by (auto simp: cache_inv_def nodes_def)
  from evict_loop_law [OF this, of k "[]"] obtain freed r where
    r: "evict_loop (Suc (nodes c)) k (root c) [] = Some (freed, r)" "pruned (root c) r"
      "tree_blocks (root c) = mset freed + tree_blocks r"
      "\<forall>T < u64_max. acc_le T (root c) \<longrightarrow> k \<le> length freed \<or> rn_children r = []"
    by auto
  then show ?thesis
    using assms by (auto simp: radix_evict_def cache_inv_def pruned_def weaker_matches_def)
qed

lemma evict_filter_law:
  assumes "cache_inv c"
  shows "\<exists>i c'. let es = evictable_leaves keep (sort_key fst (collect_leaves (root c) [])) in
      evict_filter c k keep = (concat (take i es), c') \<and> cache_inv c' \<and> clock c' = clock c
    \<and> pruned (root c) (root c')
    \<and> tree_blocks (root c) = mset (concat (take i es)) + tree_blocks (root c')
    \<and> (k \<le> length (concat (take i es)) \<or> length es \<le> i)"
proof -
  let ?ls = "sort_key fst (collect_leaves (root c) [])"
  have wf: "node_wf (root c)" using assms by (simp add: cache_inv_def)
  have ls: "\<forall>(a, p, b) \<in> set ?ls. leaf_at (root c) p b"
    using collect_leaves_paths [OF wf, of _ _ _ "[]"] by fastforce
  have "distinct (map (\<lambda>l. fst (snd l)) ?ls)"
    using collect_leaves_distinct [OF wf, of "[]"]
    by (simp add: distinct_map distinct_sort inj_on_def)
  from evict_filter_loop_law [OF wf this ls, of k keep "[]"] obtain i r where
    r: "evict_filter_loop k keep ?ls (root c) [] = (concat (take i (evictable_leaves keep ?ls)), r)" "pruned (root c) r"
      "tree_blocks (root c) = mset (concat (take i (evictable_leaves keep ?ls))) + tree_blocks r"
      "k \<le> length (concat (take i (evictable_leaves keep ?ls))) \<or> length (evictable_leaves keep ?ls) \<le> i"
    by auto
  have "cache_inv (c\<lparr>root := r\<rparr>)"
    using r(2) assms by (simp add: cache_inv_def pruned_def weaker_matches_def)
  then show ?thesis
    using r by (intro exI [of _ i] exI [of _ "c\<lparr>root := r\<rparr>"]) (simp add: Let_def evict_filter_def)
qed

lemma check_hashes_wf: "node_wf n \<Longrightarrow> rn_token_hash n = hash_tokens (rn_tokens n) \<Longrightarrow> check_hashes n"
proof (induction n)
  case (RadixNode ts bs cs la h)
  then show ?case by (fastforce simp: list_all_iff edge_ok_def)
qed

section \<open>The interface of a prefix index\<close>

text \<open>
  What a client of a prefix cache relies on: an insertion raises the matched length of a query to
  what it shares with the inserted sequence, a lookup reports the matched length and changes none.
\<close>

locale prefix_index =
  fixes inv :: "'c \<Rightarrow> bool"
    and ins :: "'c \<Rightarrow> token list \<Rightarrow> block_id list \<Rightarrow> 'c option"
    and look :: "'c \<Rightarrow> token list \<Rightarrow> ((nat \<times> block_id list) option \<times> 'c) option"
    and mlen :: "'c \<Rightarrow> token list \<Rightarrow> nat"
  assumes ins_law: "inv c \<Longrightarrow> length ts = length bs * BLOCK_SIZE \<Longrightarrow>
      \<exists>c'. ins c ts bs = Some c' \<and> inv c' \<and> (\<forall>q. mlen c' q = max (mlen c q) (common_prefix_len ts q))"
    and look_law: "inv c \<Longrightarrow> \<exists>r c'. look c q = Some (r, c') \<and> inv c' \<and> (\<forall>q. mlen c' q = mlen c q)
      \<and> (case r of None \<Rightarrow> mlen c q = 0 | Some (m, bs) \<Rightarrow> m = mlen c q \<and> 0 < m)"
begin

lemma ins_all_law:
  assumes "inv c" and "\<forall>(ts, bs) \<in> set hist. length ts = length bs * BLOCK_SIZE"
  shows "\<exists>c'. fold_opt (\<lambda>(ts, bs) c. ins c ts bs) hist c = Some c' \<and> inv c'
    \<and> (\<forall>q. mlen c' q = foldr (\<lambda>(ts, bs). max (common_prefix_len ts q)) hist (mlen c q))"
  using assms
proof (induction hist arbitrary: c)
  case (Cons h hist)
  obtain ts bs where h: "h = (ts, bs)" by (cases h)
  obtain c1 where c1: "ins c ts bs = Some c1" "inv c1" "\<forall>q. mlen c1 q = max (mlen c q) (common_prefix_len ts q)"
    using ins_law [OF Cons.prems(1), of ts bs] Cons.prems(2) h by auto
  have swap: "foldr (\<lambda>(ts, bs). max (common_prefix_len ts q)) hist (max a b)
      = max b (foldr (\<lambda>(ts, bs). max (common_prefix_len ts q)) hist a)" for q a b
    by (induction hist) auto
  from Cons.IH [OF c1(2)] Cons.prems(2) obtain c' where
    "fold_opt (\<lambda>(ts, bs) c. ins c ts bs) hist c1 = Some c'" "inv c'"
    "\<forall>q. mlen c' q = foldr (\<lambda>(ts, bs). max (common_prefix_len ts q)) hist (mlen c1 q)" by auto
  then show ?case using c1 h swap by auto
qed auto

lemma foldr_max_bound:
  "(ts, bs) \<in> set hist \<Longrightarrow> common_prefix_len ts q \<le> foldr (\<lambda>(ts, bs). max (common_prefix_len ts q)) hist a"
  by (induction hist) (auto simp: le_max_iff_disj)

lemma foldr_max_attained:
  "foldr (\<lambda>(ts, bs). max (common_prefix_len ts q)) hist (0::nat) = m \<Longrightarrow> 0 < m
     \<Longrightarrow> \<exists>(ts, bs) \<in> set hist. common_prefix_len ts q = m"
  by (induction hist arbitrary: m) (auto simp: max_def split: if_splits)

lemma look_after_ins_all:
  assumes "inv c" and "\<And>q. mlen c q = 0" and "\<forall>(ts, bs) \<in> set hist. length ts = length bs * BLOCK_SIZE"
  shows "\<exists>c1 r c2. fold_opt (\<lambda>(ts, bs) c. ins c ts bs) hist c = Some c1 \<and> look c1 q = Some (r, c2) \<and> inv c2
    \<and> (case r of
         None \<Rightarrow> \<forall>(ts, bs) \<in> set hist. common_prefix_len ts q = 0
       | Some (m, bs) \<Rightarrow> 0 < m \<and> (\<exists>(ts, bs) \<in> set hist. common_prefix_len ts q = m)
                          \<and> (\<forall>(ts, bs) \<in> set hist. common_prefix_len ts q \<le> m))"
proof -
  obtain c1 where c1: "fold_opt (\<lambda>(ts, bs) c. ins c ts bs) hist c = Some c1" "inv c1"
      "mlen c1 q = foldr (\<lambda>(ts, bs). max (common_prefix_len ts q)) hist 0"
    using ins_all_law [OF assms(1,3)] assms(2) by auto
  obtain r c2 where r: "look c1 q = Some (r, c2)" "inv c2"
      "case r of None \<Rightarrow> mlen c1 q = 0 | Some (m, bs) \<Rightarrow> m = mlen c1 q \<and> 0 < m"
    using look_law [OF c1(2), of q] by auto
  show ?thesis
    using c1 r foldr_max_bound [of _ _ hist q 0] foldr_max_attained [of q hist]
    by (fastforce split: option.splits)
qed

end

interpretation radix: prefix_index cache_inv radix_insert radix_lookup "\<lambda>c q. match_len (root c) q"
proof
  fix c :: radix_prefix_cache and ts :: "token list" and bs :: "block_id list"
  assume "cache_inv c" "length ts = length bs * BLOCK_SIZE"
  then show "\<exists>c'. radix_insert c ts bs = Some c' \<and> cache_inv c'
      \<and> (\<forall>q. match_len (root c') q = max (match_len (root c) q) (common_prefix_len ts q))"
    using radix_insert_law match_len_inserted by blast
next
  fix c :: radix_prefix_cache and q :: "token list"
  assume "cache_inv c"
  then show "\<exists>r c'. radix_lookup c q = Some (r, c') \<and> cache_inv c' \<and> (\<forall>q. match_len (root c') q = match_len (root c) q)
      \<and> (case r of None \<Rightarrow> match_len (root c) q = 0 | Some (m, bs) \<Rightarrow> m = match_len (root c) q \<and> 0 < m)"
    using radix_lookup_law [of c q] by (auto simp: same_matches_def)
qed

section \<open>Runs of the cache\<close>

datatype radix_op =
  RInsert "token list" "block_id list"
| RLookup "token list"
| REvict nat
| REvictFilter nat "block_id list \<Rightarrow> bool"

fun radix_exec :: "radix_op \<Rightarrow> radix_prefix_cache \<Rightarrow> radix_prefix_cache option" where
  "radix_exec (RInsert ts bs) c = radix_insert c ts bs"
| "radix_exec (RLookup q) c = map_option snd (radix_lookup c q)"
| "radix_exec (REvict k) c = map_option snd (radix_evict c k)"
| "radix_exec (REvictFilter k keep) c = Some (snd (evict_filter c k keep))"

fun radix_guard :: "radix_op \<Rightarrow> bool" where
  "radix_guard (RInsert ts bs) \<longleftrightarrow> length ts = length bs * BLOCK_SIZE"
| "radix_guard _ \<longleftrightarrow> True"

lemma radix_exec_law:
  assumes "cache_inv c" and "radix_guard op"
  shows "\<exists>c'. radix_exec op c = Some c' \<and> cache_inv c'"
proof (cases op)
  case (RInsert ts bs)
  then show ?thesis using radix_insert_law [of c ts bs] assms by auto
next
  case (RLookup q)
  then show ?thesis using radix_lookup_law [of c q] assms by fastforce
next
  case (REvict k)
  then show ?thesis using radix_evict_law [of c k] assms by fastforce
next
  case (REvictFilter k keep)
  then show ?thesis using evict_filter_law [of c keep k] assms by (auto simp: Let_def)
qed

lemma radix_run_inv:
  assumes "fold_opt radix_exec ops radix_new = Some c" and "list_all radix_guard ops"
  shows "cache_inv c"
proof (rule fold_opt_invariant [where I = cache_inv, OF assms(1) cache_inv_new])
  fix op c c' assume "op \<in> set ops" "cache_inv c" "radix_exec op c = Some c'"
  then show "cache_inv c'" using radix_exec_law [of c op] assms(2) by (auto simp: list_all_iff)
qed

text \<open>
  A run whose insertions leave the tree at block boundaries: every inserted sequence shares with
  the tree a whole number of blocks. The set collects what has been inserted.
\<close>

inductive coherent_run :: "(token list \<times> block_id list) set \<Rightarrow> radix_prefix_cache \<Rightarrow> bool" where
  run_new: "coherent_run {} radix_new"
| run_insert: "coherent_run I c \<Longrightarrow> length ts = length bs * BLOCK_SIZE
    \<Longrightarrow> BLOCK_SIZE dvd match_len (root c) ts \<Longrightarrow> radix_insert c ts bs = Some c'
    \<Longrightarrow> coherent_run (insert (ts, bs) I) c'"
| run_lookup: "coherent_run I c \<Longrightarrow> radix_lookup c q = Some (r, c') \<Longrightarrow> coherent_run I c'"
| run_evict: "coherent_run I c \<Longrightarrow> radix_evict c k = Some (freed, c') \<Longrightarrow> coherent_run I c'"
| run_filter: "coherent_run I c \<Longrightarrow> evict_filter c k keep = (freed, c') \<Longrightarrow> coherent_run I c'"

text \<open>Block \<open>b\<close> was computed as the \<open>j\<close>-th block of a sequence that starts with the same \<open>j + 1\<close> blocks as \<open>q\<close>.\<close>

definition block_origin :: "(token list \<times> block_id list) set \<Rightarrow> token list \<Rightarrow> nat \<Rightarrow> block_id \<Rightarrow> bool" where
  "block_origin I q j b \<longleftrightarrow>
     (\<exists>ts bs. (ts, bs) \<in> I \<and> Suc j * BLOCK_SIZE \<le> common_prefix_len ts q \<and> b = bs ! j)"

definition sound_blocks :: "(token list \<times> block_id list) set \<Rightarrow> radix_node \<Rightarrow> bool" where
  "sound_blocks I n \<longleftrightarrow> (\<forall>q j. j < length (match_blocks n q) \<longrightarrow> block_origin I q j (match_blocks n q ! j))"

lemma sound_blocks_pruned:
  assumes "sound_blocks I n" and "pruned n n'"
  shows "sound_blocks I n'"
  unfolding sound_blocks_def
proof (intro allI impI)
  fix q j assume j: "j < length (match_blocks n' q)"
  obtain k where "match_blocks n' q = take k (match_blocks n q)"
    using assms(2) unfolding pruned_def weaker_matches_def by blast
  with j assms(1) show "block_origin I q j (match_blocks n' q ! j)" by (simp add: sound_blocks_def)
qed

lemma sound_blocks_insert:
  assumes "sound_blocks I n" and "node_inserted now n ts bs n'" and "node_aligned n"
    and "length ts = length bs * BLOCK_SIZE" and "BLOCK_SIZE dvd match_len n ts"
  shows "sound_blocks (insert (ts, bs) I) n'"
  unfolding sound_blocks_def
proof (intro allI impI)
  fix q j assume j: "j < length (match_blocks n' q)"
  let ?m = "match_len n q div BLOCK_SIZE"
  have eq: "match_blocks n' q = match_blocks n q @ drop ?m (take (common_prefix_len ts q div BLOCK_SIZE) bs)"
    using match_blocks_inserted [OF assms(2-5)] by blast
  have len: "length (match_blocks n q) = ?m"
    using match_blocks_length node_inserted_wf [OF assms(2)] assms(3) by blast
  show "block_origin (insert (ts, bs) I) q j (match_blocks n' q ! j)"
  proof (cases "j < ?m")
    case True
    then have "block_origin I q j (match_blocks n' q ! j)"
      using assms(1) len by (simp add: sound_blocks_def eq nth_append)
    then show ?thesis by (auto simp: block_origin_def)
  next
    case False
    have jl: "j < common_prefix_len ts q div BLOCK_SIZE" "j < length bs"
      using j False len by (auto simp: eq)
    have "Suc j * BLOCK_SIZE \<le> common_prefix_len ts q"
      using jl(1) by (simp add: BLOCK_SIZE_def)
    moreover have "match_blocks n' q ! j = bs ! j"
      using False jl len by (simp add: eq nth_append)
    ultimately show ?thesis unfolding block_origin_def by blast
  qed
qed

lemma same_matches_aligned:
  assumes "lookup_node n ts out now = Some (n', out')" and "node_wf n" and "node_aligned n"
  shows "node_aligned n'"
  using assms
proof (induction n ts out now arbitrary: n' out' rule: lookup_node.induct)
  case (1 n ts out now)
  show ?case
  proof (cases "ts = [] \<or> map_of (rn_children n) (hd ts) = None")
    case True
    then show ?thesis using 1 by (auto simp: lookup_node_none)
  next
    case False
    then obtain c where ne: "ts \<noteq> []" and c: "map_of (rn_children n) (hd ts) = Some c" by auto
    note ok = node_wf_child [OF 1(3) c] node_aligned_child [OF 1(3,4) c]
    obtain m b col where out: "out = (m, b, col)" by (cases out)
    show ?thesis
    proof (cases ts "rn_tokens c" rule: cpl_cases)
      case (full q)
      obtain c' where c': "lookup_node (touch c now) q (m + length (rn_tokens c), b @ rn_blocks c, col) now
          = Some (c', m + length (rn_tokens c) + match_len c q, (b @ rn_blocks c) @ match_blocks c q, col)"
        "node_wf c'" "same_matches (touch c now) c'"
        using lookup_node_match [of "touch c now" q "m + length (rn_tokens c)" "b @ rn_blocks c" col now] ok by auto
      have "common_prefix_len ts (rn_tokens c) = length (rn_tokens c)"
        "take (length (rn_tokens c)) ts = rn_tokens c" "drop (length (rn_tokens c)) ts = q"
        using full by (simp_all add: cpl_full_append)
      then have "node_aligned c'"
        using 1(1) [of "hd ts" "tl ts" c] ne c c'(1) ok out by (simp add: edge_ok_def)
      moreover have "n' = set_child n (hd ts) c'"
        using lookup_node_full [OF ne c _ full, of m b col now] 1(2) c'(1) ok out by simp
      ultimately show ?thesis
        using c' ok 1(3,4) by (auto simp: same_matches_def edge_ok_def intro!: node_aligned_set_child)
    next
      case part
      then have "n' = set_child n (hd ts) (touch c now)"
        using lookup_node_part [OF ne c _ refl part, of m b col now] 1(2) ok out by simp
      then show ?thesis using ok 1(3,4) by (auto intro!: node_aligned_set_child)
    qed
  qed
qed

lemma coherent_run_inv:
  "coherent_run I c \<Longrightarrow> cache_inv c \<and> node_aligned (root c) \<and> sound_blocks I (root c)"
proof (induction rule: coherent_run.induct)
  case run_new
  have "node_aligned (root radix_new)" "sound_blocks {} (root radix_new)"
    by (simp_all add: radix_new_def sound_blocks_def)
  then show ?case using cache_inv_new by simp
next
  case (run_insert I c ts bs c')
  then show ?case
    using radix_insert_law [of c ts bs] match_blocks_inserted sound_blocks_insert by fastforce
next
  case (run_lookup I c q r c')
  obtain r' where r': "lookup_node (root c) q (0, [], False) (Suc (clock c)) = Some (root c', r')"
    using run_lookup(2) by (auto simp: radix_lookup_def tick_def Let_def split: Option.bind_splits if_splits)
  have "node_aligned (root c')"
    using same_matches_aligned [OF r'] run_lookup(3) by (simp add: cache_inv_def)
  then show ?case
    using radix_lookup_law [of c q] run_lookup by (auto simp: same_matches_def sound_blocks_def)
next
  case (run_evict I c k freed c')
  then show ?case
    using radix_evict_law [of c k] sound_blocks_pruned by (fastforce simp: pruned_def)
next
  case (run_filter I c k keep freed c')
  then show ?case
    using evict_filter_law [of c keep k] sound_blocks_pruned by (fastforce simp: pruned_def Let_def)
qed

section \<open>Properties\<close>

text \<open>No sequence of insertions (with as many tokens as the blocks hold), lookups and evictions,
  starting from an empty cache, panics; the tree stays well-formed, every stored edge hash is the
  hash of the edge, and the collision counter stays at zero.\<close>

theorem radix_runs_never_panic:
  assumes "list_all radix_guard ops"
  shows "\<exists>c. fold_opt radix_exec ops radix_new = Some c \<and> node_wf (root c) \<and> verify_hashes c
           \<and> hash_collisions c = 0"
proof -
  have "cache_inv c0 \<Longrightarrow> \<exists>c. fold_opt radix_exec ops c0 = Some c \<and> cache_inv c" for c0
    using assms
  proof (induction ops arbitrary: c0)
    case (Cons op ops)
    from radix_exec_law [OF Cons.prems(1), of op] Cons.prems(2) obtain c1
      where "radix_exec op c0 = Some c1" "cache_inv c1" by auto
    with Cons show ?case by simp
  qed simp
  from this [OF cache_inv_new] show ?thesis
    by (auto simp: cache_inv_def verify_hashes_def check_hashes_wf)
qed

theorem radix_runs_never_panic_witness:
  "\<exists>c. fold_opt radix_exec [RInsert (replicate 32 1) [4, 5], RInsert (replicate 16 1 @ replicate 16 2) [4, 6],
          RLookup (replicate 40 1), REvict 1, REvictFilter 9 (\<lambda>bs. 4 \<notin> set bs)] radix_new = Some c \<and> verify_hashes c"
  using radix_runs_never_panic [of "[RInsert (replicate 32 1) [4, 5], RInsert (replicate 16 1 @ replicate 16 2) [4, 6],
          RLookup (replicate 40 1), REvict 1, REvictFilter 9 (\<lambda>bs. 4 \<notin> set bs)]"]
  by (auto simp: BLOCK_SIZE_def)

text \<open>After any history of insertions a lookup reports the longest prefix the prompt shares with an
  inserted sequence, token for token and across node boundaries, and it misses exactly when
  no inserted sequence starts with the prompt's first token.\<close>

theorem radix_lookup_longest_prefix:
  assumes "\<forall>(ts, bs) \<in> set hist. length ts = length bs * BLOCK_SIZE"
  shows "\<exists>c r c'. fold_opt (\<lambda>(ts, bs) c. radix_insert c ts bs) hist radix_new = Some c
    \<and> radix_lookup c q = Some (r, c')
    \<and> (case r of
         None \<Rightarrow> \<forall>(ts, bs) \<in> set hist. common_prefix_len ts q = 0
       | Some (m, bs) \<Rightarrow> 0 < m \<and> (\<exists>(ts, bs) \<in> set hist. common_prefix_len ts q = m)
                          \<and> (\<forall>(ts, bs) \<in> set hist. common_prefix_len ts q \<le> m))"
proof -
  have "match_len (root radix_new) q = 0" for q by (simp add: radix_new_def)
  from radix.look_after_ins_all [OF cache_inv_new this assms, of q] show ?thesis by blast
qed

theorem radix_lookup_longest_prefix_witness:
  "\<exists>c m bs c'. fold_opt (\<lambda>(ts, bs) c. radix_insert c ts bs)
      [(replicate 32 1, [4, 5]), (replicate 16 1 @ replicate 16 2, [4, 6])] radix_new = Some c
    \<and> radix_lookup c (replicate 16 1 @ [2, 2, 9]) = Some (Some (m, bs), c') \<and> m = 18"
proof -
  let ?h = "[(replicate 32 1, [4, 5]), (replicate 16 1 @ replicate 16 2, [4, 6])] :: (token list \<times> block_id list) list"
  have r: "replicate 32 (1::token) = replicate 16 1 @ replicate 16 1"
    by (simp flip: replicate_add)
  have three: "replicate 16 (x::token) = x # x # x # replicate 13 x" for x
    by (simp add: numeral_eq_Suc)
  have c1: "common_prefix_len (replicate 32 1) (replicate 16 1 @ [2, 2, 9]) = 16"
    unfolding r cpl_append_same by (simp add: three)
  have c2: "common_prefix_len (replicate 16 1 @ replicate 16 2) (replicate 16 1 @ [2, 2, 9]) = 18"
    unfolding cpl_append_same by (simp add: three)
  have "\<forall>(ts, bs) \<in> set ?h. length ts = length bs * BLOCK_SIZE" by (simp add: BLOCK_SIZE_def)
  from radix_lookup_longest_prefix [OF this, of "replicate 16 1 @ [2, 2, 9]"] c1 c2 show ?thesis
    by (fastforce split: option.splits)
qed

text \<open>C3: as long as insertions leave the tree at block boundaries, a hit returns one block per whole
  matched block of tokens, and the block at position \<open>j\<close> was computed as block \<open>j\<close> of an inserted sequence
  that agrees with the prompt on all the tokens up to the end of that block, whatever lookups and
  evictions happened in between.\<close>

theorem radix_lookup_blocks_sound:
  assumes "coherent_run I c" and "radix_lookup c q = Some (Some (m, bs), c')"
  shows "length bs = m div BLOCK_SIZE \<and>
    (\<forall>j < length bs. \<exists>ts bs0. (ts, bs0) \<in> I \<and> take (Suc j * BLOCK_SIZE) ts = take (Suc j * BLOCK_SIZE) q
       \<and> Suc j * BLOCK_SIZE \<le> length q \<and> bs ! j = bs0 ! j)"
proof -
  note inv = coherent_run_inv [OF assms(1)]
  from radix_lookup_law [of c q] inv assms(2) have m: "m = match_len (root c) q" and bs: "bs = match_blocks (root c) q"
    by (auto split: if_splits)
  have "length bs = m div BLOCK_SIZE"
    using match_blocks_length [of "root c" q] inv m bs by (simp add: cache_inv_def)
  moreover have "\<exists>ts bs0. (ts, bs0) \<in> I \<and> take (Suc j * BLOCK_SIZE) ts = take (Suc j * BLOCK_SIZE) q
       \<and> Suc j * BLOCK_SIZE \<le> length q \<and> bs ! j = bs0 ! j" if "j < length bs" for j
  proof -
    have "block_origin I q j (bs ! j)" using inv bs that by (simp add: sound_blocks_def)
    then obtain ts bs0 where o: "(ts, bs0) \<in> I" "Suc j * BLOCK_SIZE \<le> common_prefix_len ts q" "bs ! j = bs0 ! j"
      unfolding block_origin_def by blast
    then show ?thesis using cpl_take_le [OF o(2)] cpl_le(2) [of ts q] le_trans by blast
  qed
  ultimately show ?thesis by blast
qed

theorem radix_lookup_blocks_sound_witness:
  "\<exists>c bs c'. coherent_run {(replicate 16 1, [7])} c \<and> radix_lookup c (replicate 16 1) = Some (Some (16, bs), c')
     \<and> length bs = 1 \<and> bs ! 0 = 7"
proof -
  let ?t = "replicate 16 1 :: token list"
  have l: "length ?t = length [7::nat] * BLOCK_SIZE" by (simp add: BLOCK_SIZE_def)
  obtain c where c: "radix_insert radix_new ?t [7] = Some c" "cache_inv c"
      "node_inserted (Suc (clock radix_new)) (root radix_new) ?t [7] (root c)"
    using radix_insert_law [OF cache_inv_new l] by blast
  have n: "match_len (root radix_new) q = 0" for q by (simp add: radix_new_def)
  have run: "coherent_run {(?t, [7])} c"
    using run_insert [OF run_new l _ c(1)] n by simp
  have m: "match_len (root c) ?t = 16" using match_len_inserted [OF c(3), of ?t] n by simp
  obtain bs c' where k: "radix_lookup c ?t = Some (Some (16, bs), c')"
    using radix_lookup_law [OF c(2), of ?t] m by auto
  from radix_lookup_blocks_sound [OF run k] have "length bs = 1" "bs ! 0 = 7" by (simp_all add: BLOCK_SIZE_def)
  with run k show ?thesis by blast
qed

text \<open>A prompt that leaves a cached edge inside a block breaks the block alignment of the tree: after two
  16-token prompts that share 5 tokens, caching a 32-token extension of the first makes its
  own lookup return three blocks for its two blocks of tokens, the second of them being the block that
  holds the first 16 tokens again.\<close>

theorem radix_split_inside_block_corrupts:
  "let a = [0, 1, 2, 3, 4, 5, 6, 7, 8, 9, 10, 11, 12, 13, 14, 15];
       b = [0, 1, 2, 3, 4, 50, 51, 52, 53, 54, 55, 56, 57, 58, 59, 60];
       d = a @ [16, 17, 18, 19, 20, 21, 22, 23, 24, 25, 26, 27, 28, 29, 30, 31]
   in map_option fst (do { c \<leftarrow> fold_opt radix_exec [RInsert a [10], RInsert b [20], RInsert d [30, 31]] radix_new;
                           radix_lookup c d }) = Some (Some (32, [10, 30, 31]))"
  by (simp add: radix_insert_def radix_lookup_def radix_new_def tick_def BLOCK_SIZE_def node_new_def
      insert_node.simps lookup_node.simps split_child_def set_child_def set_children_def touch_def
      slice_from_def slice_to_def Let_def)

text \<open>C13: \<open>evict\<close> always returns; what it returns together with what stays in the tree is exactly what was
  in the tree, and, while the access clock has not reached the largest 64-bit value, it returns
  at least \<open>k\<close> blocks unless it emptied the tree.\<close>

theorem radix_evict_conserves_blocks:
  assumes "list_all radix_guard ops" and "fold_opt radix_exec ops radix_new = Some c" and "clock c < u64_max"
  shows "\<exists>freed c'. radix_evict c k = Some (freed, c')
    \<and> tree_blocks (root c) = mset freed + tree_blocks (root c')
    \<and> (k \<le> length freed \<or> nodes c' = 0)"
proof -
  have "cache_inv c" using radix_run_inv [OF assms(2,1)] .
  from radix_evict_law [OF this, of k] assms(3) obtain freed c' where
    e: "radix_evict c k = Some (freed, c')" "tree_blocks (root c) = mset freed + tree_blocks (root c')"
      "k \<le> length freed \<or> rn_children (root c') = []" by blast
  have "rn_children (root c') = [] \<Longrightarrow> nodes c' = 0"
    by (simp add: nodes_def count_nodes_mset [of "root c'"])
  with e show ?thesis by blast
qed

theorem radix_evict_conserves_blocks_witness:
  "\<exists>c freed c'. radix_insert radix_new (replicate 16 1) [7] = Some c \<and> radix_evict c 1 = Some (freed, c')
     \<and> tree_blocks (root c) = mset freed + tree_blocks (root c')"
proof -
  obtain c where c: "radix_insert radix_new (replicate 16 1) [7] = Some c" "clock c = Suc (clock radix_new)"
    using radix_insert_law [OF cache_inv_new, of "replicate 16 1" "[7]"] by (auto simp: BLOCK_SIZE_def)
  have "list_all radix_guard [RInsert (replicate 16 1) [7]]" by (simp add: BLOCK_SIZE_def)
  moreover have "fold_opt radix_exec [RInsert (replicate 16 1) [7]] radix_new = Some c" using c by simp
  moreover have "clock c < u64_max" using c(2) by (simp add: radix_new_def u64_max_def)
  ultimately show ?thesis
    using radix_evict_conserves_blocks [of "[RInsert (replicate 16 1) [7]]" c 1] c(1) by blast
qed

text \<open>\<open>evict_filter\<close> frees the blocks of leaves that satisfy the filter and of no others, in the order
  of their last access, stops as soon as \<open>k\<close> blocks are collected or all such leaves are gone, and loses
  no block.\<close>

theorem evict_filter_frees_only_kept_leaves:
  assumes "list_all radix_guard ops" and "fold_opt radix_exec ops radix_new = Some c"
  shows "\<exists>i c'. let es = filter keep (map (\<lambda>(a, p, b). b) (sort_key fst (collect_leaves (root c) []))) in
      evict_filter c k keep = (concat (take i es), c')
    \<and> tree_blocks (root c) = mset (concat (take i es)) + tree_blocks (root c')
    \<and> (k \<le> length (concat (take i es)) \<or> length es \<le> i)"
proof -
  have "cache_inv c" using radix_run_inv [OF assms(2,1)] .
  from evict_filter_law [OF this, of keep k] show ?thesis
    unfolding evictable_leaves_def Let_def by blast
qed

theorem evict_filter_frees_only_kept_leaves_witness:
  "\<exists>c freed c'. radix_insert radix_new (replicate 16 1) [7] = Some c
     \<and> evict_filter c 3 (\<lambda>bs. 7 \<notin> set bs) = (freed, c')
     \<and> tree_blocks (root c) = mset freed + tree_blocks (root c')"
proof -
  obtain c where c: "radix_insert radix_new (replicate 16 1) [7] = Some c"
    using radix_insert_law [OF cache_inv_new, of "replicate 16 1" "[7]"] by (auto simp: BLOCK_SIZE_def)
  have "list_all radix_guard [RInsert (replicate 16 1) [7]]" by (simp add: BLOCK_SIZE_def)
  moreover have "fold_opt radix_exec [RInsert (replicate 16 1) [7]] radix_new = Some c" using c by simp
  ultimately show ?thesis
    using evict_filter_frees_only_kept_leaves [of "[RInsert (replicate 16 1) [7]]" c "\<lambda>bs. 7 \<notin> set bs" 3] c
    unfolding Let_def by blast
qed

text \<open>\<open>evict\<close> is not least-recently-used over all leaves: with two old leaves below a shared prefix and one
  newer leaf at the root, it drops the newest of the three.\<close>

theorem radix_evict_is_not_global_lru:
  "let base = [0, 1, 2, 3, 4, 5, 6, 7, 8, 9, 10, 11, 12, 13, 14, 15];
       x = [20, 21, 22, 23, 24, 25, 26, 27, 28, 29, 30, 31, 32, 33, 34, 35];
       y = [40, 41, 42, 43, 44, 45, 46, 47, 48, 49, 50, 51, 52, 53, 54, 55]
   in \<exists>c. fold_opt radix_exec [RInsert (base @ x) [1, 2], RInsert (base @ y) [1, 3], RInsert x [4]] radix_new = Some c
        \<and> map fst (collect_leaves (root c) []) = [1, 2, 3]
        \<and> map_option fst (radix_evict c 1) = Some [4]"
  by (simp add: radix_insert_def radix_new_def tick_def BLOCK_SIZE_def node_new_def
      insert_node.simps split_child_def set_child_def set_children_def touch_def is_leaf_def
      slice_from_def slice_to_def Let_def radix_evict_def nodes_def)

end
