(* ===== verification/Model_Types.thy ===== *)
theory Model_Types
  imports Kv_Cache
begin

text \<open>
  The request and token types of \<^verbatim>\<open>crates/justapi-inference/src/model.rs\<close> and the weight-free
  \<open>MockModel\<close>. The \<open>f32\<close> sampling knobs are only stored and handed on by the modelled code; a finite
  \<open>f32\<close> is represented by its exact rational value. A sink of generated tokens decides from the
  tokens it has already received whether it accepts the next one.
\<close>

record sampling_params =
  max_tokens :: nat
  temperature :: rat
  top_p :: rat
  top_k :: nat
  stop_tokens :: "token list"
  stop_sequences :: "string list"

definition sampling_params_default :: sampling_params where
  "sampling_params_default =
     \<lparr>max_tokens = 256, temperature = 1, top_p = 1, top_k = 0, stop_tokens = [], stop_sequences = []\<rparr>"

datatype finish_reason = Length | Stop | Cancelled

record generated_token =
  gt_id :: token
  gt_text :: string
  gt_logprob :: rat
  gt_finish_reason :: "finish_reason option"

datatype model_error =
  NotFound string
| FeatureRequired string
| NotImplemented
| Generation string
| Io string

section \<open>The mock model\<close>

record mock_model =
  mock_vocab_size :: nat

definition mock_new :: "nat \<Rightarrow> mock_model" where
  "mock_new v = \<lparr>mock_vocab_size = max v 1\<rparr>"

definition tokenize :: "string \<Rightarrow> token list" where
  "tokenize text = map (\<lambda>c. of_nat (of_char c)) text"

definition detokenize :: "token list \<Rightarrow> string" where
  "detokenize ids = map (\<lambda>i. char_of (unat i mod 256)) ids"

definition decode_mock :: "token \<Rightarrow> string" where
  "decode_mock i = [char_of (97 + unat i mod 26)]"

text \<open>\<open>x % vocab as u32\<close>: a remainder by zero panics.\<close>

definition rem_u32 :: "u32 \<Rightarrow> u32 \<Rightarrow> u32 option" where
  "rem_u32 a b = (if b = 0 then None else Some (a mod b))"

type_synonym sink = "generated_token list \<Rightarrow> generated_token \<Rightarrow> bool"

text \<open>The token loop of \<open>generate\<close>: \<open>fuel\<close> iterations remain, \<open>out\<close> is what the sink received.\<close>

fun mock_generate_loop ::
  "mock_model \<Rightarrow> token list \<Rightarrow> sink \<Rightarrow> nat \<Rightarrow> token \<Rightarrow> generated_token list
     \<Rightarrow> (finish_reason \<times> generated_token list) option" where
  "mock_generate_loop m stops sink 0 prev out = Some (Length, out)"
| "mock_generate_loop m stops sink (Suc n) prev out =
     do { nxt \<leftarrow> rem_u32 (prev + 1) (of_nat (mock_vocab_size m));
          (let stop = nxt \<in> set stops;
               tok = \<lparr>gt_id = nxt, gt_text = decode_mock nxt, gt_logprob = 0,
                      gt_finish_reason = (if stop then Some Stop else None)\<rparr>
           in if \<not> sink out tok then Some (Cancelled, out)
              else if stop then Some (Stop, out @ [tok])
              else mock_generate_loop m stops sink n nxt (out @ [tok])) }"

definition mock_generate ::
  "mock_model \<Rightarrow> token list \<Rightarrow> sampling_params \<Rightarrow> sink \<Rightarrow> (finish_reason \<times> generated_token list) option" where
  "mock_generate m prompt params sink =
     mock_generate_loop m (stop_tokens params) sink (max_tokens params)
       (if prompt = [] then 0 else last prompt) []"

text \<open>Position of the peak of the mock logits: the greedy choice after \<open>context\<close>.\<close>

definition mock_forward_logits :: "mock_model \<Rightarrow> token list \<Rightarrow> rat list option" where
  "mock_forward_logits m context =
     do { prev \<leftarrow> rem_u32 (if context = [] then 0 else last context) (of_nat (mock_vocab_size m));
          nxt \<leftarrow> rem_u32 (prev + 1) (of_nat (mock_vocab_size m));
          r \<leftarrow> rem_u32 (prev + 3) (of_nat (mock_vocab_size m));
          (let logits = (replicate (mock_vocab_size m) (- 5))[unat nxt := 5] in
           if unat nxt < mock_vocab_size m \<and> unat r < mock_vocab_size m
           then Some (logits[unat r := 0]) else None) }"

section \<open>Properties\<close>

text \<open>On ASCII text, where bytes and characters coincide, the mock tokenizer is inverted by its detokenizer.\<close>

lemma detokenize_tokenize:
  assumes "\<forall>c \<in> set s. of_char c < (128 :: nat)"
  shows "detokenize (tokenize s) = s"
  using assms
proof (induction s)
  case (Cons c s)
  then have "unat (of_nat (of_char c) :: token) = of_char c"
    by (simp add: unsigned_of_nat take_bit_eq_mod)
  with Cons show ?case by (simp add: tokenize_def detokenize_def)
qed (simp add: tokenize_def detokenize_def)

lemma mock_generate_loop_spec:
  assumes "of_nat (mock_vocab_size m) \<noteq> (0 :: u32)"
    and "\<forall>t \<in> set out. gt_finish_reason t = None \<and> gt_id t \<notin> set stops"
  shows "\<exists>r out'. mock_generate_loop m stops sink n prev out = Some (r, out @ out') \<and> length out' \<le> n
     \<and> (r = Length \<longleftrightarrow> length out' = n \<and> (\<forall>t \<in> set out'. gt_id t \<notin> set stops))
     \<and> (r = Stop \<longrightarrow> out' \<noteq> [] \<and> gt_id (last out') \<in> set stops \<and> gt_finish_reason (last out') = Some Stop)
     \<and> (\<forall>t \<in> set (butlast out'). gt_id t \<notin> set stops)"
  using assms
proof (induction n arbitrary: prev out)
  case (Suc n)
  let ?nxt = "(prev + 1) mod of_nat (mock_vocab_size m)"
  let ?tok = "\<lparr>gt_id = ?nxt, gt_text = decode_mock ?nxt, gt_logprob = 0,
               gt_finish_reason = (if ?nxt \<in> set stops then Some Stop else None)\<rparr>"
  show ?case
  proof (cases "\<not> sink out ?tok \<or> ?nxt \<in> set stops")
    case True
    then show ?thesis using Suc.prems(1) by (auto simp: rem_u32_def Let_def)
  next
    case False
    then have "\<forall>t \<in> set (out @ [?tok]). gt_finish_reason t = None \<and> gt_id t \<notin> set stops"
      using Suc.prems(2) by auto
    from Suc.IH [OF Suc.prems(1) this, of ?nxt] obtain r out' where
      IH: "mock_generate_loop m stops sink n ?nxt (out @ [?tok]) = Some (r, (out @ [?tok]) @ out')" "length out' \<le> n"
        "r = Length \<longleftrightarrow> length out' = n \<and> (\<forall>t \<in> set out'. gt_id t \<notin> set stops)"
        "r = Stop \<longrightarrow> out' \<noteq> [] \<and> gt_id (last out') \<in> set stops \<and> gt_finish_reason (last out') = Some Stop"
        "\<forall>t \<in> set (butlast out'). gt_id t \<notin> set stops"
      by blast
    have ns: "(?nxt \<in> set stops) = False" "sink out ?tok" using False by blast+
    have "mock_generate_loop m stops sink (Suc n) prev out = Some (r, out @ (?tok # out'))"
      using IH(1) Suc.prems(1) ns by (simp add: rem_u32_def Let_def ns(1))
    then show ?thesis
      using IH(2-5) False by (intro exI [of _ r] exI [of _ "?tok # out'"]) auto
  qed
qed simp

text \<open>The mock model never panics when its vocabulary size fits 32 bits; it streams at most \<open>max_tokens\<close> tokens, ends with
  \<open>Length\<close> exactly when it streamed all of them and none is a stop token, ends with \<open>Stop\<close> only on a stop
  token, which is the last one streamed and carries the reason, and streams nothing after a stop token.\<close>

theorem mock_generate_outcome:
  assumes "v < 2 ^ 32"
  shows "\<exists>r out. mock_generate (mock_new v) prompt params sink = Some (r, out) \<and> length out \<le> max_tokens params
     \<and> (r = Length \<longleftrightarrow> length out = max_tokens params \<and> (\<forall>t \<in> set out. gt_id t \<notin> set (stop_tokens params)))
     \<and> (r = Stop \<longrightarrow> out \<noteq> [] \<and> gt_id (last out) \<in> set (stop_tokens params) \<and> gt_finish_reason (last out) = Some Stop)
     \<and> (\<forall>t \<in> set (butlast out). gt_id t \<notin> set (stop_tokens params))"
proof -
  have "unat (of_nat (max v 1) :: u32) = max v 1"
    using assms by (simp add: unsigned_of_nat take_bit_eq_mod)
  then have "of_nat (max v 1) \<noteq> (0 :: u32)" by auto
  then have nz: "of_nat (mock_vocab_size (mock_new v)) \<noteq> (0 :: u32)" by (simp add: mock_new_def)
  show ?thesis
    using mock_generate_loop_spec [OF nz, of "[]" "stop_tokens params" sink "max_tokens params"]
    unfolding mock_generate_def by simp
qed

theorem mock_generate_outcome_witness:
  "\<exists>r out. mock_generate (mock_new 26) [1, 2] (sampling_params_default\<lparr>max_tokens := 3\<rparr>) (\<lambda>_ _. True) = Some (r, out)
     \<and> length out \<le> 3"
proof -
  have "(26 :: nat) < 2 ^ 32" by simp
  from mock_generate_outcome [OF this, of "[1, 2]" "sampling_params_default\<lparr>max_tokens := 3\<rparr>" "\<lambda>_ _. True"]
  show ?thesis by auto
qed

end
