(* ===== verification/Scheduler.thy ===== *)
theory Scheduler
  imports Radix_Cache Model_Types
begin

text \<open>
  The continuous-batching scheduler of \<^verbatim>\<open>crates/justapi-inference/src/scheduler.rs\<close>: admission of
  waiting requests with prefix-cache reuse, chunked prefill and decode under a token budget,
  promotion of finished sequences into the radix cache, cancellation and the hand-over of
  prefilled sequences to another scheduler. The scheduler owns the block pool of \<open>Kv_Cache\<close> and the
  radix cache of \<open>Radix_Cache\<close>; a panic of either is a panic (\<open>None\<close>) of the operation.
  \<open>prefix_refs\<close>, whose iteration order is never observed, is a map.

  The lemmas show the token and batch budgets, that requests keep their arrival order and none is
  lost, that prefill steps partition the prompt, that ids are unique, and the situations in which
  the scheduler panics, leaks blocks or starves its queue.
\<close>

section \<open>Data\<close>

record scheduler_config =
  max_num_seqs :: nat
  max_num_batched_tokens :: nat
  max_seq_len :: nat
  chunked_prefill_size :: "nat option"

definition scheduler_config_default :: scheduler_config where
  "scheduler_config_default =
     \<lparr>max_num_seqs = 256, max_num_batched_tokens = 4096, max_seq_len = 4096,
      chunked_prefill_size = Some 512\<rparr>"

record new_request =
  nr_id :: nat
  nr_prompt :: "token list"
  nr_sampling_params :: sampling_params
  nr_prefix_cached_tokens :: nat
  nr_cached_blocks :: "block_id list"

record prefill_step =
  ps_seq_id :: nat
  ps_tokens :: "token list"
  ps_computed_tokens :: nat

record schedule =
  sch_prefill :: "prefill_step list"
  sch_decode :: "nat list"
  sch_back_pressure :: bool

record scheduler_stats =
  ss_num_waiting :: nat
  ss_num_running :: nat
  ss_num_prefilling :: nat
  ss_budget_used_pct :: rat
  ss_back_pressure :: bool
  ss_prefix :: radix_prefix_cache_stats
  ss_cached_kv_blocks :: nat

datatype seq_state = Prefilling | Decoding

record running_seq =
  rs_seq :: sequence
  rs_prompt :: "token list"
  rs_params :: sampling_params
  rs_num_prefilled :: nat
  rs_num_generated :: nat
  rs_state :: seq_state

record transferable_sequence =
  ts_src_seq_id :: nat
  ts_req_id :: nat
  ts_prompt :: "token list"
  ts_params :: sampling_params
  ts_num_prefilled :: nat
  ts_num_generated :: nat

record scheduler =
  sc_config :: scheduler_config
  sc_pool :: kv_block_pool
  sc_prefix :: radix_prefix_cache
  prefix_refs :: "block_id \<rightharpoonup> nat"
  running :: "running_seq list"
  wait_queue :: "new_request list"
  next_seq_id :: nat
  last_back_pressure :: bool

definition scheduler_new :: "scheduler_config \<Rightarrow> kv_block_pool \<Rightarrow> scheduler" where
  "scheduler_new config pool =
     \<lparr>sc_config = config, sc_pool = pool, sc_prefix = radix_new, prefix_refs = Map.empty,
      running = [], wait_queue = [], next_seq_id = 1, last_back_pressure = False\<rparr>"

abbreviation rs_id :: "running_seq \<Rightarrow> nat" where
  "rs_id r \<equiv> seq_id (rs_seq r)"

section \<open>Accessors and admission\<close>

definition num_waiting :: "scheduler \<Rightarrow> nat" where
  "num_waiting s = length (wait_queue s)"

definition num_running :: "scheduler \<Rightarrow> nat" where
  "num_running s = length (running s)"

definition sched_stats :: "scheduler \<Rightarrow> scheduler_stats" where
  "sched_stats s =
     \<lparr>ss_num_waiting = length (wait_queue s), ss_num_running = length (running s),
      ss_num_prefilling = length (filter (\<lambda>r. rs_state r = Prefilling) (running s)),
      ss_budget_used_pct = 0, ss_back_pressure = last_back_pressure s,
      ss_prefix = radix_stats (sc_prefix s), ss_cached_kv_blocks = cached (sc_pool s)\<rparr>"

definition add_request :: "scheduler \<Rightarrow> new_request \<Rightarrow> nat \<times> scheduler" where
  "add_request s req =
     (let i = next_seq_id s in
      (i, s\<lparr>next_seq_id := i + 1, wait_queue := wait_queue s @ [req\<lparr>nr_id := i\<rparr>]\<rparr>))"

definition running_ids :: "scheduler \<Rightarrow> nat list" where
  "running_ids s = map rs_id (running s)"

definition running_seq_generated :: "scheduler \<Rightarrow> nat \<Rightarrow> nat option" where
  "running_seq_generated s i = map_option rs_num_generated (find (\<lambda>r. rs_id r = i) (running s))"

section \<open>Completion: promotion into the prefix cache\<close>

text \<open>The body of the loop over the cached blocks of a finished sequence.\<close>

definition cache_block :: "block_id \<Rightarrow> scheduler \<Rightarrow> scheduler option" where
  "cache_block b s =
     (let entry = (case prefix_refs s b of None \<Rightarrow> 0 | Some n \<Rightarrow> n) in
      if entry = 0
      then do { p1 \<leftarrow> release (sc_pool s) b 0; p2 \<leftarrow> pin p1 b;
                Some (s\<lparr>sc_pool := p2, prefix_refs := (prefix_refs s)(b \<mapsto> 0)\<rparr>) }
      else if entry - 1 = 0
      then do { p1 \<leftarrow> release (sc_pool s) b 0; p2 \<leftarrow> pin p1 b;
                Some (s\<lparr>sc_pool := p2, prefix_refs := (prefix_refs s)(b \<mapsto> 0)\<rparr>) }
      else Some (s\<lparr>prefix_refs := (prefix_refs s)(b \<mapsto> entry - 1)\<rparr>))"

definition cache_completed :: "token list \<Rightarrow> block_id list \<Rightarrow> scheduler \<Rightarrow> scheduler option" where
  "cache_completed prompt blocks s =
     (let cache_blocks = min (length prompt div BLOCK_SIZE) (length blocks) in
      if cache_blocks = 0 then Some s
      else do { toks \<leftarrow> slice_to prompt (cache_blocks * BLOCK_SIZE);
                bs \<leftarrow> slice_to blocks cache_blocks;
                c \<leftarrow> radix_insert (sc_prefix s) toks bs;
                fold_opt cache_block bs (s\<lparr>sc_prefix := c\<rparr>) })"

section \<open>One scheduling step\<close>

definition seq_done :: "scheduler_config \<Rightarrow> running_seq \<Rightarrow> bool" where
  "seq_done config r \<longleftrightarrow>
     max_tokens (rs_params r) \<le> rs_num_generated r \<or> max_seq_len config \<le> num_tokens (rs_seq r)"

definition retire_finished :: "scheduler \<Rightarrow> scheduler option" where
  "retire_finished s =
     (let finished = filter (seq_done (sc_config s)) (running s);
          s1 = s\<lparr>running := filter (\<lambda>r. \<not> seq_done (sc_config s) r) (running s)\<rparr>
      in fold_opt (\<lambda>r. cache_completed (rs_prompt r) (seq_blocks (rs_seq r))) finished s1)"

text \<open>Prefix-cache resolution for the request at the front: a caller-provided hint, else the radix tree.\<close>

definition resolve_prefix :: "new_request \<Rightarrow> scheduler \<Rightarrow> (block_id list \<times> nat \<times> scheduler) option" where
  "resolve_prefix req s =
     (if nr_cached_blocks req \<noteq> []
      then Some (nr_cached_blocks req, nr_prefix_cached_tokens req, s)
      else do { (r, c) \<leftarrow> radix_lookup (sc_prefix s) (nr_prompt req);
                Some (case r of
                        Some (matched, blocks) \<Rightarrow> (blocks, matched, s\<lparr>sc_prefix := c\<rparr>)
                      | None \<Rightarrow> ([], 0, s\<lparr>sc_prefix := c\<rparr>)) })"

definition ref_prefix_block :: "block_id \<Rightarrow> scheduler \<Rightarrow> scheduler option" where
  "ref_prefix_block b s =
     do { p \<leftarrow> unpin (sc_pool s) b;
          Some (s\<lparr>sc_pool := p,
                  prefix_refs := (prefix_refs s)(b \<mapsto> (case prefix_refs s b of None \<Rightarrow> 0 | Some n \<Rightarrow> n) + 1)\<rparr>) }"

definition restore_prefix ::
  "block_id list \<Rightarrow> nat \<Rightarrow> sequence \<Rightarrow> scheduler \<Rightarrow> (sequence \<times> scheduler) option" where
  "restore_prefix blocks n sq s =
     (if blocks = [] then Some (sq, s)
      else do { (sq1, p) \<leftarrow> restore_from_cache sq blocks n (sc_pool s);
                s1 \<leftarrow> fold_opt ref_prefix_block blocks (s\<lparr>sc_pool := p\<rparr>);
                Some (sq1, s1) })"

definition free_evicted :: "block_id \<Rightarrow> scheduler \<Rightarrow> scheduler option" where
  "free_evicted b s =
     do { p1 \<leftarrow> unpin (sc_pool s) b; p2 \<leftarrow> free_cached p1 b;
          Some (s\<lparr>sc_pool := p2, prefix_refs := (prefix_refs s)(b := None)\<rparr>) }"

text \<open>Radix eviction under memory pressure: only leaves none of whose blocks has a live reference.\<close>

definition evict_prefix :: "nat \<Rightarrow> scheduler \<Rightarrow> scheduler option" where
  "evict_prefix k s =
     (let keep = (\<lambda>bs. list_all (\<lambda>b. (case prefix_refs s b of None \<Rightarrow> 0 | Some n \<Rightarrow> n) = 0) bs);
          (freed, c) = evict_filter (sc_prefix s) k keep
      in fold_opt free_evicted freed (s\<lparr>sc_prefix := c\<rparr>))"

text \<open>
  The \<open>for _ in 0..uncached_blocks\<close> loop: \<open>n\<close> iterations remain, \<open>k\<close> is \<open>uncached_blocks\<close>. The flag is
  \<open>alloc_failed\<close>.
\<close>

fun grow_tail :: "nat \<Rightarrow> nat \<Rightarrow> sequence \<Rightarrow> scheduler \<Rightarrow> (bool \<times> sequence \<times> scheduler) option" where
  "grow_tail 0 k sq s = Some (False, sq, s)"
| "grow_tail (Suc n) k sq s =
     do { (r, sq1, p) \<leftarrow> grow sq (sc_pool s);
          (let s1 = s\<lparr>sc_pool := p\<rparr> in
           case r of
             Some _ \<Rightarrow> grow_tail n k sq1 s1
           | None \<Rightarrow>
               do { s2 \<leftarrow> evict_prefix k s1;
                    (r2, sq2, p2) \<leftarrow> grow sq1 (sc_pool s2);
                    (let s3 = s2\<lparr>sc_pool := p2\<rparr> in
                     case r2 of
                       Some _ \<Rightarrow> grow_tail n k sq2 s3
                     | None \<Rightarrow> Some (True, sq2, s3)) }) }"

datatype admit_result = Queue_empty | Blocked | Admitted

text \<open>The estimate of the tokens a request needs exceeds twice the batch budget; both sides are sums of \<open>usize\<close>, which wrap around.\<close>

definition over_estimate :: "scheduler_config \<Rightarrow> nat \<Rightarrow> nat \<Rightarrow> bool" where
  "over_estimate cfg uncached_tokens max_toks \<longleftrightarrow>
     (max_num_batched_tokens cfg * 2) mod 2 ^ 64 < (uncached_tokens + max_toks) mod 2 ^ 64"

lemma over_estimate_exact:
  "max_num_batched_tokens cfg * 2 < 2 ^ 64 \<Longrightarrow> n + k < 2 ^ 64 \<Longrightarrow> over_estimate cfg n k \<longleftrightarrow> max_num_batched_tokens cfg * 2 < n + k"
  by (simp add: over_estimate_def)

definition admit_one :: "scheduler \<Rightarrow> (admit_result \<times> scheduler) option" where
  "admit_one s =
     (case wait_queue s of
        [] \<Rightarrow> Some (Queue_empty, s)
      | req # rest \<Rightarrow>
          do { (blocks, cached_toks, s1) \<leftarrow> resolve_prefix req s;
               (let total = div_ceil (length (nr_prompt req)) BLOCK_SIZE;
                    cached_n = length blocks;
                    uncached = total - cached_n
                in if over_estimate (sc_config s) (length (nr_prompt req) - cached_toks) (max_tokens (nr_sampling_params req))
                   then Some (Blocked, s1)
                   else do { (sq, s2) \<leftarrow> restore_prefix blocks cached_toks (sequence_new (nr_id req))
                                          (s1\<lparr>wait_queue := rest\<rparr>);
                             (failed, sq1, s3) \<leftarrow> grow_tail uncached uncached sq s2;
                             if failed then Some (Blocked, s3\<lparr>wait_queue := req # wait_queue s3\<rparr>)
                             else (let n = cached_n * BLOCK_SIZE in
                                   Some (Admitted, s3\<lparr>running := running s3 @
                                     [\<lparr>rs_seq = sq1, rs_prompt = nr_prompt req,
                                       rs_params = nr_sampling_params req, rs_num_prefilled = n,
                                       rs_num_generated = 0,
                                       rs_state = (if length (nr_prompt req) \<le> n then Decoding else Prefilling)\<rparr>]\<rparr>)) }) })"

text \<open>What the helpers of admission and retirement leave alone.\<close>

definition same_queues :: "scheduler \<Rightarrow> scheduler \<Rightarrow> bool" where
  "same_queues s s' \<longleftrightarrow> running s' = running s \<and> wait_queue s' = wait_queue s
     \<and> sc_config s' = sc_config s \<and> next_seq_id s' = next_seq_id s \<and> last_back_pressure s' = last_back_pressure s"

lemma same_queues_refl [simp]: "same_queues s s"
  by (simp add: same_queues_def)

lemma same_queues_trans: "same_queues s t \<Longrightarrow> same_queues t u \<Longrightarrow> same_queues s u"
  by (simp add: same_queues_def)

lemma same_queues_upd [simp]:
  "same_queues s (t\<lparr>sc_pool := p\<rparr>) = same_queues s t" "same_queues s (t\<lparr>sc_prefix := c\<rparr>) = same_queues s t"
  "same_queues s (t\<lparr>prefix_refs := m\<rparr>) = same_queues s t"
  "same_queues (s\<lparr>sc_pool := p\<rparr>) t = same_queues s t" "same_queues (s\<lparr>sc_prefix := c\<rparr>) t = same_queues s t"
  "same_queues (s\<lparr>prefix_refs := m\<rparr>) t = same_queues s t"
  by (simp_all add: same_queues_def)

lemma fold_opt_same_queues:
  assumes "fold_opt f xs s = Some s'" and "\<And>x s s'. f x s = Some s' \<Longrightarrow> same_queues s s'"
  shows "same_queues s s'"
  using fold_opt_invariant [where I = "same_queues s", OF assms(1)] assms(2) same_queues_trans
  by (metis same_queues_refl)

lemma cache_block_queues: "cache_block b s = Some s' \<Longrightarrow> same_queues s s'"
  by (auto simp: cache_block_def Let_def split: if_splits Option.bind_splits)

lemma cache_completed_queues: "cache_completed prompt blocks s = Some s' \<Longrightarrow> same_queues s s'"
  by (auto simp: cache_completed_def Let_def split: if_splits Option.bind_splits
      dest!: fold_opt_same_queues [OF _ cache_block_queues])

lemma resolve_prefix_queues: "resolve_prefix req s = Some (bs, n, s') \<Longrightarrow> same_queues s s'"
  by (auto simp: resolve_prefix_def split: if_splits Option.bind_splits option.splits)

lemma ref_prefix_block_queues: "ref_prefix_block b s = Some s' \<Longrightarrow> same_queues s s'"
  by (auto simp: ref_prefix_block_def split: Option.bind_splits)

lemma restore_prefix_queues: "restore_prefix bs n sq s = Some (sq', s') \<Longrightarrow> same_queues s s'"
  by (auto simp: restore_prefix_def split: if_splits Option.bind_splits
      dest!: fold_opt_same_queues [OF _ ref_prefix_block_queues])

lemma free_evicted_queues: "free_evicted b s = Some s' \<Longrightarrow> same_queues s s'"
  by (auto simp: free_evicted_def split: Option.bind_splits)

lemma evict_prefix_queues: "evict_prefix k s = Some s' \<Longrightarrow> same_queues s s'"
  by (auto simp: evict_prefix_def Let_def split: prod.splits
      dest!: fold_opt_same_queues [OF _ free_evicted_queues])

lemma grow_id: "grow sq p = Some (r, sq', p') \<Longrightarrow> seq_id sq' = seq_id sq \<and> num_tokens sq' = num_tokens sq"
  by (auto simp: grow_def split: Option.bind_splits option.splits)

lemma grow_tail_queues:
  "grow_tail n k sq s = Some (failed, sq', s') \<Longrightarrow> same_queues s s' \<and> seq_id sq' = seq_id sq"
proof (induction n arbitrary: sq s)
  case (Suc n)
  from Suc.prems obtain r sq1 p where g: "grow sq (sc_pool s) = Some (r, sq1, p)"
    by (auto split: Option.bind_splits)
  show ?case
  proof (cases r)
    case (Some b)
    then show ?thesis using Suc g grow_id [OF g] by fastforce
  next
    case None
    from Suc.prems g None obtain s2 r2 sq2 p2 where e: "evict_prefix k (s\<lparr>sc_pool := p\<rparr>) = Some s2"
      "grow sq1 (sc_pool s2) = Some (r2, sq2, p2)" by (auto split: Option.bind_splits)
    have sq: "same_queues s s2" using evict_prefix_queues [OF e(1)] by simp
    show ?thesis
    proof (cases r2)
      case N: None
      then show ?thesis using Suc.prems g None e sq grow_id [OF g] grow_id [OF e(2)] by auto
    next
      case (Some b)
      then have "same_queues (s2\<lparr>sc_pool := p2\<rparr>) s' \<and> seq_id sq' = seq_id sq2"
        using Suc.IH [of sq2 "s2\<lparr>sc_pool := p2\<rparr>"] Suc.prems g None e by simp
      then show ?thesis using sq same_queues_trans grow_id [OF g] grow_id [OF e(2)] by auto
    qed
  qed
qed simp

lemma restore_prefix_id: "restore_prefix bs n sq s = Some (sq', s') \<Longrightarrow> seq_id sq' = seq_id sq"
  by (auto simp: restore_prefix_def restore_from_cache_def split: if_splits Option.bind_splits)

text \<open>An admission takes the front request, or nothing at all.\<close>

lemma admit_one_Cons:
  assumes "wait_queue s = req # rest"
  shows "admit_one s =
    do { (blocks, cached_toks, s1) \<leftarrow> resolve_prefix req s;
         if over_estimate (sc_config s) (length (nr_prompt req) - cached_toks) (max_tokens (nr_sampling_params req))
         then Some (Blocked, s1)
         else do { (sq, s2) \<leftarrow> restore_prefix blocks cached_toks (sequence_new (nr_id req)) (s1\<lparr>wait_queue := rest\<rparr>);
                   (failed, sq1, s3) \<leftarrow> grow_tail (div_ceil (length (nr_prompt req)) BLOCK_SIZE - length blocks)
                      (div_ceil (length (nr_prompt req)) BLOCK_SIZE - length blocks) sq s2;
                   if failed then Some (Blocked, s3\<lparr>wait_queue := req # wait_queue s3\<rparr>)
                   else Some (Admitted, s3\<lparr>running := running s3 @
                     [\<lparr>rs_seq = sq1, rs_prompt = nr_prompt req, rs_params = nr_sampling_params req,
                       rs_num_prefilled = length blocks * BLOCK_SIZE, rs_num_generated = 0,
                       rs_state = (if length (nr_prompt req) \<le> length blocks * BLOCK_SIZE then Decoding
                                   else Prefilling)\<rparr>]\<rparr>) } }"
  unfolding admit_one_def Let_def using assms by simp

lemma admit_one_effect:
  assumes "admit_one s = Some (r, s')"
  shows "case r of
      Queue_empty \<Rightarrow> wait_queue s = [] \<and> s' = s
    | Blocked \<Rightarrow> wait_queue s \<noteq> [] \<and> same_queues s s'
    | Admitted \<Rightarrow> \<exists>req rest rs. wait_queue s = req # rest \<and> wait_queue s' = rest
        \<and> running s' = running s @ [rs] \<and> rs_id rs = nr_id req \<and> rs_prompt rs = nr_prompt req
        \<and> rs_params rs = nr_sampling_params req \<and> rs_num_generated rs = 0
        \<and> (rs_state rs = Decoding \<longleftrightarrow> length (rs_prompt rs) \<le> rs_num_prefilled rs)
        \<and> sc_config s' = sc_config s \<and> next_seq_id s' = next_seq_id s \<and> last_back_pressure s' = last_back_pressure s"
proof (cases "wait_queue s")
  case Nil
  then show ?thesis using assms by (simp add: admit_one_def)
next
  case (Cons req rest)
  note eq = assms [unfolded admit_one_Cons [OF Cons]]
  obtain blocks n s1 where r1: "resolve_prefix req s = Some (blocks, n, s1)"
    using eq by (auto split: Option.bind_splits)
  note q1 = resolve_prefix_queues [OF r1]
  show ?thesis
  proof (cases "over_estimate (sc_config s) (length (nr_prompt req) - n) (max_tokens (nr_sampling_params req))")
    case True
    then show ?thesis using eq r1 q1 Cons by auto
  next
    case False
    then obtain sq s2 failed sq1 s3 where r2: "restore_prefix blocks n (sequence_new (nr_id req)) (s1\<lparr>wait_queue := rest\<rparr>) = Some (sq, s2)"
      and r3: "grow_tail (div_ceil (length (nr_prompt req)) BLOCK_SIZE - length blocks)
                (div_ceil (length (nr_prompt req)) BLOCK_SIZE - length blocks) sq s2 = Some (failed, sq1, s3)"
      using eq r1 by (auto split: Option.bind_splits)
    have i: "seq_id sq1 = nr_id req"
      using restore_prefix_id [OF r2] grow_tail_queues [OF r3] by (simp add: sequence_new_def)
    have q3: "same_queues (s1\<lparr>wait_queue := rest\<rparr>) s3"
      using restore_prefix_queues [OF r2] grow_tail_queues [OF r3] same_queues_trans by blast
    show ?thesis
    proof (cases failed)
      case True
      then show ?thesis using eq r1 r2 r3 False q1 q3 Cons by (auto simp: same_queues_def)
    next
      case F: False
      then show ?thesis using eq r1 r2 r3 False q1 q3 Cons i by (auto simp: same_queues_def)
    qed
  qed
qed

lemma admit_one_shrinks: "admit_one s = Some (Admitted, s') \<Longrightarrow> length (wait_queue s') < length (wait_queue s)"
  using admit_one_effect [of s Admitted s'] by auto

text \<open>
  The \<open>while running.len() < max_num_seqs\<close> loop; the flag is \<open>blocked\<close>. Every round that does not leave the
  loop takes a request off the queue.
\<close>

function admit_loop :: "scheduler \<Rightarrow> (bool \<times> scheduler) option" where
  "admit_loop s =
     (if length (running s) < max_num_seqs (sc_config s)
      then (case admit_one s of
              None \<Rightarrow> None
            | Some (Queue_empty, s1) \<Rightarrow> Some (False, s1)
            | Some (Blocked, s1) \<Rightarrow> Some (True, s1)
            | Some (Admitted, s1) \<Rightarrow> admit_loop s1)
      else Some (False, s))"
  by pat_completeness auto
termination
  by (relation "measure (\<lambda>s. length (wait_queue s))") (auto dest: admit_one_shrinks)

declare admit_loop.simps [simp del]

text \<open>The prefill pass over the running sequences; the rest of the list is left alone on \<open>break\<close>.\<close>

fun build_prefill ::
  "nat option \<Rightarrow> nat \<Rightarrow> running_seq list \<Rightarrow> (prefill_step list \<times> running_seq list) option" where
  "build_prefill chunk_size budget [] = Some ([], [])"
| "build_prefill chunk_size budget (r # rs) =
     (if rs_state r \<noteq> Prefilling
      then do { (steps, rs') \<leftarrow> build_prefill chunk_size budget rs; Some (steps, r # rs') }
      else (let remaining = length (rs_prompt r) - rs_num_prefilled r in
            if remaining = 0
            then do { (steps, rs') \<leftarrow> build_prefill chunk_size budget rs;
                      Some (steps, r\<lparr>rs_state := Decoding\<rparr> # rs') }
            else (let chunk = (case chunk_size of
                                 Some n \<Rightarrow> min (min remaining n) budget
                               | None \<Rightarrow> min remaining budget) in
                  if chunk = 0 then Some ([], r # rs)
                  else (let fin = rs_num_prefilled r + chunk in
                        do { toks \<leftarrow> slice_between (rs_prompt r) (rs_num_prefilled r) fin;
                             (steps, rs') \<leftarrow> build_prefill chunk_size (budget - chunk) rs;
                             Some (\<lparr>ps_seq_id = rs_id r, ps_tokens = toks,
                                    ps_computed_tokens = rs_num_prefilled r\<rparr> # steps,
                                   r\<lparr>rs_num_prefilled := fin,
                                     rs_state := (if length (rs_prompt r) \<le> fin then Decoding
                                                  else rs_state r)\<rparr> # rs') }))))"

definition build_schedule :: "bool \<Rightarrow> scheduler \<Rightarrow> (schedule \<times> scheduler) option" where
  "build_schedule blk s =
     (let back_pressure = blk \<or> wait_queue s \<noteq> [];
          budget = max_num_batched_tokens (sc_config s);
          decode_tokens = min (length (filter (\<lambda>r. rs_state r = Decoding) (running s))) budget
      in do { (steps, rs) \<leftarrow> build_prefill (chunked_prefill_size (sc_config s)) (budget - decode_tokens) (running s);
              (let decode = take decode_tokens (map rs_id (filter (\<lambda>r. rs_state r = Decoding) rs)) in
               Some (\<lparr>sch_prefill = steps, sch_decode = decode, sch_back_pressure = back_pressure\<rparr>,
                     s\<lparr>running := rs, last_back_pressure := back_pressure\<rparr>)) })"

definition do_schedule :: "scheduler \<Rightarrow> (schedule \<times> scheduler) option" where
  "do_schedule s =
     do { s1 \<leftarrow> retire_finished s;
          (blk, s2) \<leftarrow> admit_loop s1;
          build_schedule blk s2 }"

section \<open>Step completion, cancellation, hand-over\<close>

definition on_step_complete :: "scheduler \<Rightarrow> nat \<Rightarrow> nat \<Rightarrow> scheduler" where
  "on_step_complete s i n =
     (case find_index (\<lambda>r. rs_id r = i) (running s) of
        None \<Rightarrow> s
      | Some k \<Rightarrow> (let r = running s ! k in
                   s\<lparr>running := (running s)[k := r\<lparr>rs_num_generated := rs_num_generated r + n,
                                                  rs_seq := advance (rs_seq r) n\<rparr>]\<rparr>))"

definition cancel :: "scheduler \<Rightarrow> nat \<Rightarrow> scheduler option" where
  "cancel s i =
     (case find_index (\<lambda>r. rs_id r = i) (running s) of
        None \<Rightarrow> Some s
      | Some k \<Rightarrow> (let r = running s ! k in
                   cache_completed (rs_prompt r) (seq_blocks (rs_seq r))
                     (s\<lparr>running := take k (running s) @ drop (Suc k) (running s)\<rparr>)))"

definition is_idle :: "scheduler \<Rightarrow> bool" where
  "is_idle s \<longleftrightarrow> running s = [] \<and> wait_queue s = []"

definition prefill_ready :: "running_seq \<Rightarrow> bool" where
  "prefill_ready r \<longleftrightarrow> rs_state r = Decoding \<and> length (rs_prompt r) \<le> rs_num_prefilled r"

definition hand_over_block :: "block_id \<Rightarrow> scheduler \<Rightarrow> scheduler option" where
  "hand_over_block b s =
     do { p \<leftarrow> release (sc_pool s) b 0;
          Some (s\<lparr>sc_pool := p, prefix_refs := (prefix_refs s)(b := None)\<rparr>) }"

definition to_transferable :: "running_seq \<Rightarrow> transferable_sequence" where
  "to_transferable r =
     \<lparr>ts_src_seq_id = rs_id r, ts_req_id = rs_id r, ts_prompt = rs_prompt r, ts_params = rs_params r,
      ts_num_prefilled = rs_num_prefilled r, ts_num_generated = rs_num_generated r\<rparr>"

definition take_completed_prefill :: "scheduler \<Rightarrow> (transferable_sequence list \<times> scheduler) option" where
  "take_completed_prefill s =
     (let ready = filter prefill_ready (running s);
          keep = filter (\<lambda>r. \<not> prefill_ready r) (running s)
      in do { s1 \<leftarrow> fold_opt (\<lambda>r. fold_opt hand_over_block (seq_blocks (rs_seq r))) ready s;
              Some (map to_transferable ready, s1\<lparr>running := keep\<rparr>) })"

text \<open>The allocation loop of \<open>admit_transferred\<close>; \<open>None\<close> inside is a pool that is exhausted.\<close>

fun grow_n :: "nat \<Rightarrow> sequence \<Rightarrow> kv_block_pool \<Rightarrow> (sequence option \<times> kv_block_pool) option" where
  "grow_n 0 sq p = Some (Some sq, p)"
| "grow_n (Suc n) sq p =
     do { (r, sq1, p1) \<leftarrow> grow sq p;
          (case r of None \<Rightarrow> Some (None, p1) | Some _ \<Rightarrow> grow_n n sq1 p1) }"

definition admit_transferred :: "scheduler \<Rightarrow> transferable_sequence \<Rightarrow> scheduler option" where
  "admit_transferred s t =
     (let sq = sequence_new (next_seq_id s);
          total = ts_num_prefilled t + ts_num_generated t
      in do { (r, p) \<leftarrow> grow_n (div_ceil total BLOCK_SIZE) sq (sc_pool s);
              (let s1 = s\<lparr>next_seq_id := next_seq_id s + 1, sc_pool := p\<rparr> in
               Some (case r of
                       None \<Rightarrow> s1
                     | Some sq1 \<Rightarrow> s1\<lparr>running := running s1 @
                         [\<lparr>rs_seq = advance sq1 total, rs_prompt = ts_prompt t, rs_params = ts_params t,
                           rs_num_prefilled = ts_num_prefilled t, rs_num_generated = ts_num_generated t,
                           rs_state = Decoding\<rparr>]\<rparr>)) })"

section \<open>The prefill pass\<close>

text \<open>The step a prefill pass emits for a sequence it moved from \<open>r\<close> to \<open>r'\<close>.\<close>

definition step_of :: "running_seq \<times> running_seq \<Rightarrow> prefill_step list" where
  "step_of rr = (let r = fst rr; r' = snd rr in
     if rs_num_prefilled r < rs_num_prefilled r'
     then [\<lparr>ps_seq_id = rs_id r,
            ps_tokens = take (rs_num_prefilled r' - rs_num_prefilled r) (drop (rs_num_prefilled r) (rs_prompt r)),
            ps_computed_tokens = rs_num_prefilled r\<rparr>]
     else [])"

text \<open>How a prefill pass may change a sequence.\<close>

definition prefill_moves :: "nat option \<Rightarrow> running_seq \<Rightarrow> running_seq \<Rightarrow> bool" where
  "prefill_moves chunk_size r r' \<longleftrightarrow>
     rs_seq r' = rs_seq r \<and> rs_prompt r' = rs_prompt r \<and> rs_params r' = rs_params r
   \<and> rs_num_generated r' = rs_num_generated r
   \<and> rs_num_prefilled r \<le> rs_num_prefilled r'
   \<and> (rs_num_prefilled r < rs_num_prefilled r' \<longrightarrow>
        rs_state r = Prefilling \<and> rs_num_prefilled r' \<le> length (rs_prompt r))
   \<and> (\<forall>n. chunk_size = Some n \<longrightarrow> rs_num_prefilled r' - rs_num_prefilled r \<le> n)
   \<and> (rs_state r = Decoding \<longrightarrow> r' = r)
   \<and> (rs_state r' = Decoding \<longrightarrow> rs_state r = Decoding \<or> length (rs_prompt r) \<le> rs_num_prefilled r')"

lemma prefill_moves_refl: "prefill_moves cs r r"
  by (simp add: prefill_moves_def)

lemma list_all2_prefill_moves_refl: "list_all2 (prefill_moves cs) rs rs"
  by (simp add: list.rel_refl prefill_moves_refl)

lemma step_of_same [simp]: "step_of (r, r) = []"
  by (simp add: step_of_def)

lemma concat_step_of_same [simp]: "concat (map step_of (zip rs rs)) = []"
  by (induction rs) auto

lemma build_prefill_spec:
  "\<exists>steps rs'. build_prefill cs budget rs = Some (steps, rs') \<and> list_all2 (prefill_moves cs) rs rs'
     \<and> steps = concat (map step_of (zip rs rs')) \<and> sum_list (map (\<lambda>st. length (ps_tokens st)) steps) \<le> budget"
proof (induction rs arbitrary: budget)
  case (Cons r rs)
  let ?rem = "length (rs_prompt r) - rs_num_prefilled r"
  let ?chunk = "case cs of Some n \<Rightarrow> min (min ?rem n) budget | None \<Rightarrow> min ?rem budget"
  have le: "?chunk \<le> ?rem" "?chunk \<le> budget" "cs = Some n \<Longrightarrow> ?chunk \<le> n" for n
    by (auto split: option.splits)
  obtain steps rs' where IH: "build_prefill cs budget rs = Some (steps, rs')" "list_all2 (prefill_moves cs) rs rs'"
      "steps = concat (map step_of (zip rs rs'))" "sum_list (map (\<lambda>st. length (ps_tokens st)) steps) \<le> budget"
    using Cons.IH by blast
  consider (decoding) "rs_state r \<noteq> Prefilling" | (none) "rs_state r = Prefilling" "?rem = 0"
    | (budget) "rs_state r = Prefilling" "?rem \<noteq> 0" "?chunk = 0"
    | (step) "rs_state r = Prefilling" "?rem \<noteq> 0" "?chunk \<noteq> 0" by blast
  then show ?case
  proof cases
    case decoding
    then show ?thesis using IH by (simp add: prefill_moves_refl)
  next
    case none
    then have "prefill_moves cs r (r\<lparr>rs_state := Decoding\<rparr>)" "step_of (r, r\<lparr>rs_state := Decoding\<rparr>) = []"
      by (auto simp: prefill_moves_def step_of_def)
    then show ?thesis using IH none by (simp add: Let_def)
  next
    case budget
    then show ?thesis
      by (auto simp: Let_def list_all2_prefill_moves_refl prefill_moves_refl)
  next
    case step
    obtain steps rs' where IH: "build_prefill cs (budget - ?chunk) rs = Some (steps, rs')"
        "list_all2 (prefill_moves cs) rs rs'" "steps = concat (map step_of (zip rs rs'))"
        "sum_list (map (\<lambda>st. length (ps_tokens st)) steps) \<le> budget - ?chunk"
      using Cons.IH by blast
    define fin where "fin = rs_num_prefilled r + ?chunk"
    define r' where "r' = r\<lparr>rs_num_prefilled := fin,
        rs_state := (if length (rs_prompt r) \<le> fin then Decoding else rs_state r)\<rparr>"
    have fin: "rs_num_prefilled r < fin" "fin \<le> length (rs_prompt r)" "fin - rs_num_prefilled r = ?chunk"
      using le(1) step(2,3) unfolding fin_def by linarith+
    have sl: "slice_between (rs_prompt r) (rs_num_prefilled r) fin
        = Some (take ?chunk (drop (rs_num_prefilled r) (rs_prompt r)))"
      using fin by simp
    have "build_prefill cs budget (r # rs) = Some (step_of (r, r') @ steps, r' # rs')"
      using step IH(1) fin
      unfolding build_prefill.simps Let_def fin_def [symmetric] sl by (simp add: step_of_def r'_def)
    moreover have "prefill_moves cs r r'"
      using fin step le(3) by (auto simp: prefill_moves_def r'_def)
    moreover have "sum_list (map (\<lambda>st. length (ps_tokens st)) (step_of (r, r') @ steps)) \<le> budget"
    proof -
      have "sum_list (map (\<lambda>st. length (ps_tokens st)) (step_of (r, r'))) \<le> ?chunk"
        using fin(1,3) by (simp add: step_of_def r'_def)
      then show ?thesis using IH(4) le(2) unfolding map_append sum_list_append by linarith
    qed
    ultimately show ?thesis using IH(2,3) by auto
  qed
qed simp

section \<open>Queues across a scheduling step\<close>

abbreviation ids :: "scheduler \<Rightarrow> nat list" where
  "ids s \<equiv> map rs_id (running s) @ map nr_id (wait_queue s)"

lemma fold_cache_completed_queues:
  "fold_opt (\<lambda>r. cache_completed (rs_prompt r) (seq_blocks (rs_seq r))) rs s = Some s' \<Longrightarrow> same_queues s s'"
  by (erule fold_opt_same_queues) (rule cache_completed_queues)

lemma retire_finished_queues:
  assumes "retire_finished s = Some s'"
  shows "running s' = filter (\<lambda>r. \<not> seq_done (sc_config s) r) (running s) \<and> wait_queue s' = wait_queue s
    \<and> sc_config s' = sc_config s \<and> next_seq_id s' = next_seq_id s"
  using fold_cache_completed_queues assms
  by (fastforce simp: retire_finished_def Let_def same_queues_def)

lemma admit_loop_queues:
  assumes "admit_loop s = Some (b, s')"
  shows "\<exists>k new. running s' = running s @ new \<and> wait_queue s' = drop k (wait_queue s)
    \<and> k = length new \<and> k \<le> length (wait_queue s)
    \<and> list_all2 (\<lambda>rs req. rs_id rs = nr_id req \<and> rs_prompt rs = nr_prompt req
         \<and> rs_params rs = nr_sampling_params req) new (take k (wait_queue s))
    \<and> sc_config s' = sc_config s \<and> next_seq_id s' = next_seq_id s
    \<and> (length (running s) \<le> max_num_seqs (sc_config s) \<longrightarrow> length (running s') \<le> max_num_seqs (sc_config s))
    \<and> (b \<longrightarrow> wait_queue s' \<noteq> [])
    \<and> (\<not> b \<longrightarrow> wait_queue s' = [] \<or> max_num_seqs (sc_config s) \<le> length (running s'))"
  using assms
proof (induction s rule: admit_loop.induct)
  case (1 s)
  show ?case
  proof (cases "length (running s) < max_num_seqs (sc_config s)")
    case False
    then show ?thesis using 1(2) by (auto simp: admit_loop.simps [of s] intro!: exI [of _ 0])
  next
    case lt: True
    then obtain r s1 where a: "admit_one s = Some (r, s1)"
      using 1(2) by (auto simp: admit_loop.simps [of s] split: option.splits)
    note eff = admit_one_effect [OF a]
    show ?thesis
    proof (cases r)
      case Queue_empty
      then show ?thesis using 1(2) lt a eff
        by (auto simp: admit_loop.simps [of s] intro!: exI [of _ 0])
    next
      case Blocked
      then show ?thesis using 1(2) lt a eff
        by (auto simp: admit_loop.simps [of s] same_queues_def intro!: exI [of _ 0])
    next
      case Admitted
      with eff obtain req rest rs where e: "wait_queue s = req # rest" "wait_queue s1 = rest"
        "running s1 = running s @ [rs]" "rs_id rs = nr_id req" "rs_prompt rs = nr_prompt req"
        "rs_params rs = nr_sampling_params req" "sc_config s1 = sc_config s" "next_seq_id s1 = next_seq_id s" by auto
      have "admit_loop s1 = Some (b, s')" using 1(2) lt a Admitted by (simp add: admit_loop.simps [of s])
      from 1(1) [OF lt a refl Admitted this] obtain k new where IH:
        "running s' = running s1 @ new" "wait_queue s' = drop k (wait_queue s1)" "k = length new"
        "k \<le> length (wait_queue s1)"
        "list_all2 (\<lambda>rs req. rs_id rs = nr_id req \<and> rs_prompt rs = nr_prompt req
           \<and> rs_params rs = nr_sampling_params req) new (take k (wait_queue s1))"
        "sc_config s' = sc_config s1" "next_seq_id s' = next_seq_id s1"
        "length (running s1) \<le> max_num_seqs (sc_config s1) \<longrightarrow> length (running s') \<le> max_num_seqs (sc_config s1)"
        "b \<longrightarrow> wait_queue s' \<noteq> []"
        "\<not> b \<longrightarrow> wait_queue s' = [] \<or> max_num_seqs (sc_config s1) \<le> length (running s')" by blast
      show ?thesis
        using IH e lt by (intro exI [of _ "Suc k"] exI [of _ "rs # new"]) auto
    qed
  qed
qed

lemma list_all2_map_eq: "list_all2 P xs ys \<Longrightarrow> (\<And>x y. P x y \<Longrightarrow> f x = g y) \<Longrightarrow> map f xs = map g ys"
  by (induction rule: list_all2_induct) auto

lemma build_schedule_effect:
  assumes "build_schedule b s = Some (sch, s')"
  shows "list_all2 (prefill_moves (chunked_prefill_size (sc_config s))) (running s) (running s')
    \<and> sch_prefill sch = concat (map step_of (zip (running s) (running s')))
    \<and> sum_list (map (\<lambda>st. length (ps_tokens st)) (sch_prefill sch)) + length (sch_decode sch)
        \<le> max_num_batched_tokens (sc_config s)
    \<and> set (sch_decode sch) \<subseteq> set (map rs_id (filter (\<lambda>r. rs_state r = Decoding) (running s')))
    \<and> (sch_back_pressure sch \<longleftrightarrow> b \<or> wait_queue s \<noteq> [])
    \<and> wait_queue s' = wait_queue s \<and> sc_config s' = sc_config s \<and> next_seq_id s' = next_seq_id s
    \<and> sc_pool s' = sc_pool s \<and> sc_prefix s' = sc_prefix s \<and> prefix_refs s' = prefix_refs s"
proof -
  define d where "d = min (length (filter (\<lambda>r. rs_state r = Decoding) (running s))) (max_num_batched_tokens (sc_config s))"
  obtain steps rs where bp: "build_prefill (chunked_prefill_size (sc_config s)) (max_num_batched_tokens (sc_config s) - d) (running s)
        = Some (steps, rs)" "list_all2 (prefill_moves (chunked_prefill_size (sc_config s))) (running s) rs"
      "steps = concat (map step_of (zip (running s) rs))"
      "sum_list (map (\<lambda>st. length (ps_tokens st)) steps) \<le> max_num_batched_tokens (sc_config s) - d"
    using build_prefill_spec by blast
  have "sch = \<lparr>sch_prefill = steps, sch_decode = take d (map rs_id (filter (\<lambda>r. rs_state r = Decoding) rs)),
               sch_back_pressure = b \<or> wait_queue s \<noteq> []\<rparr>"
    and "s' = s\<lparr>running := rs, last_back_pressure := b \<or> wait_queue s \<noteq> []\<rparr>"
    using assms bp(1) unfolding build_schedule_def Let_def d_def [symmetric] by auto
  moreover have "d \<le> max_num_batched_tokens (sc_config s)" by (simp add: d_def)
  ultimately show ?thesis
    using bp(2-4) by (auto dest: in_set_takeD)
qed

lemma prefill_moves_ids: "list_all2 (prefill_moves cs) rs rs' \<Longrightarrow> map rs_id rs' = map rs_id rs"
  by (rule sym, erule list_all2_map_eq) (simp add: prefill_moves_def)

lemma do_schedule_cases:
  assumes "do_schedule s = Some (sch, s')"
  obtains s1 b s2 where "retire_finished s = Some s1" "admit_loop s1 = Some (b, s2)"
    "build_schedule b s2 = Some (sch, s')"
  using assms by (auto simp: do_schedule_def split: Option.bind_splits)

lemma do_schedule_ids:
  assumes "do_schedule s = Some (sch, s')"
  shows "ids s' = map rs_id (filter (\<lambda>r. \<not> seq_done (sc_config s) r) (running s)) @ map nr_id (wait_queue s)
     \<and> next_seq_id s' = next_seq_id s \<and> sc_config s' = sc_config s"
proof -
  obtain s1 b s2 where p: "retire_finished s = Some s1" "admit_loop s1 = Some (b, s2)"
    "build_schedule b s2 = Some (sch, s')" using do_schedule_cases [OF assms] .
  note q1 = retire_finished_queues [OF p(1)] and q3 = build_schedule_effect [OF p(3)]
  obtain k new where q2: "running s2 = running s1 @ new" "wait_queue s2 = drop k (wait_queue s1)"
    "list_all2 (\<lambda>rs req. rs_id rs = nr_id req \<and> rs_prompt rs = nr_prompt req
         \<and> rs_params rs = nr_sampling_params req) new (take k (wait_queue s1))"
    "sc_config s2 = sc_config s1" "next_seq_id s2 = next_seq_id s1"
    using admit_loop_queues [OF p(2)] by blast
  have "map rs_id (running s') = map rs_id (running s2)" using q3 prefill_moves_ids by blast
  moreover have "map rs_id new = map nr_id (take k (wait_queue s1))"
    using list_all2_map_eq [OF q2(3), of rs_id nr_id] by simp
  moreover have "map nr_id (take k (wait_queue s1)) @ map nr_id (drop k (wait_queue s1)) = map nr_id (wait_queue s1)"
    by (metis append_take_drop_id map_append)
  ultimately show ?thesis using q1 q2 q3 by simp
qed

section \<open>Runs of the scheduler\<close>

datatype sched_op =
  Add_request new_request
| Do_schedule
| Step_complete nat nat
| Cancel nat
| Take_completed
| Admit_transferred transferable_sequence

fun sched_exec :: "sched_op \<Rightarrow> scheduler \<Rightarrow> scheduler option" where
  "sched_exec (Add_request req) s = Some (snd (add_request s req))"
| "sched_exec Do_schedule s = map_option snd (do_schedule s)"
| "sched_exec (Step_complete i n) s = Some (on_step_complete s i n)"
| "sched_exec (Cancel i) s = cancel s i"
| "sched_exec Take_completed s = map_option snd (take_completed_prefill s)"
| "sched_exec (Admit_transferred t) s = admit_transferred s t"

definition ids_ok :: "scheduler \<Rightarrow> bool" where
  "ids_ok s \<longleftrightarrow> distinct (ids s) \<and> (\<forall>i \<in> set (ids s). i < next_seq_id s)"

lemma distinct_submset:
  assumes "mset ys \<subseteq># mset xs" and "distinct xs"
  shows "distinct ys"
proof -
  have "count (mset ys) x = (if x \<in> set ys then 1 else 0)" for x
  proof (cases "x \<in> set ys")
    case True
    have "count (mset ys) x \<le> count (mset xs) x" using assms(1) by (simp add: subseteq_mset_def)
    also have "\<dots> \<le> 1" using assms(2) by (simp add: distinct_count_atmost_1)
    finally show ?thesis using True by (simp add: le_antisym Suc_leI)
  qed (simp add: not_in_iff)
  then show ?thesis by (simp add: distinct_count_atmost_1)
qed

lemma ids_ok_submset:
  assumes "ids_ok s" and "mset (ids s') \<subseteq># mset (ids s)" and "next_seq_id s' = next_seq_id s"
  shows "ids_ok s'"
proof -
  have "set (ids s') \<subseteq> set (ids s)" using set_mset_mono [OF assms(2)] by (simp only: set_mset_mset)
  then show ?thesis
    using assms(1) distinct_submset [OF assms(2)] unfolding ids_ok_def assms(3) by blast
qed

lemma ids_submset_running:
  assumes "mset (running s') \<subseteq># mset (running s)" and "wait_queue s' = wait_queue s"
  shows "mset (ids s') \<subseteq># mset (ids s)"
  using image_mset_subseteq_mono [OF assms(1), of rs_id] assms(2) by simp

lemma ids_ok_insert:
  assumes "ids_ok s" and "mset (ids s') = add_mset (next_seq_id s) (mset (ids s))"
    and "next_seq_id s' = Suc (next_seq_id s)"
  shows "ids_ok s'"
proof -
  have "next_seq_id s \<notin> set (ids s)" using assms(1) unfolding ids_ok_def by blast
  then have "distinct (next_seq_id s # ids s)" using assms(1) by (simp add: ids_ok_def)
  moreover have "mset (ids s') = mset (next_seq_id s # ids s)" using assms(2) by simp
  ultimately have "distinct (ids s')" "set (ids s') = set (next_seq_id s # ids s)"
    using mset_eq_imp_distinct_iff mset_eq_setD by blast+
  then show ?thesis
    using assms(1) unfolding ids_ok_def assms(3) by (metis less_SucI lessI set_ConsD)
qed

lemma map_list_update_same: "k < length xs \<Longrightarrow> f y = f (xs ! k) \<Longrightarrow> map f (xs[k := y]) = map f xs"
  by (metis list_update_id map_update)

lemma on_step_complete_ids: "map rs_id (running (on_step_complete s i n)) = map rs_id (running s)"
  by (auto simp: on_step_complete_def Let_def advance_def map_list_update_same split: option.splits
      dest!: find_index_Some)

lemma hand_over_queues:
  "fold_opt (\<lambda>r. fold_opt hand_over_block (seq_blocks (rs_seq r))) rs s = Some s' \<Longrightarrow> same_queues s s'"
proof (erule fold_opt_same_queues, erule fold_opt_same_queues)
  fix b s s' assume "hand_over_block b s = Some s'"
  then show "same_queues s s'" by (auto simp: hand_over_block_def split: Option.bind_splits)
qed

lemma sched_exec_ids_ok:
  assumes "ids_ok s" and "sched_exec op s = Some s'"
  shows "ids_ok s'"
proof (cases op)
  case (Add_request req)
  then show ?thesis using assms(2) by (intro ids_ok_insert [OF assms(1)]) (auto simp: add_request_def Let_def)
next
  case Do_schedule
  then obtain sch where d: "do_schedule s = Some (sch, s')" using assms(2) by auto
  have "mset (map rs_id (filter P (running s))) \<subseteq># mset (map rs_id (running s))" for P
    by (simp add: image_mset_subseteq_mono)
  then show ?thesis
    using do_schedule_ids [OF d] by (intro ids_ok_submset [OF assms(1)]) simp_all
next
  case (Step_complete i n)
  have "wait_queue (on_step_complete s i n) = wait_queue s" "next_seq_id (on_step_complete s i n) = next_seq_id s"
    by (auto simp: on_step_complete_def Let_def split: option.splits)
  then show ?thesis
    using assms on_step_complete_ids [of s i n] Step_complete by (auto simp: ids_ok_def)
next
  case (Cancel i)
  show ?thesis
  proof (cases "find_index (\<lambda>r. rs_id r = i) (running s)")
    case None
    then show ?thesis using assms Cancel by (simp add: cancel_def)
  next
    case (Some k)
    let ?rs = "take k (running s) @ drop (Suc k) (running s)"
    have "same_queues (s\<lparr>running := ?rs\<rparr>) s'"
      using assms(2) Cancel Some by (auto simp: cancel_def Let_def dest: cache_completed_queues)
    moreover have "mset (running s) = add_mset (running s ! k) (mset ?rs)"
      using arg_cong [OF id_take_nth_drop [of k "running s"], of mset] find_index_Some [OF Some] by simp
    ultimately show ?thesis
      using ids_submset_running [of s' s] by (intro ids_ok_submset [OF assms(1)]) (auto simp: same_queues_def)
  qed
next
  case Take_completed
  then obtain out s1 where s1: "fold_opt (\<lambda>r. fold_opt hand_over_block (seq_blocks (rs_seq r))) (filter prefill_ready (running s)) s = Some s1"
    "s' = s1\<lparr>running := filter (\<lambda>r. \<not> prefill_ready r) (running s)\<rparr>"
    using assms(2) by (auto simp: take_completed_prefill_def Let_def split: Option.bind_splits)
  then show ?thesis
    using hand_over_queues [OF s1(1)] ids_submset_running [of s' s]
    by (intro ids_ok_submset [OF assms(1)]) (auto simp: same_queues_def)
next
  case (Admit_transferred t)
  have gid: "grow_n n sq p = Some (Some sq', p') \<Longrightarrow> seq_id sq' = seq_id sq" for n sq p sq' p'
    by (induction n arbitrary: sq p) (auto split: Option.bind_splits option.splits dest!: grow_id)
  obtain r p where r: "grow_n (div_ceil (ts_num_prefilled t + ts_num_generated t) BLOCK_SIZE)
      (sequence_new (next_seq_id s)) (sc_pool s) = Some (r, p)"
    using assms(2) Admit_transferred by (auto simp: admit_transferred_def Let_def split: Option.bind_splits)
  show ?thesis
  proof (cases r)
    case None
    then have "ids s' = ids s" "next_seq_id s' = Suc (next_seq_id s)"
      using assms(2) Admit_transferred r by (auto simp: admit_transferred_def Let_def)
    then show ?thesis using assms(1) by (auto simp: ids_ok_def less_SucI)
  next
    case (Some sq)
    then have "seq_id sq = next_seq_id s" using gid r by (simp add: sequence_new_def)
    then show ?thesis
      using assms(2) Admit_transferred r Some
      by (intro ids_ok_insert [OF assms(1)]) (auto simp: admit_transferred_def Let_def advance_def)
  qed
qed

section \<open>Properties\<close>

lemma reclaim_in_use_panics:
  assumes "b \<in> set bs" and "b < length (metas p)" and "0 < ref_count (metas p ! b)"
  shows "fold_opt (\<lambda>b q. reclaim q b) bs p = None"
  using assms
proof (induction bs arbitrary: p)
  case (Cons c bs)
  show ?case
  proof (cases "reclaim p c")
    case (Some p1)
    then have p1: "metas p1 = (metas p)[c := (metas p ! c)\<lparr>ref_count := 1\<rparr>]" "ref_count (metas p ! c) = 0"
      by (auto simp: reclaim_def split: Option.bind_splits if_splits)
    then have "b \<in> set bs" using Cons.prems by auto
    then show ?thesis
      using Cons.IH [of p1] Cons.prems p1 Some by (cases "b = c") auto
  qed simp
qed simp

text \<open>A concrete scheduler: four sequences, 64 tokens per pass, chunks of 16, and a pool of four blocks.\<close>

definition example_config :: scheduler_config where
  "example_config = \<lparr>max_num_seqs = 4, max_num_batched_tokens = 64, max_seq_len = 100, chunked_prefill_size = Some 16\<rparr>"

definition example_request :: "token list \<Rightarrow> nat \<Rightarrow> new_request" where
  "example_request prompt n =
     \<lparr>nr_id = 0, nr_prompt = prompt, nr_sampling_params = sampling_params_default\<lparr>max_tokens := n\<rparr>,
      nr_prefix_cached_tokens = 0, nr_cached_blocks = []\<rparr>"

definition example_prompt :: "token list" where
  "example_prompt = [0, 1, 2, 3, 4, 5, 6, 7, 8, 9, 10, 11, 12, 13, 14, 15]"

definition example_start :: scheduler where
  "example_start = scheduler_new example_config (pool_new 4)"

lemma pool_new_4:
  "pool_new 4 = \<lparr>metas = [block_meta_new, block_meta_new, block_meta_new, block_meta_new], free = [3, 2, 1, 0],
     clock_hand = 0, eviction_count = 0, allocated_count = 0, cached_count = 0\<rparr>"
proof -
  have "max 1 (min 4 MAX_BLOCKS) = 4" by (simp add: MAX_BLOCKS_def)
  moreover have "replicate 4 block_meta_new = [block_meta_new, block_meta_new, block_meta_new, block_meta_new]"
    by (simp add: eval_nat_numeral)
  moreover have "rev [0..<4] = [3, 2, 1, 0::nat]" by (simp add: upt_rec)
  ultimately show ?thesis by (simp add: pool_new_def)
qed

lemmas grow_tail_2 = grow_tail.simps(2) [of "Suc 0", folded numeral_2_eq_2]

lemmas example_simps =
  grow_tail_2
  example_config_def example_request_def example_prompt_def example_start_def scheduler_new_def
  sampling_params_default_def pool_new_4 Let_def add_request_def do_schedule_def
  retire_finished_def admit_loop.simps admit_one_def over_estimate_def resolve_prefix_def radix_lookup_def radix_new_def
  tick_def node_new_def lookup_node.simps insert_node.simps restore_prefix_def restore_from_cache_def
  BLOCK_SIZE_def div_ceil_def grow_def alloc_def claim_block_def vec_get_def block_meta_new_def
  sequence_new_def build_schedule_def slice_between_def seq_done_def on_step_complete_def advance_def
  cache_completed_def slice_to_def radix_insert_def cache_block_def release_def pin_def set_child_def
  set_children_def touch_def reclaim_def unpin_def ref_prefix_block_def

lemma example_admit:
  "map_option fst (do_schedule (snd (add_request example_start (example_request [7, 8, 9] 2)))) =
     Some \<lparr>sch_prefill = [\<lparr>ps_seq_id = 1, ps_tokens = [7, 8, 9], ps_computed_tokens = 0\<rparr>],
           sch_decode = [], sch_back_pressure = False\<rparr>"
  by (simp add: example_simps)

text \<open>C4: a scheduling step never plans more work than the token budget allows (prefill tokens plus one token
  per decoding sequence), plans at most one chunk of at most the configured size per sequence, and
  keeps the number of running sequences within the configured maximum.\<close>

theorem schedule_respects_budgets:
  assumes "do_schedule s = Some (sch, s')"
  shows "sum_list (map (\<lambda>st. length (ps_tokens st)) (sch_prefill sch)) + length (sch_decode sch)
           \<le> max_num_batched_tokens (sc_config s)
       \<and> (length (running s) \<le> max_num_seqs (sc_config s) \<longrightarrow> length (running s') \<le> max_num_seqs (sc_config s))
       \<and> (\<forall>st \<in> set (sch_prefill sch). ps_tokens st \<noteq> [] \<and>
            (\<forall>n. chunked_prefill_size (sc_config s) = Some n \<longrightarrow> length (ps_tokens st) \<le> n))"
proof -
  obtain s1 b s2 where p: "retire_finished s = Some s1" "admit_loop s1 = Some (b, s2)"
    "build_schedule b s2 = Some (sch, s')" using do_schedule_cases [OF assms] .
  note q1 = retire_finished_queues [OF p(1)] and q3 = build_schedule_effect [OF p(3)]
  have c: "sc_config s2 = sc_config s" and len: "length (running s1) \<le> max_num_seqs (sc_config s1)
      \<longrightarrow> length (running s2) \<le> max_num_seqs (sc_config s1)"
    using admit_loop_queues [OF p(2)] q1 by auto
  have "length (running s1) \<le> length (running s)" using q1 by simp
  moreover have "length (running s') = length (running s2)" using q3 list_all2_lengthD by fastforce
  ultimately have "length (running s) \<le> max_num_seqs (sc_config s) \<longrightarrow> length (running s') \<le> max_num_seqs (sc_config s)"
    using len q1 by (metis le_trans)
  moreover have "ps_tokens st \<noteq> [] \<and> (\<forall>n. chunked_prefill_size (sc_config s) = Some n \<longrightarrow> length (ps_tokens st) \<le> n)"
    if "st \<in> set (sch_prefill sch)" for st
  proof -
    from that q3 obtain r r' where rr: "(r, r') \<in> set (zip (running s2) (running s'))" "st \<in> set (step_of (r, r'))"
      by auto
    then have "prefill_moves (chunked_prefill_size (sc_config s)) r r'" using q3 c by (auto simp: list_all2_iff)
    with rr(2) show ?thesis by (auto simp: step_of_def prefill_moves_def split: if_splits)
  qed
  moreover have "sum_list (map (\<lambda>st. length (ps_tokens st)) (sch_prefill sch)) + length (sch_decode sch)
      \<le> max_num_batched_tokens (sc_config s)" using q3 unfolding c by blast
  ultimately show ?thesis by blast
qed

theorem schedule_respects_budgets_witness:
  "\<exists>sch s'. do_schedule (snd (add_request example_start (example_request [7, 8, 9] 2))) = Some (sch, s')
     \<and> sum_list (map (\<lambda>st. length (ps_tokens st)) (sch_prefill sch)) + length (sch_decode sch) \<le> 64"
proof -
  obtain sch s' where d: "do_schedule (snd (add_request example_start (example_request [7, 8, 9] 2))) = Some (sch, s')"
    using example_admit by auto
  with schedule_respects_budgets [OF d] show ?thesis
    by (auto simp: example_start_def add_request_def Let_def scheduler_new_def example_config_def)
qed

text \<open>C5: a scheduling step drops exactly the finished sequences and loses no request: the running sequences
  followed by the waiting requests are, in the same order, the unfinished running sequences
  followed by the requests that were waiting. Requests are admitted in arrival order.\<close>

theorem schedule_keeps_every_request_in_order:
  assumes "do_schedule s = Some (sch, s')"
  shows "running_ids s' @ map nr_id (wait_queue s') =
           map rs_id (filter (\<lambda>r. \<not> seq_done (sc_config s) r) (running s)) @ map nr_id (wait_queue s)"
  using do_schedule_ids [OF assms] by (simp add: running_ids_def)

theorem schedule_keeps_every_request_in_order_witness:
  "\<exists>sch s'. do_schedule (snd (add_request example_start (example_request [7, 8, 9] 2))) = Some (sch, s')
     \<and> running_ids s' @ map nr_id (wait_queue s') = [1]"
proof -
  obtain sch s' where d: "do_schedule (snd (add_request example_start (example_request [7, 8, 9] 2))) = Some (sch, s')"
    using example_admit by auto
  with schedule_keeps_every_request_in_order [OF d] show ?thesis
    by (simp add: example_start_def add_request_def Let_def scheduler_new_def)
qed

lemma filter_steps_of:
  assumes "list_all2 (prefill_moves cs) rs rs'" and "distinct (map rs_id rs)" and "(r, r') \<in> set (zip rs rs')"
  shows "filter (\<lambda>st. ps_seq_id st = rs_id r) (concat (map step_of (zip rs rs'))) = step_of (r, r')"
  using assms
proof (induction rule: list_all2_induct)
  case (Cons x rs y rs')
  have none: "filter (\<lambda>st. ps_seq_id st = i) (concat (map step_of (zip rs rs'))) = []"
    if "i \<notin> set (map rs_id rs)" for i
    using that by (auto simp: filter_empty_conv step_of_def Let_def split: if_splits dest: set_zip_leftD)
  have own: "filter (\<lambda>st. ps_seq_id st = i) (step_of (x, y)) = (if rs_id x = i then step_of (x, y) else [])" for i
    by (simp add: step_of_def Let_def)
  show ?case
  proof (cases "(r, r') = (x, y)")
    case True
    then show ?thesis using Cons.prems none [of "rs_id x"] own by simp
  next
    case False
    then have m: "(r, r') \<in> set (zip rs rs')" using Cons.prems by auto
    then have "rs_id r \<in> set (map rs_id rs)" by (auto dest: set_zip_leftD)
    then have "rs_id r \<noteq> rs_id x" using Cons.prems(1) by auto
    then show ?thesis using Cons.IH Cons.prems m own by simp
  qed
qed simp

lemma zip_same_id:
  assumes "list_all2 (prefill_moves cs) rs rs'" and "distinct (map rs_id rs)"
    and "r \<in> set rs" and "r' \<in> set rs'" and "rs_id r' = rs_id r"
  shows "(r, r') \<in> set (zip rs rs')"
proof -
  have ids: "map rs_id rs' = map rs_id rs" by (rule prefill_moves_ids [OF assms(1)])
  have len: "length rs' = length rs" using assms(1) by (simp add: list_all2_lengthD)
  obtain i j where i: "i < length rs" "rs ! i = r" and j: "j < length rs'" "rs' ! j = r'"
    using assms(3,4) by (auto simp: in_set_conv_nth)
  have "map rs_id rs ! i = map rs_id rs ! j" using i j len ids assms(5) by (metis nth_map)
  then have "i = j" using i j len nth_eq_iff_index_eq [OF assms(2), of i j] by simp
  then show ?thesis using i j len by (auto simp: in_set_zip)
qed

text \<open>The prefill steps of a sequence are consecutive, gap-free chunks of its prompt: the tokens a scheduling step
  plans for a running sequence continue exactly where its consumed prefix ended, and the new consumed
  prefix is the old one followed by them.\<close>

theorem prefill_steps_partition_prompt:
  assumes "ids_ok s" and "do_schedule s = Some (sch, s')"
    and "r \<in> set (running s)" and "r' \<in> set (running s')" and "rs_id r' = rs_id r"
  shows "rs_prompt r' = rs_prompt r \<and>
    take (rs_num_prefilled r) (rs_prompt r)
      @ concat (map ps_tokens (filter (\<lambda>st. ps_seq_id st = rs_id r) (sch_prefill sch)))
    = take (rs_num_prefilled r') (rs_prompt r)"
proof -
  obtain s1 b s2 where p: "retire_finished s = Some s1" "admit_loop s1 = Some (b, s2)"
    "build_schedule b s2 = Some (sch, s')" using do_schedule_cases [OF assms(2)] .
  note q1 = retire_finished_queues [OF p(1)] and q3 = build_schedule_effect [OF p(3)]
  obtain k new where q2: "running s2 = running s1 @ new"
    "list_all2 (\<lambda>rs req. rs_id rs = nr_id req \<and> rs_prompt rs = nr_prompt req
         \<and> rs_params rs = nr_sampling_params req) new (take k (wait_queue s1))"
    using admit_loop_queues [OF p(2)] by blast
  note mv = conjunct1 [OF q3]
  have "ids_ok s'"
    using sched_exec_ids_ok [OF assms(1), of Do_schedule s'] assms(2) by simp
  then have "distinct (map rs_id (running s'))" by (simp add: ids_ok_def)
  then have d: "distinct (map rs_id (running s2))" unfolding prefill_moves_ids [OF mv] .
  have "r \<in> set (running s1)"
  proof -
    have "rs_id r' \<in> set (map rs_id (running s'))" using assms(4) by simp
    then have "rs_id r \<in> set (map rs_id (running s2))" unfolding assms(5) prefill_moves_ids [OF mv] .
    then obtain x where x: "x \<in> set (running s2)" "rs_id x = rs_id r"
      by auto
    have nid: "map rs_id new = map nr_id (take k (wait_queue s1))"
      using list_all2_map_eq [OF q2(2), of rs_id nr_id] by simp
    have "x \<notin> set new"
    proof
      assume "x \<in> set new"
      then have "rs_id x \<in> set (map rs_id new)" by simp
      then have "rs_id x \<in> set (map nr_id (take k (wait_queue s1)))" unfolding nid .
      then have "rs_id r \<in> set (take k (map nr_id (wait_queue s)))" using x(2) q1 by (simp add: take_map)
      then have "rs_id r \<in> set (map nr_id (wait_queue s))" by (rule in_set_takeD)
      moreover have "rs_id r \<in> set (map rs_id (running s))" using assms(3) by simp
      moreover have "set (map rs_id (running s)) \<inter> set (map nr_id (wait_queue s)) = {}"
        using conjunct1 [OF assms(1) [unfolded ids_ok_def], unfolded distinct_append] by (elim conjE)
      ultimately show False by blast
    qed
    then have x1: "x \<in> set (running s1)" using x(1) q2(1) by simp
    then have x2: "x \<in> set (running s)" using q1 by simp
    have "inj_on rs_id (set (running s))" using assms(1) by (simp add: ids_ok_def distinct_map)
    then have "x = r" using x2 x(2) assms(3) by (meson inj_onD)
    then show ?thesis using x1 by simp
  qed
  then have z: "(r, r') \<in> set (zip (running s2) (running s'))"
    using zip_same_id [OF mv d] assms(4,5) q2(1) by simp
  then have pm: "prefill_moves (chunked_prefill_size (sc_config s2)) r r'" using mv by (auto simp: list_all2_iff)
  have "concat (map ps_tokens (filter (\<lambda>st. ps_seq_id st = rs_id r) (sch_prefill sch)))
      = take (rs_num_prefilled r' - rs_num_prefilled r) (drop (rs_num_prefilled r) (rs_prompt r))"
    unfolding conjunct1 [OF conjunct2 [OF q3]] filter_steps_of [OF mv d z] by (simp add: step_of_def Let_def)
  moreover have "rs_num_prefilled r \<le> rs_num_prefilled r'" "rs_prompt r' = rs_prompt r"
    using pm by (simp_all add: prefill_moves_def)
  ultimately show ?thesis
    using take_add [of "rs_num_prefilled r" "rs_num_prefilled r' - rs_num_prefilled r" "rs_prompt r"] by simp
qed

theorem prefill_steps_partition_prompt_witness:
  "\<exists>s sch s' r r'. fold_opt sched_exec [Add_request (example_request (example_prompt @ [7, 8]) 2), Do_schedule] example_start = Some s
     \<and> do_schedule s = Some (sch, s') \<and> r \<in> set (running s) \<and> r' \<in> set (running s') \<and> rs_id r' = rs_id r
     \<and> example_prompt @ concat (map ps_tokens (filter (\<lambda>st. ps_seq_id st = rs_id r) (sch_prefill sch)))
         = take (rs_num_prefilled r') (example_prompt @ [7, 8])"
proof -
  let ?a = "Add_request (example_request (example_prompt @ [7, 8]) 2)"
  have one: "map_option (\<lambda>s. map (\<lambda>r. (rs_id r, rs_num_prefilled r, rs_prompt r)) (running s))
      (fold_opt sched_exec [?a, Do_schedule] example_start) = Some [(1, 16, example_prompt @ [7, 8])]"
    and two: "map_option (\<lambda>s. map rs_id (running s)) (fold_opt sched_exec ([?a, Do_schedule] @ [Do_schedule]) example_start) = Some [1]"
    by (simp_all add: example_simps)
  obtain s where s0: "fold_opt sched_exec [?a, Do_schedule] example_start = Some s \<and>
    map (\<lambda>r. (rs_id r, rs_num_prefilled r, rs_prompt r)) (running s) = [(1, 16, example_prompt @ [7, 8])]"
    using map_option_eq_Some [THEN iffD1, OF one] ..
  note s = conjunct1 [OF s0] conjunct2 [OF s0]
  obtain sch s' where d: "do_schedule s = Some (sch, s')" "map rs_id (running s') = [1]"
    using two unfolding fold_opt_append s(1) by (auto split: Option.bind_splits)
  obtain r where r: "running s = [r]" "rs_id r = 1" "rs_num_prefilled r = 16" "rs_prompt r = example_prompt @ [7, 8]"
    using s(2) by auto
  obtain r' where r': "running s' = [r']" "rs_id r' = 1" using d(2) by auto
  have "ids_ok example_start" by (simp add: ids_ok_def example_start_def scheduler_new_def)
  then have ok: "ids_ok s"
    using fold_opt_invariant [where I = ids_ok, OF s(1)] sched_exec_ids_ok by blast
  have "length example_prompt = 16" by (simp add: example_prompt_def)
  then have "example_prompt @ concat (map ps_tokens (filter (\<lambda>st. ps_seq_id st = rs_id r) (sch_prefill sch)))
      = take (rs_num_prefilled r') (example_prompt @ [7, 8])"
    using prefill_steps_partition_prompt [OF ok d(1), of r r'] r r' by simp
  moreover have "r \<in> set (running s)" "r' \<in> set (running s')" "rs_id r' = rs_id r" using r r' by simp_all
  ultimately show ?thesis using s(1) d(1) by metis
qed

text \<open>Whatever sequence of operations a scheduler executes, the ids of its running and waiting sequences are
  pairwise different and below the next id to be assigned.\<close>

theorem scheduler_ids_unique:
  assumes "fold_opt sched_exec ops (scheduler_new config pool) = Some s"
  shows "distinct (running_ids s @ map nr_id (wait_queue s))
       \<and> (\<forall>i \<in> set (running_ids s @ map nr_id (wait_queue s)). i < next_seq_id s)"
proof -
  have "ids_ok (scheduler_new config pool)" by (simp add: ids_ok_def scheduler_new_def)
  then have "ids_ok s"
    using fold_opt_invariant [where I = ids_ok, OF assms] sched_exec_ids_ok by blast
  then show ?thesis by (simp add: ids_ok_def running_ids_def)
qed

theorem scheduler_ids_unique_witness:
  "\<exists>s. fold_opt sched_exec [Add_request (example_request [7, 8, 9] 2), Do_schedule] example_start = Some s
     \<and> distinct (running_ids s @ map nr_id (wait_queue s))"
proof -
  have "map_option (\<lambda>s. ()) (fold_opt sched_exec [Add_request (example_request [7, 8, 9] 2), Do_schedule] example_start) = Some ()"
    by (simp add: example_simps)
  then obtain s where s: "fold_opt sched_exec [Add_request (example_request [7, 8, 9] 2), Do_schedule] example_start = Some s"
    by (metis map_option_is_None not_None_eq option.distinct(1))
  with scheduler_ids_unique [of _ example_config "pool_new 4" s] show ?thesis
    unfolding example_start_def by blast
qed

text \<open>A request that asks for more than twice the token budget is never admitted and blocks the queue for good:
  as long as it is at the front, no scheduling step admits anything, whatever the state of the pool and
  the cache, and the caller sees back-pressure.\<close>

theorem oversized_request_starves_queue:
  assumes "wait_queue s = req # rest"
    and "2 * max_num_batched_tokens (sc_config s) < max_tokens (nr_sampling_params req)"
    and "length (nr_prompt req) + max_tokens (nr_sampling_params req) < 2 ^ 64"
    and "do_schedule s = Some (sch, s')"
  shows "wait_queue s' = req # rest \<and> sch_back_pressure sch
       \<and> running_ids s' = map rs_id (filter (\<lambda>r. \<not> seq_done (sc_config s) r) (running s))"
proof -
  obtain s1 b s2 where p: "retire_finished s = Some s1" "admit_loop s1 = Some (b, s2)"
    "build_schedule b s2 = Some (sch, s')" using do_schedule_cases [OF assms(4)] .
  note q1 = retire_finished_queues [OF p(1)] and q3 = build_schedule_effect [OF p(3)]
  have w1: "wait_queue s1 = req # rest" using q1 assms(1) by simp
  have "wait_queue s2 = req # rest \<and> running s2 = running s1"
  proof (cases "length (running s1) < max_num_seqs (sc_config s1)")
    case False
    then show ?thesis using p(2) w1 by (auto simp: admit_loop.simps [of s1])
  next
    case True
    then obtain r s3 where a: "admit_one s1 = Some (r, s3)"
      using p(2) by (auto simp: admit_loop.simps [of s1] split: option.splits)
    have "over_estimate (sc_config s1) (length (nr_prompt req) - n) (max_tokens (nr_sampling_params req))" for n
      using assms(2,3) q1 by (simp add: over_estimate_exact)
    then have "r = Blocked"
      using a unfolding admit_one_Cons [OF w1] by (auto split: Option.bind_splits)
    then show ?thesis
      using p(2) True a admit_one_effect [OF a] w1 by (auto simp: admit_loop.simps [of s1] same_queues_def)
  qed
  moreover have "running_ids s' = map rs_id (running s2)"
    using q3 prefill_moves_ids unfolding running_ids_def by blast
  ultimately show ?thesis using q1 q3 by auto
qed

theorem oversized_request_starves_queue_witness:
  "\<exists>s sch s'. fold_opt sched_exec [Add_request (example_request [1] 129), Add_request (example_request [2] 1)] example_start = Some s
     \<and> do_schedule s = Some (sch, s') \<and> map nr_id (wait_queue s') = [1, 2] \<and> sch_back_pressure sch"
proof -
  let ?s = "snd (add_request (snd (add_request example_start (example_request [1] 129))) (example_request [2] 1))"
  have "map_option (\<lambda>x. ()) (do_schedule ?s) = Some ()" by (simp add: example_simps)
  then obtain sch s' where d: "do_schedule ?s = Some (sch, s')"
    by (metis map_option_is_None not_None_eq option.distinct(1) surj_pair)
  have w: "wait_queue ?s = [(example_request [1] 129)\<lparr>nr_id := 1\<rparr>, (example_request [2] 1)\<lparr>nr_id := 2\<rparr>]"
    by (simp add: add_request_def example_start_def scheduler_new_def Let_def)
  have "2 * max_num_batched_tokens (sc_config ?s) < max_tokens (nr_sampling_params ((example_request [1] 129)\<lparr>nr_id := 1\<rparr>))"
    by (simp add: add_request_def example_start_def scheduler_new_def Let_def example_config_def example_request_def)
  note big = this
  have "length (nr_prompt ((example_request [1] 129)\<lparr>nr_id := 1\<rparr>)) + max_tokens (nr_sampling_params ((example_request [1] 129)\<lparr>nr_id := 1\<rparr>)) < 2 ^ 64"
    by (simp add: example_request_def)
  from oversized_request_starves_queue [OF w big this d] d show ?thesis by auto
qed

text \<open>A second request that hits a cached prefix block which a running sequence is already using makes the
  scheduler panic: \<open>restore_from_cache\<close> asserts that the block is not in use.\<close>

theorem concurrent_prefix_hit_panics:
  assumes "retire_finished s = Some s1" and "length (running s1) < max_num_seqs (sc_config s1)"
    and "wait_queue s1 = req # rest" and "resolve_prefix req s1 = Some (blocks, n, s2)"
    and "\<not> over_estimate (sc_config s1) (length (nr_prompt req) - n) (max_tokens (nr_sampling_params req))"
    and "b \<in> set blocks" and "b < length (metas (sc_pool s1))" and "0 < ref_count (metas (sc_pool s1) ! b)"
  shows "do_schedule s = None"
proof -
  have pool: "sc_pool s2 = sc_pool s1"
    using assms(4) by (auto simp: resolve_prefix_def split: if_splits Option.bind_splits option.splits)
  have ne: "blocks \<noteq> []" using assms(6) by auto
  have "fold_opt (\<lambda>b q. reclaim q b) blocks (sc_pool s1) = None"
    using assms(6-8) by (rule reclaim_in_use_panics)
  then have "restore_prefix blocks n (sequence_new (nr_id req)) (s2\<lparr>wait_queue := rest\<rparr>) = None"
    using ne pool by (simp add: restore_prefix_def restore_from_cache_def)
  then have "admit_one s1 = None"
    using assms(4,5) by (simp add: admit_one_Cons [OF assms(3)])
  then show ?thesis
    using assms(1,2) by (simp add: do_schedule_def admit_loop.simps [of s1])
qed

theorem concurrent_prefix_hit_panics_witness:
  "\<exists>s. fold_opt sched_exec [Add_request (example_request example_prompt 1), Do_schedule, Step_complete 1 1,
        Do_schedule, Add_request (example_request example_prompt 5), Do_schedule,
        Add_request (example_request example_prompt 5)] example_start = Some s \<and> do_schedule s = None"
proof -
  let ?ops = "[Add_request (example_request example_prompt 1), Do_schedule, Step_complete 1 1,
        Do_schedule, Add_request (example_request example_prompt 5), Do_schedule,
        Add_request (example_request example_prompt 5)]"
  have one: "map_option (\<lambda>s. (map_option (\<lambda>s1. (length (running s1), max_num_seqs (sc_config s1),
       max_num_batched_tokens (sc_config s1), metas (sc_pool s1) ! 0, length (metas (sc_pool s1)), wait_queue s1,
       map_option (\<lambda>(bs, n, s2). (bs, n)) (resolve_prefix ((example_request example_prompt 5)\<lparr>nr_id := 3\<rparr>) s1)))
     (retire_finished s))) (fold_opt sched_exec ?ops example_start) =
     Some (Some (1, 4, 64, \<lparr>ref_count = 1, pinned = False, meta_hash = 0\<rparr>, 4,
        [(example_request example_prompt 5)\<lparr>nr_id := 3\<rparr>], Some ([0], 16)))"
    by (simp add: example_simps)
  obtain s where s: "fold_opt sched_exec ?ops example_start = Some s \<and>
      map_option (\<lambda>s1. (length (running s1), max_num_seqs (sc_config s1),
       max_num_batched_tokens (sc_config s1), metas (sc_pool s1) ! 0, length (metas (sc_pool s1)), wait_queue s1,
       map_option (\<lambda>(bs, n, s2). (bs, n)) (resolve_prefix ((example_request example_prompt 5)\<lparr>nr_id := 3\<rparr>) s1)))
     (retire_finished s) = Some (1, 4, 64, \<lparr>ref_count = 1, pinned = False, meta_hash = 0\<rparr>, 4,
        [(example_request example_prompt 5)\<lparr>nr_id := 3\<rparr>], Some ([0], 16))"
    using map_option_eq_Some [THEN iffD1, OF one] ..
  from conjunct2 [OF s] obtain s1 s2 where s1: "retire_finished s = Some s1" "length (running s1) = 1"
    "max_num_seqs (sc_config s1) = 4" "max_num_batched_tokens (sc_config s1) = 64"
    "metas (sc_pool s1) ! 0 = \<lparr>ref_count = 1, pinned = False, meta_hash = 0\<rparr>" "length (metas (sc_pool s1)) = 4"
    "wait_queue s1 = [(example_request example_prompt 5)\<lparr>nr_id := 3\<rparr>]"
    "resolve_prefix ((example_request example_prompt 5)\<lparr>nr_id := 3\<rparr>) s1 = Some ([0], 16, s2)"
    by auto
  have "do_schedule s = None"
    using concurrent_prefix_hit_panics [OF s1(1) _ s1(7) s1(8), of 0] s1
    by (simp add: example_request_def example_prompt_def over_estimate_def)
  with conjunct1 [OF s] show ?thesis by blast
qed

text \<open>Pools that differ at most in the metadata of blocks outside \<open>B\<close>.\<close>

definition pool_agrees :: "block_id set \<Rightarrow> kv_block_pool \<Rightarrow> kv_block_pool \<Rightarrow> bool" where
  "pool_agrees B p q \<longleftrightarrow> free q = free p \<and> length (metas q) = length (metas p) \<and> (\<forall>b \<in> B. metas q ! b = metas p ! b)"

lemma pool_agrees_trans: "pool_agrees B p q \<Longrightarrow> pool_agrees B q r \<Longrightarrow> pool_agrees B p r"
  by (simp add: pool_agrees_def)

lemma pool_agrees_update:
  assumes "b \<notin> B" and "free q = free p" and "metas q = (metas p)[b := m]"
  shows "pool_agrees B p q"
proof -
  have "metas q ! c = metas p ! c" if "c \<in> B" for c
    using assms(1,3) that by (metis nth_list_update_neq)
  then show ?thesis using assms(2,3) by (simp add: pool_agrees_def)
qed

lemma release_agrees: "release p b h = Some q \<Longrightarrow> b \<notin> B \<Longrightarrow> pool_agrees B p q"
  by (auto simp: release_def Let_def split: Option.bind_splits if_splits intro: pool_agrees_update)

lemma pin_agrees: "pin p b = Some q \<Longrightarrow> b \<notin> B \<Longrightarrow> pool_agrees B p q"
  by (auto simp: pin_def split: Option.bind_splits intro: pool_agrees_update)

lemma cache_block_agrees:
  assumes "cache_block b s = Some s'" and "b \<notin> B"
  shows "pool_agrees B (sc_pool s) (sc_pool s')"
proof -
  consider p1 where "release (sc_pool s) b 0 = Some p1" "pin p1 b = Some (sc_pool s')" | "sc_pool s' = sc_pool s"
    using assms(1) by (auto simp: cache_block_def Let_def split: Option.bind_splits if_splits)
  then show ?thesis
  proof cases
    case (1 p1)
    then show ?thesis using pool_agrees_trans [OF release_agrees pin_agrees] assms(2) by blast
  qed (simp add: pool_agrees_def)
qed

lemma cache_completed_agrees:
  assumes "cache_completed prompt blocks s = Some s'" and "set (take (length prompt div BLOCK_SIZE) blocks) \<inter> B = {}"
  shows "pool_agrees B (sc_pool s) (sc_pool s')"
proof (cases "min (length prompt div BLOCK_SIZE) (length blocks) = 0")
  case True
  then have "s' = s" using assms(1) by (auto simp: cache_completed_def Let_def)
  then show ?thesis by (simp add: pool_agrees_def)
next
  case False
  let ?bs = "take (min (length prompt div BLOCK_SIZE) (length blocks)) blocks"
  obtain c where f: "fold_opt cache_block ?bs (s\<lparr>sc_prefix := c\<rparr>) = Some s'"
    using assms(1) False by (auto simp: cache_completed_def Let_def split: Option.bind_splits)
  have sub: "set ?bs \<subseteq> set (take (length prompt div BLOCK_SIZE) blocks)" by (simp add: min_def)
  have "pool_agrees B (sc_pool (s\<lparr>sc_prefix := c\<rparr>)) (sc_pool s')"
  proof (rule fold_opt_invariant [where I = "\<lambda>t. pool_agrees B (sc_pool (s\<lparr>sc_prefix := c\<rparr>)) (sc_pool t)", OF f])
    show "pool_agrees B (sc_pool (s\<lparr>sc_prefix := c\<rparr>)) (sc_pool (s\<lparr>sc_prefix := c\<rparr>))" by (simp add: pool_agrees_def)
  next
    fix b t t' assume b: "b \<in> set ?bs" and t: "pool_agrees B (sc_pool (s\<lparr>sc_prefix := c\<rparr>)) (sc_pool t)" "cache_block b t = Some t'"
    have "b \<notin> B" using b sub assms(2) by blast
    then show "pool_agrees B (sc_pool (s\<lparr>sc_prefix := c\<rparr>)) (sc_pool t')"
      using pool_agrees_trans [OF t(1) cache_block_agrees [OF t(2)]] by simp
  qed
  then show ?thesis by simp
qed

text \<open>Retiring finished sequences frees no block, and a block that is not part of the whole-block prompt prefix of a
  finished sequence stays exactly as it was: the blocks that hold the unaligned tail of a prompt or its generated tokens
  remain in use although no sequence owns them any more.\<close>

theorem retirement_leaks_tail_blocks:
  assumes "retire_finished s = Some s'"
    and "\<forall>r \<in> set (running s). seq_done (sc_config s) r
           \<longrightarrow> b \<notin> set (take (length (rs_prompt r) div BLOCK_SIZE) (seq_blocks (rs_seq r)))"
  shows "available (sc_pool s') = available (sc_pool s) \<and> block_state (sc_pool s') b = block_state (sc_pool s) b"
proof -
  let ?s1 = "s\<lparr>running := filter (\<lambda>r. \<not> seq_done (sc_config s) r) (running s)\<rparr>"
  have f: "fold_opt (\<lambda>r. cache_completed (rs_prompt r) (seq_blocks (rs_seq r)))
      (filter (seq_done (sc_config s)) (running s)) ?s1 = Some s'"
    using assms(1) by (simp add: retire_finished_def)
  have "pool_agrees {b} (sc_pool s) (sc_pool s')"
  proof (rule fold_opt_invariant [where I = "\<lambda>t. pool_agrees {b} (sc_pool s) (sc_pool t)", OF f])
    show "pool_agrees {b} (sc_pool s) (sc_pool ?s1)" by (simp add: pool_agrees_def)
  next
    fix r t t'
    assume "r \<in> set (filter (seq_done (sc_config s)) (running s))" "pool_agrees {b} (sc_pool s) (sc_pool t)"
      "cache_completed (rs_prompt r) (seq_blocks (rs_seq r)) t = Some t'"
    then show "pool_agrees {b} (sc_pool s) (sc_pool t')"
      using cache_completed_agrees [of "rs_prompt r" "seq_blocks (rs_seq r)" t t' "{b}"] assms(2) pool_agrees_trans by auto
  qed
  then show ?thesis by (simp add: pool_agrees_def available_def block_state_def)
qed

theorem retirement_leaks_tail_blocks_witness:
  "\<exists>s s'. fold_opt sched_exec [Add_request (example_request [7, 8, 9] 2), Do_schedule, Step_complete 1 2] example_start = Some s
     \<and> retire_finished s = Some s' \<and> is_idle s' \<and> available (sc_pool s') = 3 \<and> block_state (sc_pool s') 0 = In_use 1"
proof -
  let ?ops = "[Add_request (example_request [7, 8, 9] 2), Do_schedule, Step_complete 1 2]"
  have one: "map_option (\<lambda>s. (block_state (sc_pool s) 0, available (sc_pool s), map (\<lambda>r. length (rs_prompt r)) (running s),
      map_option is_idle (retire_finished s))) (fold_opt sched_exec ?ops example_start) = Some (In_use 1, 3, [3], Some True)"
    by (simp add: example_simps block_state_def available_def is_idle_def)
  obtain s where s: "fold_opt sched_exec ?ops example_start = Some s \<and> (block_state (sc_pool s) 0, available (sc_pool s),
      map (\<lambda>r. length (rs_prompt r)) (running s), map_option is_idle (retire_finished s)) = (In_use 1, 3, [3], Some True)"
    using map_option_eq_Some [THEN iffD1, OF one] ..
  then obtain s' where s': "retire_finished s = Some s'" "is_idle s'" by auto
  have "\<forall>r \<in> set (running s). seq_done (sc_config s) r
           \<longrightarrow> 0 \<notin> set (take (length (rs_prompt r) div BLOCK_SIZE) (seq_blocks (rs_seq r)))"
    using s by (auto simp: BLOCK_SIZE_def)
  from retirement_leaks_tail_blocks [OF s'(1) this] s s' show ?thesis by auto
qed

end
