(* ===== verification/Pd_Scheduler.thy ===== *)
theory Pd_Scheduler
  imports Scheduler
begin

text \<open>
  The disaggregated prefill/decode scheduler of \<^verbatim>\<open>crates/justapi-inference/src/pd.rs\<close>: two schedulers with
  their own pools, and the hand-over of prefilled sequences from one to the other. The lemmas show what a
  hand-over transfers and that the two schedulers number their sequences independently, which breaks
  cancellation by id.
\<close>

record pd_scheduler =
  pd_prefill :: scheduler
  pd_decode :: scheduler
  total_transferred_tokens :: nat

record pd_stats =
  pds_prefill :: scheduler_stats
  pds_decode :: scheduler_stats
  pds_total_transferred_tokens :: nat

definition pd_new :: "scheduler_config \<Rightarrow> kv_block_pool \<Rightarrow> scheduler_config \<Rightarrow> kv_block_pool \<Rightarrow> pd_scheduler" where
  "pd_new pc pp dc dp =
     \<lparr>pd_prefill = scheduler_new pc pp, pd_decode = scheduler_new dc dp, total_transferred_tokens = 0\<rparr>"

definition pd_stats_of :: "pd_scheduler \<Rightarrow> pd_stats" where
  "pd_stats_of p =
     \<lparr>pds_prefill = sched_stats (pd_prefill p), pds_decode = sched_stats (pd_decode p),
      pds_total_transferred_tokens = total_transferred_tokens p\<rparr>"

definition pd_is_idle :: "pd_scheduler \<Rightarrow> bool" where
  "pd_is_idle p \<longleftrightarrow> is_idle (pd_prefill p) \<and> is_idle (pd_decode p)"

definition pd_add_request :: "pd_scheduler \<Rightarrow> new_request \<Rightarrow> pd_scheduler" where
  "pd_add_request p req = p\<lparr>pd_prefill := snd (add_request (pd_prefill p) req)\<rparr>"

definition schedule_prefill :: "pd_scheduler \<Rightarrow> (schedule \<times> pd_scheduler) option" where
  "schedule_prefill p = do { (sch, s) \<leftarrow> do_schedule (pd_prefill p); Some (sch, p\<lparr>pd_prefill := s\<rparr>) }"

definition on_prefill_complete :: "pd_scheduler \<Rightarrow> nat \<Rightarrow> nat \<Rightarrow> pd_scheduler" where
  "on_prefill_complete p i n = p\<lparr>pd_prefill := on_step_complete (pd_prefill p) i n\<rparr>"

definition transfer_completed :: "pd_scheduler \<Rightarrow> (nat \<times> pd_scheduler) option" where
  "transfer_completed p =
     do { (transferred, s) \<leftarrow> take_completed_prefill (pd_prefill p);
          (let total = foldl (\<lambda>a t. min u64_max (a + ts_num_prefilled t)) (total_transferred_tokens p) transferred in
           do { d \<leftarrow> fold_opt (\<lambda>t s. admit_transferred s t) transferred (pd_decode p);
                Some (length transferred,
                      p\<lparr>pd_prefill := s, pd_decode := d, total_transferred_tokens := total\<rparr>) }) }"

definition schedule_decode :: "pd_scheduler \<Rightarrow> (schedule \<times> pd_scheduler) option" where
  "schedule_decode p = do { (sch, s) \<leftarrow> do_schedule (pd_decode p); Some (sch, p\<lparr>pd_decode := s\<rparr>) }"

definition on_decode_complete :: "pd_scheduler \<Rightarrow> nat \<Rightarrow> nat \<Rightarrow> pd_scheduler" where
  "on_decode_complete p i n = p\<lparr>pd_decode := on_step_complete (pd_decode p) i n\<rparr>"

definition pd_cancel :: "pd_scheduler \<Rightarrow> nat \<Rightarrow> pd_scheduler option" where
  "pd_cancel p i =
     do { s \<leftarrow> cancel (pd_prefill p) i; d \<leftarrow> cancel (pd_decode p) i;
          Some (p\<lparr>pd_prefill := s, pd_decode := d\<rparr>) }"

section \<open>What a hand-over transfers\<close>

text \<open>
  The decode scheduler after admitting a list of transfers: its sequences, then those transfers the
  pool had room for, in order, with fresh ids counted from its own \<open>next_seq_id\<close>.
\<close>

lemma admit_transferred_effect:
  assumes "admit_transferred s t = Some s'"
  shows "next_seq_id s' = Suc (next_seq_id s) \<and> wait_queue s' = wait_queue s \<and> sc_config s' = sc_config s \<and>
    (running s' = running s \<or>
     (\<exists>r. running s' = running s @ [r] \<and> rs_id r = next_seq_id s \<and> rs_prompt r = ts_prompt t \<and> rs_params r = ts_params t
        \<and> rs_num_prefilled r = ts_num_prefilled t \<and> rs_num_generated r = ts_num_generated t \<and> rs_state r = Decoding
        \<and> num_tokens (rs_seq r) = ts_num_prefilled t + ts_num_generated t))"
proof -
  have gid: "grow_n n sq p = Some (Some sq', p') \<Longrightarrow> seq_id sq' = seq_id sq \<and> num_tokens sq' = num_tokens sq" for n sq p sq' p'
    by (induction n arbitrary: sq p) (auto split: Option.bind_splits option.splits dest!: grow_id)
  obtain r p where r: "grow_n (div_ceil (ts_num_prefilled t + ts_num_generated t) BLOCK_SIZE)
      (sequence_new (next_seq_id s)) (sc_pool s) = Some (r, p)"
    using assms by (auto simp: admit_transferred_def Let_def split: Option.bind_splits)
  show ?thesis
  proof (cases r)
    case None
    then show ?thesis using assms r by (auto simp: admit_transferred_def Let_def)
  next
    case (Some sq)
    then have "seq_id sq = next_seq_id s" "num_tokens sq = 0" using gid r by (auto simp: sequence_new_def)
    then show ?thesis using assms r Some by (auto simp: admit_transferred_def Let_def advance_def)
  qed
qed

type_synonym seq_payload = "token list \<times> sampling_params \<times> nat \<times> nat"

definition payload :: "running_seq \<Rightarrow> seq_payload" where
  "payload r = (rs_prompt r, rs_params r, rs_num_prefilled r, rs_num_generated r)"

definition ts_payload :: "transferable_sequence \<Rightarrow> seq_payload" where
  "ts_payload t = (ts_prompt t, ts_params t, ts_num_prefilled t, ts_num_generated t)"

lemma ts_payload_to_transferable [simp]: "ts_payload (to_transferable r) = payload r"
  by (simp add: ts_payload_def to_transferable_def payload_def)

lemma admit_all_effect:
  assumes "fold_opt (\<lambda>t s. admit_transferred s t) ts s = Some s'"
  shows "\<exists>kept new. length kept = length ts \<and> running s' = running s @ new
    \<and> map payload new = map ts_payload (map fst (filter snd (zip ts kept)))
    \<and> list_all (\<lambda>r. rs_state r = Decoding \<and> next_seq_id s \<le> rs_id r \<and> rs_id r < next_seq_id s') new
    \<and> next_seq_id s' = next_seq_id s + length ts"
  using assms
proof (induction ts arbitrary: s)
  case Nil
  then show ?case by simp
next
  case (Cons t ts)
  from Cons.prems obtain s1 where a: "admit_transferred s t = Some s1"
    and f: "fold_opt (\<lambda>t s. admit_transferred s t) ts s1 = Some s'" by (auto split: Option.bind_splits)
  note eff = admit_transferred_effect [OF a]
  from Cons.IH [OF f] obtain kept new where IH: "length kept = length ts" "running s' = running s1 @ new"
    "map payload new = map ts_payload (map fst (filter snd (zip ts kept)))"
    "list_all (\<lambda>r. rs_state r = Decoding \<and> next_seq_id s1 \<le> rs_id r \<and> rs_id r < next_seq_id s') new"
    "next_seq_id s' = next_seq_id s1 + length ts" by blast
  have la: "list_all (\<lambda>r. rs_state r = Decoding \<and> next_seq_id s \<le> rs_id r \<and> rs_id r < next_seq_id s') new"
    using IH(4) eff by (auto simp: list_all_iff)
  show ?case
  proof (cases "running s1 = running s")
    case True
    then show ?thesis using IH eff la by (intro exI [of _ "False # kept"] exI [of _ new]) auto
  next
    case False
    with eff obtain r where r: "running s1 = running s @ [r]" "rs_id r = next_seq_id s" "payload r = ts_payload t"
      "rs_state r = Decoding" by (auto simp: payload_def ts_payload_def)
    then show ?thesis using IH eff la by (intro exI [of _ "True # kept"] exI [of _ "r # new"]) auto
  qed
qed

lemma example_pd_step:
  "map_option (\<lambda>x. map rs_id (filter prefill_ready (running (pd_prefill (snd x)))))
     (schedule_prefill (pd_add_request (pd_add_request (pd_new example_config (pool_new 4) example_config (pool_new 4))
        (example_request (example_prompt @ [16, 17]) 4)) (example_request [7, 8, 9] 4))) = Some [2]"
  by (simp add: example_simps schedule_prefill_def pd_add_request_def pd_new_def prefill_ready_def)

text \<open>A hand-over removes from the prefill scheduler exactly the sequences whose prompt is consumed and keeps the others;
  the decode scheduler gains, behind its own sequences and in the same order, those of them its pool had room for,
  with prompt, parameters and token counts unchanged, in the decoding state and under fresh ids; the
  others are dropped.\<close>

theorem transfer_hands_over_ready_sequences:
  assumes "transfer_completed p = Some (n, p')"
  shows "running (pd_prefill p') = filter (\<lambda>r. \<not> prefill_ready r) (running (pd_prefill p))
    \<and> n = length (filter prefill_ready (running (pd_prefill p)))
    \<and> (\<exists>kept new. length kept = n \<and> running (pd_decode p') = running (pd_decode p) @ new
        \<and> map payload new = map payload (map fst (filter snd (zip (filter prefill_ready (running (pd_prefill p))) kept)))
        \<and> list_all (\<lambda>r. rs_state r = Decoding \<and> next_seq_id (pd_decode p) \<le> rs_id r) new)"
proof -
  let ?ready = "filter prefill_ready (running (pd_prefill p))"
  obtain s d where t: "take_completed_prefill (pd_prefill p) = Some (map to_transferable ?ready, s)"
    "running s = filter (\<lambda>r. \<not> prefill_ready r) (running (pd_prefill p))"
    "fold_opt (\<lambda>t s. admit_transferred s t) (map to_transferable ?ready) (pd_decode p) = Some d"
    "pd_prefill p' = s" "pd_decode p' = d" "n = length ?ready"
    using assms by (auto simp: transfer_completed_def take_completed_prefill_def Let_def split: Option.bind_splits)
  obtain kept new where k: "length kept = length ?ready" "running d = running (pd_decode p) @ new"
    "map payload new = map ts_payload (map fst (filter snd (zip (map to_transferable ?ready) kept)))"
    "list_all (\<lambda>r. rs_state r = Decoding \<and> next_seq_id (pd_decode p) \<le> rs_id r \<and> rs_id r < next_seq_id d) new"
    using admit_all_effect [OF t(3)] by auto
  have "map ts_payload (map fst (filter snd (zip (map to_transferable xs) ks)))
      = map payload (map fst (filter snd (zip xs ks)))" for xs ks
    by (induction xs arbitrary: ks) (auto simp: zip_Cons1 split: list.splits)
  then have "map payload new = map payload (map fst (filter snd (zip ?ready kept)))" using k(3) by simp
  moreover have "list_all (\<lambda>r. rs_state r = Decoding \<and> next_seq_id (pd_decode p) \<le> rs_id r) new"
    using k(4) by (auto simp: list_all_iff)
  ultimately show ?thesis using t k(1,2) by blast
qed

theorem transfer_hands_over_ready_sequences_witness:
  "\<exists>p p'. transfer_completed p = Some (1, p') \<and> length (filter prefill_ready (running (pd_prefill p))) = 1
     \<and> length (running (pd_decode p')) \<le> 1"
proof -
  let ?p = "pd_add_request (pd_new example_config (pool_new 4) example_config (pool_new 4)) (example_request [7, 8, 9] 4)"
  have one: "map_option (\<lambda>p. (length (filter prefill_ready (running (pd_prefill p))), running (pd_decode p),
      map_option fst (transfer_completed p))) (map_option snd (schedule_prefill ?p)) = Some (1, [], Some 1)"
    by (simp add: example_simps schedule_prefill_def pd_add_request_def pd_new_def prefill_ready_def
        transfer_completed_def take_completed_prefill_def hand_over_block_def admit_transferred_def
        to_transferable_def)
  then obtain p where p: "length (filter prefill_ready (running (pd_prefill p))) = 1" "running (pd_decode p) = []"
      "map_option fst (transfer_completed p) = Some 1" by auto
  then obtain p' where p': "transfer_completed p = Some (1, p')" by auto
  from transfer_hands_over_ready_sequences [OF p'] p obtain kept new where
    k: "length kept = 1" "running (pd_decode p') = new"
    and m: "map payload new = map payload (map fst (filter snd (zip (filter prefill_ready (running (pd_prefill p))) kept)))"
    by auto
  have "length new = length (filter snd (zip (filter prefill_ready (running (pd_prefill p))) kept))"
    using arg_cong [OF m, of length] by simp
  also have "\<dots> \<le> length (zip (filter prefill_ready (running (pd_prefill p))) kept)" by (rule length_filter_le)
  also have "\<dots> \<le> 1" using k(1) by simp
  finally have "length (running (pd_decode p')) \<le> 1" using k(2) by simp
  with p p' show ?thesis by blast
qed

text \<open>The two schedulers number their sequences independently, so cancelling a request by id also removes whatever
  sequence has the same id in the other pool: cancelling the first request, still in prefill, kills the second one,
  already decoding.\<close>

theorem pd_cancel_kills_unrelated_sequence:
  "let p = pd_add_request (pd_add_request (pd_new example_config (pool_new 4) example_config (pool_new 4))
             (example_request (example_prompt @ [16, 17]) 4)) (example_request [7, 8, 9] 4)
   in map_option (\<lambda>q. (running_ids (pd_prefill q), map (\<lambda>r. (rs_id r, rs_prompt r)) (running (pd_decode q)),
                        map_option pd_is_idle (pd_cancel q 1)))
        (do { (sch, p1) \<leftarrow> schedule_prefill p; (n, q) \<leftarrow> transfer_completed p1; Some q })
      = Some ([1], [(1, [7, 8, 9])], Some True)"
  by (simp add: example_simps schedule_prefill_def pd_add_request_def pd_new_def prefill_ready_def
      transfer_completed_def take_completed_prefill_def hand_over_block_def admit_transferred_def
      to_transferable_def running_ids_def pd_cancel_def cancel_def pd_is_idle_def is_idle_def)

end
