(* ===== verification/Float32.thy ===== *)
theory Float32
  imports Complex_Main "HOL-Library.Log_Nat"
begin

text \<open>
  The arithmetic of \<open>f32\<close> on finite values: a finite value is the rational number it stands for, and an operation is the exact operation
  followed by the rounding \<open>f32\<close> to the nearest value with a significand of 24 bits and an exponent of at least -149, ties to even. Overflow
  is not represented: \<open>f32_max\<close> bounds the values for which the rounding is that of the machine.

  The contract \<open>rounding\<close> holds what the proofs about floating-point code use: rounding is monotone, leaves rounded values alone and keeps zero
  and one. Its interpretation shows it for \<open>f32\<close>.
\<close>

section \<open>Rounding to single precision\<close>

definition ilog2 :: "rat \<Rightarrow> int" where
  "ilog2 x =
     (let e = bitlen (fst (quotient_of x)) - bitlen (snd (quotient_of x))
      in if 2 powi e \<le> x then e else e - 1)"

definition round_even :: "rat \<Rightarrow> int" where
  "round_even y =
     (let f = \<lfloor>y\<rfloor>; r = y - of_int f
      in if r < 1 / 2 then f else if 1 / 2 < r then f + 1 else if even f then f else f + 1)"

definition ulp_exp :: "rat \<Rightarrow> int" where
  "ulp_exp x = max (ilog2 x - 23) (- 149)"

definition f32_pos :: "rat \<Rightarrow> rat" where
  "f32_pos x = of_int (round_even (x / 2 powi ulp_exp x)) * 2 powi ulp_exp x"

definition f32 :: "rat \<Rightarrow> rat" where
  "f32 x = (if x = 0 then 0 else if x < 0 then - f32_pos (- x) else f32_pos x)"

definition f32_max :: rat where
  "f32_max = (2 - 1 / 2 ^ 23) * 2 ^ 127"

text \<open>\<open>iter().sum::<f32>()\<close>.\<close>

definition fsum :: "rat list \<Rightarrow> rat" where
  "fsum xs = foldl (\<lambda>a x. f32 (a + x)) 0 xs"

section \<open>Lemmas\<close>

lemma ilog2_bounds:
  assumes "0 < x"
  shows "2 powi ilog2 x \<le> x \<and> x < 2 powi (ilog2 x + 1)"
proof -
  obtain n d where q: "quotient_of x = (n, d)" by fastforce
  have d: "0 < d" using quotient_of_denom_pos [OF q] .
  have x: "x = of_int n / of_int d" using quotient_of_div [OF q] .
  have n: "0 < n" using assms d by (simp add: x zero_less_divide_iff)
  have bits: "2 powi (bitlen m - 1) \<le> (of_int m :: rat) \<and> of_int m < (2 powi bitlen m :: rat)" if "0 < m" for m
  proof -
    have b: "2 ^ nat (bitlen m - 1) \<le> m" "m < 2 ^ nat (bitlen m)" using bitlen_bounds [OF that] by auto
    have p: "0 < bitlen m" using b(2) that by (cases "0 < bitlen m") auto
    have "(2 :: rat) powi (bitlen m - 1) = of_int (2 ^ nat (bitlen m - 1))" "(2 :: rat) powi bitlen m = of_int (2 ^ nat (bitlen m))"
      using p by (simp_all add: power_int_def)
    then show ?thesis using b of_int_le_iff [where 'a = rat] of_int_less_iff [where 'a = rat] by metis
  qed
  let ?e = "bitlen n - bitlen d"
  note bn = bits [OF n] and bd = bits [OF d]
  have dp: "(0 :: rat) < of_int d" using d by simp
  have lo: "2 powi (?e - 1) \<le> x"
  proof -
    have "(2 :: rat) powi (?e - 1) * of_int d \<le> 2 powi (?e - 1) * 2 powi bitlen d" using bd by (intro mult_left_mono) auto
    also have "\<dots> = (2 :: rat) powi (bitlen n - 1)" by (simp add: power_int_add [symmetric])
    also have "\<dots> \<le> of_int n" using bn by simp
    finally show ?thesis using dp by (simp add: x pos_le_divide_eq)
  qed
  have hi: "x < 2 powi (?e + 1)"
  proof -
    have "of_int n < (2 :: rat) powi bitlen n" using bn by simp
    also have "\<dots> = 2 powi (?e + 1) * 2 powi (bitlen d - 1)" by (simp add: power_int_add [symmetric])
    also have "\<dots> \<le> 2 powi (?e + 1) * of_int d" using bd by (intro mult_left_mono) auto
    finally show ?thesis using dp by (simp add: x pos_divide_less_eq)
  qed
  show ?thesis using lo hi q by (auto simp: ilog2_def Let_def not_le)
qed

lemma powi_less_cancel: "(2 :: rat) powi a < 2 powi b \<Longrightarrow> a < b"
  by (meson not_le power_int_increasing one_le_numeral)

lemma ilog2_mono: "0 < x \<Longrightarrow> x \<le> y \<Longrightarrow> ilog2 x \<le> ilog2 y"
proof -
  assume a: "0 < x" "x \<le> y"
  have "2 powi ilog2 x < (2 :: rat) powi (ilog2 y + 1)" using ilog2_bounds [of x] ilog2_bounds [of y] a by linarith
  then show ?thesis using powi_less_cancel by fastforce
qed

lemma ulp_exp_mono: "0 < x \<Longrightarrow> x \<le> y \<Longrightarrow> ulp_exp x \<le> ulp_exp y"
  using ilog2_mono [of x y] by (auto simp: ulp_exp_def)

lemma round_even_of_int [simp]: "round_even (of_int k) = k"
  by (simp add: round_even_def)

lemma round_even_mono: "x \<le> y \<Longrightarrow> round_even x \<le> round_even y"
proof -
  assume a: "x \<le> y"
  then have f: "\<lfloor>x\<rfloor> \<le> \<lfloor>y\<rfloor>" by (rule floor_mono)
  show ?thesis
  proof (cases "\<lfloor>x\<rfloor> = \<lfloor>y\<rfloor>")
    case True
    then show ?thesis using a by (auto simp: round_even_def Let_def)
  next
    case False
    then have "round_even x \<le> \<lfloor>x\<rfloor> + 1" "\<lfloor>y\<rfloor> \<le> round_even y" by (auto simp: round_even_def Let_def)
    then show ?thesis using f False by linarith
  qed
qed

lemma round_even_le: "y \<le> of_int k \<Longrightarrow> round_even y \<le> k"
  using round_even_mono [of y "of_int k"] by simp

lemma round_even_ge: "of_int k \<le> y \<Longrightarrow> k \<le> round_even y"
  using round_even_mono [of "of_int k" y] by simp

lemma significand_bounds:
  assumes "0 < x"
  shows "0 < x / 2 powi ulp_exp x" and "x / 2 powi ulp_exp x < 2 ^ 24"
    and "- 149 < ulp_exp x \<Longrightarrow> 2 ^ 23 \<le> x / 2 powi ulp_exp x"
proof -
  have p: "(0 :: rat) < 2 powi ulp_exp x" by simp
  show "0 < x / 2 powi ulp_exp x" using assms p by simp
  have "x < 2 powi (ilog2 x + 1)" using ilog2_bounds [OF assms] by simp
  also have "\<dots> \<le> (2 :: rat) powi (24 + ulp_exp x)" by (rule power_int_increasing) (auto simp: ulp_exp_def)
  also have "\<dots> = 2 ^ 24 * 2 powi ulp_exp x" by (simp add: power_int_add)
  finally show "x / 2 powi ulp_exp x < 2 ^ 24" using p by (simp add: pos_divide_less_eq)
  show "2 ^ 23 \<le> x / 2 powi ulp_exp x" if "- 149 < ulp_exp x"
  proof -
    have "2 ^ 23 * 2 powi ulp_exp x = (2 :: rat) powi (23 + ulp_exp x)" by (simp add: power_int_add)
    also have "\<dots> = 2 powi ilog2 x" using that by (simp add: ulp_exp_def max_def split: if_splits)
    also have "\<dots> \<le> x" using ilog2_bounds [OF assms] by simp
    finally show ?thesis using p by (simp add: pos_le_divide_eq)
  qed
qed

lemma f32_pos_nonneg: "0 < x \<Longrightarrow> 0 \<le> f32_pos x"
  using round_even_ge [of 0 "x / 2 powi ulp_exp x"] significand_bounds(1) [of x] by (simp add: f32_pos_def)

lemma f32_pos_mono:
  assumes "0 < x" and "x \<le> y"
  shows "f32_pos x \<le> f32_pos y"
proof (cases "ulp_exp x = ulp_exp y")
  case True
  have "x / 2 powi ulp_exp y \<le> y / 2 powi ulp_exp y" using assms(2) by (intro divide_right_mono) auto
  then show ?thesis using round_even_mono by (simp add: f32_pos_def True mult_right_mono)
next
  case False
  then have lt: "ulp_exp x < ulp_exp y" using ulp_exp_mono [OF assms] by simp
  have "f32_pos x \<le> 2 ^ 24 * 2 powi ulp_exp x"
  proof -
    have "x / 2 powi ulp_exp x \<le> of_int (2 ^ 24)" using significand_bounds(2) [OF assms(1)] by simp
    from round_even_le [OF this] have "of_int (round_even (x / 2 powi ulp_exp x)) \<le> (of_int (2 ^ 24) :: rat)" by (simp only: of_int_le_iff)
    then show ?thesis unfolding f32_pos_def by (intro mult_right_mono) simp_all
  qed
  also have "\<dots> = 2 powi (24 + ulp_exp x)" by (simp add: power_int_add)
  also have "\<dots> \<le> 2 powi (23 + ulp_exp y)" using lt by (intro power_int_increasing) auto
  also have "\<dots> = 2 ^ 23 * 2 powi ulp_exp y" by (simp add: power_int_add)
  also have "\<dots> \<le> f32_pos y"
  proof -
    have "- 149 < ulp_exp y" using lt by (simp add: ulp_exp_def max_def split: if_splits)
    then have "of_int (2 ^ 23) \<le> y / 2 powi ulp_exp y" using significand_bounds(3) [of y] assms by simp
    from round_even_ge [OF this] have "(of_int (2 ^ 23) :: rat) \<le> of_int (round_even (y / 2 powi ulp_exp y))" by (simp only: of_int_le_iff)
    then show ?thesis unfolding f32_pos_def by (intro mult_right_mono) simp_all
  qed
  finally show ?thesis .
qed

text \<open>A value with a significand of at most 24 bits is rounded to itself.\<close>

lemma f32_pos_representable:
  assumes "0 < k" and "k \<le> 2 ^ 24" and "- 149 \<le> e"
  shows "f32_pos (of_int k * 2 powi e) = of_int k * 2 powi e"
proof -
  let ?x = "of_int k * 2 powi e :: rat"
  have x: "0 < ?x" using assms(1) by simp
  have "\<exists>m. ?x / 2 powi ulp_exp ?x = of_int m"
  proof (cases "k = 2 ^ 24")
    case False
    have "?x < of_int (2 ^ 24) * 2 powi e" using assms(2) False by (intro mult_strict_right_mono) (simp_all del: of_int_power)
    also have "\<dots> = 2 powi (24 + e)" by (simp add: power_int_add)
    finally have "2 powi ilog2 ?x < (2 :: rat) powi (24 + e)" using ilog2_bounds [OF x] by linarith
    then have le: "ulp_exp ?x \<le> e" using powi_less_cancel assms(3) by (fastforce simp: ulp_exp_def)
    have "?x / 2 powi ulp_exp ?x = of_int k * 2 powi (e - ulp_exp ?x)" by (simp add: power_int_diff)
    also have "\<dots> = of_int (k * 2 ^ nat (e - ulp_exp ?x))" using le by (simp add: power_int_def)
    finally show ?thesis by blast
  next
    case True
    then have xe: "?x = 2 powi (24 + e)" by (simp add: power_int_add)
    have "(2 :: rat) powi (24 + e) < 2 powi (24 + e + 1)" by (rule power_int_strict_increasing) simp_all
    then have "2 powi ilog2 ?x < (2 :: rat) powi (24 + e + 1)" using ilog2_bounds [OF x] unfolding xe by linarith
    moreover have "(2 :: rat) powi (24 + e) < 2 powi (ilog2 ?x + 1)" using ilog2_bounds [OF x] unfolding xe by linarith
    ultimately have "ilog2 ?x = 24 + e" using powi_less_cancel [of "ilog2 ?x" "24 + e + 1"] powi_less_cancel [of "24 + e" "ilog2 ?x + 1"] by linarith
    then have "ulp_exp ?x = e + 1" using assms(3) by (simp add: ulp_exp_def)
    then have "?x / 2 powi ulp_exp ?x = 2 powi 23" unfolding xe by (simp add: power_int_diff [symmetric])
    then show ?thesis by (intro exI [of _ "2 ^ 23"]) simp
  qed
  then obtain m where m: "?x / 2 powi ulp_exp ?x = of_int m" by blast
  then have "f32_pos ?x = ?x / 2 powi ulp_exp ?x * 2 powi ulp_exp ?x" unfolding f32_pos_def by simp
  then show ?thesis by simp
qed

lemma f32_pos_idem:
  assumes "0 < x" and "0 < f32_pos x"
  shows "f32_pos (f32_pos x) = f32_pos x"
proof -
  let ?k = "round_even (x / 2 powi ulp_exp x)"
  have "?k \<le> 2 ^ 24" using round_even_le [of "x / 2 powi ulp_exp x" "2 ^ 24"] significand_bounds(2) [OF assms(1)] by simp
  moreover have "0 < ?k"
  proof (rule ccontr)
    assume "\<not> 0 < ?k"
    then have "of_int ?k * 2 powi ulp_exp x \<le> (0 :: rat)" by (intro mult_nonpos_nonneg) simp_all
    then show False using assms(2) by (simp add: f32_pos_def)
  qed
  ultimately show ?thesis using f32_pos_representable [of ?k "ulp_exp x"] by (simp add: f32_pos_def ulp_exp_def)
qed

section \<open>The contract of a rounding\<close>

locale rounding =
  fixes rnd :: "rat \<Rightarrow> rat"
  assumes rnd_mono: "x \<le> y \<Longrightarrow> rnd x \<le> rnd y"
    and rnd_idem: "rnd (rnd x) = rnd x"
    and rnd_zero: "rnd 0 = 0"
    and rnd_one: "rnd 1 = 1"
begin

lemma rnd_nonneg: "0 \<le> x \<Longrightarrow> 0 \<le> rnd x"
  using rnd_mono [of 0 x] rnd_zero by simp

lemma rnd_positive: "0 < rnd x \<Longrightarrow> 0 < x"
  using rnd_mono [of x 0] rnd_zero by (cases "0 < x") auto

text \<open>A running sum that grows past a number was given a positive summand.\<close>

lemma rnd_add_positive:
  assumes "rnd c = c" and "c \<le> r" and "r < rnd (c + x)"
  shows "0 < x"
proof (rule ccontr)
  assume "\<not> 0 < x"
  then have "rnd (c + x) \<le> rnd c" by (intro rnd_mono) simp
  then show False using assms by linarith
qed

end

interpretation f32: rounding f32
proof
  show zero: "f32 0 = 0" by (simp add: f32_def)
  show "f32 1 = 1" using f32_pos_representable [of 1 0] by (simp add: f32_def)
  have neg: "f32 x \<le> 0" if "x \<le> 0" for x using that f32_pos_nonneg [of "- x"] by (auto simp: f32_def)
  have pos: "0 \<le> f32 x" if "0 \<le> x" for x using that f32_pos_nonneg [of x] by (auto simp: f32_def)
  show "f32 x \<le> f32 y" if "x \<le> y" for x y
  proof -
    consider "0 < x" | "y < 0" | "x \<le> 0" "0 \<le> y" by linarith
    then show ?thesis
    proof cases
      case 1
      then show ?thesis using f32_pos_mono [of x y] that by (simp add: f32_def)
    next
      case 2
      then show ?thesis using f32_pos_mono [of "- y" "- x"] that by (simp add: f32_def)
    next
      case 3
      then show ?thesis using neg [of x] pos [of y] by linarith
    qed
  qed
  show "f32 (f32 x) = f32 x" for x
    using f32_pos_idem [of x] f32_pos_idem [of "- x"] f32_pos_nonneg [of x] f32_pos_nonneg [of "- x"]
    by (cases x "0 :: rat" rule: linorder_cases) (auto simp: f32_def less_le)
qed

end
