(* ===== verification/Sampling.thy ===== *)
theory Sampling
  imports Model_Types Float32 "HOL-Library.Option_ord"
begin

text \<open>
  Token sampling of \<^verbatim>\<open>crates/justapi-inference\<close>: \<open>sample_token\<close> of \<^verbatim>\<open>src/spec_decode.rs\<close> and \<open>sample_token_with_params\<close> of
  \<^verbatim>\<open>src/scheduler_engine.rs\<close>, which differ in their greedy branch, their top-k and their top-p truncation.

  \<^item> Finite \<open>f32\<close> values are rationals, and the stochastic branch of the engine rounds after every operation, as in \<open>Float32\<close>; the one of
    speculative decoding is taken without rounding. A logit is masked with negative infinity, which is \<open>None\<close>, the least element of
    \<open>rat option\<close>.
  \<^item> The exponential function, the generator of uniform numbers and the partial sort of the standard library are the
    parameters \<open>expf\<close>, \<open>gen\<close> and \<open>sel\<close>; the predicates \<open>exp_like\<close>, \<open>uniform\<close> and \<open>selects\<close> state what the code relies on.
  \<^item> Both samplers take the stochastic branch \<open>draw\<close> as an argument, so that a result about greedy decoding holds for every
    draw; \<open>spec_draw\<close> and \<open>engine_draw\<close> are the branches of the code.

  The lemmas show that the engine draws only from the \<open>top_k\<close> best tokens and from the nucleus, and that the sampler of
  speculative decoding keeps one token more than \<open>top_k\<close>.
\<close>

section \<open>Greedy sampling\<close>

text \<open>\<open>max_by\<close> returns the last of several maxima.\<close>

fun argmax_from :: "nat \<Rightarrow> rat \<Rightarrow> nat \<Rightarrow> rat list \<Rightarrow> nat" where
  "argmax_from best b i [] = best"
| "argmax_from best b i (x # xs) = (if b \<le> x then argmax_from i x (i + 1) xs else argmax_from best b (i + 1) xs)"

fun argmax :: "rat list \<Rightarrow> nat" where
  "argmax [] = 0"
| "argmax (x # xs) = argmax_from 0 x 1 xs"

definition greedy :: "sampling_params \<Rightarrow> bool" where
  "greedy params \<longleftrightarrow> temperature params < 1 / 10 ^ 7"

type_synonym 'g draw = "rat list \<Rightarrow> sampling_params \<Rightarrow> 'g \<Rightarrow> token \<times> 'g"

definition sample_token :: "'g draw \<Rightarrow> 'g draw" where
  "sample_token draw logits params rng =
     (if logits = [] then (0, rng)
      else if greedy params then (of_nat (argmax logits), rng)
      else draw logits params rng)"

text \<open>The first maximum: the running maximum is replaced only by a larger value.\<close>

fun argmax_first :: "nat \<Rightarrow> nat \<Rightarrow> rat option \<Rightarrow> rat list \<Rightarrow> nat" where
  "argmax_first i best bv [] = best"
| "argmax_first i best bv (v # vs) =
     (if bv < Some v then argmax_first (i + 1) i (Some v) vs else argmax_first (i + 1) best bv vs)"

definition engine_argmax :: "rat list \<Rightarrow> token" where
  "engine_argmax logits = of_nat (argmax_first 0 0 None logits)"

definition sample_token_with_params :: "'g draw \<Rightarrow> 'g draw" where
  "sample_token_with_params draw logits params rng =
     (if temperature params \<le> 1 / 2 ^ 23 then (engine_argmax logits, rng) else draw logits params rng)"

section \<open>Stochastic sampling\<close>

text \<open>The weights of the softmax. The maximum is \<open>None\<close> only for an empty vocabulary.\<close>

definition softmax :: "(rat \<Rightarrow> rat) \<Rightarrow> rat option list \<Rightarrow> rat list" where
  "softmax expf scaled =
     (case foldl max None scaled of
        None \<Rightarrow> []
      | Some m \<Rightarrow> map (\<lambda>s. case s of None \<Rightarrow> 0 | Some x \<Rightarrow> expf (x - m)) scaled)"

text \<open>The positions of a vector, sorted by decreasing value; the sort is stable.\<close>

definition descending :: "rat list \<Rightarrow> nat list" where
  "descending xs = sort_key (\<lambda>i. - (xs ! i)) [0..<length xs]"

fun categorical :: "rat \<Rightarrow> nat \<Rightarrow> rat \<Rightarrow> rat list \<Rightarrow> nat option" where
  "categorical r i cum [] = None"
| "categorical r i cum (p # ps) = (if r < cum + p then Some i else categorical r (i + 1) (cum + p) ps)"

definition spec_top_k :: "nat \<Rightarrow> rat list \<Rightarrow> rat option list" where
  "spec_top_k k scaled =
     (if 0 < k \<and> k < length scaled
      then let kth = scaled ! (descending scaled ! min k (length scaled - 1))
           in map (\<lambda>s. if s < kth - 1 / 10 ^ 6 then None else Some s) scaled
      else map Some scaled)"

fun nucleus_cutoff :: "rat \<Rightarrow> rat \<Rightarrow> rat list \<Rightarrow> rat" where
  "nucleus_cutoff p cum [] = 1"
| "nucleus_cutoff p cum (q # qs) = (if p \<le> cum + q then q else nucleus_cutoff p (cum + q) qs)"

definition spec_top_p :: "rat \<Rightarrow> rat list \<Rightarrow> rat list" where
  "spec_top_p p probs =
     (if p < 1 \<and> 0 < sum_list probs
      then let cutoff = nucleus_cutoff p 0 (map (\<lambda>i. probs ! i / sum_list probs) (descending probs))
           in map (\<lambda>q. if q / sum_list probs < cutoff - 1 / 10 ^ 9 then 0 else q) probs
      else probs)"

definition spec_draw :: "(rat \<Rightarrow> rat) \<Rightarrow> ('g \<Rightarrow> rat \<times> 'g) \<Rightarrow> 'g draw" where
  "spec_draw expf gen logits params rng =
     (let inv = 1 / max (temperature params) (1 / 10 ^ 7);
          scaled = map (\<lambda>l. l * inv) logits;
          probs = spec_top_p (top_p params) (softmax expf (spec_top_k (top_k params) scaled));
          total = sum_list probs
      in if total \<le> 0 then (of_nat (length logits - 1), rng)
         else case gen rng of (r, rng) \<Rightarrow>
           (case categorical r 0 0 (map (\<lambda>p. p / total) probs) of
              Some i \<Rightarrow> (of_nat i, rng)
            | None \<Rightarrow> (of_nat (length logits - 1), rng)))"

text \<open>\<open>sel k scaled\<close> is the order of the positions that \<open>select_nth_unstable_by\<close> leaves.\<close>

definition engine_top_k :: "(nat \<Rightarrow> rat list \<Rightarrow> nat list) \<Rightarrow> nat \<Rightarrow> rat list \<Rightarrow> rat option list" where
  "engine_top_k sel k scaled =
     (if 0 < k \<and> k < length scaled
      then fold (\<lambda>i xs. xs[i := None]) (drop k (sel k scaled)) (map Some scaled)
      else map Some scaled)"

definition engine_softmax :: "(rat \<Rightarrow> rat) \<Rightarrow> rat option list \<Rightarrow> rat list" where
  "engine_softmax expf scaled =
     (case foldl max None scaled of
        None \<Rightarrow> []
      | Some m \<Rightarrow> map (\<lambda>s. case s of None \<Rightarrow> 0 | Some x \<Rightarrow> expf (f32 (x - m))) scaled)"

fun zero_beyond :: "rat \<Rightarrow> rat \<Rightarrow> nat list \<Rightarrow> rat list \<Rightarrow> rat list" where
  "zero_beyond p cum [] probs = probs"
| "zero_beyond p cum (i # order) probs =
     (let cum = f32 (cum + probs ! i)
      in if p \<le> cum then fold (\<lambda>j ps. ps[j := 0]) order probs else zero_beyond p cum order probs)"

definition engine_top_p :: "rat \<Rightarrow> rat list \<Rightarrow> rat list" where
  "engine_top_p p probs =
     (if p < 1
      then let probs = zero_beyond p 0 (descending probs) probs; total = fsum probs
           in if 0 < total then map (\<lambda>q. f32 (q / total)) probs else probs
      else probs)"

fun engine_categorical :: "rat \<Rightarrow> nat \<Rightarrow> rat \<Rightarrow> rat list \<Rightarrow> nat option" where
  "engine_categorical r i cum [] = None"
| "engine_categorical r i cum (p # ps) =
     (let cum = f32 (cum + p) in if r < cum then Some i else engine_categorical r (i + 1) cum ps)"

definition scaled_logits :: "rat list \<Rightarrow> sampling_params \<Rightarrow> rat list" where
  "scaled_logits logits params = (let inv_temp = f32 (1 / temperature params) in map (\<lambda>l. f32 (l * inv_temp)) logits)"

definition engine_weights :: "(nat \<Rightarrow> rat list \<Rightarrow> nat list) \<Rightarrow> (rat \<Rightarrow> rat) \<Rightarrow> rat list \<Rightarrow> sampling_params \<Rightarrow> rat list" where
  "engine_weights sel expf logits params = engine_softmax expf (engine_top_k sel (top_k params) (scaled_logits logits params))"

definition engine_draw :: "(nat \<Rightarrow> rat list \<Rightarrow> nat list) \<Rightarrow> (rat \<Rightarrow> rat) \<Rightarrow> ('g \<Rightarrow> rat \<times> 'g) \<Rightarrow> 'g draw" where
  "engine_draw sel expf gen logits params rng =
     (let weights = engine_weights sel expf logits params; total = fsum weights
      in if total \<le> 0 then (engine_argmax logits, rng)
         else let probs = engine_top_p (top_p params) (map (\<lambda>p. f32 (p / total)) weights)
              in case gen rng of (r, rng) \<Rightarrow>
                   (case engine_categorical r 0 0 probs of
                      Some i \<Rightarrow> (of_nat i, rng)
                    | None \<Rightarrow> (engine_argmax logits, rng)))"

section \<open>What the standard library provides\<close>

definition exp_like :: "(rat \<Rightarrow> rat) \<Rightarrow> bool" where
  "exp_like expf \<longleftrightarrow> expf 0 = 1 \<and> (\<forall>x. 0 \<le> expf x) \<and> (\<forall>x. - 80 \<le> x \<longrightarrow> 0 < expf x)"

definition uniform :: "('g \<Rightarrow> rat \<times> 'g) \<Rightarrow> bool" where
  "uniform gen \<longleftrightarrow> (\<forall>g. 0 \<le> fst (gen g) \<and> fst (gen g) < 1)"

definition selects :: "(nat \<Rightarrow> rat list \<Rightarrow> nat list) \<Rightarrow> bool" where
  "selects sel \<longleftrightarrow>
     (\<forall>k xs. distinct (sel k xs) \<and> set (sel k xs) = {0..<length xs} \<and>
        (\<forall>a\<in>set (take k (sel k xs)). \<forall>b\<in>set (drop k (sel k xs)). xs ! b \<le> xs ! a))"

section \<open>Lemmas\<close>

lemma engine_categorical_positive:
  assumes "engine_categorical r i cum ps = Some j" and "cum \<le> r" and "f32 cum = cum"
  shows "i \<le> j \<and> j < i + length ps \<and> 0 < ps ! (j - i)"
  using assms
proof (induction r i cum ps rule: engine_categorical.induct)
  case (2 r i cum p ps)
  show ?case
  proof (cases "r < f32 (cum + p)")
    case False
    then have "i + 1 \<le> j \<and> j < i + 1 + length ps \<and> 0 < ps ! (j - (i + 1))" using 2 by (simp add: Let_def f32.rnd_idem)
    moreover from this have "j - i = Suc (j - (i + 1))" by auto
    ultimately show ?thesis by simp
  next
    case True
    then show ?thesis using 2 f32.rnd_add_positive [OF 2(4,3) True] by (simp add: Let_def)
  qed
qed simp

lemma categorical_hits:
  assumes "\<forall>p\<in>set ps. 0 \<le> p" and "j < length ps" and "0 < ps ! j"
  shows "categorical (cum + sum_list (take j ps)) i cum ps = Some (i + j)"
  using assms
proof (induction ps arbitrary: i cum j)
  case (Cons p ps)
  then show ?case
  proof (cases j)
    case (Suc j')
    have "0 \<le> sum_list (take j' ps)" using Cons.prems(1) by (intro sum_list_nonneg) (auto dest: in_set_takeD)
    moreover have "categorical (cum + p + sum_list (take j' ps)) (i + 1) (cum + p) ps = Some (i + 1 + j')"
      using Cons Suc by (intro Cons.IH) auto
    ultimately show ?thesis using Suc by (simp add: add.assoc)
  qed simp
qed simp

lemma set_descending [simp]: "set (descending xs) = {0..<length xs}"
  by (simp add: descending_def)

lemma length_descending [simp]: "length (descending xs) = length xs"
  by (simp add: descending_def)

lemma distinct_descending [simp]: "distinct (descending xs)"
  by (simp add: descending_def)

lemma descending_nth_mono: "a \<le> b \<Longrightarrow> b < length xs \<Longrightarrow> xs ! (descending xs ! b) \<le> xs ! (descending xs ! a)"
  using sorted_sort_key [of "\<lambda>i. - (xs ! i)" "[0..<length xs]"]
  unfolding descending_def [symmetric] sorted_iff_nth_mono by auto

lemma fold_update_nth:
  "t < length ys \<Longrightarrow> fold (\<lambda>i xs. xs[i := v]) is ys ! t = (if t \<in> set is then v else ys ! t)"
  by (induction "is" arbitrary: ys) auto

lemma length_fold_update [simp]: "length (fold (\<lambda>i xs. xs[i := v]) is ys) = length ys"
  by (induction "is" arbitrary: ys) auto

lemma foldl_max_ge: "x \<in> set xs \<or> x \<le> a \<Longrightarrow> x \<le> foldl max a (xs :: 'a :: linorder list)"
  by (induction xs arbitrary: a) (auto simp: le_max_iff_disj)

lemma foldl_max_mem: "foldl max a xs = a \<or> foldl max a xs \<in> set (xs :: 'a :: linorder list)"
proof (induction xs arbitrary: a)
  case (Cons x xs)
  then show ?case using Cons.IH [of "max a x"] by (auto simp: max_def)
qed simp

lemma softmax_facts:
  assumes "exp_like expf" and "Some x \<in> set scaled"
  obtains m where "softmax expf scaled = map (\<lambda>s. case s of None \<Rightarrow> 0 | Some x \<Rightarrow> expf (x - m)) scaled"
    and "Some m \<in> set scaled" and "0 < sum_list (softmax expf scaled)" and "\<forall>p\<in>set (softmax expf scaled). 0 \<le> p"
    and "\<forall>x. Some x \<in> set scaled \<longrightarrow> x \<le> m"
proof -
  have "Some x \<le> foldl max None scaled" using assms(2) by (simp add: foldl_max_ge)
  then obtain m where m: "foldl max None scaled = Some m" by (cases "foldl max None scaled") auto
  then have sm: "softmax expf scaled = map (\<lambda>s. case s of None \<Rightarrow> 0 | Some x \<Rightarrow> expf (x - m)) scaled"
    by (simp add: softmax_def)
  have mem: "Some m \<in> set scaled" using foldl_max_mem [of None scaled] m by auto
  have nn: "\<forall>p\<in>set (softmax expf scaled). 0 \<le> p"
    using assms(1) by (auto simp: sm exp_like_def split: option.splits)
  have "expf (m - m) \<in> set (softmax expf scaled)" using mem by (force simp: sm)
  then have "1 \<le> sum_list (softmax expf scaled)"
    using nn assms(1) member_le_sum_list [of 1 "softmax expf scaled"] by (simp add: exp_like_def)
  moreover have "\<forall>x. Some x \<in> set scaled \<longrightarrow> x \<le> m"
    using foldl_max_ge [of _ scaled None] m by fastforce
  ultimately show ?thesis using that [OF sm mem _ nn] by simp
qed

section \<open>The engine samples from the top k and the nucleus\<close>

lemma zero_beyond_length [simp]: "length (zero_beyond p cum order probs) = length probs"
  by (induction p cum order probs rule: zero_beyond.induct) (auto simp: Let_def)

lemma zero_beyond_le:
  "t < length probs \<Longrightarrow> zero_beyond p cum order probs ! t = probs ! t \<or> zero_beyond p cum order probs ! t = 0"
  by (induction p cum order probs rule: zero_beyond.induct) (auto simp: Let_def fold_update_nth)

text \<open>A position that keeps a positive probability is reached before the running sum in front of it has come to \<open>p\<close>.\<close>

lemma zero_beyond_positive:
  assumes "0 < zero_beyond p cum order probs ! t" and "t \<in> set order" and "distinct order"
    and "\<forall>i\<in>set order. i < length probs" and "cum < p"
  shows "\<exists>before after. order = before @ t # after \<and> foldl (\<lambda>a x. f32 (a + x)) cum (map (\<lambda>i. probs ! i) before) < p"
  using assms
proof (induction p cum order probs rule: zero_beyond.induct)
  case (2 p cum i order probs)
  show ?case
  proof (cases "t = i")
    case True
    then show ?thesis using 2 by (intro exI [of _ "[]"] exI [of _ order]) simp
  next
    case False
    then have t: "t \<in> set order" "t < length probs" using 2 by auto
    then have lt: "\<not> p \<le> f32 (cum + probs ! i)" using 2(2) by (auto simp: Let_def fold_update_nth split: if_splits)
    then obtain before after where "order = before @ t # after"
      "foldl (\<lambda>a x. f32 (a + x)) (f32 (cum + probs ! i)) (map (\<lambda>i. probs ! i) before) < p"
      using 2 t by (auto simp: Let_def)
    then show ?thesis by (intro exI [of _ "i # before"] exI [of _ after]) simp
  qed
qed simp

lemma better_before:
  assumes "descending probs = before @ t # after" and "j < length probs" and "probs ! t < probs ! j"
  shows "j \<in> set before"
proof -
  have "j \<in> set (descending probs)" using assms(2) by simp
  then obtain b where b: "b < length probs" "descending probs ! b = j" by (metis in_set_conv_nth length_descending)
  have "length before < length (descending probs)" by (simp add: assms(1) del: length_descending)
  then have "b < length before"
    using descending_nth_mono [of "length before" b probs] assms b by (fastforce simp: nth_append not_less)
  then show ?thesis using b assms(1) by (auto simp: nth_append)
qed

lemma engine_top_k_facts:
  assumes "selects sel" and "t < length scaled" and "engine_top_k sel k scaled ! t = Some x" and "0 < k"
  shows "x = scaled ! t \<and> card {j. j < length scaled \<and> scaled ! t < scaled ! j} < k"
proof (cases "k < length scaled")
  case True
  let ?idx = "sel k scaled"
  have idx: "distinct ?idx" "set ?idx = {0..<length scaled}"
    "\<And>a b. a \<in> set (take k ?idx) \<Longrightarrow> b \<in> set (drop k ?idx) \<Longrightarrow> scaled ! b \<le> scaled ! a"
    using assms(1) by (auto simp: selects_def)
  have x: "x = scaled ! t" "t \<notin> set (drop k ?idx)"
    using assms(2-4) True by (auto simp: engine_top_k_def fold_update_nth split: if_splits)
  have split: "set ?idx = set (take k ?idx) \<union> set (drop k ?idx)" by (metis append_take_drop_id set_append)
  then have t: "t \<in> set (take k ?idx)" using x idx(2) assms(2) by auto
  have "{j. j < length scaled \<and> scaled ! t < scaled ! j} \<subseteq> set (take k ?idx) - {t}"
  proof clarsimp
    fix j assume j: "j < length scaled" "scaled ! t < scaled ! j"
    then have "j \<notin> set (drop k ?idx)" using idx(3) [OF t, of j] by auto
    then show "j \<in> set (take k ?idx) \<and> j \<noteq> t" using split idx(2) j by auto
  qed
  then have "card {j. j < length scaled \<and> scaled ! t < scaled ! j} \<le> card (set (take k ?idx) - {t})"
    by (intro card_mono) auto
  also have "\<dots> < k"
  proof -
    have "0 < card (set (take k ?idx))" using t assms(4) by (auto simp: card_gt_0_iff)
    then show ?thesis using t card_length [of "take k ?idx"] by auto
  qed
  finally show ?thesis using x by simp
next
  case False
  have "t \<in> {0..<length scaled} - {j. j < length scaled \<and> scaled ! t < scaled ! j}" using assms(2) by simp
  then have "{j. j < length scaled \<and> scaled ! t < scaled ! j} \<subset> {0..<length scaled}" by force
  then have "card {j. j < length scaled \<and> scaled ! t < scaled ! j} < card {0..<length scaled}"
    by (intro psubset_card_mono) auto
  then show ?thesis using False assms(2,3) by (simp add: engine_top_k_def)
qed

lemma length_engine_top_k [simp]: "length (engine_top_k sel k scaled) = length scaled"
  by (simp add: engine_top_k_def)

lemma engine_softmax_masked: "t < length (engine_softmax expf scaled) \<Longrightarrow> scaled ! t = None \<Longrightarrow> engine_softmax expf scaled ! t = 0"
  by (auto simp: engine_softmax_def split: option.splits)

lemma length_engine_softmax_le: "length (engine_softmax expf scaled) \<le> length scaled"
  by (simp add: engine_softmax_def split: option.splits)

text \<open>A token that keeps a positive probability is in the nucleus.\<close>

lemma engine_top_p_positive:
  assumes "t < length probs" and "0 < engine_top_p p probs ! t"
  shows "0 < probs ! t" and "0 < p \<Longrightarrow> p < 1 \<Longrightarrow> \<exists>before. distinct before \<and> t \<notin> set before \<and>
    (\<forall>j < length probs. probs ! t < probs ! j \<longrightarrow> j \<in> set before) \<and> fsum (map (\<lambda>j. probs ! j) before) < p"
proof -
  let ?ps = "zero_beyond p 0 (descending probs) probs"
  have ps: "0 < ?ps ! t" if "p < 1"
  proof (cases "0 < fsum ?ps")
    case True
    then have "0 < f32 (?ps ! t / fsum ?ps)" using assms that by (simp add: engine_top_p_def Let_def)
    from f32.rnd_positive [OF this] show ?thesis using True by (simp add: zero_less_divide_iff)
  qed (use assms that in \<open>simp add: engine_top_p_def Let_def\<close>)
  show "0 < probs ! t"
  proof (cases "p < 1")
    case True
    then show ?thesis using ps zero_beyond_le [OF assms(1), of p 0 "descending probs"] by auto
  qed (use assms(2) in \<open>simp add: engine_top_p_def\<close>)
  assume p: "0 < p" "p < 1"
  obtain before after where b: "descending probs = before @ t # after" "fsum (map (\<lambda>j. probs ! j) before) < p"
    using zero_beyond_positive [OF ps [OF p(2)]] assms(1) p(1) by (auto simp: fsum_def)
  have "distinct (before @ t # after)" unfolding b(1) [symmetric] by simp
  then show "\<exists>before. distinct before \<and> t \<notin> set before \<and>
      (\<forall>j < length probs. probs ! t < probs ! j \<longrightarrow> j \<in> set before) \<and> fsum (map (\<lambda>j. probs ! j) before) < p"
    using b better_before [OF b(1)] by (intro exI [of _ before]) auto
qed

lemma length_engine_top_p [simp]: "length (engine_top_p p probs) = length probs"
  by (simp add: engine_top_p_def Let_def)

text \<open>The greedy token has the largest logit.\<close>

lemma argmax_first_spec:
  "(argmax_first i best bv vs = best \<and> (\<forall>v\<in>set vs. Some v \<le> bv)) \<or>
   (\<exists>k < length vs. argmax_first i best bv vs = i + k \<and> bv < Some (vs ! k) \<and> (\<forall>v\<in>set vs. v \<le> vs ! k))"
proof (induction i best bv vs rule: argmax_first.induct)
  case (2 i best bv v vs)
  show ?case
  proof (cases "bv < Some v")
    case True
    consider "argmax_first (i + 1) i (Some v) vs = i" "\<forall>u\<in>set vs. Some u \<le> Some v"
      | k where "k < length vs" "argmax_first (i + 1) i (Some v) vs = i + 1 + k" "Some v < Some (vs ! k)" "\<forall>u\<in>set vs. u \<le> vs ! k"
      using 2(1) [OF True] by blast
    then show ?thesis
    proof cases
      case 1
      then show ?thesis using True by (intro disjI2 exI [of _ 0]) auto
    next
      case (2 k)
      then show ?thesis using True by (intro disjI2 exI [of _ "Suc k"]) (auto intro: less_trans)
    qed
  next
    case False
    consider "argmax_first (i + 1) best bv vs = best" "\<forall>u\<in>set vs. Some u \<le> bv"
      | k where "k < length vs" "argmax_first (i + 1) best bv vs = i + 1 + k" "bv < Some (vs ! k)" "\<forall>u\<in>set vs. u \<le> vs ! k"
      using 2(2) [OF False] by blast
    then show ?thesis
    proof cases
      case 1
      then show ?thesis using False by auto
    next
      case (2 k)
      have "Some v \<le> Some (vs ! k)" using False 2(3) by (metis le_less_linear less_imp_le order.trans)
      then show ?thesis using False 2 by (intro disjI2 exI [of _ "Suc k"]) auto
    qed
  qed
qed simp

lemma engine_argmax_max:
  assumes "logits \<noteq> []"
  shows "\<exists>t < length logits. engine_argmax logits = of_nat t \<and> (\<forall>j < length logits. logits ! j \<le> logits ! t)"
proof -
  obtain v where "v \<in> set logits" using assms by (cases logits) auto
  then obtain k where "k < length logits" "argmax_first 0 0 None logits = k" "\<forall>v\<in>set logits. v \<le> logits ! k"
    using argmax_first_spec [of 0 0 None logits] by auto
  then show ?thesis by (intro exI [of _ k]) (simp add: engine_argmax_def)
qed

lemma scaled_logits_mono:
  assumes "0 < temperature params" and "j < length logits" and "t < length logits" and "logits ! j \<le> logits ! t"
  shows "scaled_logits logits params ! j \<le> scaled_logits logits params ! t"
proof -
  have "0 \<le> f32 (1 / temperature params)" using assms(1) by (intro f32.rnd_nonneg) simp
  then show ?thesis using assms by (auto simp: scaled_logits_def Let_def intro!: f32.rnd_mono mult_right_mono)
qed

lemma length_scaled_logits [simp]: "length (scaled_logits logits params) = length logits"
  by (simp add: scaled_logits_def Let_def)

text \<open>C7: the scheduler-backed engine samples only tokens its parameters allow, in single-precision arithmetic with its rounding. At a
  positive temperature, as long as the scaled logits stay finite, the drawn token is a token of the vocabulary. Fewer than \<open>top_k\<close> tokens have a
  larger scaled logit, when \<open>top_k\<close> is set. The token has the largest logit of all, or, when \<open>top_p\<close> is below one, it is in the nucleus: the tokens with a larger
  probability are among some whose probabilities, added up in single precision, stay below \<open>top_p\<close>.\<close>

theorem engine_samples_top_k_nucleus:
  assumes "selects sel" and "uniform gen" and "logits \<noteq> []" and "0 < temperature params"
    and "\<forall>x\<in>set (scaled_logits logits params). \<bar>x\<bar> \<le> f32_max / 2"
    and "w = engine_weights sel expf logits params" and "probs = map (\<lambda>p. f32 (p / fsum w)) w"
  shows "\<exists>t < length logits. fst (engine_draw sel expf gen logits params rng) = of_nat t \<and>
    (0 < top_k params \<longrightarrow>
       card {j. j < length logits \<and> scaled_logits logits params ! t < scaled_logits logits params ! j} < top_k params) \<and>
    ((\<forall>j < length logits. logits ! j \<le> logits ! t) \<or>
     (0 < top_p params \<and> top_p params < 1 \<longrightarrow>
       (\<exists>before. distinct before \<and> t \<notin> set before \<and> (\<forall>j < length probs. probs ! t < probs ! j \<longrightarrow> j \<in> set before) \<and>
          fsum (map (\<lambda>j. probs ! j) before) < top_p params)))"
proof -
  let ?scaled = "scaled_logits logits params"
  obtain t0 where t0: "t0 < length logits" "engine_argmax logits = of_nat t0" "\<forall>j < length logits. logits ! j \<le> logits ! t0"
    using engine_argmax_max [OF assms(3)] by blast
  have "\<not> ?scaled ! t0 < ?scaled ! j" if "j < length logits" for j
    using scaled_logits_mono [OF assms(4) that t0(1)] t0(3) that by (simp add: not_less)
  then have "{j. j < length logits \<and> ?scaled ! t0 < ?scaled ! j} = {}" by blast
  then have greedy: ?thesis if "fst (engine_draw sel expf gen logits params rng) = engine_argmax logits"
    using that t0 by (intro exI [of _ t0]) (simp only: card.empty, simp)
  show ?thesis
  proof (cases "fsum w \<le> 0")
    case True
    then show ?thesis by (intro greedy) (simp add: engine_draw_def Let_def assms(6) [symmetric])
  next
    case False
    obtain r rng' where r: "gen rng = (r, rng')" by (cases "gen rng")
    have r0: "0 \<le> r" using assms(2) r by (auto simp: uniform_def dest: spec [of _ rng])
    show ?thesis
    proof (cases "engine_categorical r 0 0 (engine_top_p (top_p params) probs)")
      case None
      then show ?thesis using False r by (intro greedy) (simp add: engine_draw_def Let_def assms(6,7) [symmetric])
    next
      case (Some t)
      then have draw: "fst (engine_draw sel expf gen logits params rng) = of_nat t"
        using False r by (simp add: engine_draw_def Let_def assms(6,7) [symmetric])
      have t: "t < length probs" "0 < engine_top_p (top_p params) probs ! t"
        using engine_categorical_positive [OF Some r0 f32.rnd_zero] by auto
      have wt: "t < length w" using t(1) by (simp add: assms(7))
      have "length w \<le> length logits" using length_engine_softmax_le by (simp add: assms(6) engine_weights_def) (metis length_engine_top_k length_scaled_logits)
      then have tl: "t < length logits" using wt by simp
      have "0 < f32 (w ! t / fsum w)" using engine_top_p_positive(1) [OF t] wt by (simp add: assms(7))
      from f32.rnd_positive [OF this] have "0 < w ! t" using False by (simp add: zero_less_divide_iff)
      then obtain x where "engine_top_k sel (top_k params) ?scaled ! t = Some x"
        using engine_softmax_masked [of t expf] wt by (cases "engine_top_k sel (top_k params) ?scaled ! t") (auto simp: assms(6) engine_weights_def)
      then have "card {j. j < length logits \<and> ?scaled ! t < ?scaled ! j} < top_k params" if "0 < top_k params"
        using engine_top_k_facts [OF assms(1), of t ?scaled "top_k params" x] that tl by simp
      then show ?thesis using draw tl engine_top_p_positive(2) [OF t] by (intro exI [of _ t]) blast
    qed
  qed
qed

definition exp_example :: "rat \<Rightarrow> rat" where
  "exp_example x = (if 0 \<le> x then 1 + x else 1 / (1 - x))"

lemma exp_example_like: "exp_like exp_example"
  by (auto simp: exp_like_def exp_example_def)

lemma descending_selects: "selects (\<lambda>k xs. descending xs)"
proof -
  have "xs ! b \<le> xs ! a" if "a \<in> set (take k (descending xs))" "b \<in> set (drop k (descending xs))" for k a b and xs :: "rat list"
    using that descending_nth_mono [of _ _ xs] by (fastforce simp: in_set_conv_nth)
  then show ?thesis by (simp add: selects_def)
qed

theorem engine_samples_top_k_nucleus_witness:
  "\<exists>t < 3. fst (engine_draw (\<lambda>k xs. descending xs) exp_example (\<lambda>g. (9 / 10, g)) [1, 3, 2]
      (sampling_params_default\<lparr>top_k := 2\<rparr>) ()) = of_nat t \<and> card {j. j < 3 \<and> [1, 3, 2] ! t < [1, 3, 2 :: rat] ! j} < 2"
proof -
  let ?p = "sampling_params_default\<lparr>top_k := 2\<rparr>"
  have u: "uniform (\<lambda>g. (9 / 10, g))" by (simp add: uniform_def)
  have f: "f32 1 = 1" "f32 3 = 3" "f32 2 = 2" by code_simp+
  then have s: "scaled_logits [1, 3, 2] ?p = [1, 3, 2]" by (simp add: scaled_logits_def sampling_params_default_def)
  then have m: "\<forall>x\<in>set (scaled_logits [1, 3, 2] ?p). \<bar>x\<bar> \<le> f32_max / 2" by (simp add: f32_max_def)
  have n: "[1, 3, 2] \<noteq> ([] :: rat list)" "0 < temperature ?p" by (simp_all add: sampling_params_default_def)
  from engine_samples_top_k_nucleus [OF descending_selects u n m refl refl, where expf = exp_example and rng = "()"]
  show ?thesis unfolding s by (auto simp: numeral_3_eq_3)
qed

text \<open>Two logits may have one scaled value: then the larger one is no better for the truncation, and \<open>top_k\<close> of one may keep the smaller.\<close>

lemma scaled_logits_collide:
  "f32 a = a \<and> f32 b = b \<and> a < b \<and> scaled_logits [a, b] (sampling_params_default\<lparr>temperature := t\<rparr>) ! 0 =
     scaled_logits [a, b] (sampling_params_default\<lparr>temperature := t\<rparr>) ! 1"
  if "a = 16357787 / 8388608" and "b = 4089447 / 2097152" and "t = 15938355 / 8388608"
  unfolding that by code_simp

section \<open>Speculative decoding keeps one token too many\<close>

lemma better_are_first:
  assumes "distinct xs" and "k < length xs"
  shows "{j. j < length xs \<and> xs ! (descending xs ! k) < xs ! j} = set (take k (descending xs))"
proof (intro equalityI subsetI)
  fix j assume "j \<in> {j. j < length xs \<and> xs ! (descending xs ! k) < xs ! j}"
  then show "j \<in> set (take k (descending xs))"
    using better_before [of xs "take k (descending xs)" "descending xs ! k" "drop (Suc k) (descending xs)" j] assms(2)
    by (simp add: id_take_nth_drop [symmetric])
next
  fix j assume "j \<in> set (take k (descending xs))"
  then obtain a where a: "a < k" "descending xs ! a = j" using assms(2) by (auto simp: in_set_conv_nth)
  have j: "j < length xs" "descending xs ! k < length xs"
    using a assms(2) nth_mem [of _ "descending xs"] by fastforce+
  have "j \<noteq> descending xs ! k" using a assms(2) by (auto simp: nth_eq_iff_index_eq)
  then have "xs ! j \<noteq> xs ! (descending xs ! k)" using assms(1) j by (simp add: nth_eq_iff_index_eq)
  then show "j \<in> {j. j < length xs \<and> xs ! (descending xs ! k) < xs ! j}"
    using descending_nth_mono [of a k xs] a assms(2) j by auto
qed

lemma take_sum_le:
  fixes ps :: "rat list"
  assumes "\<forall>p\<in>set ps. 0 \<le> p" and "j < length ps"
  shows "0 \<le> sum_list (take j ps)" and "sum_list (take j ps) + ps ! j \<le> sum_list ps"
proof -
  show "0 \<le> sum_list (take j ps)" using assms(1) by (intro sum_list_nonneg) (auto dest: in_set_takeD)
  have "0 \<le> sum_list (drop (Suc j) ps)" using assms(1) by (intro sum_list_nonneg) (auto dest: in_set_dropD)
  moreover have "sum_list ps = sum_list (take j ps @ ps ! j # drop (Suc j) ps)" using assms(2) by (simp add: id_take_nth_drop [symmetric])
  ultimately show "sum_list (take j ps) + ps ! j \<le> sum_list ps" by simp
qed

text \<open>\<open>sample_token\<close> of speculative decoding, asked for the \<open>top_k\<close> best tokens, also draws the one after them. For distinct logits
  there is a uniform number for which the drawn token has \<open>top_k\<close> better ones; with \<open>top_k\<close> one, sampling is not greedy.\<close>

theorem spec_top_k_keeps_one_too_many:
  assumes "exp_like expf" and "distinct logits" and "0 < top_k params" and "top_k params < length logits" and "1 \<le> top_p params"
    and "\<not> greedy params" and "\<And>a b. a \<in> set logits \<Longrightarrow> b \<in> set logits \<Longrightarrow> a - b \<le> 80 * temperature params"
  shows "\<exists>r t. 0 \<le> r \<and> r < 1 \<and> t < length logits \<and>
    fst (sample_token (spec_draw expf (\<lambda>g. (r, g))) logits params rng) = of_nat t \<and>
    card {j. j < length logits \<and> logits ! t < logits ! j} = top_k params"
proof -
  let ?k = "top_k params" and ?T = "temperature params"
  have T: "0 < ?T" "max ?T (1 / 10 ^ 7) = ?T" using assms(6) by (auto simp: greedy_def max_def)
  define scaled where "scaled = map (\<lambda>l. l * (1 / ?T)) logits"
  define t where "t = descending scaled ! ?k"
  have len: "length scaled = length logits" by (simp add: scaled_def)
  have d: "distinct scaled" using assms(2) T(1) by (simp add: scaled_def distinct_map inj_on_def)
  have t: "t < length logits" using assms(4) nth_mem [of ?k "descending scaled"] len by (fastforce simp: t_def)
  have "{j. j < length logits \<and> logits ! t < logits ! j} = {j. j < length scaled \<and> scaled ! t < scaled ! j}"
    using t T(1) by (auto simp: scaled_def divide_less_cancel)
  also have "\<dots> = set (take ?k (descending scaled))"
    unfolding t_def by (rule better_are_first) (use d len assms(4) in auto)
  finally have card: "card {j. j < length logits \<and> logits ! t < logits ! j} = ?k"
    using assms(4) len by (simp add: distinct_card)
  define cut where "cut = spec_top_k ?k scaled"
  have "min ?k (length scaled - 1) = ?k" using assms(4) len by simp
  then have cut: "cut = map (\<lambda>s. if s < scaled ! t - 1 / 10 ^ 6 then None else Some s) scaled"
    using assms(3,4) len by (simp add: cut_def spec_top_k_def t_def)
  then have ct: "cut ! t = Some (scaled ! t)" "length cut = length logits" using t len by auto
  then have "Some (scaled ! t) \<in> set cut" using t by (metis nth_mem)
  then obtain m where m: "softmax expf cut = map (\<lambda>s. case s of None \<Rightarrow> 0 | Some x \<Rightarrow> expf (x - m)) cut" "Some m \<in> set cut"
    "0 < sum_list (softmax expf cut)" "\<forall>p\<in>set (softmax expf cut). 0 \<le> p"
    using softmax_facts [OF assms(1)] by metis
  obtain l where l: "l \<in> set logits" "m = l / ?T" using m(2) cut by (auto simp: scaled_def split: if_splits)
  have "l - logits ! t \<le> 80 * ?T" using assms(7) l t by simp
  then have "- 80 \<le> scaled ! t - m" using T(1) t l by (simp add: scaled_def field_simps)
  then have wt: "0 < softmax expf cut ! t" using assms(1) m(1) ct t by (simp add: exp_like_def)
  define probs where "probs = map (\<lambda>p. p / sum_list (softmax expf cut)) (softmax expf cut)"
  have probs: "\<forall>q\<in>set probs. 0 \<le> q" "sum_list probs = 1" "t < length probs" "0 < probs ! t"
    using m wt ct t sum_list_mult_const [of "\<lambda>q. q" "inverse (sum_list (softmax expf cut))" "softmax expf cut"]
    by (auto simp: probs_def divide_inverse)
  let ?r = "sum_list (take t probs)"
  have r: "0 \<le> ?r" "?r < 1" using take_sum_le [OF probs(1,3)] probs(2,4) by auto
  have "categorical ?r 0 0 probs = Some t" using categorical_hits [OF probs(1,3,4), of 0 0] by simp
  moreover have "spec_top_p (top_p params) (softmax expf cut) = softmax expf cut" using assms(5) by (simp add: spec_top_p_def)
  moreover have "logits \<noteq> []" using t by auto
  ultimately have "fst (sample_token (spec_draw expf (\<lambda>g. (?r, g))) logits params rng) = of_nat t"
    using assms(6) m(3)
    unfolding sample_token_def spec_draw_def T(2) Let_def scaled_def [symmetric] cut_def [symmetric] probs_def by simp
  then show ?thesis using r t card by blast
qed

theorem spec_top_k_keeps_one_too_many_witness:
  "\<exists>r t. 0 \<le> r \<and> r < 1 \<and> t < 3 \<and>
    fst (sample_token (spec_draw exp_example (\<lambda>g. (r, g))) [1, 3, 2] (sampling_params_default\<lparr>top_k := 1\<rparr>) ()) = of_nat t \<and>
    card {j. j < 3 \<and> [1, 3, 2 :: rat] ! t < [1, 3, 2] ! j} = 1"
proof -
  let ?p = "sampling_params_default\<lparr>top_k := 1\<rparr>"
  have "\<not> greedy ?p" "0 < top_k ?p" "top_k ?p < length [1, 3, 2 :: rat]" "1 \<le> top_p ?p" "distinct [1, 3, 2 :: rat]"
    by (simp_all add: sampling_params_default_def greedy_def)
  moreover have "a - b \<le> 80 * temperature ?p" if "a \<in> set [1, 3, 2]" "b \<in> set [1, 3, 2]" for a b
    using that by (auto simp: sampling_params_default_def)
  ultimately show ?thesis
    using spec_top_k_keeps_one_too_many [OF exp_example_like, of "[1, 3, 2]" ?p "()"] by (simp add: numeral_3_eq_3)
qed

end
