(* ===== verification/Spec_Decode.thy ===== *)
theory Spec_Decode
  imports Sampling
begin

text \<open>
  Speculative decoding: \<^verbatim>\<open>crates/justapi-inference/src/spec_decode.rs\<close> (a draft model proposes a block of tokens) and
  \<^verbatim>\<open>crates/justapi-inference/src/spec_decode_tree.rs\<close> (the draft proposes a tree of tokens).

  \<^item> A model is its function from contexts to logits, which may fail; finite \<open>f32\<close> logits are rationals.
  \<^item> Tokens are sampled by \<open>sample_token\<close> of \<open>Sampling\<close>. Its stochastic branch is the argument \<open>draw\<close>, which in the code is
    \<open>spec_draw\<close>; what is shown of greedy decoding holds for every draw.
  \<^item> The state of a run is the context, the tokens emitted so far as the sink received them, the statistics and the
    random generator. Each round emits a token, so \<open>max_tokens\<close> rounds are enough fuel for the outer loop.

  The lemmas show that greedy speculation gives exactly the tokens of plain decoding with the target model, for the
  draft scheme as long as the target picks no stop token, for the tree scheme always, and that the draft scheme
  misses a stop token that comes as a correction.
\<close>

section \<open>Models and statistics\<close>

type_synonym forward = "token list \<Rightarrow> model_error + rat list"

record acceptance_stats =
  steps :: nat
  total_draft :: nat
  total_accepted :: nat
  extra_emitted :: nat
  tree_branch :: nat
  tree_nodes_verified :: nat

definition stats_default :: acceptance_stats where
  "stats_default = \<lparr>steps = 0, total_draft = 0, total_accepted = 0, extra_emitted = 0, tree_branch = 0, tree_nodes_verified = 0\<rparr>"

definition with_tree_branch :: "nat \<Rightarrow> acceptance_stats" where
  "with_tree_branch branch = stats_default\<lparr>tree_branch := branch\<rparr>"

definition tokens_emitted :: "acceptance_stats \<Rightarrow> nat" where
  "tokens_emitted s = total_accepted s + extra_emitted s"

text \<open>The quotient before rounding to \<open>f64\<close>.\<close>

definition acceptance_rate :: "acceptance_stats \<Rightarrow> rat" where
  "acceptance_rate s = (if total_draft s = 0 then 0 else of_nat (total_accepted s) / of_nat (total_draft s))"

record 'g decode_state =
  ds_context :: "token list"
  ds_emitted :: nat
  ds_out :: "generated_token list"
  ds_stats :: acceptance_stats
  ds_rng :: 'g

definition mk_token :: "token \<Rightarrow> finish_reason option \<Rightarrow> generated_token" where
  "mk_token tok reason = \<lparr>gt_id = tok, gt_text = detokenize [tok], gt_logprob = 0, gt_finish_reason = reason\<rparr>"

text \<open>Hand a token to the sink; \<open>None\<close> if it refuses.\<close>

definition emit :: "sink \<Rightarrow> generated_token \<Rightarrow> 'g decode_state \<Rightarrow> 'g decode_state option" where
  "emit sink t s =
     (if sink (ds_out s) t
      then Some (s\<lparr>ds_out := ds_out s @ [t], ds_emitted := ds_emitted s + 1, ds_context := ds_context s @ [gt_id t]\<rparr>)
      else None)"

section \<open>Draft-target speculation\<close>

fun draft_phase ::
  "'g draw \<Rightarrow> forward \<Rightarrow> sampling_params \<Rightarrow> nat \<Rightarrow> nat \<Rightarrow> token list \<Rightarrow> token list \<Rightarrow> 'g \<Rightarrow> model_error + token list \<times> 'g" where
  "draft_phase draw draft params emitted 0 dctx toks rng = Inr (toks, rng)"
| "draft_phase draw draft params emitted (Suc n) dctx toks rng =
     (if max_tokens params \<le> emitted + length toks then Inr (toks, rng)
      else (case draft dctx of
              Inl e \<Rightarrow> Inl e
            | Inr logits \<Rightarrow>
                (case sample_token draw logits params rng of (tok, rng) \<Rightarrow>
                   if tok \<in> set (stop_tokens params) then Inr (toks, rng)
                   else draft_phase draw draft params emitted n (dctx @ [tok]) (toks @ [tok]) rng)))"

datatype block_end = All_accepted | Rejected | Sink_closed

fun verify_phase ::
  "'g draw \<Rightarrow> forward \<Rightarrow> sampling_params \<Rightarrow> sink \<Rightarrow> token list \<Rightarrow> 'g decode_state \<Rightarrow> model_error + block_end \<times> 'g decode_state" where
  "verify_phase draw target params sink [] s = Inr (All_accepted, s)"
| "verify_phase draw target params sink (dtok # dtoks) s =
     (case target (ds_context s) of
        Inl e \<Rightarrow> Inl e
      | Inr logits \<Rightarrow>
          (case sample_token draw logits params (ds_rng s) of (ttok, rng) \<Rightarrow>
             let s = s\<lparr>ds_rng := rng\<rparr> in
             if ttok = dtok
             then (let s = s\<lparr>ds_stats := (ds_stats s)\<lparr>total_accepted := total_accepted (ds_stats s) + 1\<rparr>\<rparr>
                   in case emit sink (mk_token ttok None) s of
                        None \<Rightarrow> Inr (Sink_closed, s)
                      | Some s \<Rightarrow> verify_phase draw target params sink dtoks s)
             else (case emit sink (mk_token ttok None) s of
                     None \<Rightarrow> Inr (Sink_closed, s)
                   | Some s \<Rightarrow> Inr (Rejected, s))))"

text \<open>The extra token after a fully accepted block.\<close>

definition bonus_phase ::
  "'g draw \<Rightarrow> forward \<Rightarrow> sampling_params \<Rightarrow> sink \<Rightarrow> 'g decode_state \<Rightarrow> model_error + finish_reason option \<times> 'g decode_state" where
  "bonus_phase draw target params sink s =
     (if ds_emitted s < max_tokens params
      then (case target (ds_context s) of
              Inl e \<Rightarrow> Inl e
            | Inr logits \<Rightarrow>
                (case sample_token draw logits params (ds_rng s) of (ttok, rng) \<Rightarrow>
                   let s = s\<lparr>ds_rng := rng\<rparr>; stop = ttok \<in> set (stop_tokens params) in
                   case emit sink (mk_token ttok (if stop then Some Stop else None)) s of
                     None \<Rightarrow> Inr (Some Cancelled, s)
                   | Some s \<Rightarrow>
                       (let s = s\<lparr>ds_stats := (ds_stats s)\<lparr>extra_emitted := extra_emitted (ds_stats s) + 1\<rparr>\<rparr>
                        in Inr (if stop then Some Stop else None, s))))
      else Inr (None, s))"

text \<open>One round of the outer loop; a finish reason ends it.\<close>

definition spec_round ::
  "'g draw \<Rightarrow> forward \<Rightarrow> forward \<Rightarrow> sampling_params \<Rightarrow> nat \<Rightarrow> sink \<Rightarrow> 'g decode_state
     \<Rightarrow> model_error + finish_reason option \<times> 'g decode_state" where
  "spec_round draw target draft params gamma sink s =
     (let s = s\<lparr>ds_stats := (ds_stats s)\<lparr>steps := steps (ds_stats s) + 1\<rparr>\<rparr> in
      case draft_phase draw draft params (ds_emitted s) gamma (ds_context s) [] (ds_rng s) of
        Inl e \<Rightarrow> Inl e
      | Inr (toks, rng) \<Rightarrow>
          (let s = s\<lparr>ds_rng := rng, ds_stats := (ds_stats s)\<lparr>total_draft := total_draft (ds_stats s) + length toks\<rparr>\<rparr> in
           case verify_phase draw target params sink toks s of
             Inl e \<Rightarrow> Inl e
           | Inr (Sink_closed, s) \<Rightarrow> Inr (Some Cancelled, s)
           | Inr (Rejected, s) \<Rightarrow> Inr (None, s)
           | Inr (All_accepted, s) \<Rightarrow> bonus_phase draw target params sink s))"

text \<open>\<open>while emitted < max_tokens\<close>; \<open>None\<close> is running out of fuel.\<close>

fun decode_loop ::
  "('g decode_state \<Rightarrow> model_error + finish_reason option \<times> 'g decode_state) \<Rightarrow> nat \<Rightarrow> nat \<Rightarrow> 'g decode_state
     \<Rightarrow> (model_error + finish_reason \<times> 'g decode_state) option" where
  "decode_loop body limit fuel s =
     (if limit \<le> ds_emitted s then Some (Inr (Length, s))
      else (case fuel of
              0 \<Rightarrow> None
            | Suc fuel \<Rightarrow>
                (case body s of
                   Inl e \<Rightarrow> Some (Inl e)
                 | Inr (Some reason, s) \<Rightarrow> Some (Inr (reason, s))
                 | Inr (None, s) \<Rightarrow> decode_loop body limit fuel s)))"

declare decode_loop.simps [simp del]

definition decode_init :: "token list \<Rightarrow> acceptance_stats \<Rightarrow> 'g \<Rightarrow> 'g decode_state" where
  "decode_init prompt stats rng = \<lparr>ds_context = prompt, ds_emitted = 0, ds_out = [], ds_stats = stats, ds_rng = rng\<rparr>"

definition speculative_generate ::
  "'g draw \<Rightarrow> forward \<Rightarrow> forward \<Rightarrow> token list \<Rightarrow> sampling_params \<Rightarrow> nat \<Rightarrow> 'g \<Rightarrow> sink
     \<Rightarrow> (model_error + finish_reason \<times> 'g decode_state) option" where
  "speculative_generate draw target draft prompt params gamma rng sink =
     decode_loop (spec_round draw target draft params gamma sink) (max_tokens params) (max_tokens params)
       (decode_init prompt stats_default rng)"

section \<open>Tree speculation\<close>

datatype tree_node = Tree_node (node_token: token) (node_score: rat) (node_children: "tree_node list")

record draft_tree =
  dt_roots :: "tree_node list"
  dt_gamma :: nat
  dt_branch :: nat

text \<open>The closed form of the node count in 64-bit arithmetic that wraps, as in a release build.\<close>

definition total_nodes :: "draft_tree \<Rightarrow> nat" where
  "total_nodes t =
     (if dt_branch t = 0 \<or> dt_gamma t = 0 then 0
      else if dt_branch t = 1 then dt_gamma t
      else (let b = of_nat (dt_branch t) :: u64
            in unat (b * (b ^ (dt_gamma t mod 2 ^ 32) - 1) div (b - 1))))"

text \<open>\<open>sort_by\<close> is stable, by descending score.\<close>

definition top_k_tokens :: "rat list \<Rightarrow> nat \<Rightarrow> (token \<times> rat) list" where
  "top_k_tokens logits k =
     (if k = 0 \<or> logits = [] then []
      else take k (sort_key (\<lambda>(t, s). - s) (map (\<lambda>(i, s). (of_nat i, s)) (enumerate 0 logits))))"

fun expand :: "forward \<Rightarrow> nat \<Rightarrow> token list \<Rightarrow> nat \<Rightarrow> model_error + tree_node list"
  and expand_all :: "forward \<Rightarrow> nat \<Rightarrow> token list \<Rightarrow> nat \<Rightarrow> (token \<times> rat) list \<Rightarrow> model_error + tree_node list" where
  "expand draft 0 ctx branch = Inr []"
| "expand draft (Suc depth) ctx branch =
     (case draft ctx of
        Inl e \<Rightarrow> Inl e
      | Inr logits \<Rightarrow> expand_all draft depth ctx branch (top_k_tokens logits branch))"
| "expand_all draft depth ctx branch [] = Inr []"
| "expand_all draft depth ctx branch ((tok, score) # cands) =
     (case expand draft depth (ctx @ [tok]) branch of
        Inl e \<Rightarrow> Inl e
      | Inr children \<Rightarrow>
          (case expand_all draft depth ctx branch cands of
             Inl e \<Rightarrow> Inl e
           | Inr nodes \<Rightarrow> Inr (Tree_node tok score children # nodes)))"

definition build_draft_tree :: "forward \<Rightarrow> token list \<Rightarrow> nat \<Rightarrow> nat \<Rightarrow> model_error + draft_tree" where
  "build_draft_tree draft ctx gamma branch =
     (if gamma = 0 \<or> branch = 0 then Inr \<lparr>dt_roots = [], dt_gamma = 0, dt_branch = 0\<rparr>
      else (case expand draft gamma ctx branch of
              Inl e \<Rightarrow> Inl e
            | Inr roots \<Rightarrow> Inr \<lparr>dt_roots = roots, dt_gamma = gamma, dt_branch = branch\<rparr>))"

text \<open>The walk down the tree; \<open>n\<close> levels remain.\<close>

fun verify_walk ::
  "'g draw \<Rightarrow> forward \<Rightarrow> sampling_params \<Rightarrow> nat \<Rightarrow> token list \<Rightarrow> tree_node list \<Rightarrow> token list \<Rightarrow> 'g
     \<Rightarrow> model_error + (token list \<times> token) \<times> 'g" where
  "verify_walk draw target params 0 ctx frontier accepted rng =
     (case target ctx of
        Inl e \<Rightarrow> Inl e
      | Inr logits \<Rightarrow> (case sample_token draw logits params rng of (bonus, rng) \<Rightarrow> Inr ((accepted, bonus), rng)))"
| "verify_walk draw target params (Suc n) ctx frontier accepted rng =
     (case target ctx of
        Inl e \<Rightarrow> Inl e
      | Inr logits \<Rightarrow>
          (case sample_token draw logits params rng of (tok, rng) \<Rightarrow>
             (case find (\<lambda>node. node_token node = tok) frontier of
                None \<Rightarrow> Inr ((accepted, tok), rng)
              | Some node \<Rightarrow>
                  if node_children node = []
                  then (case target (ctx @ [tok]) of
                          Inl e \<Rightarrow> Inl e
                        | Inr logits \<Rightarrow>
                            (case sample_token draw logits params rng of (bonus, rng) \<Rightarrow> Inr ((accepted @ [tok], bonus), rng)))
                  else verify_walk draw target params n (ctx @ [tok]) (node_children node) (accepted @ [tok]) rng)))"

definition verify_tree ::
  "'g draw \<Rightarrow> forward \<Rightarrow> draft_tree \<Rightarrow> token list \<Rightarrow> sampling_params \<Rightarrow> 'g \<Rightarrow> model_error + (token list \<times> token) \<times> 'g" where
  "verify_tree draw target tree ctx params rng = verify_walk draw target params (dt_gamma tree) ctx (dt_roots tree) [] rng"

text \<open>Emission of one token with the stop check; of the accepted tokens up to the limit.\<close>

definition emit_checked :: "sampling_params \<Rightarrow> sink \<Rightarrow> token \<Rightarrow> 'g decode_state \<Rightarrow> finish_reason option \<times> 'g decode_state" where
  "emit_checked params sink tok s =
     (let stop = tok \<in> set (stop_tokens params) in
      case emit sink (mk_token tok (if stop then Some Stop else None)) s of
        None \<Rightarrow> (Some Cancelled, s)
      | Some s \<Rightarrow> (if stop then Some Stop else None, s))"

fun emit_accepted :: "sampling_params \<Rightarrow> sink \<Rightarrow> token list \<Rightarrow> 'g decode_state \<Rightarrow> finish_reason option \<times> 'g decode_state" where
  "emit_accepted params sink [] s = (None, s)"
| "emit_accepted params sink (tok # toks) s =
     (if max_tokens params \<le> ds_emitted s then (None, s)
      else (case emit_checked params sink tok s of
              (Some reason, s) \<Rightarrow> (Some reason, s)
            | (None, s) \<Rightarrow> emit_accepted params sink toks s))"

definition emit_bonus :: "sampling_params \<Rightarrow> sink \<Rightarrow> token \<Rightarrow> 'g decode_state \<Rightarrow> finish_reason option \<times> 'g decode_state" where
  "emit_bonus params sink bonus s =
     (case emit_checked params sink bonus s of
        (Some Cancelled, s) \<Rightarrow> (Some Cancelled, s)
      | (reason, s) \<Rightarrow> (reason, s\<lparr>ds_stats := (ds_stats s)\<lparr>extra_emitted := extra_emitted (ds_stats s) + 1\<rparr>\<rparr>))"

definition tree_round ::
  "'g draw \<Rightarrow> forward \<Rightarrow> forward \<Rightarrow> sampling_params \<Rightarrow> nat \<Rightarrow> nat \<Rightarrow> sink \<Rightarrow> 'g decode_state
     \<Rightarrow> model_error + finish_reason option \<times> 'g decode_state" where
  "tree_round draw target draft params gamma branch sink s =
     (let s = s\<lparr>ds_stats := (ds_stats s)\<lparr>steps := steps (ds_stats s) + 1\<rparr>\<rparr> in
      case build_draft_tree draft (ds_context s) gamma branch of
        Inl e \<Rightarrow> Inl e
      | Inr tree \<Rightarrow>
          (let eff_gamma = min gamma (max_tokens params - ds_emitted s);
               s = s\<lparr>ds_stats := (ds_stats s)\<lparr>total_draft := total_draft (ds_stats s) + eff_gamma,
                                               tree_nodes_verified := tree_nodes_verified (ds_stats s) + total_nodes tree\<rparr>\<rparr> in
           case verify_tree draw target tree (ds_context s) params (ds_rng s) of
             Inl e \<Rightarrow> Inl e
           | Inr ((accepted, bonus), rng) \<Rightarrow>
               (let s = s\<lparr>ds_rng := rng, ds_stats := (ds_stats s)\<lparr>total_accepted := total_accepted (ds_stats s) + length accepted\<rparr>\<rparr> in
                case emit_accepted params sink accepted s of
                  (Some reason, s) \<Rightarrow> Inr (Some reason, s)
                | (None, s) \<Rightarrow>
                    if max_tokens params \<le> ds_emitted s then Inr (None, s)
                    else Inr (emit_bonus params sink bonus s))))"

definition speculative_generate_tree ::
  "'g draw \<Rightarrow> forward \<Rightarrow> forward \<Rightarrow> token list \<Rightarrow> sampling_params \<Rightarrow> nat \<Rightarrow> nat \<Rightarrow> 'g \<Rightarrow> sink
     \<Rightarrow> (model_error + finish_reason \<times> 'g decode_state) option" where
  "speculative_generate_tree draw target draft prompt params gamma branch rng sink =
     decode_loop (tree_round draw target draft params gamma branch sink) (max_tokens params) (max_tokens params)
       (decode_init prompt (with_tree_branch branch) rng)"

section \<open>The models that speculate\<close>

record spec_model =
  sm_target :: forward
  sm_draft :: forward
  sm_gamma :: nat
  sm_branch :: nat

definition spec_model_generate ::
  "'g draw \<Rightarrow> spec_model \<Rightarrow> 'g \<Rightarrow> token list \<Rightarrow> sampling_params \<Rightarrow> sink \<Rightarrow> (model_error + finish_reason) option" where
  "spec_model_generate draw m rng prompt params sink =
     map_option (map_sum id fst) (speculative_generate draw (sm_target m) (sm_draft m) prompt params (sm_gamma m) rng sink)"

definition tree_model_generate ::
  "'g draw \<Rightarrow> spec_model \<Rightarrow> 'g \<Rightarrow> token list \<Rightarrow> sampling_params \<Rightarrow> sink \<Rightarrow> (model_error + finish_reason) option" where
  "tree_model_generate draw m rng prompt params sink =
     map_option (map_sum id fst)
       (speculative_generate_tree draw (sm_target m) (sm_draft m) prompt params (sm_gamma m) (sm_branch m) rng sink)"

definition spec_model_forward_logits :: "spec_model \<Rightarrow> forward" where
  "spec_model_forward_logits m ctx = sm_target m ctx"

section \<open>Plain decoding and its refinement\<close>

definition greedy_token :: "rat list \<Rightarrow> token" where
  "greedy_token logits = (if logits = [] then 0 else of_nat (argmax logits))"

text \<open>Decoding with the target model alone, one greedy token at a time.\<close>

fun plain_decode ::
  "(token list \<Rightarrow> rat list) \<Rightarrow> token list \<Rightarrow> sink \<Rightarrow> nat \<Rightarrow> token list \<Rightarrow> generated_token list
     \<Rightarrow> finish_reason \<times> generated_token list" where
  "plain_decode logits stops sink 0 ctx out = (Length, out)"
| "plain_decode logits stops sink (Suc n) ctx out =
     (let tok = greedy_token (logits ctx);
          stop = tok \<in> set stops;
          t = mk_token tok (if stop then Some Stop else None)
      in if \<not> sink out t then (Cancelled, out)
         else if stop then (Stop, out @ [t])
         else plain_decode logits stops sink n (ctx @ [tok]) (out @ [t]))"

text \<open>What plain decoding still gives from a state on.\<close>

definition plain_rest ::
  "(token list \<Rightarrow> rat list) \<Rightarrow> sampling_params \<Rightarrow> sink \<Rightarrow> 'g decode_state \<Rightarrow> finish_reason \<times> generated_token list" where
  "plain_rest logits params sink s =
     plain_decode logits (stop_tokens params) sink (max_tokens params - ds_emitted s) (ds_context s) (ds_out s)"

text \<open>The accepted tokens and the final token are the greedy choices of the target, one after the other.\<close>

fun greedy_chain :: "(token list \<Rightarrow> rat list) \<Rightarrow> token list \<Rightarrow> token list \<Rightarrow> token \<Rightarrow> bool" where
  "greedy_chain logits ctx [] b = (b = greedy_token (logits ctx))"
| "greedy_chain logits ctx (x # xs) b = (x = greedy_token (logits ctx) \<and> greedy_chain logits (ctx @ [x]) xs b)"

lemma gt_id_mk_token [simp]: "gt_id (mk_token t r) = t"
  by (simp add: mk_token_def)

lemma plain_rest_done: "max_tokens params \<le> ds_emitted s \<Longrightarrow> plain_rest logits params sink s = (Length, ds_out s)"
  by (simp add: plain_rest_def)

lemma plain_rest_rng [simp]: "plain_rest logits params sink (s\<lparr>ds_rng := g\<rparr>) = plain_rest logits params sink s"
  and plain_rest_stats [simp]: "plain_rest logits params sink (s\<lparr>ds_stats := st\<rparr>) = plain_rest logits params sink s"
  by (simp_all add: plain_rest_def)

lemma emit_rng [simp]: "emit sink t (s\<lparr>ds_rng := g\<rparr>) = map_option (\<lambda>s. s\<lparr>ds_rng := g\<rparr>) (emit sink t s)"
  and emit_stats [simp]: "emit sink t (s\<lparr>ds_stats := st\<rparr>) = map_option (\<lambda>s. s\<lparr>ds_stats := st\<rparr>) (emit sink t s)"
  by (simp_all add: emit_def)

lemma emit_Some:
  "emit sink t s = Some s' \<Longrightarrow> ds_emitted s' = ds_emitted s + 1 \<and> ds_context s' = ds_context s @ [gt_id t] \<and> ds_out s' = ds_out s @ [t]"
  by (auto simp: emit_def split: if_splits)

lemma plain_rest_step:
  assumes "ds_emitted s < max_tokens params" and "tok = greedy_token (logits (ds_context s))"
  shows "plain_rest logits params sink s =
    (case emit_checked params sink tok s of (Some reason, s') \<Rightarrow> (reason, ds_out s') | (None, s') \<Rightarrow> plain_rest logits params sink s')"
proof -
  obtain n where n: "max_tokens params - ds_emitted s = Suc n" using assms(1) by (metis Suc_diff_Suc)
  then have "max_tokens params - (ds_emitted s + 1) = n" by simp
  with n assms(2) show ?thesis
    by (auto simp: plain_rest_def emit_checked_def emit_def Let_def)
qed

lemma emit_checked_None:
  assumes "emit_checked params sink tok s = (None, s')"
  shows "ds_emitted s' = ds_emitted s + 1" and "ds_context s' = ds_context s @ [tok]"
  using assms by (auto simp: emit_checked_def Let_def emit_def split: option.splits if_splits)

lemma expand_total:
  "(\<And>ctx. \<exists>ls. draft ctx = Inr ls) \<Longrightarrow> \<exists>ns. expand draft d ctx b = Inr ns"
  "(\<And>ctx. \<exists>ls. draft ctx = Inr ls) \<Longrightarrow> \<exists>ns. expand_all draft d ctx b cs = Inr ns"
proof (induction draft d ctx b and draft d ctx b cs rule: expand_expand_all.induct)
  case (2 draft depth ctx branch)
  from "2.prems" [of ctx] obtain ls where "draft ctx = Inr ls" by blast
  with 2 show ?case by simp
next
  case (4 draft depth ctx branch tok score cands)
  then show ?case by fastforce
qed simp_all

text \<open>A round refines plain decoding: it keeps what plain decoding still gives and makes progress, or ends the run with it.\<close>

locale refining_round =
  fixes body :: "'g decode_state \<Rightarrow> model_error + finish_reason option \<times> 'g decode_state"
    and limit :: nat
    and rest :: "'g decode_state \<Rightarrow> finish_reason \<times> generated_token list"
  assumes rest_done: "limit \<le> ds_emitted s \<Longrightarrow> rest s = (Length, ds_out s)"
    and round_refines: "ds_emitted s < limit \<Longrightarrow> \<exists>reason s'. body s = Inr (reason, s') \<and>
      (case reason of None \<Rightarrow> rest s' = rest s \<and> ds_emitted s < ds_emitted s' | Some f \<Rightarrow> rest s = (f, ds_out s'))"
begin

lemma loop_refines:
  "limit - ds_emitted s \<le> fuel \<Longrightarrow> \<exists>f s'. decode_loop body limit fuel s = Some (Inr (f, s')) \<and> rest s = (f, ds_out s')"
proof (induction fuel arbitrary: s)
  case 0
  then show ?case by (simp add: decode_loop.simps rest_done)
next
  case (Suc fuel)
  show ?case
  proof (cases "limit \<le> ds_emitted s")
    case True
    then show ?thesis by (simp add: decode_loop.simps [of body limit "Suc fuel"] rest_done)
  next
    case False
    then obtain reason s' where b: "body s = Inr (reason, s')"
      "case reason of None \<Rightarrow> rest s' = rest s \<and> ds_emitted s < ds_emitted s' | Some f \<Rightarrow> rest s = (f, ds_out s')"
      using round_refines [of s] by auto
    show ?thesis
    proof (cases reason)
      case None
      with b(2) Suc.prems have "limit - ds_emitted s' \<le> fuel" by auto
      from Suc.IH [OF this] b False None show ?thesis by (simp add: decode_loop.simps [of body limit "Suc fuel" s])
    next
      case (Some f)
      with b False show ?thesis by (simp add: decode_loop.simps [of body limit "Suc fuel" s])
    qed
  qed
qed

end

locale speculation =
  fixes target draft :: forward
    and logits dlogits :: "token list \<Rightarrow> rat list"
    and params :: sampling_params
    and sink :: sink
    and draw :: "'g draw"
    and gamma branch :: nat
  assumes target_total: "target ctx = Inr (logits ctx)"
    and draft_total: "draft ctx = Inr (dlogits ctx)"
    and at_zero: "greedy params"
begin

lemma sample_greedy [simp]: "sample_token draw ls params rng = (greedy_token ls, rng)"
  using at_zero by (simp add: sample_token_def greedy_token_def)

lemma build_total: "\<exists>t. build_draft_tree draft ctx gamma branch = Inr t"
  using expand_total(1) [of draft gamma ctx branch] draft_total by (auto simp: build_draft_tree_def)

lemma walk_chain:
  "\<exists>xs b. verify_walk draw target params n ctx frontier acc rng = Inr ((acc @ xs, b), rng) \<and> greedy_chain logits ctx xs b"
proof (induction n arbitrary: ctx frontier acc)
  case 0
  then show ?case by (intro exI [of _ "[]"]) (simp add: target_total)
next
  case (Suc n)
  let ?t = "greedy_token (logits ctx)"
  show ?case
  proof (cases "find (\<lambda>node. node_token node = ?t) frontier")
    case None
    then show ?thesis by (intro exI [of _ "[]"]) (simp add: target_total)
  next
    case (Some node)
    show ?thesis
    proof (cases "node_children node = []")
      case True
      with Some show ?thesis by (intro exI [of _ "[?t]"]) (simp add: target_total)
    next
      case False
      obtain xs b where "verify_walk draw target params n (ctx @ [?t]) (node_children node) (acc @ [?t]) rng = Inr (((acc @ [?t]) @ xs, b), rng)"
        "greedy_chain logits (ctx @ [?t]) xs b" using Suc.IH by blast
      with Some False show ?thesis by (intro exI [of _ "?t # xs"] exI [of _ b]) (simp add: target_total [of ctx])
    qed
  qed
qed

lemma emit_accepted_refines:
  assumes "greedy_chain logits (ds_context s) toks b" and "emit_accepted params sink toks s = (r, s')"
  shows "case r of
      Some f \<Rightarrow> plain_rest logits params sink s = (f, ds_out s')
    | None \<Rightarrow> plain_rest logits params sink s' = plain_rest logits params sink s \<and> ds_emitted s \<le> ds_emitted s'
        \<and> (ds_emitted s < max_tokens params \<and> toks \<noteq> [] \<longrightarrow> ds_emitted s < ds_emitted s')
        \<and> (max_tokens params \<le> ds_emitted s' \<or> greedy_chain logits (ds_context s') [] b)"
  using assms
proof (induction toks arbitrary: s)
  case (Cons t toks)
  show ?case
  proof (cases "max_tokens params \<le> ds_emitted s")
    case False
    obtain q s1 where e: "emit_checked params sink t s = (q, s1)" by fastforce
    have step: "plain_rest logits params sink s = (case q of Some f \<Rightarrow> (f, ds_out s1) | None \<Rightarrow> plain_rest logits params sink s1)"
      using plain_rest_step [of s params t logits sink] Cons.prems(1) False e by (simp split: option.splits)
    show ?thesis
    proof (cases q)
      case None
      note s1 = emit_checked_None [OF e [unfolded None]]
      have "greedy_chain logits (ds_context s1) toks b" using Cons.prems(1) s1(2) by auto
      moreover have "emit_accepted params sink toks s1 = (r, s')" using Cons.prems(2) False e None by simp
      ultimately show ?thesis using Cons.IH [of s1] step None s1(1) by (auto split: option.splits)
    qed (use Cons.prems(2) False e step in auto)
  qed (use Cons.prems in auto)
qed auto

lemma emit_bonus_refines:
  assumes "greedy_chain logits (ds_context s) [] b" and "ds_emitted s < max_tokens params"
    and "emit_bonus params sink b s = (r, s')"
  shows "case r of
      Some f \<Rightarrow> plain_rest logits params sink s = (f, ds_out s')
    | None \<Rightarrow> plain_rest logits params sink s' = plain_rest logits params sink s \<and> ds_emitted s < ds_emitted s'"
proof -
  obtain q s1 where e: "emit_checked params sink b s = (q, s1)" by fastforce
  have "plain_rest logits params sink s = (case q of Some f \<Rightarrow> (f, ds_out s1) | None \<Rightarrow> plain_rest logits params sink s1)"
    using plain_rest_step [of s params b logits sink] assms(1,2) e by (simp split: option.splits)
  then show ?thesis
    using assms(3) e emit_checked_None(1) [of params sink b s s1]
    by (auto simp: emit_bonus_def split: option.splits finish_reason.splits)
qed

lemma tree_round_refines:
  assumes "ds_emitted s < max_tokens params"
  shows "\<exists>reason s'. tree_round draw target draft params gamma branch sink s = Inr (reason, s') \<and>
      (case reason of
         None \<Rightarrow> plain_rest logits params sink s' = plain_rest logits params sink s \<and> ds_emitted s < ds_emitted s'
       | Some f \<Rightarrow> plain_rest logits params sink s = (f, ds_out s'))"
proof -
  obtain tree where tree: "build_draft_tree draft (ds_context s) gamma branch = Inr tree" using build_total by blast
  obtain xs b where walk: "verify_tree draw target tree (ds_context s) params (ds_rng s) = Inr ((xs, b), ds_rng s)"
    and chain: "greedy_chain logits (ds_context s) xs b"
    using walk_chain [of "dt_gamma tree" "ds_context s" "dt_roots tree" "[]" "ds_rng s"] by (auto simp: verify_tree_def)
  define s1 where "s1 = (let s = s\<lparr>ds_stats := (ds_stats s)\<lparr>steps := steps (ds_stats s) + 1\<rparr>\<rparr>;
      s = s\<lparr>ds_stats := (ds_stats s)\<lparr>total_draft := total_draft (ds_stats s) + min gamma (max_tokens params - ds_emitted s),
                                      tree_nodes_verified := tree_nodes_verified (ds_stats s) + total_nodes tree\<rparr>\<rparr>
      in s\<lparr>ds_rng := ds_rng s, ds_stats := (ds_stats s)\<lparr>total_accepted := total_accepted (ds_stats s) + length xs\<rparr>\<rparr>)"
  have s1: "plain_rest logits params sink s1 = plain_rest logits params sink s" "ds_emitted s1 = ds_emitted s"
    "ds_context s1 = ds_context s" by (simp_all add: s1_def Let_def plain_rest_def)
  obtain r s2 where acc: "emit_accepted params sink xs s1 = (r, s2)" by fastforce
  have round: "tree_round draw target draft params gamma branch sink s =
     (case r of Some f \<Rightarrow> Inr (Some f, s2)
      | None \<Rightarrow> if max_tokens params \<le> ds_emitted s2 then Inr (None, s2) else Inr (emit_bonus params sink b s2))"
    using tree walk acc by (simp add: tree_round_def Let_def s1_def split: option.splits)
  note refines = emit_accepted_refines [OF chain [folded s1(3)] acc]
  show ?thesis
  proof (cases r)
    case (Some f)
    then show ?thesis using round refines s1(1) by simp
  next
    case None
    show ?thesis
    proof (cases "max_tokens params \<le> ds_emitted s2")
      case True
      with None round refines s1 assms show ?thesis by auto
    next
      case False
      obtain q s3 where q: "emit_bonus params sink b s2 = (q, s3)" by fastforce
      from None refines False have "greedy_chain logits (ds_context s2) [] b" by auto
      from emit_bonus_refines [OF this _ q] False None round refines s1 q show ?thesis
        by (auto split: option.splits)
    qed
  qed
qed

end

sublocale speculation \<subseteq> tree: refining_round "tree_round draw target draft params gamma branch sink" "max_tokens params"
  "plain_rest logits params sink"
  by unfold_locales (auto intro: plain_rest_done tree_round_refines)

text \<open>The draft scheme emits accepted tokens and corrections without a stop check.\<close>

lemma emit_checked_no_stop:
  "tok \<notin> set (stop_tokens params) \<Longrightarrow> emit_checked params sink tok s =
     (case emit sink (mk_token tok None) s of None \<Rightarrow> (Some Cancelled, s) | Some s \<Rightarrow> (None, s))"
  by (simp add: emit_checked_def)

locale no_stop_speculation = speculation +
  assumes no_stop: "greedy_token (logits ctx) \<notin> set (stop_tokens params)"
begin

lemma rest_emit:
  assumes "ds_emitted s < max_tokens params"
  shows "plain_rest logits params sink s =
    (case emit sink (mk_token (greedy_token (logits (ds_context s))) None) s of
       None \<Rightarrow> (Cancelled, ds_out s) | Some s' \<Rightarrow> plain_rest logits params sink s')"
  using plain_rest_step [OF assms refl, of logits sink] no_stop [of "ds_context s"]
  by (simp add: emit_checked_no_stop split: option.splits)

lemma draft_bounded:
  "emitted + length toks \<le> max_tokens params \<Longrightarrow>
     \<exists>toks'. draft_phase draw draft params emitted n dctx toks rng = Inr (toks', rng) \<and> emitted + length toks' \<le> max_tokens params"
  by (induction n arbitrary: dctx toks) (auto simp: draft_total)

lemma verify_refines:
  assumes "ds_emitted s + length toks \<le> max_tokens params"
  shows "\<exists>e s'. verify_phase draw target params sink toks s = Inr (e, s') \<and>
    (case e of
       Sink_closed \<Rightarrow> plain_rest logits params sink s = (Cancelled, ds_out s')
     | Rejected \<Rightarrow> plain_rest logits params sink s' = plain_rest logits params sink s \<and> ds_emitted s < ds_emitted s'
     | All_accepted \<Rightarrow> plain_rest logits params sink s' = plain_rest logits params sink s \<and> ds_emitted s' = ds_emitted s + length toks)"
  using assms
proof (induction toks arbitrary: s)
  case (Cons d toks)
  let ?t = "greedy_token (logits (ds_context s))"
  have lt: "ds_emitted s < max_tokens params" using Cons.prems by simp
  note rest = rest_emit [OF lt]
  show ?case
  proof (cases "emit sink (mk_token ?t None) s")
    case None
    then show ?thesis using rest by (auto simp: target_total [of "ds_context s"] Let_def)
  next
    case (Some s1)
    note s1 = emit_Some [OF Some]
    show ?thesis
    proof (cases "?t = d")
      case True
      let ?s1 = "s1\<lparr>ds_rng := ds_rng s, ds_stats := (ds_stats s)\<lparr>total_accepted := total_accepted (ds_stats s) + 1\<rparr>\<rparr>"
      have "verify_phase draw target params sink (d # toks) s = verify_phase draw target params sink toks ?s1"
        using Some True by (simp add: target_total [of "ds_context s"] Let_def)
      moreover have "ds_emitted ?s1 + length toks \<le> max_tokens params" using Cons.prems s1 by simp
      ultimately show ?thesis using Cons.IH [of ?s1] rest Some s1 by (auto split: block_end.splits)
    next
      case False
      with Some rest s1 show ?thesis by (auto simp: target_total [of "ds_context s"] Let_def)
    qed
  qed
qed simp

lemma bonus_refines:
  assumes "ds_emitted s < max_tokens params"
  shows "\<exists>reason s'. bonus_phase draw target params sink s = Inr (reason, s') \<and>
      (case reason of
         None \<Rightarrow> plain_rest logits params sink s' = plain_rest logits params sink s \<and> ds_emitted s < ds_emitted s'
       | Some f \<Rightarrow> plain_rest logits params sink s = (f, ds_out s'))"
proof (cases "emit sink (mk_token (greedy_token (logits (ds_context s))) None) s")
  case None
  then show ?thesis
    using rest_emit [OF assms] assms no_stop by (simp add: bonus_phase_def target_total [of "ds_context s"] Let_def)
next
  case (Some s1)
  then show ?thesis
    using rest_emit [OF assms] assms no_stop emit_Some [OF Some]
    by (simp add: bonus_phase_def target_total [of "ds_context s"] Let_def)
qed

lemma spec_round_refines:
  assumes "ds_emitted s < max_tokens params"
  shows "\<exists>reason s'. spec_round draw target draft params gamma sink s = Inr (reason, s') \<and>
      (case reason of
         None \<Rightarrow> plain_rest logits params sink s' = plain_rest logits params sink s \<and> ds_emitted s < ds_emitted s'
       | Some f \<Rightarrow> plain_rest logits params sink s = (f, ds_out s'))"
proof -
  obtain toks where toks: "draft_phase draw draft params (ds_emitted s) gamma (ds_context s) [] (ds_rng s) = Inr (toks, ds_rng s)"
      "ds_emitted s + length toks \<le> max_tokens params"
    using draft_bounded [of "ds_emitted s" "[]" gamma "ds_context s" "ds_rng s"] assms by auto
  define s1 where "s1 = (let s = s\<lparr>ds_stats := (ds_stats s)\<lparr>steps := steps (ds_stats s) + 1\<rparr>\<rparr>
      in s\<lparr>ds_rng := ds_rng s, ds_stats := (ds_stats s)\<lparr>total_draft := total_draft (ds_stats s) + length toks\<rparr>\<rparr>)"
  have s1: "plain_rest logits params sink s1 = plain_rest logits params sink s" "ds_emitted s1 = ds_emitted s"
    by (simp_all add: s1_def Let_def plain_rest_def)
  from verify_refines [of s1 toks] toks(2) s1(2) obtain e s2 where
    v: "verify_phase draw target params sink toks s1 = Inr (e, s2)"
      "case e of
         Sink_closed \<Rightarrow> plain_rest logits params sink s1 = (Cancelled, ds_out s2)
       | Rejected \<Rightarrow> plain_rest logits params sink s2 = plain_rest logits params sink s1 \<and> ds_emitted s1 < ds_emitted s2
       | All_accepted \<Rightarrow> plain_rest logits params sink s2 = plain_rest logits params sink s1 \<and> ds_emitted s2 = ds_emitted s1 + length toks"
    by auto
  have round: "spec_round draw target draft params gamma sink s =
     (case e of Sink_closed \<Rightarrow> Inr (Some Cancelled, s2) | Rejected \<Rightarrow> Inr (None, s2)
      | All_accepted \<Rightarrow> bonus_phase draw target params sink s2)"
    using toks(1) v(1) by (simp add: spec_round_def Let_def s1_def split: block_end.splits)
  show ?thesis
  proof (cases e)
    case All_accepted
    show ?thesis
    proof (cases "ds_emitted s2 < max_tokens params")
      case True
      from bonus_refines [OF True] All_accepted round v(2) s1 show ?thesis by (fastforce split: option.splits)
    next
      case False
      then have "bonus_phase draw target params sink s2 = Inr (None, s2)" by (simp add: bonus_phase_def)
      with All_accepted round v(2) s1 assms False show ?thesis by auto
    qed
  qed (use round v(2) s1 in auto)
qed

end

sublocale no_stop_speculation \<subseteq> block: refining_round "spec_round draw target draft params gamma sink" "max_tokens params"
  "plain_rest logits params sink"
  by unfold_locales (auto intro: plain_rest_done spec_round_refines)

context speculation
begin

lemma tree_lossless:
  "\<exists>reason s. speculative_generate_tree draw target draft prompt params gamma branch rng sink = Some (Inr (reason, s))
     \<and> (reason, ds_out s) = plain_decode logits (stop_tokens params) sink (max_tokens params) prompt []"
  using tree.loop_refines [of "decode_init prompt (with_tree_branch branch) rng" "max_tokens params"]
  by (auto simp: speculative_generate_tree_def plain_rest_def decode_init_def)

end

context no_stop_speculation
begin

lemma block_lossless:
  "\<exists>reason s. speculative_generate draw target draft prompt params gamma rng sink = Some (Inr (reason, s))
     \<and> (reason, ds_out s) = plain_decode logits (stop_tokens params) sink (max_tokens params) prompt []"
  using block.loop_refines [of "decode_init prompt stats_default rng" "max_tokens params"]
  by (auto simp: speculative_generate_def plain_rest_def decode_init_def)

end

text \<open>The mock model as target and as draft; its forward pass never panics for a vocabulary size of 32 bits.\<close>

definition mock_logits :: "mock_model \<Rightarrow> token list \<Rightarrow> rat list" where
  "mock_logits m ctx = (case mock_forward_logits m ctx of Some ls \<Rightarrow> ls | None \<Rightarrow> [])"

definition mock_forward :: "mock_model \<Rightarrow> forward" where
  "mock_forward m ctx = Inr (mock_logits m ctx)"

interpretation mock_speculation: no_stop_speculation "mock_forward m" "mock_forward m'" "mock_logits m" "mock_logits m'"
  "sampling_params_default\<lparr>temperature := 0\<rparr>" sink draw gamma branch
  for m m' sink gamma branch and draw :: "'g draw"
  by unfold_locales (simp_all add: mock_forward_def greedy_def sampling_params_default_def)

section \<open>Properties\<close>

text \<open>Greedy draft-target speculation is lossless and terminates. For every draft model and every block length, if the models
  do not fail and the target's greedy choice is never a stop token, the run ends within \<open>max_tokens\<close> rounds and the sink
  receives exactly the tokens, and the caller the finish reason, of decoding with the target model alone.\<close>

theorem greedy_speculation_is_lossless:
  assumes "\<And>ctx. target ctx = Inr (logits ctx)" and "\<And>ctx. draft ctx = Inr (dlogits ctx)" and "greedy params"
    and "\<And>ctx. greedy_token (logits ctx) \<notin> set (stop_tokens params)"
  shows "\<exists>reason s. speculative_generate draw target draft prompt params gamma rng sink = Some (Inr (reason, s))
     \<and> (reason, ds_out s) = plain_decode logits (stop_tokens params) sink (max_tokens params) prompt []"
proof -
  have "no_stop_speculation target draft logits dlogits params" using assms by unfold_locales
  then show ?thesis by (rule no_stop_speculation.block_lossless)
qed

theorem greedy_speculation_is_lossless_witness:
  "\<exists>reason s. speculative_generate (\<lambda>_ _ g. (0, g)) (mock_forward (mock_new 26)) (mock_forward (mock_new 5)) [1]
       (sampling_params_default\<lparr>temperature := 0, max_tokens := 4\<rparr>) 3 () (\<lambda>_ _. True) = Some (Inr (reason, s))
     \<and> (reason, ds_out s) = plain_decode (mock_logits (mock_new 26)) [] (\<lambda>_ _. True) 4 [1] []"
proof -
  let ?p = "sampling_params_default\<lparr>temperature := 0, max_tokens := 4\<rparr>"
  have "greedy ?p" "\<And>ctx. greedy_token (mock_logits (mock_new 26) ctx) \<notin> set (stop_tokens ?p)"
    by (simp_all add: greedy_def sampling_params_default_def)
  from greedy_speculation_is_lossless [OF mock_forward_def mock_forward_def this, where prompt = "[1]" and rng = "()"]
  show ?thesis by (simp add: sampling_params_default_def)
qed

text \<open>C8: greedy tree speculation is lossless and terminates. For every draft model, depth and branching, if the models do not
  fail, the run ends within \<open>max_tokens\<close> rounds and the sink receives exactly the tokens, with their stop marks, and the
  caller the finish reason, of decoding with the target model alone, stop tokens included.\<close>

theorem greedy_tree_speculation_is_lossless:
  assumes "\<And>ctx. target ctx = Inr (logits ctx)" and "\<And>ctx. draft ctx = Inr (dlogits ctx)" and "greedy params"
  shows "\<exists>reason s. speculative_generate_tree draw target draft prompt params gamma branch rng sink = Some (Inr (reason, s))
     \<and> (reason, ds_out s) = plain_decode logits (stop_tokens params) sink (max_tokens params) prompt []"
proof -
  have "speculation target draft logits dlogits params" using assms by unfold_locales
  then show ?thesis by (rule speculation.tree_lossless)
qed

theorem greedy_tree_speculation_is_lossless_witness:
  "\<exists>reason s. speculative_generate_tree (\<lambda>_ _ g. (0, g)) (mock_forward (mock_new 26)) (mock_forward (mock_new 5)) [1]
       (sampling_params_default\<lparr>temperature := 0, max_tokens := 4, stop_tokens := [3]\<rparr>) 2 2 () (\<lambda>_ _. True) = Some (Inr (reason, s))
     \<and> (reason, ds_out s) = plain_decode (mock_logits (mock_new 26)) [3] (\<lambda>_ _. True) 4 [1] []"
proof -
  have "greedy (sampling_params_default\<lparr>temperature := 0, max_tokens := 4, stop_tokens := [3]\<rparr>)"
    by (simp add: greedy_def sampling_params_default_def)
  from greedy_tree_speculation_is_lossless [OF mock_forward_def mock_forward_def this, where prompt = "[1]" and rng = "()"]
  show ?thesis by (simp add: sampling_params_default_def)
qed

lemma draft_phase_prefix:
  assumes "greedy params" and "\<And>ctx. draft ctx = Inr (dlogits ctx)"
  shows "\<exists>more. draft_phase draw draft params emitted n dctx toks rng = Inr (toks @ more, rng)"
proof (induction n arbitrary: dctx toks)
  case (Suc n)
  let ?t = "greedy_token (dlogits dctx)"
  have s: "sample_token draw (dlogits dctx) params rng = (?t, rng)"
    using assms(1) by (simp add: sample_token_def greedy_token_def)
  from Suc.IH [of "dctx @ [?t]" "toks @ [?t]"] show ?case by (auto simp: assms(2) [of dctx] s)
qed simp

text \<open>Draft-target speculation runs past a stop token. If the target's first greedy token is a stop token and the draft proposes
  another token, the correction is emitted without a stop mark and the loop goes on with the rest of its budget, where
  decoding with the target alone ends with reason \<open>Stop\<close> after this token.\<close>

theorem correction_misses_stop_token:
  assumes models: "\<And>ctx. target ctx = Inr (logits ctx)" "\<And>ctx. draft ctx = Inr (dlogits ctx)" "greedy params"
    and stop: "greedy_token (logits prompt) \<in> set (stop_tokens params)"
      "greedy_token (dlogits prompt) \<notin> set (stop_tokens params)"
    and room: "0 < gamma" "1 < max_tokens params"
    and sink: "\<And>out t. sink out t"
  shows "plain_decode logits (stop_tokens params) sink (max_tokens params) prompt []
       = (Stop, [mk_token (greedy_token (logits prompt)) (Some Stop)])
     \<and> (\<exists>s. ds_out s = [mk_token (greedy_token (logits prompt)) None] \<and> ds_emitted s < max_tokens params
          \<and> speculative_generate draw target draft prompt params gamma rng sink
              = decode_loop (spec_round draw target draft params gamma sink) (max_tokens params) (max_tokens params - 1) s)"
proof -
  let ?t = "greedy_token (logits prompt)" and ?d = "greedy_token (dlogits prompt)"
  obtain m where m: "max_tokens params = Suc (Suc m)" using room(2) by (cases "max_tokens params") (auto simp: gr0_conv_Suc)
  obtain n where n: "gamma = Suc n" using room(1) by (cases gamma) auto
  have samp: "sample_token draw ls params rng' = (greedy_token ls, rng')" for ls rng'
    using models(3) by (simp add: sample_token_def greedy_token_def)
  obtain more where more: "draft_phase draw draft params 0 gamma prompt [] rng = Inr (?d # more, rng)"
    using draft_phase_prefix [where draft = draft and dlogits = dlogits and draw = draw, OF models(3,2), where n = n and dctx = "prompt @ [?d]" and toks = "[?d]" and emitted = 0 and rng = rng] stop(2) m
    by (auto simp: n models(2) [of prompt] samp)
  have "?t \<noteq> ?d" using stop by metis
  then obtain s where s: "spec_round draw target draft params gamma sink (decode_init prompt stats_default rng) = Inr (None, s)"
      "ds_out s = [mk_token ?t None]" "ds_emitted s = 1"
    using more by (simp add: spec_round_def decode_init_def models(1) [of prompt] samp emit_def sink)
  have "plain_decode logits (stop_tokens params) sink (max_tokens params) prompt [] = (Stop, [mk_token ?t (Some Stop)])"
    using stop(1) sink m by simp
  moreover have "speculative_generate draw target draft prompt params gamma rng sink
      = decode_loop (spec_round draw target draft params gamma sink) (max_tokens params) (max_tokens params - 1) s"
    using s m by (simp add: speculative_generate_def decode_loop.simps [of _ _ "Suc (Suc m)"] decode_init_def)
  ultimately show ?thesis using s room(2) by auto
qed

lemma mock_pick_example:
  "greedy_token (mock_logits (mock_new 10) [1]) = 2"
  "greedy_token (mock_logits (mock_new 2) [1]) = 0"
  by code_simp+

theorem correction_misses_stop_token_witness:
  "plain_decode (mock_logits (mock_new 10)) [2] (\<lambda>_ _. True) 3 [1] [] = (Stop, [mk_token 2 (Some Stop)])
   \<and> (\<exists>s. ds_out s = [mk_token 2 None] \<and> ds_emitted s < 3
        \<and> speculative_generate (\<lambda>_ _ g. (0, g)) (mock_forward (mock_new 10)) (mock_forward (mock_new 2)) [1]
            (sampling_params_default\<lparr>temperature := 0, max_tokens := 3, stop_tokens := [2]\<rparr>) 1 () (\<lambda>_ _. True)
          = decode_loop (spec_round (\<lambda>_ _ g. (0, g)) (mock_forward (mock_new 10)) (mock_forward (mock_new 2))
              (sampling_params_default\<lparr>temperature := 0, max_tokens := 3, stop_tokens := [2]\<rparr>) 1 (\<lambda>_ _. True)) 3 2 s)"
proof -
  let ?p = "sampling_params_default\<lparr>temperature := 0, max_tokens := 3, stop_tokens := [2]\<rparr>"
  have "greedy ?p" by (simp add: greedy_def sampling_params_default_def)
  moreover have "greedy_token (mock_logits (mock_new 10) [1]) \<in> set (stop_tokens ?p)"
    "greedy_token (mock_logits (mock_new 2) [1]) \<notin> set (stop_tokens ?p)" by (simp_all add: mock_pick_example)
  ultimately show ?thesis
    using correction_misses_stop_token [where target = "mock_forward (mock_new 10)" and draft = "mock_forward (mock_new 2)"
        and logits = "mock_logits (mock_new 10)" and dlogits = "mock_logits (mock_new 2)" and params = ?p and prompt = "[1]"
        and gamma = 1 and sink = "\<lambda>_ _. True" and draw = "\<lambda>_ _ g. (0, g)" and rng = "()",
        OF mock_forward_def mock_forward_def]
    by (simp add: mock_pick_example sampling_params_default_def)
qed

end
