(* ===== verification/Sched_Engine.thy ===== *)
theory Sched_Engine
  imports Scheduler Spec_Decode
begin

text \<open>
  The scheduler-backed engine of \<^verbatim>\<open>crates/justapi-inference/src/scheduler_engine.rs\<close>: it submits requests to the scheduler of
  \<open>Scheduler\<close>, runs the scheduled forward passes on the registered models and streams the sampled tokens to the clients.

  \<^item> The state joins the scheduler with the maps the loop thread keeps per sequence id. The channel of a request is the
    list of tokens sent to it, together with the ids whose sender is still registered.
  \<^item> A call of \<open>generate\<close> takes one lock after the other: it submits the request and then registers its sender, model, budget
    and parameters. These are the client steps; \<open>engine_generate\<close> is their sequence.
  \<^item> One iteration of the loop thread is \<open>loop_step\<close>. Between its locks the steps of client threads may run: its argument \<open>env\<close>
    gives the steps at every such point, so that \<open>loop_step\<close> describes every interleaving. A panic of the scheduler ends the
    thread (\<open>None\<close>).
  \<^item> Tokens are sampled by \<open>sample_token_with_params\<close> of \<open>Sampling\<close>; its stochastic branch is the argument \<open>draw\<close>, which
    in the code is \<open>engine_draw\<close>.

  The lemmas show, whatever other clients do meanwhile, what an iteration sends to a stream, that a sequence that leaves the running
  set gets a final token and is forgotten, that the token sampled at the end of the prefill is sampled and sent a second time, and
  that a request scheduled before its model is registered is never prefilled.
\<close>

section \<open>State\<close>

record 'g sched_engine =
  se_registry :: "string \<rightharpoonup> forward"
  se_sched :: scheduler
  se_senders :: "nat list"
  se_stream :: "nat \<Rightarrow> generated_token list"
  se_models :: "nat \<rightharpoonup> forward"
  se_context :: "nat \<rightharpoonup> token list"
  se_max_tokens :: "nat \<rightharpoonup> nat"
  se_params :: "nat \<rightharpoonup> sampling_params"
  se_rng :: 'g

definition sched_engine_new :: "(string \<rightharpoonup> forward) \<Rightarrow> scheduler \<Rightarrow> 'g \<Rightarrow> 'g sched_engine" where
  "sched_engine_new registry sched rng =
     \<lparr>se_registry = registry, se_sched = sched, se_senders = [], se_stream = (\<lambda>_. []), se_models = Map.empty,
      se_context = Map.empty, se_max_tokens = Map.empty, se_params = Map.empty, se_rng = rng\<rparr>"

text \<open>The steps of a client thread; each takes one lock.\<close>

datatype client_step =
  Submit "token list" sampling_params
| Reg_sender nat
| Reg_model nat forward
| Reg_max_tokens nat nat
| Reg_params nat sampling_params

definition engine_request :: "token list \<Rightarrow> sampling_params \<Rightarrow> new_request" where
  "engine_request prompt params =
     \<lparr>nr_id = 0, nr_prompt = prompt, nr_sampling_params = params, nr_prefix_cached_tokens = 0, nr_cached_blocks = []\<rparr>"

fun client_exec :: "client_step \<Rightarrow> 'g sched_engine \<Rightarrow> 'g sched_engine" where
  "client_exec (Submit prompt params) e = e\<lparr>se_sched := snd (add_request (se_sched e) (engine_request prompt params))\<rparr>"
| "client_exec (Reg_sender i) e = e\<lparr>se_senders := List.insert i (se_senders e)\<rparr>"
| "client_exec (Reg_model i model) e = e\<lparr>se_models := (se_models e)(i \<mapsto> model)\<rparr>"
| "client_exec (Reg_max_tokens i n) e = e\<lparr>se_max_tokens := (se_max_tokens e)(i \<mapsto> n)\<rparr>"
| "client_exec (Reg_params i params) e = e\<lparr>se_params := (se_params e)(i \<mapsto> params)\<rparr>"

definition interfere :: "client_step list \<Rightarrow> 'g sched_engine \<Rightarrow> 'g sched_engine" where
  "interfere cs e = fold client_exec cs e"

definition registration :: "nat \<Rightarrow> forward \<Rightarrow> sampling_params \<Rightarrow> client_step list" where
  "registration i model params = [Reg_sender i, Reg_model i model, Reg_max_tokens i (max_tokens params), Reg_params i params]"

text \<open>The call without interference.\<close>

definition engine_generate ::
  "string \<Rightarrow> token list \<Rightarrow> sampling_params \<Rightarrow> 'g sched_engine \<Rightarrow> (model_error + nat) \<times> 'g sched_engine" where
  "engine_generate name prompt params e =
     (case se_registry e name of
        None \<Rightarrow> (Inl (NotFound name), e)
      | Some model \<Rightarrow>
          (let i = fst (add_request (se_sched e) (engine_request prompt params))
           in (Inr i, interfere (Submit prompt params # registration i model params) e)))"

section \<open>Forward passes\<close>

definition get_seq_params :: "nat \<Rightarrow> 'g sched_engine \<Rightarrow> sampling_params" where
  "get_seq_params i e = (case se_params e i of Some p \<Rightarrow> p | None \<Rightarrow> sampling_params_default)"

definition forward_for_seq :: "'g draw \<Rightarrow> nat \<Rightarrow> token list \<Rightarrow> sampling_params \<Rightarrow> 'g sched_engine \<Rightarrow> token option \<times> 'g sched_engine" where
  "forward_for_seq draw i new_tokens params e =
     (case se_models e i of
        None \<Rightarrow> (None, e)
      | Some model \<Rightarrow>
          (let full = (case se_context e i of Some c \<Rightarrow> c | None \<Rightarrow> []) @ new_tokens;
               e = e\<lparr>se_context := (se_context e)(i \<mapsto> full)\<rparr>
           in case model full of
                Inl _ \<Rightarrow> (None, e)
              | Inr logits \<Rightarrow>
                  (case sample_token_with_params draw logits params (se_rng e) of
                     (tok, rng) \<Rightarrow> (Some tok, e\<lparr>se_rng := rng\<rparr>))))"

definition forward_decode :: "'g draw \<Rightarrow> nat \<Rightarrow> sampling_params \<Rightarrow> 'g sched_engine \<Rightarrow> token option \<times> 'g sched_engine" where
  "forward_decode draw i params e =
     (case (se_models e i, se_context e i) of
        (Some model, Some prev) \<Rightarrow>
          (case model prev of
             Inl _ \<Rightarrow> (None, e)
           | Inr logits \<Rightarrow>
               (case sample_token_with_params draw logits params (se_rng e) of
                  (tok, rng) \<Rightarrow> (Some tok, e\<lparr>se_rng := rng, se_context := (se_context e)(i \<mapsto> prev @ [tok])\<rparr>)))
      | _ \<Rightarrow> (None, e))"

definition deliver :: "nat \<Rightarrow> generated_token \<Rightarrow> 'g sched_engine \<Rightarrow> 'g sched_engine" where
  "deliver i t e =
     (if i \<in> set (se_senders e) then e\<lparr>se_stream := (se_stream e)(i := se_stream e i @ [t])\<rparr> else e)"

definition is_seq_done :: "nat \<Rightarrow> 'g sched_engine \<Rightarrow> bool" where
  "is_seq_done i e =
     (case running_seq_generated (se_sched e) i of
        Some n \<Rightarrow> (case se_max_tokens e i of Some m \<Rightarrow> m \<le> n | None \<Rightarrow> u64_max \<le> n)
      | None \<Rightarrow> False)"

lemma is_seq_done_context [simp]: "is_seq_done i (e\<lparr>se_context := c\<rparr>) = is_seq_done i e"
  by (simp add: is_seq_done_def cong: option.case_cong)

section \<open>The loop\<close>

text \<open>The points between the locks of an iteration; a pass takes its locks at four points, a completion at two.\<close>

datatype loop_point = P_schedule | P_prefill nat nat | P_decode nat nat | P_complete | P_after | P_finish nat nat

definition send_sampled :: "(nat \<Rightarrow> client_step list) \<Rightarrow> nat \<Rightarrow> token option \<times> 'g sched_engine \<Rightarrow> 'g sched_engine" where
  "send_sampled env i r =
     (case r of
        (None, e) \<Rightarrow> e
      | (Some tok, e) \<Rightarrow>
          (let e = interfere (env 2) e; fin = is_seq_done i e; e = interfere (env 3) e
           in deliver i (mk_token tok (if fin then Some Length else None)) e))"

definition run_prefill :: "'g draw \<Rightarrow> (nat \<Rightarrow> client_step list) \<Rightarrow> prefill_step \<Rightarrow> 'g sched_engine \<Rightarrow> 'g sched_engine" where
  "run_prefill draw env st e =
     (let e = interfere (env 0) e; params = get_seq_params (ps_seq_id st) e; e = interfere (env 1) e
      in send_sampled env (ps_seq_id st) (forward_for_seq draw (ps_seq_id st) (ps_tokens st) params e))"

definition run_decode :: "'g draw \<Rightarrow> (nat \<Rightarrow> client_step list) \<Rightarrow> nat \<Rightarrow> 'g sched_engine \<Rightarrow> 'g sched_engine" where
  "run_decode draw env i e =
     (let e = interfere (env 0) e; params = get_seq_params i e; e = interfere (env 1) e
      in send_sampled env i (forward_decode draw i params e))"

definition final_token :: generated_token where
  "final_token = \<lparr>gt_id = 0, gt_text = [], gt_logprob = 0, gt_finish_reason = Some Length\<rparr>"

definition finish_seq :: "(nat \<Rightarrow> client_step list) \<Rightarrow> nat \<Rightarrow> 'g sched_engine \<Rightarrow> 'g sched_engine" where
  "finish_seq env i e =
     (let e = deliver i final_token (interfere (env 0) e);
          e = interfere (env 1) e
      in e\<lparr>se_senders := removeAll i (se_senders e), se_models := (se_models e)(i := None), se_context := (se_context e)(i := None),
           se_max_tokens := (se_max_tokens e)(i := None), se_params := (se_params e)(i := None)\<rparr>)"

definition run_schedule :: "'g draw \<Rightarrow> (loop_point \<Rightarrow> client_step list) \<Rightarrow> schedule \<Rightarrow> 'g sched_engine \<Rightarrow> 'g sched_engine" where
  "run_schedule draw env sch e =
     (let e = fold (\<lambda>(k, st). run_prefill draw (\<lambda>j. env (P_prefill k j)) st) (enumerate 0 (sch_prefill sch)) e;
          e = fold (\<lambda>(k, i). run_decode draw (\<lambda>j. env (P_decode k j)) i) (enumerate 0 (sch_decode sch)) e;
          e = interfere (env P_complete) e;
          sched = fold (\<lambda>st s. on_step_complete s (ps_seq_id st) 1) (sch_prefill sch) (se_sched e);
          sched = fold (\<lambda>i s. on_step_complete s i 1) (sch_decode sch) sched
      in e\<lparr>se_sched := sched\<rparr>)"

definition loop_step :: "'g draw \<Rightarrow> (loop_point \<Rightarrow> client_step list) \<Rightarrow> 'g sched_engine \<Rightarrow> 'g sched_engine option" where
  "loop_step draw env e =
     (let before = running_ids (se_sched e); e = interfere (env P_schedule) e in
      case do_schedule (se_sched e) of
        None \<Rightarrow> None
      | Some (sch, sched) \<Rightarrow>
          (let e = e\<lparr>se_sched := sched\<rparr>;
               e = (if sch_prefill sch = [] \<and> sch_decode sch = [] then e else run_schedule draw env sch e);
               e = interfere (env P_after) e;
               after = running_ids (se_sched e)
           in Some (fold (\<lambda>(k, i). finish_seq (\<lambda>j. env (P_finish k j)) i) (enumerate 0 (filter (\<lambda>i. i \<notin> set after) before)) e)))"

section \<open>What other sequences leave alone\<close>

text \<open>All that the engine keeps for one sequence, and the running sequences.\<close>

definition seq_view :: "nat \<Rightarrow> 'g sched_engine \<Rightarrow> bool \<times> forward option \<times> token list option \<times> nat option \<times> sampling_params option \<times> generated_token list" where
  "seq_view i e = (i \<in> set (se_senders e), se_models e i, se_context e i, se_max_tokens e i, se_params e i, se_stream e i)"

definition same_view :: "nat \<Rightarrow> 'g sched_engine \<Rightarrow> 'g sched_engine \<Rightarrow> bool" where
  "same_view i e e' \<longleftrightarrow> seq_view i e' = seq_view i e \<and> running (se_sched e') = running (se_sched e)"

lemma same_view_refl [simp]: "same_view i e e"
  by (simp add: same_view_def)

lemma same_view_trans: "same_view i e e' \<Longrightarrow> same_view i e' e'' \<Longrightarrow> same_view i e e''"
  by (simp add: same_view_def)

text \<open>A client step that is not about the sequence; submitting a request is about none.\<close>

fun about_seq :: "nat \<Rightarrow> client_step \<Rightarrow> bool" where
  "about_seq i (Submit _ _) \<longleftrightarrow> False"
| "about_seq i (Reg_sender j) \<longleftrightarrow> j = i"
| "about_seq i (Reg_model j _) \<longleftrightarrow> j = i"
| "about_seq i (Reg_max_tokens j _) \<longleftrightarrow> j = i"
| "about_seq i (Reg_params j _) \<longleftrightarrow> j = i"

definition others :: "nat \<Rightarrow> client_step list \<Rightarrow> bool" where
  "others i cs \<longleftrightarrow> list_all (\<lambda>c. \<not> about_seq i c) cs"

lemma client_exec_view: "\<not> about_seq i c \<Longrightarrow> same_view i e (client_exec c e)"
  by (cases c) (auto simp: same_view_def seq_view_def add_request_def Let_def)

lemma interfere_view: "others i cs \<Longrightarrow> same_view i e (interfere cs e)"
  unfolding interfere_def others_def
  by (induction cs arbitrary: e) (auto intro: same_view_trans client_exec_view)

lemma deliver_view: "j \<noteq> i \<Longrightarrow> same_view i e (deliver j t e)"
  by (simp add: same_view_def seq_view_def deliver_def)

lemma forward_view: "j \<noteq> i \<Longrightarrow> same_view i e (snd (forward_for_seq draw j ts p e))" "j \<noteq> i \<Longrightarrow> same_view i e (snd (forward_decode draw j p e))"
  by (auto simp: forward_for_seq_def forward_decode_def same_view_def seq_view_def Let_def split: option.splits sum.splits prod.splits)

lemma send_sampled_view: "j \<noteq> i \<Longrightarrow> \<forall>k. others i (env k) \<Longrightarrow> same_view i e (snd r) \<Longrightarrow> same_view i e (send_sampled env j r)"
proof (cases r)
  case (Pair t e1)
  assume *: "j \<noteq> i" "\<forall>k. others i (env k)" "same_view i e (snd r)"
  have "same_view i e (deliver j u (interfere (env 3) (interfere (env 2) e1)))" for u
    using * Pair by (metis same_view_trans interfere_view deliver_view snd_conv)
  then show ?thesis using * Pair by (cases t) (simp_all add: send_sampled_def Let_def)
qed

lemma other_pass_view:
  assumes "j \<noteq> i" and "\<forall>k. others i (env k)"
  shows "ps_seq_id st = j \<Longrightarrow> same_view i e (run_prefill draw env st e)" and "same_view i e (run_decode draw env j e)"
proof -
  have *: "same_view i e (interfere (env 1) (interfere (env 0) e))" using assms(2) by (blast intro: same_view_trans interfere_view)
  show "same_view i e (run_prefill draw env st e)" if "ps_seq_id st = j"
    unfolding run_prefill_def Let_def using assms that by (blast intro: send_sampled_view same_view_trans [OF *] forward_view)
  show "same_view i e (run_decode draw env j e)"
    unfolding run_decode_def Let_def using assms by (blast intro: send_sampled_view same_view_trans [OF *] forward_view)
qed

lemma is_seq_done_view: "same_view i e e' \<Longrightarrow> is_seq_done i e' = is_seq_done i e"
  by (auto simp: same_view_def seq_view_def is_seq_done_def running_seq_generated_def split: option.splits)

section \<open>The passes of a sequence\<close>

text \<open>The budget of a sequence is used up in the given scheduler state.\<close>

definition budget_used :: "scheduler \<Rightarrow> nat option \<Rightarrow> nat \<Rightarrow> bool" where
  "budget_used sched limit i \<longleftrightarrow>
     (\<exists>n. running_seq_generated sched i = Some n \<and> (case limit of Some m \<Rightarrow> m | None \<Rightarrow> u64_max) \<le> n)"

text \<open>A token that the model of the sequence and its parameters give on an extension of its context.\<close>

definition sampled_from :: "'g draw \<Rightarrow> nat \<Rightarrow> 'g sched_engine \<Rightarrow> token \<Rightarrow> bool" where
  "sampled_from draw i e t \<longleftrightarrow>
     (\<exists>model c logits rng. se_models e i = Some model \<and> model (case_option [] id (se_context e i) @ c) = Inr logits \<and>
        t = fst (sample_token_with_params draw logits (get_seq_params i e) rng))"

text \<open>From \<open>e0\<close> to \<open>e\<close> the sequence was sent the tokens \<open>ts\<close>, and only its context has changed otherwise.\<close>

definition streamed :: "'g draw \<Rightarrow> nat \<Rightarrow> 'g sched_engine \<Rightarrow> token list \<Rightarrow> 'g sched_engine \<Rightarrow> bool" where
  "streamed draw i e0 ts e \<longleftrightarrow>
     running (se_sched e) = running (se_sched e0) \<and> (i \<in> set (se_senders e) \<longleftrightarrow> i \<in> set (se_senders e0)) \<and>
     se_models e i = se_models e0 i \<and> se_max_tokens e i = se_max_tokens e0 i \<and> se_params e i = se_params e0 i \<and>
     (\<exists>c. case_option [] id (se_context e i) = case_option [] id (se_context e0 i) @ c) \<and>
     list_all (sampled_from draw i e0) ts \<and>
     se_stream e i = se_stream e0 i @
       (if i \<in> set (se_senders e0)
        then map (\<lambda>t. mk_token t (if budget_used (se_sched e0) (se_max_tokens e0 i) i then Some Length else None)) ts else [])"

lemma streamed_refl: "streamed draw i e [] e"
  by (simp add: streamed_def)

lemma streamed_view: "streamed draw i e0 ts e \<Longrightarrow> same_view i e e' \<Longrightarrow> streamed draw i e0 ts e'"
  by (simp add: streamed_def same_view_def seq_view_def)

lemma streamed_context:
  "streamed draw i e0 ts e \<Longrightarrow> se_context e' = (se_context e)(i \<mapsto> case_option [] id (se_context e i) @ c) \<Longrightarrow>
   se_senders e' = se_senders e \<Longrightarrow> se_models e' = se_models e \<Longrightarrow> se_max_tokens e' = se_max_tokens e \<Longrightarrow> se_params e' = se_params e \<Longrightarrow>
   se_stream e' = se_stream e \<Longrightarrow> se_sched e' = se_sched e \<Longrightarrow> streamed draw i e0 ts e'"
  by (fastforce simp: streamed_def)

lemma streamed_done: "streamed draw i e0 ts e \<Longrightarrow> is_seq_done i e \<longleftrightarrow> budget_used (se_sched e0) (se_max_tokens e0 i) i"
  by (auto simp: streamed_def is_seq_done_def budget_used_def running_seq_generated_def split: option.splits)

lemma streamed_params: "streamed draw i e0 ts e \<Longrightarrow> get_seq_params i e = get_seq_params i e0"
  by (simp add: streamed_def get_seq_params_def)

lemma streamed_deliver:
  assumes "streamed draw i e0 ts e" and "sampled_from draw i e0 t"
  shows "streamed draw i e0 (ts @ [t]) (deliver i (mk_token t (if is_seq_done i e then Some Length else None)) e)"
  unfolding streamed_done [OF assms(1)] using assms by (auto simp: streamed_def deliver_def)

lemma streamed_send:
  assumes "streamed draw i e0 ts e" and "sampled_from draw i e0 t" and "\<forall>k. others i (env k)"
  shows "streamed draw i e0 (ts @ [t]) (send_sampled env i (Some t, e))"
proof -
  let ?e = "interfere (env 3) (interfere (env 2) e)"
  have v: "same_view i (interfere (env 2) e) ?e" "same_view i e ?e" using assms(3) by (blast intro: same_view_trans interfere_view)+
  have "streamed draw i e0 (ts @ [t]) (deliver i (mk_token t (if is_seq_done i ?e then Some Length else None)) ?e)"
    by (rule streamed_deliver [OF streamed_view [OF assms(1) v(2)] assms(2)])
  then show ?thesis by (simp add: send_sampled_def Let_def is_seq_done_view [OF v(1)])
qed

text \<open>Whether the model of a sequence answers on every context.\<close>

definition total_model :: "nat \<Rightarrow> 'g sched_engine \<Rightarrow> bool" where
  "total_model i e \<longleftrightarrow> (\<exists>model. se_models e i = Some model \<and> (\<forall>c. \<exists>logits. model c = Inr logits))"

lemma own_prefill:
  assumes "streamed draw i e0 ts e" and "ps_seq_id st = i" and "\<forall>k. others i (env k)"
  shows "\<exists>us. streamed draw i e0 (ts @ us) (run_prefill draw env st e) \<and> length us \<le> 1 \<and>
    (total_model i e0 \<longrightarrow> length us = 1 \<and> se_context (run_prefill draw env st e) i \<noteq> None)"
proof -
  let ?e = "interfere (env 1) (interfere (env 0) e)" and ?p = "get_seq_params i (interfere (env 0) e)"
  have "streamed draw i e0 ts ?e" "streamed draw i e0 ts (interfere (env 0) e)"
    using assms(1,3) by (blast intro: streamed_view interfere_view)+
  note s = this(1) and p = streamed_params [OF this(2)]
  obtain r e1 where f: "forward_for_seq draw i (ps_tokens st) (get_seq_params i e0) ?e = (r, e1)" by fastforce
  have run: "run_prefill draw env st e = send_sampled env i (r, e1)" using f assms(2) by (simp add: run_prefill_def Let_def p)
  show ?thesis
  proof (cases "se_models ?e i")
    case None
    then have "r = None" "e1 = ?e" "\<not> total_model i e0" using f s by (auto simp: forward_for_seq_def total_model_def streamed_def)
    then show ?thesis using run s by (intro exI [of _ "[]"]) (simp add: send_sampled_def)
  next
    case (Some model)
    then have m: "se_models e0 i = Some model" using s by (simp add: streamed_def)
    obtain c where c: "case_option [] id (se_context ?e i) = case_option [] id (se_context e0 i) @ c" using s unfolding streamed_def by blast
    let ?full = "case_option [] id (se_context ?e i) @ ps_tokens st" and ?c = "c @ ps_tokens st"
    let ?e2 = "?e\<lparr>se_context := (se_context ?e)(i \<mapsto> ?full)\<rparr>"
    have s2: "streamed draw i e0 ts ?e2" by (rule streamed_context [OF s]) simp_all
    have full: "(case se_context ?e i of Some c \<Rightarrow> c | None \<Rightarrow> []) @ ps_tokens st = ?full" by (simp split: option.split)
    show ?thesis
    proof (cases "model ?full")
      case (Inl x)
      then have "r = None" "e1 = ?e2" "\<not> total_model i e0"
        using f Some m unfolding forward_for_seq_def full by (auto simp: total_model_def) (metis sum.distinct(1))
      then show ?thesis using run s2 by (intro exI [of _ "[]"]) (simp add: send_sampled_def)
    next
      case (Inr logits)
      obtain tok rng where t: "sample_token_with_params draw logits (get_seq_params i e0) (se_rng ?e) = (tok, rng)" by fastforce
      then have r: "r = Some tok" "e1 = ?e2\<lparr>se_rng := rng\<rparr>" using f Some Inr unfolding forward_for_seq_def full by auto
      have "model (case_option [] id (se_context e0 i) @ ?c) = Inr logits" using Inr c by simp
      then have "sampled_from draw i e0 tok" using m t unfolding sampled_from_def by (metis fst_conv)
      moreover have "streamed draw i e0 ts e1" unfolding r(2) using s2 by (simp add: streamed_def)
      ultimately have "streamed draw i e0 (ts @ [tok]) (send_sampled env i (Some tok, e1))" using streamed_send assms(3) by blast
      moreover have "se_context (send_sampled env i (Some tok, e1)) i = se_context e1 i"
        using interfere_view [of i "env 2" e1] interfere_view [of i "env 3" "interfere (env 2) e1"] assms(3)
        by (simp add: send_sampled_def Let_def deliver_def same_view_def seq_view_def)
      ultimately show ?thesis using run r by (intro exI [of _ "[tok]"]) simp
    qed
  qed
qed

lemma own_decode:
  assumes "streamed draw i e0 ts e" and "\<forall>k. others i (env k)"
  shows "\<exists>us. streamed draw i e0 (ts @ us) (run_decode draw env i e) \<and> length us \<le> 1 \<and>
    (total_model i e0 \<longrightarrow> length us = (if se_context e i = None then 0 else 1)) \<and>
    (se_context (run_decode draw env i e) i = None \<longleftrightarrow> se_context e i = None)"
proof -
  let ?e = "interfere (env 1) (interfere (env 0) e)"
  have "streamed draw i e0 ts ?e" "streamed draw i e0 ts (interfere (env 0) e)" "same_view i e ?e"
    using assms by (blast intro: streamed_view same_view_trans interfere_view)+
  note s = this(1) and p = streamed_params [OF this(2)] and ctx = this(3)
  have c0: "se_context ?e i = se_context e i" using ctx by (simp add: same_view_def seq_view_def)
  obtain r e1 where f: "forward_decode draw i (get_seq_params i e0) ?e = (r, e1)" by fastforce
  have run: "run_decode draw env i e = send_sampled env i (r, e1)" using f by (simp add: run_decode_def Let_def p)
  show ?thesis
  proof (cases "r")
    case None
    then have "e1 = ?e" using f by (auto simp: forward_decode_def split: option.splits sum.splits prod.splits)
    moreover have "\<not> (total_model i e0 \<and> se_context e i \<noteq> None)"
    proof
      assume a: "total_model i e0 \<and> se_context e i \<noteq> None"
      then obtain model prev where mp: "se_models ?e i = Some model" "se_context ?e i = Some prev" "\<forall>c. \<exists>logits. model c = Inr logits"
        using s c0 by (auto simp: total_model_def streamed_def)
      then obtain logits where "model prev = Inr logits" by blast
      then show False using f None mp by (auto simp: forward_decode_def split: prod.splits)
    qed
    ultimately show ?thesis using run s None c0 by (intro exI [of _ "[]"]) (auto simp: send_sampled_def)
  next
    case (Some tok)
    then obtain model prev logits rng where m: "se_models ?e i = Some model" "se_context ?e i = Some prev" "model prev = Inr logits"
      "sample_token_with_params draw logits (get_seq_params i e0) (se_rng ?e) = (tok, rng)"
      "e1 = ?e\<lparr>se_rng := rng, se_context := (se_context ?e)(i \<mapsto> prev @ [tok])\<rparr>"
      using f by (auto simp: forward_decode_def split: option.splits sum.splits prod.splits)
    obtain c where c: "prev = case_option [] id (se_context e0 i) @ c" using s m(2) unfolding streamed_def by auto
    have "sampled_from draw i e0 tok" unfolding sampled_from_def using s m(1,3,4) c
      by (intro exI [of _ model] exI [of _ c] exI [of _ logits] exI [of _ "se_rng ?e"]) (simp add: streamed_def)
    moreover have "streamed draw i e0 ts e1" unfolding m(5) by (rule streamed_context [OF s, of _ "[tok]"]) (use m(2) in simp_all)
    ultimately have "streamed draw i e0 (ts @ [tok]) (send_sampled env i (Some tok, e1))" using streamed_send assms(2) by blast
    moreover have "se_context (send_sampled env i (Some tok, e1)) i = se_context e1 i"
      using interfere_view [of i "env 2" e1] interfere_view [of i "env 3" "interfere (env 2) e1"] assms(2)
      by (simp add: send_sampled_def Let_def deliver_def same_view_def seq_view_def)
    moreover have "se_context e i = Some prev" using c0 m(2) by metis
    moreover have "se_context e1 i \<noteq> None" by (simp add: m(5))
    ultimately show ?thesis using run Some by (intro exI [of _ "[tok]"]) simp
  qed
qed

lemma prefill_passes:
  assumes "\<forall>k j. others i (env (P_prefill k j))" and "streamed draw i e0 ts e"
  shows "\<exists>us. streamed draw i e0 (ts @ us) (fold (\<lambda>(k, st). run_prefill draw (\<lambda>j. env (P_prefill k j)) st) (enumerate n xs) e) \<and>
    length us \<le> length (filter (\<lambda>st. ps_seq_id st = i) xs) \<and>
    (total_model i e0 \<longrightarrow> length us = length (filter (\<lambda>st. ps_seq_id st = i) xs) \<and>
      (se_context (fold (\<lambda>(k, st). run_prefill draw (\<lambda>j. env (P_prefill k j)) st) (enumerate n xs) e) i = None
        \<longleftrightarrow> se_context e i = None \<and> i \<notin> ps_seq_id ` set xs))"
  using assms(2)
proof (induction xs arbitrary: n ts e)
  case Nil
  then show ?case by (intro exI [of _ "[]"]) simp
next
  case (Cons st xs)
  let ?env = "\<lambda>j. env (P_prefill n j)"
  let ?e = "run_prefill draw ?env st e"
  have o: "\<forall>k. others i (?env k)" using assms(1) by blast
  show ?case
  proof (cases "ps_seq_id st = i")
    case True
    obtain us where us: "streamed draw i e0 (ts @ us) ?e" "length us \<le> 1"
      "total_model i e0 \<longrightarrow> length us = 1 \<and> se_context ?e i \<noteq> None"
      using own_prefill [OF Cons.prems True o] by blast
    obtain vs where "streamed draw i e0 ((ts @ us) @ vs)
        (fold (\<lambda>(k, st). run_prefill draw (\<lambda>j. env (P_prefill k j)) st) (enumerate (Suc n) xs) ?e)"
      "length vs \<le> length (filter (\<lambda>st. ps_seq_id st = i) xs)"
      "total_model i e0 \<longrightarrow> length vs = length (filter (\<lambda>st. ps_seq_id st = i) xs) \<and>
        (se_context (fold (\<lambda>(k, st). run_prefill draw (\<lambda>j. env (P_prefill k j)) st) (enumerate (Suc n) xs) ?e) i = None
          \<longleftrightarrow> se_context ?e i = None \<and> i \<notin> ps_seq_id ` set xs)"
      using Cons.IH [OF us(1), of "Suc n"] by (elim exE conjE) (rule that)
    then show ?thesis using us True by (intro exI [of _ "us @ vs"]) auto
  next
    case False
    have v: "same_view i e ?e" using other_pass_view(1) [OF False o refl] .
    then have "se_context ?e i = se_context e i" by (simp add: same_view_def seq_view_def)
    then show ?thesis using Cons.IH [OF streamed_view [OF Cons.prems v], of "Suc n"] False by auto
  qed
qed

lemma decode_passes:
  assumes "\<forall>k j. others i (env (P_decode k j))" and "streamed draw i e0 ts e"
  shows "\<exists>us. streamed draw i e0 (ts @ us) (fold (\<lambda>(k, i). run_decode draw (\<lambda>j. env (P_decode k j)) i) (enumerate n xs) e) \<and>
    length us \<le> count_list xs i \<and> (total_model i e0 \<longrightarrow> length us = (if se_context e i = None then 0 else count_list xs i))"
  using assms(2)
proof (induction xs arbitrary: n ts e)
  case Nil
  then show ?case by (intro exI [of _ "[]"]) simp
next
  case (Cons x xs)
  let ?env = "\<lambda>j. env (P_decode n j)"
  let ?e = "run_decode draw ?env x e"
  have o: "\<forall>k. others i (?env k)" using assms(1) by blast
  show ?case
  proof (cases "x = i")
    case True
    obtain us where us: "streamed draw i e0 (ts @ us) ?e" "length us \<le> 1" "se_context ?e i = None \<longleftrightarrow> se_context e i = None"
      "total_model i e0 \<longrightarrow> length us = (if se_context e i = None then 0 else 1)"
      using own_decode [OF Cons.prems o] unfolding True by auto
    obtain vs where "streamed draw i e0 ((ts @ us) @ vs)
        (fold (\<lambda>(k, i). run_decode draw (\<lambda>j. env (P_decode k j)) i) (enumerate (Suc n) xs) ?e)" "length vs \<le> count_list xs i"
      "total_model i e0 \<longrightarrow> length vs = (if se_context ?e i = None then 0 else count_list xs i)"
      using Cons.IH [OF us(1), of "Suc n"] by (elim exE conjE) (rule that)
    then show ?thesis using us True by (intro exI [of _ "us @ vs"]) auto
  next
    case False
    have v: "same_view i e ?e" using other_pass_view(2) [OF False o] .
    then have "se_context ?e i = se_context e i" by (simp add: same_view_def seq_view_def)
    then show ?thesis using Cons.IH [OF streamed_view [OF Cons.prems v], of "Suc n"] False by auto
  qed
qed

section \<open>Completions\<close>

lemma finish_other: "j \<noteq> i \<Longrightarrow> \<forall>k. others i (env k) \<Longrightarrow> same_view i e (finish_seq env j e)"
proof -
  assume *: "j \<noteq> i" "\<forall>k. others i (env k)"
  then have "same_view i e (interfere (env 1) (deliver j final_token (interfere (env 0) e)))"
    by (blast intro: same_view_trans interfere_view deliver_view)
  then show ?thesis using *(1) by (simp add: finish_seq_def Let_def same_view_def seq_view_def)
qed

lemma finish_own:
  assumes "\<forall>k. others i (env k)"
  shows "seq_view i (finish_seq env i e) =
      (False, None, None, None, None, se_stream e i @ (if i \<in> set (se_senders e) then [final_token] else []))"
    and "running (se_sched (finish_seq env i e)) = running (se_sched e)"
proof -
  let ?e0 = "interfere (env 0) e"
  let ?e1 = "deliver i final_token ?e0"
  have v: "same_view i e ?e0" "same_view i ?e1 (interfere (env 1) ?e1)" using assms interfere_view by blast+
  then show "seq_view i (finish_seq env i e) =
      (False, None, None, None, None, se_stream e i @ (if i \<in> set (se_senders e) then [final_token] else []))"
    "running (se_sched (finish_seq env i e)) = running (se_sched e)"
    by (auto simp: finish_seq_def Let_def same_view_def seq_view_def deliver_def)
qed

lemma finish_all:
  assumes "\<forall>k j. others i (env (P_finish k j))"
  shows "running (se_sched (fold (\<lambda>(k, i). finish_seq (\<lambda>j. env (P_finish k j)) i) (enumerate n xs) e)) = running (se_sched e) \<and>
    seq_view i (fold (\<lambda>(k, i). finish_seq (\<lambda>j. env (P_finish k j)) i) (enumerate n xs) e) =
      (if i \<in> set xs then (False, None, None, None, None, se_stream e i @ (if i \<in> set (se_senders e) then [final_token] else []))
       else seq_view i e)"
proof (induction xs arbitrary: n e)
  case (Cons x xs)
  let ?e = "finish_seq (\<lambda>j. env (P_finish n j)) x e"
  have o: "\<forall>k. others i (env (P_finish n k))" using assms by blast
  show ?case
  proof (cases "x = i")
    case True
    with finish_own [OF o, of e] have "seq_view i ?e =
        (False, None, None, None, None, se_stream e i @ (if i \<in> set (se_senders e) then [final_token] else []))"
      "running (se_sched ?e) = running (se_sched e)" by simp_all
    moreover from this have "i \<notin> set (se_senders ?e)"
      "se_stream ?e i = se_stream e i @ (if i \<in> set (se_senders e) then [final_token] else [])" by (simp_all add: seq_view_def)
    ultimately show ?thesis using Cons.IH [of "Suc n" ?e] True by simp
  next
    case False
    have v: "same_view i e ?e" using finish_other [OF False o] .
    then have "se_stream ?e i = se_stream e i" "i \<in> set (se_senders ?e) \<longleftrightarrow> i \<in> set (se_senders e)" by (simp_all add: same_view_def seq_view_def)
    then show ?thesis using Cons.IH [of "Suc n" ?e] False v by (simp add: same_view_def)
  qed
qed simp

section \<open>Properties\<close>

lemma same_fields_sampled:
  assumes "se_models e' i = se_models e i" and "se_context e' i = se_context e i" and "se_params e' i = se_params e i"
  shows "sampled_from draw i e' t = sampled_from draw i e t" and "total_model i e' = total_model i e"
  using assms by (simp_all add: sampled_from_def total_model_def get_seq_params_def)

lemma run_schedule_streamed:
  assumes "\<And>pt. others i (env pt)"
  shows "\<exists>ts. streamed draw i e ts ((run_schedule draw env sch e)\<lparr>se_sched := se_sched e\<rparr>) \<and>
    length ts \<le> length (filter (\<lambda>st. ps_seq_id st = i) (sch_prefill sch)) + count_list (sch_decode sch) i \<and>
    (total_model i e \<longrightarrow> length ts = length (filter (\<lambda>st. ps_seq_id st = i) (sch_prefill sch)) +
      (if se_context e i = None \<and> i \<notin> ps_seq_id ` set (sch_prefill sch) then 0 else count_list (sch_decode sch) i))"
proof -
  let ?e1 = "fold (\<lambda>(k, st). run_prefill draw (\<lambda>j. env (P_prefill k j)) st) (enumerate 0 (sch_prefill sch)) e"
  let ?e2 = "fold (\<lambda>(k, i). run_decode draw (\<lambda>j. env (P_decode k j)) i) (enumerate 0 (sch_decode sch)) ?e1"
  obtain us where us: "streamed draw i e ([] @ us) ?e1" "length us \<le> length (filter (\<lambda>st. ps_seq_id st = i) (sch_prefill sch))"
    "total_model i e \<longrightarrow> length us = length (filter (\<lambda>st. ps_seq_id st = i) (sch_prefill sch)) \<and>
      (se_context ?e1 i = None \<longleftrightarrow> se_context e i = None \<and> i \<notin> ps_seq_id ` set (sch_prefill sch))"
    using prefill_passes [OF _ streamed_refl, of i env draw e 0 "sch_prefill sch"] assms by (elim exE conjE meta_impE) (blast, rule that)
  obtain vs where vs: "streamed draw i e (([] @ us) @ vs) ?e2" "length vs \<le> count_list (sch_decode sch) i"
    "total_model i e \<longrightarrow> length vs = (if se_context ?e1 i = None then 0 else count_list (sch_decode sch) i)"
    using decode_passes [OF _ us(1), of env 0 "sch_decode sch"] assms by (elim exE conjE meta_impE) (blast, rule that)
  have "streamed draw i e (us @ vs) (interfere (env P_complete) ?e2)"
    using streamed_view [OF vs(1) interfere_view [OF assms]] by simp
  then have "streamed draw i e (us @ vs) ((run_schedule draw env sch e)\<lparr>se_sched := se_sched e\<rparr>)"
    by (simp add: run_schedule_def Let_def streamed_def)
  then show ?thesis using us(2,3) vs(2,3) by (intro exI [of _ "us @ vs"]) auto
qed

text \<open>C6: an iteration of the engine completes the streams of the finished sequences and no others, whatever other clients do meanwhile. A
  sequence that is not being registered during the iteration is sent one sampled token for every pass that the scheduler
  planned for it and that its model answers, each with the reason \<open>Length\<close> exactly if its budget was used up when the iteration was
  scheduled. If it was running and no longer is, one more token with the reason \<open>Length\<close> follows, its channel is closed and its model, context,
  budget and parameters are forgotten; otherwise nothing more is sent, and its channel, model, budget and parameters stay.\<close>

theorem loop_step_completes_streams:
  assumes "loop_step draw env e = Some e'" and "\<And>pt. others i (env pt)"
  shows "\<exists>sch sched ts. do_schedule (se_sched (interfere (env P_schedule) e)) = Some (sch, sched) \<and>
    list_all (sampled_from draw i e) ts \<and>
    length ts \<le> length (filter (\<lambda>st. ps_seq_id st = i) (sch_prefill sch)) + count_list (sch_decode sch) i \<and>
    (total_model i e \<longrightarrow> length ts = length (filter (\<lambda>st. ps_seq_id st = i) (sch_prefill sch)) +
      (if se_context e i = None \<and> i \<notin> ps_seq_id ` set (sch_prefill sch) then 0 else count_list (sch_decode sch) i)) \<and>
    (let left = (i \<in> set (running_ids (se_sched e)) \<and> i \<notin> set (running_ids (se_sched e')))
     in se_stream e' i = se_stream e i @
          (if i \<in> set (se_senders e)
           then map (\<lambda>t. mk_token t (if budget_used sched (se_max_tokens e i) i then Some Length else None)) ts @
             (if left then [\<lparr>gt_id = 0, gt_text = [], gt_logprob = 0, gt_finish_reason = Some Length\<rparr>] else [])
           else []) \<and>
        (if left then i \<notin> set (se_senders e') \<and> se_models e' i = None \<and> se_context e' i = None \<and> se_max_tokens e' i = None \<and> se_params e' i = None
         else (i \<in> set (se_senders e') \<longleftrightarrow> i \<in> set (se_senders e)) \<and> se_models e' i = se_models e i \<and>
           se_max_tokens e' i = se_max_tokens e i \<and> se_params e' i = se_params e i))"
proof -
  let ?e0 = "interfere (env P_schedule) e"
  obtain sch sched where d: "do_schedule (se_sched ?e0) = Some (sch, sched)"
    using assms(1) by (auto simp: loop_step_def Let_def split: option.splits)
  define e1 where "e1 = ?e0\<lparr>se_sched := sched\<rparr>"
  define e2 where "e2 = (if sch_prefill sch = [] \<and> sch_decode sch = [] then e1 else run_schedule draw env sch e1)"
  define e3 where "e3 = interfere (env P_after) e2"
  define xs where "xs = filter (\<lambda>i. i \<notin> set (running_ids (se_sched e3))) (running_ids (se_sched e))"
  have "loop_step draw env e = Some (fold (\<lambda>(k, i). finish_seq (\<lambda>j. env (P_finish k j)) i) (enumerate 0 xs) e3)"
    unfolding loop_step_def Let_def d e1_def e2_def e3_def xs_def by simp
  then have e': "e' = fold (\<lambda>(k, i). finish_seq (\<lambda>j. env (P_finish k j)) i) (enumerate 0 xs) e3" using assms(1) by simp
  have v0: "i \<in> set (se_senders e1) \<longleftrightarrow> i \<in> set (se_senders e)" "se_models e1 i = se_models e i" "se_context e1 i = se_context e i"
    "se_max_tokens e1 i = se_max_tokens e i" "se_params e1 i = se_params e i" "se_stream e1 i = se_stream e i"
    using interfere_view [OF assms(2) [of P_schedule], of e] by (simp_all add: e1_def same_view_def seq_view_def)
  obtain ts where ts: "streamed draw i e1 ts (e2\<lparr>se_sched := se_sched e1\<rparr>)"
    "length ts \<le> length (filter (\<lambda>st. ps_seq_id st = i) (sch_prefill sch)) + count_list (sch_decode sch) i"
    "total_model i e \<longrightarrow> length ts = length (filter (\<lambda>st. ps_seq_id st = i) (sch_prefill sch)) +
      (if se_context e i = None \<and> i \<notin> ps_seq_id ` set (sch_prefill sch) then 0 else count_list (sch_decode sch) i)"
  proof (cases "sch_prefill sch = [] \<and> sch_decode sch = []")
    case True
    then show ?thesis using streamed_refl [of draw i e1] by (intro that [of "[]"]) (simp_all add: e2_def)
  next
    case False
    then show ?thesis
      using run_schedule_streamed [of i env draw e1 sch, OF assms(2)] same_fields_sampled(2) [OF v0(2,3,5)] v0(3)
      by (auto simp: e2_def intro: that)
  qed
  have samp: "list_all (sampled_from draw i e) ts"
    using ts(1) same_fields_sampled(1) [OF v0(2,3,5)] by (simp add: streamed_def list_all_iff)
  have v3: "same_view i e2 e3" unfolding e3_def using interfere_view assms(2) by blast
  have v2: "i \<in> set (se_senders e3) \<longleftrightarrow> i \<in> set (se_senders e)" "se_models e3 i = se_models e i" "se_max_tokens e3 i = se_max_tokens e i"
    "se_params e3 i = se_params e i"
    "se_stream e3 i = se_stream e i @ (if i \<in> set (se_senders e)
       then map (\<lambda>t. mk_token t (if budget_used sched (se_max_tokens e i) i then Some Length else None)) ts else [])"
    using ts(1) v3 v0 by (simp_all add: streamed_def same_view_def seq_view_def) (simp_all add: e1_def)
  have f: "running (se_sched e') = running (se_sched e3)" "seq_view i e' =
      (if i \<in> set xs then (False, None, None, None, None, se_stream e3 i @ (if i \<in> set (se_senders e3) then [final_token] else []))
       else seq_view i e3)"
    using finish_all [of i env 0 xs e3] assms(2) unfolding e' by blast+
  have left: "i \<in> set xs \<longleftrightarrow> i \<in> set (running_ids (se_sched e)) \<and> i \<notin> set (running_ids (se_sched e'))"
    using f(1) by (auto simp: xs_def running_ids_def)
  have stream: "se_stream e' i = se_stream e i @
      (if i \<in> set (se_senders e)
       then map (\<lambda>t. mk_token t (if budget_used sched (se_max_tokens e i) i then Some Length else None)) ts @
         (if i \<in> set xs then [\<lparr>gt_id = 0, gt_text = [], gt_logprob = 0, gt_finish_reason = Some Length\<rparr>] else [])
       else [])"
    using f(2) v2(1,5) by (cases "i \<in> set xs"; cases "i \<in> set (se_senders e)") (simp_all add: seq_view_def final_token_def)
  have tables: "if i \<in> set xs
      then i \<notin> set (se_senders e') \<and> se_models e' i = None \<and> se_context e' i = None \<and> se_max_tokens e' i = None \<and> se_params e' i = None
      else (i \<in> set (se_senders e') \<longleftrightarrow> i \<in> set (se_senders e)) \<and> se_models e' i = se_models e i \<and>
        se_max_tokens e' i = se_max_tokens e i \<and> se_params e' i = se_params e i"
    using f(2) v2(1-4) by (cases "i \<in> set xs") (simp_all add: seq_view_def)
  show ?thesis
    unfolding Let_def left [symmetric]
    by (intro exI [of _ sch] exI [of _ sched] exI [of _ ts] conjI d samp ts(2,3) stream tables)
qed

definition engine_example :: "unit sched_engine" where
  "engine_example = snd (engine_generate ''m'' [7, 8, 9] (sampling_params_default\<lparr>temperature := 0, max_tokens := 2\<rparr>)
     (sched_engine_new [''m'' \<mapsto> mock_forward (mock_new 26)] example_start ()))"

lemma engine_example_sched: "se_sched engine_example =
    snd (add_request example_start ((example_request [7, 8, 9] 2)
      \<lparr>nr_sampling_params := sampling_params_default\<lparr>temperature := 0, max_tokens := 2\<rparr>\<rparr>))"
  by (simp add: engine_example_def engine_generate_def sched_engine_new_def add_request_def example_request_def engine_request_def
      interfere_def registration_def Let_def)

lemma engine_example_generated:
  "map_option (\<lambda>(_, s). running_seq_generated s 1) (do_schedule (se_sched engine_example)) = Some (Some 0)"
  unfolding engine_example_sched by (simp add: example_simps running_seq_generated_def)

lemma engine_example_schedules:
  "map_option fst (do_schedule (se_sched engine_example)) =
     Some \<lparr>sch_prefill = [\<lparr>ps_seq_id = 1, ps_tokens = [7, 8, 9], ps_computed_tokens = 0\<rparr>], sch_decode = [], sch_back_pressure = False\<rparr>"
  unfolding engine_example_sched by (simp add: example_simps)

theorem loop_step_completes_streams_witness:
  "\<exists>e' t. loop_step (\<lambda>_ _ g. (0, g)) (\<lambda>pt. if pt = P_prefill 0 1 then [Submit [1] sampling_params_default, Reg_sender 2] else []) engine_example = Some e' \<and>
     se_stream e' 1 = [mk_token t None] \<and> 1 \<in> set (se_senders e')"
proof -
  let ?env = "\<lambda>pt. if pt = P_prefill 0 1 then [Submit [1] sampling_params_default, Reg_sender 2] else []" and ?draw = "\<lambda>_ _ g. (0, g)"
  let ?sch = "\<lparr>sch_prefill = [\<lparr>ps_seq_id = 1, ps_tokens = [7, 8, 9], ps_computed_tokens = 0\<rparr>], sch_decode = [], sch_back_pressure = False\<rparr>"
  obtain sched where d: "do_schedule (se_sched engine_example) = Some (?sch, sched)"
    using engine_example_schedules by fastforce
  then obtain e' where e': "loop_step ?draw ?env engine_example = Some e'"
    by (simp add: loop_step_def Let_def interfere_def)
  have o: "others 1 (?env pt)" for pt by (simp add: others_def)
  have x: "se_models engine_example 1 = Some (mock_forward (mock_new 26))" "1 \<in> set (se_senders engine_example)" "se_stream engine_example 1 = []"
    "running (se_sched engine_example) = []" "se_max_tokens engine_example 1 = Some 2"
    by (simp_all add: engine_example_def engine_generate_def sched_engine_new_def add_request_def example_start_def scheduler_new_def
        interfere_def registration_def Let_def)
  have "total_model 1 engine_example" using x(1) by (simp add: total_model_def mock_forward_def)
  with loop_step_completes_streams [OF e' o] d x obtain ts where ts: "length ts = 1" "1 \<in> set (se_senders e')"
    "se_stream e' 1 = map (\<lambda>t. mk_token t (if budget_used sched (Some 2) 1 then Some Length else None)) ts"
    by (auto simp: running_ids_def interfere_def)
  moreover have "\<not> budget_used sched (Some 2) 1" using engine_example_generated d by (simp add: budget_used_def)
  ultimately show ?thesis using e' by (cases ts) auto
qed

text \<open>The token sampled at the end of the prefill is streamed twice. The prefill pass sends the greedy token after the prompt but does
  not add it to the context, so the first decode pass samples the same context and sends the same token again, where
  decoding goes on with the token after it.\<close>

theorem prefill_token_streamed_twice:
  assumes "se_models e (ps_seq_id st) = Some model" and "\<And>ctx. model ctx = Inr (logits ctx)"
    and "temperature (get_seq_params (ps_seq_id st) e) \<le> 1 / 2 ^ 23" and "ps_seq_id st \<in> set (se_senders e)"
    and "ctx = (case se_context e (ps_seq_id st) of Some c \<Rightarrow> c | None \<Rightarrow> []) @ ps_tokens st"
  shows "\<exists>r r'. se_stream (run_decode draw (\<lambda>_. []) (ps_seq_id st) (run_prefill draw (\<lambda>_. []) st e)) (ps_seq_id st)
     = se_stream e (ps_seq_id st) @ [mk_token (engine_argmax (logits ctx)) r, mk_token (engine_argmax (logits ctx)) r']"
proof -
  let ?i = "ps_seq_id st" and ?t = "engine_argmax (logits ctx)"
  define r where "r = (if is_seq_done ?i e then Some Length else None)"
  define e1 where "e1 = e\<lparr>se_context := (se_context e)(?i \<mapsto> ctx), se_stream := (se_stream e)(?i := se_stream e ?i @ [mk_token ?t r])\<rparr>"
  have "forward_for_seq draw ?i (ps_tokens st) (get_seq_params ?i e) e = (Some ?t, e\<lparr>se_context := (se_context e)(?i \<mapsto> ctx)\<rparr>)"
    using assms(1,3) assms(2) [of ctx] assms(5) by (simp add: forward_for_seq_def sample_token_with_params_def Let_def)
  then have e1: "run_prefill draw (\<lambda>_. []) st e = e1"
    using assms(4) by (simp add: run_prefill_def send_sampled_def deliver_def e1_def r_def interfere_def)
  have p: "get_seq_params ?i e1 = get_seq_params ?i e" by (simp add: get_seq_params_def e1_def)
  have "forward_decode draw ?i (get_seq_params ?i e1) e1 = (Some ?t, e1\<lparr>se_context := (se_context e1)(?i \<mapsto> ctx @ [?t])\<rparr>)"
    using assms(1,3) assms(2) [of ctx] unfolding p by (simp add: forward_decode_def sample_token_with_params_def e1_def)
  then show ?thesis
    using assms(4) unfolding e1 by (auto simp: run_decode_def send_sampled_def deliver_def e1_def interfere_def)
qed

theorem prefill_token_streamed_twice_witness:
  "\<exists>r r'. se_stream (run_decode (\<lambda>_ _ g. (0, g)) (\<lambda>_. []) 1 (run_prefill (\<lambda>_ _ g. (0, g)) (\<lambda>_. []) \<lparr>ps_seq_id = 1, ps_tokens = [7, 8, 9], ps_computed_tokens = 0\<rparr> engine_example)) 1
     = [mk_token 10 r, mk_token 10 r']"
proof -
  let ?st = "\<lparr>ps_seq_id = 1, ps_tokens = [7, 8, 9], ps_computed_tokens = 0\<rparr>"
  have f: "se_models engine_example (ps_seq_id ?st) = Some (mock_forward (mock_new 26))"
    "temperature (get_seq_params (ps_seq_id ?st) engine_example) \<le> 1 / 2 ^ 23" "ps_seq_id ?st \<in> set (se_senders engine_example)"
    "[7, 8, 9] = (case se_context engine_example (ps_seq_id ?st) of Some c \<Rightarrow> c | None \<Rightarrow> []) @ ps_tokens ?st"
    "se_stream engine_example 1 = []"
    by (simp_all add: engine_example_def engine_generate_def sched_engine_new_def add_request_def example_start_def scheduler_new_def
        get_seq_params_def interfere_def registration_def Let_def)
  have "engine_argmax (mock_logits (mock_new 26) [7, 8, 9]) = 10" by code_simp
  with prefill_token_streamed_twice [where st = ?st and logits = "mock_logits (mock_new 26)", OF f(1) mock_forward_def f(2-4)] f(5)
  show ?thesis by simp
qed

text \<open>A sequence without a context entry, such as one whose whole prompt comes from the prefix cache, is sent nothing by its decode passes.\<close>

lemma no_context_streams_nothing: "se_context e i = None \<Longrightarrow> run_decode draw (\<lambda>_. []) i e = e"
  by (auto simp: run_decode_def forward_decode_def send_sampled_def interfere_def split: option.splits)

text \<open>A request becomes visible to the loop before its model is registered. If it is scheduled in between, the passes over its prompt are
  skipped, its context stays empty, and the decode passes send nothing even after the model is registered.\<close>

lemma unregistered_prompt_lost:
  assumes "se_models e (ps_seq_id st) = None" and "se_context e (ps_seq_id st) = None"
  shows "run_decode draw (\<lambda>_. []) (ps_seq_id st) (interfere (registration (ps_seq_id st) model params) (run_prefill draw (\<lambda>_. []) st e)) =
    interfere (registration (ps_seq_id st) model params) e"
proof -
  have "run_prefill draw (\<lambda>_. []) st e = e"
    using assms(1) by (simp add: run_prefill_def forward_for_seq_def send_sampled_def interfere_def)
  moreover have "se_context (interfere (registration (ps_seq_id st) model params) e) (ps_seq_id st) = None"
    using assms(2) by (simp add: interfere_def registration_def)
  ultimately show ?thesis using no_context_streams_nothing by metis
qed

end
