(* ===== verification/Control_Plane.thy ===== *)
theory Control_Plane
  imports Complex_Main Prelude
begin

text \<open>
  Model resolution and request routing: \<^verbatim>\<open>crates/justapi-inference/src/control_plane.rs\<close> (the registry of models, versions
  and adapters), \<^verbatim>\<open>router.rs\<close> (selection of a replica) and \<^verbatim>\<open>gateway.rs\<close> (readiness and endpoints) of the same crate.

  \<^item> The registry is a list of entries with distinct names, in the iteration order of the hash map.
  \<^item> KV pressure is an \<open>f32\<close> percentage: finite values are rationals.
  \<^item> The round-robin counter is an atomic \<open>usize\<close> that wraps at \<open>2 ^ 64\<close>; \<open>route\<close> returns the router with the new counter.

  The lemmas show which version a request resolves to, that routing only ever picks a replica that may serve the
  request and picks the best one, and that a pod that is not ready gets no traffic.
\<close>

section \<open>Models and versions\<close>

datatype weight_location = Local string | S3 string string | HuggingFace string "string option" | RemoteRegistry string

datatype engine_device = Cpu | Cuda nat | Metal nat

datatype quant_method = No_quant | Gptq | Awq | Gguf | Exl2 | BitsAndBytes

record runtime_profile =
  rp_device :: engine_device
  rp_max_concurrency :: nat
  rp_max_batch_tokens :: nat
  rp_gpu_memory_mib :: nat
  rp_quant_method :: quant_method
  rp_expected_adapters :: "string list"

definition runtime_profile_default :: runtime_profile where
  "runtime_profile_default =
     \<lparr>rp_device = Cpu, rp_max_concurrency = 1, rp_max_batch_tokens = 2048, rp_gpu_memory_mib = 0,
      rp_quant_method = No_quant, rp_expected_adapters = []\<rparr>"

record model_version =
  mv_version :: string
  mv_weight_location :: weight_location
  mv_profile :: runtime_profile
  mv_created_at :: nat
  mv_aliases :: "string list"

definition version_new :: "string \<Rightarrow> weight_location \<Rightarrow> model_version" where
  "version_new version loc =
     \<lparr>mv_version = version, mv_weight_location = loc, mv_profile = runtime_profile_default, mv_created_at = 0, mv_aliases = []\<rparr>"

definition with_profile :: "model_version \<Rightarrow> runtime_profile \<Rightarrow> model_version" where
  "with_profile v profile = v\<lparr>mv_profile := profile\<rparr>"

definition with_created_at :: "model_version \<Rightarrow> nat \<Rightarrow> model_version" where
  "with_created_at v unix = v\<lparr>mv_created_at := unix\<rparr>"

definition with_aliases :: "model_version \<Rightarrow> string list \<Rightarrow> model_version" where
  "with_aliases v aliases = v\<lparr>mv_aliases := aliases\<rparr>"

definition version_matches :: "model_version \<Rightarrow> string \<Rightarrow> bool" where
  "version_matches v name \<longleftrightarrow> mv_version v = name \<or> list_ex (\<lambda>a. a = name) (mv_aliases v)"

record model_record =
  mr_name :: string
  mr_versions :: "model_version list"
  mr_default_version :: string
  mr_adapter_routing :: "(string \<times> string) list"

definition record_new :: "string \<Rightarrow> model_record" where
  "record_new name = \<lparr>mr_name = name, mr_versions = [], mr_default_version = [], mr_adapter_routing = []\<rparr>"

definition add_version :: "model_record \<Rightarrow> model_version \<Rightarrow> model_record" where
  "add_version r v =
     (let r = (if list_ex (\<lambda>u. mv_version u = mv_version v) (mr_versions r)
               then r\<lparr>mr_versions := update_first (\<lambda>u. mv_version u = mv_version v) (\<lambda>_. v) (mr_versions r)\<rparr>
               else r\<lparr>mr_versions := mr_versions r @ [v]\<rparr>)
      in if mr_default_version r = [] then r\<lparr>mr_default_version := mv_version (last (mr_versions r))\<rparr> else r)"

definition set_default :: "model_record \<Rightarrow> string \<Rightarrow> bool \<times> model_record" where
  "set_default r version =
     (if list_ex (\<lambda>v. version_matches v version) (mr_versions r)
      then (True, r\<lparr>mr_default_version := version\<rparr>) else (False, r))"

definition route_adapter :: "model_record \<Rightarrow> string \<Rightarrow> string \<Rightarrow> model_record" where
  "route_adapter r key adapter = r\<lparr>mr_adapter_routing := AList.update key adapter (mr_adapter_routing r)\<rparr>"

definition resolve_version :: "model_record \<Rightarrow> string \<Rightarrow> model_version option" where
  "resolve_version r name = find (\<lambda>v. version_matches v name) (mr_versions r)"

definition latest_version :: "model_record \<Rightarrow> model_version option" where
  "latest_version r = max_last mv_created_at (mr_versions r)"

definition resolve_adapter :: "model_record \<Rightarrow> string \<Rightarrow> string option" where
  "resolve_adapter r key = map_of (mr_adapter_routing r) key"

section \<open>The registry\<close>

record resolved_model =
  rm_name :: string
  rm_version :: string
  rm_weight_location :: weight_location
  rm_profile :: runtime_profile
  rm_adapter :: "string option"

type_synonym control_plane = "(string \<times> model_record) list"

definition cp_new :: control_plane where
  "cp_new = []"

definition cp_register :: "control_plane \<Rightarrow> model_record \<Rightarrow> control_plane" where
  "cp_register cp r = AList.update (mr_name r) r cp"

definition register_version :: "control_plane \<Rightarrow> string \<Rightarrow> model_version \<Rightarrow> control_plane" where
  "register_version cp model v =
     AList.update model (add_version (case map_of cp model of Some r \<Rightarrow> r | None \<Rightarrow> record_new model) v) cp"

definition cp_get :: "control_plane \<Rightarrow> string \<Rightarrow> model_record option" where
  "cp_get cp name = map_of cp name"

definition cp_list :: "control_plane \<Rightarrow> string list" where
  "cp_list cp = map fst cp"

definition unregister :: "control_plane \<Rightarrow> string \<Rightarrow> model_record option \<times> control_plane" where
  "unregister cp name = (map_of cp name, AList.delete name cp)"

definition cp_resolve :: "control_plane \<Rightarrow> string \<Rightarrow> string option \<Rightarrow> string option \<Rightarrow> resolved_model option" where
  "cp_resolve cp model version_or_alias routing_key =
     do { r \<leftarrow> map_of cp model;
          v \<leftarrow> (case version_or_alias of
                  Some name \<Rightarrow> resolve_version r name
                | None \<Rightarrow> (case resolve_version r (mr_default_version r) of
                             Some v \<Rightarrow> Some v
                           | None \<Rightarrow> latest_version r));
          Some \<lparr>rm_name = mr_name r, rm_version = mv_version v, rm_weight_location = mv_weight_location v,
                rm_profile = mv_profile v, rm_adapter = Option.bind routing_key (resolve_adapter r)\<rparr> }"

section \<open>The router\<close>

record replica =
  rep_id :: string
  rep_model :: string
  rep_version :: string
  rep_device :: engine_device
  rep_max_concurrency :: nat
  rep_active_sequences :: nat
  rep_kv_pressure_pct :: rat
  rep_healthy :: bool
  rep_loaded_adapters :: "string list"

definition available_capacity :: "replica \<Rightarrow> nat" where
  "available_capacity r = rep_max_concurrency r - rep_active_sequences r"

definition is_overloaded :: "replica \<Rightarrow> bool" where
  "is_overloaded r \<longleftrightarrow> rep_max_concurrency r \<le> rep_active_sequences r \<or> 95 \<le> rep_kv_pressure_pct r"

record route_request =
  rr_model :: string
  rr_version :: "string option"
  rr_routing_key :: "string option"

record route_decision =
  rd_replica :: string
  rd_resolved :: resolved_model

datatype routing_strategy = LeastLoaded | LowestKvPressure | RoundRobin

record replica_router =
  rt_strategy :: routing_strategy
  rt_replicas :: "replica list"
  rt_rr :: nat

definition replica_router_new :: "routing_strategy \<Rightarrow> replica_router" where
  "replica_router_new strategy = \<lparr>rt_strategy = strategy, rt_replicas = [], rt_rr = 0\<rparr>"

definition register_replica :: "replica \<Rightarrow> replica_router \<Rightarrow> replica_router" where
  "register_replica r rt =
     rt\<lparr>rt_replicas := (if list_ex (\<lambda>x. rep_id x = rep_id r) (rt_replicas rt)
                          then update_first (\<lambda>x. rep_id x = rep_id r) (\<lambda>_. r) (rt_replicas rt)
                          else rt_replicas rt @ [r])\<rparr>"

definition update_load :: "string \<Rightarrow> nat \<Rightarrow> rat \<Rightarrow> bool \<Rightarrow> replica_router \<Rightarrow> replica_router" where
  "update_load i active kv healthy rt =
     rt\<lparr>rt_replicas := update_first (\<lambda>x. rep_id x = i)
          (\<lambda>x. x\<lparr>rep_active_sequences := active, rep_kv_pressure_pct := kv, rep_healthy := healthy\<rparr>) (rt_replicas rt)\<rparr>"

definition set_loaded_adapters :: "string \<Rightarrow> string list \<Rightarrow> replica_router \<Rightarrow> replica_router" where
  "set_loaded_adapters i adapters rt =
     rt\<lparr>rt_replicas := update_first (\<lambda>x. rep_id x = i) (\<lambda>x. x\<lparr>rep_loaded_adapters := adapters\<rparr>) (rt_replicas rt)\<rparr>"

definition remove_replica :: "string \<Rightarrow> replica_router \<Rightarrow> replica option \<times> replica_router" where
  "remove_replica i rt =
     (find (\<lambda>x. rep_id x = i) (rt_replicas rt), rt\<lparr>rt_replicas := remove_first (\<lambda>x. rep_id x = i) (rt_replicas rt)\<rparr>)"

definition eligible :: "resolved_model \<Rightarrow> replica \<Rightarrow> bool" where
  "eligible resolved r \<longleftrightarrow>
     rep_model r = rm_name resolved \<and> rep_version r = rm_version resolved \<and> rep_healthy r \<and> \<not> is_overloaded r
     \<and> (case rm_adapter resolved of Some a \<Rightarrow> list_ex (\<lambda>la. la = a) (rep_loaded_adapters r) | None \<Rightarrow> True)"

definition candidates :: "replica_router \<Rightarrow> resolved_model \<Rightarrow> replica list" where
  "candidates rt resolved = filter (eligible resolved) (rt_replicas rt)"

definition route :: "control_plane \<Rightarrow> route_request \<Rightarrow> replica_router \<Rightarrow> route_decision option \<times> replica_router" where
  "route cp request rt =
     (case cp_resolve cp (rr_model request) (rr_version request) (rr_routing_key request) of
        None \<Rightarrow> (None, rt)
      | Some resolved \<Rightarrow>
          (let cands = candidates rt resolved in
           if cands = [] then (None, rt)
           else (case rt_strategy rt of
                   LeastLoaded \<Rightarrow>
                     (Some \<lparr>rd_replica = rep_id (arg_min_list rep_active_sequences cands), rd_resolved = resolved\<rparr>, rt)
                 | LowestKvPressure \<Rightarrow>
                     (Some \<lparr>rd_replica = rep_id (arg_min_list rep_kv_pressure_pct cands), rd_resolved = resolved\<rparr>, rt)
                 | RoundRobin \<Rightarrow>
                     (Some \<lparr>rd_replica = rep_id (cands ! (rt_rr rt mod length cands)), rd_resolved = resolved\<rparr>,
                      rt\<lparr>rt_rr := (rt_rr rt + 1) mod 2 ^ 64\<rparr>))))"

section \<open>The gateway\<close>

record gateway_config =
  gw_namespace :: string
  gw_service_template :: string
  gw_strategy :: routing_strategy
  gw_require_ready :: bool

definition gateway_config_default :: gateway_config where
  "gateway_config_default =
     \<lparr>gw_namespace = ''justapi'', gw_service_template = ''{replica}.{namespace}.svc.cluster.local'',
      gw_strategy = LowestKvPressure, gw_require_ready = True\<rparr>"

record gateway_decision =
  gd_replica :: string
  gd_resolved :: resolved_model
  gd_endpoint :: string

record inference_gateway =
  gw_cp :: control_plane
  gw_router :: replica_router
  gw_config :: gateway_config

definition gateway_new :: "gateway_config \<Rightarrow> inference_gateway" where
  "gateway_new config = \<lparr>gw_cp = cp_new, gw_router = replica_router_new (gw_strategy config), gw_config = config\<rparr>"

definition gw_register_replica :: "replica \<Rightarrow> inference_gateway \<Rightarrow> inference_gateway" where
  "gw_register_replica r g = g\<lparr>gw_router := register_replica r (gw_router g)\<rparr>"

definition gw_update_load :: "string \<Rightarrow> nat \<Rightarrow> rat \<Rightarrow> bool \<Rightarrow> inference_gateway \<Rightarrow> inference_gateway" where
  "gw_update_load i active kv ready g =
     g\<lparr>gw_router := update_load i active kv (if gw_require_ready (gw_config g) then ready else True) (gw_router g)\<rparr>"

definition set_ready :: "string \<Rightarrow> bool \<Rightarrow> inference_gateway \<Rightarrow> inference_gateway" where
  "set_ready i ready g =
     (case find (\<lambda>r. rep_id r = i) (rt_replicas (gw_router g)) of
        Some r \<Rightarrow> gw_update_load i (rep_active_sequences r) (rep_kv_pressure_pct r) ready g
      | None \<Rightarrow> g)"

definition gw_remove_replica :: "string \<Rightarrow> inference_gateway \<Rightarrow> inference_gateway" where
  "gw_remove_replica i g = g\<lparr>gw_router := snd (remove_replica i (gw_router g))\<rparr>"

definition endpoint_for :: "inference_gateway \<Rightarrow> string \<Rightarrow> resolved_model \<Rightarrow> string" where
  "endpoint_for g replica resolved =
     str_replace ''{namespace}'' (gw_namespace (gw_config g))
       (str_replace ''{version}'' (rm_version resolved)
         (str_replace ''{model}'' (rm_name resolved)
           (str_replace ''{replica}'' replica (gw_service_template (gw_config g)))))"

definition gw_route :: "route_request \<Rightarrow> inference_gateway \<Rightarrow> gateway_decision option \<times> inference_gateway" where
  "gw_route request g =
     (case route (gw_cp g) request (gw_router g) of
        (None, rt) \<Rightarrow> (None, g\<lparr>gw_router := rt\<rparr>)
      | (Some d, rt) \<Rightarrow>
          (Some \<lparr>gd_replica = rd_replica d, gd_resolved = rd_resolved d,
                 gd_endpoint = endpoint_for g (rd_replica d) (rd_resolved d)\<rparr>, g\<lparr>gw_router := rt\<rparr>))"

section \<open>Resolution\<close>

text \<open>An explicit version is served strictly, an omitted one by the default or else the newest version.\<close>

lemma resolve_explicit_strict:
  assumes "cp_resolve cp m (Some name) k = Some t"
  shows "\<exists>r v. map_of cp m = Some r \<and> v \<in> set (mr_versions r) \<and> version_matches v name \<and> rm_version t = mv_version v"
  using assms by (auto simp: cp_resolve_def resolve_version_def split: Option.bind_splits dest!: find_SomeD)

lemma max_last_None [simp]: "max_last key xs = None \<longleftrightarrow> xs = []"
  by (cases xs) (auto split: option.splits)

lemma max_last_spec:
  "max_last key xs = Some y \<Longrightarrow> y \<in> set xs \<and> (\<forall>x \<in> set xs. key x \<le> key y)"
  by (induction xs arbitrary: y) (auto split: option.splits if_splits)

lemma resolve_default_total:
  assumes "map_of cp m = Some r" and "mr_versions r \<noteq> []"
  shows "\<exists>t. cp_resolve cp m None k = Some t \<and> (\<exists>v \<in> set (mr_versions r). rm_version t = mv_version v)"
proof (cases "resolve_version r (mr_default_version r)")
  case (Some v)
  then show ?thesis using assms find_SomeD [OF Some [unfolded resolve_version_def]] by (auto simp: cp_resolve_def)
next
  case None
  obtain v where "latest_version r = Some v" "v \<in> set (mr_versions r)"
    using assms(2) max_last_spec [of mv_created_at "mr_versions r"]
    by (cases "max_last mv_created_at (mr_versions r)") (auto simp: latest_version_def)
  then show ?thesis using assms None by (auto simp: cp_resolve_def)
qed

section \<open>Properties\<close>

text \<open>Routing picks a replica that may serve the request, and the best one. The chosen replica serves the resolved model and
  version, is healthy and below its limits and holds the adapter; it has the fewest active sequences, or the lowest
  pressure, among all such replicas under the respective strategy. Routing fails only if the request cannot be
  resolved or no replica qualifies.\<close>

theorem route_picks_best_eligible_replica:
  assumes "route cp request rt = (d, rt')"
  shows "rt_replicas rt' = rt_replicas rt \<and>
    (case cp_resolve cp (rr_model request) (rr_version request) (rr_routing_key request) of
       None \<Rightarrow> d = None
     | Some resolved \<Rightarrow>
         (case d of
            None \<Rightarrow> \<forall>r \<in> set (rt_replicas rt). \<not> eligible resolved r
          | Some dec \<Rightarrow> rd_resolved dec = resolved \<and>
              (\<exists>r \<in> set (rt_replicas rt). rep_id r = rd_replica dec \<and> eligible resolved r \<and>
                 (\<forall>r' \<in> set (rt_replicas rt). eligible resolved r' \<longrightarrow>
                    (rt_strategy rt = LeastLoaded \<longrightarrow> rep_active_sequences r \<le> rep_active_sequences r') \<and>
                    (rt_strategy rt = LowestKvPressure \<longrightarrow> rep_kv_pressure_pct r \<le> rep_kv_pressure_pct r')))))"
proof (cases "cp_resolve cp (rr_model request) (rr_version request) (rr_routing_key request)")
  case None
  then show ?thesis using assms by (simp add: route_def)
next
  case (Some resolved)
  let ?cs = "candidates rt resolved"
  show ?thesis
  proof (cases "?cs = []")
    case True
    then have "\<forall>r \<in> set (rt_replicas rt). \<not> eligible resolved r" by (auto simp: candidates_def filter_empty_conv)
    then show ?thesis using assms Some True by (auto simp: route_def)
  next
    case False
    have mem: "r \<in> set ?cs \<longleftrightarrow> r \<in> set (rt_replicas rt) \<and> eligible resolved r" for r by (auto simp: candidates_def)
    have best: "\<exists>r \<in> set (rt_replicas rt). rep_id r = rep_id (arg_min_list f ?cs) \<and> eligible resolved r
        \<and> (\<forall>r' \<in> set (rt_replicas rt). eligible resolved r' \<longrightarrow> f r \<le> f r')" for f :: "replica \<Rightarrow> 'b :: linorder"
      using arg_min_list_in [OF False, of f] f_arg_min_list_f [OF False, of f] mem
      by (intro bexI [of _ "arg_min_list f ?cs"]) auto
    have rr: "\<exists>r \<in> set (rt_replicas rt). rep_id r = rep_id (?cs ! (rt_rr rt mod length ?cs)) \<and> eligible resolved r"
      using False mem [of "?cs ! (rt_rr rt mod length ?cs)"] by auto
    show ?thesis
      using assms Some False best [of rep_active_sequences] best [of rep_kv_pressure_pct] rr
      by (cases "rt_strategy rt") (auto simp: route_def Let_def)
  qed
qed

definition example_plane :: control_plane where
  "example_plane = register_version cp_new ''m'' (version_new ''v1'' (Local ''/w''))"

definition example_replica :: "string \<Rightarrow> nat \<Rightarrow> rat \<Rightarrow> replica" where
  "example_replica i active kv =
     \<lparr>rep_id = i, rep_model = ''m'', rep_version = ''v1'', rep_device = Cpu, rep_max_concurrency = 4,
      rep_active_sequences = active, rep_kv_pressure_pct = kv, rep_healthy = True, rep_loaded_adapters = []\<rparr>"

theorem route_picks_best_eligible_replica_witness:
  "\<exists>dec. route example_plane \<lparr>rr_model = ''m'', rr_version = None, rr_routing_key = None\<rparr>
       \<lparr>rt_strategy = LeastLoaded, rt_replicas = [example_replica ''a'' 2 10, example_replica ''b'' 1 20], rt_rr = 0\<rparr>
     = (Some dec, \<lparr>rt_strategy = LeastLoaded, rt_replicas = [example_replica ''a'' 2 10, example_replica ''b'' 1 20], rt_rr = 0\<rparr>)
   \<and> rd_replica dec = ''b''"
proof -
  let ?q = "\<lparr>rr_model = ''m'', rr_version = None, rr_routing_key = None\<rparr>"
  let ?rt = "\<lparr>rt_strategy = LeastLoaded, rt_replicas = [example_replica ''a'' 2 10, example_replica ''b'' 1 20], rt_rr = 0\<rparr>"
  let ?m = "\<lparr>rm_name = ''m'', rm_version = ''v1'', rm_weight_location = Local ''/w'', rm_profile = runtime_profile_default, rm_adapter = None\<rparr>"
  have res: "cp_resolve example_plane ''m'' None None = Some ?m"
    by (simp add: cp_resolve_def example_plane_def register_version_def cp_new_def add_version_def record_new_def version_new_def
        resolve_version_def version_matches_def)
  have ok: "eligible ?m (example_replica i n 10)" "eligible ?m (example_replica i n 20)" if "n < 4" for i n
    using that by (simp_all add: eligible_def is_overloaded_def example_replica_def)
  obtain d rt' where r: "route example_plane ?q ?rt = (d, rt')" by fastforce
  with res ok have "rt' = ?rt" by (auto simp: route_def candidates_def Let_def)
  with route_picks_best_eligible_replica [OF r] res ok r show ?thesis
    by (cases d) (auto simp: example_replica_def)
qed

end
