(* ===== verification/Fleet.thy ===== *)
theory Fleet
  imports Control_Plane
begin

text \<open>
  The autoscaler (\<^verbatim>\<open>crates/justapi-inference/src/autoscaler.rs\<close>) and the replica supervisor (\<^verbatim>\<open>supervisor.rs\<close>) that drives the
  router of \<open>Control_Plane\<close>. Finite \<open>f32\<close> metrics are rationals; the index of new replicas is a natural number.

  The lemmas show that the router always mirrors the live replicas, whose ids are unique, that a reconciliation reaches
  the replica count of the autoscaler, which stays within its bounds and holds still during a cooldown, and that
  every report of a replica makes the router forget the adapters loaded on all of them.
\<close>

section \<open>The autoscaler\<close>

record llm_metrics =
  m_tokens_per_sec :: rat
  m_ttft_ms :: rat
  m_queue_depth :: nat
  m_kv_pressure_pct :: rat

record autoscaler_config =
  ac_min_replicas :: nat
  ac_max_replicas :: nat
  ac_target_ttft_ms :: rat
  ac_target_kv_pressure_pct :: rat
  ac_queue_depth_scale_up :: nat
  ac_queue_depth_scale_down :: nat
  ac_cooldown_ticks :: nat

definition autoscaler_config_default :: autoscaler_config where
  "autoscaler_config_default =
     \<lparr>ac_min_replicas = 1, ac_max_replicas = 8, ac_target_ttft_ms = 500, ac_target_kv_pressure_pct = 80,
      ac_queue_depth_scale_up = 16, ac_queue_depth_scale_down = 2, ac_cooldown_ticks = 10\<rparr>"

datatype scale_decision = ScaleUp nat | ScaleDown nat | Hold nat

record autoscaler =
  as_config :: autoscaler_config
  as_current :: nat
  as_cooldown :: nat

definition autoscaler_new :: "autoscaler_config \<Rightarrow> autoscaler" where
  "autoscaler_new config =
     \<lparr>as_config = config, as_current = min (max (ac_min_replicas config) 1) (max (ac_max_replicas config) 1), as_cooldown = 0\<rparr>"

definition in_cooldown :: "autoscaler \<Rightarrow> bool" where
  "in_cooldown a \<longleftrightarrow> 0 < as_cooldown a"

definition decide :: "llm_metrics \<Rightarrow> autoscaler \<Rightarrow> scale_decision \<times> autoscaler" where
  "decide m a =
     (if 0 < as_cooldown a then (Hold (as_current a), a\<lparr>as_cooldown := as_cooldown a - 1\<rparr>)
      else (let c = as_config a;
                saturated = ac_target_kv_pressure_pct c \<le> m_kv_pressure_pct m \<or> ac_target_ttft_ms c \<le> m_ttft_ms m
                  \<or> ac_queue_depth_scale_up c \<le> m_queue_depth m;
                underused = m_kv_pressure_pct m \<le> ac_target_kv_pressure_pct c * (1 / 2)
                  \<and> m_ttft_ms m \<le> ac_target_ttft_ms c * (1 / 2) \<and> m_queue_depth m \<le> ac_queue_depth_scale_down c;
                desired = (if saturated then min (as_current a + 1) (ac_max_replicas c)
                           else if underused then max (as_current a - 1) (ac_min_replicas c)
                           else as_current a)
            in if desired = as_current a then (Hold (as_current a), a)
               else (if as_current a < desired then ScaleUp desired else ScaleDown desired,
                     a\<lparr>as_current := desired, as_cooldown := ac_cooldown_ticks c\<rparr>)))"

section \<open>The supervisor\<close>

record live_replica =
  lr_id :: string
  lr_healthy :: bool
  lr_active_sequences :: nat
  lr_kv_pressure_pct :: rat

datatype supervisor_action = StartReplica string string string | StopReplica string

record supervisor_config =
  su_model :: string
  su_version :: string
  su_device :: engine_device
  su_min_replicas :: nat
  su_max_replicas :: nat
  su_max_concurrency :: nat
  su_target_ttft_ms :: rat
  su_target_kv_pressure_pct :: rat
  su_queue_depth_scale_up :: nat
  su_queue_depth_scale_down :: nat
  su_cooldown_ticks :: nat

record supervisor =
  sv_config :: supervisor_config
  sv_autoscaler :: autoscaler
  sv_router :: replica_router
  sv_live :: "live_replica list"
  sv_next_index :: nat

definition supervisor_new :: "supervisor_config \<Rightarrow> supervisor" where
  "supervisor_new config =
     \<lparr>sv_config = config,
      sv_autoscaler = autoscaler_new
        \<lparr>ac_min_replicas = su_min_replicas config, ac_max_replicas = su_max_replicas config,
         ac_target_ttft_ms = su_target_ttft_ms config, ac_target_kv_pressure_pct = su_target_kv_pressure_pct config,
         ac_queue_depth_scale_up = su_queue_depth_scale_up config,
         ac_queue_depth_scale_down = su_queue_depth_scale_down config, ac_cooldown_ticks = su_cooldown_ticks config\<rparr>,
      sv_router = replica_router_new LeastLoaded, sv_live = [], sv_next_index = 0\<rparr>"

definition healthy_count :: "supervisor \<Rightarrow> nat" where
  "healthy_count s = length (filter lr_healthy (sv_live s))"

definition replica_id :: "supervisor_config \<Rightarrow> nat \<Rightarrow> string" where
  "replica_id c n = su_model c @ ''-'' @ su_version c @ ''-'' @ nat_str n"

definition replica_of :: "supervisor_config \<Rightarrow> live_replica \<Rightarrow> replica" where
  "replica_of c lr =
     \<lparr>rep_id = lr_id lr, rep_model = su_model c, rep_version = su_version c, rep_device = su_device c,
      rep_max_concurrency = su_max_concurrency c, rep_active_sequences = lr_active_sequences lr,
      rep_kv_pressure_pct = lr_kv_pressure_pct lr, rep_healthy = lr_healthy lr, rep_loaded_adapters = []\<rparr>"

definition sync_router :: "supervisor \<Rightarrow> supervisor" where
  "sync_router s =
     (let live_ids = map lr_id (sv_live s);
          kept = fold (\<lambda>r rt. if rep_id r \<in> set live_ids then rt else snd (remove_replica (rep_id r) rt))
                   (rt_replicas (sv_router s)) (sv_router s)
      in s\<lparr>sv_router := fold (\<lambda>lr. register_replica (replica_of (sv_config s) lr)) (sv_live s) kept\<rparr>)"

function start_loop :: "nat \<Rightarrow> supervisor \<Rightarrow> supervisor_action list \<times> supervisor" where
  "start_loop desired s =
     (if length (sv_live s) < desired \<and> length (sv_live s) < su_max_replicas (sv_config s)
      then (let i = replica_id (sv_config s) (sv_next_index s);
                s' = s\<lparr>sv_next_index := sv_next_index s + 1,
                       sv_live := sv_live s @ [\<lparr>lr_id = i, lr_healthy = False, lr_active_sequences = 0, lr_kv_pressure_pct = 0\<rparr>]\<rparr>
            in case start_loop desired s' of
                 (acts, s'') \<Rightarrow> (StartReplica i (su_model (sv_config s)) (su_version (sv_config s)) # acts, s''))
      else ([], s))"
  by pat_completeness auto
termination
  by (relation "measure (\<lambda>(desired, s). desired - length (sv_live s))") auto

declare start_loop.simps [simp del]

text \<open>The replica to stop: the first unhealthy one, or else the last.\<close>

definition stop_index :: "live_replica list \<Rightarrow> nat" where
  "stop_index live = (case find_index (\<lambda>r. \<not> lr_healthy r) live of Some i \<Rightarrow> i | None \<Rightarrow> length live - 1)"

lemma stop_index_less: "live \<noteq> [] \<Longrightarrow> stop_index live < length live"
  by (auto simp: stop_index_def split: option.splits dest: find_index_Some)

function stop_loop :: "nat \<Rightarrow> supervisor \<Rightarrow> supervisor_action list \<times> supervisor" where
  "stop_loop desired s =
     (if desired < length (sv_live s)
      then (let idx = stop_index (sv_live s);
                removed = sv_live s ! idx;
                s' = s\<lparr>sv_live := take idx (sv_live s) @ drop (idx + 1) (sv_live s)\<rparr>
            in case stop_loop desired s' of (acts, s'') \<Rightarrow> (StopReplica (lr_id removed) # acts, s''))
      else ([], s))"
  by pat_completeness auto
termination
proof (relation "measure (\<lambda>(desired, s). length (sv_live s))", goal_cases)
  case (2 desired s)
  then show ?case using stop_index_less [of "sv_live s"] by force
qed simp

declare stop_loop.simps [simp del]

definition reconcile :: "llm_metrics \<Rightarrow> supervisor \<Rightarrow> supervisor_action list \<times> supervisor" where
  "reconcile m s =
     (let s = s\<lparr>sv_autoscaler := snd (decide m (sv_autoscaler s))\<rparr>;
          desired = as_current (sv_autoscaler s)
      in case start_loop desired s of
           (starts, s) \<Rightarrow> (case stop_loop desired s of (stops, s) \<Rightarrow> (starts @ stops, sync_router s)))"

definition on_replica_started :: "string \<Rightarrow> supervisor \<Rightarrow> supervisor" where
  "on_replica_started i s =
     sync_router (s\<lparr>sv_live := update_first (\<lambda>r. lr_id r = i) (\<lambda>r. r\<lparr>lr_healthy := True\<rparr>) (sv_live s)\<rparr>)"

definition on_replica_report :: "string \<Rightarrow> nat \<Rightarrow> rat \<Rightarrow> supervisor \<Rightarrow> supervisor" where
  "on_replica_report i active kv s =
     sync_router (s\<lparr>sv_live := update_first (\<lambda>r. lr_id r = i)
        (\<lambda>r. r\<lparr>lr_active_sequences := active, lr_kv_pressure_pct := kv\<rparr>) (sv_live s)\<rparr>)"

definition on_replica_stopped :: "string \<Rightarrow> supervisor \<Rightarrow> supervisor" where
  "on_replica_stopped i s =
     s\<lparr>sv_live := filter (\<lambda>r. lr_id r \<noteq> i) (sv_live s), sv_router := snd (remove_replica i (sv_router s))\<rparr>"

section \<open>The router as a directory of replicas\<close>

text \<open>What the supervisor needs of the router: registration replaces the entry of an id, removal drops it.\<close>

locale replica_directory =
  fixes entries :: "'d \<Rightarrow> replica set"
    and put :: "replica \<Rightarrow> 'd \<Rightarrow> 'd"
    and del :: "string \<Rightarrow> 'd \<Rightarrow> 'd"
    and ok :: "'d \<Rightarrow> bool"
  assumes put_ok: "ok d \<Longrightarrow> ok (put r d)"
    and del_ok: "ok d \<Longrightarrow> ok (del i d)"
    and entries_put: "ok d \<Longrightarrow> entries (put r d) = {x \<in> entries d. rep_id x \<noteq> rep_id r} \<union> {r}"
    and entries_del: "ok d \<Longrightarrow> entries (del i d) = {x \<in> entries d. rep_id x \<noteq> i}"
begin

lemma fold_put:
  "ok d \<Longrightarrow> distinct (map rep_id rs) \<Longrightarrow>
     ok (fold put rs d) \<and> entries (fold put rs d) = {x \<in> entries d. rep_id x \<notin> rep_id ` set rs} \<union> set rs"
proof (induction rs arbitrary: d)
  case (Cons r rs)
  have IH: "ok (fold put rs (put r d))"
      "entries (fold put rs (put r d)) = {x \<in> entries (put r d). rep_id x \<notin> rep_id ` set rs} \<union> set rs"
    using Cons.IH [OF put_ok [OF Cons.prems(1), of r]] Cons.prems(2) by simp_all
  have "{x \<in> {x \<in> entries d. rep_id x \<noteq> rep_id r} \<union> {r}. rep_id x \<notin> rep_id ` set rs} \<union> set rs
      = {x \<in> entries d. rep_id x \<notin> rep_id ` set (r # rs)} \<union> set (r # rs)"
    using Cons.prems(2) by (auto simp del: image_iff)
  with IH show ?case unfolding entries_put [OF Cons.prems(1)] by simp
qed simp

lemma fold_del:
  "ok d \<Longrightarrow> ok (fold (\<lambda>r d. if rep_id r \<in> ids then d else del (rep_id r) d) rs d) \<and>
     entries (fold (\<lambda>r d. if rep_id r \<in> ids then d else del (rep_id r) d) rs d)
       = {x \<in> entries d. rep_id x \<in> ids \<or> rep_id x \<notin> rep_id ` set rs}"
proof (induction rs arbitrary: d)
  case (Cons r rs)
  let ?f = "\<lambda>r d. if rep_id r \<in> ids then d else del (rep_id r) d"
  have d: "ok (?f r d)" "entries (?f r d) = {x \<in> entries d. rep_id r \<in> ids \<or> rep_id x \<noteq> rep_id r}"
    using Cons.prems del_ok entries_del by simp_all
  have "{x \<in> {x \<in> entries d. rep_id r \<in> ids \<or> rep_id x \<noteq> rep_id r}. rep_id x \<in> ids \<or> rep_id x \<notin> rep_id ` set rs}
      = {x \<in> entries d. rep_id x \<in> ids \<or> rep_id x \<notin> rep_id ` set (r # rs)}"
    by (rule Collect_cong) (simp, metis)
  moreover have "fold ?f (r # rs) d = fold ?f rs (?f r d)" by simp
  ultimately show ?case using Cons.IH [OF d(1)] unfolding d(2) by presburger
qed simp

text \<open>Dropping what is gone and registering what is live leaves exactly the live replicas.\<close>

lemma sync_exact:
  assumes "ok d" and "set rs = entries d" and "distinct (map rep_id live)"
  shows "ok (fold put live (fold (\<lambda>r d. if rep_id r \<in> rep_id ` set live then d else del (rep_id r) d) rs d)) \<and>
    entries (fold put live (fold (\<lambda>r d. if rep_id r \<in> rep_id ` set live then d else del (rep_id r) d) rs d)) = set live"
proof -
  let ?d = "fold (\<lambda>r d. if rep_id r \<in> rep_id ` set live then d else del (rep_id r) d) rs d"
  have d: "ok ?d" "entries ?d = {x \<in> entries d. rep_id x \<in> rep_id ` set live \<or> rep_id x \<notin> rep_id ` set rs}"
    using fold_del [OF assms(1)] by auto
  show ?thesis using fold_put [OF d(1) assms(3)] d(2) assms(2) by auto
qed

end

lemma set_replace_first:
  assumes "distinct (map key xs)"
  shows "set (update_first (\<lambda>x. key x = k) (\<lambda>_. r) xs) = {x \<in> set xs. key x \<noteq> k} \<union> (if list_ex (\<lambda>x. key x = k) xs then {r} else {})"
  using assms by (induction xs) (auto, (metis image_eqI)+)

lemma distinct_replace_first:
  "key r = k \<Longrightarrow> distinct (map key xs) \<Longrightarrow> distinct (map key (update_first (\<lambda>x. key x = k) (\<lambda>_. r) xs))"
  by (subst map_update_first) auto

interpretation router_directory: replica_directory "\<lambda>rt. set (rt_replicas rt)" register_replica
  "\<lambda>i rt. snd (remove_replica i rt)" "\<lambda>rt. distinct (map rep_id (rt_replicas rt))"
proof
  fix rt :: replica_router and r i
  assume d: "distinct (map rep_id (rt_replicas rt))"
  show "distinct (map rep_id (rt_replicas (register_replica r rt)))"
    using d by (auto simp: register_replica_def distinct_replace_first list_ex_iff)
  show "distinct (map rep_id (rt_replicas (snd (remove_replica i rt))))"
    using d by (simp add: remove_replica_def remove_first_key distinct_map_filter)
  show "set (rt_replicas (register_replica r rt)) = {x \<in> set (rt_replicas rt). rep_id x \<noteq> rep_id r} \<union> {r}"
    using d set_replace_first [OF d, of "rep_id r" r] by (auto simp: register_replica_def list_ex_iff)
  show "set (rt_replicas (snd (remove_replica i rt))) = {x \<in> set (rt_replicas rt). rep_id x \<noteq> i}"
    using d by (auto simp: remove_replica_def remove_first_key)
qed

section \<open>The fleet invariant\<close>

definition mirrors :: "supervisor \<Rightarrow> bool" where
  "mirrors s \<longleftrightarrow> distinct (map rep_id (rt_replicas (sv_router s)))
     \<and> set (rt_replicas (sv_router s)) = replica_of (sv_config s) ` set (sv_live s)"

definition ids_fresh :: "supervisor \<Rightarrow> bool" where
  "ids_fresh s \<longleftrightarrow> distinct (map lr_id (sv_live s))
     \<and> lr_id ` set (sv_live s) \<subseteq> replica_id (sv_config s) ` {..< sv_next_index s}"

lemma replica_id_inject [simp]: "replica_id c m = replica_id c n \<longleftrightarrow> m = n"
  by (simp add: replica_id_def)

lemma rep_id_replica_of [simp]: "rep_id (replica_of c lr) = lr_id lr"
  by (simp add: replica_of_def)

lemma sync_router_mirrors:
  assumes "distinct (map rep_id (rt_replicas (sv_router s)))" and "distinct (map lr_id (sv_live s))"
  shows "mirrors (sync_router s)" and "sv_live (sync_router s) = sv_live s" and "sv_config (sync_router s) = sv_config s"
    and "sv_next_index (sync_router s) = sv_next_index s" and "sv_autoscaler (sync_router s) = sv_autoscaler s"
proof -
  let ?live = "map (replica_of (sv_config s)) (sv_live s)"
  have ids: "rep_id ` set ?live = set (map lr_id (sv_live s))" by (auto simp: image_image)
  have "distinct (map rep_id ?live)" using assms(2) by (simp add: comp_def)
  from router_directory.sync_exact [OF assms(1) refl this]
  show "mirrors (sync_router s)"
    unfolding mirrors_def sync_router_def Let_def ids [symmetric] by (simp add: fold_map comp_def)
qed (simp_all add: sync_router_def Let_def)

definition same_frame :: "supervisor \<Rightarrow> supervisor \<Rightarrow> bool" where
  "same_frame s s' \<longleftrightarrow> sv_router s' = sv_router s \<and> sv_config s' = sv_config s \<and> sv_autoscaler s' = sv_autoscaler s"

lemma start_loop_spec:
  "start_loop desired s = (acts, s') \<Longrightarrow> same_frame s s' \<and> (ids_fresh s \<longrightarrow> ids_fresh s')
     \<and> length (sv_live s') = length (sv_live s) + length acts
     \<and> length (sv_live s') = max (length (sv_live s)) (min desired (su_max_replicas (sv_config s)))"
proof (induction desired s arbitrary: acts s' rule: start_loop.induct)
  case (1 desired s)
  let ?i = "replica_id (sv_config s) (sv_next_index s)"
  let ?s = "s\<lparr>sv_next_index := sv_next_index s + 1,
    sv_live := sv_live s @ [\<lparr>lr_id = ?i, lr_healthy = False, lr_active_sequences = 0, lr_kv_pressure_pct = 0\<rparr>]\<rparr>"
  show ?case
  proof (cases "length (sv_live s) < desired \<and> length (sv_live s) < su_max_replicas (sv_config s)")
    case True
    obtain acts1 where acts: "start_loop desired ?s = (acts1, s')" "length acts = Suc (length acts1)"
      using "1.prems" True by (auto simp: start_loop.simps [of desired s] Let_def split: prod.splits)
    have fresh: "ids_fresh ?s" if "ids_fresh s"
    proof -
      have "?i \<notin> lr_id ` set (sv_live s)" using that by (auto simp: ids_fresh_def)
      then show ?thesis using that by (auto simp: ids_fresh_def lessThan_Suc)
    qed
    show ?thesis using "1.IH" [OF True refl refl acts(1)] acts(2) fresh True by (auto simp: same_frame_def)
  next
    case False
    then show ?thesis using "1.prems" by (auto simp: start_loop.simps [of desired s] same_frame_def)
  qed
qed

lemma drop_live_fresh:
  assumes "ids_fresh s"
  shows "ids_fresh (s\<lparr>sv_live := take i (sv_live s) @ drop (i + 1) (sv_live s)\<rparr>)"
proof -
  have "set (take i (sv_live s) @ drop (i + 1) (sv_live s)) \<subseteq> set (sv_live s)"
    by (auto dest: in_set_takeD in_set_dropD)
  then have "lr_id ` set (take i (sv_live s) @ drop (i + 1) (sv_live s)) \<subseteq> replica_id (sv_config s) ` {..< sv_next_index s}"
    using assms unfolding ids_fresh_def by (meson image_mono order_trans)
  moreover have "distinct (map lr_id (take i (sv_live s) @ drop (i + 1) (sv_live s)))"
    using assms by (auto simp: ids_fresh_def take_map [symmetric] drop_map [symmetric] simp del: set_map
        intro: distinct_take distinct_drop dest: in_set_takeD in_set_dropD
        intro!: set_take_disj_set_drop_if_distinct)
  ultimately show ?thesis unfolding ids_fresh_def by simp
qed

lemma stop_loop_spec:
  "stop_loop desired s = (acts, s') \<Longrightarrow> same_frame s s' \<and> (ids_fresh s \<longrightarrow> ids_fresh s')
     \<and> length (sv_live s) = length (sv_live s') + length acts
     \<and> length (sv_live s') = min (length (sv_live s)) desired"
proof (induction desired s arbitrary: acts s' rule: stop_loop.induct)
  case (1 desired s)
  let ?i = "stop_index (sv_live s)"
  let ?s = "s\<lparr>sv_live := take ?i (sv_live s) @ drop (?i + 1) (sv_live s)\<rparr>"
  show ?case
  proof (cases "desired < length (sv_live s)")
    case True
    obtain acts1 where acts: "stop_loop desired ?s = (acts1, s')" "length acts = Suc (length acts1)"
      using "1.prems" True by (auto simp: stop_loop.simps [of desired s] Let_def split: prod.splits)
    have "?i < length (sv_live s)" using True stop_index_less [of "sv_live s"] by force
    then show ?thesis
      using "1.IH" [OF True refl refl refl acts(1)] acts(2) drop_live_fresh [of s ?i] True by (auto simp: same_frame_def)
  next
    case False
    then show ?thesis using "1.prems" by (auto simp: stop_loop.simps [of desired s] same_frame_def)
  qed
qed

definition scaler_ok :: "autoscaler \<Rightarrow> bool" where
  "scaler_ok a \<longleftrightarrow> ac_min_replicas (as_config a) \<le> as_current a \<and> as_current a \<le> ac_max_replicas (as_config a)"

lemma decide_spec:
  assumes "ac_min_replicas (as_config a) \<le> ac_max_replicas (as_config a)" and "scaler_ok a"
  shows "scaler_ok (snd (decide m a))" and "as_config (snd (decide m a)) = as_config a"
  using assms by (auto simp: decide_def scaler_ok_def Let_def)

section \<open>Runs of the supervisor\<close>

datatype fleet_op = Reconcile llm_metrics | Started string | Report string nat rat | Stopped string

fun fleet_step :: "fleet_op \<Rightarrow> supervisor \<Rightarrow> supervisor" where
  "fleet_step (Reconcile m) s = snd (reconcile m s)"
| "fleet_step (Started i) s = on_replica_started i s"
| "fleet_step (Report i n kv) s = on_replica_report i n kv s"
| "fleet_step (Stopped i) s = on_replica_stopped i s"

definition fleet_run :: "supervisor_config \<Rightarrow> fleet_op list \<Rightarrow> supervisor" where
  "fleet_run c ops = fold fleet_step ops (supervisor_new c)"

definition scaler_of :: "supervisor_config \<Rightarrow> autoscaler_config \<Rightarrow> bool" where
  "scaler_of c ac \<longleftrightarrow> ac_min_replicas ac = su_min_replicas c \<and> ac_max_replicas ac = su_max_replicas c"

definition fleet_ok :: "supervisor_config \<Rightarrow> supervisor \<Rightarrow> bool" where
  "fleet_ok c s \<longleftrightarrow> sv_config s = c \<and> mirrors s \<and> ids_fresh s \<and> scaler_of c (as_config (sv_autoscaler s))
     \<and> (su_min_replicas c \<le> su_max_replicas c \<and> 0 < su_max_replicas c \<longrightarrow> scaler_ok (sv_autoscaler s))"

lemma fleet_ok_new: "fleet_ok c (supervisor_new c)"
  by (auto simp: fleet_ok_def supervisor_new_def mirrors_def ids_fresh_def replica_router_new_def scaler_of_def
      autoscaler_new_def scaler_ok_def)

lemma sync_fleet_ok:
  assumes "distinct (map rep_id (rt_replicas (sv_router s)))" and "ids_fresh s" and "sv_config s = c"
    and "scaler_of c (as_config (sv_autoscaler s))"
    and "su_min_replicas c \<le> su_max_replicas c \<and> 0 < su_max_replicas c \<longrightarrow> scaler_ok (sv_autoscaler s)"
  shows "fleet_ok c (sync_router s)"
proof -
  have d: "distinct (map lr_id (sv_live s))" using assms(2) by (simp add: ids_fresh_def)
  note sync = sync_router_mirrors [OF assms(1) d]
  have "ids_fresh (sync_router s)" using assms(2) sync(2-4) by (simp add: ids_fresh_def)
  then show ?thesis using sync assms by (simp add: fleet_ok_def)
qed

lemma live_update_ok:
  assumes "fleet_ok c s" and "\<And>r. lr_id (f r) = lr_id r"
  shows "fleet_ok c (sync_router (s\<lparr>sv_live := update_first p f (sv_live s)\<rparr>))"
proof (rule sync_fleet_ok)
  have m: "map lr_id (update_first p f (sv_live s)) = map lr_id (sv_live s)"
    by (rule map_update_first) (rule assms(2))
  then have "lr_id ` set (update_first p f (sv_live s)) = lr_id ` set (sv_live s)" by (metis list.set_map)
  moreover have "ids_fresh s" using assms(1) by (simp add: fleet_ok_def)
  ultimately show "ids_fresh (s\<lparr>sv_live := update_first p f (sv_live s)\<rparr>)" using m unfolding ids_fresh_def by simp
qed (use assms(1) in \<open>simp_all add: fleet_ok_def mirrors_def\<close>)

lemma reach_count:
  fixes l d :: nat
  assumes "l1 = max l d" and "l1 = l + a" and "l2 = min l1 d" and "l1 = l2 + b"
  shows "l2 = d" and "a + b = (if l \<le> d then d - l else l - d)"
proof -
  have l2: "l2 = d" using assms(3) unfolding assms(1) by simp
  then show "l2 = d" .
  have "max l d = l + a" "max l d = d + b" using assms(1,2,4) l2 by metis+
  then show "a + b = (if l \<le> d then d - l else l - d)" by (cases "l \<le> d") (simp_all add: max_def)
qed

lemma reconcile_spec:
  assumes ok: "fleet_ok c s" and r: "reconcile m s = (acts, s')"
  shows "fleet_ok c s'" and "sv_autoscaler s' = snd (decide m (sv_autoscaler s))"
    and "as_current (sv_autoscaler s') \<le> su_max_replicas c \<Longrightarrow> length (sv_live s') = as_current (sv_autoscaler s')
       \<and> length acts = (if length (sv_live s) \<le> length (sv_live s') then length (sv_live s') - length (sv_live s)
                        else length (sv_live s) - length (sv_live s'))"
proof -
  define s0 where "s0 = s\<lparr>sv_autoscaler := snd (decide m (sv_autoscaler s))\<rparr>"
  obtain starts s1 where s1: "start_loop (as_current (sv_autoscaler s0)) s0 = (starts, s1)" by fastforce
  obtain stops s2 where s2: "stop_loop (as_current (sv_autoscaler s0)) s1 = (stops, s2)" by fastforce
  have s': "s' = sync_router s2" and acts: "acts = starts @ stops"
    using r s1 s2 by (simp_all add: reconcile_def Let_def s0_def)
  note a = start_loop_spec [OF s1] and b = stop_loop_spec [OF s2]
  have frame: "sv_router s2 = sv_router s" "sv_config s2 = c" "sv_autoscaler s2 = snd (decide m (sv_autoscaler s))"
  proof -
    have "same_frame s0 s1" "same_frame s1 s2" by (rule conjunct1 [OF a]) (rule conjunct1 [OF b])
    moreover have "sv_config s = c" using ok by (simp add: fleet_ok_def)
    ultimately show "sv_router s2 = sv_router s" "sv_config s2 = c" "sv_autoscaler s2 = snd (decide m (sv_autoscaler s))"
      unfolding same_frame_def s0_def by simp_all
  qed
  have "ids_fresh s" using ok by (simp add: fleet_ok_def)
  then have "ids_fresh s0" by (simp add: s0_def ids_fresh_def)
  then have fresh: "ids_fresh s2" using a b by blast
  have scaler: "as_config (snd (decide m (sv_autoscaler s))) = as_config (sv_autoscaler s)"
    by (simp add: decide_def Let_def)
  show "fleet_ok c s'"
    unfolding s'
  proof (rule sync_fleet_ok [OF _ fresh frame(2)])
    show "distinct (map rep_id (rt_replicas (sv_router s2)))" using ok frame(1) by (simp add: fleet_ok_def mirrors_def)
    show "scaler_of c (as_config (sv_autoscaler s2))" using ok frame(3) scaler by (simp add: fleet_ok_def)
    show "su_min_replicas c \<le> su_max_replicas c \<and> 0 < su_max_replicas c \<longrightarrow> scaler_ok (sv_autoscaler s2)"
      using ok frame(3) decide_spec(1) by (auto simp: fleet_ok_def scaler_of_def)
  qed
  have d: "distinct (map lr_id (sv_live s2))" "distinct (map rep_id (rt_replicas (sv_router s2)))"
    using fresh ok frame(1) by (simp_all add: ids_fresh_def fleet_ok_def mirrors_def)
  note sync = sync_router_mirrors [OF d(2,1)]
  show scal: "sv_autoscaler s' = snd (decide m (sv_autoscaler s))" using s' sync(5) frame(3) by simp
  assume "as_current (sv_autoscaler s') \<le> su_max_replicas c"
  then have "as_current (sv_autoscaler s0) \<le> su_max_replicas (sv_config s0)" using scal ok by (simp add: s0_def fleet_ok_def)
  then show "length (sv_live s') = as_current (sv_autoscaler s')
       \<and> length acts = (if length (sv_live s) \<le> length (sv_live s') then length (sv_live s') - length (sv_live s)
                        else length (sv_live s) - length (sv_live s'))"
  proof -
    let ?d = "as_current (sv_autoscaler s0)" and ?l = "length (sv_live s0)"
    assume le: "?d \<le> su_max_replicas (sv_config s0)"
    have l1: "length (sv_live s1) = max ?l ?d" "length (sv_live s1) = ?l + length starts" using a le by (simp_all add: min_absorb1)
    have l2: "length (sv_live s2) = min (length (sv_live s1)) ?d" "length (sv_live s1) = length (sv_live s2) + length stops"
      using b by blast+
    have eqs: "?l = length (sv_live s)" "?d = as_current (sv_autoscaler s')" "length (sv_live s') = length (sv_live s2)"
      using s' sync(2) scal by (simp_all add: s0_def)
    from reach_count [OF l1 l2] have "length (sv_live s2) = ?d" "length acts = (if ?l \<le> ?d then ?d - ?l else ?l - ?d)"
      unfolding acts by simp_all
    then show ?thesis unfolding eqs by simp
  qed
qed

lemma fleet_ok_step: "fleet_ok c s \<Longrightarrow> fleet_ok c (fleet_step op s)"
proof (cases op)
  case (Reconcile m)
  assume "fleet_ok c s"
  then show ?thesis using reconcile_spec(1) [of c s m "fst (reconcile m s)" "snd (reconcile m s)"] Reconcile by simp
next
  case (Started i)
  assume "fleet_ok c s"
  then show ?thesis using Started by (simp add: on_replica_started_def live_update_ok)
next
  case (Report i n kv)
  assume "fleet_ok c s"
  then show ?thesis using Report by (simp add: on_replica_report_def live_update_ok)
next
  case (Stopped i)
  assume ok: "fleet_ok c s"
  then have "distinct (map rep_id (rt_replicas (sv_router s)))" by (simp add: fleet_ok_def mirrors_def)
  from router_directory.del_ok [OF this, of i] router_directory.entries_del [OF this, of i] ok Stopped
  show ?thesis by (auto simp: fleet_ok_def mirrors_def ids_fresh_def on_replica_stopped_def distinct_map_filter)
qed

lemma fleet_run_ok: "fleet_ok c (fleet_run c ops)"
proof -
  have "fleet_ok c s \<Longrightarrow> fleet_ok c (fold fleet_step ops s)" for s
    by (induction ops arbitrary: s) (auto intro: fleet_ok_step)
  then show ?thesis by (simp add: fleet_run_def fleet_ok_new)
qed

section \<open>Properties\<close>

text \<open>C14: the router always mirrors the fleet. After any sequence of reconciliations and reports of started, loaded and stopped
  replicas, the live replicas have pairwise different ids and the router holds exactly one entry per live
  replica, with its current health and load.\<close>

theorem router_mirrors_fleet:
  "distinct (map lr_id (sv_live (fleet_run c ops)))
   \<and> distinct (map rep_id (rt_replicas (sv_router (fleet_run c ops))))
   \<and> set (rt_replicas (sv_router (fleet_run c ops))) = replica_of c ` set (sv_live (fleet_run c ops))"
  using fleet_run_ok [of c ops] by (simp add: fleet_ok_def mirrors_def ids_fresh_def)

text \<open>C15: a reconciliation brings the fleet to the replica count of the autoscaler with as many starts or stops as that takes. The
  count stays between the configured bounds, moves by at most one replica, and does not move during a cooldown.\<close>

theorem reconcile_reaches_target:
  assumes "su_min_replicas c \<le> su_max_replicas c" and "0 < su_max_replicas c"
    and "reconcile m (fleet_run c ops) = (acts, s')"
  shows "length (sv_live s') = as_current (sv_autoscaler s')
     \<and> su_min_replicas c \<le> length (sv_live s') \<and> length (sv_live s') \<le> su_max_replicas c
     \<and> as_current (sv_autoscaler s') \<le> as_current (sv_autoscaler (fleet_run c ops)) + 1
     \<and> as_current (sv_autoscaler (fleet_run c ops)) \<le> as_current (sv_autoscaler s') + 1
     \<and> (in_cooldown (sv_autoscaler (fleet_run c ops))
          \<longrightarrow> as_current (sv_autoscaler s') = as_current (sv_autoscaler (fleet_run c ops)))
     \<and> length acts = (if length (sv_live (fleet_run c ops)) \<le> length (sv_live s')
                       then length (sv_live s') - length (sv_live (fleet_run c ops))
                       else length (sv_live (fleet_run c ops)) - length (sv_live s'))"
proof -
  let ?s = "fleet_run c ops"
  note spec = reconcile_spec [OF fleet_run_ok assms(3)]
  have "scaler_ok (sv_autoscaler s')" "scaler_of c (as_config (sv_autoscaler s'))"
    using spec(1) assms(1,2) by (simp_all add: fleet_ok_def)
  then have b: "su_min_replicas c \<le> as_current (sv_autoscaler s')" "as_current (sv_autoscaler s') \<le> su_max_replicas c"
    by (simp_all add: scaler_ok_def scaler_of_def)
  have "scaler_ok (sv_autoscaler ?s)" "scaler_of c (as_config (sv_autoscaler ?s))"
    using fleet_run_ok [of c ops] assms(1,2) by (simp_all add: fleet_ok_def)
  then have "as_current (sv_autoscaler s') \<le> as_current (sv_autoscaler ?s) + 1"
      "as_current (sv_autoscaler ?s) \<le> as_current (sv_autoscaler s') + 1"
      "in_cooldown (sv_autoscaler ?s) \<longrightarrow> as_current (sv_autoscaler s') = as_current (sv_autoscaler ?s)"
    unfolding spec(2) by (auto simp: decide_def Let_def scaler_ok_def scaler_of_def in_cooldown_def)
  with spec(3) [OF b(2)] b show ?thesis by simp
qed

definition example_fleet :: supervisor_config where
  "example_fleet =
     \<lparr>su_model = ''m'', su_version = ''v1'', su_device = Cpu, su_min_replicas = 1, su_max_replicas = 3, su_max_concurrency = 4,
      su_target_ttft_ms = 500, su_target_kv_pressure_pct = 80, su_queue_depth_scale_up = 16, su_queue_depth_scale_down = 2,
      su_cooldown_ticks = 1\<rparr>"

definition busy_metrics :: llm_metrics where
  "busy_metrics = \<lparr>m_tokens_per_sec = 10, m_ttft_ms = 100, m_queue_depth = 20, m_kv_pressure_pct = 50\<rparr>"

theorem reconcile_reaches_target_witness:
  "length (sv_live (snd (reconcile busy_metrics (fleet_run example_fleet [])))) = 2"
proof -
  obtain acts s' where r: "reconcile busy_metrics (fleet_run example_fleet []) = (acts, s')" by fastforce
  have "su_min_replicas example_fleet \<le> su_max_replicas example_fleet" "0 < su_max_replicas example_fleet"
    by (simp_all add: example_fleet_def)
  note target = reconcile_reaches_target [OF this r]
  have "as_current (sv_autoscaler s') = 2"
    using reconcile_spec(2) [OF fleet_run_ok r]
    by (simp add: fleet_run_def supervisor_new_def autoscaler_new_def decide_def example_fleet_def busy_metrics_def Let_def)
  with target r show ?thesis by simp
qed

text \<open>The supervisor forgets loaded adapters. Whatever adapters the router was told are resident, the next report of any
  replica resets them all, and from then on every request that needs an adapter is refused, however many
  healthy replicas there are.\<close>

theorem report_forgets_adapters:
  assumes "cp_resolve cp (rr_model q) (rr_version q) (rr_routing_key q) = Some t" and "rm_adapter t = Some a"
  shows "fst (route cp q (sv_router (on_replica_report j n kv
     ((fleet_run c ops)\<lparr>sv_router := set_loaded_adapters i adapters (sv_router (fleet_run c ops))\<rparr>)))) = None"
proof -
  let ?r = "fleet_run c ops"
  let ?s = "?r\<lparr>sv_router := set_loaded_adapters i adapters (sv_router ?r)\<rparr>"
  let ?u = "?s\<lparr>sv_live := update_first (\<lambda>r. lr_id r = j) (\<lambda>r. r\<lparr>lr_active_sequences := n, lr_kv_pressure_pct := kv\<rparr>) (sv_live ?s)\<rparr>"
  have "map rep_id (rt_replicas (set_loaded_adapters i adapters (sv_router ?r))) = map rep_id (rt_replicas (sv_router ?r))"
    by (simp add: set_loaded_adapters_def map_update_first)
  then have "distinct (map rep_id (rt_replicas (sv_router ?u)))"
    using fleet_run_ok [of c ops] by (simp add: fleet_ok_def mirrors_def)
  moreover have "map lr_id (sv_live ?u) = map lr_id (sv_live ?r)" by (simp add: map_update_first)
  then have "distinct (map lr_id (sv_live ?u))" using fleet_run_ok [of c ops] by (simp add: fleet_ok_def ids_fresh_def)
  ultimately have "mirrors (sync_router ?u)" by (rule sync_router_mirrors)
  then have "\<forall>x \<in> set (rt_replicas (sv_router (sync_router ?u))). rep_loaded_adapters x = []"
    by (auto simp: mirrors_def replica_of_def)
  then have "candidates (sv_router (sync_router ?u)) t = []"
    using assms(2) by (auto simp: candidates_def eligible_def filter_empty_conv)
  then show ?thesis using assms(1) by (simp add: on_replica_report_def route_def)
qed

theorem report_forgets_adapters_witness:
  "fst (route (cp_register cp_new (route_adapter (add_version (record_new ''m'') (version_new ''v1'' (Local ''/w''))) ''k'' ''lora''))
      \<lparr>rr_model = ''m'', rr_version = None, rr_routing_key = Some ''k''\<rparr>
      (sv_router (on_replica_report ''m-v1-0'' 0 0
        ((fleet_run example_fleet [Reconcile busy_metrics, Started ''m-v1-0''])
           \<lparr>sv_router := set_loaded_adapters ''m-v1-0'' [''lora'']
              (sv_router (fleet_run example_fleet [Reconcile busy_metrics, Started ''m-v1-0'']))\<rparr>)))) = None"
  by (rule report_forgets_adapters [where a = "''lora''" and t = "\<lparr>rm_name = ''m'', rm_version = ''v1'',
      rm_weight_location = Local ''/w'', rm_profile = runtime_profile_default, rm_adapter = Some ''lora''\<rparr>"])
    (simp_all add: cp_resolve_def cp_register_def cp_new_def route_adapter_def add_version_def record_new_def version_new_def
      resolve_version_def version_matches_def resolve_adapter_def)

end
