(* ===== verification/Http_Types.thy ===== *)
theory Http_Types
  imports Prelude
begin

text \<open>
  Requests, responses and the middleware chain of \<^verbatim>\<open>crates/justapi-core/src/middleware.rs\<close> (the trait
  \<open>Middleware\<close>, \<open>Next\<close>, \<open>MiddlewareChain\<close>), and the JSON values the authentication middlewares inspect.

  \<^item> Rust strings are their UTF-8 bytes, a header map is the list of its entries with lower-case names
    (\<open>insert\<close> replaces all entries of a name, a builder's \<open>header\<close> appends one).
  \<^item> A handler maps a request and the state of everything behind it to an outcome and a new state.
    The outcome is a response, an \<open>anyhow\<close> error or a panic.
  \<^item> Whether a byte string is visible ASCII, which decides \<open>HeaderValue::from_str\<close> and \<open>HeaderValue::to_str\<close>,
    is decided by the \<^verbatim>\<open>http\<close> crate and is the parameter \<open>visible\<close> of the definitions that depend on it.
\<close>

section \<open>JSON values\<close>

datatype json =
  JNull
| JBool bool
| JNumber int
| JString string
| JArray "json list"
| JObject "(string \<times> json) list"

fun json_get :: "json \<Rightarrow> string \<Rightarrow> json option" where
  "json_get (JObject kvs) k = map_of kvs k"
| "json_get _ _ = None"

fun as_str :: "json \<Rightarrow> string option" where
  "as_str (JString s) = Some s"
| "as_str _ = None"

fun as_array :: "json \<Rightarrow> json list option" where
  "as_array (JArray xs) = Some xs"
| "as_array _ = None"

fun as_object :: "json \<Rightarrow> (string \<times> json) list option" where
  "as_object (JObject kvs) = Some kvs"
| "as_object _ = None"

section \<open>Requests and responses\<close>

datatype http_method = GET | POST | PUT | DELETE | PATCH | OPTIONS | HEAD | Other_method string

type_synonym header_map = "(string \<times> string) list"

text \<open>\<open>rq_claims\<close> and \<open>rq_peer\<close> are the two extensions the middlewares use: JSON claims and the peer's address.\<close>

record http_request =
  rq_method :: http_method
  rq_path :: string
  rq_query :: "string option"
  rq_headers :: header_map
  rq_body :: string
  rq_claims :: "json option"
  rq_peer :: "string option"

record http_response =
  rp_status :: nat
  rp_headers :: header_map
  rp_body :: string

definition hdr_get :: "header_map \<Rightarrow> string \<Rightarrow> string option" where
  "hdr_get h k = map_of h k"

definition hdr_insert :: "string \<Rightarrow> string \<Rightarrow> header_map \<Rightarrow> header_map" where
  "hdr_insert k v h = filter (\<lambda>e. fst e \<noteq> k) h @ [(k, v)]"

text \<open>\<open>headers().get(k).and_then(|v| v.to_str().ok())\<close>.\<close>

definition hdr_str :: "(string \<Rightarrow> bool) \<Rightarrow> header_map \<Rightarrow> string \<Rightarrow> string option" where
  "hdr_str visible h k = Option.bind (hdr_get h k) (\<lambda>v. if visible v then Some v else None)"

lemma map_of_filter_neq: "k \<noteq> k' \<Longrightarrow> map_of (filter (\<lambda>e. fst e \<noteq> k) h) k' = map_of h k'"
  by (induction h) auto

lemma map_of_filter_key: "map_of (filter (\<lambda>e. fst e \<noteq> k) h) k = None"
  by (induction h) auto

lemma hdr_get_insert [simp]: "hdr_get (hdr_insert k v h) k' = (if k' = k then Some v else hdr_get h k')"
  by (auto simp: hdr_get_def hdr_insert_def map_add_def map_of_filter_neq map_of_filter_key split: option.splits)

definition is_server_error :: "nat \<Rightarrow> bool" where
  "is_server_error s \<longleftrightarrow> 500 \<le> s \<and> s < 600"

section \<open>Handlers and the middleware chain\<close>

datatype outcome = Response http_response | Failure string | Panic

type_synonym 'w handler = "http_request \<Rightarrow> 'w \<Rightarrow> outcome \<times> 'w"
type_synonym 'w middleware = "http_request \<Rightarrow> 'w handler \<Rightarrow> 'w \<Rightarrow> outcome \<times> 'w"

record 'w middleware_chain =
  mc_middlewares :: "'w middleware list"
  mc_handler :: "'w handler"

definition chain_new :: "'w handler \<Rightarrow> 'w middleware_chain" where
  "chain_new h = \<lparr>mc_middlewares = [], mc_handler = h\<rparr>"

definition chain_add :: "'w middleware_chain \<Rightarrow> 'w middleware \<Rightarrow> 'w middleware_chain" where
  "chain_add c m = c\<lparr>mc_middlewares := mc_middlewares c @ [m]\<rparr>"

definition set_handler :: "'w middleware_chain \<Rightarrow> 'w handler \<Rightarrow> 'w middleware_chain" where
  "set_handler c h = c\<lparr>mc_handler := h\<rparr>"

definition chain_is_empty :: "'w middleware_chain \<Rightarrow> bool" where
  "chain_is_empty c \<longleftrightarrow> mc_middlewares c = []"

text \<open>\<open>Next { middlewares, index, handler }.run(req)\<close>.\<close>

function next_run :: "'w middleware list \<Rightarrow> nat \<Rightarrow> 'w handler \<Rightarrow> 'w handler" where
  "next_run ms i h req w =
     (if i < length ms then (ms ! i) req (next_run ms (i + 1) h) w else h req w)"
  by pat_completeness auto
termination
  by (relation "measure (\<lambda>(ms, i, h, req, w). length ms - i)") auto

declare next_run.simps [simp del]

definition chain_run :: "'w middleware_chain \<Rightarrow> 'w handler" where
  "chain_run c req w =
     (if mc_middlewares c = [] then mc_handler c req w
      else next_run (mc_middlewares c) 0 (mc_handler c) req w)"

text \<open>The reference semantics of a chain: every middleware wraps all that were added after it.\<close>

definition compose :: "'w middleware list \<Rightarrow> 'w handler \<Rightarrow> 'w handler" where
  "compose ms h = foldr (\<lambda>m nxt req w. m req nxt w) ms h"

lemma next_run_compose: "next_run ms i h = compose (drop i ms) h"
proof (induction "length ms - i" arbitrary: i)
  case 0
  then show ?case by (simp add: fun_eq_iff next_run.simps [of ms i] compose_def)
next
  case (Suc n)
  then have i: "i < length ms" and IH: "next_run ms (i + 1) h = compose (drop (i + 1) ms) h" by auto
  have "drop i ms = ms ! i # drop (i + 1) ms" using i by (simp add: Cons_nth_drop_Suc)
  moreover have "next_run ms i h = (\<lambda>req w. (ms ! i) req (next_run ms (i + 1) h) w)"
    using i by (intro ext) (subst next_run.simps, simp)
  ultimately show ?case unfolding IH by (simp add: compose_def)
qed

text \<open>Running a chain runs the first middleware added, whose continuation is the rest of the chain in the order
  of addition, down to the handler; a chain built by \<open>add\<close> is the composition of its middlewares.\<close>

theorem chain_runs_in_order_of_addition:
  "chain_run (foldl chain_add (chain_new h) ms) = foldr (\<lambda>m nxt req w. m req nxt w) ms h"
proof -
  have b: "foldl chain_add c ms = c\<lparr>mc_middlewares := mc_middlewares c @ ms\<rparr>" for c :: "'a middleware_chain"
    by (induction ms arbitrary: c) (simp_all add: chain_add_def)
  show ?thesis
    by (simp add: fun_eq_iff chain_run_def b chain_new_def next_run_compose compose_def)
qed

end
