(* ===== verification/Middleware.thy ===== *)
theory Middleware
  imports Http_Types
begin

text \<open>
  The middlewares of \<^verbatim>\<open>crates/justapi-core/src/middleware.rs\<close> that decorate responses or limit rates:
  \<open>AccessLogger\<close>, \<open>Cors\<close>, \<open>SecurityHeaders\<close>, \<open>RateLimiter\<close>, \<open>IpRateLimiter\<close>, \<open>PerRouteRateLimiter\<close>, and the
  problem-document helper \<open>json_error\<close>. The token buckets of the \<^verbatim>\<open>governor\<close> crate are a parameter \<open>check\<close> that
  admits a request or returns the seconds to wait; the JSON printer of \<^verbatim>\<open>serde_json\<close> is a parameter
  \<open>print\<close>.

  The lemmas say when a response carries which CORS headers, that an origin which is not allowed never gets
  one, that the security headers are always set, and that a limited request never reaches the handler.
\<close>

section \<open>Problem documents\<close>

definition error_title :: "nat \<Rightarrow> string" where
  "error_title s =
     (if s = 400 then ''Bad Request'' else if s = 401 then ''Unauthorized''
      else if s = 403 then ''Forbidden'' else if s = 404 then ''Not Found''
      else if s = 405 then ''Method Not Allowed'' else if s = 413 then ''Payload Too Large''
      else if s = 422 then ''Unprocessable Entity'' else if s = 429 then ''Too Many Requests''
      else if s = 500 then ''Internal Server Error'' else if s = 502 then ''Bad Gateway''
      else if s = 503 then ''Service Unavailable'' else if s = 504 then ''Gateway Timeout''
      else ''Error'')"

text \<open>\<open>to_lowercase().replace(' ', "-")\<close> on the ASCII titles above.\<close>

definition slug_char :: "char \<Rightarrow> char" where
  "slug_char c = (let n = of_char c :: nat in
     if n = 32 then char_of (45 :: nat) else if 65 \<le> n \<and> n \<le> 90 then char_of (n + 32) else c)"

definition json_error :: "(json \<Rightarrow> string) \<Rightarrow> nat \<Rightarrow> string \<Rightarrow> http_response" where
  "json_error print s msg =
     (let title = error_title s;
          body = print (JObject [(''type'', JString (''https://justapi.dev/errors/'' @ map slug_char title)),
                                 (''title'', JString title), (''status'', JNumber (int s)),
                                 (''detail'', JString msg)])
      in \<lparr>rp_status = s,
          rp_headers = [(''content-type'', ''application/problem+json''),
                        (''content-length'', nat_str (length body))],
          rp_body = body\<rparr>)"

section \<open>Access log\<close>

text \<open>The log lines are the second component of the state; the durations are formatted outside the model.\<close>

definition log_status :: "outcome \<Rightarrow> nat" where
  "log_status r = (case r of Response p \<Rightarrow> rp_status p | _ \<Rightarrow> 500)"

definition access_logger_handle ::
  "'w handler \<Rightarrow> http_request \<Rightarrow> 'w \<times> (http_method \<times> string \<times> nat) list
     \<Rightarrow> outcome \<times> 'w \<times> (http_method \<times> string \<times> nat) list" where
  "access_logger_handle nxt req wl =
     (let (res, w1) = nxt req (fst wl) in
      case res of
        Panic \<Rightarrow> (Panic, w1, snd wl)
      | _ \<Rightarrow> (res, w1, snd wl @ [(rq_method req, rq_path req, log_status res)]))"

section \<open>CORS\<close>

record cors =
  allow_origins :: "string list"
  cors_allow_methods :: string
  cors_allow_headers :: string
  cors_expose_headers :: "string list"
  cors_max_age :: string
  cors_allow_credentials :: bool

definition cors_permissive :: cors where
  "cors_permissive =
     \<lparr>allow_origins = [''*''], cors_allow_methods = ''GET, POST, PUT, DELETE, PATCH, OPTIONS'',
      cors_allow_headers = ''Content-Type, Authorization'', cors_expose_headers = [],
      cors_max_age = ''86400'', cors_allow_credentials = False\<rparr>"

definition cors_new :: cors where
  "cors_new = cors_permissive\<lparr>allow_origins := []\<rparr>"

definition allow_origin :: "cors \<Rightarrow> string \<Rightarrow> cors" where
  "allow_origin c origin =
     (if origin = ''*'' then c\<lparr>allow_origins := [''*'']\<rparr>
      else if allow_origins c = [''*''] then c\<lparr>allow_origins := [origin]\<rparr>
      else c\<lparr>allow_origins := allow_origins c @ [origin]\<rparr>)"

definition allow_methods :: "cors \<Rightarrow> string \<Rightarrow> cors" where
  "allow_methods c m = c\<lparr>cors_allow_methods := m\<rparr>"

definition allow_headers :: "cors \<Rightarrow> string \<Rightarrow> cors" where
  "allow_headers c h = c\<lparr>cors_allow_headers := h\<rparr>"

definition expose_headers :: "cors \<Rightarrow> string list \<Rightarrow> cors" where
  "expose_headers c hs = c\<lparr>cors_expose_headers := hs\<rparr>"

definition allow_credentials :: "cors \<Rightarrow> cors" where
  "allow_credentials c = c\<lparr>cors_allow_credentials := True\<rparr>"

definition max_age :: "cors \<Rightarrow> string \<Rightarrow> cors" where
  "max_age c s = c\<lparr>cors_max_age := s\<rparr>"

definition origin_matches :: "string \<Rightarrow> string list \<Rightarrow> bool" where
  "origin_matches origin allowed = list_ex (\<lambda>a. a = ''*'' \<or> a = origin) allowed"

text \<open>\<open>join(", ")\<close> and \<open>join("; ")\<close>.\<close>

fun join :: "string \<Rightarrow> string list \<Rightarrow> string" where
  "join sep [] = []"
| "join sep [x] = x"
| "join sep (x # y # xs) = x @ sep @ join sep (y # xs)"

text \<open>The origin to answer with, or \<open>None\<close> when the middleware steps aside.\<close>

definition cors_origin :: "(string \<Rightarrow> bool) \<Rightarrow> cors \<Rightarrow> http_request \<Rightarrow> string option" where
  "cors_origin visible c req =
     (let req_origin = hdr_str visible (rq_headers req) ''origin'';
          allow_all = list_ex (\<lambda>a. a = ''*'') (allow_origins c)
      in if allow_all then (if cors_allow_credentials c then req_origin else Some ''*'')
         else (case req_origin of
                 Some origin \<Rightarrow> if origin_matches origin (allow_origins c) then Some origin else None
               | None \<Rightarrow> None))"

definition cors_preflight :: "(string \<Rightarrow> bool) \<Rightarrow> cors \<Rightarrow> bool \<Rightarrow> string \<Rightarrow> outcome" where
  "cors_preflight visible c add_vary origin =
     (if \<not> visible origin then Failure ''invalid CORS origin header value''
      else (let exposed = join '', '' (cors_expose_headers c);
                hs = [(''access-control-allow-origin'', origin),
                      (''access-control-allow-methods'', cors_allow_methods c),
                      (''access-control-allow-headers'', cors_allow_headers c),
                      (''access-control-max-age'', cors_max_age c)]
                   @ (if cors_allow_credentials c then [(''access-control-allow-credentials'', ''true'')] else [])
                   @ (if cors_expose_headers c \<noteq> [] then [(''access-control-expose-headers'', exposed)] else [])
                   @ (if add_vary then [(''vary'', ''Origin'')] else [])
            in if visible (cors_allow_methods c) \<and> visible (cors_allow_headers c) \<and> visible (cors_max_age c)
                  \<and> (cors_expose_headers c \<noteq> [] \<longrightarrow> visible exposed)
               then Response \<lparr>rp_status = 204, rp_headers = hs, rp_body = []\<rparr>
               else Panic))"

definition cors_decorate :: "(string \<Rightarrow> bool) \<Rightarrow> cors \<Rightarrow> bool \<Rightarrow> string \<Rightarrow> http_response \<Rightarrow> outcome" where
  "cors_decorate visible c add_vary origin resp =
     (if \<not> visible origin then Failure ''invalid CORS origin header value''
      else (let h1 = hdr_insert ''access-control-allow-origin'' origin (rp_headers resp);
                h2 = (if cors_allow_credentials c then hdr_insert ''access-control-allow-credentials'' ''true'' h1 else h1);
                exposed = join '', '' (cors_expose_headers c)
            in if cors_expose_headers c \<noteq> [] \<and> \<not> visible exposed
               then Failure ''invalid CORS expose-headers value''
               else (let h3 = (if cors_expose_headers c \<noteq> [] then hdr_insert ''access-control-expose-headers'' exposed h2 else h2);
                         h4 = (if add_vary then hdr_insert ''vary'' ''Origin'' h3 else h3)
                     in Response (resp\<lparr>rp_headers := h4\<rparr>))))"

definition cors_handle :: "(string \<Rightarrow> bool) \<Rightarrow> cors \<Rightarrow> 'w middleware" where
  "cors_handle visible c req nxt w =
     (let add_vary = \<not> list_ex (\<lambda>a. a = ''*'') (allow_origins c) in
      case cors_origin visible c req of
        None \<Rightarrow> nxt req w
      | Some origin \<Rightarrow>
          if rq_method req = OPTIONS then (cors_preflight visible c add_vary origin, w)
          else (case nxt req w of
                  (Response resp, w1) \<Rightarrow> (cors_decorate visible c add_vary origin resp, w1)
                | r \<Rightarrow> r))"

section \<open>Security headers\<close>

record security_headers =
  sh_hsts :: string
  csp_directives :: "string list"
  include_xfo :: bool
  include_csp :: bool
  include_hsts :: bool
  include_hsts_preload :: bool

definition security_headers_default :: security_headers where
  "security_headers_default =
     \<lparr>sh_hsts = ''max-age=31536000; includeSubDomains'', csp_directives = [''default-src '' @ [CHR 0x27] @ ''self'' @ [CHR 0x27]],
      include_xfo = True, include_csp = True, include_hsts = True, include_hsts_preload = False\<rparr>"

text \<open>\<open>trim_end_matches(p)\<close> for a non-empty pattern: the suffix is removed as often as it occurs.\<close>

function trim_start_pat :: "string \<Rightarrow> string \<Rightarrow> string" where
  "trim_start_pat p s = (if p \<noteq> [] \<and> starts_with s p then trim_start_pat p (drop (length p) s) else s)"
  by pat_completeness auto
termination
proof (relation "measure (\<lambda>(p, s). length s)", goal_cases)
  case (2 p s)
  then show ?case by (cases s) (auto simp: starts_with_iff)
qed simp

declare trim_start_pat.simps [simp del]

definition trim_end_pat :: "string \<Rightarrow> string \<Rightarrow> string" where
  "trim_end_pat p s = rev (trim_start_pat (rev p) (rev s))"

definition hsts_preload_value :: "string \<Rightarrow> string" where
  "hsts_preload_value h = trim_end_pat ''; preload'' h @ ''; preload''"

definition with_hsts_preload :: "security_headers \<Rightarrow> security_headers" where
  "with_hsts_preload s = s\<lparr>sh_hsts := hsts_preload_value (sh_hsts s), include_hsts_preload := True\<rparr>"

definition with_csp_directive :: "security_headers \<Rightarrow> string \<Rightarrow> security_headers" where
  "with_csp_directive s d = s\<lparr>csp_directives := csp_directives s @ [d]\<rparr>"

definition without_xfo :: "security_headers \<Rightarrow> security_headers" where
  "without_xfo s = s\<lparr>include_xfo := False\<rparr>"

definition without_csp :: "security_headers \<Rightarrow> security_headers" where
  "without_csp s = s\<lparr>include_csp := False\<rparr>"

definition without_hsts :: "security_headers \<Rightarrow> security_headers" where
  "without_hsts s = s\<lparr>include_hsts := False\<rparr>"

definition hsts_value :: "security_headers \<Rightarrow> string" where
  "hsts_value s = (if include_hsts_preload s then hsts_preload_value (sh_hsts s) else sh_hsts s)"

definition security_headers_handle :: "(string \<Rightarrow> bool) \<Rightarrow> security_headers \<Rightarrow> 'w middleware" where
  "security_headers_handle visible s req nxt w =
     (case nxt req w of
        (Response resp, w1) \<Rightarrow>
          (let h1 = hdr_insert ''x-content-type-options'' ''nosniff'' (rp_headers resp);
               h2 = (if include_xfo s then hdr_insert ''x-frame-options'' ''DENY'' h1 else h1);
               csp = join ''; '' (csp_directives s)
           in if include_hsts s \<and> \<not> visible (hsts_value s) then (Failure ''invalid HSTS value'', w1)
              else (let h3 = (if include_hsts s then hdr_insert ''strict-transport-security'' (hsts_value s) h2 else h2)
                    in if include_csp s \<and> \<not> visible csp then (Failure ''invalid CSP value'', w1)
                       else (let h4 = (if include_csp s then hdr_insert ''content-security-policy'' csp h3 else h3)
                             in (Response (resp\<lparr>rp_headers := hdr_insert ''x-xss-protection'' ''0'' h4\<rparr>), w1))))
      | r \<Rightarrow> r)"

section \<open>Rate limiters\<close>

text \<open>
  \<open>check w\<close> is the decision of a \<^verbatim>\<open>governor\<close> limiter whose buckets are part of the state: \<open>None\<close> admits, \<open>Some t\<close>
  rejects with \<open>t\<close> whole seconds to wait. The three middlewares share their rejection; its \<open>retry-after\<close> value
  is a decimal number, which is always a valid header value.
\<close>

definition too_many_requests :: "(json \<Rightarrow> string) \<Rightarrow> nat \<Rightarrow> http_response" where
  "too_many_requests print wait =
     (let retry_val = nat_str (max wait 1);
          resp = json_error print 429 ''rate limit exceeded''
      in resp\<lparr>rp_headers := hdr_insert ''x-ratelimit-reset'' retry_val
                              (hdr_insert ''retry-after'' retry_val (rp_headers resp))\<rparr>)"

definition rate_limiter_handle ::
  "(json \<Rightarrow> string) \<Rightarrow> ('w \<Rightarrow> nat option \<times> 'w) \<Rightarrow> 'w middleware" where
  "rate_limiter_handle print check req nxt w =
     (case check w of
        (None, w1) \<Rightarrow> nxt req w1
      | (Some wait, w1) \<Rightarrow> (Response (too_many_requests print wait), w1))"

definition client_ip :: "http_request \<Rightarrow> string" where
  "client_ip req = (case rq_peer req of Some ip \<Rightarrow> ip | None \<Rightarrow> ''unknown'')"

definition ip_rate_limiter_handle ::
  "(json \<Rightarrow> string) \<Rightarrow> (string \<Rightarrow> 'w \<Rightarrow> nat option \<times> 'w) \<Rightarrow> 'w middleware" where
  "ip_rate_limiter_handle print check_key req nxt w =
     (case check_key (client_ip req) w of
        (None, w1) \<Rightarrow> nxt req w1
      | (Some wait, w1) \<Rightarrow> (Response (too_many_requests print wait), w1))"

record 'w rate_limit_rule =
  rule_prefix :: string
  rule_method :: "http_method option"
  rule_check :: "'w \<Rightarrow> nat option \<times> 'w"

record 'w per_route_rate_limiter =
  rl_rules :: "'w rate_limit_rule list"
  rl_fallback :: "('w \<Rightarrow> nat option \<times> 'w) option"

definition per_route_new :: "'w per_route_rate_limiter" where
  "per_route_new = \<lparr>rl_rules = [], rl_fallback = None\<rparr>"

definition add_rule ::
  "'w per_route_rate_limiter \<Rightarrow> string \<Rightarrow> http_method option \<Rightarrow> ('w \<Rightarrow> nat option \<times> 'w) \<Rightarrow> 'w per_route_rate_limiter" where
  "add_rule l p m check = l\<lparr>rl_rules := rl_rules l @ [\<lparr>rule_prefix = p, rule_method = m, rule_check = check\<rparr>]\<rparr>"

definition with_fallback :: "'w per_route_rate_limiter \<Rightarrow> ('w \<Rightarrow> nat option \<times> 'w) \<Rightarrow> 'w per_route_rate_limiter" where
  "with_fallback l check = l\<lparr>rl_fallback := Some check\<rparr>"

definition find_rule :: "'w per_route_rate_limiter \<Rightarrow> string \<Rightarrow> http_method \<Rightarrow> 'w rate_limit_rule option" where
  "find_rule l path m =
     find (\<lambda>r. starts_with path (rule_prefix r) \<and> (case rule_method r of None \<Rightarrow> True | Some m' \<Rightarrow> m' = m)) (rl_rules l)"

definition per_route_handle :: "(json \<Rightarrow> string) \<Rightarrow> 'w per_route_rate_limiter \<Rightarrow> 'w middleware" where
  "per_route_handle print l req nxt w =
     (case find_rule l (rq_path req) (rq_method req) of
        Some rule \<Rightarrow>
          (case rule_check rule w of
             (None, w1) \<Rightarrow> nxt req w1
           | (Some wait, w1) \<Rightarrow> (Response (too_many_requests print wait), w1))
      | None \<Rightarrow> (case rl_fallback l of
                   Some check \<Rightarrow> rate_limiter_handle print check req nxt w
                 | None \<Rightarrow> nxt req w))"

section \<open>Properties\<close>

lemma list_ex_star: "list_ex (\<lambda>a. a = ''*'') xs \<longleftrightarrow> ''*'' \<in> set xs"
  by (auto simp: list_ex_iff)

lemma cors_origin_allowed:
  assumes "cors_origin visible c req = Some o'"
  shows "(''*'' \<in> set (allow_origins c) \<or> o' \<in> set (allow_origins c))
       \<and> (o' = ''*'' \<and> \<not> cors_allow_credentials c \<or> hdr_str visible (rq_headers req) ''origin'' = Some o')"
  using assms by (auto simp: cors_origin_def Let_def origin_matches_def list_ex_iff split: if_splits option.splits)

lemma cors_decorate_origin:
  assumes "cors_decorate visible c v o' resp = Response resp'"
  shows "hdr_get (rp_headers resp') ''access-control-allow-origin'' = Some o'"
  using assms by (auto simp: cors_decorate_def Let_def split: if_splits)

lemma cors_preflight_origin:
  assumes "cors_preflight visible c v o' = Response resp'"
  shows "hdr_get (rp_headers resp') ''access-control-allow-origin'' = Some o'"
  using assms by (auto simp: cors_preflight_def Let_def hdr_get_def split: if_splits)

text \<open>C17: as long as the handler itself sets no such header, a response that passed the CORS middleware names an origin in
  \<open>Access-Control-Allow-Origin\<close> only if the configuration allows it (a wildcard or the very origin), and the name is
  the request's own origin or, without credentials, the wildcard.\<close>

theorem cors_grants_only_allowed_origins:
  assumes "cors_handle visible c req nxt w = (Response resp, w')"
    and "\<forall>p w1. nxt req w = (Response p, w1) \<longrightarrow> hdr_get (rp_headers p) ''access-control-allow-origin'' = None"
    and "hdr_get (rp_headers resp) ''access-control-allow-origin'' = Some o'"
  shows "(''*'' \<in> set (allow_origins c) \<or> o' \<in> set (allow_origins c))
       \<and> (o' = ''*'' \<and> \<not> cors_allow_credentials c \<or> hdr_str visible (rq_headers req) ''origin'' = Some o')"
proof (cases "cors_origin visible c req")
  case None
  then show ?thesis using assms by (auto simp: cors_handle_def Let_def)
next
  case (Some o1)
  have "hdr_get (rp_headers resp) ''access-control-allow-origin'' = Some o1"
    using assms(1) Some
    by (auto simp: cors_handle_def Let_def split: if_splits prod.splits outcome.splits
        dest: cors_decorate_origin cors_preflight_origin)
  then show ?thesis using assms(3) cors_origin_allowed [OF Some] by simp
qed

definition example_req :: "http_method \<Rightarrow> string \<Rightarrow> header_map \<Rightarrow> http_request" where
  "example_req m path hs =
     \<lparr>rq_method = m, rq_path = path, rq_query = None, rq_headers = hs, rq_body = [], rq_claims = None, rq_peer = None\<rparr>"

definition ok_handler :: "'w handler" where
  "ok_handler req w = (Response \<lparr>rp_status = 200, rp_headers = [], rp_body = ''ok''\<rparr>, w)"

theorem cors_grants_only_allowed_origins_witness:
  "\<exists>resp o'. cors_handle (\<lambda>_. True) (allow_origin cors_new ''https://a.example'')
       (example_req GET ''/x'' [(''origin'', ''https://a.example'')]) ok_handler () = (Response resp, ())
     \<and> hdr_get (rp_headers resp) ''access-control-allow-origin'' = Some o'
     \<and> o' \<in> set (allow_origins (allow_origin cors_new ''https://a.example''))"
proof -
  let ?c = "allow_origin cors_new ''https://a.example''"
  let ?r = "example_req GET ''/x'' [(''origin'', ''https://a.example'')]"
  have "\<exists>resp. cors_handle (\<lambda>_. True) ?c ?r ok_handler () = (Response resp, ())
      \<and> hdr_get (rp_headers resp) ''access-control-allow-origin'' = Some ''https://a.example''"
    by (simp add: cors_handle_def cors_origin_def allow_origin_def cors_new_def cors_permissive_def example_req_def
        ok_handler_def hdr_str_def hdr_get_def origin_matches_def cors_decorate_def hdr_insert_def Let_def)
  then obtain resp where r: "cors_handle (\<lambda>_. True) ?c ?r ok_handler () = (Response resp, ())"
      "hdr_get (rp_headers resp) ''access-control-allow-origin'' = Some ''https://a.example''" by blast
  have "\<forall>p w1. ok_handler ?r () = (Response p, w1) \<longrightarrow> hdr_get (rp_headers p) ''access-control-allow-origin'' = None"
    by (auto simp: ok_handler_def hdr_get_def)
  from cors_grants_only_allowed_origins [OF r(1) this r(2)] r show ?thesis
    by (auto simp: allow_origin_def cors_new_def cors_permissive_def)
qed

text \<open>With a wildcard and credentials every origin is granted access with credentials by reflection, and the response is
  not marked as depending on the \<open>Origin\<close> header: nothing adds \<open>Vary: Origin\<close>.\<close>

theorem cors_reflects_any_origin_without_vary:
  assumes "''*'' \<in> set (allow_origins c)" and "cors_allow_credentials c" and "cors_expose_headers c = []"
    and "rq_method req \<noteq> OPTIONS" and "hdr_str visible (rq_headers req) ''origin'' = Some o'"
    and "nxt req w = (Response p, w1)" and "hdr_get (rp_headers p) ''vary'' = None"
  shows "\<exists>resp. cors_handle visible c req nxt w = (Response resp, w1)
     \<and> hdr_get (rp_headers resp) ''access-control-allow-origin'' = Some o'
     \<and> hdr_get (rp_headers resp) ''access-control-allow-credentials'' = Some ''true''
     \<and> hdr_get (rp_headers resp) ''vary'' = None"
proof -
  have "visible o'" using assms(5) by (auto simp: hdr_str_def split: Option.bind_splits if_splits)
  then show ?thesis
    using assms by (simp add: cors_handle_def cors_origin_def Let_def list_ex_star cors_decorate_def)
qed

theorem cors_reflects_any_origin_without_vary_witness:
  "\<exists>resp. cors_handle (\<lambda>_. True) (allow_credentials cors_permissive)
       (example_req GET ''/x'' [(''origin'', ''https://evil.example'')]) ok_handler () = (Response resp, ())
     \<and> hdr_get (rp_headers resp) ''access-control-allow-origin'' = Some ''https://evil.example''
     \<and> hdr_get (rp_headers resp) ''vary'' = None"
proof -
  let ?c = "allow_credentials cors_permissive"
  let ?r = "example_req GET ''/x'' [(''origin'', ''https://evil.example'')]"
  have "''*'' \<in> set (allow_origins ?c)" "cors_allow_credentials ?c" "cors_expose_headers ?c = []"
    by (simp_all add: allow_credentials_def cors_permissive_def)
  moreover have "rq_method ?r \<noteq> OPTIONS" "hdr_str (\<lambda>_. True) (rq_headers ?r) ''origin'' = Some ''https://evil.example''"
    by (simp_all add: example_req_def hdr_str_def hdr_get_def)
  moreover have "ok_handler ?r () = (Response \<lparr>rp_status = 200, rp_headers = [], rp_body = ''ok''\<rparr>, ())"
    "hdr_get (rp_headers \<lparr>rp_status = 200, rp_headers = [], rp_body = ''ok''\<rparr>) ''vary'' = None"
    by (simp_all add: ok_handler_def hdr_get_def)
  ultimately show ?thesis
    using cors_reflects_any_origin_without_vary [of ?c ?r "\<lambda>_. True" _ ok_handler "()"] by blast
qed

lemma security_headers_set:
  assumes "security_headers_handle visible s req nxt w = (Response resp, w')"
  shows "hdr_get (rp_headers resp) ''x-content-type-options'' = Some ''nosniff''
    \<and> hdr_get (rp_headers resp) ''x-xss-protection'' = Some ''0''
    \<and> (include_xfo s \<longrightarrow> hdr_get (rp_headers resp) ''x-frame-options'' = Some ''DENY'')
    \<and> (include_hsts s \<longrightarrow> hdr_get (rp_headers resp) ''strict-transport-security'' = Some (hsts_value s))
    \<and> (include_csp s \<longrightarrow> hdr_get (rp_headers resp) ''content-security-policy'' = Some (join ''; '' (csp_directives s)))"
  using assms by (auto simp: security_headers_handle_def Let_def split: prod.splits outcome.splits if_splits)

text \<open>The first rule whose prefix and method match decides about a request: if its limiter refuses, the request never
  reaches the rest of the chain, whatever that is, and the client gets status 429 with a \<open>retry-after\<close> of
  at least one second; if it admits, the request goes on unchanged.\<close>

theorem per_route_limiter_first_match_decides:
  assumes "find_rule l (rq_path req) (rq_method req) = Some rule"
  shows "\<exists>k < length (rl_rules l). rl_rules l ! k = rule \<and> starts_with (rq_path req) (rule_prefix rule)
      \<and> (\<forall>j < k. \<not> (starts_with (rq_path req) (rule_prefix (rl_rules l ! j))
              \<and> (case rule_method (rl_rules l ! j) of None \<Rightarrow> True | Some m \<Rightarrow> m = rq_method req)))
      \<and> per_route_handle print l req nxt w =
          (case rule_check rule w of
             (None, w1) \<Rightarrow> nxt req w1
           | (Some wait, w1) \<Rightarrow> (Response (too_many_requests print wait), w1))
      \<and> (\<forall>wait. rp_status (too_many_requests print wait) = 429
           \<and> hdr_get (rp_headers (too_many_requests print wait)) ''retry-after'' = Some (nat_str (max wait 1)))"
proof -
  obtain k where "k < length (rl_rules l)" "rl_rules l ! k = rule"
    "starts_with (rq_path req) (rule_prefix rule)"
    "\<forall>j < k. \<not> (starts_with (rq_path req) (rule_prefix (rl_rules l ! j))
              \<and> (case rule_method (rl_rules l ! j) of None \<Rightarrow> True | Some m \<Rightarrow> m = rq_method req))"
    using assms unfolding find_rule_def find_Some_iff by blast
  moreover have "rp_status (too_many_requests print wait) = 429
      \<and> hdr_get (rp_headers (too_many_requests print wait)) ''retry-after'' = Some (nat_str (max wait 1))" for wait
    by (simp add: too_many_requests_def json_error_def Let_def)
  ultimately show ?thesis using assms by (auto simp: per_route_handle_def)
qed

theorem per_route_limiter_first_match_decides_witness:
  "\<exists>wait. per_route_handle (\<lambda>_. ''{}'') (add_rule (add_rule per_route_new ''/api'' (Some POST) (\<lambda>w. (None, w)))
        ''/'' None (\<lambda>w. (Some 7, w))) (example_req GET ''/api/x'' []) ok_handler ()
      = (Response (too_many_requests (\<lambda>_. ''{}'') wait), ())"
proof -
  let ?l = "add_rule (add_rule per_route_new ''/api'' (Some POST) (\<lambda>w. (None, w))) ''/'' None (\<lambda>w. (Some 7, w)) :: unit per_route_rate_limiter"
  let ?r = "example_req GET ''/api/x'' []"
  have "find_rule ?l (rq_path ?r) (rq_method ?r) = Some \<lparr>rule_prefix = ''/'', rule_method = None, rule_check = (\<lambda>w. (Some 7, w))\<rparr>"
    by (simp add: find_rule_def add_rule_def per_route_new_def example_req_def)
  from per_route_limiter_first_match_decides [OF this, of "\<lambda>_. ''{}''" ok_handler "()"] show ?thesis by auto
qed

end
