(* ===== verification/Auth.thy ===== *)
theory Auth
  imports Middleware
begin

text \<open>
  The authentication middlewares of \<^verbatim>\<open>crates/justapi-core/src/middleware.rs\<close>: \<open>JwtAuth\<close>, \<open>ApiKeyAuth\<close> and the OAuth2
  password flow. Signing and verifying tokens is the \<^verbatim>\<open>jsonwebtoken\<close> crate: \<open>decode\<close> and \<open>encode\<close> are
  parameters, keys are of any type. Form decoding (\<^verbatim>\<open>serde_urlencoded\<close>) and lossy UTF-8 conversion are
  parameters of the token endpoint. Scope strings are split at ASCII white space.

  The lemmas show that an unauthenticated request never reaches the handler and that the handler sees the
  verified claims, and what a token issued by the password flow contains.
\<close>

section \<open>JWT authentication\<close>

datatype algorithm = HS256 | HS384 | HS512 | RS256 | RS384 | RS512 | ES256 | ES384 | Other_algorithm string

record jwt_validation =
  val_algorithms :: "algorithm list"
  val_iss :: "string list option"
  val_aud :: "string list option"

definition validation_new :: "algorithm \<Rightarrow> jwt_validation" where
  "validation_new alg = \<lparr>val_algorithms = [alg], val_iss = None, val_aud = None\<rparr>"

datatype jwt_requirement = No_jwt | Required | Roles "string list" | Scopes "string list"

record 'k jwt_auth =
  ja_validation :: jwt_validation
  ja_decoding_key :: 'k
  ja_route_rules :: "(string \<times> jwt_requirement) list"
  ja_default_requirement :: jwt_requirement

definition jwt_with_key :: "jwt_validation \<Rightarrow> 'k \<Rightarrow> 'k jwt_auth" where
  "jwt_with_key v k =
     \<lparr>ja_validation = v, ja_decoding_key = k, ja_route_rules = [], ja_default_requirement = Required\<rparr>"

text \<open>The constructors; \<open>mk\<close> is the key constructor of \<^verbatim>\<open>jsonwebtoken\<close> they call.\<close>

definition from_secret :: "(string \<Rightarrow> 'k) \<Rightarrow> string \<Rightarrow> 'k jwt_auth" where
  "from_secret mk secret = jwt_with_key (validation_new HS256) (mk secret)"

definition from_rsa_pem :: "(string \<Rightarrow> 'k option) \<Rightarrow> string \<Rightarrow> 'k jwt_auth option" where
  "from_rsa_pem mk pem =
     do { k \<leftarrow> mk pem; Some (jwt_with_key ((validation_new RS256)\<lparr>val_algorithms := [RS256, RS384, RS512]\<rparr>) k) }"

definition from_ec_pem :: "(string \<Rightarrow> 'k option) \<Rightarrow> string \<Rightarrow> 'k jwt_auth option" where
  "from_ec_pem mk pem =
     do { k \<leftarrow> mk pem; Some (jwt_with_key ((validation_new ES256)\<lparr>val_algorithms := [ES256, ES384]\<rparr>) k) }"

definition from_rsa_der :: "(string \<Rightarrow> 'k) \<Rightarrow> string \<Rightarrow> 'k jwt_auth" where
  "from_rsa_der mk der = jwt_with_key ((validation_new RS256)\<lparr>val_algorithms := [RS256, RS384, RS512]\<rparr>) (mk der)"

definition from_ec_der :: "(string \<Rightarrow> 'k) \<Rightarrow> string \<Rightarrow> 'k jwt_auth" where
  "from_ec_der mk der = jwt_with_key ((validation_new ES256)\<lparr>val_algorithms := [ES256, ES384]\<rparr>) (mk der)"

definition with_algorithm :: "'k jwt_auth \<Rightarrow> algorithm \<Rightarrow> 'k jwt_auth" where
  "with_algorithm a alg = a\<lparr>ja_validation := (ja_validation a)\<lparr>val_algorithms := [alg]\<rparr>\<rparr>"

definition with_algorithms :: "'k jwt_auth \<Rightarrow> algorithm list \<Rightarrow> 'k jwt_auth" where
  "with_algorithms a algs = a\<lparr>ja_validation := (ja_validation a)\<lparr>val_algorithms := algs\<rparr>\<rparr>"

definition with_issuer :: "'k jwt_auth \<Rightarrow> string \<Rightarrow> 'k jwt_auth" where
  "with_issuer a iss = a\<lparr>ja_validation := (ja_validation a)\<lparr>val_iss := Some [iss]\<rparr>\<rparr>"

definition with_audience :: "'k jwt_auth \<Rightarrow> string list \<Rightarrow> 'k jwt_auth" where
  "with_audience a aud = a\<lparr>ja_validation := (ja_validation a)\<lparr>val_aud := Some aud\<rparr>\<rparr>"

definition jwt_require_for :: "'k jwt_auth \<Rightarrow> string \<Rightarrow> jwt_requirement \<Rightarrow> 'k jwt_auth" where
  "jwt_require_for a p r = a\<lparr>ja_route_rules := ja_route_rules a @ [(p, r)]\<rparr>"

definition default_requirement :: "'k jwt_auth \<Rightarrow> jwt_requirement \<Rightarrow> 'k jwt_auth" where
  "default_requirement a r = a\<lparr>ja_default_requirement := r\<rparr>"

text \<open>The loop over the rules that both authenticators use: the first matching prefix wins.\<close>

fun first_prefix :: "(string \<times> 'a) list \<Rightarrow> 'a \<Rightarrow> string \<Rightarrow> 'a" where
  "first_prefix [] d path = d"
| "first_prefix ((p, r) # rules) d path = (if starts_with path p then r else first_prefix rules d path)"

definition requirement_for_path :: "'k jwt_auth \<Rightarrow> string \<Rightarrow> jwt_requirement" where
  "requirement_for_path a path = first_prefix (ja_route_rules a) (ja_default_requirement a) path"

definition is_white_space :: "char \<Rightarrow> bool" where
  "is_white_space c \<longleftrightarrow> (let n = of_char c :: nat in n = 32 \<or> (9 \<le> n \<and> n \<le> 13))"

fun split_ws :: "string \<Rightarrow> string \<Rightarrow> string list" where
  "split_ws [] cur = (if cur = [] then [] else [rev cur])"
| "split_ws (c # s) cur =
     (if is_white_space c then (if cur = [] then split_ws s [] else rev cur # split_ws s [])
      else split_ws s (c # cur))"

definition split_whitespace :: "string \<Rightarrow> string list" where
  "split_whitespace s = split_ws s []"

definition scopes_claim :: "json \<Rightarrow> json option" where
  "scopes_claim claims = (case json_get claims ''scope'' of Some v \<Rightarrow> Some v | None \<Rightarrow> json_get claims ''scopes'')"

definition check_claims :: "json \<Rightarrow> jwt_requirement \<Rightarrow> string + unit" where
  "check_claims claims r =
     (case r of
        No_jwt \<Rightarrow> Inr ()
      | Required \<Rightarrow> Inr ()
      | Roles required \<Rightarrow>
          (case Option.bind (json_get claims ''roles'') as_array of
             Some rs \<Rightarrow> if list_ex (\<lambda>x. x \<in> set (List.map_filter as_str rs)) required then Inr ()
                         else Inl ''missing required role''
           | None \<Rightarrow> Inl ''missing roles claim'')
      | Scopes required \<Rightarrow>
          (case (case Option.bind (scopes_claim claims) as_str of
                   Some s \<Rightarrow> Some (split_whitespace s)
                 | None \<Rightarrow> map_option (List.map_filter as_str) (Option.bind (scopes_claim claims) as_array)) of
             Some ss \<Rightarrow> if list_ex (\<lambda>x. x \<in> set ss) required then Inr ()
                         else Inl ''missing required scope''
           | None \<Rightarrow> Inl ''missing scope/scopes claim''))"

definition jwt_handle ::
  "(string \<Rightarrow> bool) \<Rightarrow> (json \<Rightarrow> string) \<Rightarrow> (string \<Rightarrow> 'k \<Rightarrow> jwt_validation \<Rightarrow> json option)
     \<Rightarrow> 'k jwt_auth \<Rightarrow> 'w middleware" where
  "jwt_handle visible print decode a req nxt w =
     (let requirement = requirement_for_path a (rq_path req) in
      if requirement = No_jwt then nxt req w
      else (case hdr_str visible (rq_headers req) ''authorization'' of
              Some h \<Rightarrow>
                if starts_with h ''Bearer ''
                then (case decode (drop 7 h) (ja_decoding_key a) (ja_validation a) of
                        Some claims \<Rightarrow>
                          (case check_claims claims requirement of
                             Inl msg \<Rightarrow> (Response (json_error print 403 msg), w)
                           | Inr _ \<Rightarrow> nxt (req\<lparr>rq_claims := Some claims\<rparr>) w)
                      | None \<Rightarrow> (Response (json_error print 401 ''invalid token''), w))
                else (Response (json_error print 401 ''missing or invalid authorization header''), w)
            | None \<Rightarrow> (Response (json_error print 401 ''missing or invalid authorization header''), w)))"

section \<open>API keys\<close>

record api_key_auth =
  header_name :: string
  query_param :: "string option"
  ak_keys :: "(string \<times> json) list"
  ak_route_rules :: "(string \<times> bool) list"
  ak_default_required :: bool

definition api_key_new :: "string \<Rightarrow> api_key_auth" where
  "api_key_new h = \<lparr>header_name = h, query_param = None, ak_keys = [], ak_route_rules = [], ak_default_required = True\<rparr>"

definition with_key :: "api_key_auth \<Rightarrow> string \<Rightarrow> json \<Rightarrow> api_key_auth" where
  "with_key a k claims = a\<lparr>ak_keys := AList.update k claims (ak_keys a)\<rparr>"

definition with_query_param :: "api_key_auth \<Rightarrow> string \<Rightarrow> api_key_auth" where
  "with_query_param a p = a\<lparr>query_param := Some p\<rparr>"

definition ak_require_for :: "api_key_auth \<Rightarrow> string \<Rightarrow> bool \<Rightarrow> api_key_auth" where
  "ak_require_for a p r = a\<lparr>ak_route_rules := ak_route_rules a @ [(p, r)]\<rparr>"

definition default_required :: "api_key_auth \<Rightarrow> bool \<Rightarrow> api_key_auth" where
  "default_required a r = a\<lparr>ak_default_required := r\<rparr>"

definition required_for_path :: "api_key_auth \<Rightarrow> string \<Rightarrow> bool" where
  "required_for_path a path = first_prefix (ak_route_rules a) (ak_default_required a) path"

text \<open>\<open>split(c)\<close> and \<open>splitn(2, c)\<close> of a string at a character.\<close>

fun split_char :: "char \<Rightarrow> string \<Rightarrow> string list" where
  "split_char c [] = [[]]"
| "split_char c (d # s) =
     (if d = c then [] # split_char c s
      else (case split_char c s of [] \<Rightarrow> [[d]] | x # xs \<Rightarrow> (d # x) # xs))"

fun split_once :: "char \<Rightarrow> string \<Rightarrow> (string \<times> string) option" where
  "split_once c [] = None"
| "split_once c (d # s) =
     (if d = c then Some ([], s) else map_option (\<lambda>(k, v). (d # k, v)) (split_once c s))"

fun find_param :: "string \<Rightarrow> string list \<Rightarrow> string option" where
  "find_param p [] = None"
| "find_param p (pair # pairs) =
     (case split_once (CHR ''='') pair of
        Some (k, v) \<Rightarrow> if k = p then Some v else find_param p pairs
      | None \<Rightarrow> find_param p pairs)"

definition extract_key :: "(string \<Rightarrow> bool) \<Rightarrow> api_key_auth \<Rightarrow> http_request \<Rightarrow> string option" where
  "extract_key visible a req =
     (case hdr_str visible (rq_headers req) (header_name a) of
        Some v \<Rightarrow> Some v
      | None \<Rightarrow> (case (query_param a, rq_query req) of
                   (Some qp, Some query) \<Rightarrow> find_param qp (split_char (CHR ''&'') query)
                 | _ \<Rightarrow> None))"

definition api_key_handle ::
  "(string \<Rightarrow> bool) \<Rightarrow> (json \<Rightarrow> string) \<Rightarrow> api_key_auth \<Rightarrow> 'w middleware" where
  "api_key_handle visible print a req nxt w =
     (if \<not> required_for_path a (rq_path req) then nxt req w
      else (case extract_key visible a req of
              Some key \<Rightarrow>
                (case map_of (ak_keys a) key of
                   Some claims \<Rightarrow> nxt (req\<lparr>rq_claims := Some claims\<rparr>) w
                 | None \<Rightarrow> (Response (json_error print 401 ''invalid api key''), w))
            | None \<Rightarrow> (Response (json_error print 401 ''missing api key''), w)))"

section \<open>OAuth2 password flow\<close>

record ('e, 'k) oauth2_password =
  oa_validate_user :: "string \<Rightarrow> string \<Rightarrow> json option"
  oa_encoding_key :: 'e
  oa_decoding_key :: 'k
  oa_algorithm :: algorithm
  token_path :: string
  token_expiry :: nat
  oa_issuer :: "string option"

definition oauth2_new :: "(string \<Rightarrow> string \<Rightarrow> json option) \<Rightarrow> 'e \<Rightarrow> 'k \<Rightarrow> ('e, 'k) oauth2_password" where
  "oauth2_new validate ek dk =
     \<lparr>oa_validate_user = validate, oa_encoding_key = ek, oa_decoding_key = dk, oa_algorithm = HS256,
      token_path = ''/token'', token_expiry = 3600, oa_issuer = None\<rparr>"

definition oa_with_algorithm :: "('e, 'k) oauth2_password \<Rightarrow> algorithm \<Rightarrow> ('e, 'k) oauth2_password" where
  "oa_with_algorithm o' alg = o'\<lparr>oa_algorithm := alg\<rparr>"

definition with_token_path :: "('e, 'k) oauth2_password \<Rightarrow> string \<Rightarrow> ('e, 'k) oauth2_password" where
  "with_token_path o' p = o'\<lparr>token_path := p\<rparr>"

definition with_token_expiry :: "('e, 'k) oauth2_password \<Rightarrow> nat \<Rightarrow> ('e, 'k) oauth2_password" where
  "with_token_expiry o' t = o'\<lparr>token_expiry := t\<rparr>"

definition oa_with_issuer :: "('e, 'k) oauth2_password \<Rightarrow> string \<Rightarrow> ('e, 'k) oauth2_password" where
  "oa_with_issuer o' iss = o'\<lparr>oa_issuer := Some iss\<rparr>"

definition reserved_claims :: "string list" where
  "reserved_claims = [''sub'', ''iat'', ''exp'', ''iss'']"

definition oauth_claims :: "('e, 'k) oauth2_password \<Rightarrow> string \<Rightarrow> json \<Rightarrow> nat \<Rightarrow> json" where
  "oauth_claims o' username claims now =
     (let sub = (case Option.bind (json_get claims ''sub'') as_str of Some s \<Rightarrow> s | None \<Rightarrow> username);
          base = [(''sub'', JString sub), (''iat'', JNumber (int now)), (''exp'', JNumber (int (now + token_expiry o')))]
                 @ (case oa_issuer o' of Some iss \<Rightarrow> [(''iss'', JString iss)] | None \<Rightarrow> []);
          merged = (case as_object claims of
                      Some obj \<Rightarrow> fold (\<lambda>(k, v) m. if k \<in> set reserved_claims then m else AList.update k v m) obj base
                    | None \<Rightarrow> base)
      in JObject merged)"

definition param_or_empty :: "(string \<times> string) list \<Rightarrow> string \<Rightarrow> string" where
  "param_or_empty ps k = (case map_of ps k of Some v \<Rightarrow> v | None \<Rightarrow> [])"

text \<open>
  The token endpoint. \<open>form\<close> is the form decoder on the lossily decoded body, \<open>now\<close> the current Unix time;
  reading the body is taken to succeed.
\<close>

definition token_handler ::
  "(string \<Rightarrow> bool) \<Rightarrow> (json \<Rightarrow> string) \<Rightarrow> (string \<Rightarrow> (string \<times> string) list option)
     \<Rightarrow> (algorithm \<Rightarrow> json \<Rightarrow> 'e \<Rightarrow> string option) \<Rightarrow> nat \<Rightarrow> ('e, 'k) oauth2_password \<Rightarrow> 'w handler" where
  "token_handler visible print form encode now o' req w =
     (if rq_method req \<noteq> POST then (Response (json_error print 405 ''only POST is allowed''), w)
      else if rq_path req \<noteq> token_path o' then (Response (json_error print 404 ''not found''), w)
      else if \<not> starts_with (case hdr_str visible (rq_headers req) ''content-type'' of Some v \<Rightarrow> v | None \<Rightarrow> [])
                ''application/x-www-form-urlencoded''
      then (Response (json_error print 415 ''expected application/x-www-form-urlencoded''), w)
      else (case form (rq_body req) of
              None \<Rightarrow> (Failure ''bad form'', w)
            | Some ps \<Rightarrow>
                if param_or_empty ps ''grant_type'' \<noteq> ''password''
                then (Response (json_error print 400 (''unsupported grant_type, expected '' @ [CHR 0x27] @ ''password'' @ [CHR 0x27])), w)
                else if param_or_empty ps ''username'' = [] \<or> param_or_empty ps ''password'' = []
                then (Response (json_error print 400 ''username and password are required''), w)
                else (case oa_validate_user o' (param_or_empty ps ''username'') (param_or_empty ps ''password'') of
                        None \<Rightarrow> (Response (json_error print 401 ''invalid username or password''), w)
                      | Some claims \<Rightarrow>
                          (case encode (oa_algorithm o') (oauth_claims o' (param_or_empty ps ''username'') claims now) (oa_encoding_key o') of
                             None \<Rightarrow> (Failure ''token encoding failed'', w)
                           | Some token \<Rightarrow>
                               (let body = print (JObject [(''access_token'', JString token), (''token_type'', JString ''bearer''),
                                                           (''expires_in'', JNumber (int (token_expiry o')))])
                                in (Response \<lparr>rp_status = 200,
                                              rp_headers = [(''content-type'', ''application/json''),
                                                            (''content-length'', nat_str (length body)),
                                                            (''cache-control'', ''no-store'')],
                                              rp_body = body\<rparr>, w))))))"

definition oauth_jwt_auth :: "('e, 'k) oauth2_password \<Rightarrow> 'k jwt_auth" where
  "oauth_jwt_auth o' =
     jwt_with_key (case oa_issuer o' of
                     Some iss \<Rightarrow> (validation_new (oa_algorithm o'))\<lparr>val_iss := Some [iss]\<rparr>
                   | None \<Rightarrow> validation_new (oa_algorithm o')) (oa_decoding_key o')"

section \<open>The interface of an authentication gate\<close>

text \<open>
  What both authenticators promise: on a protected request they either call the rest of the chain on the same
  request with verified claims attached, or answer themselves with a client error, without touching the
  state and whatever the rest of the chain is.
\<close>

locale auth_gate =
  fixes gate :: "'w middleware"
    and protected :: "http_request \<Rightarrow> bool"
    and verified :: "http_request \<Rightarrow> json option"
  assumes open_law: "\<not> protected req \<Longrightarrow> gate req nxt w = nxt req w"
    and pass_law: "protected req \<Longrightarrow> verified req = Some claims \<Longrightarrow> gate req nxt w = nxt (req\<lparr>rq_claims := Some claims\<rparr>) w"
    and stop_law: "protected req \<Longrightarrow> verified req = None \<Longrightarrow>
      \<exists>p. rp_status p \<in> {401, 403} \<and> (\<forall>nxt w. gate req nxt w = (Response p, w))"
begin

text \<open>A handler behind the gate sees a protected request only with the claims of the gate.\<close>

lemma gate_shields:
  assumes "protected req" and "verified req = None"
  shows "gate req nxt w = gate req nxt' w" and "snd (gate req nxt w) = w"
  using stop_law [OF assms] by auto

lemma gate_cases:
  assumes "protected req"
  obtains (pass) claims where "verified req = Some claims" "gate req nxt w = nxt (req\<lparr>rq_claims := Some claims\<rparr>) w"
  | (stop) p where "verified req = None" "rp_status p \<in> {401, 403}" "\<And>nxt w. gate req nxt w = (Response p, w)"
  using pass_law [OF assms] stop_law [OF assms] by (cases "verified req") blast+

end

definition jwt_verified ::
  "(string \<Rightarrow> bool) \<Rightarrow> (string \<Rightarrow> 'k \<Rightarrow> jwt_validation \<Rightarrow> json option) \<Rightarrow> 'k jwt_auth \<Rightarrow> http_request \<Rightarrow> json option" where
  "jwt_verified visible decode a req =
     do { h \<leftarrow> hdr_str visible (rq_headers req) ''authorization'';
          _ \<leftarrow> (if starts_with h ''Bearer '' then Some () else None);
          claims \<leftarrow> decode (drop 7 h) (ja_decoding_key a) (ja_validation a);
          (case check_claims claims (requirement_for_path a (rq_path req)) of Inl _ \<Rightarrow> None | Inr _ \<Rightarrow> Some claims) }"

lemma json_error_status [simp]: "rp_status (json_error print s msg) = s"
  by (simp add: json_error_def Let_def)

interpretation jwt: auth_gate "jwt_handle visible print decode a"
  "\<lambda>req. requirement_for_path a (rq_path req) \<noteq> No_jwt" "jwt_verified visible decode a"
proof
  fix req :: http_request and nxt :: "'w handler" and w
  assume "\<not> requirement_for_path a (rq_path req) \<noteq> No_jwt"
  then show "jwt_handle visible print decode a req nxt w = nxt req w" by (simp add: jwt_handle_def)
next
  fix req :: http_request and nxt :: "'w handler" and claims w
  assume "requirement_for_path a (rq_path req) \<noteq> No_jwt" "jwt_verified visible decode a req = Some claims"
  then show "jwt_handle visible print decode a req nxt w = nxt (req\<lparr>rq_claims := Some claims\<rparr>) w"
    by (auto simp: jwt_handle_def jwt_verified_def Let_def split: Option.bind_splits if_splits sum.splits)
next
  fix req :: http_request
  assume "requirement_for_path a (rq_path req) \<noteq> No_jwt" "jwt_verified visible decode a req = None"
  then show "\<exists>p. rp_status p \<in> {401, 403} \<and> (\<forall>(nxt :: 'w handler) w. jwt_handle visible print decode a req nxt w = (Response p, w))"
    by (auto simp: jwt_handle_def jwt_verified_def Let_def split: Option.bind_splits option.splits if_splits sum.splits)
qed

definition api_key_verified :: "(string \<Rightarrow> bool) \<Rightarrow> api_key_auth \<Rightarrow> http_request \<Rightarrow> json option" where
  "api_key_verified visible a req = do { key \<leftarrow> extract_key visible a req; map_of (ak_keys a) key }"

interpretation api_key: auth_gate "api_key_handle visible print a"
  "\<lambda>req. required_for_path a (rq_path req)" "api_key_verified visible a"
proof
  fix req :: http_request and nxt :: "'w handler" and w
  assume "\<not> required_for_path a (rq_path req)"
  then show "api_key_handle visible print a req nxt w = nxt req w" by (simp add: api_key_handle_def)
next
  fix req :: http_request and nxt :: "'w handler" and claims w
  assume "required_for_path a (rq_path req)" "api_key_verified visible a req = Some claims"
  then show "api_key_handle visible print a req nxt w = nxt (req\<lparr>rq_claims := Some claims\<rparr>) w"
    by (auto simp: api_key_handle_def api_key_verified_def split: Option.bind_splits)
next
  fix req :: http_request
  assume "required_for_path a (rq_path req)" "api_key_verified visible a req = None"
  then show "\<exists>p. rp_status p \<in> {401, 403} \<and> (\<forall>(nxt :: 'w handler) w. api_key_handle visible print a req nxt w = (Response p, w))"
    by (auto simp: api_key_handle_def api_key_verified_def split: Option.bind_splits option.splits)
qed

section \<open>Properties\<close>

text \<open>C9: on a path that requires a token, the JWT middleware lets a request through only if it carries a bearer token that
  decodes and whose claims satisfy the requirement of the path, and then with exactly these claims attached; any
  other request is answered with 401 or 403 without consulting the rest of the chain.\<close>

theorem jwt_gate_protects_handler:
  assumes "requirement_for_path a (rq_path req) \<noteq> No_jwt"
  shows "(\<exists>token claims. hdr_str visible (rq_headers req) ''authorization'' = Some (''Bearer '' @ token)
            \<and> decode token (ja_decoding_key a) (ja_validation a) = Some claims
            \<and> check_claims claims (requirement_for_path a (rq_path req)) = Inr ()
            \<and> (\<forall>(nxt :: 'w handler) w. jwt_handle visible print decode a req nxt w = nxt (req\<lparr>rq_claims := Some claims\<rparr>) w))
       \<or> (\<exists>p. rp_status p \<in> {401, 403} \<and> (\<forall>(nxt :: 'w handler) w. jwt_handle visible print decode a req nxt w = (Response p, w)))"
proof (cases "jwt_verified visible decode a req")
  case None
  then show ?thesis using jwt.stop_law [OF assms None] by blast
next
  case (Some claims)
  then obtain h where h: "hdr_str visible (rq_headers req) ''authorization'' = Some h" "starts_with h ''Bearer ''"
    "decode (drop 7 h) (ja_decoding_key a) (ja_validation a) = Some claims"
    "check_claims claims (requirement_for_path a (rq_path req)) = Inr ()"
    by (auto simp: jwt_verified_def split: Option.bind_splits if_splits sum.splits)
  then obtain token where "h = ''Bearer '' @ token" by (auto simp: starts_with_iff)
  then show ?thesis using h jwt.pass_law [OF assms Some] by auto
qed

theorem jwt_gate_protects_handler_witness:
  "\<exists>p. rp_status p \<in> {401, 403} \<and>
     jwt_handle (\<lambda>_. True) (\<lambda>_. ''{}'') (\<lambda>tok k v. None) (from_secret (\<lambda>s. s) ''key'')
       (example_req GET ''/x'' [(''authorization'', ''Bearer abc'')]) ok_handler () = (Response p, ())"
proof -
  let ?a = "from_secret (\<lambda>s. s) ''key''" and ?r = "example_req GET ''/x'' [(''authorization'', ''Bearer abc'')]"
  have "requirement_for_path ?a (rq_path ?r) \<noteq> No_jwt"
    by (simp add: requirement_for_path_def from_secret_def jwt_with_key_def)
  from jwt_gate_protects_handler [where ?'w = unit, OF this, of "\<lambda>_. True" "\<lambda>tok k v. None" "\<lambda>_. ''{}''"] show ?thesis by auto
qed

text \<open>On a path that requires a key, the API-key middleware lets a request through only with a registered key, taken from
  the configured header or, when the header is absent, from the query parameter, and attaches the claims
  registered for it; any other request is answered with 401 or 403 without consulting the rest of the chain.\<close>

theorem api_key_gate_protects_handler:
  assumes "required_for_path a (rq_path req)"
  shows "(\<exists>key claims. extract_key visible a req = Some key \<and> map_of (ak_keys a) key = Some claims
            \<and> (\<forall>(nxt :: 'w handler) w. api_key_handle visible print a req nxt w = nxt (req\<lparr>rq_claims := Some claims\<rparr>) w))
       \<or> (\<exists>p. rp_status p \<in> {401, 403} \<and> (\<forall>(nxt :: 'w handler) w. api_key_handle visible print a req nxt w = (Response p, w)))"
proof (cases "api_key_verified visible a req")
  case None
  then show ?thesis using api_key.stop_law [OF assms None] by blast
next
  case (Some claims)
  then show ?thesis
    using api_key.pass_law [OF assms Some] by (auto simp: api_key_verified_def split: Option.bind_splits)
qed

theorem api_key_gate_protects_handler_witness:
  "\<exists>p. rp_status p \<in> {401, 403} \<and>
     api_key_handle (\<lambda>_. True) (\<lambda>_. ''{}'') (with_key (api_key_new ''x-api-key'') ''k1'' JNull)
       (example_req GET ''/x'' [(''x-api-key'', ''k2'')]) ok_handler () = (Response p, ())"
proof -
  let ?a = "with_key (api_key_new ''x-api-key'') ''k1'' JNull" and ?r = "example_req GET ''/x'' [(''x-api-key'', ''k2'')]"
  have "required_for_path ?a (rq_path ?r)" by (simp add: required_for_path_def api_key_new_def with_key_def)
  from api_key_gate_protects_handler [where ?'w = unit, OF this, of "\<lambda>_. True" "\<lambda>_. ''{}''"] show ?thesis
    by (auto simp: extract_key_def with_key_def api_key_new_def example_req_def hdr_str_def hdr_get_def)
qed

lemma merge_claims_get:
  "map_of (fold (\<lambda>(k, v) m. if k \<in> set reserved_claims then m else AList.update k v m) obj base) k
     = (if k \<in> set reserved_claims then map_of base k
        else case map_of (rev obj) k of Some v \<Rightarrow> Some v | None \<Rightarrow> map_of base k)"
  by (induction obj arbitrary: base) (auto simp: update_conv map_add_def split: option.splits)

lemma oauth_claims_get:
  "json_get (oauth_claims o' username (JObject obj) now) k =
     (if k = ''sub'' then Some (JString (case Option.bind (map_of obj ''sub'') as_str of Some s \<Rightarrow> s | None \<Rightarrow> username))
      else if k = ''iat'' then Some (JNumber (int now))
      else if k = ''exp'' then Some (JNumber (int (now + token_expiry o')))
      else if k = ''iss'' then map_option JString (oa_issuer o')
      else map_of (rev obj) k)"
proof -
  consider "k = ''sub''" | "k = ''iat''" | "k = ''exp''" | "k = ''iss''" | "k \<notin> set reserved_claims"
    by (auto simp: reserved_claims_def)
  then show ?thesis
  proof cases
    case 5
    then have "k \<noteq> ''sub''" "k \<noteq> ''iat''" "k \<noteq> ''exp''" "k \<noteq> ''iss''" by (simp_all add: reserved_claims_def)
    with 5 show ?thesis
      by (simp add: oauth_claims_def Let_def merge_claims_get split: option.split)
  qed (simp_all add: oauth_claims_def Let_def merge_claims_get, simp_all add: reserved_claims_def split: option.split)
qed

section \<open>Tokens of the password flow\<close>

text \<open>
  What the documentation of \<^verbatim>\<open>jsonwebtoken\<close> 9 says about \<open>decode\<close> with the default options the code leaves in place: the claim \<open>exp\<close> is
  required and must not lie more than a leeway of 60 seconds in the past; an issuer that is present must be one of the configured ones, if any are;
  an audience that is present must be a member of the configured ones, so that it is refused when there are none. \<open>now\<close> is the time of the call.
\<close>

definition issuer_accepted :: "jwt_validation \<Rightarrow> json option \<Rightarrow> bool" where
  "issuer_accepted v iss =
     (case (val_iss v, iss) of (Some issuers, Some (JString s)) \<Rightarrow> s \<in> set issuers | _ \<Rightarrow> True)"

definition audience_accepted :: "jwt_validation \<Rightarrow> json option \<Rightarrow> bool" where
  "audience_accepted v aud =
     (let accepted = (case val_aud v of Some as \<Rightarrow> as | None \<Rightarrow> [])
      in case aud of
           Some (JString s) \<Rightarrow> s \<in> set accepted
         | Some (JArray xs) \<Rightarrow> \<not> list_all (\<lambda>x. as_str x \<noteq> None) xs \<or> list_ex (\<lambda>x. x \<in> JString ` set accepted) xs
         | _ \<Rightarrow> True)"

definition claims_accepted :: "jwt_validation \<Rightarrow> nat \<Rightarrow> json \<Rightarrow> bool" where
  "claims_accepted v now c \<longleftrightarrow>
     (case json_get c ''exp'' of Some (JNumber n) \<Rightarrow> int now \<le> n + 60 | _ \<Rightarrow> False) \<and>
     issuer_accepted v (json_get c ''iss'') \<and> audience_accepted v (json_get c ''aud'')"

definition jwt_library ::
  "(algorithm \<Rightarrow> json \<Rightarrow> 'e \<Rightarrow> string option) \<Rightarrow> (nat \<Rightarrow> string \<Rightarrow> 'k \<Rightarrow> jwt_validation \<Rightarrow> json option) \<Rightarrow> algorithm \<Rightarrow> 'e \<Rightarrow> 'k \<Rightarrow> bool" where
  "jwt_library encode decode alg ek dk \<longleftrightarrow>
     (\<forall>c t v now. encode alg c ek = Some t \<longrightarrow>
        decode now t dk v = (if alg \<in> set (val_algorithms v) \<and> claims_accepted v now c then Some c else None))"

text \<open>A claim that names an audience: a text or an array of texts.\<close>

definition names_audience :: "json option \<Rightarrow> bool" where
  "names_audience aud =
     (case aud of Some (JString _) \<Rightarrow> True | Some (JArray xs) \<Rightarrow> list_all (\<lambda>x. as_str x \<noteq> None) xs | _ \<Rightarrow> False)"

lemma flow_claims_accepted:
  assumes "distinct (map fst obj)"
  shows "claims_accepted (ja_validation (oauth_jwt_auth o')) now' (oauth_claims o' user (JObject obj) now) \<longleftrightarrow>
    now' \<le> now + token_expiry o' + 60 \<and> \<not> names_audience (map_of obj ''aud'')"
proof -
  let ?c = "oauth_claims o' user (JObject obj) now" and ?v = "ja_validation (oauth_jwt_auth o')"
  have v: "val_aud ?v = None" "val_iss ?v = map_option (\<lambda>i. [i]) (oa_issuer o')"
    by (simp_all add: oauth_jwt_auth_def jwt_with_key_def validation_new_def split: option.split)
  have aud: "json_get ?c ''aud'' = map_of obj ''aud''"
    using assms by (simp add: oauth_claims_get map_of_rev_distinct)
  have "issuer_accepted ?v (json_get ?c ''iss'')"
    by (simp add: oauth_claims_get issuer_accepted_def v split: option.split)
  moreover have "audience_accepted ?v (json_get ?c ''aud'') \<longleftrightarrow> \<not> names_audience (map_of obj ''aud'')"
    unfolding aud by (simp add: audience_accepted_def names_audience_def v Let_def split: option.split json.split)
      (simp add: list_ex_iff)
  ultimately show ?thesis by (auto simp: claims_accepted_def oauth_claims_get)
qed

lemma oauth_gate:
  assumes "hdr_str visible (rq_headers req) ''authorization'' = Some (''Bearer '' @ token)"
  shows "jwt_handle visible print decode (oauth_jwt_auth o') req nxt w =
    (case decode token (oa_decoding_key o') (ja_validation (oauth_jwt_auth o')) of
       Some claims \<Rightarrow> nxt (req\<lparr>rq_claims := Some claims\<rparr>) w
     | None \<Rightarrow> (Response (json_error print 401 ''invalid token''), w))"
  using assms
  by (simp add: jwt_handle_def requirement_for_path_def oauth_jwt_auth_def jwt_with_key_def starts_with_iff check_claims_def split: option.split)


definition example_flow :: "(string, string) oauth2_password" where
  "example_flow = oauth2_new (\<lambda>u p. if u = ''alice'' \<and> p = ''pw'' then Some (JObject [(''roles'', JNull)]) else None) ''k'' ''k''"

definition example_form :: "(string \<times> string) list" where
  "example_form = [(''grant_type'', ''password''), (''username'', ''alice''), (''password'', ''pw'')]"

text \<open>A library with a single token.\<close>

definition example_claims :: json where
  "example_claims = oauth_claims example_flow ''alice'' (JObject [(''roles'', JNull)]) 7"

definition example_encode :: "algorithm \<Rightarrow> json \<Rightarrow> string \<Rightarrow> string option" where
  "example_encode alg c k = (if alg = HS256 \<and> c = example_claims then Some ''tok'' else None)"

definition example_decode :: "nat \<Rightarrow> string \<Rightarrow> string \<Rightarrow> jwt_validation \<Rightarrow> json option" where
  "example_decode now t k v =
     (if t = ''tok'' \<and> HS256 \<in> set (val_algorithms v) \<and> claims_accepted v now example_claims then Some example_claims else None)"


end
