(* ===== verification/Resilience.thy ===== *)
theory Resilience
  imports Complex_Main Http_Types
begin

text \<open>
  The resilience middlewares of \<^verbatim>\<open>crates/justapi-core/src/resilience.rs\<close>: circuit breaker, per-route circuit breaker,
  timeout, retry policy, bulkhead, fallback and fault injection.

  \<^item> Times are milliseconds. The clock, the random source, the timer and the semaphore of \<^verbatim>\<open>tokio\<close> and \<^verbatim>\<open>rand\<close>
    are parameters that read and change the state behind the middleware.
  \<^item> Every critical section of the breaker (one lock of its mutex) is one operation; a request is an acquisition
    followed, unless its future is dropped, by the report of its result. Requests in flight at the same time interleave
    these operations, so the properties of the breaker are stated over sequences of operations.
  \<^item> The \<open>u32\<close> counters of the breaker are natural numbers: \<open>breaker_ok\<close> bounds them by their thresholds.

  The lemmas show when the breaker opens, that an open breaker rejects everything until its timeout, that a
  half-open breaker whose probes are used up never leaves that state, and the bounds of the retry delay.
\<close>

section \<open>Responses\<close>

definition json_text_response :: "nat \<Rightarrow> string \<Rightarrow> http_response" where
  "json_text_response status body =
     \<lparr>rp_status = status,
      rp_headers = [(''content-type'', ''application/json''), (''content-length'', nat_str (length body))],
      rp_body = body\<rparr>"

definition em_dash :: string where
  "em_dash = [CHR 0xE2, CHR 0x80, CHR 0x94]"

definition detail_body :: "string \<Rightarrow> string" where
  "detail_body msg = [CHR 0x7B, CHR 0x22] @ ''detail'' @ [CHR 0x22, CHR 0x3A, CHR 0x22] @ msg @ [CHR 0x22, CHR 0x7D]"

definition circuit_open_response :: http_response where
  "circuit_open_response =
     (let resp = json_text_response 503 (detail_body (''service unavailable '' @ em_dash @ '' circuit breaker open''))
      in resp\<lparr>rp_headers := hdr_insert ''retry-after'' ''30'' (rp_headers resp)\<rparr>)"

section \<open>Circuit breaker\<close>

datatype breaker_state = Closed | Open nat | HalfOpen

record breaker_inner =
  br_state :: breaker_state
  failure_count :: nat
  success_count :: nat
  half_open_allowed :: nat
  half_open_used :: nat

record breaker_config =
  failure_threshold :: nat
  success_threshold :: nat
  open_timeout :: nat
  half_open_max_requests :: nat

definition breaker_config_default :: breaker_config where
  "breaker_config_default =
     \<lparr>failure_threshold = 5, success_threshold = 3, open_timeout = 30000, half_open_max_requests = 3\<rparr>"

definition breaker_new :: "breaker_config \<Rightarrow> breaker_inner" where
  "breaker_new config =
     \<lparr>br_state = Closed, failure_count = 0, success_count = 0, half_open_allowed = half_open_max_requests config,
      half_open_used = 0\<rparr>"

definition try_acquire :: "breaker_config \<Rightarrow> nat \<Rightarrow> breaker_inner \<Rightarrow> bool \<times> breaker_inner" where
  "try_acquire config now inner =
     (case br_state inner of
        Closed \<Rightarrow> (True, inner)
      | Open opened_at \<Rightarrow>
          if open_timeout config \<le> now - opened_at
          then (True, inner\<lparr>br_state := HalfOpen, half_open_used := 0, success_count := 0\<rparr>)
          else (False, inner)
      | HalfOpen \<Rightarrow>
          if half_open_used inner < half_open_allowed inner
          then (True, inner\<lparr>half_open_used := half_open_used inner + 1\<rparr>)
          else (False, inner))"

definition record_success :: "breaker_config \<Rightarrow> breaker_inner \<Rightarrow> breaker_inner" where
  "record_success config inner =
     (case br_state inner of
        HalfOpen \<Rightarrow>
          (let inner = inner\<lparr>success_count := success_count inner + 1\<rparr>
           in if success_threshold config \<le> success_count inner
              then inner\<lparr>br_state := Closed, failure_count := 0, success_count := 0\<rparr>
              else inner)
      | Closed \<Rightarrow> inner\<lparr>failure_count := 0\<rparr>
      | Open _ \<Rightarrow> inner)"

definition record_failure :: "breaker_config \<Rightarrow> nat \<Rightarrow> breaker_inner \<Rightarrow> breaker_inner" where
  "record_failure config now inner =
     (case br_state inner of
        Closed \<Rightarrow>
          (let inner = inner\<lparr>failure_count := failure_count inner + 1\<rparr>
           in if failure_threshold config \<le> failure_count inner
              then inner\<lparr>br_state := Open now, failure_count := 0\<rparr>
              else inner)
      | HalfOpen \<Rightarrow> inner\<lparr>br_state := Open now, failure_count := 0\<rparr>
      | Open _ \<Rightarrow> inner)"

text \<open>
  The middleware over the state of its breaker and of everything behind it; \<open>clock\<close> reads the time. The rest of the
  chain acts on the whole state, so it may run other requests through the same breaker.
\<close>

definition record_outcome :: "breaker_config \<Rightarrow> nat \<Rightarrow> outcome \<Rightarrow> breaker_inner \<Rightarrow> breaker_inner" where
  "record_outcome config now out inner =
     (case out of
        Response resp \<Rightarrow> if is_server_error (rp_status resp) then record_failure config now inner else record_success config inner
      | Failure e \<Rightarrow> record_failure config now inner
      | Panic \<Rightarrow> inner)"

definition breaker_handle :: "('w \<Rightarrow> nat) \<Rightarrow> breaker_config \<Rightarrow> (breaker_inner \<times> 'w) middleware" where
  "breaker_handle clock config req nxt s =
     (case s of (inner, w) \<Rightarrow>
        (case try_acquire config (clock w) inner of
           (False, inner) \<Rightarrow> (Response circuit_open_response, (inner, w))
         | (True, inner) \<Rightarrow>
             (case nxt req (inner, w) of
                (out, (inner, w)) \<Rightarrow> (out, (record_outcome config (clock w) out inner, w)))))"

section \<open>Per-route circuit breakers\<close>

text \<open>
  A breaker is shared by reference between the table and the requests in flight: the table maps a path to the address
  of its breaker and evicting an entry leaves the breaker of a running request alive. \<open>first_key\<close> is the key the
  hash map iterates first.
\<close>

definition max_per_route_breakers :: nat where
  "max_per_route_breakers = 1024"

record per_route_breakers =
  pr_config :: breaker_config
  pr_breakers :: "(string \<times> nat) list"
  pr_heap :: "nat \<Rightarrow> breaker_inner"
  pr_next :: nat

definition per_route_breakers_new :: "breaker_config \<Rightarrow> per_route_breakers" where
  "per_route_breakers_new config =
     \<lparr>pr_config = config, pr_breakers = [], pr_heap = (\<lambda>_. breaker_new config), pr_next = 0\<rparr>"

definition get_breaker :: "((string \<times> nat) list \<Rightarrow> string) \<Rightarrow> string \<Rightarrow> per_route_breakers \<Rightarrow> nat \<times> per_route_breakers" where
  "get_breaker first_key path s =
     (case map_of (pr_breakers s) path of
        Some cb \<Rightarrow> (cb, s)
      | None \<Rightarrow>
          (let kept = (if max_per_route_breakers \<le> length (pr_breakers s)
                       then AList.delete (first_key (pr_breakers s)) (pr_breakers s) else pr_breakers s);
               cb = pr_next s
           in (cb, s\<lparr>pr_breakers := (path, cb) # kept, pr_heap := (pr_heap s)(cb := breaker_new (pr_config s)), pr_next := cb + 1\<rparr>)))"

definition per_route_breaker_handle ::
  "((string \<times> nat) list \<Rightarrow> string) \<Rightarrow> ('w \<Rightarrow> nat) \<Rightarrow> (per_route_breakers \<times> 'w) middleware" where
  "per_route_breaker_handle first_key clock req nxt sw =
     (case sw of (s, w) \<Rightarrow>
        (case get_breaker first_key (rq_path req) s of (cb, s) \<Rightarrow>
           (case try_acquire (pr_config s) (clock w) (pr_heap s cb) of
              (False, inner) \<Rightarrow> (Response circuit_open_response, (s\<lparr>pr_heap := (pr_heap s)(cb := inner)\<rparr>, w))
            | (True, inner) \<Rightarrow>
                (case nxt req (s\<lparr>pr_heap := (pr_heap s)(cb := inner)\<rparr>, w) of
                   (out, (s, w)) \<Rightarrow>
                     (out, (s\<lparr>pr_heap := (pr_heap s)(cb := record_outcome (pr_config s) (clock w) out (pr_heap s cb))\<rparr>, w))))))"

section \<open>Timeout\<close>

text \<open>\<open>timeout\<close> is \<open>tokio::time::timeout\<close>: it runs a computation and returns nothing if it dropped it.\<close>

definition timeout_response :: "nat \<Rightarrow> http_response" where
  "timeout_response t = json_text_response 504 (detail_body (''request timed out after '' @ nat_str t @ ''ms''))"

definition timeout_handle ::
  "(nat \<Rightarrow> ('w \<Rightarrow> outcome \<times> 'w) \<Rightarrow> 'w \<Rightarrow> outcome option \<times> 'w) \<Rightarrow> nat \<Rightarrow> 'w middleware" where
  "timeout_handle timeout duration req nxt w =
     (case timeout duration (nxt req) w of
        (Some result, w) \<Rightarrow> (result, w)
      | (None, w) \<Rightarrow> (Response (timeout_response duration), w))"

section \<open>Retry policy\<close>

record retry_policy =
  max_retries :: nat
  base_delay :: nat
  max_delay :: nat
  jitter :: bool

definition retry_policy_default :: retry_policy where
  "retry_policy_default = \<lparr>max_retries = 3, base_delay = 100, max_delay = 10000, jitter = True\<rparr>"

text \<open>Durations are truncated to 64 bits (\<open>as u64\<close>); the final sum wraps, as in a release build.\<close>

definition delay :: "retry_policy \<Rightarrow> nat \<Rightarrow> nat \<Rightarrow> nat" where
  "delay p rnd attempt =
     (let exp = min u32_max (2 ^ attempt);
          base_ms = base_delay p mod 2 ^ 64;
          delay_ms = min u64_max (base_ms * exp);
          capped = min delay_ms (max_delay p mod 2 ^ 64)
      in if jitter p
         then (let jitter_range = capped div 5;
                   jitter = (if 0 < jitter_range then rnd mod jitter_range else 0)
               in (capped + jitter) mod 2 ^ 64)
         else capped)"

definition retryable :: "retry_policy \<Rightarrow> nat \<Rightarrow> bool" where
  "retryable p status = is_server_error status"

section \<open>Bulkhead\<close>

record bulkhead_config =
  max_concurrent :: nat
  max_wait :: nat

definition bulkhead_config_default :: bulkhead_config where
  "bulkhead_config_default = \<lparr>max_concurrent = 10, max_wait = 1000\<rparr>"

text \<open>
  The state holds the free permits of the semaphore. \<open>await\<close> lets other tasks run for at most the given time while the
  permits are used up; the request takes a permit if one is free then.
\<close>

definition bulkhead_new :: "bulkhead_config \<Rightarrow> nat" where
  "bulkhead_new config = max_concurrent config"

definition bulkhead_acquire :: "(nat \<Rightarrow> nat \<times> 'w \<Rightarrow> nat \<times> 'w) \<Rightarrow> bulkhead_config \<Rightarrow> nat \<times> 'w \<Rightarrow> bool \<times> (nat \<times> 'w)" where
  "bulkhead_acquire await config s =
     (let s = (if 0 < fst s then s else await (max_wait config) s)
      in if 0 < fst s then (True, (fst s - 1, snd s)) else (False, s))"

definition bulkhead_handle :: "(nat \<Rightarrow> nat \<times> 'w \<Rightarrow> nat \<times> 'w) \<Rightarrow> bulkhead_config \<Rightarrow> (nat \<times> 'w) middleware" where
  "bulkhead_handle await config req nxt s =
     (case bulkhead_acquire await config s of
        (True, s) \<Rightarrow> (case nxt req s of (result, (permits, w)) \<Rightarrow> (result, (permits + 1, w)))
      | (False, s) \<Rightarrow>
          (Response (json_text_response 503
             (detail_body (''too many concurrent requests '' @ em_dash @ '' bulkhead limit reached''))), s))"

section \<open>Fallback\<close>

record fallback_entry =
  fb_status :: nat
  fb_body :: string
  fb_content_type :: string

record fallback_policy =
  fallbacks :: "(string \<times> fallback_entry) list"
  default_fallback :: "fallback_entry option"

definition fallback_new :: fallback_policy where
  "fallback_new = \<lparr>fallbacks = [], default_fallback = None\<rparr>"

definition fallback_add :: "fallback_policy \<Rightarrow> string \<Rightarrow> fallback_entry \<Rightarrow> fallback_policy" where
  "fallback_add p path_prefix entry = p\<lparr>fallbacks := AList.update path_prefix entry (fallbacks p)\<rparr>"

definition with_default :: "fallback_policy \<Rightarrow> fallback_entry \<Rightarrow> fallback_policy" where
  "with_default p entry = p\<lparr>default_fallback := Some entry\<rparr>"

text \<open>The hash map is searched in its iteration order.\<close>

definition fallback_get :: "fallback_policy \<Rightarrow> string \<Rightarrow> fallback_entry option" where
  "fallback_get p path =
     (case find (\<lambda>(prefix, entry). starts_with path prefix) (fallbacks p) of
        Some (prefix, entry) \<Rightarrow> Some entry
      | None \<Rightarrow> default_fallback p)"

text \<open>The builder fails, and its result is unwrapped, on a content type that is no header value.\<close>

definition fallback_response :: "(string \<Rightarrow> bool) \<Rightarrow> fallback_entry \<Rightarrow> outcome" where
  "fallback_response header_value fb =
     (if header_value (fb_content_type fb)
      then Response \<lparr>rp_status = fb_status fb,
                     rp_headers = [(''content-type'', fb_content_type fb), (''content-length'', nat_str (length (fb_body fb)))],
                     rp_body = fb_body fb\<rparr>
      else Panic)"

definition fallback_handle :: "(string \<Rightarrow> bool) \<Rightarrow> fallback_policy \<Rightarrow> 'w middleware" where
  "fallback_handle header_value p req nxt w =
     (case nxt req w of
        (Response resp, w) \<Rightarrow>
          (if is_server_error (rp_status resp)
           then (case fallback_get p (rq_path req) of
                   Some fb \<Rightarrow> (fallback_response header_value fb, w)
                 | None \<Rightarrow> (Response resp, w))
           else (Response resp, w))
      | (Failure e, w) \<Rightarrow>
          (case fallback_get p (rq_path req) of
             Some fb \<Rightarrow> (fallback_response header_value fb, w)
           | None \<Rightarrow> (Response (json_text_response 500 (detail_body ''internal server error'')), w))
      | (Panic, w) \<Rightarrow> (Panic, w))"

section \<open>Fault injection\<close>

text \<open>Probabilities and rolls are exact rationals; \<open>sleep\<close> lets time pass.\<close>

record chaos_config =
  enabled :: bool
  latency_p :: rat
  latency_min_ms :: nat
  latency_max_ms :: nat
  error_p :: rat
  error_status :: nat

definition chaos_config_default :: chaos_config where
  "chaos_config_default =
     \<lparr>enabled = False, latency_p = 0, latency_min_ms = 100, latency_max_ms = 500, error_p = 0, error_status = 500\<rparr>"

text \<open>The part after a passed error roll; \<open>range + 1\<close> overflows to a remainder by zero, which panics.\<close>

definition chaos_latency ::
  "('w \<Rightarrow> rat \<times> 'w) \<Rightarrow> ('w \<Rightarrow> nat \<times> 'w) \<Rightarrow> (nat \<Rightarrow> 'w \<Rightarrow> 'w) \<Rightarrow> chaos_config \<Rightarrow> 'w \<Rightarrow> 'w option" where
  "chaos_latency roll random_u64 sleep c w =
     (if 0 < latency_p c \<and> latency_min_ms c \<le> latency_max_ms c
      then (case roll w of (r, w) \<Rightarrow>
              if r < latency_p c
              then (let range = latency_max_ms c - latency_min_ms c
                    in if 0 < range
                       then if (range + 1) mod 2 ^ 64 = 0 then None
                            else (case random_u64 w of (n, w) \<Rightarrow> Some (sleep (latency_min_ms c + n mod (range + 1)) w))
                       else Some (sleep (latency_min_ms c) w))
              else Some w)
      else Some w)"

definition chaos_error_body :: "nat \<Rightarrow> string" where
  "chaos_error_body status =
     [CHR 0x7B, CHR 0x22] @ ''detail'' @ [CHR 0x22, CHR 0x3A, CHR 0x22] @ ''chaos injected failure''
       @ [CHR 0x22, CHR 0x2C, CHR 0x22] @ ''status'' @ [CHR 0x22, CHR 0x3A] @ nat_str status @ [CHR 0x7D]"

definition chaos_handle ::
  "('w \<Rightarrow> rat \<times> 'w) \<Rightarrow> ('w \<Rightarrow> nat \<times> 'w) \<Rightarrow> (nat \<Rightarrow> 'w \<Rightarrow> 'w) \<Rightarrow> chaos_config \<Rightarrow> 'w middleware" where
  "chaos_handle roll random_u64 sleep c req nxt w =
     (if \<not> enabled c then nxt req w
      else (let (hit, w) = (if 0 < error_p c then (case roll w of (r, w) \<Rightarrow> (r < error_p c, w)) else (False, w))
            in if hit then (Response (json_text_response (error_status c) (chaos_error_body (error_status c))), w)
               else (case chaos_latency roll random_u64 sleep c w of
                       None \<Rightarrow> (Panic, w)
                     | Some w \<Rightarrow> nxt req w)))"

section \<open>The breaker as a machine over interleaved operations\<close>

text \<open>
  The operations of all requests in the order in which they take the lock, with the time of the clock. A step says
  whether it admitted a request.
\<close>

datatype breaker_event = Acquire nat | Succeeded | Failed nat

fun breaker_step :: "breaker_config \<Rightarrow> breaker_event \<Rightarrow> breaker_inner \<Rightarrow> bool \<times> breaker_inner" where
  "breaker_step c (Acquire t) b = try_acquire c t b"
| "breaker_step c Succeeded b = (False, record_success c b)"
| "breaker_step c (Failed t) b = (False, record_failure c t b)"

fun run_events :: "('e \<Rightarrow> 's \<Rightarrow> bool \<times> 's) \<Rightarrow> 'e list \<Rightarrow> 's \<Rightarrow> bool list \<times> 's" where
  "run_events step [] s = ([], s)"
| "run_events step (e # es) s =
     (case step e s of (ok, s') \<Rightarrow> (case run_events step es s' of (oks, s'') \<Rightarrow> (ok # oks, s'')))"

lemma run_events_append:
  "run_events step (es @ es') s =
     (case run_events step es s of (oks, s') \<Rightarrow> (case run_events step es' s' of (oks', s'') \<Rightarrow> (oks @ oks', s'')))"
  by (induction es arbitrary: s) (auto split: prod.splits)

lemma run_events_invariant:
  assumes "\<And>e s. I s \<Longrightarrow> I (snd (step e s))" and "I s"
  shows "I (snd (run_events step es s))"
  using assms(2)
proof (induction es arbitrary: s)
  case (Cons e es)
  with Cons.IH [OF assms(1) [OF Cons.prems, of e]] show ?case by (auto split: prod.splits)
qed simp

lemmas breaker_defs = try_acquire_def record_success_def record_failure_def Let_def

text \<open>A phase that rejects every event of a class and keeps its state does so for any number of such events.\<close>

locale rejecting_phase =
  fixes step :: "'e \<Rightarrow> 's \<Rightarrow> bool \<times> 's"
    and phase :: "'s \<Rightarrow> bool"
    and event :: "'e \<Rightarrow> bool"
  assumes stays: "phase s \<Longrightarrow> event e \<Longrightarrow> step e s = (False, s)"
begin

lemma run_stays:
  assumes "phase s" and "\<forall>e \<in> set es. event e"
  shows "run_events step es s = (replicate (length es) False, s)"
  using assms(2) by (induction es) (auto simp: stays [OF assms(1)])

end

fun within_open :: "breaker_config \<Rightarrow> nat \<Rightarrow> breaker_event \<Rightarrow> bool" where
  "within_open c t0 (Acquire t) = (t - t0 < open_timeout c)"
| "within_open c t0 Succeeded = True"
| "within_open c t0 (Failed t) = True"

interpretation open_phase: rejecting_phase "breaker_step c" "\<lambda>b. br_state b = Open t0" "within_open c t0"
proof
  fix b :: breaker_inner and e assume "br_state b = Open t0" "within_open c t0 e"
  then show "breaker_step c e b = (False, b)" by (cases e) (auto simp: breaker_defs)
qed

fun is_acquire :: "breaker_event \<Rightarrow> bool" where
  "is_acquire (Acquire t) = True"
| "is_acquire _ = False"

interpretation spent_phase: rejecting_phase "breaker_step c"
  "\<lambda>b. br_state b = HalfOpen \<and> half_open_allowed b \<le> half_open_used b" is_acquire
proof
  fix b :: breaker_inner and e assume "br_state b = HalfOpen \<and> half_open_allowed b \<le> half_open_used b" "is_acquire e"
  then show "breaker_step c e b = (False, b)" by (cases e) (auto simp: breaker_defs)
qed

text \<open>The counters stay below their thresholds, so that their increments never overflow.\<close>

definition breaker_ok :: "breaker_config \<Rightarrow> breaker_inner \<Rightarrow> bool" where
  "breaker_ok c b \<longleftrightarrow> half_open_allowed b = half_open_max_requests c \<and> half_open_used b \<le> half_open_allowed b
     \<and> failure_count b < max 1 (failure_threshold c) \<and> success_count b < max 1 (success_threshold c)"

lemma breaker_ok_new: "breaker_ok c (breaker_new c)"
  by (simp add: breaker_ok_def breaker_new_def less_max_iff_disj)

lemma breaker_ok_step: "breaker_ok c b \<Longrightarrow> breaker_ok c (snd (breaker_step c e b))"
  by (cases e) (auto simp: breaker_ok_def breaker_defs split: breaker_state.splits)

lemma breaker_ok_run: "breaker_ok c (snd (run_events (breaker_step c) es (breaker_new c)))"
  using breaker_ok_step breaker_ok_new by (rule run_events_invariant)

text \<open>The length of the run of failures at the end of a history.\<close>

fun streak :: "nat \<Rightarrow> breaker_event list \<Rightarrow> nat" where
  "streak n [] = n"
| "streak n (Acquire t # es) = streak n es"
| "streak n (Succeeded # es) = streak 0 es"
| "streak n (Failed t # es) = streak (n + 1) es"

lemma closed_run:
  assumes "br_state b = Closed" and "\<forall>k \<le> length es. streak (failure_count b) (take k es) < failure_threshold c"
  shows "run_events (breaker_step c) es b = (map is_acquire es, b\<lparr>failure_count := streak (failure_count b) es\<rparr>)"
  using assms
proof (induction es arbitrary: b)
  case (Cons e es)
  have *: "streak (failure_count b) (e # take k es) < failure_threshold c" if "k \<le> length es" for k
    using Cons.prems(2) that by (metis Suc_le_mono length_Cons take_Suc_Cons)
  show ?case
  proof (cases e)
    case (Acquire t)
    then show ?thesis using Cons.IH [of b] Cons.prems(1) * by (simp add: breaker_defs)
  next
    case Succeeded
    then show ?thesis using Cons.IH [of "b\<lparr>failure_count := 0\<rparr>"] Cons.prems(1) * by (simp add: breaker_defs)
  next
    case (Failed t)
    moreover have "failure_count b + 1 < failure_threshold c" using * [of 0] Failed by simp
    ultimately show ?thesis
      using Cons.IH [of "b\<lparr>failure_count := failure_count b + 1\<rparr>"] Cons.prems(1) * by (simp add: breaker_defs)
  qed
qed simp

section \<open>Properties\<close>

text \<open>C12: an open breaker admits no request until its timeout has passed, whatever the requests still in flight report,
  and nothing changes its state in the meantime; the first request after the timeout is admitted as a probe of the
  half-open state.\<close>

theorem open_breaker_rejects_until_timeout:
  assumes "br_state b = Open t0" and "\<forall>e \<in> set es. within_open c t0 e" and "open_timeout c \<le> t - t0"
  shows "run_events (breaker_step c) (es @ [Acquire t]) b
     = (replicate (length es) False @ [True], b\<lparr>br_state := HalfOpen, half_open_used := 0, success_count := 0\<rparr>)"
  using open_phase.run_stays [OF assms(1,2)] assms(1,3) by (simp add: run_events_append breaker_defs)

theorem open_breaker_rejects_until_timeout_witness:
  "run_events (breaker_step breaker_config_default) ([Acquire 10, Succeeded, Acquire 30004] @ [Acquire 30005])
     (snd (breaker_step breaker_config_default (Failed 5) ((breaker_new breaker_config_default)\<lparr>failure_count := 4\<rparr>)))
   = ([False, False, False, True], (breaker_new breaker_config_default)\<lparr>br_state := HalfOpen\<rparr>)"
  using open_breaker_rejects_until_timeout [where t0 = 5 and c = breaker_config_default and t = 30005
      and b = "snd (breaker_step breaker_config_default (Failed 5) ((breaker_new breaker_config_default)\<lparr>failure_count := 4\<rparr>))"
      and es = "[Acquire 10, Succeeded, Acquire 30004]"]
  by (simp add: breaker_defs breaker_config_default_def breaker_new_def)

text \<open>A fresh breaker opens exactly at the failure that completes a run of as many consecutive failures as the threshold,
  successes in between resetting the count; before that it admits every request.\<close>

theorem breaker_trips_on_consecutive_failures:
  assumes "\<forall>k \<le> length es. streak 0 (take k es) < failure_threshold c"
  shows "fst (run_events (breaker_step c) es (breaker_new c)) = map is_acquire es
     \<and> br_state (snd (run_events (breaker_step c) es (breaker_new c))) = Closed
     \<and> br_state (snd (run_events (breaker_step c) (es @ [Failed t]) (breaker_new c)))
         = (if streak 0 es + 1 = failure_threshold c then Open t else Closed)"
proof -
  have new: "br_state (breaker_new c) = Closed" "failure_count (breaker_new c) = 0" by (simp_all add: breaker_new_def)
  have "run_events (breaker_step c) es (breaker_new c) = (map is_acquire es, (breaker_new c)\<lparr>failure_count := streak 0 es\<rparr>)"
    using closed_run [OF new(1)] assms new(2) by simp
  moreover have "streak 0 es < failure_threshold c" using assms [rule_format, of "length es"] by simp
  ultimately show ?thesis using new by (auto simp: run_events_append breaker_defs)
qed

theorem breaker_trips_on_consecutive_failures_witness:
  "br_state (snd (run_events (breaker_step (breaker_config_default\<lparr>failure_threshold := 2\<rparr>))
     ([Failed 1, Succeeded, Failed 2] @ [Failed 3]) (breaker_new (breaker_config_default\<lparr>failure_threshold := 2\<rparr>)))) = Open 3"
proof -
  let ?c = "breaker_config_default\<lparr>failure_threshold := 2\<rparr>"
  have "\<forall>k \<le> length [Failed 1, Succeeded, Failed 2]. streak 0 (take k [Failed 1, Succeeded, Failed 2]) < failure_threshold ?c"
    by (simp add: breaker_config_default_def le_Suc_eq numeral_3_eq_3 all_conj_distrib)
  from breaker_trips_on_consecutive_failures [OF this, of 3] show ?thesis by (simp add: breaker_config_default_def)
qed

lemma probes_admitted:
  assumes "br_state b = HalfOpen" and "half_open_used b + length ts \<le> half_open_allowed b"
  shows "run_events (breaker_step c) (map Acquire ts) b
     = (replicate (length ts) True, b\<lparr>half_open_used := half_open_used b + length ts\<rparr>)"
  using assms by (induction ts arbitrary: b) (auto simp: breaker_defs)

lemma successes_counted:
  assumes "br_state b = HalfOpen" and "success_count b + k < success_threshold c"
  shows "run_events (breaker_step c) (replicate k Succeeded) b
     = (replicate k False, b\<lparr>success_count := success_count b + k\<rparr>)"
  using assms by (induction k arbitrary: b) (auto simp: breaker_defs)

text \<open>A half-open breaker can reject forever. It admits one probe more than configured, and if fewer of these probes than
  the success threshold report a success and the others never report (their futures are dropped, or there are not
  enough probes), every later request is rejected, at any time, without any operation left that could close or
  reopen the breaker.\<close>

theorem half_open_breaker_wedges:
  assumes "br_state b = Open t0" and "open_timeout c \<le> t - t0"
    and "length ts = half_open_allowed b" and "k < success_threshold c"
  shows "\<exists>b'. run_events (breaker_step c) (map Acquire (t # ts) @ replicate k Succeeded) b
       = (replicate (half_open_allowed b + 1) True @ replicate k False, b')
     \<and> (\<forall>us. run_events (breaker_step c) (map Acquire us) b' = (replicate (length us) False, b'))"
proof -
  let ?b = "b\<lparr>br_state := HalfOpen, half_open_used := 0, success_count := 0\<rparr>"
  let ?b1 = "?b\<lparr>half_open_used := length ts\<rparr>" and ?b2 = "?b\<lparr>half_open_used := length ts, success_count := k\<rparr>"
  have "breaker_step c (Acquire t) b = (True, ?b)" using assms(1,2) by (simp add: breaker_defs)
  moreover have "run_events (breaker_step c) (map Acquire ts) ?b = (replicate (length ts) True, ?b1)"
    using probes_admitted [of ?b ts c] assms(3) by simp
  moreover have "run_events (breaker_step c) (replicate k Succeeded) ?b1 = (replicate k False, ?b2)"
    using successes_counted [of ?b1 k c] assms(4) by simp
  moreover have "run_events (breaker_step c) (map Acquire us) ?b2 = (replicate (length us) False, ?b2)" for us
    using spent_phase.run_stays [of ?b2 "map Acquire us" c] assms(3) by simp
  ultimately show ?thesis using assms(3) by (intro exI [of _ ?b2]) (simp add: run_events_append)
qed

theorem half_open_breaker_wedges_witness:
  "\<exists>b'. run_events (breaker_step breaker_config_default) (map Acquire [30000, 30001, 30002, 30003] @ replicate 2 Succeeded)
       ((breaker_new breaker_config_default)\<lparr>br_state := Open 0\<rparr>)
     = (replicate 4 True @ replicate 2 False, b')
   \<and> (\<forall>us. run_events (breaker_step breaker_config_default) (map Acquire us) b' = (replicate (length us) False, b'))"
  using half_open_breaker_wedges [of "(breaker_new breaker_config_default)\<lparr>br_state := Open 0\<rparr>" 0 breaker_config_default 30000
      "[30001, 30002, 30003]" 2]
  by (simp add: breaker_config_default_def breaker_new_def)

text \<open>The retry delay is the exponential backoff, with its saturating power and product, capped at the maximum delay; without
  jitter it is exactly that, jitter only ever adds to it, less than a fifth of it, so that the delay stays within six
  fifths of the configured maximum.\<close>

theorem retry_delay_bounds:
  assumes "max_delay p < 2 ^ 63" and "base_delay p < 2 ^ 32"
  shows "min (base_delay p * min u32_max (2 ^ attempt)) (max_delay p) \<le> delay p rnd attempt
     \<and> (\<not> jitter p \<longrightarrow> delay p rnd attempt = min (base_delay p * min u32_max (2 ^ attempt)) (max_delay p))
     \<and> 5 * delay p rnd attempt \<le> 6 * min (base_delay p * min u32_max (2 ^ attempt)) (max_delay p)
     \<and> 5 * delay p rnd attempt \<le> 6 * max_delay p"
proof -
  define d where "d = min (base_delay p * min u32_max (2 ^ attempt)) (max_delay p)"
  have d: "d < 2 ^ 63" using assms(1) by (simp add: d_def)
  have "min u64_max (base_delay p * min u32_max (2 ^ attempt)) = base_delay p * min u32_max (2 ^ attempt)"
  proof -
    have "base_delay p * min u32_max (2 ^ attempt) \<le> (2 ^ 32 - 1) * (2 ^ 32 - 1)"
      using assms(2) by (intro mult_le_mono) (auto simp: u32_max_def)
    then show ?thesis by (simp add: u64_max_def)
  qed
  then have capped: "min (min u64_max (base_delay p mod 2 ^ 64 * min u32_max (2 ^ attempt))) (max_delay p mod 2 ^ 64) = d"
    using assms by (simp add: d_def)
  define j where "j = (if 0 < d div 5 then rnd mod (d div 5) else 0)"
  have j: "j \<le> d div 5" by (simp add: j_def)
  have "(d + j) mod 2 ^ 64 = d + j" using d j by simp
  then have eq: "delay p rnd attempt = (if jitter p then d + j else d)"
    using capped by (simp add: delay_def Let_def j_def)
  have "5 * (d div 5) \<le> d" by simp
  then have "5 * delay p rnd attempt \<le> 6 * d" using eq j by (simp split: if_splits)
  moreover have "d \<le> max_delay p" by (simp add: d_def)
  ultimately show ?thesis using eq unfolding d_def [symmetric] by auto
qed

theorem retry_delay_bounds_witness:
  "100 \<le> delay retry_policy_default 7 0 \<and> 5 * delay retry_policy_default 7 0 \<le> 600"
  using retry_delay_bounds [of retry_policy_default 0 7] by (simp add: retry_policy_default_def u32_max_def)

end
