(* ===== verification/Route_Table.thy ===== *)
theory Route_Table
  imports Http_Types
begin

text \<open>
  The route table of \<^verbatim>\<open>crates/justapi-core/src/router.rs\<close>: one path matcher per method, the list of registered routes,
  and the bounded lookup cache of static hits and misses.

  \<^item> The path matcher is the \<^verbatim>\<open>matchit\<close> crate: its empty router, insertion and lookup are parameters. Insertion returns
    whether it succeeded and the router it leaves behind; a lookup yields the handler and the path parameters.
  \<^item> The table of methods is a list of entries with distinct methods, in the iteration order of the hash map.
  \<^item> The cache sits behind a mutex: \<open>resolve\<close> returns the table with the updated cache.

  The lemmas show that the cache never changes the answer of a table whose routes are fixed, that it stays
  bounded, and that a registration after a cached lookup is not seen.
\<close>

section \<open>The bounded cache\<close>

datatype router_error = NotFound | MethodNotAllowed

record 'h route_resolution =
  res_handler :: 'h
  res_params :: "(string \<times> string) list"

datatype 'h cache_entry = Hit "'h route_resolution" | Miss

type_synonym route_key = "http_method \<times> string"

record 'h route_cache =
  rc_map :: "(route_key \<times> 'h cache_entry) list"
  rc_order :: "route_key list"
  rc_capacity :: nat

definition rc_new :: "nat \<Rightarrow> 'h route_cache" where
  "rc_new capacity = \<lparr>rc_map = [], rc_order = [], rc_capacity = max capacity 1\<rparr>"

definition rc_get :: "'h route_cache \<Rightarrow> route_key \<Rightarrow> 'h cache_entry option" where
  "rc_get c k = map_of (rc_map c) k"

definition rc_insert :: "route_key \<Rightarrow> 'h cache_entry \<Rightarrow> 'h route_cache \<Rightarrow> 'h route_cache" where
  "rc_insert k e c =
     (let c = (if rc_get c k = None
               then (let order = rc_order c @ [k]
                     in if rc_capacity c < length order
                        then (case order of
                                old # rest \<Rightarrow> c\<lparr>rc_map := AList.delete old (rc_map c), rc_order := rest\<rparr>
                              | [] \<Rightarrow> c\<lparr>rc_order := order\<rparr>)
                        else c\<lparr>rc_order := order\<rparr>)
               else c)
      in c\<lparr>rc_map := AList.update k e (rc_map c)\<rparr>)"

section \<open>The route table\<close>

record ('m, 'h) route_table =
  routes :: "(http_method \<times> 'm) list"
  rt_fallback :: "'h option"
  route_list :: "(http_method \<times> string) list"
  rt_cache :: "'h route_cache option"

definition router_new :: "('m, 'h) route_table" where
  "router_new = \<lparr>routes = [], rt_fallback = None, route_list = [], rt_cache = Some (rc_new 16384)\<rparr>"

definition without_cache :: "('m, 'h) route_table" where
  "without_cache = \<lparr>routes = [], rt_fallback = None, route_list = [], rt_cache = None\<rparr>"

definition with_cache_capacity :: "('m, 'h) route_table \<Rightarrow> nat \<Rightarrow> ('m, 'h) route_table" where
  "with_cache_capacity r capacity = r\<lparr>rt_cache := (if capacity = 0 then None else Some (rc_new capacity))\<rparr>"

text \<open>\<open>self.routes.entry(method).or_default()\<close>.\<close>

definition method_router :: "'m \<Rightarrow> http_method \<Rightarrow> ('m, 'h) route_table \<Rightarrow> 'm" where
  "method_router fresh m r = (case map_of (routes r) m of Some router \<Rightarrow> router | None \<Rightarrow> fresh)"

definition route_insert ::
  "'m \<Rightarrow> (string \<Rightarrow> 'h \<Rightarrow> 'm \<Rightarrow> bool \<times> 'm) \<Rightarrow> http_method \<Rightarrow> string \<Rightarrow> 'h \<Rightarrow> ('m, 'h) route_table \<Rightarrow> bool \<times> ('m, 'h) route_table" where
  "route_insert fresh ins m path h r =
     (case ins path h (method_router fresh m r) of
        (ok, router) \<Rightarrow>
          (let r = r\<lparr>routes := AList.update m router (routes r)\<rparr>
           in if \<not> ok then (False, r)
              else (let r = r\<lparr>route_list := route_list r @ [(m, path)]\<rparr>
                    in if m = GET
                       then (case ins path h (method_router fresh HEAD r) of
                               (_, head_router) \<Rightarrow>
                                 (True, r\<lparr>routes := AList.update HEAD head_router (routes r),
                                          route_list := route_list r @ [(HEAD, path)]\<rparr>))
                       else (True, r))))"

definition raw_resolve ::
  "('m \<Rightarrow> string \<Rightarrow> ('h \<times> (string \<times> string) list) option) \<Rightarrow> ('m, 'h) route_table \<Rightarrow> http_method \<Rightarrow> string
     \<Rightarrow> router_error + 'h route_resolution" where
  "raw_resolve look r m path =
     (case Option.bind (map_of (routes r) m) (\<lambda>router. look router path) of
        Some (h, params) \<Rightarrow> Inr \<lparr>res_handler = h, res_params = params\<rparr>
      | None \<Rightarrow>
          if list_ex (\<lambda>(other, router). other \<noteq> m \<and> look router path \<noteq> None) (routes r)
          then Inl MethodNotAllowed else Inl NotFound)"

text \<open>\<open>at\<close> is the same search, with a borrowed handler.\<close>

definition route_at ::
  "('m \<Rightarrow> string \<Rightarrow> ('h \<times> (string \<times> string) list) option) \<Rightarrow> ('m, 'h) route_table \<Rightarrow> http_method \<Rightarrow> string
     \<Rightarrow> router_error + 'h \<times> (string \<times> string) list" where
  "route_at look r m path =
     (case Option.bind (map_of (routes r) m) (\<lambda>router. look router path) of
        Some matched \<Rightarrow> Inr matched
      | None \<Rightarrow>
          if list_ex (\<lambda>(other, router). other \<noteq> m \<and> look router path \<noteq> None) (routes r)
          then Inl MethodNotAllowed else Inl NotFound)"

definition cacheable :: "router_error + 'h route_resolution \<Rightarrow> 'h cache_entry option" where
  "cacheable res =
     (case res of
        Inr r \<Rightarrow> if res_params r = [] then Some (Hit r) else None
      | Inl NotFound \<Rightarrow> Some Miss
      | Inl MethodNotAllowed \<Rightarrow> None)"

definition resolve ::
  "('m \<Rightarrow> string \<Rightarrow> ('h \<times> (string \<times> string) list) option) \<Rightarrow> http_method \<Rightarrow> string \<Rightarrow> ('m, 'h) route_table
     \<Rightarrow> (router_error + 'h route_resolution) \<times> ('m, 'h) route_table" where
  "resolve look m path r =
     (case rt_cache r of
        Some c \<Rightarrow>
          (case rc_get c (m, path) of
             Some (Hit res) \<Rightarrow> (Inr res, r)
           | Some Miss \<Rightarrow> (Inl NotFound, r)
           | None \<Rightarrow>
               (let res = raw_resolve look r m path
                in case cacheable res of
                     Some e \<Rightarrow> (res, r\<lparr>rt_cache := Some (rc_insert (m, path) e c)\<rparr>)
                   | None \<Rightarrow> (res, r)))
      | None \<Rightarrow> (raw_resolve look r m path, r))"

definition set_fallback :: "('m, 'h) route_table \<Rightarrow> 'h \<Rightarrow> ('m, 'h) route_table" where
  "set_fallback r h = r\<lparr>rt_fallback := Some h\<rparr>"

section \<open>The interface of a lossy cache\<close>

text \<open>
  What the route table needs of its cache: an insertion adds at most the inserted entry, and may forget others.
  Then every fact that holds of each inserted entry holds of each entry found later.
\<close>

locale lossy_cache =
  fixes get :: "'c \<Rightarrow> 'k \<Rightarrow> 'e option"
    and put :: "'k \<Rightarrow> 'e \<Rightarrow> 'c \<Rightarrow> 'c"
    and ok :: "'c \<Rightarrow> bool"
  assumes put_ok: "ok c \<Longrightarrow> ok (put k e c)"
    and get_put_same: "ok c \<Longrightarrow> get (put k e c) k = Some e"
    and get_put_other: "ok c \<Longrightarrow> k' \<noteq> k \<Longrightarrow> get (put k e c) k' = Some e' \<Longrightarrow> get c k' = Some e'"
begin

lemma put_keeps:
  assumes "ok c" and "\<And>k e. get c k = Some e \<Longrightarrow> P k e" and "P k e" and "get (put k e c) k' = Some e'"
  shows "P k' e'"
  using assms get_put_same [OF assms(1), of k e] get_put_other [OF assms(1)] by (cases "k' = k") auto

end

definition rc_ok :: "'h route_cache \<Rightarrow> bool" where
  "rc_ok c \<longleftrightarrow> 0 < rc_capacity c \<and> length (rc_order c) \<le> rc_capacity c \<and> distinct (rc_order c)
     \<and> set (rc_order c) = fst ` set (rc_map c) \<and> distinct (map fst (rc_map c))"

lemma rc_get_None: "rc_get c k = None \<longleftrightarrow> k \<notin> fst ` set (rc_map c)"
  by (simp add: rc_get_def map_of_eq_None_iff)

lemma rc_ok_new: "rc_ok (rc_new n)"
  by (simp add: rc_ok_def rc_new_def)

lemma rc_ok_length: "rc_ok c \<Longrightarrow> length (rc_map c) \<le> rc_capacity c"
  by (metis rc_ok_def distinct_card length_map list.set_map)

lemma rc_insert_known:
  assumes "rc_get c k \<noteq> None"
  shows "rc_insert k e c = c\<lparr>rc_map := AList.update k e (rc_map c)\<rparr>"
  using assms by (auto simp: rc_insert_def)

lemma rc_insert_room:
  assumes "rc_get c k = None" and "length (rc_order c) < rc_capacity c"
  shows "rc_insert k e c = c\<lparr>rc_map := AList.update k e (rc_map c), rc_order := rc_order c @ [k]\<rparr>"
  using assms by (simp add: rc_insert_def Let_def)

lemma rc_insert_full:
  assumes "rc_get c k = None" and "rc_order c = old # rest" and "rc_capacity c \<le> length (rc_order c)"
  shows "rc_insert k e c =
    c\<lparr>rc_map := AList.update k e (AList.delete old (rc_map c)), rc_order := rest @ [k]\<rparr>"
  using assms by (simp add: rc_insert_def Let_def)

lemma rc_insert_cases:
  assumes "rc_ok c"
  obtains (known) "rc_get c k \<noteq> None" "rc_insert k e c = c\<lparr>rc_map := AList.update k e (rc_map c)\<rparr>"
  | (room) "rc_get c k = None" "length (rc_order c) < rc_capacity c"
      "rc_insert k e c = c\<lparr>rc_map := AList.update k e (rc_map c), rc_order := rc_order c @ [k]\<rparr>"
  | (full) old rest where "rc_get c k = None" "rc_order c = old # rest"
      "rc_insert k e c = c\<lparr>rc_map := AList.update k e (AList.delete old (rc_map c)), rc_order := rest @ [k]\<rparr>"
proof (cases "rc_get c k = None \<and> \<not> length (rc_order c) < rc_capacity c")
  case True
  then obtain old rest where "rc_order c = old # rest" using assms by (cases "rc_order c") (auto simp: rc_ok_def)
  then show thesis using full rc_insert_full True by (metis linorder_not_less)
next
  case False
  then show thesis using known room rc_insert_known rc_insert_room by metis
qed

lemma keys_update: "fst ` set (AList.update k v xs) = insert k (fst ` set xs)"
  by (metis dom_map_of_conv_image_fst dom_fun_upd option.distinct(1) update_conv')

lemma keys_delete: "fst ` set (AList.delete k xs) = fst ` set xs - {k}"
  by (induction xs) auto

lemma rc_ok_insert:
  assumes ok: "rc_ok c"
  shows "rc_ok (rc_insert k e c)"
  using ok
proof (cases rule: rc_insert_cases [of c k e])
  case known
  then show ?thesis using ok by (auto simp: rc_ok_def rc_get_None keys_update distinct_update)
next
  case room
  then show ?thesis using ok by (auto simp: rc_ok_def rc_get_None keys_update distinct_update)
next
  case (full old rest)
  have "old \<noteq> k" using ok full(1,2) by (auto simp: rc_ok_def rc_get_None)
  then show ?thesis
    using ok full by (auto simp: rc_ok_def rc_get_None keys_update keys_delete distinct_update distinct_delete)
qed

interpretation route_memo: lossy_cache rc_get rc_insert rc_ok
proof
  fix c :: "'h route_cache" and k e assume ok: "rc_ok c"
  show "rc_ok (rc_insert k e c)" using ok by (rule rc_ok_insert)
  show "rc_get (rc_insert k e c) k = Some e"
    using ok by (rule rc_insert_cases [of c k e]) (simp_all add: rc_get_def update_conv')
  fix k' e' assume "k' \<noteq> k" "rc_get (rc_insert k e c) k' = Some e'"
  then show "rc_get c k' = Some e'"
    using ok by (rule_tac rc_insert_cases [of c k e]) (auto simp: rc_get_def update_conv' delete_conv' split: if_splits)
qed

section \<open>Properties\<close>

fun resolve_all ::
  "('m \<Rightarrow> string \<Rightarrow> ('h \<times> (string \<times> string) list) option) \<Rightarrow> (http_method \<times> string) list \<Rightarrow> ('m, 'h) route_table
     \<Rightarrow> (router_error + 'h route_resolution) list \<times> ('m, 'h) route_table" where
  "resolve_all look [] r = ([], r)"
| "resolve_all look ((m, path) # qs) r =
     (case resolve look m path r of (res, r') \<Rightarrow>
        (case resolve_all look qs r' of (ress, r'') \<Rightarrow> (res # ress, r'')))"

definition table_ok :: "('m \<Rightarrow> string \<Rightarrow> ('h \<times> (string \<times> string) list) option) \<Rightarrow> ('m, 'h) route_table \<Rightarrow> bool" where
  "table_ok look r \<longleftrightarrow>
     (case rt_cache r of
        None \<Rightarrow> True
      | Some c \<Rightarrow> rc_ok c \<and> (\<forall>k e. rc_get c k = Some e \<longrightarrow> cacheable (raw_resolve look r (fst k) (snd k)) = Some e))"

lemma raw_resolve_cache [simp]: "raw_resolve look (r\<lparr>rt_cache := c\<rparr>) = raw_resolve look r"
  by (simp add: fun_eq_iff raw_resolve_def)

lemma cacheable_inverse:
  "cacheable res = Some e \<Longrightarrow> res = (case e of Hit r \<Rightarrow> Inr r | Miss \<Rightarrow> Inl NotFound)"
  by (auto simp: cacheable_def split: sum.splits router_error.splits if_splits)

lemma resolve_cases:
  assumes "table_ok look r"
  obtains "resolve look m path r = (raw_resolve look r m path, r)"
  | c e where "rt_cache r = Some c" "cacheable (raw_resolve look r m path) = Some e"
      "resolve look m path r = (raw_resolve look r m path, r\<lparr>rt_cache := Some (rc_insert (m, path) e c)\<rparr>)"
proof (cases "rt_cache r")
  case (Some c)
  show thesis
  proof (cases "rc_get c (m, path)")
    case None
    with Some that show thesis by (cases "cacheable (raw_resolve look r m path)") (auto simp: resolve_def Let_def)
  next
    case (Some e)
    with \<open>rt_cache r = Some c\<close> assms have "cacheable (raw_resolve look r m path) = Some e"
      by (auto simp: table_ok_def)
    from cacheable_inverse [OF this] Some \<open>rt_cache r = Some c\<close> that(1) show thesis
      by (auto simp: resolve_def split: cache_entry.splits)
  qed
qed (use that(1) in \<open>simp add: resolve_def\<close>)

lemma resolve_sound:
  assumes "table_ok look r" and "resolve look m path r = (res, r')"
  shows "res = raw_resolve look r m path" and "table_ok look r'" and "raw_resolve look r' = raw_resolve look r"
    and "map_option rc_capacity (rt_cache r') = map_option rc_capacity (rt_cache r)"
proof -
  show "res = raw_resolve look r m path" using assms(2) by (rule_tac resolve_cases [OF assms(1), of m path]) auto
  show "raw_resolve look r' = raw_resolve look r" using assms(2) by (rule_tac resolve_cases [OF assms(1), of m path]) auto
  show "map_option rc_capacity (rt_cache r') = map_option rc_capacity (rt_cache r)"
    using assms(2)
    by (rule_tac resolve_cases [OF assms(1), of m path]) (auto simp: rc_insert_def Let_def split: list.splits)
  show "table_ok look r'"
  proof (rule resolve_cases [OF assms(1), of m path])
    fix c e assume c: "rt_cache r = Some c" "cacheable (raw_resolve look r m path) = Some e"
      "resolve look m path r = (raw_resolve look r m path, r\<lparr>rt_cache := Some (rc_insert (m, path) e c)\<rparr>)"
    have ok: "rc_ok c" and sound: "\<And>k e. rc_get c k = Some e \<Longrightarrow> cacheable (raw_resolve look r (fst k) (snd k)) = Some e"
      using assms(1) c(1) by (auto simp: table_ok_def)
    have "cacheable (raw_resolve look r (fst k) (snd k)) = Some e'" if "rc_get (rc_insert (m, path) e c) k = Some e'" for k e'
    proof -
      have "cacheable (raw_resolve look r (fst (m, path)) (snd (m, path))) = Some e" using c(2) by simp
      from ok sound this that show ?thesis by (rule route_memo.put_keeps)
    qed
    then show ?thesis using c(3) assms(2) rc_ok_insert [OF ok] by (auto simp: table_ok_def)
  qed (use assms in auto)
qed

lemma resolve_all_sound:
  assumes "table_ok look r"
  shows "fst (resolve_all look qs r) = map (\<lambda>(m, path). raw_resolve look r m path) qs
     \<and> table_ok look (snd (resolve_all look qs r))
     \<and> map_option rc_capacity (rt_cache (snd (resolve_all look qs r))) = map_option rc_capacity (rt_cache r)"
  using assms
proof (induction look qs r rule: resolve_all.induct)
  case (2 look m path qs r)
  obtain res r' where r: "resolve look m path r = (res, r')" by fastforce
  note s = resolve_sound [OF "2.prems" r]
  show ?case using "2.IH" [OF r [symmetric] s(2)] r s by (auto split: prod.splits)
qed simp

text \<open>The lookup cache is transparent and bounded. On a table whose routes no longer change, any sequence of lookups through
  a fresh cache of any capacity gives exactly the answers of the uncached search, and the cache never holds more entries
  than its capacity.\<close>

theorem cached_resolve_equals_raw:
  "fst (resolve_all look qs (with_cache_capacity r n)) = map (\<lambda>(m, path). raw_resolve look r m path) qs
   \<and> (case rt_cache (snd (resolve_all look qs (with_cache_capacity r n))) of
        None \<Rightarrow> n = 0 | Some c \<Rightarrow> length (rc_map c) \<le> n)"
proof -
  have ok: "table_ok look (with_cache_capacity r n)"
    by (simp add: table_ok_def with_cache_capacity_def rc_ok_new) (simp add: rc_get_def rc_new_def)
  have raw: "raw_resolve look (with_cache_capacity r n) = raw_resolve look r" by (simp add: with_cache_capacity_def)
  show ?thesis
  proof (cases "rt_cache (snd (resolve_all look qs (with_cache_capacity r n)))")
    case None
    with resolve_all_sound [OF ok, of qs] raw show ?thesis by (auto simp: with_cache_capacity_def split: if_splits)
  next
    case (Some c)
    with resolve_all_sound [OF ok, of qs] have "rc_ok c" "rc_capacity c = n"
      by (auto simp: with_cache_capacity_def table_ok_def rc_new_def split: if_splits)
    with rc_ok_length [of c] Some resolve_all_sound [OF ok, of qs] raw show ?thesis by simp
  qed
qed

text \<open>A route that is registered after its path was looked up is not found. If the path matcher finds a path it has just
  inserted, a miss that was cached before the registration keeps answering that there is no such route, while the
  uncached search finds the new handler.\<close>

theorem insert_after_lookup_serves_stale_miss:
  assumes "rt_cache r = Some c" and "rc_get c (m, path) = None" and "rc_ok c"
    and "raw_resolve look r m path = Inl NotFound"
    and "ins path h (method_router fresh m r) = (True, router')" and "look router' path = Some (h, [])" and "m \<noteq> GET"
  shows "\<exists>r1 r2. resolve look m path r = (Inl NotFound, r1) \<and> route_insert fresh ins m path h r1 = (True, r2)
     \<and> resolve look m path r2 = (Inl NotFound, r2)
     \<and> raw_resolve look r2 m path = Inr \<lparr>res_handler = h, res_params = []\<rparr>"
proof -
  let ?r1 = "r\<lparr>rt_cache := Some (rc_insert (m, path) Miss c)\<rparr>"
  let ?r2 = "?r1\<lparr>routes := AList.update m router' (routes r), route_list := route_list r @ [(m, path)]\<rparr>"
  have "resolve look m path r = (Inl NotFound, ?r1)" using assms by (simp add: resolve_def cacheable_def)
  moreover have "method_router fresh m ?r1 = method_router fresh m r" by (simp add: method_router_def)
  then have "route_insert fresh ins m path h ?r1 = (True, ?r2)" using assms by (simp add: route_insert_def)
  moreover have "rc_get (rc_insert (m, path) Miss c) (m, path) = Some Miss"
    using assms(3) by (rule route_memo.get_put_same)
  then have "resolve look m path ?r2 = (Inl NotFound, ?r2)" by (simp add: resolve_def)
  moreover have "raw_resolve look ?r2 m path = Inr \<lparr>res_handler = h, res_params = []\<rparr>"
    using assms(6) by (simp add: raw_resolve_def update_conv')
  ultimately show ?thesis by blast
qed

text \<open>A path matcher for static paths.\<close>

definition static_insert :: "string \<Rightarrow> 'h \<Rightarrow> (string \<times> 'h) list \<Rightarrow> bool \<times> (string \<times> 'h) list" where
  "static_insert path h m = (if map_of m path = None then (True, (path, h) # m) else (False, m))"

definition static_at :: "(string \<times> 'h) list \<Rightarrow> string \<Rightarrow> ('h \<times> (string \<times> string) list) option" where
  "static_at m path = map_option (\<lambda>h. (h, [])) (map_of m path)"

theorem insert_after_lookup_serves_stale_miss_witness:
  "\<exists>r1 r2. resolve static_at POST ''/a'' router_new = (Inl NotFound, r1)
     \<and> route_insert [] static_insert POST ''/a'' (7 :: nat) r1 = (True, r2)
     \<and> resolve static_at POST ''/a'' r2 = (Inl NotFound, r2)
     \<and> raw_resolve static_at r2 POST ''/a'' = Inr \<lparr>res_handler = 7, res_params = []\<rparr>"
  by (rule insert_after_lookup_serves_stale_miss [where c = "rc_new 16384" and router' = "[(''/a'', 7)]"])
    (simp_all add: router_new_def rc_ok_new rc_get_def raw_resolve_def method_router_def static_insert_def static_at_def,
      simp add: rc_new_def)

end
