(* ===== verification/Coalesce.thy ===== *)
theory Coalesce
  imports Http_Types
begin

text \<open>
  Request coalescing: \<^verbatim>\<open>crates/justapi-core/src/coalesce.rs\<close>. Concurrent requests with equal keys share one call of the handler: the
  first becomes the leader, the others wait on its \<open>watch\<close> channel and replay the response its body published.

  \<^item> A request being served is a task: its key and the phase it has reached in \<open>handle\<close>, \<open>wait_for_leader\<close>,
    \<open>run_leader\<close> or in the body it returned. A channel is its value and its number of receivers; a value sent without
    receivers is not stored, as \<open>watch::Sender::send\<close> has it.
  \<^item> The tasks interleave: \<open>co_exec\<close> is one step of one task up to the next point where another task can run, or the
    arrival of a request, or the drop of a task whose client went away. The handler and the frames of its body are events.
  \<^item> \<open>None\<close> means that the event is not possible in the state.

  The lemmas show that at most one task per key runs the handler, that a waiter gets what the body of a task with its own
  key produced, that the re-election of a leader is dead code, and that the key of a dropped leader is never served again.
\<close>

section \<open>State\<close>

record coalesced_response =
  cr_status :: nat
  cr_headers :: header_map
  cr_body :: string

definition to_response :: "coalesced_response \<Rightarrow> http_response" where
  "to_response c =
     \<lparr>rp_status = cr_status c,
      rp_headers = filter (\<lambda>(n, _). n \<noteq> ''transfer-encoding'' \<and> n \<noteq> ''connection'') (cr_headers c),
      rp_body = cr_body c\<rparr>"

datatype published = Pending | Ok_outcome coalesced_response | Err_outcome string

record coalesce_key =
  ck_method :: http_method
  ck_uri :: "string \<times> string option"
  ck_headers :: header_map

record fanout_body =
  fo_status :: nat
  fo_headers :: header_map
  fo_acc :: string
  fo_tx :: nat
  fo_finished :: bool

datatype phase =
  Leading nat
| Joining nat
| Waiting nat
| Returned nat "string + nat \<times> header_map"
| Streaming fanout_body
| Answered "string + http_response"
| Dropped

record channel =
  ch_value :: published
  ch_receivers :: nat

record coalescer =
  co_in_flight :: "(coalesce_key \<times> nat) list"
  co_channels :: "channel list"
  co_tasks :: "(coalesce_key \<times> phase) list"

definition coalescer_new :: coalescer where
  "coalescer_new = \<lparr>co_in_flight = [], co_channels = [], co_tasks = []\<rparr>"

section \<open>Operations\<close>

definition key_of :: "string list \<Rightarrow> http_request \<Rightarrow> coalesce_key" where
  "key_of include_headers req =
     \<lparr>ck_method = rq_method req, ck_uri = (rq_path req, rq_query req),
      ck_headers = List.map_filter (\<lambda>n. map_option (Pair n) (hdr_get (rq_headers req) n)) include_headers\<rparr>"

definition set_phase :: "nat \<Rightarrow> phase \<Rightarrow> coalescer \<Rightarrow> coalescer" where
  "set_phase i p s = s\<lparr>co_tasks := (co_tasks s)[i := (fst (co_tasks s ! i), p)]\<rparr>"

text \<open>\<open>subscribe\<close>, the drop of a receiver and \<open>send\<close> of a channel.\<close>

definition subscribe :: "nat \<Rightarrow> coalescer \<Rightarrow> coalescer" where
  "subscribe ch s =
     s\<lparr>co_channels := (co_channels s)[ch := (co_channels s ! ch)\<lparr>ch_receivers := ch_receivers (co_channels s ! ch) + 1\<rparr>]\<rparr>"

definition unsubscribe :: "nat \<Rightarrow> coalescer \<Rightarrow> coalescer" where
  "unsubscribe ch s =
     s\<lparr>co_channels := (co_channels s)[ch := (co_channels s ! ch)\<lparr>ch_receivers := ch_receivers (co_channels s ! ch) - 1\<rparr>]\<rparr>"

definition tx_send :: "nat \<Rightarrow> published \<Rightarrow> coalescer \<Rightarrow> coalescer" where
  "tx_send ch v s =
     (if 0 < ch_receivers (co_channels s ! ch)
      then s\<lparr>co_channels := (co_channels s)[ch := (co_channels s ! ch)\<lparr>ch_value := v\<rparr>]\<rparr>
      else s)"

text \<open>The start of \<open>handle\<close>: under the lock, join the request in flight or claim the leadership.\<close>

definition co_arrive :: "string list \<Rightarrow> http_request \<Rightarrow> coalescer \<Rightarrow> coalescer" where
  "co_arrive include_headers req s =
     (let key = key_of include_headers req in
      case map_of (co_in_flight s) key of
        Some ch \<Rightarrow> s\<lparr>co_tasks := co_tasks s @ [(key, Joining ch)]\<rparr>
      | None \<Rightarrow>
          (let ch = length (co_channels s)
           in s\<lparr>co_channels := co_channels s @ [\<lparr>ch_value = Pending, ch_receivers = 0\<rparr>],
                co_in_flight := AList.update key ch (co_in_flight s),
                co_tasks := co_tasks s @ [(key, Leading ch)]\<rparr>))"

text \<open>The sender of a channel lives in the map, in the tasks that lead or wait, and in the body of a leader.\<close>

fun holds :: "phase \<Rightarrow> nat \<Rightarrow> bool" where
  "holds (Leading c) ch \<longleftrightarrow> c = ch"
| "holds (Joining c) ch \<longleftrightarrow> c = ch"
| "holds (Waiting c) ch \<longleftrightarrow> c = ch"
| "holds (Returned c r) ch \<longleftrightarrow> c = ch"
| "holds (Streaming fo) ch \<longleftrightarrow> fo_tx fo = ch"
| "holds _ ch \<longleftrightarrow> False"

definition sender_alive :: "nat \<Rightarrow> coalescer \<Rightarrow> bool" where
  "sender_alive ch s \<longleftrightarrow> list_ex (\<lambda>(_, c). c = ch) (co_in_flight s) \<or> list_ex (\<lambda>(_, p). holds p ch) (co_tasks s)"

text \<open>The end of the stream and the drop of an unfinished body publish what was accumulated.\<close>

definition publish_body :: "nat \<Rightarrow> fanout_body \<Rightarrow> phase \<Rightarrow> coalescer \<Rightarrow> coalescer" where
  "publish_body i fo p s =
     set_phase i p
       (tx_send (fo_tx fo) (Ok_outcome \<lparr>cr_status = fo_status fo, cr_headers = fo_headers fo, cr_body = fo_acc fo\<rparr>) s)"

section \<open>Steps\<close>

datatype co_event =
  Arrive http_request
| Subscribe nat
| Observe nat
| Wake_closed nat
| Handler_done nat "string + nat \<times> header_map"
| Respond nat
| Frame nat "string option"
| End_of_body nat
| Body_error nat
| Drop_task nat

fun co_exec :: "string list \<Rightarrow> co_event \<Rightarrow> coalescer \<Rightarrow> coalescer option" where
  "co_exec incl (Arrive req) s = Some (co_arrive incl req s)"
| "co_exec incl (Subscribe i) s =
     (case vec_get (co_tasks s) i of
        Some (_, Joining ch) \<Rightarrow> Some (set_phase i (Waiting ch) (subscribe ch s))
      | _ \<Rightarrow> None)"
| "co_exec incl (Observe i) s =
     (case vec_get (co_tasks s) i of
        Some (_, Waiting ch) \<Rightarrow>
          (case ch_value (co_channels s ! ch) of
             Ok_outcome c \<Rightarrow> Some (set_phase i (Answered (Inr (to_response c))) (unsubscribe ch s))
           | Err_outcome m \<Rightarrow> Some (set_phase i (Answered (Inl m)) (unsubscribe ch s))
           | Pending \<Rightarrow> None)
      | _ \<Rightarrow> None)"
| "co_exec incl (Wake_closed i) s =
     (case vec_get (co_tasks s) i of
        Some (_, Waiting ch) \<Rightarrow>
          (if ch_value (co_channels s ! ch) = Pending \<and> \<not> sender_alive ch s then Some (set_phase i (Leading ch) s) else None)
      | _ \<Rightarrow> None)"
| "co_exec incl (Handler_done i r) s =
     (case vec_get (co_tasks s) i of
        Some (key, Leading ch) \<Rightarrow> Some (set_phase i (Returned ch r) (s\<lparr>co_in_flight := AList.delete key (co_in_flight s)\<rparr>))
      | _ \<Rightarrow> None)"
| "co_exec incl (Respond i) s =
     (case vec_get (co_tasks s) i of
        Some (_, Returned ch (Inl e)) \<Rightarrow> Some (set_phase i (Answered (Inl e)) (tx_send ch (Err_outcome e) s))
      | Some (_, Returned ch (Inr (status, headers))) \<Rightarrow>
          Some (set_phase i (Streaming \<lparr>fo_status = status, fo_headers = headers, fo_acc = [], fo_tx = ch, fo_finished = False\<rparr>) s)
      | _ \<Rightarrow> None)"
| "co_exec incl (Frame i data) s =
     (case vec_get (co_tasks s) i of
        Some (_, Streaming fo) \<Rightarrow>
          (if fo_finished fo then None
           else Some (set_phase i (Streaming (case data of Some chunk \<Rightarrow> fo\<lparr>fo_acc := fo_acc fo @ chunk\<rparr> | None \<Rightarrow> fo)) s))
      | _ \<Rightarrow> None)"
| "co_exec incl (End_of_body i) s =
     (case vec_get (co_tasks s) i of
        Some (_, Streaming fo) \<Rightarrow>
          (if fo_finished fo then Some s
           else Some (publish_body i fo (Streaming (fo\<lparr>fo_acc := [], fo_finished := True\<rparr>)) s))
      | _ \<Rightarrow> None)"
| "co_exec incl (Body_error i) s =
     (case vec_get (co_tasks s) i of Some (_, Streaming fo) \<Rightarrow> Some s | _ \<Rightarrow> None)"
| "co_exec incl (Drop_task i) s =
     (case vec_get (co_tasks s) i of
        Some (_, Leading ch) \<Rightarrow> Some (set_phase i Dropped s)
      | Some (_, Waiting ch) \<Rightarrow> Some (set_phase i Dropped (unsubscribe ch s))
      | Some (_, Streaming fo) \<Rightarrow>
          (if fo_finished fo then Some (set_phase i Dropped s) else Some (publish_body i fo Dropped s))
      | _ \<Rightarrow> None)"

abbreviation co_run :: "string list \<Rightarrow> co_event list \<Rightarrow> coalescer \<Rightarrow> coalescer option" where
  "co_run incl es s \<equiv> fold_opt (co_exec incl) es s"

section \<open>The steps of a single task\<close>

text \<open>What a step does to the state the tasks share.\<close>

datatype action = Keep | Sub nat | Unsub nat | Send nat published | Release

fun act :: "coalesce_key \<Rightarrow> action \<Rightarrow> coalescer \<Rightarrow> coalescer" where
  "act k Keep s = s"
| "act k (Sub ch) s = subscribe ch s"
| "act k (Unsub ch) s = unsubscribe ch s"
| "act k (Send ch v) s = tx_send ch v s"
| "act k Release s = s\<lparr>co_in_flight := AList.delete k (co_in_flight s)\<rparr>"

definition snapshot :: "fanout_body \<Rightarrow> published" where
  "snapshot fo = Ok_outcome \<lparr>cr_status = fo_status fo, cr_headers = fo_headers fo, cr_body = fo_acc fo\<rparr>"

inductive task_step :: "coalescer \<Rightarrow> nat \<Rightarrow> co_event \<Rightarrow> phase \<Rightarrow> action \<Rightarrow> phase \<Rightarrow> bool" for s i where
  ts_subscribe: "task_step s i (Subscribe i) (Joining ch) (Sub ch) (Waiting ch)"
| ts_answer: "ch_value (co_channels s ! ch) = Ok_outcome c \<Longrightarrow>
    task_step s i (Observe i) (Waiting ch) (Unsub ch) (Answered (Inr (to_response c)))"
| ts_reject: "ch_value (co_channels s ! ch) = Err_outcome m \<Longrightarrow>
    task_step s i (Observe i) (Waiting ch) (Unsub ch) (Answered (Inl m))"
| ts_return: "task_step s i (Handler_done i r) (Leading ch) Release (Returned ch r)"
| ts_fail: "task_step s i (Respond i) (Returned ch (Inl e)) (Send ch (Err_outcome e)) (Answered (Inl e))"
| ts_stream: "task_step s i (Respond i) (Returned ch (Inr (status, headers))) Keep
    (Streaming \<lparr>fo_status = status, fo_headers = headers, fo_acc = [], fo_tx = ch, fo_finished = False\<rparr>)"
| ts_data: "\<not> fo_finished fo \<Longrightarrow>
    task_step s i (Frame i (Some chunk)) (Streaming fo) Keep (Streaming (fo\<lparr>fo_acc := fo_acc fo @ chunk\<rparr>))"
| ts_trailers: "\<not> fo_finished fo \<Longrightarrow> task_step s i (Frame i None) (Streaming fo) Keep (Streaming fo)"
| ts_end: "\<not> fo_finished fo \<Longrightarrow>
    task_step s i (End_of_body i) (Streaming fo) (Send (fo_tx fo) (snapshot fo)) (Streaming (fo\<lparr>fo_acc := [], fo_finished := True\<rparr>))"
| ts_end_again: "fo_finished fo \<Longrightarrow> task_step s i (End_of_body i) (Streaming fo) Keep (Streaming fo)"
| ts_body_error: "task_step s i (Body_error i) (Streaming fo) Keep (Streaming fo)"
| ts_drop_leader: "task_step s i (Drop_task i) (Leading ch) Keep Dropped"
| ts_drop_waiter: "task_step s i (Drop_task i) (Waiting ch) (Unsub ch) Dropped"
| ts_drop_finished: "fo_finished fo \<Longrightarrow> task_step s i (Drop_task i) (Streaming fo) Keep Dropped"
| ts_drop_body: "\<not> fo_finished fo \<Longrightarrow> task_step s i (Drop_task i) (Streaming fo) (Send (fo_tx fo) (snapshot fo)) Dropped"

lemmas channel_ops = subscribe_def unsubscribe_def tx_send_def

lemma set_phase_same:
  assumes "co_tasks s ! i = (k, p)"
  shows "set_phase i p s = s"
proof -
  have "(co_tasks s)[i := (k, p)] = co_tasks s" using assms by (metis list_update_id)
  then show ?thesis using assms by (simp add: set_phase_def)
qed

text \<open>A waiting task holds the sender itself, so it never finds the channel closed.\<close>

lemma never_wakes_closed: "co_exec incl (Wake_closed i) s = None"
proof (cases "i < length (co_tasks s)")
  case True
  obtain k p where t: "co_tasks s ! i = (k, p)" by (cases "co_tasks s ! i")
  have "sender_alive ch s" if "p = Waiting ch" for ch
    using t that nth_mem [OF True] by (auto simp: sender_alive_def list_ex_iff intro!: bexI [of _ "(k, Waiting ch)"])
  then show ?thesis using True t by (cases p) (auto simp: vec_get_def)
qed (simp add: vec_get_def)

text \<open>Every possible event is an arrival or a step of one task.\<close>

definition task_moves :: "coalescer \<Rightarrow> co_event \<Rightarrow> coalescer \<Rightarrow> bool" where
  "task_moves s e s' \<longleftrightarrow>
     (\<exists>i k p a p'. i < length (co_tasks s) \<and> co_tasks s ! i = (k, p) \<and> task_step s i e p a p' \<and> s' = set_phase i p' (act k a s))"

lemma task_movesI:
  "task_step s i e p a p' \<Longrightarrow> i < length (co_tasks s) \<Longrightarrow> co_tasks s ! i = (k, p) \<Longrightarrow> s' = set_phase i p' (act k a s) \<Longrightarrow> task_moves s e s'"
  unfolding task_moves_def by blast

lemmas moves_intros = task_step.intros [THEN task_movesI]

lemma co_exec_moves:
  assumes "co_exec incl e s = Some s'"
  shows "(\<exists>req. e = Arrive req \<and> s' = co_arrive incl req s) \<or> task_moves s e s'"
proof -
  have get: "\<exists>k p. vec_get (co_tasks s) i = Some (k, p)" if "vec_get (co_tasks s) i \<noteq> None" for i
    using that by auto
  show ?thesis
  proof (cases e)
    case (Subscribe i)
    then show ?thesis using assms get [of i]
      by (auto split: option.splits prod.splits phase.splits intro: moves_intros(1))
  next
    case (Observe i)
    then show ?thesis using assms get [of i]
      by (auto split: option.splits prod.splits phase.splits published.splits intro: moves_intros(2,3))
  next
    case (Wake_closed i)
    then show ?thesis using assms never_wakes_closed [of incl i s] by simp
  next
    case (Handler_done i r)
    then show ?thesis using assms get [of i]
      by (auto split: option.splits prod.splits phase.splits intro: moves_intros(4))
  next
    case (Respond i)
    then show ?thesis using assms get [of i]
      by (auto split: option.splits prod.splits phase.splits sum.splits intro: moves_intros(5,6))
  next
    case (Frame i data)
    then show ?thesis using assms get [of i]
      by (cases data) (auto split: option.splits prod.splits phase.splits if_splits intro: moves_intros(7,8))
  next
    case (End_of_body i)
    then show ?thesis using assms get [of i]
      by (auto simp: publish_body_def snapshot_def set_phase_same split: option.splits prod.splits phase.splits if_splits
          intro: moves_intros(9,10))
  next
    case (Body_error i)
    then show ?thesis using assms get [of i]
      by (auto simp: set_phase_same split: option.splits prod.splits phase.splits intro: moves_intros(11))
  next
    case (Drop_task i)
    then show ?thesis using assms get [of i]
      by (auto simp: publish_body_def snapshot_def split: option.splits prod.splits phase.splits if_splits intro: moves_intros(12-15))
  qed (use assms in simp)
qed

section \<open>One leader per key\<close>

fun produces :: "phase \<Rightarrow> nat \<Rightarrow> bool" where
  "produces (Leading c) ch \<longleftrightarrow> c = ch"
| "produces (Returned c r) ch \<longleftrightarrow> c = ch"
| "produces (Streaming fo) ch \<longleftrightarrow> fo_tx fo = ch"
| "produces _ ch \<longleftrightarrow> False"

lemma produces_holds: "produces p ch \<Longrightarrow> holds p ch"
  by (cases p) auto

lemma act_frame [simp]:
  "co_tasks (act k a s) = co_tasks s" "length (co_channels (act k a s)) = length (co_channels s)"
  "co_in_flight (act k a s) = (if a = Release then AList.delete k (co_in_flight s) else co_in_flight s)"
  by (cases a; simp add: channel_ops)+

lemma act_value:
  assumes "ch < length (co_channels s)"
  shows "ch_value (co_channels (act k a s) ! ch) = ch_value (co_channels s ! ch) \<or>
    (\<exists>v. a = Send ch v \<and> ch_value (co_channels (act k a s) ! ch) = v)"
proof -
  have "(co_channels s)[c := x] ! ch = (if c = ch then x else co_channels s ! ch)" for c x using assms by simp
  then show ?thesis by (cases a) (auto simp: channel_ops)
qed

lemma set_phase_frame [simp]:
  "co_channels (set_phase i p s) = co_channels s" "co_in_flight (set_phase i p s) = co_in_flight s"
  "length (co_tasks (set_phase i p s)) = length (co_tasks s)"
  "j < length (co_tasks s) \<Longrightarrow> co_tasks (set_phase i p s) ! j = (if j = i then (fst (co_tasks s ! i), p) else co_tasks s ! j)"
  by (simp_all add: set_phase_def)

lemma task_step_facts:
  assumes "task_step s i e p a p'"
  shows "holds p' ch \<Longrightarrow> holds p ch" and "produces p' ch \<Longrightarrow> produces p ch" and "p' \<noteq> Leading ch"
    and "a = Release \<Longrightarrow> \<exists>ch. p = Leading ch" and "a = Send ch v \<Longrightarrow> produces p ch"
  using assms by (auto elim!: task_step.cases)

text \<open>Every channel belongs to a key, given by \<open>own\<close>.\<close>

definition co_ok :: "(nat \<Rightarrow> coalesce_key) \<Rightarrow> coalescer \<Rightarrow> bool" where
  "co_ok own s \<longleftrightarrow>
     (\<forall>k ch. map_of (co_in_flight s) k = Some ch \<longrightarrow> ch < length (co_channels s) \<and> own ch = k) \<and>
     (\<forall>i < length (co_tasks s). \<forall>ch. holds (snd (co_tasks s ! i)) ch \<longrightarrow> ch < length (co_channels s) \<and> own ch = fst (co_tasks s ! i)) \<and>
     (\<forall>i < length (co_tasks s). \<forall>ch. snd (co_tasks s ! i) = Leading ch \<longrightarrow>
        map_of (co_in_flight s) (fst (co_tasks s ! i)) = Some ch \<and> ch_value (co_channels s ! ch) = Pending) \<and>
     (\<forall>i < length (co_tasks s). \<forall>j < length (co_tasks s). \<forall>ch.
        produces (snd (co_tasks s ! i)) ch \<and> produces (snd (co_tasks s ! j)) ch \<longrightarrow> i = j)"

lemma co_okD:
  assumes "co_ok own s"
  shows "map_of (co_in_flight s) k = Some ch \<Longrightarrow> ch < length (co_channels s) \<and> own ch = k"
    and "i < length (co_tasks s) \<Longrightarrow> holds (snd (co_tasks s ! i)) ch \<Longrightarrow> ch < length (co_channels s) \<and> own ch = fst (co_tasks s ! i)"
    and "i < length (co_tasks s) \<Longrightarrow> snd (co_tasks s ! i) = Leading ch \<Longrightarrow>
      map_of (co_in_flight s) (fst (co_tasks s ! i)) = Some ch \<and> ch_value (co_channels s ! ch) = Pending"
    and "i < length (co_tasks s) \<Longrightarrow> j < length (co_tasks s) \<Longrightarrow> produces (snd (co_tasks s ! i)) ch \<Longrightarrow>
      produces (snd (co_tasks s ! j)) ch \<Longrightarrow> i = j"
  using assms unfolding co_ok_def by blast+

lemma co_arrive_join: "map_of (co_in_flight s) (key_of incl req) = Some ch \<Longrightarrow>
    co_arrive incl req s = s\<lparr>co_tasks := co_tasks s @ [(key_of incl req, Joining ch)]\<rparr>"
  by (simp add: co_arrive_def)

lemma co_arrive_lead: "map_of (co_in_flight s) (key_of incl req) = None \<Longrightarrow>
    co_arrive incl req s = s\<lparr>co_channels := co_channels s @ [\<lparr>ch_value = Pending, ch_receivers = 0\<rparr>],
      co_in_flight := AList.update (key_of incl req) (length (co_channels s)) (co_in_flight s),
      co_tasks := co_tasks s @ [(key_of incl req, Leading (length (co_channels s)))]\<rparr>"
  by (simp add: co_arrive_def Let_def)

lemma co_ok_arrive:
  assumes ok: "co_ok own s"
  shows "\<exists>own'. co_ok own' (co_arrive incl req s) \<and> (\<forall>ch < length (co_channels s). own' ch = own ch)"
proof (cases "map_of (co_in_flight s) (key_of incl req)")
  case None
  let ?n = "length (co_channels s)" and ?k = "key_of incl req"
  have "co_ok (own(?n := ?k)) (co_arrive incl req s)"
    unfolding co_ok_def co_arrive_lead [OF None]
    using co_okD [OF ok] None produces_holds
    by (auto simp: nth_append update_conv' less_Suc_eq all_conj_distrib split: if_splits) fastforce+
  then show ?thesis by (intro exI [of _ "own(?n := ?k)"]) simp
next
  case (Some ch)
  then have "co_ok own (co_arrive incl req s)"
    unfolding co_ok_def co_arrive_join [OF Some]
    using co_okD [OF ok] by (auto simp: nth_append less_Suc_eq)
  then show ?thesis by blast
qed

lemma co_ok_task:
  assumes ok: "co_ok own s" and i: "i < length (co_tasks s)" "co_tasks s ! i = (k, p)" and st: "task_step s i e p a p'"
  shows "co_ok own (set_phase i p' (act k a s))"
proof -
  note f = task_step_facts [OF st]
  have keep: "map_of (co_in_flight (act k a s)) (fst (co_tasks s ! j)) = Some ch"
    if "j < length (co_tasks s)" "j \<noteq> i" "snd (co_tasks s ! j) = Leading ch" for j ch
  proof (cases "a = Release \<and> fst (co_tasks s ! j) = k")
    case True
    then obtain c where "p = Leading c" using f(4) by auto
    then have "c = ch" using co_okD(3) [OF ok i(1), of c] co_okD(3) [OF ok that(1,3)] i(2) True by simp
    then show ?thesis using co_okD(4) [OF ok that(1) i(1), of ch] that \<open>p = Leading c\<close> i(2) by simp
  qed (use co_okD(3) [OF ok that(1,3)] in \<open>auto simp: delete_conv'\<close>)
  show ?thesis unfolding co_ok_def
  proof (intro conjI allI impI)
    fix k' ch assume "map_of (co_in_flight (set_phase i p' (act k a s))) k' = Some ch"
    then have "map_of (co_in_flight s) k' = Some ch" by (auto simp: delete_conv' split: if_splits)
    then show "ch < length (co_channels (set_phase i p' (act k a s)))" "own ch = k'" using co_okD(1) [OF ok] by auto
  next
    fix j ch assume j: "j < length (co_tasks (set_phase i p' (act k a s)))" "holds (snd (co_tasks (set_phase i p' (act k a s)) ! j)) ch"
    then have "holds (snd (co_tasks s ! j)) ch" using f(1) i by (auto split: if_splits)
    then show "ch < length (co_channels (set_phase i p' (act k a s)))" "own ch = fst (co_tasks (set_phase i p' (act k a s)) ! j)"
      using co_okD(2) [OF ok, of j ch] j(1) i by auto
  next
    fix j ch assume j: "j < length (co_tasks (set_phase i p' (act k a s)))" "snd (co_tasks (set_phase i p' (act k a s)) ! j) = Leading ch"
    then have ji: "j \<noteq> i" using f(3) by auto
    then have l: "j < length (co_tasks s)" "snd (co_tasks s ! j) = Leading ch" using j by auto
    show "map_of (co_in_flight (set_phase i p' (act k a s))) (fst (co_tasks (set_phase i p' (act k a s)) ! j)) = Some ch"
      using keep [OF l(1) ji l(2)] ji l(1) by (simp del: act_frame(3))
    have "a \<noteq> Send ch v" for v using f(5) [of ch v] co_okD(4) [OF ok l(1) i(1), of ch] l(2) ji i(2) by auto
    then show "ch_value (co_channels (set_phase i p' (act k a s)) ! ch) = Pending"
      using act_value [of ch s k a] co_okD(3) [OF ok l] co_okD(2) [OF ok l(1), of ch] l(2) by auto
  next
    fix j j' ch assume j: "j < length (co_tasks (set_phase i p' (act k a s)))" "j' < length (co_tasks (set_phase i p' (act k a s)))"
      "produces (snd (co_tasks (set_phase i p' (act k a s)) ! j)) ch \<and> produces (snd (co_tasks (set_phase i p' (act k a s)) ! j')) ch"
    then have "produces (snd (co_tasks s ! j)) ch" "produces (snd (co_tasks s ! j')) ch" using f(2) i by (auto split: if_splits)
    then show "j = j'" using co_okD(4) [OF ok, of j j' ch] j(1,2) by simp
  qed
qed

lemma co_ok_exec:
  assumes "co_ok own s" and "co_exec incl e s = Some s'"
  shows "\<exists>own'. co_ok own' s' \<and> (\<forall>ch < length (co_channels s). own' ch = own ch)"
  using co_exec_moves [OF assms(2)] co_ok_arrive [OF assms(1)] co_ok_task [OF assms(1)]
  unfolding task_moves_def by blast

lemma co_ok_new: "co_ok own coalescer_new"
  by (simp add: co_ok_def coalescer_new_def)

lemma co_run_ok:
  assumes "co_run incl es coalescer_new = Some s"
  shows "\<exists>own. co_ok own s"
  by (rule fold_opt_invariant [OF assms]) (use co_ok_new co_ok_exec in blast)+

section \<open>Waiters replay what a leader of their key produced\<close>

definition arrivals :: "co_event list \<Rightarrow> http_request list" where
  "arrivals es = List.map_filter (\<lambda>e. case e of Arrive req \<Rightarrow> Some req | _ \<Rightarrow> None) es"

text \<open>The data frames of the body that task \<open>i\<close> returned.\<close>

definition body_of :: "nat \<Rightarrow> co_event list \<Rightarrow> string" where
  "body_of i es = concat (map (\<lambda>e. case e of Frame j (Some chunk) \<Rightarrow> if j = i then chunk else [] | _ \<Rightarrow> []) es)"

lemma arrivals_snoc: "arrivals (es @ [e]) = arrivals es @ (case e of Arrive req \<Rightarrow> [req] | _ \<Rightarrow> [])"
  by (simp add: arrivals_def map_filter_def split: co_event.splits)

lemma body_of_snoc: "body_of i (es @ [e]) = body_of i es @ (case e of Frame j (Some chunk) \<Rightarrow> if j = i then chunk else [] | _ \<Rightarrow> [])"
  by (simp add: body_of_def)

fun closed :: "phase \<Rightarrow> bool" where
  "closed Dropped \<longleftrightarrow> True"
| "closed (Streaming fo) \<longleftrightarrow> fo_finished fo"
| "closed _ \<longleftrightarrow> False"

text \<open>A response, or an error, that a task with key \<open>k\<close> got from the handler.\<close>

definition served :: "co_event list \<Rightarrow> (coalesce_key \<times> phase) list \<Rightarrow> coalesce_key \<Rightarrow> coalesced_response \<Rightarrow> bool" where
  "served es ts k c \<longleftrightarrow>
     (\<exists>j < length ts. fst (ts ! j) = k \<and> closed (snd (ts ! j)) \<and>
        Handler_done j (Inr (cr_status c, cr_headers c)) \<in> set es \<and> cr_body c = body_of j es)"

definition failed :: "co_event list \<Rightarrow> (coalesce_key \<times> phase) list \<Rightarrow> coalesce_key \<Rightarrow> string \<Rightarrow> bool" where
  "failed es ts k m \<longleftrightarrow> (\<exists>j < length ts. fst (ts ! j) = k \<and> Handler_done j (Inl m) \<in> set es)"

fun phase_ok :: "co_event list \<Rightarrow> (coalesce_key \<times> phase) list \<Rightarrow> nat \<Rightarrow> coalesce_key \<times> phase \<Rightarrow> bool" where
  "phase_ok es ts i (k, Returned ch r) \<longleftrightarrow> Handler_done i r \<in> set es \<and> body_of i es = []"
| "phase_ok es ts i (k, Streaming fo) \<longleftrightarrow>
     Handler_done i (Inr (fo_status fo, fo_headers fo)) \<in> set es \<and> (\<not> fo_finished fo \<longrightarrow> fo_acc fo = body_of i es)"
| "phase_ok es ts i (k, Answered (Inr r)) \<longleftrightarrow> (\<exists>c. r = to_response c \<and> served es ts k c)"
| "phase_ok es ts i (k, Answered (Inl m)) \<longleftrightarrow> failed es ts k m"
| "phase_ok es ts i (k, Dropped) \<longleftrightarrow> True"
| "phase_ok es ts i (k, _) \<longleftrightarrow> body_of i es = []"

definition value_ok :: "co_event list \<Rightarrow> (coalesce_key \<times> phase) list \<Rightarrow> coalesce_key \<Rightarrow> published \<Rightarrow> bool" where
  "value_ok es ts k v \<longleftrightarrow>
     (case v of Pending \<Rightarrow> True | Ok_outcome c \<Rightarrow> served es ts k c | Err_outcome m \<Rightarrow> failed es ts k m)"

definition history_ok :: "(nat \<Rightarrow> coalesce_key) \<Rightarrow> co_event list \<Rightarrow> coalescer \<Rightarrow> bool" where
  "history_ok own es s \<longleftrightarrow>
     (\<forall>i < length (co_tasks s). phase_ok es (co_tasks s) i (co_tasks s ! i)) \<and>
     (\<forall>ch < length (co_channels s). value_ok es (co_tasks s) (own ch) (ch_value (co_channels s ! ch))) \<and>
     (\<forall>i \<ge> length (co_tasks s). body_of i es = [])"

text \<open>Later steps keep what was served: a closed task emits no frame and stays closed.\<close>

lemma served_mono:
  assumes "served es ts k c" and "length ts \<le> length ts'"
    and "\<And>j. j < length ts \<Longrightarrow> fst (ts' ! j) = fst (ts ! j)"
    and "\<And>j. j < length ts \<Longrightarrow> closed (snd (ts ! j)) \<Longrightarrow> closed (snd (ts' ! j)) \<and> body_of j (es @ [e]) = body_of j es"
  shows "served (es @ [e]) ts' k c"
proof -
  obtain j where "j < length ts" "fst (ts ! j) = k" "closed (snd (ts ! j))"
    "Handler_done j (Inr (cr_status c, cr_headers c)) \<in> set es" "cr_body c = body_of j es"
    using assms(1) by (auto simp: served_def)
  then show ?thesis using assms(2-4) unfolding served_def by (intro exI [of _ j]) auto
qed

lemma failed_mono:
  assumes "failed es ts k m" and "length ts \<le> length ts'" and "\<And>j. j < length ts \<Longrightarrow> fst (ts' ! j) = fst (ts ! j)"
  shows "failed (es @ [e]) ts' k m"
  using assms unfolding failed_def by (metis Un_iff order_less_le_trans set_append)

lemma value_ok_mono:
  assumes "value_ok es ts k v" and "length ts \<le> length ts'" and "\<And>j. j < length ts \<Longrightarrow> fst (ts' ! j) = fst (ts ! j)"
    and "\<And>j. j < length ts \<Longrightarrow> closed (snd (ts ! j)) \<Longrightarrow> closed (snd (ts' ! j)) \<and> body_of j (es @ [e]) = body_of j es"
  shows "value_ok (es @ [e]) ts' k v"
  using assms(1) served_mono [OF _ assms(2-4)] failed_mono [OF _ assms(2,3)]
  by (auto simp: value_ok_def split: published.splits)

lemma phase_ok_mono:
  assumes "phase_ok es ts i kp" and "body_of i (es @ [e]) = body_of i es"
    and "length ts \<le> length ts'" and "\<And>j. j < length ts \<Longrightarrow> fst (ts' ! j) = fst (ts ! j)"
    and "\<And>j. j < length ts \<Longrightarrow> closed (snd (ts ! j)) \<Longrightarrow> closed (snd (ts' ! j)) \<and> body_of j (es @ [e]) = body_of j es"
  shows "phase_ok (es @ [e]) ts' i kp"
  using assms(1,2) served_mono [OF _ assms(3-5)] failed_mono [OF _ assms(3,4)]
  by (cases "(es, ts, i, kp)" rule: phase_ok.cases) auto

lemma history_arrive:
  assumes h: "history_ok own es s" and own: "\<forall>ch < length (co_channels s). own' ch = own ch"
  shows "history_ok own' (es @ [Arrive req]) (co_arrive incl req s)"
proof -
  let ?s' = "co_arrive incl req s"
  obtain p cs where s': "co_tasks ?s' = co_tasks s @ [(key_of incl req, p)]" "co_channels ?s' = co_channels s @ cs"
    "\<forall>c\<in>set cs. ch_value c = Pending" "(\<exists>ch. p = Joining ch) \<or> (\<exists>ch. p = Leading ch)"
    by (cases "map_of (co_in_flight s) (key_of incl req)") (simp_all add: co_arrive_join co_arrive_lead)
  have b: "body_of i (es @ [Arrive req]) = body_of i es" for i by (simp add: body_of_snoc)
  have ts: "length (co_tasks s) \<le> length (co_tasks ?s')"
    "\<And>j. j < length (co_tasks s) \<Longrightarrow> fst (co_tasks ?s' ! j) = fst (co_tasks s ! j)"
    "\<And>j. j < length (co_tasks s) \<Longrightarrow> closed (snd (co_tasks s ! j)) \<Longrightarrow>
       closed (snd (co_tasks ?s' ! j)) \<and> body_of j (es @ [Arrive req]) = body_of j es"
    using b by (auto simp: s' nth_append)
  have "phase_ok (es @ [Arrive req]) (co_tasks ?s') i (co_tasks ?s' ! i)" if "i < length (co_tasks ?s')" for i
  proof (cases "i < length (co_tasks s)")
    case True
    then show ?thesis using h phase_ok_mono [OF _ b ts] by (simp add: history_ok_def s'(1) nth_append)
  next
    case False
    then have "i = length (co_tasks s)" "body_of i es = []" using that h by (auto simp: s'(1) history_ok_def)
    then show ?thesis using s'(4) by (auto simp: s'(1) b)
  qed
  moreover have "value_ok (es @ [Arrive req]) (co_tasks ?s') (own' ch) (ch_value (co_channels ?s' ! ch))"
    if "ch < length (co_channels ?s')" for ch
  proof (cases "ch < length (co_channels s)")
    case True
    then show ?thesis using h own value_ok_mono [OF _ ts] by (simp add: history_ok_def s'(2) nth_append)
  next
    case False
    then have "ch_value (co_channels ?s' ! ch) = Pending" using that s'(2,3) by (simp add: nth_append)
    then show ?thesis by (simp add: value_ok_def)
  qed
  ultimately show ?thesis using h b by (simp add: history_ok_def s'(1))
qed

lemma task_step_body:
  assumes "task_step s i e p a p'"
  shows "j \<noteq> i \<Longrightarrow> body_of j (es @ [e]) = body_of j es"
    and "closed p \<Longrightarrow> closed p' \<and> body_of j (es @ [e]) = body_of j es"
  using assms by (auto simp: body_of_snoc elim!: task_step.cases split: option.splits)

text \<open>What the moving task has after its step, and what it publishes.\<close>

lemma task_step_history:
  assumes st: "task_step s i e p a p'" and ok: "phase_ok es (co_tasks s) i (k, p)"
    and val: "\<And>ch. holds p ch \<Longrightarrow> value_ok es (co_tasks s) k (ch_value (co_channels s ! ch))"
    and i: "i < length ts'" "ts' ! i = (k, p')"
    and mono: "\<And>v. value_ok es (co_tasks s) k v \<Longrightarrow> value_ok (es @ [e]) ts' k v"
  shows "phase_ok (es @ [e]) ts' i (k, p') \<and> (\<forall>ch v. a = Send ch v \<longrightarrow> value_ok (es @ [e]) ts' k v)"
  using st
proof cases
  case (ts_answer ch c)
  then show ?thesis using mono [OF val [of ch]] by (auto simp: value_ok_def)
next
  case (ts_reject ch m)
  then show ?thesis using mono [OF val [of ch]] by (auto simp: value_ok_def)
next
  case (ts_fail ch m)
  then have "failed (es @ [e]) ts' k m" using ok i by (auto simp: failed_def intro!: exI [of _ i])
  then show ?thesis using ts_fail by (simp add: value_ok_def)
next
  case (ts_end fo)
  then have "value_ok (es @ [e]) ts' k (snapshot fo)"
    using ok i by (auto simp: snapshot_def value_ok_def served_def body_of_snoc intro!: exI [of _ i])
  then show ?thesis using ts_end ok by simp
next
  case (ts_drop_body fo)
  then have "value_ok (es @ [e]) ts' k (snapshot fo)"
    using ok i by (auto simp: snapshot_def value_ok_def served_def body_of_snoc intro!: exI [of _ i])
  then show ?thesis using ts_drop_body by simp
qed (use ok in \<open>auto simp: body_of_snoc\<close>)

lemma history_task:
  assumes h: "history_ok own es s" and ok: "co_ok own s"
    and i: "i < length (co_tasks s)" "co_tasks s ! i = (k, p)" and st: "task_step s i e p a p'"
  shows "history_ok own (es @ [e]) (set_phase i p' (act k a s))"
proof -
  let ?s' = "set_phase i p' (act k a s)"
  have nth: "co_tasks ?s' ! j = (if j = i then (k, p') else co_tasks s ! j)" if "j < length (co_tasks s)" for j
    using that i by simp
  have ts: "length (co_tasks s) \<le> length (co_tasks ?s')"
    "\<And>j. j < length (co_tasks s) \<Longrightarrow> fst (co_tasks ?s' ! j) = fst (co_tasks s ! j)"
    "\<And>j. j < length (co_tasks s) \<Longrightarrow> closed (snd (co_tasks s ! j)) \<Longrightarrow>
       closed (snd (co_tasks ?s' ! j)) \<and> body_of j (es @ [e]) = body_of j es"
    using nth i task_step_body [OF st] by auto
  have "value_ok es (co_tasks s) k (ch_value (co_channels s ! ch))" if "holds p ch" for ch
    using h co_okD(2) [OF ok i(1), of ch] that i(2) by (auto simp: history_ok_def)
  moreover have "phase_ok es (co_tasks s) i (k, p)" using h i by (auto simp: history_ok_def)
  ultimately have moved: "phase_ok (es @ [e]) (co_tasks ?s') i (k, p') \<and> (\<forall>ch v. a = Send ch v \<longrightarrow> value_ok (es @ [e]) (co_tasks ?s') k v)"
    by (intro task_step_history [OF st]) (use nth [OF i(1)] i(1) value_ok_mono [OF _ ts] in \<open>simp_all only: if_True refl set_phase_frame act_frame\<close>)
  have "phase_ok (es @ [e]) (co_tasks ?s') j (co_tasks ?s' ! j)" if "j < length (co_tasks s)" for j
  proof (cases "j = i")
    case False
    then show ?thesis
      using h that nth phase_ok_mono [OF _ task_step_body(1) [OF st] ts] by (simp add: history_ok_def)
  qed (use moved i in simp)
  moreover have "value_ok (es @ [e]) (co_tasks ?s') (own ch) (ch_value (co_channels ?s' ! ch))" if "ch < length (co_channels s)" for ch
    using act_value [OF that, of k a]
  proof
    assume "ch_value (co_channels (act k a s) ! ch) = ch_value (co_channels s ! ch)"
    then show ?thesis using h that value_ok_mono [OF _ ts] by (simp add: history_ok_def)
  next
    assume "\<exists>v. a = Send ch v \<and> ch_value (co_channels (act k a s) ! ch) = v"
    then obtain v where v: "a = Send ch v" "ch_value (co_channels (act k a s) ! ch) = v" by blast
    have "own ch = k" using co_okD(2) [OF ok i(1), of ch] task_step_facts(5) [OF st v(1)] i(2) produces_holds by auto
    then show ?thesis using moved v by simp
  qed
  moreover have "body_of j (es @ [e]) = []" if "j \<ge> length (co_tasks s)" for j
    using h that i task_step_body(1) [OF st, of j es] by (auto simp: history_ok_def)
  ultimately show ?thesis by (simp add: history_ok_def)
qed

lemma co_run_history:
  assumes "co_run incl es coalescer_new = Some s"
  shows "\<exists>own. co_ok own s \<and> history_ok own es s \<and> map fst (co_tasks s) = map (key_of incl) (arrivals es)"
  using assms
proof (induction es arbitrary: s rule: rev_induct)
  case Nil
  then show ?case using co_ok_new by (auto simp: coalescer_new_def history_ok_def arrivals_def body_of_def map_filter_def)
next
  case (snoc e es)
  then obtain s0 where s0: "co_run incl es coalescer_new = Some s0" "co_exec incl e s0 = Some s"
    by (auto simp: fold_opt_append split: bind_splits)
  then obtain own where own: "co_ok own s0" "history_ok own es s0" "map fst (co_tasks s0) = map (key_of incl) (arrivals es)"
    using snoc.IH by blast
  from co_exec_moves [OF s0(2)] show ?case
  proof
    assume "\<exists>req. e = Arrive req \<and> s = co_arrive incl req s0"
    then obtain req where req: "e = Arrive req" "s = co_arrive incl req s0" by blast
    obtain own' where "co_ok own' s" "\<forall>ch < length (co_channels s0). own' ch = own ch"
      using co_ok_arrive [OF own(1)] req(2) by blast
    moreover have "map fst (co_tasks s) = map fst (co_tasks s0) @ [key_of incl req]"
      by (cases "map_of (co_in_flight s0) (key_of incl req)") (simp_all add: req(2) co_arrive_join co_arrive_lead)
    ultimately show ?thesis using history_arrive [OF own(2)] own(3) req by (auto simp: arrivals_snoc)
  next
    assume "task_moves s0 e s"
    then obtain i k p a p' where t: "i < length (co_tasks s0)" "co_tasks s0 ! i = (k, p)" "task_step s0 i e p a p'"
      "s = set_phase i p' (act k a s0)" by (auto simp: task_moves_def)
    have "map fst (co_tasks s) = map fst (co_tasks s0)" using t by (intro nth_equalityI) auto
    moreover have "arrivals (es @ [e]) = arrivals es" using t(3) by (auto simp: arrivals_snoc elim: task_step.cases)
    ultimately show ?thesis using co_ok_task [OF own(1) t(1-3)] history_task [OF own(2,1) t(1-3)] own(3) t(4) by auto
  qed
qed

section \<open>A dropped leader\<close>

text \<open>The key is in flight on a channel that nobody will ever send to; the tasks \<open>W\<close> and the tasks from \<open>n\<close> on with this key
  hang on it.\<close>

definition wedged :: "coalesce_key \<Rightarrow> nat \<Rightarrow> nat \<Rightarrow> nat set \<Rightarrow> coalescer \<Rightarrow> bool" where
  "wedged k ch n W s \<longleftrightarrow>
     n \<le> length (co_tasks s) \<and> map_of (co_in_flight s) k = Some ch \<and> ch_value (co_channels s ! ch) = Pending \<and>
     (\<forall>i < length (co_tasks s). \<not> produces (snd (co_tasks s ! i)) ch) \<and>
     (\<forall>j < length (co_tasks s). j < n \<and> j \<in> W \<or> n \<le> j \<and> fst (co_tasks s ! j) = k \<longrightarrow> snd (co_tasks s ! j) \<in> {Joining ch, Waiting ch, Dropped})"

lemma wedged_task:
  assumes ok: "co_ok own s" and w: "wedged k ch n W s"
    and i: "i < length (co_tasks s)" "co_tasks s ! i = (k', p)" and st: "task_step s i e p a p'"
  shows "wedged k ch n W (set_phase i p' (act k' a s))"
proof -
  have val: "ch_value (co_channels s ! ch) = Pending" and fl: "map_of (co_in_flight s) k = Some ch"
    using w by (simp_all add: wedged_def)
  have "\<not> produces (snd (co_tasks s ! i)) ch" using w i(1) unfolding wedged_def by blast
  then have np: "\<not> produces p ch" using i(2) by simp
  have "i < n \<and> i \<in> W \<or> n \<le> i \<and> fst (co_tasks s ! i) = k \<Longrightarrow> snd (co_tasks s ! i) \<in> {Joining ch, Waiting ch, Dropped}"
    using w i(1) unfolding wedged_def by blast
  then have later: "i < n \<and> i \<in> W \<or> n \<le> i \<and> k' = k \<Longrightarrow> p \<in> {Joining ch, Waiting ch, Dropped}" using i(2) by simp
  have "ch < length (co_channels s)" using co_okD(1) [OF ok fl] by simp
  then have "ch_value (co_channels (act k' a s) ! ch) = Pending"
    using act_value [of ch s k' a] task_step_facts(5) [OF st, of ch] np val by auto
  moreover have "map_of (co_in_flight (act k' a s)) k = Some ch"
  proof (cases "a = Release \<and> k' = k")
    case True
    then obtain c where c: "p = Leading c" using task_step_facts(4) [OF st] by blast
    then have "c = ch" using co_okD(3) [OF ok i(1), of c] i(2) True fl by simp
    then show ?thesis using c np by simp
  qed (use fl in \<open>auto simp: delete_conv'\<close>)
  moreover have "p' \<in> {Joining ch, Waiting ch, Dropped}" if "i < n \<and> i \<in> W \<or> n \<le> i \<and> k' = k"
    using st later [OF that] val by (auto elim: task_step.cases)
  ultimately show ?thesis
    using w i np task_step_facts(2) [OF st] unfolding wedged_def by (auto simp del: act_frame(3))
qed

lemma wedged_exec:
  assumes "co_ok own s" and "wedged k ch n W s" and "co_exec incl e s = Some s'"
  shows "wedged k ch n W s'"
  using co_exec_moves [OF assms(3)]
proof
  assume "\<exists>req. e = Arrive req \<and> s' = co_arrive incl req s"
  then obtain req where s': "s' = co_arrive incl req s" by blast
  have fl: "map_of (co_in_flight s) k = Some ch" "ch < length (co_channels s)"
    using assms(2) co_okD(1) [OF assms(1)] by (auto simp: wedged_def)
  show ?thesis
  proof (cases "map_of (co_in_flight s) (key_of incl req)")
    case None
    then have "key_of incl req \<noteq> k" using fl by auto
    then show ?thesis using assms(2) fl unfolding wedged_def s' co_arrive_lead [OF None]
      by (auto simp: nth_append less_Suc_eq update_conv')
  next
    case (Some c)
    then show ?thesis using assms(2) fl unfolding wedged_def s' co_arrive_join [OF Some]
      by (auto simp: nth_append less_Suc_eq)
  qed
next
  assume "task_moves s e s'"
  then show ?thesis using wedged_task [OF assms(1,2)] unfolding task_moves_def by blast
qed

lemma wedged_run:
  assumes "co_run incl es s = Some s'" and "wedged k ch n W s" and "\<exists>own. co_ok own s"
  shows "wedged k ch n W s'"
proof -
  have "wedged k ch n W s' \<and> (\<exists>own. co_ok own s')"
    by (rule fold_opt_invariant [where I = "\<lambda>s. wedged k ch n W s \<and> (\<exists>own. co_ok own s)", OF assms(1)])
      (use assms(2,3) wedged_exec co_ok_exec in blast)+
  then show ?thesis by blast
qed

lemma drop_leader_wedges:
  assumes ok: "co_ok own s" and i: "i < length (co_tasks s)" "snd (co_tasks s ! i) = Leading ch"
  shows "wedged (fst (co_tasks s ! i)) ch (length (co_tasks s)) {j. snd (co_tasks s ! j) \<in> {Joining ch, Waiting ch}} (set_phase i Dropped s)"
proof -
  have "\<not> produces (snd (co_tasks s ! j)) ch" if "j < length (co_tasks s)" "j \<noteq> i" for j
    using co_okD(4) [OF ok i(1) that(1), of ch] i(2) that(2) by auto
  then show ?thesis using co_okD(3) [OF ok i] by (auto simp: wedged_def)
qed

section \<open>Properties\<close>

definition request_example :: http_request where
  "request_example = \<lparr>rq_method = GET, rq_path = ''/board'', rq_query = None, rq_headers = [], rq_body = [], rq_claims = None, rq_peer = None\<rparr>"

definition key_example :: coalesce_key where
  "key_example = key_of [] request_example"

lemmas example_run = coalescer_new_def co_arrive_def key_example_def [symmetric] vec_get_def set_phase_def channel_ops publish_body_def
  Let_def nth_append update_conv' numeral_eq_Suc

text \<open>C10: coalescing lets one request per key through. Whatever the interleaving of arrivals, handler results, body frames and dropped
  clients, at most one of the requests with the same key is running the handler.\<close>

theorem coalescer_single_leader:
  assumes "co_run incl es coalescer_new = Some s"
    and "i < length (co_tasks s)" and "co_tasks s ! i = (k, Leading ch)"
    and "j < length (co_tasks s)" and "co_tasks s ! j = (k, Leading ch')"
  shows "i = j"
proof -
  obtain own where ok: "co_ok own s" using co_run_ok [OF assms(1)] by blast
  have "ch = ch'" using co_okD(3) [OF ok assms(2), of ch] co_okD(3) [OF ok assms(4), of ch'] assms(3,5) by simp
  then show ?thesis using co_okD(4) [OF ok assms(2,4), of ch] assms(3,5) by simp
qed

theorem coalescer_single_leader_witness:
  "\<exists>s. co_run [] [Arrive request_example, Arrive request_example] coalescer_new = Some s \<and>
     (\<forall>j < 2. snd (co_tasks s ! j) = Leading 0 \<longrightarrow> 0 = j)"
proof -
  let ?s = "\<lparr>co_in_flight = [(key_example, 0)], co_channels = [\<lparr>ch_value = Pending, ch_receivers = 0\<rparr>],
    co_tasks = [(key_example, Leading 0), (key_example, Joining 0)]\<rparr>"
  have r: "co_run [] [Arrive request_example, Arrive request_example] coalescer_new = Some ?s"
    by (simp add: example_run)
  have "0 = j" if "j < 2" "snd (co_tasks ?s ! j) = Leading 0" for j
    using coalescer_single_leader [OF r, of 0 key_example 0 j 0] that by (cases j) auto
  with r show ?thesis by blast
qed

text \<open>A waiter gets only what a request with its own key produced. If a request was answered from the channel, there is a request with
  the same method, URI and selected headers whose handler returned this status and these headers, and the body is
  the data its body emitted until it ended or was dropped; an answered error is an error of the handler for such a request.\<close>

theorem coalesced_answer_from_same_key:
  assumes "co_run incl es coalescer_new = Some s" and "i < length (co_tasks s)" and "snd (co_tasks s ! i) = Answered r"
  shows "\<exists>j < length (arrivals es). key_of incl (arrivals es ! j) = key_of incl (arrivals es ! i) \<and>
    (case r of
       Inr rp \<Rightarrow> \<exists>c. rp = to_response c \<and> Handler_done j (Inr (cr_status c, cr_headers c)) \<in> set es \<and> cr_body c = body_of j es
     | Inl m \<Rightarrow> Handler_done j (Inl m) \<in> set es)"
proof -
  obtain own where h: "history_ok own es s" and keys: "map fst (co_tasks s) = map (key_of incl) (arrivals es)"
    using co_run_history [OF assms(1)] by blast
  have len: "length (co_tasks s) = length (arrivals es)" using arg_cong [OF keys, of length] by simp
  have key: "fst (co_tasks s ! j) = key_of incl (arrivals es ! j)" if "j < length (co_tasks s)" for j
    using arg_cong [OF keys, of "\<lambda>ks. ks ! j"] that len by simp
  have "phase_ok es (co_tasks s) i (fst (co_tasks s ! i), Answered r)"
    using h assms(2,3) unfolding history_ok_def by (metis prod.collapse)
  then show ?thesis
    using key assms(2) len by (cases r) (fastforce simp: served_def failed_def)+
qed

theorem coalesced_answer_from_same_key_witness:
  "\<exists>j < 2. \<exists>c. \<lparr>rp_status = 200, rp_headers = [], rp_body = ''hi''\<rparr> = to_response c \<and>
    cr_body c = body_of j [Arrive request_example, Arrive request_example, Subscribe 1, Handler_done 0 (Inr (200, [])), Respond 0,
      Frame 0 (Some ''hi''), End_of_body 0, Observe 1]"
proof -
  let ?es = "[Arrive request_example, Arrive request_example, Subscribe 1, Handler_done 0 (Inr (200, [])), Respond 0,
      Frame 0 (Some ''hi''), End_of_body 0, Observe 1]"
  obtain s where "co_run [] ?es coalescer_new = Some s" "length (co_tasks s) = 2"
    "snd (co_tasks s ! 1) = Answered (Inr \<lparr>rp_status = 200, rp_headers = [], rp_body = ''hi''\<rparr>)"
    by (simp add: example_run to_response_def)
  then obtain j where "j < length (arrivals ?es)"
    "\<exists>c. \<lparr>rp_status = 200, rp_headers = [], rp_body = ''hi''\<rparr> = to_response c \<and> cr_body c = body_of j ?es"
    using coalesced_answer_from_same_key [of "[]" ?es s 1 "Inr \<lparr>rp_status = 200, rp_headers = [], rp_body = ''hi''\<rparr>"]
    unfolding sum.case by (metis one_less_numeral_iff semiring_norm(76))
  moreover have "length (arrivals ?es) = 2" by (simp add: arrivals_def map_filter_def)
  ultimately show ?thesis by metis
qed

text \<open>A leader whose client goes away wedges its key. If the task running the handler is dropped, its entry stays in flight; the
  requests that wait for it, and every later request with the same key, hang on the dead channel: whatever happens, they
  are never answered and never run the handler.\<close>

theorem dropped_leader_wedges_key:
  assumes "co_run incl es coalescer_new = Some s" and "i < length (co_tasks s)" and "co_tasks s ! i = (k, Leading ch)"
    and "co_run incl (Drop_task i # es') s = Some s'"
    and "j < length (co_tasks s')"
    and "j < length (co_tasks s) \<and> snd (co_tasks s ! j) \<in> {Joining ch, Waiting ch} \<or> length (co_tasks s) \<le> j \<and> fst (co_tasks s' ! j) = k"
  shows "snd (co_tasks s' ! j) \<in> {Joining ch, Waiting ch, Dropped}"
proof -
  obtain own where ok: "co_ok own s" using co_run_ok [OF assms(1)] by blast
  have d: "co_exec incl (Drop_task i) s = Some (set_phase i Dropped s)" using assms(2,3) by (simp add: vec_get_def)
  then have "co_run incl es' (set_phase i Dropped s) = Some s'" using assms(4) by simp
  moreover have "wedged k ch (length (co_tasks s)) {j. snd (co_tasks s ! j) \<in> {Joining ch, Waiting ch}} (set_phase i Dropped s)"
    using drop_leader_wedges [OF ok assms(2), of ch] assms(3) by simp
  moreover have "\<exists>own. co_ok own (set_phase i Dropped s)" using co_ok_exec [OF ok d] by blast
  ultimately have "wedged k ch (length (co_tasks s)) {j. snd (co_tasks s ! j) \<in> {Joining ch, Waiting ch}} s'" by (rule wedged_run)
  then show ?thesis using assms(5,6) by (auto simp: wedged_def)
qed

theorem dropped_leader_wedges_key_witness:
  "\<exists>s s'. co_run [] [Arrive request_example] coalescer_new = Some s \<and>
     co_run [] [Drop_task 0, Arrive request_example, Subscribe 1] s = Some s' \<and> snd (co_tasks s' ! 1) \<in> {Joining 0, Waiting 0, Dropped}"
proof -
  let ?s = "\<lparr>co_in_flight = [(key_example, 0)], co_channels = [\<lparr>ch_value = Pending, ch_receivers = 0\<rparr>], co_tasks = [(key_example, Leading 0)]\<rparr>"
  have r: "co_run [] [Arrive request_example] coalescer_new = Some ?s" by (simp add: example_run)
  obtain s' where s': "co_run [] [Drop_task 0, Arrive request_example, Subscribe 1] ?s = Some s'" "length (co_tasks s') = 2"
    "fst (co_tasks s' ! 1) = key_example"
    by (simp add: example_run)
  then show ?thesis using r dropped_leader_wedges_key [OF r, of 0 key_example 0 "[Arrive request_example, Subscribe 1]" s' 1] by auto
qed

text \<open>A body that fails or whose client goes away publishes what it has emitted so far, and a waiter replays it as a success.\<close>

lemma truncated_body_is_replayed:
  "\<exists>s. co_run [] [Arrive request_example, Arrive request_example, Subscribe 1, Handler_done 0 (Inr (200, [])), Respond 0,
      Frame 0 (Some ''hel''), Body_error 0, Drop_task 0, Observe 1] coalescer_new = Some s \<and>
     snd (co_tasks s ! 1) = Answered (Inr \<lparr>rp_status = 200, rp_headers = [], rp_body = ''hel''\<rparr>)"
  by (simp add: example_run to_response_def)

text \<open>An outcome sent before the waiter has subscribed is lost, and the waiter is left without a producer.\<close>

lemma early_outcome_is_lost:
  "\<exists>s. co_run [] [Arrive request_example, Arrive request_example, Handler_done 0 (Inl ''down''), Respond 0, Subscribe 1] coalescer_new = Some s \<and>
     snd (co_tasks s ! 1) = Waiting 0 \<and> ch_value (co_channels s ! 0) = Pending \<and> co_in_flight s = []"
  by (simp add: example_run)

end
