(* ===== verification/Validate.thy ===== *)
theory Validate
  imports Http_Types
begin

text \<open>
  Request validation: \<^verbatim>\<open>crates/justapi-core/src/validate.rs\<close>.

  \<^item> The built-in \<open>format\<close> checkers, over strings of ASCII characters, on which the Unicode predicates of the code are those of
    this theory and a length in bytes is a number of characters.
  \<^item> Structured validation errors with their text and their response.
  \<^item> Coercion of path and query parameters to the integer types, \<open>bool\<close>, \<open>char\<close> and \<open>String\<close>, with \<open>FromStr\<close> of the standard
    library written out.
  \<^item> One-shot and precompiled validation against a JSON schema. \<open>serde_json\<close> and the \<open>jsonschema\<close> crate are parameters: parsing,
    compilation with the format checkers, and the list of errors of an instance.

  The lemmas show that the two ways of validating agree, that coercion accepts exactly the values in range and inverts
  printing, what the \<open>ipv4\<close> checker accepts, and that a date-time with a numeric offset is rejected.
\<close>

section \<open>String operations of the standard library\<close>

text \<open>\<open>split(c)\<close>, \<open>split_once\<close> and the trimming functions.\<close>

fun split_on :: "char \<Rightarrow> string \<Rightarrow> string list" where
  "split_on c [] = [[]]"
| "split_on c (x # xs) =
     (if x = c then [] # split_on c xs
      else case split_on c xs of [] \<Rightarrow> [[x]] | y # ys \<Rightarrow> (x # y) # ys)"

fun join_with :: "char \<Rightarrow> string list \<Rightarrow> string" where
  "join_with c [] = []"
| "join_with c [p] = p"
| "join_with c (p # q # ps) = p @ c # join_with c (q # ps)"

fun split_once :: "string \<Rightarrow> string \<Rightarrow> (string \<times> string) option" where
  "split_once pat [] = (if pat = [] then Some ([], []) else None)"
| "split_once pat (x # xs) =
     (if starts_with (x # xs) pat then Some ([], drop (length pat) (x # xs))
      else map_option (\<lambda>(a, b). (x # a, b)) (split_once pat xs))"

definition str_contains :: "string \<Rightarrow> string \<Rightarrow> bool" where
  "str_contains s pat \<longleftrightarrow> split_once pat s \<noteq> None"

definition trim_end :: "(char \<Rightarrow> bool) \<Rightarrow> string \<Rightarrow> string" where
  "trim_end p s = rev (dropWhile p (rev s))"

definition trim_both :: "(char \<Rightarrow> bool) \<Rightarrow> string \<Rightarrow> string" where
  "trim_both p s = trim_end p (dropWhile p s)"

definition is_digit :: "char \<Rightarrow> bool" where
  "is_digit c \<longleftrightarrow> 48 \<le> (of_char c :: nat) \<and> (of_char c :: nat) \<le> 57"

definition is_alpha :: "char \<Rightarrow> bool" where
  "is_alpha c \<longleftrightarrow> (let n = (of_char c :: nat) in 65 \<le> n \<and> n \<le> 90 \<or> 97 \<le> n \<and> n \<le> 122)"

definition is_hexdigit :: "char \<Rightarrow> bool" where
  "is_hexdigit c \<longleftrightarrow> is_digit c \<or> (let n = (of_char c :: nat) in 65 \<le> n \<and> n \<le> 70 \<or> 97 \<le> n \<and> n \<le> 102)"

definition is_space :: "char \<Rightarrow> bool" where
  "is_space c \<longleftrightarrow> (let n = (of_char c :: nat) in 9 \<le> n \<and> n \<le> 13 \<or> n = 32)"

text \<open>\<open>FromStr\<close> of an unsigned and of a signed integer with the given number of bits.\<close>

definition parse_digits :: "string \<Rightarrow> nat option" where
  "parse_digits s = (if s \<noteq> [] \<and> list_all is_digit s then Some (digits_value s) else None)"

definition parse_uint :: "nat \<Rightarrow> string \<Rightarrow> nat option" where
  "parse_uint bits s =
     (case parse_digits (if s \<noteq> [] \<and> hd s = CHR ''+'' then tl s else s) of
        Some n \<Rightarrow> if n < 2 ^ bits then Some n else None
      | None \<Rightarrow> None)"

definition parse_int :: "nat \<Rightarrow> string \<Rightarrow> int option" where
  "parse_int bits s =
     (if s \<noteq> [] \<and> hd s = CHR ''-''
      then (case parse_digits (tl s) of
              Some n \<Rightarrow> if n \<le> 2 ^ (bits - 1) then Some (- int n) else None
            | None \<Rightarrow> None)
      else (case parse_digits (if s \<noteq> [] \<and> hd s = CHR ''+'' then tl s else s) of
              Some n \<Rightarrow> if n < 2 ^ (bits - 1) then Some (int n) else None
            | None \<Rightarrow> None))"

definition int_str :: "int \<Rightarrow> string" where
  "int_str n = (if n < 0 then CHR ''-'' # nat_str (nat (- n)) else nat_str (nat n))"

section \<open>Format checkers\<close>

definition email_ok :: "string \<Rightarrow> bool" where
  "email_ok s \<longleftrightarrow>
     (if s = [] \<or> list_ex is_space s then False
      else case split_once ''@'' s of
        None \<Rightarrow> False
      | Some (local_part, domain) \<Rightarrow>
          local_part \<noteq> [] \<and> domain \<noteq> [] \<and> CHR ''.'' \<in> set domain \<and> hd domain \<noteq> CHR ''.'' \<and> last domain \<noteq> CHR ''.'')"

definition uri_ok :: "string \<Rightarrow> bool" where
  "uri_ok s \<longleftrightarrow>
     (case split_once ''://'' s of
        Some (scheme, rest) \<Rightarrow>
          scheme \<noteq> [] \<and> list_all (\<lambda>c. is_alpha c \<or> is_digit c \<or> c = CHR ''+'' \<or> c = CHR ''-'' \<or> c = CHR ''.'') scheme \<and> rest \<noteq> []
      | None \<Rightarrow> False)"

definition uuid_ok :: "string \<Rightarrow> bool" where
  "uuid_ok s \<longleftrightarrow>
     (let parts = split_on (CHR ''-'') (trim_both (\<lambda>c. c = CHR ''{'' \<or> c = CHR ''}'') s)
      in map length parts = [8, 4, 4, 4, 12] \<and> list_all (list_all is_hexdigit) parts)"

definition date_time_ok :: "string \<Rightarrow> bool" where
  "date_time_ok s \<longleftrightarrow>
     (case split_once ''T'' s of
        None \<Rightarrow> False
      | Some (date, time) \<Rightarrow>
          (let ds = split_on (CHR ''-'') date in
           if length ds \<noteq> 3 \<or> list_ex (\<lambda>p. p = [] \<or> \<not> list_all is_digit p) ds then False
           else let time = trim_end (\<lambda>c. c = CHR ''+'' \<or> c = CHR ''-'') (trim_end (\<lambda>c. c = CHR ''Z'') time);
                    time = hd (split_on (CHR ''.'') time);
                    ts = split_on (CHR '':'') time
                in 2 \<le> length ts \<and> length ts \<le> 3 \<and> list_all (\<lambda>p. length p \<le> 2 \<and> p \<noteq> [] \<and> list_all is_digit p) ts))"

definition date_ok :: "string \<Rightarrow> bool" where
  "date_ok s \<longleftrightarrow> (let ds = split_on (CHR ''-'') s in length ds = 3 \<and> list_all (\<lambda>p. p \<noteq> [] \<and> list_all is_digit p) ds)"

definition hostname_ok :: "string \<Rightarrow> bool" where
  "hostname_ok s \<longleftrightarrow>
     s \<noteq> [] \<and> hd s \<noteq> CHR ''-'' \<and> last s \<noteq> CHR ''-'' \<and> \<not> str_contains s ''..'' \<and>
     list_all (\<lambda>c. is_alpha c \<or> is_digit c \<or> c = CHR ''-'' \<or> c = CHR ''.'') s"

definition ipv4_ok :: "string \<Rightarrow> bool" where
  "ipv4_ok s \<longleftrightarrow>
     (let parts = split_on (CHR ''.'') s
      in length parts = 4 \<and>
         list_all (\<lambda>p. length p \<le> 3 \<and> p \<noteq> [] \<and> list_all is_digit p \<and> parse_uint 8 p \<noteq> None) parts)"

definition format_validators :: "(string \<times> (string \<Rightarrow> bool)) list" where
  "format_validators =
     [(''email'', email_ok), (''uri'', uri_ok), (''uuid'', uuid_ok), (''date-time'', date_time_ok), (''date'', date_ok),
      (''hostname'', hostname_ok), (''ipv4'', ipv4_ok)]"

section \<open>Validation errors\<close>

record field_error =
  fe_field :: string
  fe_message :: string

record validation_error =
  ve_errors :: "field_error list"

definition verr_new :: "string \<Rightarrow> string \<Rightarrow> validation_error" where
  "verr_new field message = \<lparr>ve_errors = [\<lparr>fe_field = field, fe_message = message\<rparr>]\<rparr>"

definition verr_multiple :: "field_error list \<Rightarrow> validation_error" where
  "verr_multiple errors = \<lparr>ve_errors = errors\<rparr>"

definition verr_add :: "string \<Rightarrow> string \<Rightarrow> validation_error \<Rightarrow> validation_error" where
  "verr_add field message e = e\<lparr>ve_errors := ve_errors e @ [\<lparr>fe_field = field, fe_message = message\<rparr>]\<rparr>"

definition verr_is_empty :: "validation_error \<Rightarrow> bool" where
  "verr_is_empty e \<longleftrightarrow> ve_errors e = []"

fun fmt_errors :: "nat \<Rightarrow> field_error list \<Rightarrow> string" where
  "fmt_errors i [] = []"
| "fmt_errors i (err # errs) =
     (if 0 < i then ''; '' else []) @ fe_field err @ '': '' @ fe_message err @ fmt_errors (i + 1) errs"

definition verr_display :: "validation_error \<Rightarrow> string" where
  "verr_display e = fmt_errors 0 (ve_errors e)"

definition validation_error_response :: "(json \<Rightarrow> string) \<Rightarrow> validation_error \<Rightarrow> http_response" where
  "validation_error_response print e =
     (let body = print (JObject
        [(''type'', JString ''https://justapi.dev/errors/validation''), (''title'', JString ''Validation Error''), (''status'', JNumber 422),
         (''detail'', JString (verr_display e)),
         (''errors'', JArray (map (\<lambda>x. JObject [(''field'', JString (fe_field x)), (''message'', JString (fe_message x))]) (ve_errors e)))])
      in \<lparr>rp_status = 422, rp_headers = [(''content-type'', ''application/problem+json''), (''content-length'', nat_str (length body))],
          rp_body = body\<rparr>)"

section \<open>Bodies, parameters and queries\<close>

text \<open>\<open>Schema::parse_body\<close>; deserialisation and the type's own validation are parameters.\<close>

definition parse_body :: "(string \<Rightarrow> string + 'a) \<Rightarrow> ('a \<Rightarrow> validation_error + unit) \<Rightarrow> string \<Rightarrow> validation_error + 'a" where
  "parse_body from_slice valid body =
     (case from_slice body of
        Inl e \<Rightarrow> Inl (verr_new ''body'' (''Invalid JSON: '' @ e))
      | Inr v \<Rightarrow> (case valid v of Inl e \<Rightarrow> Inl e | Inr _ \<Rightarrow> Inr v))"

definition coerce_via :: "(string \<Rightarrow> 'a option) \<Rightarrow> string \<Rightarrow> string \<Rightarrow> validation_error + 'a" where
  "coerce_via parse ty s =
     (case parse s of
        Some v \<Rightarrow> Inr v
      | None \<Rightarrow> Inl (verr_new [] (''invalid value: expected '' @ ty @ '', got '' @ [CHR 0x27] @ s @ [CHR 0x27])))"

definition coerce_uint :: "nat \<Rightarrow> string \<Rightarrow> validation_error + nat" where
  "coerce_uint bits = coerce_via (parse_uint bits) (''u'' @ nat_str bits)"

definition coerce_int :: "nat \<Rightarrow> string \<Rightarrow> validation_error + int" where
  "coerce_int bits = coerce_via (parse_int bits) (''i'' @ nat_str bits)"

definition parse_bool :: "string \<Rightarrow> bool option" where
  "parse_bool s = (if s = ''true'' then Some True else if s = ''false'' then Some False else None)"

definition coerce_bool :: "string \<Rightarrow> validation_error + bool" where
  "coerce_bool = coerce_via parse_bool ''bool''"

definition coerce_string :: "string \<Rightarrow> validation_error + string" where
  "coerce_string = coerce_via Some ''String''"

definition coerce_char :: "string \<Rightarrow> validation_error + char" where
  "coerce_char s =
     (case s of
        [c] \<Rightarrow> Inr c
      | _ \<Rightarrow> Inl (verr_new [] (''invalid value: expected a single character, got '' @ [CHR 0x27] @ s @ [CHR 0x27])))"

definition parse_query :: "(string \<Rightarrow> string + 'a) \<Rightarrow> string \<Rightarrow> validation_error + 'a" where
  "parse_query urlencoded query =
     (case urlencoded (dropWhile (\<lambda>c. c = CHR ''?'') query) of
        Inl e \<Rightarrow> Inl (verr_new ''query'' (''parse error: '' @ e))
      | Inr v \<Rightarrow> Inr v)"

section \<open>JSON schema validation\<close>

text \<open>\<open>parse\<close> is \<open>serde_json\<close>, \<open>build\<close> the compilation of a schema with the registered format checkers, and a validator is the
  list of errors, with path and message, of an instance.\<close>

type_synonym validator = "json \<Rightarrow> (string \<times> string) list"
type_synonym build = "(string \<times> (string \<Rightarrow> bool)) list \<Rightarrow> json \<Rightarrow> string + validator"

definition build_validator :: "build \<Rightarrow> json \<Rightarrow> string + validator" where
  "build_validator build schema = build format_validators schema"

definition error_field :: "string \<Rightarrow> string" where
  "error_field path =
     (if path = [] \<or> path = ''/'' \<or> path = ''#'' then ''body'' else dropWhile (\<lambda>c. c = CHR ''/'') path)"

definition collect_errors :: "(string \<times> string) list \<Rightarrow> validation_error + unit" where
  "collect_errors errors =
     (let verr = fold (\<lambda>(path, msg) verr. verr_add (error_field path) msg verr) errors \<lparr>ve_errors = []\<rparr>
      in if verr_is_empty verr then Inr () else Inl verr)"

definition validate_json_schema :: "(string \<Rightarrow> string + json) \<Rightarrow> build \<Rightarrow> string \<Rightarrow> string \<Rightarrow> validation_error + unit" where
  "validate_json_schema parse build body schema_json =
     (case parse body of
        Inl e \<Rightarrow> Inl (verr_new ''body'' (''Invalid JSON: '' @ e))
      | Inr body_value \<Rightarrow>
          (case parse schema_json of
             Inl e \<Rightarrow> Inl (verr_new ''schema'' (''Invalid schema JSON: '' @ e))
           | Inr schema_value \<Rightarrow>
               (case build_validator build schema_value of
                  Inl e \<Rightarrow> Inl (verr_new ''schema'' (''Schema compilation error: '' @ e))
                | Inr validator \<Rightarrow> collect_errors (validator body_value))))"

definition compile_schema :: "(string \<Rightarrow> string + json) \<Rightarrow> build \<Rightarrow> string \<Rightarrow> validation_error + validator" where
  "compile_schema parse build schema_json =
     (case parse schema_json of
        Inl e \<Rightarrow> Inl (verr_new ''schema'' (''Invalid schema JSON: '' @ e))
      | Inr schema_value \<Rightarrow>
          (case build_validator build schema_value of
             Inl e \<Rightarrow> Inl (verr_new ''schema'' (''Schema compilation error: '' @ e))
           | Inr validator \<Rightarrow> Inr validator))"

definition compiled_validate :: "(string \<Rightarrow> string + json) \<Rightarrow> validator \<Rightarrow> string \<Rightarrow> validation_error + unit" where
  "compiled_validate parse validator body =
     (case parse body of
        Inl e \<Rightarrow> Inl (verr_new ''body'' (''Invalid JSON: '' @ e))
      | Inr body_value \<Rightarrow> collect_errors (validator body_value))"

section \<open>Lemmas on strings\<close>

lemma split_on_not_Nil [simp]: "split_on c s \<noteq> []"
  by (induction c s rule: split_on.induct) (auto split: list.splits)

lemma join_with_Cons: "join_with c (p # ps) = (if ps = [] then p else p @ c # join_with c ps)"
  by (cases ps) auto

lemma join_split: "join_with c (split_on c s) = s"
proof (induction c s rule: split_on.induct)
  case (2 c x xs)
  then show ?case by (cases "split_on c xs") (auto simp: join_with_Cons)
qed simp

lemma split_on_free: "p \<in> set (split_on c s) \<Longrightarrow> c \<notin> set p"
proof (induction c s arbitrary: p rule: split_on.induct)
  case (2 c x xs)
  then show ?case by (cases "split_on c xs") (fastforce split: if_splits)+
qed simp

lemma split_on_none: "c \<notin> set p \<Longrightarrow> split_on c p = [p]"
  by (induction p) auto

lemma split_on_append: "c \<notin> set p \<Longrightarrow> split_on c (p @ c # s) = p # split_on c s"
  by (induction p) auto

lemma split_join: "ps \<noteq> [] \<Longrightarrow> \<forall>p\<in>set ps. c \<notin> set p \<Longrightarrow> split_on c (join_with c ps) = ps"
  by (induction c ps rule: join_with.induct) (auto simp: split_on_none split_on_append)

lemma split_once_char: "c \<notin> set p \<Longrightarrow> split_once [c] (p @ c # s) = Some (p, s)"
  by (induction p) auto

lemma digit_char: "n < (10 :: nat) \<Longrightarrow> is_digit (char_of (48 + n))"
  by (simp add: is_digit_def of_char_of take_bit_eq_mod)

lemma nat_str_digits: "nat_str n \<noteq> [] \<and> list_all is_digit (nat_str n)"
proof (induction n rule: nat_str.induct)
  case (1 n)
  then show ?case by (subst (1 2) nat_str.simps) (auto simp: digit_char)
qed

lemma parse_digits_nat_str [simp]: "parse_digits (nat_str n) = Some n"
  using nat_str_digits [of n] by (simp add: parse_digits_def digits_value_nat_str)

lemma not_digit [simp]:
  "\<not> is_digit (CHR ''+'')" "\<not> is_digit (CHR ''-'')" "\<not> is_digit (CHR ''.'')" "\<not> is_digit (CHR '':'')" "\<not> is_digit (CHR ''T'')"
  "\<not> is_digit (CHR ''Z'')"
  by (simp_all add: is_digit_def)

lemma digits_free: "list_all is_digit p \<Longrightarrow> \<not> is_digit c \<Longrightarrow> c \<notin> set p"
  by (auto simp: list_all_iff)

lemma digits_hd: "list_all is_digit s \<Longrightarrow> \<not> is_digit c \<Longrightarrow> \<not> (s \<noteq> [] \<and> hd s = c)"
  by (cases s) auto

lemmas nat_str_hd = digits_hd [OF conjunct2 [OF nat_str_digits]]

section \<open>Coercion\<close>

text \<open>What a parser promises its client: it inverts printing on the values of its type and returns no others.\<close>

locale coercion =
  fixes parse :: "string \<Rightarrow> 'a option" and print :: "'a \<Rightarrow> string" and fits :: "'a \<Rightarrow> bool"
  assumes parse_print: "fits v \<Longrightarrow> parse (print v) = Some v"
    and parse_fits: "parse s = Some v \<Longrightarrow> fits v"
begin

lemma coerced_fits: "coerce_via parse ty s = Inr v \<Longrightarrow> fits v"
  using parse_fits by (auto simp: coerce_via_def split: option.splits)

lemma coerce_print: "coerce_via parse ty (print v) = Inr v \<longleftrightarrow> fits v"
  using coerced_fits parse_print by (force simp: coerce_via_def)

end

interpretation co_uint: coercion "parse_uint bits" nat_str "\<lambda>n. n < 2 ^ bits" for bits
  by unfold_locales (auto simp: parse_uint_def nat_str_hd split: option.splits if_splits)

interpretation co_int: coercion "parse_int bits" int_str "\<lambda>z. - (2 ^ (bits - 1)) \<le> z \<and> z < 2 ^ (bits - 1)" for bits
proof unfold_locales
  show "parse_int bits (int_str z) = Some z" if "- (2 ^ (bits - 1)) \<le> z \<and> z < 2 ^ (bits - 1)" for z
  proof (cases "z < 0")
    case True
    then have "nat (- z) \<le> 2 ^ (bits - 1)" using that by (simp add: nat_le_iff)
    then show ?thesis using True by (simp add: parse_int_def int_str_def)
  next
    case False
    then have "nat z < 2 ^ (bits - 1)" using that by (simp add: nat_less_iff)
    then show ?thesis using False by (simp add: parse_int_def int_str_def nat_str_hd)
  qed
  have "int n \<le> 2 ^ m \<longleftrightarrow> n \<le> 2 ^ m" "int n < 2 ^ m \<longleftrightarrow> n < 2 ^ m" for n m :: nat
    by (metis of_nat_le_iff of_nat_numeral of_nat_power, metis of_nat_less_iff of_nat_numeral of_nat_power)
  then show "- (2 ^ (bits - 1)) \<le> z \<and> z < 2 ^ (bits - 1)" if "parse_int bits s = Some z" for s z
    using that by (auto simp: parse_int_def split: option.splits if_splits intro: le_less_trans [of "- int _" 0] order_trans [of _ 0 "int _"])
qed

interpretation co_bool: coercion parse_bool "\<lambda>b. if b then ''true'' else ''false''" "\<lambda>_. True"
  by unfold_locales (auto simp: parse_bool_def)

section \<open>Properties\<close>

text \<open>Precompiled validation is equivalent to one-shot validation. If the schema compiles, the compiled validator answers every body as
  \<open>validate_json_schema\<close> does, with the same errors in the same order; if it does not compile, one-shot validation
  rejects every body, with the error of the compilation unless the body itself is not JSON.\<close>

theorem compiled_validation_agrees:
  "case compile_schema parse build schema of
     Inr v \<Rightarrow> validate_json_schema parse build body schema = compiled_validate parse v body
   | Inl e \<Rightarrow> validate_json_schema parse build body schema
       = (case parse body of Inl m \<Rightarrow> Inl (verr_new ''body'' (''Invalid JSON: '' @ m)) | Inr _ \<Rightarrow> Inl e)"
  by (auto simp: compile_schema_def validate_json_schema_def compiled_validate_def split: sum.splits)

text \<open>Validation accepts exactly the instances without errors, and reports every error under its field.\<close>

lemma collect_errors_fields:
  "collect_errors errors =
     (if errors = [] then Inr () else Inl \<lparr>ve_errors = map (\<lambda>(path, msg). \<lparr>fe_field = error_field path, fe_message = msg\<rparr>) errors\<rparr>)"
proof -
  have "fold (\<lambda>(path, msg) verr. verr_add (error_field path) msg verr) errors e =
      \<lparr>ve_errors = ve_errors e @ map (\<lambda>(path, msg). \<lparr>fe_field = error_field path, fe_message = msg\<rparr>) errors\<rparr>" for e
    by (induction errors arbitrary: e) (auto simp: verr_add_def)
  then show ?thesis by (simp add: collect_errors_def verr_is_empty_def)
qed



text \<open>Coercion inverts printing exactly on the range. The decimal text of a number is coerced back to the number if and only if the number
  fits the width.\<close>

theorem coerce_integers_roundtrip:
  "(coerce_uint bits (nat_str n) = Inr n \<longleftrightarrow> n < 2 ^ bits) \<and>
   (coerce_int bits (int_str z) = Inr z \<longleftrightarrow> - (2 ^ (bits - 1)) \<le> z \<and> z < 2 ^ (bits - 1))"
  unfolding coerce_uint_def coerce_int_def by (intro conjI co_uint.coerce_print co_int.coerce_print)

text \<open>The \<open>ipv4\<close> checker accepts four dotted numbers of at most three digits and at most 255.\<close>

lemma ipv4_ok_iff:
  "ipv4_ok s \<longleftrightarrow> (\<exists>ps. length ps = 4 \<and> s = join_with (CHR ''.'') ps \<and>
     (\<forall>p\<in>set ps. p \<noteq> [] \<and> length p \<le> 3 \<and> list_all is_digit p \<and> digits_value p \<le> 255))"
proof -
  have octet: "length p \<le> 3 \<and> p \<noteq> [] \<and> list_all is_digit p \<and> parse_uint 8 p \<noteq> None \<longleftrightarrow>
      p \<noteq> [] \<and> length p \<le> 3 \<and> list_all is_digit p \<and> digits_value p \<le> 255" for p
    using digits_hd [of p "CHR ''+''"] by (auto simp: parse_uint_def parse_digits_def)
  show ?thesis (is "_ = ?R")
  proof
    assume "ipv4_ok s"
    then show ?R unfolding ipv4_ok_def Let_def octet list_all_iff [where P = "\<lambda>p. p \<noteq> [] \<and> _ p"]
      by (intro exI [of _ "split_on (CHR ''.'') s"]) (auto simp: join_split list_all_iff)
  next
    assume ?R
    then obtain ps where ps: "length ps = 4" "s = join_with (CHR ''.'') ps"
      "\<forall>p\<in>set ps. p \<noteq> [] \<and> length p \<le> 3 \<and> list_all is_digit p \<and> digits_value p \<le> 255" by blast
    have "ps \<noteq> []" using ps(1) by auto
    then have "split_on (CHR ''.'') s = ps" unfolding ps(2)
      by (rule split_join) (use ps(3) digits_free in \<open>auto simp: not_digit\<close>)
    then show "ipv4_ok s" unfolding ipv4_ok_def Let_def octet using ps by (auto simp: list_all_iff)
  qed
qed

text \<open>The date-time format rejects timestamps with a numeric offset. With digit fields, a timestamp in UTC is accepted and the same
  timestamp with an offset such as \<open>+02:00\<close>, which RFC 3339 allows, is rejected, because the offset is split like the time.\<close>

theorem date_time_rejects_numeric_offset:
  assumes "\<forall>p\<in>set [y, mo, d, h, mi, sec, oh, om]. p \<noteq> [] \<and> list_all is_digit p" and "sign \<in> {CHR ''+'', CHR ''-''}"
    and "length h \<le> 2" and "length mi \<le> 2" and "length sec \<le> 2"
  shows "date_time_ok (y @ ''-'' @ mo @ ''-'' @ d @ ''T'' @ h @ '':'' @ mi @ '':'' @ sec @ ''Z'') \<and>
    \<not> date_time_ok (y @ ''-'' @ mo @ ''-'' @ d @ ''T'' @ h @ '':'' @ mi @ '':'' @ sec @ [sign] @ oh @ '':'' @ om)"
proof -
  have f: "c \<notin> set p" if "p \<in> set [y, mo, d, h, mi, sec, oh, om]" "\<not> is_digit c" for p c
    using assms(1) that digits_free by blast
  have date: "split_once ''T'' (y @ ''-'' @ mo @ ''-'' @ d @ ''T'' @ rest) = Some (y @ ''-'' @ mo @ ''-'' @ d, rest)" for rest
    using split_once_char [of "CHR ''T''" "y @ ''-'' @ mo @ ''-'' @ d" rest] by (simp add: f)
  have ds: "split_on (CHR ''-'') (y @ ''-'' @ mo @ ''-'' @ d) = [y, mo, d]"
    using split_join [of "[y, mo, d]" "CHR ''-''"] by (simp add: f)
  have trim: "trim_end p (xs @ q) = xs @ q" if "q \<noteq> []" "\<not> p (last q)" for p xs and q :: string
    using that by (cases q rule: rev_cases) (auto simp: trim_end_def)
  have "last p \<noteq> c" if "p \<in> set [y, mo, d, h, mi, sec, oh, om]" "\<not> is_digit c" for p c
    using f [OF that] assms(1) that(1) last_in_set by metis
  note l = this
  have t1: "trim_end (\<lambda>c. c = CHR ''+'' \<or> c = CHR ''-'') (trim_end (\<lambda>c. c = CHR ''Z'') (h @ '':'' @ mi @ '':'' @ sec @ ''Z''))
      = h @ '':'' @ mi @ '':'' @ sec"
  proof -
    have "trim_end (\<lambda>c. c = CHR ''Z'') (h @ '':'' @ mi @ '':'' @ sec @ ''Z'') = trim_end (\<lambda>c. c = CHR ''Z'') (h @ '':'' @ mi @ '':'' @ sec)"
      by (simp add: trim_end_def)
    then show ?thesis using trim [of sec _ "h @ '':'' @ mi @ '':''"] l [of sec] assms(1) by simp
  qed
  have t2: "trim_end (\<lambda>c. c = CHR ''+'' \<or> c = CHR ''-'') (trim_end (\<lambda>c. c = CHR ''Z'') (h @ '':'' @ mi @ '':'' @ sec @ [sign] @ oh @ '':'' @ om))
      = h @ '':'' @ mi @ '':'' @ sec @ [sign] @ oh @ '':'' @ om"
    using trim [of om _ "h @ '':'' @ mi @ '':'' @ sec @ [sign] @ oh @ '':''"] l [of om] assms(1) by simp
  have d1: "split_on (CHR ''.'') (h @ '':'' @ mi @ '':'' @ sec) = [h @ '':'' @ mi @ '':'' @ sec]"
    "split_on (CHR ''.'') (h @ '':'' @ mi @ '':'' @ sec @ [sign] @ oh @ '':'' @ om) = [h @ '':'' @ mi @ '':'' @ sec @ [sign] @ oh @ '':'' @ om]"
    using assms(2) by (auto intro!: split_on_none simp: f)
  have c1: "split_on (CHR '':'') (h @ '':'' @ mi @ '':'' @ sec) = [h, mi, sec]"
    "split_on (CHR '':'') (h @ '':'' @ mi @ '':'' @ sec @ [sign] @ oh @ '':'' @ om) = [h, mi, sec @ [sign] @ oh, om]"
    using split_join [of "[h, mi, sec]" "CHR '':''"] split_join [of "[h, mi, sec @ [sign] @ oh, om]" "CHR '':''"] assms(2) by (auto simp: f)
  show ?thesis
    unfolding date_time_ok_def date by (simp add: ds t1 t2 d1 c1 assms Let_def del: append.simps append_assoc)
qed

theorem date_time_rejects_numeric_offset_witness:
  "date_time_ok ''2024-05-01T10:00:00Z'' \<and> \<not> date_time_ok ''2024-05-01T10:00:00+02:00''"
proof -
  have "\<forall>p\<in>set [''2024'', ''05'', ''01'', ''10'', ''00'', ''00'', ''02'', ''00'']. p \<noteq> [] \<and> list_all is_digit p"
    by (simp add: is_digit_def)
  from date_time_rejects_numeric_offset [OF this, of "CHR ''+''"] show ?thesis by simp
qed

end
