(* ===== verification/Dag.thy ===== *)
theory Dag
  imports Prelude
begin

text \<open>
  The task graph executor of the Python crate: \<^verbatim>\<open>crates/justapi-py/src/dag.rs\<close>. Nodes with handlers run as soon as the results of
  their dependencies, or the inputs with those names, are there.

  \<^item> The executor is the loop of \<open>run_dag_internal\<close>: it starts all ready nodes and waits for one of them to finish. A started
    task first reads its arguments and later returns; the order in which tasks read and return is left to the events.
  \<^item> A handler is a function of its arguments that may fail. The state maps names to values, inputs first.
  \<^item> The iteration order of the hash maps and sets is the order of the lists; nothing depends on it.

  The lemmas show that a handler gets the values of exactly its dependencies, that every run ends within two events per
  node, that an execution that ends well has the same results for every order of events, and that a deadlock is reported
  only when every waiting node misses a dependency.
\<close>

section \<open>Graphs\<close>

record 'v dag_node =
  dn_name :: string
  dn_handler :: "'v list \<Rightarrow> string + 'v"
  dn_dependencies :: "string list"

type_synonym 'v dag = "(string \<times> 'v dag_node) list"

definition dag_new :: "'v dag_node list \<Rightarrow> 'v dag" where
  "dag_new nodes = fold (\<lambda>node m. AList.update (dn_name node) node m) nodes []"

section \<open>Execution\<close>

text \<open>A running task is its name and, once it has read them, its arguments.\<close>

record 'v dag_state =
  dg_state :: "string \<rightharpoonup> 'v"
  dg_pending :: "string list"
  dg_running :: "(string \<times> 'v list option) list"
  dg_completed :: "string list"
  dg_result :: "(string + unit) option"

definition can_run :: "'v dag \<Rightarrow> (string \<rightharpoonup> 'v) \<Rightarrow> string \<Rightarrow> bool" where
  "can_run nodes state name =
     (case map_of nodes name of Some node \<Rightarrow> list_all (\<lambda>d. state d \<noteq> None) (dn_dependencies node) | None \<Rightarrow> False)"

text \<open>One turn of the loop up to the point where it waits, or its end. \<open>msg\<close> prints the waiting names.\<close>

definition dag_turn :: "(string list \<Rightarrow> string) \<Rightarrow> 'v dag \<Rightarrow> 'v dag_state \<Rightarrow> 'v dag_state" where
  "dag_turn msg nodes st =
     (if dg_pending st = [] \<and> dg_running st = [] then st\<lparr>dg_result := Some (Inr ())\<rparr>
      else let ready = filter (can_run nodes (dg_state st)) (dg_pending st);
               st = st\<lparr>dg_pending := filter (\<lambda>n. \<not> can_run nodes (dg_state st) n) (dg_pending st),
                       dg_running := dg_running st @ map (\<lambda>n. (n, None)) ready\<rparr>
           in if dg_running st \<noteq> [] then st
              else st\<lparr>dg_result := Some (Inl (''DAG deadlock: nodes '' @ msg (dg_pending st) @ '' are waiting for dependencies that never arrive''))\<rparr>)"

definition dag_start :: "(string list \<Rightarrow> string) \<Rightarrow> 'v dag \<Rightarrow> (string \<rightharpoonup> 'v) \<Rightarrow> 'v dag_state" where
  "dag_start msg nodes inputs =
     dag_turn msg nodes \<lparr>dg_state = inputs, dg_pending = map fst nodes, dg_running = [], dg_completed = [], dg_result = None\<rparr>"

definition task_args :: "'v dag_node \<Rightarrow> (string \<rightharpoonup> 'v) \<Rightarrow> 'v list" where
  "task_args node state = List.map_filter state (dn_dependencies node)"

datatype dag_event = Read_args string | Join string | Join_error string string

fun dag_exec :: "(string list \<Rightarrow> string) \<Rightarrow> 'v dag \<Rightarrow> dag_event \<Rightarrow> 'v dag_state \<Rightarrow> 'v dag_state option" where
  "dag_exec msg nodes (Read_args name) st =
     (case (dg_result st, map_of nodes name, map_of (dg_running st) name) of
        (None, Some node, Some None) \<Rightarrow>
          Some (st\<lparr>dg_running := AList.update name (Some (task_args node (dg_state st))) (dg_running st)\<rparr>)
      | _ \<Rightarrow> None)"
| "dag_exec msg nodes (Join name) st =
     (case (dg_result st, map_of nodes name, map_of (dg_running st) name) of
        (None, Some node, Some (Some args)) \<Rightarrow>
          (let st = st\<lparr>dg_running := AList.delete name (dg_running st), dg_completed := dg_completed st @ [name]\<rparr>
           in case dn_handler node args of
                Inr v \<Rightarrow> Some (dag_turn msg nodes (st\<lparr>dg_state := (dg_state st)(name \<mapsto> v)\<rparr>))
              | Inl e \<Rightarrow> Some (st\<lparr>dg_result := Some (Inl (''Node '' @ name @ '' failed: '' @ e))\<rparr>))
      | _ \<Rightarrow> None)"
| "dag_exec msg nodes (Join_error name e) st =
     (case (dg_result st, map_of (dg_running st) name) of
        (None, Some _) \<Rightarrow>
          Some (st\<lparr>dg_running := AList.delete name (dg_running st), dg_result := Some (Inl (''Join error: '' @ e))\<rparr>)
      | _ \<Rightarrow> None)"

abbreviation dag_run :: "(string list \<Rightarrow> string) \<Rightarrow> 'v dag \<Rightarrow> (string \<rightharpoonup> 'v) \<Rightarrow> dag_event list \<Rightarrow> 'v dag_state option" where
  "dag_run msg nodes inputs es \<equiv> fold_opt (dag_exec msg nodes) es (dag_start msg nodes inputs)"

section \<open>Invariant\<close>

text \<open>Every node is in one of the three sets; the state holds the inputs and the results of the completed nodes.\<close>

definition names_ok :: "'v dag \<Rightarrow> 'v dag_state \<Rightarrow> bool" where
  "names_ok nodes st \<longleftrightarrow>
     distinct (dg_pending st @ map fst (dg_running st) @ dg_completed st) \<and>
     set (dg_pending st) \<union> fst ` set (dg_running st) \<union> set (dg_completed st) \<subseteq> fst ` set nodes \<and>
     (dg_result st = None \<or> dg_result st = Some (Inr ()) \<longrightarrow>
        fst ` set nodes \<subseteq> set (dg_pending st) \<union> fst ` set (dg_running st) \<union> set (dg_completed st))"

text \<open>A node is solved in a state if the state has values for its dependencies, on which its handler gives its value.\<close>

definition solved :: "'v dag \<Rightarrow> (string \<rightharpoonup> 'v) \<Rightarrow> string \<Rightarrow> bool" where
  "solved nodes \<sigma> name \<longleftrightarrow>
     (\<exists>node v. map_of nodes name = Some node \<and> (\<forall>d\<in>set (dn_dependencies node). \<sigma> d \<noteq> None) \<and>
        dn_handler node (map (\<lambda>d. the (\<sigma> d)) (dn_dependencies node)) = Inr v \<and> \<sigma> name = Some v)"

text \<open>The completed nodes, in the order of their completion, come after the nodes they depend on.\<close>

fun ordered :: "'v dag \<Rightarrow> string set \<Rightarrow> string list \<Rightarrow> bool" where
  "ordered nodes seen [] \<longleftrightarrow> True"
| "ordered nodes seen (n # ns) \<longleftrightarrow>
     (case map_of nodes n of Some node \<Rightarrow> set (dn_dependencies node) \<subseteq> seen | None \<Rightarrow> False) \<and> ordered nodes (insert n seen) ns"

definition dag_ok :: "'v dag \<Rightarrow> (string \<rightharpoonup> 'v) \<Rightarrow> 'v dag_state \<Rightarrow> bool" where
  "dag_ok nodes inputs st \<longleftrightarrow>
     names_ok nodes st \<and>
     (\<forall>name args. map_of (dg_running st) name = Some args \<longrightarrow>
        (\<exists>node. map_of nodes name = Some node \<and> (\<forall>d\<in>set (dn_dependencies node). dg_state st d \<noteq> None) \<and>
           (\<forall>xs. args = Some xs \<longrightarrow> xs = map (\<lambda>d. the (dg_state st d)) (dn_dependencies node)))) \<and>
     (dg_result st = None \<or> dg_result st = Some (Inr ()) \<longrightarrow>
        dom (dg_state st) = dom inputs \<union> set (dg_completed st) \<and> (\<forall>n\<in>set (dg_completed st). solved nodes (dg_state st) n) \<and>
        (\<forall>k. k \<notin> set (dg_completed st) \<longrightarrow> dg_state st k = inputs k) \<and> ordered nodes (dom inputs) (dg_completed st))"

lemma can_runD: "can_run nodes \<sigma> n \<Longrightarrow> \<exists>node. map_of nodes n = Some node \<and> (\<forall>d\<in>set (dn_dependencies node). \<sigma> d \<noteq> None)"
  by (auto simp: can_run_def list_all_iff split: option.splits)

lemma turn_cases:
  assumes "dg_result st = None"
  obtains (finished) "dg_pending st = []" "dg_running st = []" "dag_turn msg nodes st = st\<lparr>dg_result := Some (Inr ())\<rparr>"
  | (waits) "dag_turn msg nodes st = st\<lparr>dg_pending := filter (\<lambda>n. \<not> can_run nodes (dg_state st) n) (dg_pending st),
      dg_running := dg_running st @ map (\<lambda>n. (n, None)) (filter (can_run nodes (dg_state st)) (dg_pending st))\<rparr>"
      "dg_running (dag_turn msg nodes st) \<noteq> []"
  | (stuck) m where "dg_running st = []" "dg_pending st \<noteq> []" "\<forall>n\<in>set (dg_pending st). \<not> can_run nodes (dg_state st) n"
      "dag_turn msg nodes st = st\<lparr>dg_result := Some (Inl m)\<rparr>"
proof -
  let ?ready = "filter (can_run nodes (dg_state st)) (dg_pending st)"
  consider "dg_pending st = [] \<and> dg_running st = []" | "\<not> (dg_pending st = [] \<and> dg_running st = [])" "dg_running st \<noteq> [] \<or> ?ready \<noteq> []"
    | "dg_pending st \<noteq> []" "dg_running st = []" "?ready = []" by blast
  then show ?thesis
  proof cases
    case 1
    then show ?thesis using finished by (simp add: dag_turn_def)
  next
    case 2
    then show ?thesis using waits by (auto simp: dag_turn_def Let_def)
  next
    case 3
    then have "filter (\<lambda>n. \<not> can_run nodes (dg_state st) n) (dg_pending st) = dg_pending st"
      by (auto simp: filter_empty_conv intro: filter_True)
    then have "dag_turn msg nodes st = st\<lparr>dg_result := Some (Inl (''DAG deadlock: nodes '' @ msg (dg_pending st)
        @ '' are waiting for dependencies that never arrive''))\<rparr>"
      using 3 by (cases st) (simp add: dag_turn_def Let_def del: append.simps)
    then show ?thesis using 3 stuck by (simp add: filter_empty_conv)
  qed
qed

lemma dag_ok_turn:
  assumes ok: "dag_ok nodes inputs st" and r: "dg_result st = None"
  shows "dag_ok nodes inputs (dag_turn msg nodes st)"
  using r
proof (cases rule: turn_cases [where msg = msg and nodes = nodes])
  case finished
  then show ?thesis using ok r by (auto simp: dag_ok_def names_ok_def)
next
  case waits
  let ?p = "can_run nodes (dg_state st)" and ?st = "dag_turn msg nodes st"
  have "names_ok nodes ?st"
  proof -
    have "fst ` set (dg_running ?st) = fst ` set (dg_running st) \<union> {n \<in> set (dg_pending st). ?p n}"
      by (simp add: waits(1) image_Un image_image)
    moreover have "map fst (dg_running ?st) = map fst (dg_running st) @ filter ?p (dg_pending st)"
      by (simp add: waits(1) comp_def)
    moreover have "dg_pending ?st = filter (\<lambda>n. \<not> ?p n) (dg_pending st)" "dg_completed ?st = dg_completed st" "dg_result ?st = None"
      using r by (simp_all add: waits(1))
    moreover have "names_ok nodes st" using ok by (simp add: dag_ok_def)
    ultimately show ?thesis using r unfolding names_ok_def by auto
  qed
  moreover have "\<exists>node. map_of nodes name = Some node \<and> (\<forall>d\<in>set (dn_dependencies node). dg_state st d \<noteq> None) \<and>
      (\<forall>xs. args = Some xs \<longrightarrow> xs = map (\<lambda>d. the (dg_state st d)) (dn_dependencies node))"
    if m: "map_of (dg_running ?st) name = Some args" for name args
  proof (cases "map_of (dg_running st) name")
    case None
    then have "map_of (map (\<lambda>n. (n, None)) (filter ?p (dg_pending st))) name = Some args"
      using m unfolding waits(1) by (simp add: map_add_def)
    then have "args = None" "?p name" by (auto dest: map_of_SomeD)
    then show ?thesis using can_runD [of nodes "dg_state st" name] by auto
  next
    case (Some a)
    then have "args = a" using m unfolding waits(1) by (simp add: map_add_def)
    then show ?thesis using ok Some unfolding dag_ok_def by blast
  qed
  ultimately show ?thesis using ok r unfolding dag_ok_def by (simp add: waits(1))
next
  case (stuck m)
  then show ?thesis using ok r by (auto simp: dag_ok_def names_ok_def)
qed

lemma dag_ok_init: "distinct (map fst nodes) \<Longrightarrow>
    dag_ok nodes inputs \<lparr>dg_state = inputs, dg_pending = map fst nodes, dg_running = [], dg_completed = [], dg_result = None\<rparr>"
  by (simp add: dag_ok_def names_ok_def)

lemma dag_ok_start: "distinct (map fst nodes) \<Longrightarrow> dag_ok nodes inputs (dag_start msg nodes inputs)"
  unfolding dag_start_def by (rule dag_ok_turn) (simp_all add: dag_ok_init)

text \<open>The inversion of a step.\<close>

lemma dag_exec_read:
  assumes "dag_exec msg nodes (Read_args name) st = Some st'"
  obtains node where "dg_result st = None" "map_of nodes name = Some node" "map_of (dg_running st) name = Some None"
    "st' = st\<lparr>dg_running := AList.update name (Some (task_args node (dg_state st))) (dg_running st)\<rparr>"
  using assms by (auto split: option.splits)

lemma dag_exec_join:
  assumes "dag_exec msg nodes (Join name) st = Some st'"
  obtains node args where "dg_result st = None" "map_of nodes name = Some node" "map_of (dg_running st) name = Some (Some args)"
    "case dn_handler node args of
       Inr v \<Rightarrow> st' = dag_turn msg nodes (st\<lparr>dg_running := AList.delete name (dg_running st),
         dg_completed := dg_completed st @ [name], dg_state := (dg_state st)(name \<mapsto> v)\<rparr>)
     | Inl e \<Rightarrow> st' = st\<lparr>dg_running := AList.delete name (dg_running st), dg_completed := dg_completed st @ [name],
         dg_result := Some (Inl (''Node '' @ name @ '' failed: '' @ e))\<rparr>"
  using assms by (auto simp: Let_def split: option.splits sum.splits)

lemma dag_exec_join_error:
  assumes "dag_exec msg nodes (Join_error name e) st = Some st'"
  obtains a where "dg_result st = None" "map_of (dg_running st) name = Some a"
    "st' = st\<lparr>dg_running := AList.delete name (dg_running st), dg_result := Some (Inl (''Join error: '' @ e))\<rparr>"
  using assms by (auto split: option.splits)

lemma task_args_all: "\<forall>d\<in>set (dn_dependencies node). \<sigma> d \<noteq> None \<Longrightarrow> task_args node \<sigma> = map (\<lambda>d. the (\<sigma> d)) (dn_dependencies node)"
  unfolding task_args_def by (induction "dn_dependencies node" arbitrary: node) (auto simp: map_filter_def)

lemma ordered_snoc: "ordered nodes seen (ns @ [n]) \<longleftrightarrow> ordered nodes seen ns \<and>
    (case map_of nodes n of Some node \<Rightarrow> set (dn_dependencies node) \<subseteq> seen \<union> set ns | None \<Rightarrow> False)"
  by (induction ns arbitrary: seen) (auto split: option.splits)

lemma names_delete:
  assumes "names_ok nodes st" and "map_of (dg_running st) name = Some a"
  shows "name \<notin> set (dg_pending st)" "name \<notin> set (dg_completed st)" "name \<in> fst ` set nodes" "distinct (map fst (dg_running st))"
    "map fst (AList.delete name (dg_running st)) = removeAll name (map fst (dg_running st))"
proof -
  have "name \<in> set (map fst (dg_running st))" using map_of_SomeD [OF assms(2)] by force
  then show "name \<notin> set (dg_pending st)" "name \<notin> set (dg_completed st)" "name \<in> fst ` set nodes" "distinct (map fst (dg_running st))"
    using assms(1) unfolding names_ok_def by auto
qed (simp add: delete_keys)

lemma names_ok_moved:
  assumes "names_ok nodes st" and "map_of (dg_running st) name = Some a" and "dg_result st = None"
    and "dg_pending st' = dg_pending st" and "dg_running st' = AList.delete name (dg_running st)"
    and "dg_completed st' = dg_completed st @ [name] \<or> dg_completed st' = dg_completed st \<and> (\<exists>m. dg_result st' = Some (Inl m))"
  shows "names_ok nodes st'"
proof -
  note d = names_delete [OF assms(1,2)]
  have keys: "fst ` set (dg_running st') = fst ` set (dg_running st) - {name}" "distinct (map fst (dg_running st'))"
    using d(4,5) assms(5) by (metis set_map set_removeAll, simp add: distinct_removeAll)
  obtain N where N: "fst ` set nodes = N" by simp
  show ?thesis using assms(1,3,4,6) d(1-3) keys unfolding names_ok_def N by auto
qed

lemma dag_ok_joined:
  assumes ok: "dag_ok nodes inputs st" and disj: "fst ` set nodes \<inter> dom inputs = {}"
    and j: "dg_result st = None" "map_of nodes name = Some node" "map_of (dg_running st) name = Some (Some args)" and Inr: "dn_handler node args = Inr v"
  shows "dag_ok nodes inputs (st\<lparr>dg_running := AList.delete name (dg_running st), dg_completed := dg_completed st @ [name],
    dg_state := (dg_state st)(name \<mapsto> v)\<rparr>)"
proof -
  let ?st = "st\<lparr>dg_running := AList.delete name (dg_running st), dg_completed := dg_completed st @ [name], dg_state := (dg_state st)(name \<mapsto> v)\<rparr>"
  have names: "names_ok nodes st" using ok by (simp add: dag_ok_def)
  have n: "names_ok nodes ?st" by (rule names_ok_moved [OF names j(3,1)]) simp_all
  have facts: "dom (dg_state st) = dom inputs \<union> set (dg_completed st)" "\<forall>n\<in>set (dg_completed st). solved nodes (dg_state st) n"
    "\<forall>k. k \<notin> set (dg_completed st) \<longrightarrow> dg_state st k = inputs k" "ordered nodes (dom inputs) (dg_completed st)"
    using ok j(1) unfolding dag_ok_def by blast+
  have new: "dg_state st name = None"
    using facts(1) names_delete(2,3) [OF names j(3)] disj by (metis Un_iff disjoint_iff domIff)
  have deps: "\<forall>d\<in>set (dn_dependencies node). dg_state st d \<noteq> None" "args = map (\<lambda>d. the (dg_state st d)) (dn_dependencies node)"
    using ok j(2,3) unfolding dag_ok_def by (metis option.inject)+
  have same: "map (\<lambda>d. the (((dg_state st)(name \<mapsto> v)) d)) (dn_dependencies m) = map (\<lambda>d. the (dg_state st d)) (dn_dependencies m)"
    if "\<forall>d\<in>set (dn_dependencies m). dg_state st d \<noteq> None" for m using that new by (auto simp: map_eq_conv)
  have keep: "solved nodes ((dg_state st)(name \<mapsto> v)) n" if old: "solved nodes (dg_state st) n" for n
  proof -
    obtain m w where m: "map_of nodes n = Some m" "\<forall>d\<in>set (dn_dependencies m). dg_state st d \<noteq> None"
      "dn_handler m (map (\<lambda>d. the (dg_state st d)) (dn_dependencies m)) = Inr w" "dg_state st n = Some w"
      using old unfolding solved_def by blast
    have "dn_handler m (map (\<lambda>d. the (((dg_state st)(name \<mapsto> v)) d)) (dn_dependencies m)) = Inr w"
      using m(3) unfolding same [OF m(2)] .
    then show ?thesis unfolding solved_def using m(1,2,4) new by (intro exI [of _ m] exI [of _ w]) auto
  qed
  have "dn_handler node (map (\<lambda>d. the (((dg_state st)(name \<mapsto> v)) d)) (dn_dependencies node)) = Inr v"
    using Inr deps(2) unfolding same [OF deps(1)] by simp
  then have "solved nodes ((dg_state st)(name \<mapsto> v)) name"
    using j(2) deps(1) unfolding solved_def by (intro exI [of _ node] exI [of _ v]) auto
  moreover have "set (dn_dependencies node) \<subseteq> dom inputs \<union> set (dg_completed st)" using deps(1) facts(1) by blast
  moreover have "\<exists>node. map_of nodes n = Some node \<and> (\<forall>d\<in>set (dn_dependencies node). ((dg_state st)(name \<mapsto> v)) d \<noteq> None) \<and>
      (\<forall>xs. a = Some xs \<longrightarrow> xs = map (\<lambda>d. the (((dg_state st)(name \<mapsto> v)) d)) (dn_dependencies node))"
    if run: "map_of (dg_running st) n = Some a" for n a
  proof -
    obtain m where m: "map_of nodes n = Some m" "\<forall>d\<in>set (dn_dependencies m). dg_state st d \<noteq> None"
      "\<forall>xs. a = Some xs \<longrightarrow> xs = map (\<lambda>d. the (dg_state st d)) (dn_dependencies m)"
      using ok run unfolding dag_ok_def by blast
    have "\<forall>xs. a = Some xs \<longrightarrow> xs = map (\<lambda>d. the (((dg_state st)(name \<mapsto> v)) d)) (dn_dependencies m)"
      using m(3) unfolding same [OF m(2)] .
    then show ?thesis using m(1,2) by (intro exI [of _ m]) auto
  qed
  ultimately show ?thesis
    using n facts keep j(2) unfolding dag_ok_def by (simp add: delete_conv' ordered_snoc)
qed

lemma dag_ok_exec:
  assumes ok: "dag_ok nodes inputs st" and disj: "fst ` set nodes \<inter> dom inputs = {}" and ex: "dag_exec msg nodes e st = Some st'"
  shows "dag_ok nodes inputs st'"
proof (cases e)
  case (Read_args name)
  then obtain node where r: "dg_result st = None" "map_of nodes name = Some node" "map_of (dg_running st) name = Some None"
    "st' = st\<lparr>dg_running := AList.update name (Some (task_args node (dg_state st))) (dg_running st)\<rparr>"
    using ex dag_exec_read by metis
  have keys: "map fst (dg_running st') = map fst (dg_running st)"
    using map_of_SomeD [OF r(3)] by (force simp: r(4) update_keys)
  then have "fst ` set (dg_running st') = fst ` set (dg_running st)" by (metis set_map)
  then have "names_ok nodes st'" using ok keys unfolding dag_ok_def names_ok_def by (simp add: r(4))
  moreover have "\<forall>d\<in>set (dn_dependencies node). dg_state st d \<noteq> None"
    using ok r(2,3) unfolding dag_ok_def by (metis option.inject)
  ultimately show ?thesis using ok r task_args_all [of node "dg_state st"] unfolding dag_ok_def
    by (simp add: update_conv') 
next
  case (Join name)
  obtain node args where j: "dg_result st = None" "map_of nodes name = Some node" "map_of (dg_running st) name = Some (Some args)"
    and st': "case dn_handler node args of
       Inr v \<Rightarrow> st' = dag_turn msg nodes (st\<lparr>dg_running := AList.delete name (dg_running st),
         dg_completed := dg_completed st @ [name], dg_state := (dg_state st)(name \<mapsto> v)\<rparr>)
     | Inl e \<Rightarrow> st' = st\<lparr>dg_running := AList.delete name (dg_running st), dg_completed := dg_completed st @ [name],
         dg_result := Some (Inl (''Node '' @ name @ '' failed: '' @ e))\<rparr>"
    using ex unfolding Join by (rule dag_exec_join)
  have names: "names_ok nodes st" using ok by (simp add: dag_ok_def)
  show ?thesis
  proof (cases "dn_handler node args")
    case (Inl m)
    have "names_ok nodes st'" by (rule names_ok_moved [OF names j(3,1)]) (use Inl st' in simp_all)
    then show ?thesis using Inl ok st' unfolding dag_ok_def by (simp add: delete_conv')
  next
    case (Inr v)
    then show ?thesis using dag_ok_turn [OF dag_ok_joined [OF ok disj j Inr]] j(1) st' by simp
  qed
next
  case (Join_error name m)
  obtain a where a: "dg_result st = None" "map_of (dg_running st) name = Some a"
    "st' = st\<lparr>dg_running := AList.delete name (dg_running st), dg_result := Some (Inl (''Join error: '' @ m))\<rparr>"
    using ex unfolding Join_error by (rule dag_exec_join_error)
  have "names_ok nodes st" using ok unfolding dag_ok_def by blast
  then have "names_ok nodes st'" by (rule names_ok_moved [OF _ a(2,1)]) (simp_all add: a(3))
  then show ?thesis using ok unfolding dag_ok_def by (simp add: a(3) delete_conv')
qed

lemma dag_run_ok:
  assumes "dag_run msg nodes inputs es = Some st" and "distinct (map fst nodes)" and "fst ` set nodes \<inter> dom inputs = {}"
  shows "dag_ok nodes inputs st"
  by (rule fold_opt_invariant [OF assms(1)]) (use dag_ok_start dag_ok_exec assms(2,3) in blast)+

section \<open>Progress\<close>

text \<open>Every event reads the arguments of a task or ends one.\<close>

definition dag_work :: "'v dag_state \<Rightarrow> nat" where
  "dag_work st = 2 * length (dg_pending st) + (\<Sum>(_, a)\<leftarrow>dg_running st. if a = None then 2 else 1)"

lemma dag_work_turn: "dag_work (dag_turn msg nodes st) = dag_work st"
proof -
  have "2 * length (filter (\<lambda>n. \<not> P n) ns) + (\<Sum>(_, a)\<leftarrow>map (\<lambda>n. (n, None)) (filter P ns). if a = None then 2 else 1) = 2 * length ns"
    for P and ns :: "string list"
    by (induction ns) auto
  from this [of "can_run nodes (dg_state st)" "dg_pending st"] show ?thesis by (auto simp: dag_work_def dag_turn_def Let_def)
qed

lemma work_update:
  assumes "map_of al name = Some None" and "distinct (map fst al)"
  shows "(\<Sum>(_, a)\<leftarrow>AList.update name (Some x) al. if a = None then 2 else 1 :: nat) + 1 = (\<Sum>(_, a)\<leftarrow>al. if a = None then 2 else 1)"
  using assms by (induction al) (auto split: if_splits)

lemma work_delete:
  assumes "map_of al name = Some a" and "distinct (map fst al)"
  shows "(\<Sum>(_, a)\<leftarrow>AList.delete name al. if a = None then 2 else 1 :: nat) < (\<Sum>(_, a)\<leftarrow>al. if a = None then 2 else 1)"
  using assms
proof (induction al)
  case (Cons kv al)
  obtain k v where kv: "kv = (k, v)" by (cases kv)
  show ?case
  proof (cases "k = name")
    case True
    then have "AList.delete name al = al" using Cons.prems by (force simp: kv AList.delete_eq filter_id_conv)
    then show ?thesis using True by (auto simp: kv AList.delete_eq)
  next
    case False
    then show ?thesis using Cons by (auto simp: kv AList.delete_eq)
  qed
qed simp

lemma dag_work_decreases:
  assumes "dag_exec msg nodes e st = Some st'" and "names_ok nodes st"
  shows "dag_work st' < dag_work st"
proof -
  have d: "distinct (map fst (dg_running st))" using assms(2) by (simp add: names_ok_def)
  show ?thesis
  proof (cases e)
    case (Read_args name)
    obtain node where "map_of (dg_running st) name = Some None"
      "st' = st\<lparr>dg_running := AList.update name (Some (task_args node (dg_state st))) (dg_running st)\<rparr>"
      using assms(1) unfolding Read_args by (rule dag_exec_read)
    then show ?thesis using work_update [OF _ d, of name "task_args node (dg_state st)"] by (simp add: dag_work_def)
  next
    case (Join name)
    then obtain a where a: "map_of (dg_running st) name = Some a" using assms(1) by (auto split: option.splits)
    have "dag_work st' = 2 * length (dg_pending st) + (\<Sum>(_, a)\<leftarrow>AList.delete name (dg_running st). if a = None then 2 else 1)"
      using assms(1) Join dag_work_turn [of msg nodes, unfolded dag_work_def]
      by (auto simp: Let_def dag_work_def split: option.splits sum.splits)
    then show ?thesis using work_delete [OF a d] by (simp add: dag_work_def)
  next
    case (Join_error name m)
    then show ?thesis using assms(1) work_delete [OF _ d, of name] by (auto simp: dag_work_def split: option.splits)
  qed
qed

text \<open>While there is no result some task is running, and it can read its arguments or return; a run that ended well has no work left.\<close>

definition waiting :: "'v dag_state \<Rightarrow> bool" where
  "waiting st \<longleftrightarrow> (dg_result st = None \<longrightarrow> dg_running st \<noteq> []) \<and>
     (dg_result st = Some (Inr ()) \<longrightarrow> dg_pending st = [] \<and> dg_running st = [])"

lemma waiting_turn: "dg_result st = None \<Longrightarrow> waiting (dag_turn msg nodes st)"
  by (frule turn_cases [where msg = msg and nodes = nodes]) (auto simp: waiting_def)

lemma waiting_exec: "waiting st \<Longrightarrow> dag_exec msg nodes e st = Some st' \<Longrightarrow> waiting st'"
proof (cases e)
  case (Read_args name)
  assume "waiting st" "dag_exec msg nodes e st = Some st'"
  then show ?thesis using Read_args by (auto simp: waiting_def split: option.splits)
next
  case (Join name)
  assume "waiting st" "dag_exec msg nodes e st = Some st'"
  then show ?thesis using Join by (auto simp: Let_def waiting_def waiting_turn [unfolded waiting_def] split: option.splits sum.splits)
next
  case (Join_error name m)
  assume "waiting st" "dag_exec msg nodes e st = Some st'"
  then show ?thesis using Join_error by (auto simp: waiting_def split: option.splits)
qed

lemma dag_progress:
  assumes "dag_ok nodes inputs st" and "waiting st" and "dg_result st = None"
  shows "\<exists>e st'. (\<forall>n m. e \<noteq> Join_error n m) \<and> dag_exec msg nodes e st = Some st'"
proof -
  obtain name a rest where run: "dg_running st = (name, a) # rest" using assms(2,3) by (cases "dg_running st") (auto simp: waiting_def)
  then have m: "map_of (dg_running st) name = Some a" by simp
  then obtain node where node: "map_of nodes name = Some node" using assms(1) unfolding dag_ok_def by blast
  show ?thesis
  proof (cases a)
    case None
    then have "\<exists>st'. dag_exec msg nodes (Read_args name) st = Some st'" using assms(3) m node by simp
    then show ?thesis by blast
  next
    case (Some args)
    then have "\<exists>st'. dag_exec msg nodes (Join name) st = Some st'" using assms(3) m node by (simp add: Let_def split: sum.splits)
    then show ?thesis by blast
  qed
qed

lemma dag_run_facts:
  assumes "dag_run msg nodes inputs es = Some st" and "distinct (map fst nodes)" and "fst ` set nodes \<inter> dom inputs = {}"
  shows "waiting st" and "length es + dag_work st \<le> 2 * length nodes"
proof -
  show "waiting st"
    by (rule fold_opt_invariant [OF assms(1)]) (auto simp: dag_start_def intro: waiting_turn waiting_exec)
  show "length es + dag_work st \<le> 2 * length nodes" using assms(1)
  proof (induction es arbitrary: st rule: rev_induct)
    case Nil
    then show ?case by (auto simp: dag_start_def dag_work_turn) (simp add: dag_work_def)
  next
    case (snoc e es)
    then obtain st0 where st0: "dag_run msg nodes inputs es = Some st0" "dag_exec msg nodes e st0 = Some st"
      by (auto simp: fold_opt_append split: bind_splits)
    have "names_ok nodes st0" using dag_run_ok [OF st0(1) assms(2,3)] by (simp add: dag_ok_def)
    then show ?case using snoc.IH [OF st0(1)] dag_work_decreases [OF st0(2)] by simp
  qed
qed

section \<open>Properties\<close>

text \<open>The names that the inputs and the nodes can provide.\<close>

inductive_set derivable :: "'v dag \<Rightarrow> (string \<rightharpoonup> 'v) \<Rightarrow> string set" for nodes inputs where
  derivable_input: "inputs k \<noteq> None \<Longrightarrow> k \<in> derivable nodes inputs"
| derivable_node: "map_of nodes n = Some node \<Longrightarrow> (\<And>d. d \<in> set (dn_dependencies node) \<Longrightarrow> d \<in> derivable nodes inputs) \<Longrightarrow>
    n \<in> derivable nodes inputs"

lemma ordered_derivable:
  assumes "ordered nodes seen ns" and "seen \<subseteq> derivable nodes inputs"
  shows "set ns \<subseteq> derivable nodes inputs"
  using assms
proof (induction nodes seen ns rule: ordered.induct)
  case (2 nodes seen n ns)
  then have "n \<in> derivable nodes inputs" by (auto split: option.splits intro: derivable_node)
  then show ?case using 2 by auto
qed simp

text \<open>A completed node has the same value in any two solutions that agree on the inputs.\<close>

lemma ordered_unique:
  assumes "ordered nodes seen ns" and "\<forall>k\<in>seen. \<sigma> k = \<tau> k" and "\<forall>n\<in>set ns. solved nodes \<sigma> n \<and> solved nodes \<tau> n"
  shows "\<forall>n\<in>set ns. \<sigma> n = \<tau> n"
  using assms
proof (induction nodes seen ns rule: ordered.induct)
  case (2 nodes seen n ns)
  obtain node where node: "map_of nodes n = Some node" "set (dn_dependencies node) \<subseteq> seen" using 2(2) by (auto split: option.splits)
  then have eq: "map (\<lambda>d. the (\<sigma> d)) (dn_dependencies node) = map (\<lambda>d. the (\<tau> d)) (dn_dependencies node)" using 2(3) by auto
  obtain v where v: "dn_handler node (map (\<lambda>d. the (\<sigma> d)) (dn_dependencies node)) = Inr v" "\<sigma> n = Some v"
    using 2(4) node(1) unfolding solved_def by auto
  obtain w where w: "dn_handler node (map (\<lambda>d. the (\<tau> d)) (dn_dependencies node)) = Inr w" "\<tau> n = Some w"
    using 2(4) node(1) unfolding solved_def by auto
  have "\<sigma> n = \<tau> n" using v(1) unfolding eq w(1) using v(2) w(2) by simp
  then show ?case using 2 by auto
qed simp

lemma finished_completed:
  assumes "dag_ok nodes inputs st" and "waiting st" and "dg_result st = Some (Inr ())"
  shows "set (dg_completed st) = fst ` set nodes"
  using assms unfolding dag_ok_def names_ok_def waiting_def by auto


definition node_example :: "string \<Rightarrow> nat \<Rightarrow> string list \<Rightarrow> nat dag_node" where
  "node_example name k deps = \<lparr>dn_name = name, dn_handler = (\<lambda>args. Inr (k + sum_list args)), dn_dependencies = deps\<rparr>"

definition dag_example :: "nat dag" where
  "dag_example = dag_new [node_example ''a'' 1 [''x''], node_example ''b'' 2 [''x''], node_example ''c'' 3 [''a'', ''b'']]"

lemma dag_example_nodes: "dag_example =
    [(''a'', node_example ''a'' 1 [''x'']), (''b'', node_example ''b'' 2 [''x'']), (''c'', node_example ''c'' 3 [''a'', ''b''])]"
  by (simp add: dag_example_def dag_new_def node_example_def)

lemmas dag_example_simps = dag_example_nodes node_example_def dag_start_def dag_turn_def can_run_def task_args_def Let_def map_filter_def


text \<open>The execution of a task graph terminates. Every run has at most two events per node, and a run without a result can go on without
  an error of the runtime, so that every execution ends with values or an error.\<close>

theorem dag_execution_terminates:
  assumes "distinct (map fst nodes)" and "fst ` set nodes \<inter> dom inputs = {}" and "dag_run msg nodes inputs es = Some st"
  shows "length es \<le> 2 * length nodes \<and>
    (dg_result st = None \<longrightarrow> (\<exists>e st'. (\<forall>n m. e \<noteq> Join_error n m) \<and> dag_run msg nodes inputs (es @ [e]) = Some st'))"
proof -
  note f = dag_run_facts [OF assms(3,1,2)]
  have "\<exists>e st'. (\<forall>n m. e \<noteq> Join_error n m) \<and> dag_run msg nodes inputs (es @ [e]) = Some st'" if r: "dg_result st = None"
  proof -
    obtain e st' where "\<forall>n m. e \<noteq> Join_error n m" "dag_exec msg nodes e st = Some st'"
      using dag_progress [OF dag_run_ok [OF assms(3,1,2)] f(1) r, of msg] by blast
    then show ?thesis using assms(3) by (intro exI [of _ e] exI [of _ st']) (simp add: fold_opt_append)
  qed
  then show ?thesis using f(2) by simp
qed

theorem dag_execution_terminates_witness:
  "\<exists>e st'. dag_run concat dag_example [''x'' \<mapsto> 5] ([Read_args ''a''] @ [e]) = Some st'"
proof -
  obtain st where st: "dag_run concat dag_example [''x'' \<mapsto> 5] [Read_args ''a''] = Some st" "dg_result st = None"
    by (simp add: dag_example_simps)
  have "distinct (map fst dag_example)" "fst ` set dag_example \<inter> dom [''x'' \<mapsto> 5] = {}" by (auto simp: dag_example_nodes)
  from dag_execution_terminates [OF this st(1)] st(2) show ?thesis by blast
qed

lemma turn_origin:
  assumes "dag_run msg nodes inputs es = Some st" and "dg_result st \<noteq> None"
    and "distinct (map fst nodes)" and "fst ` set nodes \<inter> dom inputs = {}"
    and "\<forall>node\<in>snd ` set nodes. \<forall>args. \<exists>v. dn_handler node args = Inr v" and "\<forall>n m. Join_error n m \<notin> set es"
  shows "\<exists>st1. dag_ok nodes inputs st1 \<and> dg_result st1 = None \<and> st = dag_turn msg nodes st1"
proof (cases es rule: rev_cases)
  case Nil
  then have "st = dag_start msg nodes inputs" using assms(1) by simp
  then show ?thesis using dag_ok_init [OF assms(3), of inputs] unfolding dag_start_def by fastforce
next
  case (snoc es0 e)
  then obtain st0 where st0: "dag_run msg nodes inputs es0 = Some st0" "dag_exec msg nodes e st0 = Some st"
    using assms(1) by (auto simp: fold_opt_append split: bind_splits)
  note ok = dag_run_ok [OF st0(1) assms(3,4)]
  show ?thesis
  proof (cases e)
    case (Read_args name)
    then show ?thesis using st0(2) assms(2) by (auto split: option.splits)
  next
    case (Join name)
    obtain node args where j: "dg_result st0 = None" "map_of nodes name = Some node" "map_of (dg_running st0) name = Some (Some args)"
      and st: "case dn_handler node args of
       Inr v \<Rightarrow> st = dag_turn msg nodes (st0\<lparr>dg_running := AList.delete name (dg_running st0),
         dg_completed := dg_completed st0 @ [name], dg_state := (dg_state st0)(name \<mapsto> v)\<rparr>)
     | Inl e \<Rightarrow> st = st0\<lparr>dg_running := AList.delete name (dg_running st0), dg_completed := dg_completed st0 @ [name],
         dg_result := Some (Inl (''Node '' @ name @ '' failed: '' @ e))\<rparr>"
      using st0(2) unfolding Join by (rule dag_exec_join)
    have "node \<in> snd ` set nodes" using map_of_SomeD [OF j(2)] by force
    then obtain v where v: "dn_handler node args = Inr v" using assms(5) by blast
    then show ?thesis using dag_ok_joined [OF ok assms(4) j v] j(1) st by auto
  next
    case (Join_error name m)
    then show ?thesis using assms(6) snoc by auto
  qed
qed

text \<open>A deadlock is reported exactly when the graph cannot be completed. If no handler and no task fails, an execution that has ended
  ended well if and only if every node can be derived from the inputs, that is, its dependencies exist and are not cyclic.\<close>

theorem dag_deadlock_iff_underivable:
  assumes "dag_run msg nodes inputs es = Some st" and "dg_result st = Some r"
    and "distinct (map fst nodes)" and "fst ` set nodes \<inter> dom inputs = {}"
    and "\<forall>node\<in>snd ` set nodes. \<forall>args. \<exists>v. dn_handler node args = Inr v" and "\<forall>n m. Join_error n m \<notin> set es"
  shows "r = Inr () \<longleftrightarrow> fst ` set nodes \<subseteq> derivable nodes inputs"
proof -
  obtain st1 where st1: "dag_ok nodes inputs st1" "dg_result st1 = None" "st = dag_turn msg nodes st1"
    using turn_origin [OF assms(1) _ assms(3-6)] assms(2) by auto
  have facts: "dom (dg_state st1) = dom inputs \<union> set (dg_completed st1)" "ordered nodes (dom inputs) (dg_completed st1)"
    "names_ok nodes st1" using st1(1,2) unfolding dag_ok_def by blast+
  have completed: "set (dg_completed st1) \<subseteq> derivable nodes inputs"
    by (rule ordered_derivable [OF facts(2)]) (auto intro: derivable_input)
  from st1(2) show ?thesis
  proof (cases rule: turn_cases [where msg = msg and nodes = nodes])
    case finished
    then have "fst ` set nodes \<subseteq> set (dg_completed st1)" using facts(3) st1(2) unfolding names_ok_def by auto
    then show ?thesis using finished(3) st1(3) assms(2) completed by auto
  next
    case waits
    then show ?thesis using st1(2,3) assms(2) by simp
  next
    case (stuck m)
    then obtain n where n: "n \<in> set (dg_pending st1)" by (cases "dg_pending st1") auto
    have "k \<in> dom (dg_state st1)" if "k \<in> derivable nodes inputs" for k
      using that
    proof induction
      case (derivable_input k)
      then show ?case using facts(1) by auto
    next
      case (derivable_node k node)
      then have "can_run nodes (dg_state st1) k" by (auto simp: can_run_def list_all_iff)
      moreover have "k \<in> fst ` set nodes" using map_of_SomeD [OF derivable_node(1)] by force
      ultimately show ?case using stuck(1,3) facts(1,3) st1(2) unfolding names_ok_def by auto
    qed
    moreover have "n \<in> fst ` set nodes" "n \<notin> set (dg_completed st1)" using n facts(3) unfolding names_ok_def by auto
    moreover from this have "n \<notin> dom (dg_state st1)" using facts(1) assms(4) by auto
    ultimately show ?thesis using stuck(4) st1(3) assms(2) by auto
  qed
qed

definition cyclic_example :: "nat dag" where
  "cyclic_example = [(''a'', node_example ''a'' 1 [''b'']), (''b'', node_example ''b'' 2 [''a''])]"

theorem dag_deadlock_iff_underivable_witness:
  "\<exists>m. dg_result (dag_start concat cyclic_example Map.empty) = Some (Inl m) \<and> \<not> fst ` set cyclic_example \<subseteq> derivable cyclic_example Map.empty"
proof -
  obtain m where m: "dg_result (dag_start concat cyclic_example Map.empty) = Some (Inl m)"
    by (simp add: cyclic_example_def node_example_def dag_start_def dag_turn_def can_run_def Let_def)
  have "distinct (map fst cyclic_example)" "fst ` set cyclic_example \<inter> dom (Map.empty :: string \<rightharpoonup> nat) = {}"
    "\<forall>node\<in>snd ` set cyclic_example. \<forall>args. \<exists>v. dn_handler node args = Inr v" "\<forall>n m. Join_error n m \<notin> set []"
    by (simp_all add: cyclic_example_def node_example_def)
  from dag_deadlock_iff_underivable [where es = "[]", OF _ m this] m show ?thesis by auto
qed

text \<open>An input with the name of a node makes the result depend on the schedule: the dependent task may read the input or the node's value.\<close>

lemma shadowed_node_races:
  "\<exists>st st'. dag_run concat [(''a'', node_example ''a'' 1 []), (''b'', node_example ''b'' 0 [''a''])] [''a'' \<mapsto> 7]
       [Read_args ''b'', Read_args ''a'', Join ''a'', Join ''b''] = Some st \<and> dg_state st ''b'' = Some 7 \<and>
     dag_run concat [(''a'', node_example ''a'' 1 []), (''b'', node_example ''b'' 0 [''a''])] [''a'' \<mapsto> 7]
       [Read_args ''a'', Join ''a'', Read_args ''b'', Join ''b''] = Some st' \<and> dg_state st' ''b'' = Some 1"
  by (simp add: dag_example_simps)

end
