(* ===== verification/Responses.thy ===== *)
theory Responses
  imports Validate
begin

text \<open>
  The response builders of \<^verbatim>\<open>crates/justapi-core/src/lib.rs\<close> and the typed errors of \<^verbatim>\<open>src/error.rs\<close>.

  \<^item> The serialiser of JSON values is the parameter \<open>print\<close>.
  \<^item> Of a database error the code inspects the kind and, for an error of the database itself, its code.

  The lemmas show that the status line of an error response agrees with the status in its body
  and which errors tell the client when to try again.
\<close>

section \<open>Response builders\<close>

definition ascii_lower :: "string \<Rightarrow> string" where
  "ascii_lower s = map (\<lambda>c. let n = (of_char c :: nat) in if 65 \<le> n \<and> n \<le> 90 then char_of (n + 32) else c) s"

definition json_response :: "nat \<Rightarrow> string \<Rightarrow> http_response" where
  "json_response status body =
     \<lparr>rp_status = status, rp_headers = [(''content-type'', ''application/json''), (''content-length'', nat_str (length body))], rp_body = body\<rparr>"

text \<open>\<open>title.to_lowercase().replace(' ', "-")\<close>.\<close>

definition error_type :: "string \<Rightarrow> string" where
  "error_type title = ''https://justapi.dev/errors/'' @ map (\<lambda>c. if c = CHR '' '' then CHR ''-'' else c) (ascii_lower title)"

definition status_titles :: "(nat \<times> string) list" where
  "status_titles =
     [(400, ''Bad Request''), (401, ''Unauthorized''), (403, ''Forbidden''), (404, ''Not Found''), (405, ''Method Not Allowed''),
      (413, ''Payload Too Large''), (422, ''Unprocessable Entity''), (429, ''Too Many Requests''), (500, ''Internal Server Error''),
      (502, ''Bad Gateway''), (503, ''Service Unavailable''), (504, ''Gateway Timeout'')]"

definition problem_title :: "nat \<Rightarrow> string" where
  "problem_title status = (case map_of status_titles status of Some t \<Rightarrow> t | None \<Rightarrow> ''Error'')"

definition error_response :: "(json \<Rightarrow> string) \<Rightarrow> nat \<Rightarrow> string \<Rightarrow> http_response" where
  "error_response print status detail =
     (let title = problem_title status
      in json_response status (print (JObject
           [(''type'', JString (error_type title)), (''title'', JString title), (''status'', JNumber (int status)),
            (''detail'', JString detail)])))"

definition validation_response :: "(json \<Rightarrow> string) \<Rightarrow> string \<Rightarrow> http_response" where
  "validation_response print detail = error_response print 422 detail"

definition service_unavailable_response :: "(json \<Rightarrow> string) \<Rightarrow> string \<Rightarrow> http_response" where
  "service_unavailable_response print detail =
     (let body = print (JObject
        [(''type'', JString ''https://justapi.dev/errors/service-unavailable''), (''title'', JString ''Service Unavailable''),
         (''status'', JNumber 503), (''detail'', JString detail)])
      in \<lparr>rp_status = 503,
          rp_headers = [(''content-type'', ''application/problem+json''), (''retry-after'', ''1''), (''content-length'', nat_str (length body))],
          rp_body = body\<rparr>)"

datatype db_error = Pool_timed_out | Pool_closed | Db_error "string option" | Other_db_error

definition lock_codes :: "string list" where
  "lock_codes = [''5'', ''6'', ''517'', ''518'', ''261'']"

fun db_error_response :: "(json \<Rightarrow> string) \<Rightarrow> db_error \<Rightarrow> http_response" where
  "db_error_response print Pool_timed_out = service_unavailable_response print ''database pool saturated; please retry shortly''"
| "db_error_response print Pool_closed = service_unavailable_response print ''database pool saturated; please retry shortly''"
| "db_error_response print (Db_error code) =
     (if (case code of Some c \<Rightarrow> c | None \<Rightarrow> []) \<in> set lock_codes
      then service_unavailable_response print ''database is locked; please retry shortly''
      else error_response print 500 ''database error'')"
| "db_error_response print Other_db_error = error_response print 500 ''database error''"

text \<open>The body of a streaming response is what the stream yields to its end.\<close>

definition streaming_response :: "nat \<Rightarrow> string \<Rightarrow> string list \<Rightarrow> http_response" where
  "streaming_response status ctype chunks = \<lparr>rp_status = status, rp_headers = [(''content-type'', ctype)], rp_body = concat chunks\<rparr>"

section \<open>Typed errors\<close>

datatype core_error =
  Validation_error string "field_error list"
| Route_not_found string string
| Method_not_allowed string
| Auth_error string
| Forbidden_error string
| Rate_limited nat
| Payload_too_large nat nat
| Upstream string
| Config_error string
| Internal_error string
| Service_unavailable string
| Gateway_timeout nat
| Other_error string

fun status_code :: "core_error \<Rightarrow> nat" where
  "status_code (Validation_error _ _) = 422"
| "status_code (Route_not_found _ _) = 404"
| "status_code (Method_not_allowed _) = 405"
| "status_code (Auth_error _) = 401"
| "status_code (Forbidden_error _) = 403"
| "status_code (Rate_limited _) = 429"
| "status_code (Payload_too_large _ _) = 413"
| "status_code (Upstream _) = 502"
| "status_code (Config_error _) = 500"
| "status_code (Internal_error _) = 500"
| "status_code (Service_unavailable _) = 503"
| "status_code (Gateway_timeout _) = 504"
| "status_code (Other_error _) = 500"

fun core_title :: "core_error \<Rightarrow> string" where
  "core_title (Validation_error _ _) = ''Validation Error''"
| "core_title (Route_not_found _ _) = ''Not Found''"
| "core_title (Method_not_allowed _) = ''Method Not Allowed''"
| "core_title (Auth_error _) = ''Unauthorized''"
| "core_title (Forbidden_error _) = ''Forbidden''"
| "core_title (Rate_limited _) = ''Too Many Requests''"
| "core_title (Payload_too_large _ _) = ''Payload Too Large''"
| "core_title (Upstream _) = ''Bad Gateway''"
| "core_title (Config_error _) = ''Internal Server Error''"
| "core_title (Internal_error _) = ''Internal Server Error''"
| "core_title (Service_unavailable _) = ''Service Unavailable''"
| "core_title (Gateway_timeout _) = ''Gateway Timeout''"
| "core_title (Other_error _) = ''Internal Server Error''"

fun core_display :: "core_error \<Rightarrow> string" where
  "core_display (Validation_error detail _) = ''validation failed: '' @ detail"
| "core_display (Route_not_found method path) = ''route not found: '' @ method @ '' '' @ path"
| "core_display (Method_not_allowed method) = ''method not allowed: '' @ method"
| "core_display (Auth_error reason) = ''unauthorized: '' @ reason"
| "core_display (Forbidden_error reason) = ''forbidden: '' @ reason"
| "core_display (Rate_limited secs) = ''rate limited, retry after '' @ nat_str secs @ ''s''"
| "core_display (Payload_too_large sz mx) = ''request body too large: '' @ nat_str sz @ '' bytes (max '' @ nat_str mx @ '')''"
| "core_display (Upstream s) = ''upstream error: '' @ s"
| "core_display (Config_error s) = ''configuration error: '' @ s"
| "core_display (Internal_error s) = ''internal error: '' @ s"
| "core_display (Service_unavailable s) = ''service unavailable: '' @ s"
| "core_display (Gateway_timeout ms) = ''gateway timeout after '' @ nat_str ms @ ''ms''"
| "core_display (Other_error s) = s"

definition problem_fields :: "core_error \<Rightarrow> (string \<times> json) list" where
  "problem_fields e =
     [(''type'', JString (error_type (core_title e))), (''title'', JString (core_title e)),
      (''status'', JNumber (int (status_code e))), (''detail'', JString (core_display e))] @
     (case e of
        Validation_error _ errors \<Rightarrow>
          [(''errors'', JArray (map (\<lambda>x. JObject [(''field'', JString (fe_field x)), (''message'', JString (fe_message x))]) errors))]
      | Rate_limited secs \<Rightarrow> [(''retry_after'', JNumber (int secs))]
      | _ \<Rightarrow> [])"

definition to_problem_json :: "(json \<Rightarrow> string) \<Rightarrow> core_error \<Rightarrow> string" where
  "to_problem_json print e = print (JObject (problem_fields e))"

text \<open>The joined text of the conversion is that of \<open>ValidationError\<close> itself.\<close>

definition from_validation_error :: "validation_error \<Rightarrow> core_error" where
  "from_validation_error e = Validation_error (verr_display e) (ve_errors e)"

definition core_into_response :: "(json \<Rightarrow> string) \<Rightarrow> core_error \<Rightarrow> http_response" where
  "core_into_response print e =
     (let body = to_problem_json print e
      in \<lparr>rp_status = status_code e,
          rp_headers =
            [(''content-type'', ''application/problem+json''), (''content-length'', nat_str (length body))] @
            (case e of
               Rate_limited secs \<Rightarrow> [(''retry-after'', nat_str secs)]
             | Service_unavailable _ \<Rightarrow> [(''retry-after'', ''1'')]
             | _ \<Rightarrow> []),
          rp_body = body\<rparr>)"

section \<open>Lemmas\<close>

lemma json_response_status [simp]: "rp_status (json_response s b) = s" "rp_body (json_response s b) = b"
  by (simp_all add: json_response_def)

lemma error_response_status [simp]: "rp_status (error_response print s d) = s"
  by (simp add: error_response_def Let_def)

lemma core_title_eq: "core_title e = (case e of Validation_error _ _ \<Rightarrow> ''Validation Error'' | _ \<Rightarrow> problem_title (status_code e))"
  by (cases e) (simp_all add: problem_title_def status_titles_def)

lemma retry_after_only_503:
  "hdr_get (rp_headers (db_error_response print e)) ''retry-after'' = (if rp_status (db_error_response print e) = 503 then Some ''1'' else None)"
  by (cases "(print, e)" rule: db_error_response.cases)
    (auto simp: service_unavailable_response_def error_response_def json_response_def hdr_get_def Let_def)

section \<open>Properties\<close>

text \<open>The response to a typed error is an error response whose status line, body and headers agree: the body is the problem
  document with the same status, the title and detail of the error, its declared length is that of the body, and the
  client is told when to retry exactly for rate limits, with their delay, and for unavailability.\<close>

theorem core_error_response_consistent:
  "case core_into_response print e of resp \<Rightarrow>
     400 \<le> rp_status resp \<and> rp_status resp \<le> 504 \<and>
     rp_body resp = print (JObject (problem_fields e)) \<and>
     json_get (JObject (problem_fields e)) ''status'' = Some (JNumber (int (rp_status resp))) \<and>
     json_get (JObject (problem_fields e)) ''detail'' = Some (JString (core_display e)) \<and>
     hdr_get (rp_headers resp) ''content-length'' = Some (nat_str (length (rp_body resp))) \<and>
     hdr_get (rp_headers resp) ''retry-after'' =
       (case e of Rate_limited secs \<Rightarrow> Some (nat_str secs) | Service_unavailable _ \<Rightarrow> Some ''1'' | _ \<Rightarrow> None)"
  by (cases e) (simp_all add: core_into_response_def to_problem_json_def problem_fields_def hdr_get_def Let_def)

end
