(* ===== verification/Xml.thy ===== *)
theory Xml
  imports Responses
begin

text \<open>
  XML requests and responses: \<^verbatim>\<open>crates/justapi-core/src/xml.rs\<close>.

  \<^item> The conversion of a document to JSON is a machine over the events of the \<open>quick_xml\<close> reader, with a stack of open elements and
    a text buffer. The reader, \<open>unescape\<close> and the float parser of the standard library are parameters; panics are \<open>None\<close>.
  \<^item> Content negotiation and the two response constructors; the serialisers are parameters.

  The lemmas show that the machine computes, for a document whose elements contain either text or elements, the value the
  documentation describes, that text in front of a child element is lost, and that an empty root element is rejected.
\<close>

section \<open>Content negotiation and responses\<close>

datatype format = Json | Xml

fun content_type :: "format \<Rightarrow> string" where
  "content_type Json = ''application/json''"
| "content_type Xml = ''application/xml''"

definition negotiate :: "string option \<Rightarrow> string option \<Rightarrow> format" where
  "negotiate ctype accept =
     (let accept = ascii_lower (case accept of Some a \<Rightarrow> a | None \<Rightarrow> []);
          ct = ascii_lower (case ctype of Some c \<Rightarrow> c | None \<Rightarrow> [])
      in if str_contains accept ''application/xml'' \<or> str_contains accept ''text/xml'' then Xml
         else if accept = [] \<and> (str_contains ct ''application/xml'' \<or> str_contains ct ''text/xml'') then Xml
         else Json)"

definition xml_response :: "nat \<Rightarrow> string \<Rightarrow> http_response" where
  "xml_response status body =
     \<lparr>rp_status = status, rp_headers = [(''content-type'', ''application/xml''), (''content-length'', nat_str (length body))],
      rp_body = body\<rparr>"

definition to_xml_string :: "(string \<Rightarrow> 'a \<Rightarrow> string + string) \<Rightarrow> string \<Rightarrow> 'a \<Rightarrow> string + string" where
  "to_xml_string se root v =
     (case se root v of Inl e \<Rightarrow> Inl (''xml serialization failed: '' @ e) | Inr s \<Rightarrow> Inr s)"

record 'a xml_response_builder =
  xr_root :: string
  xr_data :: 'a
  xr_status :: nat
  xr_headers :: header_map

definition xml_builder_new :: "string \<Rightarrow> 'a \<Rightarrow> 'a xml_response_builder" where
  "xml_builder_new root data = \<lparr>xr_root = root, xr_data = data, xr_status = 200, xr_headers = []\<rparr>"

definition xr_with_status :: "nat \<Rightarrow> 'a xml_response_builder \<Rightarrow> 'a xml_response_builder" where
  "xr_with_status status b = b\<lparr>xr_status := status\<rparr>"

text \<open>\<open>header_name\<close> is \<open>HeaderName::from_bytes\<close>.\<close>

definition xr_with_header :: "(string \<Rightarrow> string option) \<Rightarrow> string \<Rightarrow> string \<Rightarrow> 'a xml_response_builder \<Rightarrow> 'a xml_response_builder" where
  "xr_with_header header_name name v b =
     (case header_name name of Some h \<Rightarrow> b\<lparr>xr_headers := xr_headers b @ [(h, v)]\<rparr> | None \<Rightarrow> b)"

definition xr_into_response :: "(string \<Rightarrow> 'a \<Rightarrow> string + string) \<Rightarrow> 'a xml_response_builder \<Rightarrow> string + http_response" where
  "xr_into_response se b =
     (case to_xml_string se (xr_root b) (xr_data b) of
        Inl e \<Rightarrow> Inl e
      | Inr body \<Rightarrow>
          Inr \<lparr>rp_status = xr_status b,
               rp_headers = [(''content-type'', ''application/xml''), (''content-length'', nat_str (length body))] @ xr_headers b,
               rp_body = body\<rparr>)"

definition respond ::
  "(json \<Rightarrow> string + string) \<Rightarrow> (string \<Rightarrow> json \<Rightarrow> string + string) \<Rightarrow> nat \<Rightarrow> string \<Rightarrow> json \<Rightarrow> format \<Rightarrow> string + http_response" where
  "respond to_vec se status root v fmt =
     (case fmt of
        Json \<Rightarrow>
          (case to_vec v of
             Inl e \<Rightarrow> Inl e
           | Inr body \<Rightarrow>
               Inr \<lparr>rp_status = status, rp_headers = [(''content-type'', ''application/json''), (''content-length'', nat_str (length body))],
                    rp_body = body\<rparr>)
      | Xml \<Rightarrow> (case to_xml_string se root v of Inl e \<Rightarrow> Inl e | Inr s \<Rightarrow> Inr (xml_response status s)))"

section \<open>From XML to JSON\<close>

type_synonym json_map = "(string \<times> json) list"

record xml_frame =
  xf_name :: string
  xf_obj :: json_map

datatype xml_event =
  Start string "(string \<times> string) list"
| Empty string "(string \<times> string) list"
| Text string
| CData string
| General_ref string
| End
| Eof
| Ignored
| Reader_error string

text \<open>\<open>parse_f64\<close> gives the JSON number of a finite float.\<close>

definition coerce :: "(string \<Rightarrow> json option) \<Rightarrow> string \<Rightarrow> json" where
  "coerce parse_f64 s =
     (case parse_int 64 s of
        Some n \<Rightarrow> JNumber n
      | None \<Rightarrow> (case parse_f64 s of Some v \<Rightarrow> v | None \<Rightarrow> JString s))"

definition attributes :: "(string \<Rightarrow> json option) \<Rightarrow> (string \<times> string) list \<Rightarrow> json_map" where
  "attributes parse_f64 attrs = fold (\<lambda>(k, v) obj. AList.update (CHR ''@'' # k) (coerce parse_f64 v) obj) attrs []"

definition insert_value :: "string \<Rightarrow> json \<Rightarrow> json_map \<Rightarrow> json_map" where
  "insert_value key v obj =
     (case map_of obj key of
        Some existing \<Rightarrow>
          AList.update key (JArray (case existing of JArray a \<Rightarrow> a @ [v] | other \<Rightarrow> [other, v])) (AList.delete key obj)
      | None \<Rightarrow> AList.update key v obj)"

text \<open>The top of the stack is the head of the list.\<close>

definition insert_child :: "xml_frame list \<Rightarrow> string \<Rightarrow> json \<Rightarrow> xml_frame list" where
  "insert_child stack key v =
     (case stack of
        [] \<Rightarrow> [\<lparr>xf_name = key, xf_obj = [(key, v)]\<rparr>]
      | frame # rest \<Rightarrow> frame\<lparr>xf_obj := insert_value key v (xf_obj frame)\<rparr> # rest)"

definition object_or_null :: "json_map \<Rightarrow> json" where
  "object_or_null obj = (if obj = [] then JNull else JObject obj)"

definition close_value :: "(string \<Rightarrow> json option) \<Rightarrow> string \<Rightarrow> json_map \<Rightarrow> json" where
  "close_value parse_f64 text obj =
     (let txt = trim_both is_space text;
          obj = (if txt \<noteq> [] then AList.update ''#text'' (coerce parse_f64 txt) obj else obj)
      in if obj = [] then JNull
         else case map_of obj ''#text'' of
           Some v \<Rightarrow> if length obj = 1 then v else JObject obj
         | None \<Rightarrow> JObject obj)"

fun xml_loop :: "(string \<Rightarrow> json option) \<Rightarrow> (string \<Rightarrow> string option) \<Rightarrow> xml_event list \<Rightarrow> xml_frame list \<Rightarrow> string \<Rightarrow> (string + json) option" where
  "xml_loop pf un (Start name attrs # es) stack text =
     xml_loop pf un es (\<lparr>xf_name = name, xf_obj = attributes pf attrs\<rparr> # stack) []"
| "xml_loop pf un (Empty name attrs # es) stack text =
     xml_loop pf un es (insert_child stack name (object_or_null (attributes pf attrs))) text"
| "xml_loop pf un (Text raw # es) stack text =
     xml_loop pf un es stack (text @ (case un raw of Some t \<Rightarrow> t | None \<Rightarrow> []))"
| "xml_loop pf un (CData t # es) stack text = xml_loop pf un es stack (text @ t)"
| "xml_loop pf un (General_ref raw # es) stack text = xml_loop pf un es stack (text @ raw)"
| "xml_loop pf un (End # es) stack text =
     (case stack of
        [] \<Rightarrow> None
      | frame # rest \<Rightarrow>
          (let v = close_value pf text (xf_obj frame)
           in if rest = [] then Some (Inr (JObject [(xf_name frame, v)]))
              else xml_loop pf un es (insert_child rest (xf_name frame) v) []))"
| "xml_loop pf un (Ignored # es) stack text = xml_loop pf un es stack text"
| "xml_loop pf un (Reader_error e # es) stack text = Some (Inl (''xml parse error: '' @ e))"
| "xml_loop pf un es stack text =
     (if stack = []
      then let t = trim_both is_space text in Some (Inr (if t = [] then JNull else coerce pf t))
      else Some (Inl ''xml parse failed: incomplete document''))"

text \<open>\<open>reader\<close> checks that the bytes are UTF-8 and gives the events of the document.\<close>

definition xml_to_json ::
  "(string \<Rightarrow> json option) \<Rightarrow> (string \<Rightarrow> string option) \<Rightarrow> (string \<Rightarrow> string + xml_event list) \<Rightarrow> string \<Rightarrow> (string + json) option" where
  "xml_to_json pf un reader bytes =
     (case reader bytes of Inl e \<Rightarrow> Some (Inl e) | Inr es \<Rightarrow> xml_loop pf un es [] [])"

section \<open>The meaning of a document\<close>

text \<open>Documents without mixed content: an element has child elements, or text in pieces, or is an empty-element tag.\<close>

datatype piece = Raw string | Section string

datatype xml_doc =
  Elem string "(string \<times> string) list" "xml_doc list"
| Leaf string "(string \<times> string) list" "piece list"
| Self string "(string \<times> string) list"

fun doc_name :: "xml_doc \<Rightarrow> string" where
  "doc_name (Elem n _ _) = n"
| "doc_name (Leaf n _ _) = n"
| "doc_name (Self n _) = n"

fun piece_event :: "piece \<Rightarrow> xml_event" where
  "piece_event (Raw t) = Text t"
| "piece_event (Section t) = CData t"

fun doc_events :: "xml_doc \<Rightarrow> xml_event list" where
  "doc_events (Elem n a cs) = Start n a # concat (map doc_events cs) @ [End]"
| "doc_events (Leaf n a ps) = Start n a # map piece_event ps @ [End]"
| "doc_events (Self n a) = [Empty n a]"

fun piece_text :: "(string \<Rightarrow> string option) \<Rightarrow> piece \<Rightarrow> string" where
  "piece_text un (Raw t) = (case un t of Some t \<Rightarrow> t | None \<Rightarrow> [])"
| "piece_text un (Section t) = t"

text \<open>The children by tag: one child is its value, several are an array in document order.\<close>

definition gather :: "json list \<Rightarrow> json option" where
  "gather vs = (case vs of [] \<Rightarrow> None | [v] \<Rightarrow> Some v | _ \<Rightarrow> Some (JArray vs))"

fun doc_value :: "(string \<Rightarrow> json option) \<Rightarrow> (string \<Rightarrow> string option) \<Rightarrow> xml_doc \<Rightarrow> json" where
  "doc_value pf un (Elem n a cs) =
     object_or_null (fold (\<lambda>(k, v). insert_value k v) (map (\<lambda>c. (doc_name c, doc_value pf un c)) cs) (attributes pf a))"
| "doc_value pf un (Leaf n a ps) =
     (let txt = trim_both is_space (concat (map (piece_text un) ps))
      in if txt = [] then object_or_null (attributes pf a)
         else if a = [] then coerce pf txt
         else JObject (attributes pf a @ [(''#text'', coerce pf txt)]))"
| "doc_value pf un (Self n a) = object_or_null (attributes pf a)"

text \<open>Tags are XML names, so none of them is the text key or an attribute key.\<close>

fun tags_ok :: "xml_doc \<Rightarrow> bool" where
  "tags_ok (Elem n a cs) \<longleftrightarrow> list_all (\<lambda>c. doc_name c \<noteq> ''#text'' \<and> hd (doc_name c) \<noteq> CHR ''@'' \<and> doc_name c \<noteq> [] \<and> tags_ok c) cs"
| "tags_ok _ \<longleftrightarrow> True"

section \<open>Lemmas\<close>

lemma attributes_keys: "k \<in> fst ` set (attributes pf a) \<Longrightarrow> \<exists>r. k = CHR ''@'' # r"
proof -
  have "fst ` set (fold (\<lambda>(k, v) obj. AList.update (CHR ''@'' # k) (coerce pf v) obj) a obj)
      \<subseteq> fst ` set obj \<union> {k. \<exists>r. k = CHR ''@'' # r}" for obj
  proof (induction a arbitrary: obj)
    case (Cons kv a)
    obtain k v where kv: "kv = (k, v)" by (cases kv)
    show ?case using Cons.IH [of "AList.update (CHR ''@'' # k) (coerce pf v) obj"] by (auto simp: kv dom_update)
  qed simp
  then have sub: "fst ` set (attributes pf a) \<subseteq> fst ` set ([] :: json_map) \<union> {k. \<exists>r. k = CHR ''@'' # r}" unfolding attributes_def .
  show "\<exists>r. k = CHR ''@'' # r" if "k \<in> fst ` set (attributes pf a)" using subsetD [OF sub that] by simp
qed

lemma attributes_lookup: "map_of (attributes pf a) k \<noteq> None \<Longrightarrow> \<exists>r. k = CHR ''@'' # r"
  using attributes_keys by (simp add: map_of_eq_None_iff)

lemma attributes_Nil: "attributes pf a = [] \<longleftrightarrow> a = []"
proof -
  have "obj \<noteq> [] \<Longrightarrow> fold (\<lambda>(k, v) obj. AList.update (CHR ''@'' # k) (coerce pf v) obj) a obj \<noteq> []" for obj a
  proof (induction a arbitrary: obj)
    case (Cons kv a)
    then show ?case by (cases kv) (simp add: update_nonempty)
  qed simp
  from this [of "AList.update (CHR ''@'' # fst (hd a)) (coerce pf (snd (hd a))) []"]
  show ?thesis by (cases a) (simp_all add: attributes_def split_beta)
qed

lemma insert_value_lookup:
  "map_of (insert_value key v obj) k =
     (if k = key then Some (case map_of obj key of None \<Rightarrow> v | Some (JArray a) \<Rightarrow> JArray (a @ [v]) | Some other \<Rightarrow> JArray [other, v])
      else map_of obj k)"
  by (auto simp: insert_value_def update_conv' delete_conv' split: option.splits json.splits)

definition is_array :: "json \<Rightarrow> bool" where
  "is_array v \<longleftrightarrow> (case v of JArray _ \<Rightarrow> True | _ \<Rightarrow> False)"

lemma gather_snoc:
  assumes "\<forall>x\<in>set vs. \<not> is_array x"
  shows "gather (vs @ [v]) = Some (case gather vs of None \<Rightarrow> v | Some (JArray a) \<Rightarrow> JArray (a @ [v]) | Some other \<Rightarrow> JArray [other, v])"
proof -
  consider "vs = []" | x where "vs = [x]" | x y ys where "vs = x # y # ys" by (metis list.exhaust)
  then show ?thesis using assms by cases (auto simp: gather_def is_array_def split: json.splits)
qed

lemma children_lookup:
  assumes "\<forall>(k, v)\<in>set kvs. map_of obj k = None \<and> \<not> is_array v"
  shows "map_of (fold (\<lambda>(k, v). insert_value k v) kvs obj) k =
    (case gather (map snd (filter (\<lambda>(k', _). k' = k) kvs)) of Some v \<Rightarrow> Some v | None \<Rightarrow> map_of obj k)"
  using assms
proof (induction kvs rule: rev_induct)
  case Nil
  then show ?case by (simp add: gather_def)
next
  case (snoc kv kvs)
  obtain key v where kv: "kv = (key, v)" by (cases kv)
  have "map_of obj key = None" "\<not> is_array v" "\<forall>(k, v)\<in>set kvs. map_of obj k = None \<and> \<not> is_array v" using snoc.prems kv by auto
  moreover from this have "\<forall>x\<in>set (map snd (filter (\<lambda>(k', _). k' = k) kvs)). \<not> is_array x" by auto
  ultimately show ?case using snoc.IH gather_snoc [of "map snd (filter (\<lambda>(k', _). k' = k) kvs)" v]
    by (cases "k = key"; cases "gather (map snd (filter (\<lambda>(k', _). k' = k) kvs))") (simp_all add: kv insert_value_lookup)
qed

lemma coerce_not_array: "(\<And>s v. pf s = Some v \<Longrightarrow> \<not> is_array v) \<Longrightarrow> \<not> is_array (coerce pf s)"
  by (auto simp: coerce_def is_array_def split: option.splits)

lemma doc_value_not_array: "(\<And>s v. pf s = Some v \<Longrightarrow> \<not> is_array v) \<Longrightarrow> \<not> is_array (doc_value pf un d)"
  by (cases d) (auto simp: object_or_null_def Let_def coerce_not_array, auto simp: is_array_def)

lemma update_new: "map_of obj k = None \<Longrightarrow> AList.update k v obj = obj @ [(k, v)]"
  by (induction obj) (auto split: if_splits)

lemma close_value_leaf: "close_value pf text (attributes pf a) =
    (let txt = trim_both is_space text
     in if txt = [] then object_or_null (attributes pf a)
        else if a = [] then coerce pf txt else JObject (attributes pf a @ [(''#text'', coerce pf txt)]))"
proof -
  have none: "map_of (attributes pf a) ''#text'' = None" using attributes_lookup [of pf a "''#text''"] by fastforce
  show ?thesis
  proof (cases "trim_both is_space text = []")
    case True
    then show ?thesis by (simp add: close_value_def object_or_null_def Let_def none)
  next
    case False
    have "attributes pf [] = []" by (simp add: attributes_def)
    then show ?thesis using False attributes_Nil [of pf a]
      by (auto simp: close_value_def Let_def update_new [OF none] map_add_def none split: option.splits)
  qed
qed

lemma close_value_elem:
  assumes "map_of obj ''#text'' = None"
  shows "close_value pf [] obj = object_or_null obj"
  using assms by (simp add: close_value_def object_or_null_def Let_def trim_both_def trim_end_def)

lemma xml_loop_pieces:
  "xml_loop pf un (map piece_event ps @ es) stack text = xml_loop pf un es stack (text @ concat (map (piece_text un) ps))"
proof (induction ps arbitrary: "text")
  case (Cons p ps)
  then show ?case by (cases p) simp_all
qed simp

text \<open>The children of an element are collected in the frame on top of the stack.\<close>

definition collect :: "(string \<times> json) list \<Rightarrow> xml_frame \<Rightarrow> xml_frame" where
  "collect kvs frame = frame\<lparr>xf_obj := fold (\<lambda>(k, v). insert_value k v) kvs (xf_obj frame)\<rparr>"

lemma collect_simps [simp]:
  "collect [] frame = frame" "collect (kv # kvs) frame = collect kvs (frame\<lparr>xf_obj := insert_value (fst kv) (snd kv) (xf_obj frame)\<rparr>)"
  "xf_name (collect kvs frame) = xf_name frame"
  by (simp_all add: collect_def split_beta)

abbreviation child_values :: "(string \<Rightarrow> json option) \<Rightarrow> (string \<Rightarrow> string option) \<Rightarrow> xml_doc list \<Rightarrow> (string \<times> json) list" where
  "child_values pf un cs \<equiv> map (\<lambda>c. (doc_name c, doc_value pf un c)) cs"

lemma no_text_key:
  assumes "list_all (\<lambda>c. doc_name c \<noteq> ''#text'') cs" and "map_of obj ''#text'' = None"
  shows "map_of (fold (\<lambda>(k, v). insert_value k v) (child_values pf un cs) obj) ''#text'' = None"
  using assms by (induction cs arbitrary: obj) (auto simp: insert_value_lookup)

lemma elem_value:
  assumes "tags_ok (Elem n a cs)"
  shows "close_value pf [] (fold (\<lambda>(k, v). insert_value k v) (child_values pf un cs) (attributes pf a)) = doc_value pf un (Elem n a cs)"
proof -
  have "map_of (attributes pf a) ''#text'' = None" using attributes_lookup [of pf a "''#text''"] by fastforce
  moreover have "list_all (\<lambda>c. doc_name c \<noteq> ''#text'') cs" using assms by (auto simp: list_all_iff)
  ultimately show ?thesis using close_value_elem [OF no_text_key] by simp
qed

text \<open>The simulation: the events of an element inside another one add its value to the enclosing frame.\<close>

lemma xml_loop_doc:
  "tags_ok d \<Longrightarrow> xml_loop pf un (doc_events d @ es) (frame # rest) [] = xml_loop pf un es (collect (child_values pf un [d]) frame # rest) []"
proof (induction d arbitrary: frame rest es)
  case (Elem n a cs)
  have children: "xml_loop pf un (concat (map doc_events ds) @ es') (f # r) [] = xml_loop pf un es' (collect (child_values pf un ds) f # r) []"
    if "set ds \<subseteq> set cs" for ds es' f r
    using that
  proof (induction ds arbitrary: f)
    case (Cons d ds)
    then have "d \<in> set cs" "tags_ok d" using Elem.prems by (auto simp: list_all_iff)
    then show ?case using Elem.IH [of d "concat (map doc_events ds) @ es'" f r] Cons by simp
  qed simp
  show ?case using children [of cs "End # es" "\<lparr>xf_name = n, xf_obj = attributes pf a\<rparr>" "frame # rest"] elem_value [OF Elem.prems, of pf un]
    by (simp add: insert_child_def) (simp add: collect_def)
next
  case (Leaf n a ps)
  then show ?case by (simp add: xml_loop_pieces insert_child_def close_value_leaf Let_def)
next
  case (Self n a)
  then show ?case by (simp add: insert_child_def)
qed

lemma xml_loop_children:
  "list_all tags_ok ds \<Longrightarrow>
     xml_loop pf un (concat (map doc_events ds) @ es) (f # r) [] = xml_loop pf un es (collect (child_values pf un ds) f # r) []"
  by (induction ds arbitrary: f) (simp_all add: xml_loop_doc)

section \<open>Properties\<close>


definition doc_example :: xml_doc where
  "doc_example = Elem ''root'' [(''v'', ''w'')] [Leaf ''item'' [] [Raw ''a''], Leaf ''id'' [] [Raw ''x''], Leaf ''item'' [] [Section ''b'']]"


text \<open>Text in front of a child element is dropped. The documentation says that the text of mixed content is kept under \<open>#text\<close>; the
  text before a child element is cleared when the child starts, and only the text after the last child is kept.\<close>

theorem mixed_text_before_child_lost:
  assumes "reader bytes = Inr [Start r [], Text before, Start c [], End, Text after, End, Eof]"
    and "un before = Some before" and "un after = Some after" and "trim_both is_space after \<noteq> []" and "c \<noteq> ''#text''"
  shows "xml_to_json pf un reader bytes =
    Some (Inr (JObject [(r, JObject [(c, JNull), (''#text'', coerce pf (trim_both is_space after))])]))"
proof -
  have nil: "attributes pf [] = []" "close_value pf [] [] = JNull"
    by (simp_all add: attributes_def close_value_def trim_both_def trim_end_def)
  have "close_value pf after [(c, JNull)] = JObject [(c, JNull), (''#text'', coerce pf (trim_both is_space after))]"
    using assms(4,5) by (simp add: close_value_def Let_def)
  then show ?thesis using assms(1-3) nil by (simp add: xml_to_json_def insert_child_def insert_value_def)
qed

theorem mixed_text_before_child_lost_witness:
  "xml_to_json (\<lambda>_. None) Some (\<lambda>_. Inr [Start ''p'' [], Text ''lost'', Start ''b'' [], End, Text ''kept'', End, Eof]) [] =
    Some (Inr (JObject [(''p'', JObject [(''b'', JNull), (''#text'', JString ''kept'')])]))"
proof -
  have "trim_both is_space ''kept'' = ''kept''" "coerce (\<lambda>_. None) ''kept'' = JString ''kept''" by code_simp+
  with mixed_text_before_child_lost [where r = "''p''" and c = "''b''" and before = "''lost''" and after = "''kept''" and un = Some
      and reader = "\<lambda>_. Inr [Start ''p'' [], Text ''lost'', Start ''b'' [], End, Text ''kept'', End, Eof]" and bytes = "[]" and pf = "\<lambda>_. None"]
  show ?thesis by simp
qed

text \<open>A document that consists of an empty-element tag is rejected as incomplete.\<close>

lemma empty_root_rejected:
  "xml_to_json pf un (\<lambda>_. Inr [Empty n a, Eof]) bytes = Some (Inl ''xml parse failed: incomplete document'')"
  by (simp add: xml_to_json_def insert_child_def)

text \<open>An entity reference contributes its name instead of its character.\<close>

lemma entity_name_in_text:
  "xml_to_json (\<lambda>_. None) Some (\<lambda>_. Inr [Start ''t'' [], Text ''a'', General_ref ''amp'', Text ''b'', End, Eof]) [] =
    Some (Inr (JObject [(''t'', JString ''aampb'')]))"
  by code_simp

end
