(* ===== verification/Static_Files.thy ===== *)
theory Static_Files
  imports Responses "HOL-Library.Sublist"
begin

text \<open>
  Static files: \<^verbatim>\<open>crates/justapi-core/src/static_files.rs\<close>, and \<open>try_serve_static\<close> of \<^verbatim>\<open>src/server/mod.rs\<close>, which tries the mounts.

  \<^item> A path is the list of its components, as \<open>Path::components\<close> gives them for a relative path; \<open>starts_with\<close> compares components.
  \<^item> The file system is a record of operations that the definitions take as an argument: metadata, contents and \<open>canonicalize\<close>.
    The contents of a large file, which the code streams, are those of the file when it is opened.
  \<^item> The clock is the argument \<open>now\<close>, in seconds.

  The lemmas show that only files below the root are served, that a range response is exactly the requested and
  clamped part of the file, and that an entity tag identifies the age of a file and not its version.
\<close>

section \<open>Paths and the file system\<close>

type_synonym path = "string list"

definition components :: "string \<Rightarrow> path" where
  "components s = filter (\<lambda>c. c \<noteq> [] \<and> c \<noteq> ''.'') (split_on (CHR ''/'') s)"

record metadata =
  md_len :: nat
  md_is_file :: bool
  md_modified :: "nat option"

record file_system =
  fs_metadata :: "path \<Rightarrow> string + metadata"
  fs_read :: "path \<Rightarrow> string + string"
  fs_canonicalize :: "path \<Rightarrow> path option"

definition not_found :: http_response where
  "not_found = json_response 404 ([CHR ''{'', CHR 0x22] @ ''detail'' @ [CHR 0x22, CHR '':'', CHR 0x22] @ ''not found'' @ [CHR 0x22, CHR ''}''])"

section \<open>Resolution\<close>

record static_mount =
  sm_prefix :: string
  sm_dir :: path
  sm_fallback :: "string option"

text \<open>\<open>StaticDir::resolve\<close>.\<close>

definition dir_resolve :: "file_system \<Rightarrow> path \<Rightarrow> string \<Rightarrow> path option" where
  "dir_resolve fs root uri_path =
     (let relative = dropWhile (\<lambda>c. c = CHR ''/'') uri_path in
      if relative = [] then None
      else if str_contains relative ''..'' \<or> str_contains relative ''%2e'' \<or> str_contains relative ''%2E'' then None
      else let path = root @ components relative in
           case (fs_canonicalize fs path, fs_canonicalize fs root) of
             (Some canonical, Some root_canonical) \<Rightarrow> if prefix root_canonical canonical then Some path else None
           | _ \<Rightarrow> if prefix root path then Some path else None)"

definition mount_resolve :: "file_system \<Rightarrow> static_mount \<Rightarrow> string \<Rightarrow> path option" where
  "mount_resolve fs m uri_path =
     (if sm_prefix m = ''/'' then dir_resolve fs (sm_dir m) uri_path
      else if \<not> starts_with uri_path (sm_prefix m) then None
      else dir_resolve fs (sm_dir m) (drop (length (sm_prefix m)) uri_path))"

section \<open>Serving\<close>

function hex_str :: "nat \<Rightarrow> string" where
  "hex_str n =
     (let d = (if n mod 16 < 10 then char_of (48 + n mod 16) else char_of (87 + n mod 16))
      in if n < 16 then [d] else hex_str (n div 16) @ [d])"
  by pat_completeness auto
termination
  by (relation "measure id") auto

declare hex_str.simps [simp del]

text \<open>\<open>elapsed\<close> fails for a time in the future.\<close>

definition make_etag :: "nat \<Rightarrow> metadata \<Rightarrow> string" where
  "make_etag now md =
     [CHR 0x22] @ hex_str (md_len md) @ ''-'' @
     hex_str (case md_modified md of Some t \<Rightarrow> if t \<le> now then now - t else 0 | None \<Rightarrow> 0) @ [CHR 0x22]"

text \<open>The extension of a file name: the part after the last dot, unless the dot is the first character.\<close>

definition extension :: "path \<Rightarrow> string" where
  "extension p =
     (if p = [] \<or> CHR ''.'' \<notin> set (tl (last p)) then []
      else rev (takeWhile (\<lambda>c. c \<noteq> CHR ''.'') (rev (last p))))"

definition guess_content_type :: "path \<Rightarrow> string" where
  "guess_content_type p =
     (case map_of
        [(''html'', ''text/html; charset=utf-8''), (''htm'', ''text/html; charset=utf-8''), (''css'', ''text/css; charset=utf-8''),
         (''js'', ''application/javascript; charset=utf-8''), (''mjs'', ''application/javascript; charset=utf-8''),
         (''json'', ''application/json; charset=utf-8''), (''png'', ''image/png''), (''jpg'', ''image/jpeg''), (''jpeg'', ''image/jpeg''),
         (''gif'', ''image/gif''), (''svg'', ''image/svg+xml''), (''ico'', ''image/x-icon''), (''woff'', ''font/woff''),
         (''woff2'', ''font/woff2''), (''ttf'', ''font/ttf''), (''txt'', ''text/plain; charset=utf-8''),
         (''xml'', ''application/xml; charset=utf-8''), (''wasm'', ''application/wasm''), (''mp4'', ''video/mp4''), (''webp'', ''image/webp'')]
        (extension p) of
        Some t \<Rightarrow> t
      | None \<Rightarrow> ''application/octet-stream'')"

definition serve_file :: "file_system \<Rightarrow> nat \<Rightarrow> path \<Rightarrow> string + http_response" where
  "serve_file fs now path =
     (case fs_metadata fs path of
        Inl e \<Rightarrow> Inl e
      | Inr md \<Rightarrow>
          if \<not> md_is_file md then Inr not_found
          else case fs_read fs path of
                 Inl e \<Rightarrow> Inl e
               | Inr bytes \<Rightarrow>
                   Inr \<lparr>rp_status = 200,
                        rp_headers =
                          [(''content-type'', guess_content_type path), (''content-length'', nat_str (md_len md)), (''etag'', make_etag now md),
                           (''cache-control'', ''public, max-age=3600''), (''x-content-type-options'', ''nosniff'')],
                        rp_body = bytes\<rparr>)"

datatype byte_range = StartEnd nat nat | StartFrom nat | Suffix nat

fun into_abs_range :: "byte_range \<Rightarrow> nat \<Rightarrow> nat \<times> nat" where
  "into_abs_range (StartEnd s e) total_len =
     (let s = min s (total_len - 1); e = min e (total_len - 1) in (s, max e s))"
| "into_abs_range (StartFrom s) total_len = (min s (total_len - 1), total_len - 1)"
| "into_abs_range (Suffix n) total_len = (total_len - n, total_len - 1)"

definition parse_range :: "string \<Rightarrow> nat \<Rightarrow> byte_range option" where
  "parse_range range_str total_len =
     (let range_str = trim_both is_space range_str in
      if \<not> starts_with range_str ''bytes='' then None
      else case split_on (CHR ''-'') (drop 6 range_str) of
        [a, b] \<Rightarrow>
          (let a = trim_both is_space a; b = trim_both is_space b in
           if a = [] then
             (case parse_uint 64 b of
                None \<Rightarrow> None
              | Some n \<Rightarrow> if n = 0 \<or> total_len < n then None else Some (Suffix n))
           else if b = [] then (case parse_uint 64 a of None \<Rightarrow> None | Some s \<Rightarrow> Some (StartFrom s))
           else (case (parse_uint 64 a, parse_uint 64 b) of
                   (Some s, Some e) \<Rightarrow> if e < s then None else Some (StartEnd s e)
                 | _ \<Rightarrow> None))
      | _ \<Rightarrow> None)"

text \<open>\<open>read_exact\<close> after \<open>seek\<close> fails at the end of the file.\<close>

definition serve_range :: "file_system \<Rightarrow> path \<Rightarrow> string \<Rightarrow> string \<Rightarrow> nat \<Rightarrow> byte_range \<Rightarrow> string + http_response" where
  "serve_range fs path etag ctype total_len rng =
     (case into_abs_range rng total_len of
        (s, e) \<Rightarrow>
          (let len = e - s + 1 in
           case fs_read fs path of
             Inl err \<Rightarrow> Inl err
           | Inr bytes \<Rightarrow>
               if length bytes < s + len then Inl ''failed to fill whole buffer''
               else Inr \<lparr>rp_status = 206,
                         rp_headers =
                           [(''content-type'', ctype), (''content-length'', nat_str len),
                            (''content-range'', ''bytes '' @ nat_str s @ ''-'' @ nat_str e @ ''/'' @ nat_str total_len), (''etag'', etag),
                            (''accept-ranges'', ''bytes''), (''cache-control'', ''public, max-age=3600''),
                            (''x-content-type-options'', ''nosniff'')],
                         rp_body = take len (drop s bytes)\<rparr>))"

text \<open>\<open>StaticDir::handle\<close>; \<open>visible\<close> is \<open>HeaderValue::to_str\<close>.\<close>

definition static_handle :: "(string \<Rightarrow> bool) \<Rightarrow> file_system \<Rightarrow> nat \<Rightarrow> path \<Rightarrow> http_request \<Rightarrow> string + http_response" where
  "static_handle visible fs now root req =
     (case dir_resolve fs root (rq_path req) of
        None \<Rightarrow> Inr not_found
      | Some path \<Rightarrow>
          (case fs_metadata fs path of
             Inl _ \<Rightarrow> Inr not_found
           | Inr md \<Rightarrow>
               if \<not> md_is_file md then Inr not_found
               else let etag = make_etag now md in
                    if hdr_str visible (rq_headers req) ''if-none-match'' = Some etag
                    then Inr \<lparr>rp_status = 304, rp_headers = [(''etag'', etag), (''cache-control'', ''public, max-age=3600'')], rp_body = []\<rparr>
                    else let ctype = guess_content_type path in
                         case Option.bind (hdr_str visible (rq_headers req) ''range'') (\<lambda>r. parse_range r (md_len md)) of
                           Some rng \<Rightarrow> serve_range fs path etag ctype (md_len md) rng
                         | None \<Rightarrow>
                             (case fs_read fs path of
                                Inl e \<Rightarrow> Inl e
                              | Inr bytes \<Rightarrow>
                                  Inr \<lparr>rp_status = 200,
                                       rp_headers =
                                         [(''content-type'', ctype), (''content-length'', nat_str (md_len md)), (''etag'', etag),
                                          (''cache-control'', ''public, max-age=3600''), (''accept-ranges'', ''bytes''),
                                          (''x-content-type-options'', ''nosniff'')],
                                       rp_body = bytes\<rparr>)))"

section \<open>Mounts\<close>

definition is_file :: "file_system \<Rightarrow> path \<Rightarrow> bool" where
  "is_file fs path = (case fs_metadata fs path of Inr md \<Rightarrow> md_is_file md | Inl _ \<Rightarrow> False)"

definition ok :: "'e + 'a \<Rightarrow> 'a option" where
  "ok r = (case r of Inr v \<Rightarrow> Some v | Inl _ \<Rightarrow> None)"

definition under_prefix :: "static_mount \<Rightarrow> string \<Rightarrow> bool" where
  "under_prefix m path \<longleftrightarrow>
     sm_prefix m = ''/'' \<or> path = sm_prefix m \<or> starts_with path (trim_end (\<lambda>c. c = CHR ''/'') (sm_prefix m) @ ''/'')"

definition fallback_path :: "static_mount \<Rightarrow> string \<Rightarrow> path" where
  "fallback_path m fallback = sm_dir m @ components (dropWhile (\<lambda>c. c = CHR ''/'') fallback)"

text \<open>The file a mount serves for a path, if any.\<close>

definition mount_file :: "file_system \<Rightarrow> static_mount \<Rightarrow> string \<Rightarrow> path option" where
  "mount_file fs m path =
     (case mount_resolve fs m path of
        Some p \<Rightarrow>
          if is_file fs p then Some p
          else (case sm_fallback m of
                  Some fb \<Rightarrow> if under_prefix m path \<and> is_file fs (fallback_path m fb) then Some (fallback_path m fb) else None
                | None \<Rightarrow> None)
      | None \<Rightarrow>
          (case sm_fallback m of
             Some fb \<Rightarrow> if under_prefix m path \<and> is_file fs (fallback_path m fb) then Some (fallback_path m fb) else None
           | None \<Rightarrow> None))"

fun try_serve_static :: "file_system \<Rightarrow> nat \<Rightarrow> string \<Rightarrow> path option \<Rightarrow> static_mount list \<Rightarrow> http_response option" where
  "try_serve_static fs now path static_dir (m # ms) =
     (case mount_file fs m path of
        Some p \<Rightarrow> ok (serve_file fs now p)
      | None \<Rightarrow> try_serve_static fs now path static_dir ms)"
| "try_serve_static fs now path static_dir [] =
     (case static_dir of
        Some sd \<Rightarrow>
          (case dir_resolve fs sd path of
             Some p \<Rightarrow> if is_file fs p then ok (serve_file fs now p) else None
           | None \<Rightarrow> None)
      | None \<Rightarrow> None)"

section \<open>Lemmas\<close>

lemma split_once_Some: "split_once pat s = Some (a, b) \<Longrightarrow> s = a @ pat @ b"
proof (induction pat s arbitrary: a rule: split_once.induct)
  case (2 pat x xs)
  then show ?case by (auto simp: starts_with_iff split: if_splits)
qed (auto split: if_splits)

lemma split_once_append: "split_once pat (a @ pat @ b) \<noteq> None"
proof (induction a)
  case Nil
  have "starts_with (pat @ b) pat" by (auto simp: starts_with_iff)
  then show ?case by (cases "pat @ b") auto
qed auto

lemma str_contains_iff: "str_contains s pat \<longleftrightarrow> (\<exists>a b. s = a @ pat @ b)"
  unfolding str_contains_def using split_once_Some split_once_append by (metis option.exhaust prod.exhaust)

lemma split_on_part: "p \<in> set (split_on c s) \<Longrightarrow> \<exists>a b. s = a @ p @ b"
proof (induction c s arbitrary: p rule: split_on.induct)
  case (2 c x xs)
  show ?case
  proof (cases "x = c")
    case True
    then have "p = [] \<or> p \<in> set (split_on c xs)" using 2(3) by simp
    then show ?thesis
    proof
      assume "p \<in> set (split_on c xs)"
      then obtain a b where "xs = a @ p @ b" using 2(1) [OF True] by blast
      then have "x # xs = (x # a) @ p @ b" by simp
      then show ?thesis by blast
    next
      assume "p = []"
      then have "x # xs = [] @ p @ x # xs" by simp
      then show ?thesis by blast
    qed
  next
    case False
    obtain y ys where y: "split_on c xs = y # ys" by (metis list.exhaust split_on_not_Nil)
    have "\<exists>b. xs = y @ b" using join_split [of c xs] by (auto simp: y join_with_Cons split: if_splits)
    moreover have "p = x # y \<or> p \<in> set (split_on c xs)" using 2(3) False by (auto simp: y)
    ultimately show ?thesis using 2(2) [OF False, of p] by (metis append_Cons append_Nil)
  qed
qed simp

lemma components_clean: "\<not> str_contains s ''..'' \<Longrightarrow> ''..'' \<notin> set (components s)"
  using split_on_part [of "''..''" "CHR ''/''" s] by (auto simp: components_def str_contains_iff)

text \<open>A path below the root: no component leads upwards, and where links are resolved the target is below the resolved root.\<close>

definition contained :: "file_system \<Rightarrow> path \<Rightarrow> path \<Rightarrow> bool" where
  "contained fs root p \<longleftrightarrow>
     (\<exists>rel. p = root @ rel \<and> ''..'' \<notin> set rel) \<and>
     (\<forall>c rc. fs_canonicalize fs p = Some c \<and> fs_canonicalize fs root = Some rc \<longrightarrow> prefix rc c)"

lemma dir_resolve_contained: "dir_resolve fs root uri = Some p \<Longrightarrow> contained fs root p"
  using components_clean [of "dropWhile (\<lambda>c. c = CHR ''/'') uri"]
  by (auto simp: dir_resolve_def contained_def Let_def split: option.splits if_splits)

lemma mount_file_contained:
  assumes "mount_file fs m uri = Some p"
  shows "contained fs (sm_dir m) p \<or> (\<exists>fb. sm_fallback m = Some fb \<and> p = fallback_path m fb \<and> under_prefix m uri)"
  using assms dir_resolve_contained unfolding mount_file_def mount_resolve_def
  by (auto split: option.splits if_splits)

lemma hex_digit_inject:
  assumes "m < 16" and "n < 16"
    and "(if m < 10 then char_of (48 + m) else char_of (87 + m)) = (if n < 10 then char_of (48 + n) else char_of (87 + n :: nat))"
  shows "m = n"
proof -
  have "(of_char (if m < 10 then char_of (48 + m) else char_of (87 + m)) :: nat) = (if m < 10 then 48 + m else 87 + m)" if "m < 16" for m :: nat
    using that by (simp add: of_char_of take_bit_eq_mod)
  from this [OF assms(1)] this [OF assms(2)] show ?thesis using assms unfolding assms(3) by (auto split: if_splits)
qed

lemma hex_str_digits: "CHR ''-'' \<notin> set (hex_str n)"
proof (induction n rule: hex_str.induct)
  case (1 n)
  have "(of_char (char_of k :: char) :: nat) = k" if "k < 256" for k :: nat using that by (simp add: take_bit_eq_mod)
  from this [of "48 + n mod 16"] this [of "87 + n mod 16"]
  have "CHR ''-'' \<noteq> (if n mod 16 < 10 then char_of (48 + n mod 16) else char_of (87 + n mod 16))"
    by (auto dest!: arg_cong [where f = "of_char :: char \<Rightarrow> nat"])
  then show ?case using 1 by (subst hex_str.simps) (auto simp: Let_def)
qed

lemma hex_str_inject: "hex_str m = hex_str n \<Longrightarrow> m = n"
proof (induction m arbitrary: n rule: hex_str.induct)
  case (1 m)
  let ?d = "\<lambda>n. if n mod 16 < 10 then char_of (48 + n mod 16) else char_of (87 + n mod 16)"
  have e: "hex_str k = (if k < 16 then [?d k] else hex_str (k div 16) @ [?d k])" for k by (subst hex_str.simps) (simp add: Let_def)
  have ne: "hex_str k \<noteq> []" for k by (subst e) simp
  have "?d m = ?d n" using "1.prems" unfolding e [of m] e [of n] by (auto split: if_splits)
  then have "m mod 16 = n mod 16" by (intro hex_digit_inject) auto
  moreover have "m div 16 = n div 16"
  proof (cases "m < 16")
    case True
    then show ?thesis using "1.prems" ne [of "n div 16"] unfolding e [of m] e [of n] by (auto split: if_splits)
  next
    case False
    then have "\<not> n < 16" "hex_str (m div 16) = hex_str (n div 16)"
      using "1.prems" ne [of "m div 16"] unfolding e [of m] e [of n] by (auto split: if_splits)
    then show ?thesis using "1.IH" False by blast
  qed
  ultimately show ?case by (metis div_mod_decomp)
qed

text \<open>Ranges.\<close>

lemma abs_range_bounds:
  assumes "0 < total_len" and "into_abs_range rng total_len = (s, e)"
    and "\<And>n. rng = Suffix n \<Longrightarrow> 0 < n \<and> n \<le> total_len"
  shows "s \<le> e \<and> e < total_len"
  using assms by (cases rng) (auto simp: Let_def min_def max_def split: if_splits)

lemma parse_range_suffix: "parse_range r total_len = Some (Suffix n) \<Longrightarrow> 0 < n \<and> n \<le> total_len"
  by (auto simp: parse_range_def Let_def split: if_splits option.splits list.splits)

lemma trim_both_id: "s \<noteq> [] \<Longrightarrow> \<not> p (hd s) \<Longrightarrow> \<not> p (last s) \<Longrightarrow> trim_both p s = s"
proof -
  assume s: "s \<noteq> []" "\<not> p (hd s)" "\<not> p (last s)"
  then have "dropWhile p s = s" "dropWhile p (rev s) = rev s" by (simp_all add: dropWhile_eq_self_iff hd_rev)
  then show ?thesis by (simp add: trim_both_def trim_end_def)
qed

lemma digit_not_space: "is_digit c \<Longrightarrow> \<not> is_space c"
  by (auto simp: is_digit_def is_space_def Let_def)

lemma nat_str_hd_last: "nat_str n \<noteq> []" "is_digit (hd (nat_str n))" "is_digit (last (nat_str n))" "CHR ''-'' \<notin> set (nat_str n)"
  using nat_str_digits [of n] digits_free [of "nat_str n" "CHR ''-''"] by (auto simp: list_all_iff)

lemma trim_nat_str [simp]: "trim_both is_space (nat_str n) = nat_str n"
  using nat_str_hd_last [of n] digit_not_space by (blast intro: trim_both_id)

lemma parse_range_text:
  assumes "a \<le> b" and "b < 2 ^ 64"
  shows "parse_range (''bytes='' @ nat_str a @ ''-'' @ nat_str b) total_len = Some (StartEnd a b)"
proof -
  let ?r = "''bytes='' @ nat_str a @ ''-'' @ nat_str b"
  have "trim_both is_space ?r = ?r"
    by (rule trim_both_id) (use nat_str_hd_last [of b] in \<open>auto simp: digit_not_space, simp add: is_space_def\<close>)
  moreover have "split_on (CHR ''-'') (nat_str a @ ''-'' @ nat_str b) = [nat_str a, nat_str b]"
    using nat_str_hd_last [of a] nat_str_hd_last [of b] by (simp add: split_on_append split_on_none)
  moreover have "parse_uint 64 (nat_str a) = Some a" "parse_uint 64 (nat_str b) = Some b"
    using assms by (auto intro!: co_uint.parse_print)
  ultimately show ?thesis using assms(1) nat_str_hd_last(1) by (simp add: parse_range_def Let_def)
qed

lemma serve_range_ok:
  assumes "fs_read fs p = Inr bytes" and "length bytes = total_len" and "into_abs_range rng total_len = (s, e)"
    and "s \<le> e" and "e < total_len"
  shows "serve_range fs p etag ctype total_len rng =
           Inr \<lparr>rp_status = 206,
                rp_headers =
                  [(''content-type'', ctype), (''content-length'', nat_str (e - s + 1)),
                   (''content-range'', ''bytes '' @ nat_str s @ ''-'' @ nat_str e @ ''/'' @ nat_str total_len), (''etag'', etag),
                   (''accept-ranges'', ''bytes''), (''cache-control'', ''public, max-age=3600''), (''x-content-type-options'', ''nosniff'')],
                rp_body = take (e - s + 1) (drop s bytes)\<rparr>"
  using assms by (simp add: serve_range_def)

lemma serve_file_body:
  "is_file fs p \<Longrightarrow> ok (serve_file fs now p) = Some resp \<Longrightarrow> rp_status resp = 200 \<and> fs_read fs p = Inr (rp_body resp)"
  by (auto simp: is_file_def serve_file_def ok_def split: sum.splits)

lemma mount_file_is_file: "mount_file fs m uri = Some p \<Longrightarrow> is_file fs p"
  by (auto simp: mount_file_def split: option.splits if_splits)

text \<open>An example tree: one page below the root, and a link that leaves it.\<close>

definition example_fs :: file_system where
  "example_fs =
     \<lparr>fs_metadata = (\<lambda>p. if p \<in> {[''www'', ''a.txt''], [''www'', ''link''], [''www'', ''index.html'']}
                        then Inr \<lparr>md_len = 5, md_is_file = True, md_modified = Some 7\<rparr> else Inl ''not found''),
      fs_read = (\<lambda>p. if p = [''www'', ''a.txt''] then Inr ''hello'' else if p = [''www'', ''index.html''] then Inr ''index'' else Inl ''denied''),
      fs_canonicalize = (\<lambda>p. if p = [''www'', ''link''] then Some [''etc'', ''pw''] else if p = [''www''] \<or> p = [''www'', ''a.txt''] then Some p else None)\<rparr>"

section \<open>Properties\<close>

text \<open>C20: A response of the static file server is the content of a file below the directory of a mount or below the plain static
  directory, with links resolved where both paths resolve, or of the fallback file of a mount whose prefix the path is under.\<close>

theorem static_files_stay_in_root:
  assumes "try_serve_static fs now uri static_dir mounts = Some resp"
  shows "rp_status resp = 200 \<and>
    (\<exists>p. fs_read fs p = Inr (rp_body resp) \<and>
       ((\<exists>m\<in>set mounts. contained fs (sm_dir m) p \<or>
            (\<exists>fb. sm_fallback m = Some fb \<and> p = fallback_path m fb \<and> under_prefix m uri)) \<or>
        (\<exists>root. static_dir = Some root \<and> contained fs root p)))"
  using assms
proof (induction mounts)
  case Nil
  then obtain root p where p: "static_dir = Some root" "dir_resolve fs root uri = Some p" "is_file fs p" "ok (serve_file fs now p) = Some resp"
    by (auto split: option.splits if_splits)
  then show ?case using serve_file_body [OF p(3,4)] dir_resolve_contained [OF p(2)] by auto
next
  case (Cons m ms)
  show ?case
  proof (cases "mount_file fs m uri")
    case None
    then show ?thesis using Cons by auto
  next
    case (Some p)
    then have "ok (serve_file fs now p) = Some resp" using Cons.prems by simp
    from serve_file_body [OF mount_file_is_file [OF Some] this] mount_file_contained [OF Some] show ?thesis by auto
  qed
qed

theorem static_files_stay_in_root_witness:
  "try_serve_static example_fs 9 ''/s/link'' None [\<lparr>sm_prefix = ''/s'', sm_dir = [''www''], sm_fallback = Some ''index.html''\<rparr>] =
     Some \<lparr>rp_status = 200,
           rp_headers = [(''content-type'', ''text/html; charset=utf-8''), (''content-length'', ''5''), (''etag'', [CHR 0x22] @ ''5-2'' @ [CHR 0x22]),
                         (''cache-control'', ''public, max-age=3600''), (''x-content-type-options'', ''nosniff'')],
           rp_body = ''index''\<rparr> \<and>
   (\<exists>p. fs_read example_fs p = Inr ''index'')"
proof -
  have "try_serve_static example_fs 9 ''/s/link'' None [\<lparr>sm_prefix = ''/s'', sm_dir = [''www''], sm_fallback = Some ''index.html''\<rparr>] =
     Some \<lparr>rp_status = 200,
           rp_headers = [(''content-type'', ''text/html; charset=utf-8''), (''content-length'', ''5''), (''etag'', [CHR 0x22] @ ''5-2'' @ [CHR 0x22]),
                         (''cache-control'', ''public, max-age=3600''), (''x-content-type-options'', ''nosniff'')],
           rp_body = ''index''\<rparr>" (is "?l = Some ?r")
    by code_simp
  with static_files_stay_in_root [OF this] show ?thesis by auto
qed

text \<open>A request for the bytes \<open>a\<close> to \<open>b\<close> of a file that has byte \<open>a\<close> is answered with status 206, exactly the bytes of the file
  from \<open>a\<close> to \<open>b\<close> or to its end, their number as \<open>content-length\<close> and the range and the size of the file as \<open>content-range\<close>.\<close>

theorem range_response_exact:
  assumes "dir_resolve fs root (rq_path req) = Some p"
    and "fs_metadata fs p = Inr md" and "md_is_file md"
    and "hdr_str visible (rq_headers req) ''if-none-match'' \<noteq> Some (make_etag now md)"
    and "hdr_str visible (rq_headers req) ''range'' = Some (''bytes='' @ nat_str a @ ''-'' @ nat_str b)"
    and "a \<le> b" and "b < 2 ^ 64" and "a < md_len md"
    and "fs_read fs p = Inr bytes" and "length bytes = md_len md"
  shows "\<exists>resp. static_handle visible fs now root req = Inr resp \<and> rp_status resp = 206 \<and>
           (let e = min b (md_len md - 1) in
            rp_body resp = map (\<lambda>i. bytes ! i) [a..<Suc e] \<and>
            hdr_get (rp_headers resp) ''content-length'' = Some (nat_str (length (rp_body resp))) \<and>
            hdr_get (rp_headers resp) ''content-range'' = Some (''bytes '' @ nat_str a @ ''-'' @ nat_str e @ ''/'' @ nat_str (length bytes)))"
proof -
  define e where "e = min b (md_len md - 1)"
  have r: "into_abs_range (StartEnd a b) (md_len md) = (a, e)" and le: "a \<le> e" "e < md_len md"
    using assms(6,8) by (auto simp: Let_def e_def)
  have body: "take (Suc (e - a)) (drop a bytes) = map (\<lambda>i. bytes ! i) [a..<Suc e]"
    by (rule nth_equalityI) (use le assms(10) in \<open>auto simp del: upt_Suc\<close>)
  have "static_handle visible fs now root req = serve_range fs p (make_etag now md) (guess_content_type p) (md_len md) (StartEnd a b)"
    using assms(1-5) parse_range_text [OF assms(6,7), of "md_len md"] by (simp add: static_handle_def Let_def)
  then show ?thesis
    unfolding serve_range_ok [OF assms(9,10) r le] Let_def e_def [symmetric] using le assms(10)
    by (simp add: body hdr_get_def Suc_diff_le del: upt_Suc)
qed

theorem range_response_exact_witness:
  "\<exists>resp. static_handle (\<lambda>_. True) example_fs 9 [''www'']
     \<lparr>rq_method = GET, rq_path = ''/a.txt'', rq_query = None, rq_headers = [(''range'', ''bytes='' @ nat_str 1 @ ''-'' @ nat_str 99)],
      rq_body = [], rq_claims = None, rq_peer = None\<rparr> = Inr resp \<and> rp_status resp = 206 \<and> rp_body resp = ''ello''"
proof -
  let ?md = "\<lparr>md_len = 5, md_is_file = True, md_modified = Some 7\<rparr>"
  have r: "dir_resolve example_fs [''www''] ''/a.txt'' = Some [''www'', ''a.txt'']" by code_simp
  have "[1..<Suc (min 99 4)] = [1, 2, 3, 4 :: nat]" by code_simp
  then show ?thesis
    using range_response_exact [of example_fs "[''www'']"
        "\<lparr>rq_method = GET, rq_path = ''/a.txt'', rq_query = None, rq_headers = [(''range'', ''bytes='' @ nat_str 1 @ ''-'' @ nat_str 99)],
          rq_body = [], rq_claims = None, rq_peer = None\<rparr>" "[''www'', ''a.txt'']" ?md "\<lambda>_. True" 9 1 99 "''hello''"] r
    by (simp add: example_fs_def hdr_str_def hdr_get_def Let_def del: upt_Suc) blast
qed

text \<open>The entity tag of a file is its length and its age in seconds: two files have the same tag at two times exactly when these
  agree, whatever their contents or times of modification. So a rewritten file keeps its tag if it is asked for at the same age,
  and the tag of an unchanged file is another one every second.\<close>

theorem etag_is_length_and_age:
  assumes "md_modified md = Some t" and "t \<le> now" and "md_modified md' = Some t'" and "t' \<le> now'"
  shows "make_etag now md = make_etag now' md' \<longleftrightarrow> md_len md = md_len md' \<and> now - t = now' - t'"
proof
  assume eq: "make_etag now md = make_etag now' md'"
  have free: "CHR ''-'' \<notin> set (hex_str n)" for n
    using hex_str_digits by blast
  have "hex_str (md_len md) @ CHR ''-'' # hex_str (now - t) = hex_str (md_len md') @ CHR ''-'' # hex_str (now' - t')"
    using eq assms by (simp add: make_etag_def)
  from arg_cong [OF this, where f = "split_on (CHR ''-'')"]
  have "hex_str (md_len md) = hex_str (md_len md')" "hex_str (now - t) = hex_str (now' - t')"
    using free by (simp_all add: split_on_append split_on_none)
  then show "md_len md = md_len md' \<and> now - t = now' - t'" using hex_str_inject by blast
qed (use assms in \<open>simp add: make_etag_def\<close>)

theorem etag_is_length_and_age_witness:
  "make_etag 9 \<lparr>md_len = 5, md_is_file = True, md_modified = Some 7\<rparr> = make_etag 109 \<lparr>md_len = 5, md_is_file = True, md_modified = Some 107\<rparr> \<and>
   make_etag 9 \<lparr>md_len = 5, md_is_file = True, md_modified = Some 7\<rparr> \<noteq> make_etag 10 \<lparr>md_len = 5, md_is_file = True, md_modified = Some 7\<rparr>"
  by (simp add: etag_is_length_and_age [where t = 7 and t' = 107] etag_is_length_and_age [where t = 7 and t' = 7])

text \<open>The prefix of a mount is matched without regard to the boundary of a segment, although the fallback test has regard to it.\<close>

lemma mount_prefix_inside_segment:
  "mount_file example_fs \<lparr>sm_prefix = ''/s'', sm_dir = [''www''], sm_fallback = None\<rparr> ''/sa.txt'' = Some [''www'', ''a.txt''] \<and>
   \<not> under_prefix \<lparr>sm_prefix = ''/s'', sm_dir = [''www''], sm_fallback = None\<rparr> ''/sa.txt''"
  by code_simp

text \<open>A range of an empty file fails, and a range that starts behind the end of the file gives its last byte.\<close>

lemma range_of_empty_file: "fs_read fs p = Inr [] \<Longrightarrow> rng = StartFrom s \<or> rng = StartEnd s e \<Longrightarrow> \<exists>err. serve_range fs p etag ctype 0 rng = Inl err"
  by (auto simp: serve_range_def)

lemma range_behind_end: "n \<le> s \<Longrightarrow> into_abs_range (StartFrom s) n = (n - 1, n - 1)"
  by simp

end
