(* ===== verification/Compress.thy ===== *)
theory Compress
  imports Complex_Main Responses "HOL-Library.Product_Lexorder"
begin

text \<open>
  Response compression: \<^verbatim>\<open>crates/justapi-core/src/compress.rs\<close>.

  \<^item> The features \<open>brotli-compression\<close> and \<open>zstd-compression\<close> are two arguments.
  \<^item> A quality value is a rational number. \<open>parse_f64\<close> is the float parser of the standard library on finite numbers; the texts
    of infinities and of not-a-number, which it accepts as well, are left out.
  \<^item> The four compressors are a parameter each, and may fail. That of \<open>deflate\<close> writes raw deflate data, without the frame of zlib that
    HTTP means by this name.

  The lemmas show that the negotiated encoding is one the client gave the highest quality, and that a compressed response is
  smaller, says how it is encoded and decodes to the original body.
\<close>

section \<open>Negotiation\<close>

datatype encoding = Gzip | Deflate | Brotli | Zstd | Identity

record features =
  ft_brotli :: bool
  ft_zstd :: bool

text \<open>The name and the quality of one part of the header.\<close>

fun part_quality :: "(string \<Rightarrow> rat option) \<Rightarrow> string list \<Rightarrow> rat \<Rightarrow> rat" where
  "part_quality parse_f64 [] quality = quality"
| "part_quality parse_f64 (sub # subs) quality =
     part_quality parse_f64 subs
       (case split_once ''='' (trim_both is_space sub) of
          Some (key, val) \<Rightarrow>
            if trim_both is_space key = ''q''
            then (case parse_f64 (trim_both is_space val) of Some q \<Rightarrow> q | None \<Rightarrow> 0) else quality
        | None \<Rightarrow> quality)"

definition known_encodings :: "string list" where
  "known_encodings = [''br'', ''zstd'', ''gzip'', ''x-gzip'', ''deflate'', ''*'']"

definition candidate :: "(string \<Rightarrow> rat option) \<Rightarrow> string \<Rightarrow> (string \<times> rat) option" where
  "candidate parse_f64 part =
     (let subs = split_on (CHR '';'') part; encoding_name = trim_both is_space (hd subs); quality = part_quality parse_f64 (tl subs) 1
      in if quality \<le> 0 then None else if encoding_name \<in> set known_encodings then Some (encoding_name, quality) else None)"

definition accept_candidates :: "(string \<Rightarrow> rat option) \<Rightarrow> string \<Rightarrow> (string \<times> rat) list" where
  "accept_candidates parse_f64 header =
     List.map_filter (candidate parse_f64) (map (trim_both is_space) (split_on (CHR '','') (ascii_lower header)))"

definition preference_order :: "features \<Rightarrow> string \<Rightarrow> nat" where
  "preference_order ft name =
     (if name = ''br'' \<and> ft_brotli ft then 0 else if name = ''zstd'' \<and> ft_zstd ft then 1
      else if name = ''gzip'' \<or> name = ''x-gzip'' then 2 else if name = ''deflate'' then 3 else if name = ''*'' then 4 else 5)"

definition encoding_of :: "features \<Rightarrow> string \<Rightarrow> encoding" where
  "encoding_of ft name =
     (if name = ''br'' \<and> ft_brotli ft then Brotli else if name = ''zstd'' \<and> ft_zstd ft then Zstd
      else if name = ''gzip'' \<or> name = ''x-gzip'' then Gzip else if name = ''deflate'' then Deflate
      else if name = ''*'' then (if ft_brotli ft then Brotli else if ft_zstd ft then Zstd else Gzip)
      else Identity)"

definition from_accept_encoding :: "features \<Rightarrow> (string \<Rightarrow> rat option) \<Rightarrow> string \<Rightarrow> encoding" where
  "from_accept_encoding ft parse_f64 header =
     (case sort_key (\<lambda>c. (- snd c, preference_order ft (fst c))) (accept_candidates parse_f64 header) of
        [] \<Rightarrow> Identity
      | c # _ \<Rightarrow> encoding_of ft (fst c))"

fun as_header_value :: "encoding \<Rightarrow> string" where
  "as_header_value Gzip = ''gzip''"
| "as_header_value Deflate = ''deflate''"
| "as_header_value Brotli = ''br''"
| "as_header_value Zstd = ''zstd''"
| "as_header_value Identity = ''identity''"

definition is_compression :: "encoding \<Rightarrow> bool" where
  "is_compression e \<longleftrightarrow> e \<noteq> Identity"

section \<open>The middleware\<close>

text \<open>\<open>flate2::GzEncoder\<close> and \<open>DeflateEncoder\<close>, \<open>brotli::CompressorWriter\<close> and \<open>zstd::stream::copy_encode\<close>.\<close>

record compressors =
  cp_gzip :: "string \<Rightarrow> string + string"
  cp_raw_deflate :: "string \<Rightarrow> string + string"
  cp_brotli :: "string \<Rightarrow> string + string"
  cp_zstd :: "string \<Rightarrow> string + string"

fun compress_bytes :: "compressors \<Rightarrow> string \<Rightarrow> encoding \<Rightarrow> string + string" where
  "compress_bytes cp data Gzip = cp_gzip cp data"
| "compress_bytes cp data Deflate = cp_raw_deflate cp data"
| "compress_bytes cp data Brotli = cp_brotli cp data"
| "compress_bytes cp data Zstd = cp_zstd cp data"
| "compress_bytes cp data Identity = Inr data"

definition default_min_size :: nat where
  "default_min_size = 1024"

definition is_compressible_content_type :: "string \<Rightarrow> bool" where
  "is_compressible_content_type ct \<longleftrightarrow>
     starts_with ct ''text/'' \<or> list_ex (str_contains ct) [''json'', ''javascript'', ''xml'', ''svg'', ''html'', ''css'', ''wasm'']"

definition header_or_empty :: "(string \<Rightarrow> bool) \<Rightarrow> header_map \<Rightarrow> string \<Rightarrow> string" where
  "header_or_empty visible h k = (case hdr_str visible h k of Some v \<Rightarrow> v | None \<Rightarrow> [])"

definition compress_response ::
  "(string \<Rightarrow> bool) \<Rightarrow> compressors \<Rightarrow> nat \<Rightarrow> encoding \<Rightarrow> http_response \<Rightarrow> outcome" where
  "compress_response visible cp min_size e resp =
     (if \<not> is_compressible_content_type (header_or_empty visible (rp_headers resp) ''content-type'') then Response resp
      else if hdr_get (rp_headers resp) ''content-encoding'' \<noteq> None then Response resp
      else if length (rp_body resp) < min_size then Response resp
      else case compress_bytes cp (rp_body resp) e of
             Inl err \<Rightarrow> Failure err
           | Inr compressed \<Rightarrow>
               if length (rp_body resp) \<le> length compressed then Response resp
               else Response (resp\<lparr>rp_headers :=
                      hdr_insert ''vary'' ''accept-encoding''
                        (hdr_insert ''content-length'' (nat_str (length compressed))
                          (hdr_insert ''content-encoding'' (as_header_value e) (rp_headers resp))),
                      rp_body := compressed\<rparr>))"

definition compression_handle ::
  "(string \<Rightarrow> bool) \<Rightarrow> features \<Rightarrow> (string \<Rightarrow> rat option) \<Rightarrow> compressors \<Rightarrow> nat \<Rightarrow> 'w middleware" where
  "compression_handle visible ft parse_f64 cp min_size req nxt w =
     (let e = from_accept_encoding ft parse_f64 (header_or_empty visible (rq_headers req) ''accept-encoding'')
      in if \<not> is_compression e then nxt req w
         else case nxt req w of
                (Response resp, w) \<Rightarrow> (compress_response visible cp min_size e resp, w)
              | (out, w) \<Rightarrow> (out, w))"

section \<open>Decoding\<close>

text \<open>The decoders of the four formats, and which of them reads a body with a content encoding as this middleware writes it.\<close>

record decompressors =
  dc_gzip :: "string \<Rightarrow> string"
  dc_raw_deflate :: "string \<Rightarrow> string"
  dc_brotli :: "string \<Rightarrow> string"
  dc_zstd :: "string \<Rightarrow> string"

fun decode_body :: "decompressors \<Rightarrow> encoding \<Rightarrow> string \<Rightarrow> string" where
  "decode_body dc Gzip c = dc_gzip dc c"
| "decode_body dc Deflate c = dc_raw_deflate dc c"
| "decode_body dc Brotli c = dc_brotli dc c"
| "decode_body dc Zstd c = dc_zstd dc c"
| "decode_body dc Identity c = c"

definition inverse_codecs :: "compressors \<Rightarrow> decompressors \<Rightarrow> bool" where
  "inverse_codecs cp dc \<longleftrightarrow>
     (\<forall>d c. cp_gzip cp d = Inr c \<longrightarrow> dc_gzip dc c = d) \<and> (\<forall>d c. cp_raw_deflate cp d = Inr c \<longrightarrow> dc_raw_deflate dc c = d) \<and>
     (\<forall>d c. cp_brotli cp d = Inr c \<longrightarrow> dc_brotli dc c = d) \<and> (\<forall>d c. cp_zstd cp d = Inr c \<longrightarrow> dc_zstd dc c = d)"

section \<open>Lemmas\<close>

lemma decode_compressed: "inverse_codecs cp dc \<Longrightarrow> compress_bytes cp d e = Inr c \<Longrightarrow> decode_body dc e c = d"
  by (cases e) (auto simp: inverse_codecs_def)

lemma sort_key_least:
  fixes f :: "'a \<Rightarrow> 'b::linorder"
  assumes "sort_key f xs = c # cs"
  shows "c \<in> set xs" and "x \<in> set xs \<Longrightarrow> f c \<le> f x"
proof -
  have s: "set xs = insert c (set cs)" "sorted (map f (c # cs))"
    using assms set_sort [of f xs] sorted_sort_key [of f xs] by auto
  then show "c \<in> set xs" and "x \<in> set xs \<Longrightarrow> f c \<le> f x" by auto
qed

lemma candidate_positive: "candidate parse_f64 part = Some (name, q) \<Longrightarrow> 0 < q \<and> name \<in> set known_encodings"
  by (auto simp: candidate_def Let_def split: if_splits)

lemma candidates_positive: "(name, q) \<in> set (accept_candidates parse_f64 header) \<Longrightarrow> 0 < q \<and> name \<in> set known_encodings"
  using candidate_positive by (force simp: accept_candidates_def map_filter_def)

section \<open>Properties\<close>

text \<open>The negotiated encoding is the encoding of a candidate of the header with the highest quality, which is positive, and
  among those of the one the server prefers; without candidates it is the identity.\<close>

theorem negotiated_encoding_is_best:
  "(accept_candidates parse_f64 header = [] \<and> from_accept_encoding ft parse_f64 header = Identity) \<or>
   (\<exists>name q. (name, q) \<in> set (accept_candidates parse_f64 header) \<and> 0 < q \<and> from_accept_encoding ft parse_f64 header = encoding_of ft name \<and>
      list_all (\<lambda>(name', q'). q' < q \<or> q' = q \<and> preference_order ft name \<le> preference_order ft name') (accept_candidates parse_f64 header))"
proof (cases "sort_key (\<lambda>c. (- snd c, preference_order ft (fst c))) (accept_candidates parse_f64 header)")
  case Nil
  then have "accept_candidates parse_f64 header = []" by (metis set_empty set_sort)
  then show ?thesis using Nil by (simp add: from_accept_encoding_def)
next
  case (Cons c cs)
  obtain name q where c: "c = (name, q)" by fastforce
  note least = sort_key_least [OF Cons]
  have mem: "(name, q) \<in> set (accept_candidates parse_f64 header)" using least(1) c by simp
  have best: "q' < q \<or> q' = q \<and> preference_order ft name \<le> preference_order ft name'" if "(name', q') \<in> set (accept_candidates parse_f64 header)" for name' q'
    using least(2) [OF that] by (auto simp: c)
  have "from_accept_encoding ft parse_f64 header = encoding_of ft name" using Cons c by (simp add: from_accept_encoding_def)
  then show ?thesis using mem best candidates_positive [OF mem] by (intro disjI2 exI [of _ name] exI [of _ q]) (auto simp: list_all_iff)
qed

text \<open>C26: The compression middleware delivers the response of the handler: it leaves it as it is, or replaces its body by a
  shorter one that decodes to it in the format the code uses for the encoding named in the headers, which is the negotiated one, with the
  length of the new body; for \<open>deflate\<close> that format is raw deflate data. The status and the effects of the handler are kept.\<close>

theorem compressed_response_decodes:
  assumes "nxt req w = (Response resp, w')"
    and "inverse_codecs cp dc"
    and "compression_handle visible ft parse_f64 cp min_size req nxt w = (Response resp', w'')"
  shows "w'' = w' \<and> rp_status resp' = rp_status resp \<and>
    (resp' = resp \<or>
     (case from_accept_encoding ft parse_f64 (header_or_empty visible (rq_headers req) ''accept-encoding'') of e \<Rightarrow>
        e \<noteq> Identity \<and> hdr_get (rp_headers resp) ''content-encoding'' = None \<and>
        hdr_get (rp_headers resp') ''content-encoding'' = Some (as_header_value e) \<and> decode_body dc e (rp_body resp') = rp_body resp \<and>
        length (rp_body resp') < length (rp_body resp) \<and>
        hdr_get (rp_headers resp') ''content-length'' = Some (nat_str (length (rp_body resp')))))"
proof -
  define e where "e = from_accept_encoding ft parse_f64 (header_or_empty visible (rq_headers req) ''accept-encoding'')"
  show ?thesis
  proof (cases "is_compression e")
    case False
    then show ?thesis using assms(1,3) by (simp add: compression_handle_def e_def Let_def)
  next
    case True
    then have w: "w'' = w'" and r: "compress_response visible cp min_size e resp = Response resp'"
      using assms(1,3) by (simp_all add: compression_handle_def e_def Let_def)
    then show ?thesis
      unfolding e_def [symmetric] using True decode_compressed [OF assms(2)]
      by (auto simp: compress_response_def is_compression_def split: if_splits sum.splits)
  qed
qed

definition example_response :: http_response where
  "example_response = \<lparr>rp_status = 200, rp_headers = [(''content-type'', ''text/plain''), (''vary'', ''origin'')], rp_body = ''aaaa''\<rparr>"

definition example_encoder :: "string \<Rightarrow> string + string" where
  "example_encoder d = (if d = ''aaaa'' then Inr ''4a'' else Inr (CHR ''-'' # d))"

definition example_decoder :: "string \<Rightarrow> string" where
  "example_decoder c = (if c = ''4a'' then ''aaaa'' else tl c)"

definition example_compressors :: compressors where
  "example_compressors = \<lparr>cp_gzip = example_encoder, cp_raw_deflate = Inr, cp_brotli = (\<lambda>_. Inl ''broken''), cp_zstd = Inr\<rparr>"

definition example_decompressors :: decompressors where
  "example_decompressors = \<lparr>dc_gzip = example_decoder, dc_raw_deflate = id, dc_brotli = id, dc_zstd = id\<rparr>"

definition gzip_request :: http_request where
  "gzip_request = \<lparr>rq_method = GET, rq_path = ''/'', rq_query = None, rq_headers = [(''accept-encoding'', ''gzip'')], rq_body = [], rq_claims = None, rq_peer = None\<rparr>"

lemma example_compressed:
  "compression_handle (\<lambda>_. True) \<lparr>ft_brotli = False, ft_zstd = False\<rparr> (\<lambda>_. None) example_compressors 1 gzip_request (\<lambda>_ w. (Response example_response, w)) () =
     (Response \<lparr>rp_status = 200, rp_headers = [(''content-type'', ''text/plain''), (''content-encoding'', ''gzip''), (''content-length'', ''2''), (''vary'', ''accept-encoding'')],
                rp_body = ''4a''\<rparr>, ())"
  by code_simp

theorem compressed_response_decodes_witness: "decode_body example_decompressors Gzip ''4a'' = rp_body example_response"
proof -
  have dec: "inverse_codecs example_compressors example_decompressors"
    by (auto simp: inverse_codecs_def example_compressors_def example_decompressors_def example_encoder_def example_decoder_def)
  have neg: "from_accept_encoding \<lparr>ft_brotli = False, ft_zstd = False\<rparr> (\<lambda>_. None)
      (header_or_empty (\<lambda>_. True) (rq_headers gzip_request) ''accept-encoding'') = Gzip" by code_simp
  from compressed_response_decodes [OF _ dec example_compressed, of example_response "()", unfolded neg]
  show ?thesis by (simp add: example_response_def)
qed

text \<open>An encoding that the build does not support takes part in the negotiation: if the client likes it best, nothing is
  compressed at all.\<close>

lemma unsupported_favourite_disables_compression:
  assumes "parse_f64 ''0.8'' = Some (4/5)"
  shows "from_accept_encoding \<lparr>ft_brotli = False, ft_zstd = z\<rparr> parse_f64 ''br, gzip;q=0.8'' = Identity"
proof -
  have "accept_candidates parse_f64 ''br, gzip;q=0.8'' = [(''br'', 1), (''gzip'', 4/5)]"
    using assms by (simp add: accept_candidates_def candidate_def ascii_lower_def map_filter_def trim_both_def trim_end_def is_space_def
        known_encodings_def Let_def) (rule exI [of _ "4/5"], simp)
  then show ?thesis by (simp add: from_accept_encoding_def encoding_of_def)
qed

text \<open>A \<open>vary\<close> header of the response is replaced by that of the middleware.\<close>

lemma vary_replaced:
  assumes "compress_response visible cp min_size e resp = Response resp'" and "resp' \<noteq> resp"
  shows "hdr_get (rp_headers resp') ''vary'' = Some ''accept-encoding''"
  using assms by (auto simp: compress_response_def split: if_splits sum.splits)

end
