(* ===== verification/Extract.thy ===== *)
theory Extract
  imports Static_Files
begin

text \<open>
  What handlers take from requests and give back: \<^verbatim>\<open>crates/justapi-core/src/extract.rs\<close> (forms, queries, cookies, headers),
  \<^verbatim>\<open>src/multipart.rs\<close> (uploads) and \<^verbatim>\<open>src/serialize.rs\<close> (typed JSON responses).

  \<^item> Deserialisers, serialisers and the decoding of bytes as UTF-8 are parameters.
  \<^item> The multipart parser of the \<open>multer\<close> crate is the parameter that turns a body and a boundary into the list of its fields, each
    with its chunks and its text, and the failure that may end them. The path of the i-th temporary file is a parameter.

  The lemmas show that the stored name of an upload is a plain file name, that the sizes of the uploads are exact and below the limit,
  that percent-encoded text is decoded, and that cookies are read back as they were written.
\<close>

section \<open>Forms, queries and headers\<close>

definition form_from_bytes :: "(string \<Rightarrow> string + 'a) \<Rightarrow> string \<Rightarrow> string + 'a" where
  "form_from_bytes urlencoded bytes = (case urlencoded bytes of Inl e \<Rightarrow> Inl (''form error: '' @ e) | Inr v \<Rightarrow> Inr v)"

definition form_from_request :: "(string \<Rightarrow> string + 'a) \<Rightarrow> http_request \<Rightarrow> string + 'a" where
  "form_from_request urlencoded req = form_from_bytes urlencoded (rq_body req)"

definition query_parse :: "(string \<Rightarrow> string + 'a) \<Rightarrow> string \<Rightarrow> string + 'a" where
  "query_parse urlencoded query =
     (case urlencoded (dropWhile (\<lambda>c. c = CHR ''?'') query) of Inl e \<Rightarrow> Inl (''query error: '' @ e) | Inr v \<Rightarrow> Inr v)"

definition query_from_request :: "(string \<Rightarrow> string + 'a) \<Rightarrow> http_request \<Rightarrow> string + 'a" where
  "query_from_request urlencoded req = query_parse urlencoded (case rq_query req of Some q \<Rightarrow> q | None \<Rightarrow> [])"

text \<open>\<open>header_name\<close> is \<open>HeaderName::from_bytes\<close>.\<close>

definition get_header :: "(string \<Rightarrow> string option) \<Rightarrow> (string \<Rightarrow> bool) \<Rightarrow> http_request \<Rightarrow> string \<Rightarrow> string option" where
  "get_header header_name visible req name = Option.bind (header_name name) (hdr_str visible (rq_headers req))"

definition get_header_typed ::
  "(string \<Rightarrow> string option) \<Rightarrow> (string \<Rightarrow> bool) \<Rightarrow> (string \<Rightarrow> string + 'a) \<Rightarrow> http_request \<Rightarrow> string \<Rightarrow> string + 'a option" where
  "get_header_typed header_name visible parse req name =
     (case get_header header_name visible req name of
        Some v \<Rightarrow> (case parse v of Inr x \<Rightarrow> Inr (Some x) | Inl e \<Rightarrow> Inl (''invalid header '' @ [CHR 0x27] @ name @ [CHR 0x27] @ '': '' @ e))
      | None \<Rightarrow> Inr None)"

section \<open>Cookies\<close>

definition hex_value :: "char \<Rightarrow> nat" where
  "hex_value c =
     (let n = (of_char c :: nat) in
      if 48 \<le> n \<and> n \<le> 57 then n - 48 else if 65 \<le> n \<and> n \<le> 70 then n - 55 else if 97 \<le> n \<and> n \<le> 102 then n - 87 else 0)"

text \<open>The loop of \<open>url_decode\<close>: a digit that is none counts as zero.\<close>

fun decode_bytes :: "string \<Rightarrow> string" where
  "decode_bytes [] = []"
| "decode_bytes (c # cs) =
     (if c = CHR ''%'' \<and> 2 \<le> length cs
      then char_of (hex_value (cs ! 0) * 16 + hex_value (cs ! 1)) # decode_bytes (drop 2 cs)
      else if c = CHR ''+'' then CHR '' '' # decode_bytes cs
      else c # decode_bytes cs)"

definition url_decode :: "(string \<Rightarrow> string) \<Rightarrow> string \<Rightarrow> string" where
  "url_decode lossy s = lossy (decode_bytes s)"

definition unquote :: "string \<Rightarrow> string" where
  "unquote s = (if 2 \<le> length s \<and> hd s = CHR 0x22 \<and> last s = CHR 0x22 then butlast (tl s) else s)"

definition cookie_pair :: "(string \<Rightarrow> string) \<Rightarrow> string \<Rightarrow> (string \<times> string) option" where
  "cookie_pair lossy pair =
     map_option (\<lambda>(name, v). (url_decode lossy (trim_both is_space name), unquote (url_decode lossy (trim_both is_space v))))
       (split_once ''='' (trim_both is_space pair))"

definition cookies_from_request :: "(string \<Rightarrow> bool) \<Rightarrow> (string \<Rightarrow> string) \<Rightarrow> http_request \<Rightarrow> (string \<times> string) list" where
  "cookies_from_request visible lossy req =
     (case hdr_str visible (rq_headers req) ''cookie'' of
        None \<Rightarrow> []
      | Some header \<Rightarrow>
          fold (\<lambda>(name, v) cookies. AList.update name v cookies)
            (List.map_filter (cookie_pair lossy) (split_on (CHR '';'') header)) [])"

definition cookie_get :: "(string \<times> string) list \<Rightarrow> string \<Rightarrow> string option" where
  "cookie_get cookies name = map_of cookies name"

section \<open>Uploads\<close>

record upload_file =
  uf_field_name :: string
  uf_filename :: "string option"
  uf_content_type :: "string option"
  uf_headers :: "(string \<times> string) list"
  uf_size :: nat
  uf_temp_path :: string

record multipart_form =
  mf_fields :: "(string \<times> string) list"
  mf_files :: "upload_file list"

definition form_file :: "multipart_form \<Rightarrow> string \<Rightarrow> upload_file option" where
  "form_file form name = find (\<lambda>f. uf_field_name f = name) (mf_files form)"

definition form_field :: "multipart_form \<Rightarrow> string \<Rightarrow> string option" where
  "form_field form name = map_of (mf_fields form) name"

definition sanitize_filename :: "string \<Rightarrow> string" where
  "sanitize_filename name =
     (case find (\<lambda>seg. seg \<noteq> [] \<and> seg \<noteq> ''.'' \<and> seg \<noteq> ''..'')
             (rev (split_on (CHR ''/'') (map (\<lambda>c. if c = CHR 0x5C then CHR ''/'' else c) name))) of
        Some seg \<Rightarrow> seg
      | None \<Rightarrow> [])"

definition strip_quotes :: "string \<Rightarrow> string" where
  "strip_quotes b =
     (let b = (if b \<noteq> [] \<and> hd b = CHR 0x22 then tl b else b)
      in if b \<noteq> [] \<and> last b = CHR 0x22 then butlast b else b)"

definition extract_boundary :: "string \<Rightarrow> string + string" where
  "extract_boundary content_type =
     (case find (\<lambda>part. starts_with part ''boundary='') (map (trim_both is_space) (split_on (CHR '';'') content_type)) of
        Some part \<Rightarrow> Inr (strip_quotes (trim_both is_space (drop 9 part)))
      | None \<Rightarrow> Inl ''missing boundary in Content-Type header'')"

definition max_upload_size :: "string option \<Rightarrow> nat" where
  "max_upload_size var = (case Option.bind var (parse_uint 64) of Some n \<Rightarrow> n | None \<Rightarrow> 50 * 1024 * 1024)"

record mp_field =
  mp_name :: "string option"
  mp_filename :: "string option"
  mp_content_type :: "string option"
  mp_headers :: "(string \<times> string) list"
  mp_chunks :: "string list"
  mp_failure :: "string option"
  mp_text :: "string + string"

text \<open>\<open>mp_failure\<close> is what ends the copy of the chunks to the temporary file early; \<open>mp_text\<close> is the result of \<open>text()\<close>.\<close>

type_synonym multer = "string \<Rightarrow> string \<Rightarrow> mp_field list \<times> string option"

text \<open>The chunks of a file: \<open>total_bytes\<close> counts over all files, \<open>temp_file\<close> is what was written to the temporary file.\<close>

fun read_chunks :: "nat \<Rightarrow> string list \<Rightarrow> nat \<Rightarrow> nat \<Rightarrow> string \<Rightarrow> string + nat \<times> nat \<times> string" where
  "read_chunks max_size [] total_bytes file_size temp_file = Inr (total_bytes, file_size, temp_file)"
| "read_chunks max_size (chunk # chunks) total_bytes file_size temp_file =
     (let total_bytes = total_bytes + length chunk; file_size = file_size + length chunk
      in if max_size < total_bytes then Inl (''uploaded content exceeds maximum size of '' @ nat_str max_size @ '' bytes'')
         else read_chunks max_size chunks total_bytes file_size (temp_file @ chunk))"

definition part_headers :: "(string \<Rightarrow> bool) \<Rightarrow> mp_field \<Rightarrow> (string \<times> string) list" where
  "part_headers visible fld =
     fold (\<lambda>(k, v) h. AList.update (ascii_lower k) v h) (filter (\<lambda>(k, v). visible v) (mp_headers fld)) []"

text \<open>\<open>kept\<close> are the temporary files that \<open>keep\<close> left on the disk, by path and content. A temporary file that is not kept is deleted when its
  handle is dropped.\<close>

fun parse_fields ::
  "(string \<Rightarrow> bool) \<Rightarrow> (nat \<Rightarrow> string + string) \<Rightarrow> nat \<Rightarrow> mp_field list \<Rightarrow> string option \<Rightarrow> nat \<Rightarrow> multipart_form \<Rightarrow> (string \<times> string) list
    \<Rightarrow> (string + multipart_form) \<times> (string \<times> string) list" where
  "parse_fields visible tmp max_size [] ending total_bytes form kept = ((case ending of Some e \<Rightarrow> Inl e | None \<Rightarrow> Inr form), kept)"
| "parse_fields visible tmp max_size (fld # rest) ending total_bytes form kept =
     (let name = (case mp_name fld of Some n \<Rightarrow> n | None \<Rightarrow> [])
      in case mp_filename fld of
           Some raw \<Rightarrow>
             (case tmp (length (mf_files form)) of
                Inl e \<Rightarrow> (Inl e, kept)
              | Inr temp_path \<Rightarrow>
             (case read_chunks max_size (mp_chunks fld) total_bytes 0 [] of
                Inl e \<Rightarrow> (Inl e, kept)
              | Inr (total_bytes, file_size, temp_file) \<Rightarrow>
                  (case mp_failure fld of
                     Some e \<Rightarrow> (Inl e, kept)
                   | None \<Rightarrow>
                       parse_fields visible tmp max_size rest ending total_bytes
                         (form\<lparr>mf_files := mf_files form @
                            [\<lparr>uf_field_name = name, uf_filename = Some (sanitize_filename raw), uf_content_type = mp_content_type fld,
                              uf_headers = part_headers visible fld, uf_size = file_size,
                              uf_temp_path = temp_path\<rparr>]\<rparr>)
                         (kept @ [(temp_path, temp_file)]))))
         | None \<Rightarrow>
             (case mp_text fld of
                Inl e \<Rightarrow> (Inl e, kept)
              | Inr txt \<Rightarrow>
                  parse_fields visible tmp max_size rest ending total_bytes
                    (form\<lparr>mf_fields := AList.update name txt (mf_fields form)\<rparr>) kept))"

definition parse_multipart ::
  "(string \<Rightarrow> bool) \<Rightarrow> (nat \<Rightarrow> string + string) \<Rightarrow> multer \<Rightarrow> nat \<Rightarrow> string \<Rightarrow> string \<Rightarrow> (string + multipart_form) \<times> (string \<times> string) list" where
  "parse_multipart visible tmp multer max_size body content_type =
     (case extract_boundary content_type of
        Inl e \<Rightarrow> (Inl e, [])
      | Inr boundary \<Rightarrow>
          (case multer body boundary of
             (fs, ending) \<Rightarrow> parse_fields visible tmp max_size fs ending 0 \<lparr>mf_fields = [], mf_files = []\<rparr> []))"

section \<open>Typed JSON responses\<close>

record 'a json_response_builder =
  jr_data :: 'a
  jr_status :: nat
  jr_headers :: header_map

definition jr_new :: "'a \<Rightarrow> 'a json_response_builder" where
  "jr_new data = \<lparr>jr_data = data, jr_status = 200, jr_headers = []\<rparr>"

definition jr_with_status :: "nat \<Rightarrow> 'a json_response_builder \<Rightarrow> 'a json_response_builder" where
  "jr_with_status status b = b\<lparr>jr_status := status\<rparr>"

definition jr_with_header :: "(string \<Rightarrow> string option) \<Rightarrow> string \<Rightarrow> string \<Rightarrow> 'a json_response_builder \<Rightarrow> 'a json_response_builder" where
  "jr_with_header header_name name v b =
     (case header_name name of Some h \<Rightarrow> b\<lparr>jr_headers := jr_headers b @ [(h, v)]\<rparr> | None \<Rightarrow> b)"

text \<open>A header value that is not visible makes the builder fail, and \<open>unwrap\<close> panics.\<close>

definition jr_into_response :: "('a \<Rightarrow> string + string) \<Rightarrow> (string \<Rightarrow> bool) \<Rightarrow> 'a json_response_builder \<Rightarrow> outcome" where
  "jr_into_response to_vec visible b =
     (case to_vec (jr_data b) of
        Inl e \<Rightarrow> Failure e
      | Inr body \<Rightarrow>
          if list_all (\<lambda>(_, v). visible v) (jr_headers b)
          then Response \<lparr>rp_status = jr_status b,
                         rp_headers = [(''content-type'', ''application/json''), (''content-length'', nat_str (length body))] @ jr_headers b,
                         rp_body = body\<rparr>
          else Panic)"

section \<open>Lemmas\<close>

lemma split_on_parts: "p \<in> set (split_on c s) \<Longrightarrow> set p \<subseteq> set s"
  using split_on_part [of p c s] by auto

lemma read_chunks_spec:
  "t \<le> max_size \<Longrightarrow>
   read_chunks max_size chunks t f c =
     (if max_size < t + length (concat chunks)
      then Inl (''uploaded content exceeds maximum size of '' @ nat_str max_size @ '' bytes'')
      else Inr (t + length (concat chunks), f + length (concat chunks), c @ concat chunks))"
  by (induction max_size chunks t f c rule: read_chunks.induct) (auto simp: Let_def)

text \<open>The files that a list of fields describes.\<close>

definition file_fields :: "mp_field list \<Rightarrow> mp_field list" where
  "file_fields fs = filter (\<lambda>fld. mp_filename fld \<noteq> None) fs"

definition upload_bytes :: "mp_field list \<Rightarrow> nat" where
  "upload_bytes fs = sum_list (map (\<lambda>fld. length (concat (mp_chunks fld))) (file_fields fs))"

lemma parse_fields_ok:
  assumes "parse_fields visible tmp max_size fs ending t form kept = (Inr form', kept')" and "t \<le> max_size"
  shows "t + upload_bytes fs \<le> max_size \<and>
    map (\<lambda>f. (uf_filename f, uf_size f)) (mf_files form') =
      map (\<lambda>f. (uf_filename f, uf_size f)) (mf_files form) @
      map (\<lambda>fld. (map_option sanitize_filename (mp_filename fld), length (concat (mp_chunks fld)))) (file_fields fs) \<and>
    map snd kept' = map snd kept @ map (\<lambda>fld. concat (mp_chunks fld)) (file_fields fs) \<and>
    (map fst kept = map uf_temp_path (mf_files form) \<longrightarrow> map fst kept' = map uf_temp_path (mf_files form'))"
  using assms
proof (induction fs arbitrary: t form kept)
  case Nil
  then show ?case by (simp add: upload_bytes_def file_fields_def split: option.splits)
next
  case (Cons fld fs)
  show ?case
  proof (cases "mp_filename fld")
    case None
    then have "\<exists>form1. parse_fields visible tmp max_size fs ending t form1 kept = (Inr form', kept') \<and> mf_files form1 = mf_files form"
      using Cons.prems(1) by (auto simp: Let_def split: option.splits sum.splits)
    then show ?thesis using Cons.IH Cons.prems(2) None by (fastforce simp: upload_bytes_def file_fields_def)
  next
    case (Some raw)
    let ?n = "length (concat (mp_chunks fld))"
    have n: "t + ?n \<le> max_size" using Cons.prems Some by (auto simp: Let_def read_chunks_spec split: option.splits if_splits sum.splits)
    obtain form1 path where f: "parse_fields visible tmp max_size fs ending (t + ?n) form1 (kept @ [(path, concat (mp_chunks fld))]) = (Inr form', kept')"
      "map (\<lambda>f. (uf_filename f, uf_size f)) (mf_files form1) = map (\<lambda>f. (uf_filename f, uf_size f)) (mf_files form) @ [(Some (sanitize_filename raw), ?n)]"
      "map uf_temp_path (mf_files form1) = map uf_temp_path (mf_files form) @ [path]"
      using Cons.prems Some n by (auto simp: Let_def read_chunks_spec split: option.splits if_splits sum.splits)
    from Cons.IH [OF f(1) n] f(2,3) Some show ?thesis by (simp add: upload_bytes_def file_fields_def)
  qed
qed

lemma parse_fields_ending: "parse_fields visible tmp max_size fs ending t form kept = (Inr form', kept') \<Longrightarrow> ending = None"
  by (induction visible tmp max_size fs ending t form kept rule: parse_fields.induct)
    (auto simp: Let_def split: option.splits sum.splits)

text \<open>Percent-encoding of a byte.\<close>

definition hex_digit :: "nat \<Rightarrow> char" where
  "hex_digit n = (if n < 10 then char_of (48 + n) else char_of (55 + n))"

definition percent_encode :: "string \<Rightarrow> string" where
  "percent_encode s = concat (map (\<lambda>c. let n = (of_char c :: nat) in [CHR ''%'', hex_digit (n div 16), hex_digit (n mod 16)]) s)"

lemma hex_value_digit: "n < 16 \<Longrightarrow> hex_value (hex_digit n) = n"
  by (auto simp: hex_value_def hex_digit_def Let_def take_bit_eq_mod)

lemma decode_percent_encode: "decode_bytes (percent_encode s @ t) = s @ decode_bytes t"
proof (induction s)
  case (Cons c s)
  have "(of_char c :: nat) < 256" by (metis mod_less_divisor of_char_mod_256 zero_less_numeral)
  then have "char_of (hex_value (hex_digit (of_char c div 16)) * 16 + hex_value (hex_digit (of_char c mod 16))) = c"
    by (simp add: hex_value_digit less_mult_imp_div_less)
  then show ?case using Cons by (simp add: percent_encode_def Let_def)
qed (simp add: percent_encode_def)

lemma hex_digit_plain: "n < 16 \<Longrightarrow> hex_digit n \<noteq> CHR ''='' \<and> \<not> is_space (hex_digit n)"
proof -
  assume n: "n < 16"
  have "list_all (\<lambda>n. hex_digit n \<noteq> CHR ''='' \<and> \<not> is_space (hex_digit n)) [0..<16]" by code_simp
  then show ?thesis using n by (simp add: list_all_iff)
qed

lemma percent_encode_plain: "c \<in> set (percent_encode s) \<Longrightarrow> c \<noteq> CHR ''='' \<and> \<not> is_space c"
proof (induction s)
  case (Cons d s)
  have "(of_char d :: nat) < 256" by (metis mod_less_divisor of_char_mod_256 zero_less_numeral)
  then have "of_char d div 16 < (16 :: nat)" "of_char d mod 16 < (16 :: nat)" by (simp_all add: less_mult_imp_div_less)
  from this [THEN hex_digit_plain] Cons show ?case by (auto simp: percent_encode_def Let_def is_space_def)
qed (simp add: percent_encode_def)

lemma trim_both_plain: "(\<And>c. c \<in> set s \<Longrightarrow> \<not> p c) \<Longrightarrow> trim_both p s = s"
proof (cases "s = []")
  case False
  moreover assume "\<And>c. c \<in> set s \<Longrightarrow> \<not> p c"
  ultimately show ?thesis by (intro trim_both_id) auto
qed (simp add: trim_both_def trim_end_def)

lemma split_once_first: "(\<And>c. c \<in> set a \<Longrightarrow> c \<noteq> d) \<Longrightarrow> split_once [d] (a @ [d] @ b) = Some (a, b)"
  by (induction a) auto

section \<open>Properties\<close>

text \<open>The stored name of an upload is a plain file name: it has no separator of either kind and is neither of the two special
  directories, whatever the client sent.\<close>

theorem sanitized_filename_is_plain:
  "(let s = sanitize_filename name
    in CHR ''/'' \<notin> set s \<and> CHR 0x5C \<notin> set s \<and> s \<noteq> ''.'' \<and> s \<noteq> ''..'' \<and> set s \<subseteq> set name)"
proof (cases "find (\<lambda>seg. seg \<noteq> [] \<and> seg \<noteq> ''.'' \<and> seg \<noteq> ''..'')
    (rev (split_on (CHR ''/'') (map (\<lambda>c. if c = CHR 0x5C then CHR ''/'' else c) name)))")
  case None
  then show ?thesis by (simp add: sanitize_filename_def)
next
  case (Some seg)
  from find_SomeD [OF Some]
  have seg: "seg \<in> set (split_on (CHR ''/'') (map (\<lambda>c. if c = CHR 0x5C then CHR ''/'' else c) name))" "seg \<noteq> ''.''" "seg \<noteq> ''..''"
    by auto
  have "CHR ''/'' \<notin> set seg" using split_on_free [OF seg(1)] .
  moreover have "set seg \<subseteq> (\<lambda>c. if c = CHR 0x5C then CHR ''/'' else c) ` set name" using split_on_parts [OF seg(1)] by simp
  ultimately have "CHR ''/'' \<notin> set seg \<and> CHR 0x5C \<notin> set seg \<and> set seg \<subseteq> set name" by (auto split: if_splits)
  then show ?thesis using Some seg(2,3) by (simp add: sanitize_filename_def)
qed

text \<open>C27: If a multipart body is accepted, its uploads are those of its file fields, in order and with plain names, the size of
  each is the number of its bytes, and together they are within the limit. The temporary file of each upload holds exactly the bytes of its field.\<close>

theorem uploads_exact_and_bounded:
  assumes "parse_multipart visible tmp multer max_size body content_type = (Inr form, kept)"
  shows "\<exists>boundary fs. extract_boundary content_type = Inr boundary \<and> multer body boundary = (fs, None) \<and>
    map (\<lambda>f. (uf_filename f, uf_size f)) (mf_files form) =
      map (\<lambda>fld. (map_option sanitize_filename (mp_filename fld), length (concat (mp_chunks fld)))) (file_fields fs) \<and>
    sum_list (map uf_size (mf_files form)) \<le> max_size \<and>
    kept = zip (map uf_temp_path (mf_files form)) (map (\<lambda>fld. concat (mp_chunks fld)) (file_fields fs))"
proof -
  obtain b fs ending where b: "extract_boundary content_type = Inr b" "multer body b = (fs, ending)"
    "parse_fields visible tmp max_size fs ending 0 \<lparr>mf_fields = [], mf_files = []\<rparr> [] = (Inr form, kept)"
    using assms by (auto simp: parse_multipart_def split: sum.splits prod.splits)
  from parse_fields_ok [OF b(3)]
  have p: "upload_bytes fs \<le> max_size" "map (\<lambda>f. (uf_filename f, uf_size f)) (mf_files form) =
      map (\<lambda>fld. (map_option sanitize_filename (mp_filename fld), length (concat (mp_chunks fld)))) (file_fields fs)"
    "map snd kept = map (\<lambda>fld. concat (mp_chunks fld)) (file_fields fs)" "map fst kept = map uf_temp_path (mf_files form)"
    by simp_all
  from arg_cong [OF p(2), where f = "map snd"]
  have "map uf_size (mf_files form) = map (\<lambda>fld. length (concat (mp_chunks fld))) (file_fields fs)"
    by (simp add: comp_def)
  moreover have "kept = zip (map uf_temp_path (mf_files form)) (map (\<lambda>fld. concat (mp_chunks fld)) (file_fields fs))"
    unfolding p(3,4) [symmetric] by (simp add: zip_map_fst_snd)
  ultimately show ?thesis using b(1,2) parse_fields_ending [OF b(3)] p(1,2) by (simp add: upload_bytes_def)
qed

definition example_field :: mp_field where
  "example_field =
     \<lparr>mp_name = Some ''f'', mp_filename = Some ''../x.txt'', mp_content_type = None, mp_headers = [], mp_chunks = [''ab'', ''c''],
      mp_failure = None, mp_text = Inl []\<rparr>"

definition example_upload :: "nat \<Rightarrow> mp_field list \<Rightarrow> (string + multipart_form) \<times> (string \<times> string) list" where
  "example_upload max_size fs =
     parse_multipart (\<lambda>_. True) (\<lambda>n. Inr (''/tmp/u'' @ nat_str n)) (\<lambda>_ _. (fs, None)) max_size [] ''multipart/form-data; boundary=b''"

theorem uploads_exact_and_bounded_witness:
  "case example_upload 3 [example_field] of
     (Inr form, kept) \<Rightarrow> sum_list (map uf_size (mf_files form)) \<le> 3 \<and> kept = [(''/tmp/u0'', ''abc'')] | (Inl _, _) \<Rightarrow> False"
proof -
  have "snd (example_upload 3 [example_field]) = [(''/tmp/u0'', ''abc'')]" "isl (fst (example_upload 3 [example_field])) = False" by code_simp+
  then obtain form where f: "example_upload 3 [example_field] = (Inr form, [(''/tmp/u0'', ''abc'')])"
    by (cases "example_upload 3 [example_field]"; cases "fst (example_upload 3 [example_field])") auto
  from uploads_exact_and_bounded [OF f [unfolded example_upload_def]] have "sum_list (map uf_size (mf_files form)) \<le> 3" by blast
  then show ?thesis by (simp add: f)
qed

text \<open>A body that is rejected at a later field leaves the temporary files of the earlier ones on the disk: nothing refers to them any more.\<close>

lemma rejected_upload_leaves_files:
  "example_upload 4 [example_field, example_field] =
     (Inl ''uploaded content exceeds maximum size of 4 bytes'', [(''/tmp/u0'', ''abc'')])"
  by code_simp

text \<open>Percent-encoded names and values are read back from the cookie header as they were before encoding, without the quotes
  that may surround the value, if the bytes are valid text; a cookie with an empty name is kept.\<close>

theorem encoded_cookie_roundtrip:
  assumes "lossy name = name" and "lossy v = v"
  shows "cookie_pair lossy (percent_encode name @ ''='' @ percent_encode v) = Some (name, unquote v)"
proof -
  have "trim_both is_space (percent_encode name @ ''='' @ percent_encode v) = percent_encode name @ ''='' @ percent_encode v"
    using percent_encode_plain by (intro trim_both_plain) (auto simp: is_space_def Let_def)
  moreover have "split_once ''='' (percent_encode name @ ''='' @ percent_encode v) = Some (percent_encode name, percent_encode v)"
    using percent_encode_plain by (intro split_once_first) auto
  moreover have "trim_both is_space (percent_encode s) = percent_encode s" for s
    using percent_encode_plain by (intro trim_both_plain) auto
  ultimately show ?thesis using assms decode_percent_encode [of _ "[]"] by (simp add: cookie_pair_def url_decode_def)
qed

theorem encoded_cookie_roundtrip_witness:
  "cookie_pair id (percent_encode ''a;b'' @ ''='' @ percent_encode ''c=d'') = Some (''a;b'', ''c=d'')"
  using encoded_cookie_roundtrip [of id "''a;b''" "''c=d''"] by (simp add: unquote_def)

end
