(* ===== verification/Batching.thy ===== *)
theory Batching
  imports Prelude "HOL-Library.Multiset" "HOL-Library.Sublist"
begin

text \<open>
  Adaptive batching of calls: \<^verbatim>\<open>crates/justapi-core/src/batching.rs\<close>.

  \<^item> A call is numbered by its position in the order in which calls reach the channel; its number stands for the one-shot channel
    of its answer. A call that finds the channel full waits: its event is not possible then.
  \<^item> The loop of the batcher is a state machine: it waits for a first call, collects more until the batch is full, the window is over or
    the channel is closed, and processes the batch. Calls may arrive between any two of its steps.
  \<^item> The processor is a parameter with a state of its own, as the closure is \<open>FnMut\<close>; it may panic, which ends the loop.

  The lemmas show that batches are bounded, not empty and in the order of the calls, that every call is answered exactly once and
  by the result of its own payload, and that the loop answers all calls after finitely many of its own steps.
\<close>

section \<open>The loop\<close>

datatype 'q batch_phase = Waiting | Collecting "(nat \<times> 'q) list" | Processing "(nat \<times> 'q) list" | Ended

record ('q, 'r, 's) batcher =
  bt_queue :: "(nat \<times> 'q) list"
  bt_phase :: "'q batch_phase"
  bt_open :: bool
  bt_processor :: 's
  bt_next :: nat
  bt_answers :: "(nat \<times> (string + 'r)) list"

definition channel_capacity :: nat where
  "channel_capacity = 1024"

definition start_batcher :: "'s \<Rightarrow> ('q, 'r, 's) batcher" where
  "start_batcher st = \<lparr>bt_queue = [], bt_phase = Waiting, bt_open = True, bt_processor = st, bt_next = 0, bt_answers = []\<rparr>"

definition batcher_closed :: string where
  "batcher_closed = ''Batcher is closed''"

definition response_dropped :: string where
  "response_dropped = ''Batcher dropped the response''"

text \<open>The results go to the responders in order; a responder without a result is dropped.\<close>

fun scatter :: "(nat \<times> 'q) list \<Rightarrow> 'r list \<Rightarrow> (nat \<times> (string + 'r)) list" where
  "scatter [] results = []"
| "scatter ((c, q) # b) [] = (c, Inl response_dropped) # scatter b []"
| "scatter ((c, q) # b) (r # results) = (c, Inr r) # scatter b results"

datatype 'q batch_event =
    Call 'q
  | Recv
  | Deadline
  | Batch_full
  | Channel_closed
  | Processed
  | Hangup

text \<open>\<open>Call\<close>: \<open>execute\<close> reaches the channel. \<open>Hangup\<close>: the last handle is dropped. \<open>Channel_closed\<close>: \<open>recv\<close> returns nothing.\<close>

fun batch_step ::
  "('s \<Rightarrow> 'q list \<Rightarrow> ('s \<times> 'r list) option) \<Rightarrow> nat \<Rightarrow> 'q batch_event \<Rightarrow> ('q, 'r, 's) batcher \<Rightarrow> ('q, 'r, 's) batcher option" where
  "batch_step proc max_size (Call q) s =
     (if \<not> bt_open s then None
      else if bt_phase s = Ended
           then Some (s\<lparr>bt_next := bt_next s + 1, bt_answers := bt_answers s @ [(bt_next s, Inl batcher_closed)]\<rparr>)
      else if length (bt_queue s) < channel_capacity
           then Some (s\<lparr>bt_next := bt_next s + 1, bt_queue := bt_queue s @ [(bt_next s, q)]\<rparr>)
      else None)"
| "batch_step proc max_size Recv s =
     (case (bt_phase s, bt_queue s) of
        (Waiting, x # xs) \<Rightarrow> Some (s\<lparr>bt_phase := Collecting [x], bt_queue := xs\<rparr>)
      | (Collecting b, x # xs) \<Rightarrow> if length b < max_size then Some (s\<lparr>bt_phase := Collecting (b @ [x]), bt_queue := xs\<rparr>) else None
      | _ \<Rightarrow> None)"
| "batch_step proc max_size Deadline s =
     (case bt_phase s of
        Collecting b \<Rightarrow> if length b < max_size then Some (s\<lparr>bt_phase := Processing b\<rparr>) else None
      | _ \<Rightarrow> None)"
| "batch_step proc max_size Batch_full s =
     (case bt_phase s of
        Collecting b \<Rightarrow> if max_size \<le> length b then Some (s\<lparr>bt_phase := Processing b\<rparr>) else None
      | _ \<Rightarrow> None)"
| "batch_step proc max_size Channel_closed s =
     (if bt_open s \<or> bt_queue s \<noteq> [] then None
      else case bt_phase s of
             Waiting \<Rightarrow> Some (s\<lparr>bt_phase := Ended\<rparr>)
           | Collecting b \<Rightarrow> if length b < max_size then Some (s\<lparr>bt_phase := Processing b\<rparr>) else None
           | _ \<Rightarrow> None)"
| "batch_step proc max_size Processed s =
     (case bt_phase s of
        Processing b \<Rightarrow>
          (case proc (bt_processor s) (map snd b) of
             Some (st, results) \<Rightarrow>
               Some (s\<lparr>bt_phase := Waiting, bt_processor := st, bt_answers := bt_answers s @ scatter b results\<rparr>)
           | None \<Rightarrow>
               Some (s\<lparr>bt_phase := Ended, bt_queue := [], bt_answers := bt_answers s @ scatter (b @ bt_queue s) []\<rparr>))
      | _ \<Rightarrow> None)"
| "batch_step proc max_size Hangup s = (if bt_open s then Some (s\<lparr>bt_open := False\<rparr>) else None)"

abbreviation batch_run ::
  "('s \<Rightarrow> 'q list \<Rightarrow> ('s \<times> 'r list) option) \<Rightarrow> nat \<Rightarrow> 'q batch_event list \<Rightarrow> ('q, 'r, 's) batcher \<Rightarrow> ('q, 'r, 's) batcher option" where
  "batch_run proc max_size \<equiv> fold_opt (batch_step proc max_size)"

section \<open>Notions for the properties\<close>

text \<open>The calls of a run in order, the batches that were processed in it and the batch at work.\<close>

definition calls :: "'q batch_event list \<Rightarrow> 'q list" where
  "calls es = List.map_filter (\<lambda>e. case e of Call q \<Rightarrow> Some q | _ \<Rightarrow> None) es"

fun current_batch :: "'q batch_phase \<Rightarrow> (nat \<times> 'q) list" where
  "current_batch Waiting = []"
| "current_batch (Collecting b) = b"
| "current_batch (Processing b) = b"
| "current_batch Ended = []"

fun processed_batches ::
  "('s \<Rightarrow> 'q list \<Rightarrow> ('s \<times> 'r list) option) \<Rightarrow> nat \<Rightarrow> 'q batch_event list \<Rightarrow> ('q, 'r, 's) batcher \<Rightarrow> (nat \<times> 'q) list list" where
  "processed_batches proc max_size [] s = []"
| "processed_batches proc max_size (e # es) s =
     (case batch_step proc max_size e s of
        None \<Rightarrow> []
      | Some s' \<Rightarrow> (if e = Processed then [current_batch (bt_phase s)] else []) @ processed_batches proc max_size es s')"

text \<open>The steps of the loop itself.\<close>

definition loop_events :: "'q batch_event list" where
  "loop_events = [Recv, Deadline, Batch_full, Channel_closed, Processed]"

section \<open>Invariant\<close>

text \<open>Every call that was made is answered, in the batch at work or in the channel, and the batch is within its bounds.\<close>

definition batcher_ok :: "nat \<Rightarrow> ('q, 'r, 's) batcher \<Rightarrow> bool" where
  "batcher_ok max_size s \<longleftrightarrow>
     mset (map fst (bt_answers s)) + mset (map fst (current_batch (bt_phase s))) + mset (map fst (bt_queue s)) = mset [0..<bt_next s] \<and>
     length (bt_queue s) \<le> channel_capacity \<and>
     (case bt_phase s of
        Waiting \<Rightarrow> True
      | Ended \<Rightarrow> bt_queue s = []
      | Collecting b \<Rightarrow> b \<noteq> [] \<and> length b \<le> max 1 max_size
      | Processing b \<Rightarrow> b \<noteq> [] \<and> length b \<le> max 1 max_size)"

lemma scatter_callers [simp]: "map fst (scatter b results) = map fst b"
  by (induction b results rule: scatter.induct) auto

lemma scatter_mset [simp]: "image_mset fst (mset (scatter b results)) = image_mset fst (mset b)"
  by (induction b results rule: scatter.induct) auto

lemma mset_set_upto_Suc: "mset_set {0..<Suc n} = add_mset n (mset_set {0..<n})"
  by (simp add: atLeast0_lessThan_Suc)

lemma batcher_ok_start: "batcher_ok max_size (start_batcher st)"
  by (simp add: batcher_ok_def start_batcher_def)

lemma batcher_ok_step:
  assumes "batcher_ok max_size s" and "batch_step proc max_size e s = Some s'"
  shows "batcher_ok max_size s'"
proof (cases e)
  case (Call q)
  then show ?thesis using assms by (cases "bt_phase s") (auto simp: batcher_ok_def mset_set_upto_Suc split: if_splits)
next
  case Recv
  then show ?thesis using assms by (cases "bt_phase s"; cases "bt_queue s") (auto simp: batcher_ok_def split: if_splits)
next
  case Processed
  then show ?thesis using assms
    by (cases "bt_phase s") (auto simp: batcher_ok_def add.assoc split: option.splits)
qed (use assms in \<open>auto simp: batcher_ok_def split: if_splits batch_phase.splits\<close>)

lemma batcher_ok_run:
  "batch_run proc max_size es s = Some s' \<Longrightarrow> batcher_ok max_size s \<Longrightarrow> batcher_ok max_size s'"
  by (rule fold_opt_invariant) (auto intro: batcher_ok_step)

section \<open>Order\<close>

text \<open>The calls of a run, numbered, while the loop lives.\<close>

definition in_order :: "'q list \<Rightarrow> (nat \<times> 'q) list list \<Rightarrow> ('q, 'r, 's) batcher \<Rightarrow> bool" where
  "in_order qs bs s \<longleftrightarrow>
     bt_next s = length qs \<and> prefix (concat bs @ current_batch (bt_phase s) @ bt_queue s) (enumerate 0 qs) \<and>
     (bt_phase s \<noteq> Ended \<longrightarrow> concat bs @ current_batch (bt_phase s) @ bt_queue s = enumerate 0 qs)"

lemma in_order_start: "in_order [] [] (start_batcher st)"
  by (simp add: in_order_def start_batcher_def)

lemma enumerate_snoc: "enumerate n (xs @ [x]) = enumerate n xs @ [(n + length xs, x)]"
  by (induction xs arbitrary: n) auto

lemma in_order_step:
  assumes "in_order qs bs s" and "batch_step proc max_size e s = Some s'"
  shows "in_order (qs @ calls [e]) (bs @ (if e = Processed then [current_batch (bt_phase s)] else [])) s'"
proof (cases e)
  case (Call q)
  have "bt_phase s = Ended \<Longrightarrow> prefix (concat bs @ bt_queue s) (enumerate 0 (qs @ [q]))"
    using assms(1) by (auto simp: in_order_def enumerate_snoc)
  then show ?thesis using assms Call by (cases "bt_phase s") (auto simp: in_order_def calls_def map_filter_simps enumerate_snoc split: if_splits)
next
  case Recv
  then show ?thesis
    using assms by (cases "bt_phase s"; cases "bt_queue s") (auto simp: in_order_def calls_def map_filter_simps split: if_splits)
next
  case Processed
  moreover have "concat bs @ b @ bt_queue s = enumerate 0 qs \<Longrightarrow> prefix (concat bs @ b) (enumerate 0 qs)" for b
    by (metis append_assoc prefixI)
  ultimately show ?thesis using assms
    by (cases "bt_phase s") (auto simp: in_order_def calls_def map_filter_simps split: option.splits)
qed (use assms in \<open>auto simp: in_order_def calls_def map_filter_simps split: if_splits batch_phase.splits\<close>)

lemma calls_Cons: "calls (e # es) = calls [e] @ calls es"
  by (simp add: calls_def map_filter_simps split: option.split)

lemma in_order_run:
  assumes "batch_run proc max_size es s = Some s'" and "in_order qs bs s"
  shows "in_order (qs @ calls es) (bs @ processed_batches proc max_size es s) s'"
  using assms
proof (induction es arbitrary: qs bs s)
  case Nil
  then show ?case by (simp add: calls_def map_filter_simps)
next
  case (Cons e es)
  obtain s1 where s1: "batch_step proc max_size e s = Some s1" "batch_run proc max_size es s1 = Some s'"
    using Cons.prems(1) by (auto split: Option.bind_splits)
  from Cons.IH [OF s1(2) in_order_step [OF Cons.prems(2) s1(1)]] show ?case
    by (simp add: s1(1) calls_Cons [of e es])
qed

lemma batches_bounded:
  assumes "batch_run proc max_size es s = Some s'" and "batcher_ok max_size s"
  shows "list_all (\<lambda>b. b \<noteq> [] \<and> length b \<le> max 1 max_size) (processed_batches proc max_size es s)"
  using assms
proof (induction es arbitrary: s)
  case (Cons e es)
  obtain s1 where s1: "batch_step proc max_size e s = Some s1" "batch_run proc max_size es s1 = Some s'"
    using Cons.prems(1) by (auto split: Option.bind_splits)
  have "e = Processed \<Longrightarrow> current_batch (bt_phase s) \<noteq> [] \<and> length (current_batch (bt_phase s)) \<le> max 1 max_size"
    using s1(1) Cons.prems(2) by (cases "bt_phase s") (auto simp: batcher_ok_def)
  then show ?case using Cons.IH [OF s1(2) batcher_ok_step [OF Cons.prems(2) s1(1)]] s1(1) by simp
qed simp

section \<open>Processors\<close>

text \<open>What the documentation asks of a processor: one result for each payload, here related to it by \<open>R\<close>, and no panic.\<close>

locale batch_processor =
  fixes proc :: "'s \<Rightarrow> 'q list \<Rightarrow> ('s \<times> 'r list) option" and R :: "'q \<Rightarrow> 'r \<Rightarrow> bool"
  assumes total_processor: "proc st qs \<noteq> None"
    and own_results: "proc st qs = Some (st', rs) \<Longrightarrow> list_all2 R qs rs"
begin

definition answers_ok :: "'q list \<Rightarrow> ('q, 'r, 's) batcher \<Rightarrow> bool" where
  "answers_ok qs s \<longleftrightarrow>
     (bt_phase s = Ended \<longrightarrow> \<not> bt_open s) \<and>
     (\<forall>(c, a) \<in> set (bt_answers s). c < length qs \<and> (\<exists>r. a = Inr r \<and> R (qs ! c) r))"

lemma scatter_own:
  "list_all2 R (map snd b) rs \<Longrightarrow> (c, a) \<in> set (scatter b rs) \<Longrightarrow> \<exists>q r. (c, q) \<in> set b \<and> a = Inr r \<and> R q r"
proof (induction b rs rule: scatter.induct)
  case (3 d q b r rs)
  then show ?case by (cases "(c, a) = (d, Inr r)") auto
qed auto

lemma answers_ok_step:
  assumes "answers_ok qs s" and "in_order qs bs s" and "batch_step proc max_size e s = Some s'"
  shows "answers_ok (qs @ calls [e]) s'"
proof (cases e)
  case (Call q)
  have "(c, a) \<in> set (bt_answers s) \<Longrightarrow> c < length qs \<and> (\<exists>r. a = Inr r \<and> R (qs ! c) r)" for c a
    using assms(1) by (auto simp: answers_ok_def)
  then have "(c, a) \<in> set (bt_answers s) \<Longrightarrow> c < Suc (length qs) \<and> (\<exists>r. a = Inr r \<and> R ((qs @ [q]) ! c) r)" for c a
    by (fastforce simp: nth_append)
  then show ?thesis using assms(1,3) Call
    by (auto simp: answers_ok_def calls_def map_filter_simps split: if_splits)
next
  case Processed
  then obtain b st rs where b: "bt_phase s = Processing b" "proc (bt_processor s) (map snd b) = Some (st, rs)"
    using assms(3) total_processor [of "bt_processor s" "map snd (current_batch (bt_phase s))"]
    by (cases "bt_phase s") (auto split: option.splits)
  have "prefix (concat bs @ b @ bt_queue s) (enumerate 0 qs)" using assms(2) b(1) by (simp add: in_order_def)
  from set_mono_prefix [OF this] have "(c, q) \<in> set b \<Longrightarrow> c < length qs \<and> qs ! c = q" for c q
    by (auto simp: in_set_enumerate_eq)
  then have "(c, a) \<in> set (scatter b rs) \<Longrightarrow> c < length qs \<and> (\<exists>r. a = Inr r \<and> R (qs ! c) r)" for c a
    using scatter_own [OF own_results [OF b(2)]] by blast
  then show ?thesis using assms(1,3) Processed b by (auto simp: answers_ok_def calls_def map_filter_simps)
qed (use assms(1,3) in \<open>auto simp: answers_ok_def calls_def map_filter_simps split: if_splits batch_phase.splits list.splits\<close>)

lemma answers_ok_run:
  assumes "batch_run proc max_size es s = Some s'" and "answers_ok qs s" and "in_order qs bs s"
  shows "answers_ok (qs @ calls es) s'"
  using assms
proof (induction es arbitrary: qs bs s)
  case Nil
  then show ?case by (simp add: calls_def map_filter_simps)
next
  case (Cons e es)
  obtain s1 where s1: "batch_step proc max_size e s = Some s1" "batch_run proc max_size es s1 = Some s'"
    using Cons.prems(1) by (auto split: Option.bind_splits)
  from Cons.IH [OF s1(2) answers_ok_step [OF Cons.prems(2,3) s1(1)] in_order_step [OF Cons.prems(3) s1(1)]]
  show ?case by (simp add: calls_Cons [of e es])
qed

lemma all_answers_own:
  assumes "batch_run proc max_size es (start_batcher st) = Some s" and "(c, a) \<in> set (bt_answers s)"
  shows "c < length (calls es) \<and> (\<exists>r. a = Inr r \<and> R (calls es ! c) r)"
proof -
  have "answers_ok [] (start_batcher st)" by (simp add: answers_ok_def start_batcher_def)
  from answers_ok_run [OF assms(1) this in_order_start] show ?thesis using assms(2) by (auto simp: answers_ok_def)
qed

end

text \<open>The processors of the documentation: a function applied to each payload.\<close>

definition each_payload :: "('q \<Rightarrow> 'r) \<Rightarrow> 's \<Rightarrow> 'q list \<Rightarrow> ('s \<times> 'r list) option" where
  "each_payload f st qs = Some (st, map f qs)"

interpretation payloads: batch_processor "each_payload f" "\<lambda>q r. r = f q" for f
  by unfold_locales (auto simp: each_payload_def list_all2_conv_all_nth)

section \<open>Progress\<close>

fun phase_rank :: "'q batch_phase \<Rightarrow> nat" where
  "phase_rank Waiting = 1"
| "phase_rank (Collecting _) = 3"
| "phase_rank (Processing _) = 2"
| "phase_rank Ended = 0"

definition work_left :: "('q, 'r, 's) batcher \<Rightarrow> nat" where
  "work_left s = 3 * length (bt_queue s) + phase_rank (bt_phase s)"

lemma loop_step_decreases:
  assumes "e \<in> set loop_events" and "batch_step proc max_size e s = Some s'"
  shows "work_left s' < work_left s"
  using assms
  by (cases "bt_phase s"; cases "bt_queue s")
    (auto simp: loop_events_def work_left_def split: if_splits option.splits)

lemma loop_events_no_calls: "set es \<subseteq> set loop_events \<Longrightarrow> calls es = []"
proof (induction es)
  case (Cons e es)
  then have "calls [e] = []" by (auto simp: loop_events_def calls_def map_filter_simps)
  with Cons show ?case by (simp add: calls_Cons [of e es])
qed (simp add: calls_def map_filter_simps)

lemma loop_run_bounded:
  "batch_run proc max_size es s = Some s' \<Longrightarrow> set es \<subseteq> set loop_events \<Longrightarrow> length es + work_left s' \<le> work_left s"
proof (induction es arbitrary: s)
  case (Cons e es)
  obtain s1 where s1: "batch_step proc max_size e s = Some s1" "batch_run proc max_size es s1 = Some s'"
    using Cons.prems(1) by (auto split: Option.bind_splits)
  have "work_left s1 < work_left s" using loop_step_decreases [OF _ s1(1)] Cons.prems(2) by simp
  then show ?case using Cons.IH [OF s1(2)] Cons.prems(2) by simp
qed simp

lemma stuck_loop_idle:
  assumes "batcher_ok max_size s" and "list_all (\<lambda>e. batch_step proc max_size e s = None) loop_events"
  shows "bt_queue s = [] \<and> current_batch (bt_phase s) = []"
  using assms
  by (cases "bt_phase s"; cases "bt_queue s")
    (auto simp: loop_events_def batcher_ok_def split: if_splits option.splits)

section \<open>Properties\<close>

text \<open>C28: While the loop of the batcher lives, the processed batches, the batch at work and the channel are together the calls in the order in
  which they were made, and when a panic of the processor has ended it, the batches are the first calls. Each batch that was
  processed has at least one call and at most the maximal size, where a maximum of zero counts as one, and the channel is never over
  its capacity.\<close>

theorem batches_bounded_and_in_order:
  assumes "batch_run proc max_size es (start_batcher st) = Some s"
  shows "prefix (concat (processed_batches proc max_size es (start_batcher st)) @ current_batch (bt_phase s) @ bt_queue s)
      (enumerate 0 (calls es)) \<and>
    (bt_phase s = Ended \<or>
     concat (processed_batches proc max_size es (start_batcher st)) @ current_batch (bt_phase s) @ bt_queue s = enumerate 0 (calls es)) \<and>
    list_all (\<lambda>b. b \<noteq> [] \<and> length b \<le> max 1 max_size) (processed_batches proc max_size es (start_batcher st)) \<and>
    length (bt_queue s) \<le> channel_capacity"
  using in_order_run [OF assms in_order_start] batches_bounded [OF assms batcher_ok_start] batcher_ok_run [OF assms batcher_ok_start]
  by (auto simp: in_order_def batcher_ok_def)

text \<open>C29: The loop answers every call exactly once: after at most three steps for each call in the channel and three more, it has none left to do,
  and when it has none left, the answers are a permutation of the calls that were made.\<close>

theorem batcher_answers_every_call_once:
  assumes "batch_run proc max_size es (start_batcher st) = Some s"
    and "batch_run proc max_size es' s = Some s'" and "set es' \<subseteq> set loop_events"
  shows "length es' \<le> 3 * length (bt_queue s) + 3 \<and>
    (list_ex (\<lambda>e. batch_step proc max_size e s' \<noteq> None) loop_events \<or> mset (map fst (bt_answers s')) = mset [0..<length (calls es)])"
proof -
  have s: "in_order (calls es) (processed_batches proc max_size es (start_batcher st)) s"
    using in_order_run [OF assms(1) in_order_start] by simp
  have "calls es' = []" using loop_events_no_calls [OF assms(3)] .
  then have next': "bt_next s' = length (calls es)" using in_order_run [OF assms(2) s] by (simp add: in_order_def)
  have ok': "batcher_ok max_size s'" using batcher_ok_run [OF assms(2) batcher_ok_run [OF assms(1) batcher_ok_start]] .
  have "phase_rank (bt_phase s) \<le> 3" by (cases "bt_phase s") auto
  then have "length es' \<le> 3 * length (bt_queue s) + 3" using loop_run_bounded [OF assms(2,3)] by (simp add: work_left_def)
  moreover have "mset (map fst (bt_answers s')) = mset [0..<length (calls es)]"
    if "\<not> list_ex (\<lambda>e. batch_step proc max_size e s' \<noteq> None) loop_events"
    using ok' stuck_loop_idle [OF ok'] that next' by (simp add: batcher_ok_def list_all_iff list_ex_iff)
  ultimately show ?thesis by blast
qed

text \<open>Every caller gets the result of its own payload, in whatever batches and order the calls were processed, if the processor applies a function to
  each payload.\<close>

theorem callers_get_own_results:
  assumes "batch_run (each_payload f) max_size es (start_batcher st) = Some s" and "(c, a) \<in> set (bt_answers s)"
  shows "c < length (calls es) \<and> a = Inr (f (calls es ! c))"
  using payloads.all_answers_own [OF assms] by simp

text \<open>A run of two batches, the second of them cut short by the window.\<close>

definition example_events :: "nat batch_event list" where
  "example_events = [Call 5, Call 6, Call 7, Recv, Recv, Batch_full, Processed, Recv, Deadline, Processed]"

definition example_batcher :: "(nat, nat, unit) batcher" where
  "example_batcher = (start_batcher () :: (nat, nat, unit) batcher)\<lparr>bt_next := 3, bt_answers := [(0, Inr 6), (1, Inr 7), (2, Inr 8)]\<rparr>"

lemma example_batch_run: "batch_run (each_payload Suc) 2 example_events (start_batcher ()) = Some example_batcher"
  by (simp add: example_events_def example_batcher_def start_batcher_def each_payload_def channel_capacity_def numeral_3_eq_3)

theorem batches_bounded_and_in_order_witness:
  "list_all (\<lambda>b. length b \<le> max 1 2) (processed_batches (each_payload Suc) 2 example_events (start_batcher () :: (nat, nat, unit) batcher))"
  using batches_bounded_and_in_order [OF example_batch_run] by (simp add: list_all_iff)

theorem batcher_answers_every_call_once_witness:
  "list_ex (\<lambda>e. batch_step (each_payload Suc) 2 e example_batcher \<noteq> None) loop_events \<or>
   mset (map fst (bt_answers example_batcher)) = mset [0..<3]"
  using batcher_answers_every_call_once [OF example_batch_run, of "[]" example_batcher]
  by (simp add: example_events_def calls_def map_filter_simps numeral_3_eq_3)

theorem callers_get_own_results_witness: "(Inr 7 :: string + nat) = Inr (Suc 6)"
  using callers_get_own_results [OF example_batch_run, of 1 "Inr 7"]
  by (simp add: example_batcher_def example_events_def calls_def map_filter_simps)

text \<open>Defect: a processor that returns fewer results than payloads is not reported; the calls at the end of its batch are told that the
  response was dropped.\<close>

lemma scatter_short: "length results \<le> length b \<Longrightarrow> (c, Inl response_dropped) \<in> set (scatter (b @ [(c, q)]) results)"
  by (induction b results rule: scatter.induct) auto

lemma short_results_drop_calls:
  assumes "bt_phase s = Processing (b @ [(c, q)])" and "proc (bt_processor s) (map snd (b @ [(c, q)])) = Some (st, results)"
    and "length results \<le> length b"
  shows "\<exists>s'. batch_step proc max_size Processed s = Some s' \<and> (c, Inl response_dropped) \<in> set (bt_answers s')"
  using assms scatter_short [OF assms(3)] by simp

end
