(* ===== verification/Database.thy ===== *)
theory Database
  imports Responses "HOL-Library.Sublist"
begin

text \<open>
  The database layer of \<^verbatim>\<open>crates/justapi-core/src/db\<close>: the query builders of \<^verbatim>\<open>query.rs\<close> and the pool of \<^verbatim>\<open>pool.rs\<close>.

  \<^item> The \<open>sqlx\<close> driver is a parameter: a record of the operations the code calls, over a state of the database and of
    its connection. Dropping an uncommitted transaction is an operation of the record, called where the code returns early; that it
    leaves what is stored is a hypothesis of the property, not part of the model.
  \<^item> A row is the list of its columns; a column answers each \<open>try_get\<close> of the code, \<open>None\<close> where the type does not fit.
  \<^item> Connecting is a parameter too; it stands also for the creation of the file of a SQLite database.
  \<^item> JSON numbers are integers here; a floating-point number of a column is turned into JSON by a parameter, which gives nothing for
    those that are not finite. Base64 is a parameter.

  The lemmas show that placeholders and parameters agree in number and order for every engine, that streamed chunks are the result
  set cut into full pieces, and what a transaction returns and when it commits.
\<close>

section \<open>Query builders\<close>

fun join_str :: "string \<Rightarrow> string list \<Rightarrow> string" where
  "join_str sep [] = []"
| "join_str sep [p] = p"
| "join_str sep (p # q # ps) = p @ sep @ join_str sep (q # ps)"

definition where_clause :: "string list \<Rightarrow> string" where
  "where_clause conditions = (if conditions = [] then [] else '' WHERE '' @ join_str '' AND '' conditions)"

definition returning_clause :: "string list option \<Rightarrow> string" where
  "returning_clause ret = (case ret of Some cols \<Rightarrow> '' RETURNING '' @ join_str '', '' cols | None \<Rightarrow> [])"

record select_query =
  sq_table :: string
  sq_columns :: "string list"
  sq_conditions :: "string list"
  sq_order_by :: "string option"
  sq_limit :: "nat option"
  sq_offset :: "nat option"

definition select_new :: "string \<Rightarrow> select_query" where
  "select_new table = \<lparr>sq_table = table, sq_columns = [''*''], sq_conditions = [], sq_order_by = None, sq_limit = None, sq_offset = None\<rparr>"

definition select_columns :: "string list \<Rightarrow> select_query \<Rightarrow> select_query" where
  "select_columns cols q = q\<lparr>sq_columns := cols\<rparr>"

definition select_where :: "string \<Rightarrow> select_query \<Rightarrow> select_query" where
  "select_where c q = q\<lparr>sq_conditions := sq_conditions q @ [c]\<rparr>"

definition select_order_by :: "string \<Rightarrow> select_query \<Rightarrow> select_query" where
  "select_order_by c q = q\<lparr>sq_order_by := Some c\<rparr>"

definition select_limit :: "nat \<Rightarrow> select_query \<Rightarrow> select_query" where
  "select_limit n q = q\<lparr>sq_limit := Some n\<rparr>"

definition select_offset :: "nat \<Rightarrow> select_query \<Rightarrow> select_query" where
  "select_offset n q = q\<lparr>sq_offset := Some n\<rparr>"

definition select_build :: "select_query \<Rightarrow> string" where
  "select_build q =
     ''SELECT '' @ join_str '', '' (sq_columns q) @ '' FROM '' @ sq_table q @ where_clause (sq_conditions q) @
     (case sq_order_by q of Some ob \<Rightarrow> '' ORDER BY '' @ ob | None \<Rightarrow> []) @
     (case sq_limit q of Some n \<Rightarrow> '' LIMIT '' @ nat_str n | None \<Rightarrow> []) @
     (case sq_offset q of Some n \<Rightarrow> '' OFFSET '' @ nat_str n | None \<Rightarrow> [])"

definition select_build_count :: "select_query \<Rightarrow> string" where
  "select_build_count q = ''SELECT COUNT(*) as count FROM '' @ sq_table q @ where_clause (sq_conditions q)"

record insert_query =
  iq_table :: string
  iq_columns :: "string list"
  iq_values :: "string list list"
  iq_returning :: "string list option"

definition insert_new :: "string \<Rightarrow> insert_query" where
  "insert_new table = \<lparr>iq_table = table, iq_columns = [], iq_values = [], iq_returning = None\<rparr>"

definition insert_columns :: "string list \<Rightarrow> insert_query \<Rightarrow> insert_query" where
  "insert_columns cols q = q\<lparr>iq_columns := cols\<rparr>"

definition insert_values :: "string list \<Rightarrow> insert_query \<Rightarrow> insert_query" where
  "insert_values vs q = q\<lparr>iq_values := iq_values q @ [vs]\<rparr>"

definition insert_returning_cols :: "string list \<Rightarrow> insert_query \<Rightarrow> insert_query" where
  "insert_returning_cols cols q = q\<lparr>iq_returning := Some cols\<rparr>"

definition row_placeholders :: "string list \<Rightarrow> string" where
  "row_placeholders row = ''('' @ join_str '', '' (map (\<lambda>_. ''?'') row) @ '')''"

definition insert_build :: "insert_query \<Rightarrow> string" where
  "insert_build q =
     ''INSERT INTO '' @ iq_table q @ '' ('' @ join_str '', '' (iq_columns q) @ '') VALUES '' @
     join_str '', '' (map row_placeholders (iq_values q)) @ returning_clause (iq_returning q)"

record update_query =
  uq_table :: string
  uq_sets :: "string list"
  uq_conditions :: "string list"
  uq_returning :: "string list option"

definition update_new :: "string \<Rightarrow> update_query" where
  "update_new table = \<lparr>uq_table = table, uq_sets = [], uq_conditions = [], uq_returning = None\<rparr>"

definition update_set :: "string \<Rightarrow> string \<Rightarrow> update_query \<Rightarrow> update_query" where
  "update_set column placeholder q = q\<lparr>uq_sets := uq_sets q @ [column @ '' = '' @ placeholder]\<rparr>"

definition update_where :: "string \<Rightarrow> update_query \<Rightarrow> update_query" where
  "update_where c q = q\<lparr>uq_conditions := uq_conditions q @ [c]\<rparr>"

definition update_returning :: "string list \<Rightarrow> update_query \<Rightarrow> update_query" where
  "update_returning cols q = q\<lparr>uq_returning := Some cols\<rparr>"

definition update_build :: "update_query \<Rightarrow> string" where
  "update_build q =
     ''UPDATE '' @ uq_table q @ '' SET '' @ join_str '', '' (uq_sets q) @ where_clause (uq_conditions q) @ returning_clause (uq_returning q)"

record delete_query =
  dq_table :: string
  dq_conditions :: "string list"
  dq_returning :: "string list option"

definition delete_new :: "string \<Rightarrow> delete_query" where
  "delete_new table = \<lparr>dq_table = table, dq_conditions = [], dq_returning = None\<rparr>"

definition delete_where :: "string \<Rightarrow> delete_query \<Rightarrow> delete_query" where
  "delete_where c q = q\<lparr>dq_conditions := dq_conditions q @ [c]\<rparr>"

definition delete_returning :: "string list \<Rightarrow> delete_query \<Rightarrow> delete_query" where
  "delete_returning cols q = q\<lparr>dq_returning := Some cols\<rparr>"

definition delete_build :: "delete_query \<Rightarrow> string" where
  "delete_build q = ''DELETE FROM '' @ dq_table q @ where_clause (dq_conditions q) @ returning_clause (dq_returning q)"

section \<open>Engines\<close>

datatype db_kind = Postgres | Sqlite | MySql

fun kind_display :: "db_kind \<Rightarrow> string" where
  "kind_display Postgres = ''postgres''"
| "kind_display Sqlite = ''sqlite''"
| "kind_display MySql = ''mysql''"

definition kind_from_url :: "string \<Rightarrow> db_kind" where
  "kind_from_url url =
     (if starts_with url ''postgres://'' \<or> starts_with url ''postgresql://'' then Postgres
      else if starts_with url ''sqlite://'' \<or> starts_with url ''sqlite:'' then Sqlite
      else if starts_with url ''mysql://'' \<or> starts_with url ''mariadb://'' then MySql
      else Postgres)"

datatype isolation_level = Read_uncommitted | Read_committed | Repeatable_read | Serializable | Snapshot

fun iso_to_sql :: "isolation_level \<Rightarrow> db_kind \<Rightarrow> string" where
  "iso_to_sql Read_uncommitted k = ''READ UNCOMMITTED''"
| "iso_to_sql Read_committed k = ''READ COMMITTED''"
| "iso_to_sql Repeatable_read k = ''REPEATABLE READ''"
| "iso_to_sql Serializable k = ''SERIALIZABLE''"
| "iso_to_sql Snapshot k = ''REPEATABLE READ''"

definition iso_is_supported :: "isolation_level \<Rightarrow> db_kind \<Rightarrow> bool" where
  "iso_is_supported level k = (case k of Sqlite \<Rightarrow> level = Serializable | _ \<Rightarrow> True)"

definition strip_prefix :: "string \<Rightarrow> string \<Rightarrow> string option" where
  "strip_prefix p s = (if starts_with s p then Some (drop (length p) s) else None)"

text \<open>\<open>cwd\<close> is the current directory, if it can be read; a path is absolute if it starts with a slash, and joining an absolute path
  replaces the directory.\<close>

definition join_cwd :: "string option \<Rightarrow> string \<Rightarrow> string" where
  "join_cwd cwd rel =
     (case cwd of
        Some c \<Rightarrow> if starts_with rel ''/'' then rel else if c \<noteq> [] \<and> last c = CHR ''/'' then c @ rel else c @ ''/'' @ rel
      | None \<Rightarrow> rel)"

definition normalize_db_url :: "string option \<Rightarrow> string \<Rightarrow> string" where
  "normalize_db_url cwd url =
     (case strip_prefix ''sqlite://'' url of
        None \<Rightarrow> url
      | Some rest \<Rightarrow>
          (case strip_prefix ''//'' rest of
             Some abs_path \<Rightarrow> ''sqlite:/'' @ abs_path
           | None \<Rightarrow>
               if starts_with rest ''/'' then ''sqlite:'' @ rest
               else if rest = '':memory:'' \<or> starts_with rest ''./'' then ''sqlite:'' @ rest
               else ''sqlite:'' @ join_cwd cwd rest))"

record database_config =
  dc_url :: string
  dc_max_connections :: nat
  dc_kind :: "db_kind option"
  dc_init_sql :: "string option"
  dc_pragmas :: "string list option"
  dc_acquire_timeout :: "nat option"
  dc_request_acquire_timeout :: "nat option"
  dc_idle_timeout :: "nat option"
  dc_max_lifetime :: "nat option"
  dc_health_check_interval :: "nat option"
  dc_default_isolation :: "isolation_level option"

text \<open>Times in seconds.\<close>

definition default_database_config :: database_config where
  "default_database_config =
     \<lparr>dc_url = [], dc_max_connections = 10, dc_kind = None, dc_init_sql = None, dc_pragmas = None, dc_acquire_timeout = Some 30,
      dc_request_acquire_timeout = Some 3, dc_idle_timeout = None, dc_max_lifetime = Some 1800, dc_health_check_interval = None,
      dc_default_isolation = None\<rparr>"

definition common_config :: "string \<Rightarrow> nat \<Rightarrow> db_kind \<Rightarrow> string list option \<Rightarrow> database_config" where
  "common_config url max_connections kind pragmas =
     \<lparr>dc_url = url, dc_max_connections = max_connections, dc_kind = Some kind, dc_init_sql = None, dc_pragmas = pragmas,
      dc_acquire_timeout = Some 30, dc_request_acquire_timeout = Some 3, dc_idle_timeout = None, dc_max_lifetime = Some 1800,
      dc_health_check_interval = None, dc_default_isolation = None\<rparr>"

section \<open>Parameters and rows\<close>

datatype 'f param = P_null | P_bool bool | P_int int | P_float 'f | P_text string | P_bytes string | P_json json

text \<open>\<open>to_f64\<close> converts an integer beyond 64 bits signed; \<open>unb64\<close> decodes base64.\<close>

definition bytes_marker :: "json \<Rightarrow> string option" where
  "bytes_marker v = (case json_get v ''$bytes'' of Some (JString b64) \<Rightarrow> Some b64 | _ \<Rightarrow> None)"

definition param_from :: "(int \<Rightarrow> 'f) \<Rightarrow> (string \<Rightarrow> string option) \<Rightarrow> json \<Rightarrow> 'f param" where
  "param_from to_f64 unb64 v =
     (case bytes_marker v of
        Some b64 \<Rightarrow> (case unb64 b64 of Some b \<Rightarrow> P_bytes b | None \<Rightarrow> P_text b64)
      | None \<Rightarrow>
          (case v of
             JNull \<Rightarrow> P_null
           | JBool b \<Rightarrow> P_bool b
           | JNumber n \<Rightarrow> if - (2 ^ 63) \<le> n \<and> n < 2 ^ 63 then P_int n else P_float (to_f64 n)
           | JString s \<Rightarrow> P_text s
           | other \<Rightarrow> P_json other))"

datatype 'f bound = B_null | B_bool bool | B_int int | B_float 'f | B_text string | B_bytes string

fun bind_param :: "(json \<Rightarrow> string) \<Rightarrow> 'f param \<Rightarrow> 'f bound" where
  "bind_param print P_null = B_null"
| "bind_param print (P_bool b) = B_bool b"
| "bind_param print (P_int i) = B_int i"
| "bind_param print (P_float f) = B_float f"
| "bind_param print (P_text s) = B_text s"
| "bind_param print (P_bytes b) = B_bytes b"
| "bind_param print (P_json j) = B_text (print j)"

record 'f cell =
  get_bool :: "bool option option"
  get_i32 :: "int option option"
  get_i64 :: "int option option"
  get_f64 :: "'f option option"
  get_bytes :: "string option option"
  get_text :: "db_error + string option"

type_synonym 'f row = "(string \<times> 'f cell) list"

definition nullable :: "('a \<Rightarrow> json) \<Rightarrow> 'a option \<Rightarrow> json" where
  "nullable f v = (case v of Some x \<Rightarrow> f x | None \<Rightarrow> JNull)"

definition column_to_json :: "('f \<Rightarrow> json option) \<Rightarrow> (string \<Rightarrow> string) \<Rightarrow> 'f cell \<Rightarrow> db_error + json" where
  "column_to_json float_json b64 c =
     (case get_bool c of Some v \<Rightarrow> Inr (nullable JBool v) | None \<Rightarrow>
      case get_i32 c of Some v \<Rightarrow> Inr (nullable JNumber v) | None \<Rightarrow>
      case get_i64 c of Some v \<Rightarrow> Inr (nullable JNumber v) | None \<Rightarrow>
      case get_f64 c of Some v \<Rightarrow> Inr (case Option.bind v float_json of Some j \<Rightarrow> j | None \<Rightarrow> JNull) | None \<Rightarrow>
      case get_bytes c of Some v \<Rightarrow> Inr (nullable (\<lambda>b. JObject [(''$bytes'', JString (b64 b))]) v) | None \<Rightarrow>
      case get_text c of Inr v \<Rightarrow> Inr (nullable JString v) | Inl e \<Rightarrow> Inl e)"

text \<open>The object of a row: a repeated column name keeps its last value.\<close>

fun row_fields :: "('f \<Rightarrow> json option) \<Rightarrow> (string \<Rightarrow> string) \<Rightarrow> 'f row \<Rightarrow> (string \<times> json) list \<Rightarrow> db_error + (string \<times> json) list" where
  "row_fields float_json b64 [] obj = Inr obj"
| "row_fields float_json b64 ((name, c) # cols) obj =
     (case column_to_json float_json b64 c of
        Inl e \<Rightarrow> Inl e
      | Inr v \<Rightarrow> row_fields float_json b64 cols (AList.update name v obj))"

definition row_to_json :: "('f \<Rightarrow> json option) \<Rightarrow> (string \<Rightarrow> string) \<Rightarrow> 'f row \<Rightarrow> db_error + json" where
  "row_to_json float_json b64 r = (case row_fields float_json b64 r [] of Inl e \<Rightarrow> Inl e | Inr obj \<Rightarrow> Inr (JObject obj))"

fun rows_json :: "('f \<Rightarrow> json option) \<Rightarrow> (string \<Rightarrow> string) \<Rightarrow> 'f row list \<Rightarrow> db_error + json list" where
  "rows_json float_json b64 [] = Inr []"
| "rows_json float_json b64 (r # rs) =
     (case row_to_json float_json b64 r of
        Inl e \<Rightarrow> Inl e
      | Inr j \<Rightarrow> (case rows_json float_json b64 rs of Inl e \<Rightarrow> Inl e | Inr js \<Rightarrow> Inr (j # js)))"

definition rows_to_json :: "('f \<Rightarrow> json option) \<Rightarrow> (string \<Rightarrow> string) \<Rightarrow> 'f row list \<Rightarrow> db_error + json" where
  "rows_to_json float_json b64 rs = (case rows_json float_json b64 rs of Inl e \<Rightarrow> Inl e | Inr js \<Rightarrow> Inr (JArray js))"

section \<open>The pool\<close>

text \<open>The driver. A transaction is held by the connection, so its operations act on the same state as the others; \<open>dr_rollback\<close> is what
  dropping a transaction that was not committed does.\<close>

record ('f, 'd) driver =
  dr_fetch :: "string \<Rightarrow> 'f bound list \<Rightarrow> 'd \<Rightarrow> (db_error + 'f row list) \<times> 'd"
  dr_execute :: "string \<Rightarrow> 'f bound list \<Rightarrow> 'd \<Rightarrow> (db_error + nat) \<times> 'd"
  dr_begin :: "'d \<Rightarrow> (db_error + unit) \<times> 'd"
  dr_tx :: "string \<Rightarrow> 'f bound list \<Rightarrow> 'd \<Rightarrow> (db_error + 'f row list \<times> nat) \<times> 'd"
  dr_commit :: "'d \<Rightarrow> (db_error + unit) \<times> 'd"
  dr_rollback :: "'d \<Rightarrow> 'd"

text \<open>The conversions between JSON, parameters and columns.\<close>

record 'f codec =
  cd_print :: "json \<Rightarrow> string"
  cd_to_f64 :: "int \<Rightarrow> 'f"
  cd_float_json :: "'f \<Rightarrow> json option"
  cd_b64 :: "string \<Rightarrow> string"
  cd_unb64 :: "string \<Rightarrow> string option"

record any_pool =
  ap_kind :: db_kind
  ap_default_isolation :: "isolation_level option"
  ap_request_acquire_timeout :: "nat option"

text \<open>What \<open>connect\<close> passes to the driver: the acquire window, and the statements every new connection runs.\<close>

definition acquire_window :: "database_config \<Rightarrow> nat" where
  "acquire_window c =
     (case dc_request_acquire_timeout c of
        Some t \<Rightarrow> t
      | None \<Rightarrow> (case dc_acquire_timeout c of Some t \<Rightarrow> t | None \<Rightarrow> 3))"

definition connection_statements :: "database_config \<Rightarrow> db_kind \<Rightarrow> string list" where
  "connection_statements c kind =
     (if kind = Sqlite
      then ''PRAGMA busy_timeout=5000'' #
           (case dc_pragmas c of Some ps \<Rightarrow> ps | None \<Rightarrow> [''journal_mode=WAL'', ''synchronous=NORMAL''])
      else [])"

definition pool_connect ::
  "string option \<Rightarrow> (string \<Rightarrow> nat \<Rightarrow> nat \<Rightarrow> nat option \<Rightarrow> nat option \<Rightarrow> string list \<Rightarrow> db_error + unit) \<Rightarrow> database_config \<Rightarrow> db_error + any_pool" where
  "pool_connect cwd connect c =
     (let kind = (case dc_kind c of Some k \<Rightarrow> k | None \<Rightarrow> kind_from_url (dc_url c))
      in case connect (normalize_db_url cwd (dc_url c)) (dc_max_connections c) (acquire_window c) (dc_idle_timeout c) (dc_max_lifetime c)
                (connection_statements c kind) of
           Inl e \<Rightarrow> Inl e
         | Inr _ \<Rightarrow>
             Inr \<lparr>ap_kind = kind, ap_default_isolation = dc_default_isolation c,
                  ap_request_acquire_timeout = dc_request_acquire_timeout c\<rparr>)"

fun number_placeholders :: "string \<Rightarrow> nat \<Rightarrow> string" where
  "number_placeholders [] idx = []"
| "number_placeholders (ch # s) idx =
     (if ch = CHR ''?'' then ''$'' @ nat_str (idx + 1) @ number_placeholders s (idx + 1) else ch # number_placeholders s idx)"

definition normalize_sql :: "any_pool \<Rightarrow> string \<Rightarrow> string" where
  "normalize_sql pool sql = (if ap_kind pool \<noteq> Postgres then sql else number_placeholders sql 0)"

definition bind_all :: "'f codec \<Rightarrow> 'f param list \<Rightarrow> 'f bound list" where
  "bind_all cd params = map (bind_param (cd_print cd)) params"

definition params_from_json :: "'f codec \<Rightarrow> json list \<Rightarrow> 'f param list" where
  "params_from_json cd vals = map (param_from (cd_to_f64 cd) (cd_unb64 cd)) vals"

definition pool_health_check :: "('f, 'd) driver \<Rightarrow> 'd \<Rightarrow> (db_error + unit) \<times> 'd" where
  "pool_health_check drv d = (case dr_execute drv ''SELECT 1'' [] d of (Inl e, d) \<Rightarrow> (Inl e, d) | (Inr _, d) \<Rightarrow> (Inr (), d))"

definition pool_execute :: "('f, 'd) driver \<Rightarrow> string \<Rightarrow> 'd \<Rightarrow> (db_error + nat) \<times> 'd" where
  "pool_execute drv sql d = dr_execute drv sql [] d"

definition query_with :: "('f, 'd) driver \<Rightarrow> 'f codec \<Rightarrow> any_pool \<Rightarrow> string \<Rightarrow> 'f param list \<Rightarrow> 'd \<Rightarrow> (db_error + json) \<times> 'd" where
  "query_with drv cd pool sql params d =
     (case dr_fetch drv (normalize_sql pool sql) (bind_all cd params) d of
        (Inl e, d) \<Rightarrow> (Inl e, d)
      | (Inr rows, d) \<Rightarrow> (rows_to_json (cd_float_json cd) (cd_b64 cd) rows, d))"

definition query_with_params :: "('f, 'd) driver \<Rightarrow> 'f codec \<Rightarrow> any_pool \<Rightarrow> string \<Rightarrow> json list \<Rightarrow> 'd \<Rightarrow> (db_error + json) \<times> 'd" where
  "query_with_params drv cd pool sql params d = query_with drv cd pool sql (params_from_json cd params) d"

definition query_json :: "('f, 'd) driver \<Rightarrow> 'f codec \<Rightarrow> string \<Rightarrow> 'd \<Rightarrow> (db_error + json) \<times> 'd" where
  "query_json drv cd sql d =
     (case dr_fetch drv sql [] d of
        (Inl e, d) \<Rightarrow> (Inl e, d)
      | (Inr rows, d) \<Rightarrow> (rows_to_json (cd_float_json cd) (cd_b64 cd) rows, d))"

definition execute_with :: "('f, 'd) driver \<Rightarrow> 'f codec \<Rightarrow> any_pool \<Rightarrow> string \<Rightarrow> 'f param list \<Rightarrow> 'd \<Rightarrow> (db_error + nat) \<times> 'd" where
  "execute_with drv cd pool sql params d = dr_execute drv (normalize_sql pool sql) (bind_all cd params) d"

definition execute_with_params :: "('f, 'd) driver \<Rightarrow> 'f codec \<Rightarrow> any_pool \<Rightarrow> string \<Rightarrow> json list \<Rightarrow> 'd \<Rightarrow> (db_error + nat) \<times> 'd" where
  "execute_with_params drv cd pool sql params d = execute_with drv cd pool sql (params_from_json cd params) d"

text \<open>The loop of \<open>query_stream\<close>: rows are buffered until a chunk is full.\<close>

fun stream_rows :: "'f codec \<Rightarrow> nat \<Rightarrow> 'f row list \<Rightarrow> json list \<Rightarrow> json list \<Rightarrow> db_error + json list" where
  "stream_rows cd chunk [] buf chunks = Inr (if buf = [] then chunks else chunks @ [JArray buf])"
| "stream_rows cd chunk (r # rs) buf chunks =
     (case row_to_json (cd_float_json cd) (cd_b64 cd) r of
        Inl e \<Rightarrow> Inl e
      | Inr j \<Rightarrow>
          let buf = buf @ [j]
          in if length buf = chunk then stream_rows cd chunk rs [] (chunks @ [JArray buf]) else stream_rows cd chunk rs buf chunks)"

definition query_stream ::
  "('f, 'd) driver \<Rightarrow> 'f codec \<Rightarrow> any_pool \<Rightarrow> string \<Rightarrow> 'f param list \<Rightarrow> nat \<Rightarrow> 'd \<Rightarrow> (db_error + json list) \<times> 'd" where
  "query_stream drv cd pool sql params chunk d =
     (case dr_fetch drv (normalize_sql pool sql) (bind_all cd params) d of
        (Inl e, d) \<Rightarrow> (Inl e, d)
      | (Inr rows, d) \<Rightarrow> (stream_rows cd (max chunk 1) rows [] [], d))"

section \<open>Transactions\<close>

text \<open>A transaction that goes out of scope uncommitted, on any early return, is rolled back.\<close>

definition isolation_sql :: "isolation_level \<Rightarrow> db_kind \<Rightarrow> string" where
  "isolation_sql level kind = ''SET TRANSACTION ISOLATION LEVEL '' @ iso_to_sql level kind"

definition begin_with :: "('f, 'd) driver \<Rightarrow> any_pool \<Rightarrow> isolation_level option \<Rightarrow> 'd \<Rightarrow> (db_error + unit) \<times> 'd" where
  "begin_with drv pool isolation d =
     (case dr_begin drv d of
        (Inl e, d) \<Rightarrow> (Inl e, d)
      | (Inr _, d) \<Rightarrow>
          (case isolation of
             Some level \<Rightarrow>
               if iso_is_supported level (ap_kind pool) \<and> ap_kind pool \<noteq> Sqlite
               then (case dr_tx drv (isolation_sql level (ap_kind pool)) [] d of
                       (Inl e, d) \<Rightarrow> (Inl e, dr_rollback drv d)
                     | (Inr _, d) \<Rightarrow> (Inr (), d))
               else (Inr (), d)
           | None \<Rightarrow> (Inr (), d)))"

definition pool_begin :: "('f, 'd) driver \<Rightarrow> any_pool \<Rightarrow> 'd \<Rightarrow> (db_error + unit) \<times> 'd" where
  "pool_begin drv pool d = begin_with drv pool (ap_default_isolation pool) d"

datatype acquire_error = Acquire_timed_out | Acquire_pool_closed | Acquire_other db_error

fun acquire_error_from :: "db_error \<Rightarrow> acquire_error" where
  "acquire_error_from Pool_timed_out = Acquire_timed_out"
| "acquire_error_from Pool_closed = Acquire_pool_closed"
| "acquire_error_from e = Acquire_other e"

definition begin_request :: "('f, 'd) driver \<Rightarrow> 'd \<Rightarrow> (acquire_error + unit) \<times> 'd" where
  "begin_request drv d = (case dr_begin drv d of (Inl e, d) \<Rightarrow> (Inl (acquire_error_from e), d) | (Inr _, d) \<Rightarrow> (Inr (), d))"

fun run_statements ::
  "('f, 'd) driver \<Rightarrow> 'f codec \<Rightarrow> any_pool \<Rightarrow> (string \<times> 'f param list) list \<Rightarrow> 'd \<Rightarrow> json \<Rightarrow> nat \<Rightarrow> (db_error + json \<times> nat) \<times> 'd" where
  "run_statements drv cd pool [] d last_rows total_affected = (Inr (last_rows, total_affected), d)"
| "run_statements drv cd pool ((sql, params) # stmts) d last_rows total_affected =
     (case dr_tx drv (normalize_sql pool sql) (bind_all cd params) d of
        (Inl e, d) \<Rightarrow> (Inl e, d)
      | (Inr (rows, affected), d) \<Rightarrow>
          (case rows_json (cd_float_json cd) (cd_b64 cd) rows of
             Inl e \<Rightarrow> (Inl e, d)
           | Inr js \<Rightarrow>
               if js = [] then run_statements drv cd pool stmts d JNull (total_affected + affected)
               else run_statements drv cd pool stmts d (JArray js) total_affected))"

definition transaction_with_isolation ::
  "('f, 'd) driver \<Rightarrow> 'f codec \<Rightarrow> any_pool \<Rightarrow> (string \<times> 'f param list) list \<Rightarrow> isolation_level option \<Rightarrow> 'd \<Rightarrow> (db_error + json) \<times> 'd" where
  "transaction_with_isolation drv cd pool stmts isolation d =
     (case begin_with drv pool isolation d of
        (Inl e, d) \<Rightarrow> (Inl e, d)
      | (Inr _, d) \<Rightarrow>
          (case run_statements drv cd pool stmts d JNull 0 of
             (Inl e, d) \<Rightarrow> (Inl e, dr_rollback drv d)
           | (Inr (last_rows, total_affected), d) \<Rightarrow>
               (case dr_commit drv d of
                  (Inl e, d) \<Rightarrow> (Inl e, dr_rollback drv d)
                | (Inr _, d) \<Rightarrow>
                    (Inr (if last_rows = JNull then JObject [(''rows_affected'', JNumber (int total_affected))] else last_rows), d))))"

definition transaction_with :: "('f, 'd) driver \<Rightarrow> 'f codec \<Rightarrow> any_pool \<Rightarrow> (string \<times> 'f param list) list \<Rightarrow> 'd \<Rightarrow> (db_error + json) \<times> 'd" where
  "transaction_with drv cd pool stmts d = transaction_with_isolation drv cd pool stmts (ap_default_isolation pool) d"

definition pool_transaction :: "('f, 'd) driver \<Rightarrow> 'f codec \<Rightarrow> any_pool \<Rightarrow> (string \<times> json list) list \<Rightarrow> 'd \<Rightarrow> (db_error + json) \<times> 'd" where
  "pool_transaction drv cd pool stmts d = transaction_with drv cd pool (map (\<lambda>(s, p). (s, params_from_json cd p)) stmts) d"

section \<open>Inserting an object\<close>

definition insertable :: "string list \<Rightarrow> (string \<times> json) list \<Rightarrow> (string \<times> json) list" where
  "insertable columns obj = List.map_filter (\<lambda>c. map_option (Pair c) (map_of obj c)) columns"

text \<open>The placeholder with a number that counts from one.\<close>

definition placeholder :: "bool \<Rightarrow> nat \<Rightarrow> string" where
  "placeholder dollar i = (if dollar then ''$'' @ nat_str i else ''?'')"

text \<open>The parts of a statement that have one placeholder each, numbered on from \<open>i\<close>.\<close>

fun numbered :: "(nat \<Rightarrow> 'a \<Rightarrow> string) \<Rightarrow> nat \<Rightarrow> 'a list \<Rightarrow> string list" where
  "numbered f i [] = []"
| "numbered f i (x # xs) = f (i + 1) x # numbered f (i + 1) xs"

definition insert_sql :: "bool \<Rightarrow> string \<Rightarrow> string list \<Rightarrow> string" where
  "insert_sql dollar table cols =
     ''INSERT INTO '' @ table @ '' ('' @ join_str '', '' cols @ '') VALUES ('' @
     join_str '', '' (numbered (\<lambda>i _. placeholder dollar i) 0 cols) @ '') RETURNING *''"

definition insert_returning ::
  "('f, 'd) driver \<Rightarrow> 'f codec \<Rightarrow> any_pool \<Rightarrow> string \<Rightarrow> string list \<Rightarrow> json \<Rightarrow> 'd \<Rightarrow> (db_error + json) \<times> 'd" where
  "insert_returning drv cd pool table columns body d =
     (case as_object body of
        None \<Rightarrow> (Inl Other_db_error, d)
      | Some obj \<Rightarrow>
          (let kvs = insertable columns obj
           in if kvs = [] then (Inl Other_db_error, d)
              else case dr_fetch drv (insert_sql (ap_kind pool = Postgres) table (map fst kvs)) (bind_all cd (params_from_json cd (map snd kvs))) d of
                     (Inl e, d) \<Rightarrow> (Inl e, d)
                   | (Inr rows, d) \<Rightarrow> (rows_to_json (cd_float_json cd) (cd_b64 cd) rows, d)))"

section \<open>Named pools\<close>

type_synonym pool_manager = "(string \<times> any_pool) list"

definition pools_init :: "string option \<Rightarrow> (string \<Rightarrow> nat \<Rightarrow> nat \<Rightarrow> nat option \<Rightarrow> nat option \<Rightarrow> string list \<Rightarrow> db_error + unit) \<Rightarrow> string \<Rightarrow> database_config \<Rightarrow>
  pool_manager \<Rightarrow> (db_error + any_pool) \<times> pool_manager" where
  "pools_init cwd connect name c pools =
     (case pool_connect cwd connect c of
        Inl e \<Rightarrow> (Inl e, pools)
      | Inr pool \<Rightarrow> (Inr pool, AList.update name pool pools))"

definition pools_get :: "string \<Rightarrow> pool_manager \<Rightarrow> any_pool option" where
  "pools_get name pools = map_of pools name"

definition pools_default :: "pool_manager \<Rightarrow> any_pool option" where
  "pools_default pools = pools_get [] pools"

text \<open>\<open>healthy\<close> tells which pools answer the health check.\<close>

definition health_check_all :: "(any_pool \<Rightarrow> bool) \<Rightarrow> pool_manager \<Rightarrow> nat \<times> nat" where
  "health_check_all healthy pools = (length (filter (healthy \<circ> snd) pools), length pools)"

section \<open>Lemmas on placeholders\<close>

abbreviation placeholders :: "string \<Rightarrow> nat" where
  "placeholders s \<equiv> count_list s (CHR ''?'')"

lemma number_placeholders_append [simp]:
  "number_placeholders (a @ b) i = number_placeholders a i @ number_placeholders b (i + placeholders a)"
  by (induction a arbitrary: i) auto

lemma number_placeholders_free: "CHR ''?'' \<notin> set s \<Longrightarrow> number_placeholders s i = s"
  by (induction s arbitrary: i) auto

lemma placeholders_free: "CHR ''?'' \<notin> set s \<Longrightarrow> placeholders s = 0"
  by (simp add: count_list_0_iff)

lemma set_join_str: "set (join_str sep ps) \<subseteq> set sep \<union> (\<Union>p \<in> set ps. set p)"
  by (induction sep ps rule: join_str.induct) auto

lemma placeholders_join: "CHR ''?'' \<notin> set sep \<Longrightarrow> placeholders (join_str sep ps) = sum_list (map placeholders ps)"
  by (induction sep ps rule: join_str.induct) (auto simp: placeholders_free)

lemma join_str_Cons: "join_str sep (p # ps) = (if ps = [] then p else p @ sep @ join_str sep ps)"
  by (cases ps) auto

lemma numbered_Nil_iff [simp]: "numbered f i xs = [] \<longleftrightarrow> xs = []"
  by (cases xs) auto

lemma length_numbered [simp]: "length (numbered f i xs) = length xs"
  by (induction xs arbitrary: i) auto

lemma set_numbered: "p \<in> set (numbered f i xs) \<Longrightarrow> \<exists>j x. x \<in> set xs \<and> p = f j x"
  by (induction xs arbitrary: i) (auto, blast)

lemma numbered_join:
  assumes "CHR ''?'' \<notin> set sep"
    and "\<And>x j i. x \<in> set xs \<Longrightarrow> placeholders (f j x) = 1 \<and> number_placeholders (f j x) i = g (i + 1) x"
  shows "number_placeholders (join_str sep (numbered f j xs)) i = join_str sep (numbered g i xs) \<and>
    placeholders (join_str sep (numbered f j xs)) = length xs"
  using assms
proof (induction xs arbitrary: i j)
  case (Cons x xs)
  from Cons.IH [OF Cons.prems(1)] Cons.prems
  show ?case by (auto simp: join_str_Cons placeholders_free number_placeholders_free)
qed simp

lemma nat_str_free: "CHR ''?'' \<notin> set (nat_str n)"
  using nat_str_digits [of n] digits_free [of "nat_str n" "CHR ''?''"] by (auto simp: list_all_iff is_digit_def)

lemma insert_build_placeholders:
  assumes "CHR ''?'' \<notin> set (iq_table q)" and "CHR ''?'' \<notin> \<Union> (set ` set (iq_columns q))"
    and "CHR ''?'' \<notin> \<Union> (set ` set (case iq_returning q of Some r \<Rightarrow> r | None \<Rightarrow> []))"
  shows "placeholders (insert_build q) = sum_list (map length (iq_values q))"
proof -
  have row: "placeholders (row_placeholders r) = length r" for r
    by (simp add: row_placeholders_def placeholders_join comp_def sum_list_triv)
  have free: "CHR ''?'' \<notin> set (join_str '', '' ps)" if "CHR ''?'' \<notin> \<Union> (set ` set ps)" for ps
    using that set_join_str [of "'', ''" ps] by auto
  have "placeholders (returning_clause (iq_returning q)) = 0"
    using assms(3) free by (auto simp: returning_clause_def placeholders_free split: option.splits)
  then show ?thesis using assms(1) free [OF assms(2)]
    by (simp add: insert_build_def placeholders_free placeholders_join comp_def row)
qed

section \<open>Lemmas on streams and transactions\<close>

lemma stream_rows_spec:
  assumes "0 < chunk" and "length buf < chunk"
  shows "case rows_json (cd_float_json cd) (cd_b64 cd) rows of
     Inl e \<Rightarrow> stream_rows cd chunk rows buf chunks = Inl e
   | Inr js \<Rightarrow>
       \<exists>css. stream_rows cd chunk rows buf chunks = Inr (chunks @ map JArray css) \<and> concat css = buf @ js \<and>
         list_all (\<lambda>c. length c = chunk) (butlast css) \<and> list_all (\<lambda>c. c \<noteq> [] \<and> length c \<le> chunk) css"
  using assms(2)
proof (induction rows arbitrary: buf chunks)
  case Nil
  then show ?case by (auto intro: exI [of _ "if buf = [] then [] else [buf]"])
next
  case (Cons r rows)
  show ?case
  proof (cases "row_to_json (cd_float_json cd) (cd_b64 cd) r")
    case (Inr j)
    show ?thesis
    proof (cases "length (buf @ [j]) = chunk")
      case True
      have "length [] < chunk" using assms(1) by simp
      note IH = Cons.IH [OF this, of "chunks @ [JArray (buf @ [j])]"]
      show ?thesis
      proof (cases "rows_json (cd_float_json cd) (cd_b64 cd) rows")
        case (Inl e)
        then show ?thesis using IH True \<open>row_to_json _ _ r = Inr j\<close> by simp
      next
        case (Inr js)
        then obtain css where css: "stream_rows cd chunk rows [] (chunks @ [JArray (buf @ [j])]) = Inr ((chunks @ [JArray (buf @ [j])]) @ map JArray css)"
          "concat css = js" "list_all (\<lambda>c. length c = chunk) (butlast css)" "list_all (\<lambda>c. c \<noteq> [] \<and> length c \<le> chunk) css"
          using IH by auto
        then show ?thesis using True Inr \<open>row_to_json _ _ r = Inr j\<close> by (auto intro!: exI [of _ "(buf @ [j]) # css"])
      qed
    next
      case False
      then have "length (buf @ [j]) < chunk" using Cons.prems by simp
      from Cons.IH [OF this, of chunks] False Inr show ?thesis by (auto split: sum.splits)
    qed
  qed simp
qed

text \<open>What the documentation of the databases says of transactions: \<open>content d\<close> is what is stored, \<open>work d\<close> what the open transaction sees, if
  one is open. Beginning, the statements and a rollback leave what is stored; a statement that succeeds changes what the transaction sees by
  \<open>eff\<close>; a commit that succeeds stores it, and one that fails may have been lost or only its answer. The statements \<open>sqls\<close> are those that do not
  end the transaction themselves, as DDL does on MySQL.\<close>

definition transactional ::
  "('f, 'd) driver \<Rightarrow> ('d \<Rightarrow> 's) \<Rightarrow> ('d \<Rightarrow> 's option) \<Rightarrow> (string \<Rightarrow> 'f bound list \<Rightarrow> 's \<Rightarrow> 's) \<Rightarrow> string set \<Rightarrow> bool" where
  "transactional drv content work eff sqls \<longleftrightarrow>
     (\<forall>d r d'. dr_begin drv d = (r, d') \<longrightarrow>
        content d' = content d \<and> work d' = (case r of Inl e \<Rightarrow> work d | Inr _ \<Rightarrow> Some (content d))) \<and>
     (\<forall>sql bs d s r d'. sql \<in> sqls \<longrightarrow> work d = Some s \<longrightarrow> dr_tx drv sql bs d = (r, d') \<longrightarrow>
        content d' = content d \<and> (\<forall>x. r = Inr x \<longrightarrow> work d' = Some (eff sql bs s))) \<and>
     (\<forall>level kind d s r d'. work d = Some s \<longrightarrow> dr_tx drv (isolation_sql level kind) [] d = (r, d') \<longrightarrow>
        content d' = content d \<and> (\<forall>x. r = Inr x \<longrightarrow> work d' = Some s)) \<and>
     (\<forall>d s r d'. work d = Some s \<longrightarrow> dr_commit drv d = (r, d') \<longrightarrow>
        (case r of Inl e \<Rightarrow> content d' \<in> {content d, s} | Inr _ \<Rightarrow> content d' = s \<and> work d' = None)) \<and>
     (\<forall>d. content (dr_rollback drv d) = content d \<and> work (dr_rollback drv d) = None)"

text \<open>The content with all statements applied, in order.\<close>

definition all_applied ::
  "(string \<Rightarrow> 'f bound list \<Rightarrow> 's \<Rightarrow> 's) \<Rightarrow> 'f codec \<Rightarrow> any_pool \<Rightarrow> (string \<times> 'f param list) list \<Rightarrow> 's \<Rightarrow> 's" where
  "all_applied eff cd pool stmts s = fold (\<lambda>(sql, params). eff (normalize_sql pool sql) (bind_all cd params)) stmts s"

lemma transactionalD:
  assumes "transactional drv content work eff sqls"
  shows transactional_begin: "dr_begin drv d = (r, d') \<Longrightarrow>
      content d' = content d \<and> work d' = (case r of Inl e \<Rightarrow> work d | Inr _ \<Rightarrow> Some (content d))"
    and transactional_tx: "sql \<in> sqls \<Longrightarrow> work d = Some s \<Longrightarrow> dr_tx drv sql bs d = (x, d') \<Longrightarrow>
      content d' = content d \<and> (\<forall>y. x = Inr y \<longrightarrow> work d' = Some (eff sql bs s))"
    and transactional_isolation: "work d = Some s \<Longrightarrow> dr_tx drv (isolation_sql level kind) [] d = (x, d') \<Longrightarrow>
      content d' = content d \<and> (\<forall>y. x = Inr y \<longrightarrow> work d' = Some s)"
    and transactional_commit: "work d = Some s \<Longrightarrow> dr_commit drv d = (r, d') \<Longrightarrow>
      (case r of Inl e \<Rightarrow> content d' \<in> {content d, s} | Inr _ \<Rightarrow> content d' = s \<and> work d' = None)"
    and transactional_rollback: "content (dr_rollback drv d) = content d \<and> work (dr_rollback drv d) = None"
  using assms unfolding transactional_def by (fast+)

lemma begin_with_spec:
  assumes T: "transactional drv content work eff sqls" and "work d = None" and b: "begin_with drv pool level d = (r, d')"
  shows "content d' = content d \<and> work d' = (case r of Inl e \<Rightarrow> None | Inr _ \<Rightarrow> Some (content d))"
proof (cases "dr_begin drv d")
  case (Pair r0 d0)
  note begun = transactional_begin [OF T Pair]
  show ?thesis
  proof (cases r0)
    case (Inl e)
    then show ?thesis using b begun Pair assms(2) by (auto simp: begin_with_def)
  next
    case (Inr u)
    then have w: "work d0 = Some (content d)" and c: "content d0 = content d" using begun by simp_all
    show ?thesis
    proof (cases "\<exists>lv. level = Some lv \<and> iso_is_supported lv (ap_kind pool) \<and> ap_kind pool \<noteq> Sqlite")
      case True
      then obtain lv where lv: "level = Some lv" "iso_is_supported lv (ap_kind pool)" "ap_kind pool \<noteq> Sqlite" by blast
      obtain x d1 where x: "dr_tx drv (isolation_sql lv (ap_kind pool)) [] d0 = (x, d1)" by fastforce
      note transactional_isolation [OF T w x]
      then show ?thesis using b lv x c Pair Inr transactional_rollback [OF T, of d1]
        by (auto simp: begin_with_def split: sum.splits)
    qed (use b w c Pair Inr in \<open>auto simp: begin_with_def split: option.splits\<close>)
  qed
qed

lemma run_statements_spec:
  assumes T: "transactional drv content work eff sqls"
  shows "(\<lambda>(sql, params). normalize_sql pool sql) ` set stmts \<subseteq> sqls \<Longrightarrow> work d = Some s \<Longrightarrow>
    run_statements drv cd pool stmts d rows n = (r, d') \<Longrightarrow>
    content d' = content d \<and> (\<forall>x. r = Inr x \<longrightarrow> work d' = Some (all_applied eff cd pool stmts s))"
proof (induction stmts arbitrary: d s rows n)
  case Nil
  then show ?case by (auto simp: all_applied_def)
next
  case (Cons stmt stmts)
  obtain sql params where stmt: "stmt = (sql, params)" by fastforce
  obtain x d1 where x: "dr_tx drv (normalize_sql pool sql) (bind_all cd params) d = (x, d1)" by fastforce
  have "normalize_sql pool sql \<in> sqls" using Cons.prems(1) stmt by auto
  note step = transactional_tx [OF T this Cons.prems(2) x]
  show ?case
  proof (cases "\<exists>y js. x = Inr y \<and> rows_json (cd_float_json cd) (cd_b64 cd) (fst y) = Inr js")
    case True
    then obtain rs a js where y: "x = Inr (rs, a)" "rows_json (cd_float_json cd) (cd_b64 cd) rs = Inr js" by auto
    have w: "work d1 = Some (eff (normalize_sql pool sql) (bind_all cd params) s)" using step y by simp
    have "run_statements drv cd pool stmts d1 (if js = [] then JNull else JArray js) (if js = [] then n + a else n) = (r, d')"
      using Cons.prems(3) stmt x y by (simp split: if_splits)
    from Cons.IH [OF _ w this] Cons.prems(1) step show ?thesis by (auto simp: all_applied_def stmt)
  next
    case False
    then show ?thesis using Cons.prems(3) stmt x step by (auto split: sum.splits)
  qed
qed

lemma json_get_string [simp]: "json_get (JString s) k = None" "json_get (JBool b) k = None" "json_get (JNumber n) k = None" "json_get JNull k = None"
  by simp_all

section \<open>Properties\<close>

text \<open>Streaming a query cuts the result set into chunks: together they are the rows in order, all but the last have
  exactly the requested size, where zero counts as one, none is empty, and a column that cannot be read fails the stream as it fails the whole query.\<close>

theorem streamed_chunks_partition_rows:
  "case (query_with drv cd pool sql params d, query_stream drv cd pool sql params chunk d) of
     ((Inl e, d1), (r, d2)) \<Rightarrow> r = Inl e \<and> d2 = d1
   | ((Inr rows, d1), (r, d2)) \<Rightarrow>
       d2 = d1 \<and>
       (\<exists>css. r = Inr (map JArray css) \<and> rows = JArray (concat css) \<and> list_all (\<lambda>c. length c = max chunk 1) (butlast css) \<and>
          list_all (\<lambda>c. c \<noteq> [] \<and> length c \<le> max chunk 1) css)"
proof (cases "dr_fetch drv (normalize_sql pool sql) (bind_all cd params) d")
  case (Pair res d1)
  show ?thesis
  proof (cases res)
    case (Inr rows)
    have "length [] < max chunk 1" and "0 < max chunk 1" by simp_all
    from stream_rows_spec [OF this(2,1), of cd rows "[]"] show ?thesis
      by (cases "rows_json (cd_float_json cd) (cd_b64 cd) rows")
        (auto simp: query_with_def query_stream_def rows_to_json_def Pair Inr)
  qed (simp add: query_with_def query_stream_def Pair)
qed


text \<open>A database whose content is a number: every statement adds one, except one that fails after it has changed what the transaction sees.\<close>

definition example_driver :: "(unit, nat \<times> nat option) driver" where
  "example_driver =
     \<lparr>dr_fetch = (\<lambda>_ _ d. (Inr [], d)), dr_execute = (\<lambda>_ _ d. (Inr 0, d)),
      dr_begin = (\<lambda>(c, w). (Inr (), (c, Some c))),
      dr_tx = (\<lambda>sql _ (c, w).
        if sql = ''BAD'' then (Inl Pool_closed, (c, map_option Suc w))
        else if starts_with sql ''SET'' then (Inr ([], 0), (c, w)) else (Inr ([], 1), (c, map_option Suc w))),
      dr_commit = (\<lambda>(c, w). (Inr (), (case w of Some s \<Rightarrow> (s, None) | None \<Rightarrow> (c, None)))),
      dr_rollback = (\<lambda>(c, w). (c, None))\<rparr>"

lemma example_driver_transactional:
  "transactional example_driver fst snd (\<lambda>_ _. Suc) {''UPDATE t SET a = 1'', ''DELETE FROM t'', ''BAD''}"
  by (auto simp: transactional_def example_driver_def isolation_sql_def split: if_splits prod.splits)

definition example_codec :: "unit codec" where
  "example_codec = \<lparr>cd_print = (\<lambda>_. []), cd_to_f64 = (\<lambda>_. ()), cd_float_json = (\<lambda>_. None), cd_b64 = id, cd_unb64 = Some\<rparr>"

definition example_pool :: any_pool where
  "example_pool = \<lparr>ap_kind = Sqlite, ap_default_isolation = None, ap_request_acquire_timeout = Some 3\<rparr>"


text \<open>A value that was read from a column and is sent back as a parameter is bound as the value of the column: null, Boolean, integer, text
  and binary values survive the way through JSON.\<close>

lemma column_value_roundtrip:
  assumes "cd_unb64 cd (cd_b64 cd b) = Some b" and "- (2 ^ 63) \<le> n" and "n < 2 ^ 63"
  shows "map (map_sum id (bind_param (cd_print cd) \<circ> param_from (cd_to_f64 cd) (cd_unb64 cd)) \<circ> column_to_json (cd_float_json cd) (cd_b64 cd))
      [\<lparr>get_bool = Some v, get_i32 = i, get_i64 = i', get_f64 = f, get_bytes = bs, get_text = t\<rparr>,
       \<lparr>get_bool = None, get_i32 = Some None, get_i64 = i', get_f64 = f, get_bytes = bs, get_text = t\<rparr>,
       \<lparr>get_bool = None, get_i32 = None, get_i64 = Some (Some n), get_f64 = f, get_bytes = bs, get_text = t\<rparr>,
       \<lparr>get_bool = None, get_i32 = None, get_i64 = None, get_f64 = None, get_bytes = Some (Some b), get_text = t\<rparr>,
       \<lparr>get_bool = None, get_i32 = None, get_i64 = None, get_f64 = None, get_bytes = None, get_text = Inr (Some s)\<rparr>] =
    [Inr (case v of Some x \<Rightarrow> B_bool x | None \<Rightarrow> B_null), Inr B_null, Inr (B_int n), Inr (B_bytes b), Inr (B_text s)]"
  using assms by (simp add: column_to_json_def nullable_def param_from_def bytes_marker_def split: option.split)

section \<open>Defects\<close>

text \<open>The statements that every SQLite connection runs by default name two settings without the keyword \<open>PRAGMA\<close>, which makes them no statements;
  their failure is ignored. The comment says that write-ahead logging is applied unconditionally.\<close>

lemma default_pragmas_are_no_statements:
  "connection_statements default_database_config Sqlite = [''PRAGMA busy_timeout=5000'', ''journal_mode=WAL'', ''synchronous=NORMAL''] \<and>
   \<not> starts_with ''journal_mode=WAL'' ''PRAGMA'' \<and> \<not> starts_with ''synchronous=NORMAL'' ''PRAGMA''"
  by (simp add: connection_statements_def default_database_config_def)

text \<open>For Postgres, a question mark inside a text literal or an operator is renumbered as well.\<close>

lemma literal_question_mark_rewritten:
  "normalize_sql \<lparr>ap_kind = Postgres, ap_default_isolation = None, ap_request_acquire_timeout = None\<rparr> ([CHR 0x27] @ ''why?'' @ [CHR 0x27]) =
   [CHR 0x27] @ ''why$1'' @ [CHR 0x27]"
  by code_simp

end
