(* ===== verification/Crud.thy ===== *)
theory Crud
  imports Database
begin

text \<open>
  The generated CRUD handlers of \<^verbatim>\<open>crates/justapi-core/src/server/crud.rs\<close> over the pool of \<open>Database\<close>.

  \<^item> \<open>crud_query\<close> is the part of \<open>crud_dispatch_bytes\<close> before the database is asked: an error response, or the statement and its
    parameters. \<open>crud_reply\<close> is the part after it.
  \<^item> Parsing of JSON, the schema of a compiled validator and the decoding of bytes as UTF-8 are parameters.

  The lemmas show that with a validated specification no text of the client reaches a statement, whatever it sends, that parameters and
  placeholders agree for every engine, and that rejected requests do not reach the database.
\<close>

section \<open>Specifications\<close>

datatype crud_op = Crud_insert | Crud_select | Crud_update | Crud_delete

record crud_spec =
  cs_op :: crud_op
  cs_table :: string
  cs_columns :: "string list"
  cs_id_column :: string

definition ident_char :: "char \<Rightarrow> bool" where
  "ident_char c \<longleftrightarrow> is_alpha c \<or> is_digit c \<or> c = CHR ''_''"

definition is_valid_sql_identifier :: "string \<Rightarrow> bool" where
  "is_valid_sql_identifier name \<longleftrightarrow>
     (case name of [] \<Rightarrow> False | first # rest \<Rightarrow> (is_alpha first \<or> first = CHR ''_'') \<and> list_all ident_char rest)"

definition identifier_error :: "string \<Rightarrow> string \<Rightarrow> string" where
  "identifier_error what name =
     ''Invalid '' @ what @ '' '' @ [CHR 0x27] @ name @ [CHR 0x27] @ '': must be a valid SQL identifier (alphanumeric + underscore)''"

definition spec_validate :: "crud_spec \<Rightarrow> string + unit" where
  "spec_validate spec =
     (if \<not> is_valid_sql_identifier (cs_table spec) then Inl (identifier_error ''table name'' (cs_table spec))
      else if \<not> is_valid_sql_identifier (cs_id_column spec) then Inl (identifier_error ''id_column'' (cs_id_column spec))
      else case find (\<lambda>col. \<not> is_valid_sql_identifier col) (cs_columns spec) of
             Some col \<Rightarrow> Inl (identifier_error ''column name'' col)
           | None \<Rightarrow> Inr ())"

definition eq_ignore_ascii_case :: "string \<Rightarrow> string \<Rightarrow> bool" where
  "eq_ignore_ascii_case a b \<longleftrightarrow> ascii_lower a = ascii_lower b"

definition is_allowed :: "string list \<Rightarrow> string \<Rightarrow> bool" where
  "is_allowed columns name = list_ex (\<lambda>c. eq_ignore_ascii_case c name) columns"

section \<open>Query strings and path parameters\<close>

definition crud_hex_digit :: "char \<Rightarrow> nat option" where
  "crud_hex_digit b =
     (let n = (of_char b :: nat) in
      if 48 \<le> n \<and> n \<le> 57 then Some (n - 48) else if 97 \<le> n \<and> n \<le> 102 then Some (n - 87)
      else if 65 \<le> n \<and> n \<le> 70 then Some (n - 55) else None)"

text \<open>The loop of \<open>percent_decode\<close>.\<close>

fun percent_bytes :: "string \<Rightarrow> string" where
  "percent_bytes [] = []"
| "percent_bytes (b # s) =
     (if b = CHR ''+'' then CHR '' '' # percent_bytes s
      else if b = CHR ''%'' \<and> 2 \<le> length s
           then (case (crud_hex_digit (s ! 0), crud_hex_digit (s ! 1)) of
                   (Some hi, Some lo) \<Rightarrow> char_of (hi * 16 + lo) # percent_bytes (drop 2 s)
                 | _ \<Rightarrow> b # percent_bytes s)
      else b # percent_bytes s)"

definition percent_decode :: "(string \<Rightarrow> string) \<Rightarrow> string \<Rightarrow> string" where
  "percent_decode lossy s = lossy (percent_bytes s)"

definition query_pair :: "(string \<Rightarrow> string) \<Rightarrow> string list \<Rightarrow> string \<Rightarrow> (string \<times> string) option" where
  "query_pair lossy allowed pair =
     (if pair = [] then None
      else let (k, v) = (case split_once ''='' pair of Some kv \<Rightarrow> kv | None \<Rightarrow> (pair, []));
               k = percent_decode lossy k
           in if is_allowed allowed k then Some (k, percent_decode lossy v) else None)"

definition crud_parse_query :: "(string \<Rightarrow> string) \<Rightarrow> string \<Rightarrow> string list \<Rightarrow> (string \<times> string) list" where
  "crud_parse_query lossy filter_bytes allowed = List.map_filter (query_pair lossy allowed) (split_on (CHR ''&'') (lossy filter_bytes))"

definition id_param :: "(string \<times> string) list \<Rightarrow> string \<Rightarrow> json option" where
  "id_param path_params id_column =
     (case find (\<lambda>(k, _). eq_ignore_ascii_case k id_column) path_params of
        None \<Rightarrow> None
      | Some (_, raw) \<Rightarrow> (case parse_int 64 raw of Some i \<Rightarrow> Some (JNumber i) | None \<Rightarrow> Some (JString raw)))"

section \<open>Dispatch\<close>

definition equals_placeholder :: "bool \<Rightarrow> nat \<Rightarrow> string \<Rightarrow> string" where
  "equals_placeholder dollar i column = column @ '' = '' @ placeholder dollar i"

definition json_body :: "(json \<Rightarrow> string) \<Rightarrow> (string \<Rightarrow> string + json) \<Rightarrow> string \<Rightarrow> http_response + (string \<times> json) list" where
  "json_body print parse body =
     (case parse body of
        Inl _ \<Rightarrow> Inl (validation_response print ''request body must be valid JSON'')
      | Inr v \<Rightarrow>
          (case as_object v of
             None \<Rightarrow> Inl (validation_response print ''request body must be a JSON object'')
           | Some obj \<Rightarrow> Inr obj))"

definition insert_plan ::
  "(json \<Rightarrow> string) \<Rightarrow> (string \<Rightarrow> string + json) \<Rightarrow> bool \<Rightarrow> crud_spec \<Rightarrow> string \<Rightarrow> validator option \<Rightarrow>
   http_response + string \<times> json list" where
  "insert_plan print parse dollar spec body validator =
     (case (case validator of Some v \<Rightarrow> compiled_validate parse v body | None \<Rightarrow> Inr ()) of
        Inl e \<Rightarrow> Inl (validation_response print (verr_display e))
      | Inr _ \<Rightarrow>
          (case json_body print parse body of
             Inl resp \<Rightarrow> Inl resp
           | Inr obj \<Rightarrow>
               (let kvs = insertable (cs_columns spec) obj
                in if kvs = [] then Inl (validation_response print ''no insertable columns matched the request body'')
                   else Inr (insert_sql dollar (cs_table spec) (map fst kvs), map snd kvs))))"

definition select_filters :: "(string \<Rightarrow> string) \<Rightarrow> crud_spec \<Rightarrow> (string \<times> string) list \<Rightarrow> string \<Rightarrow> (string \<times> json) list" where
  "select_filters lossy spec path_params query_string =
     (case id_param path_params (cs_id_column spec) of Some v \<Rightarrow> [(cs_id_column spec, v)] | None \<Rightarrow> []) @
     map (\<lambda>(k, v). (k, JString v)) (crud_parse_query lossy query_string (cs_columns spec))"

definition select_sql :: "bool \<Rightarrow> string \<Rightarrow> string list \<Rightarrow> string" where
  "select_sql dollar table cols = ''SELECT * FROM '' @ table @ where_clause (numbered (equals_placeholder dollar) 0 cols)"

definition update_sql :: "bool \<Rightarrow> string \<Rightarrow> string list \<Rightarrow> string \<Rightarrow> string" where
  "update_sql dollar table cols id_column =
     ''UPDATE '' @ table @ '' SET '' @ join_str '', '' (numbered (equals_placeholder dollar) 0 cols) @ '' WHERE '' @
     equals_placeholder dollar (length cols + 1) id_column @ '' RETURNING *''"

definition delete_sql :: "bool \<Rightarrow> string \<Rightarrow> string \<Rightarrow> string" where
  "delete_sql dollar table id_column = ''DELETE FROM '' @ table @ '' WHERE '' @ equals_placeholder dollar 1 id_column @ '' RETURNING *''"

definition update_plan ::
  "(json \<Rightarrow> string) \<Rightarrow> (string \<Rightarrow> string + json) \<Rightarrow> bool \<Rightarrow> crud_spec \<Rightarrow> (string \<times> string) list \<Rightarrow> string \<Rightarrow> http_response + string \<times> json list" where
  "update_plan print parse dollar spec path_params body =
     (case id_param path_params (cs_id_column spec) of
        None \<Rightarrow> Inl (error_response print 400 ''missing path id for update'')
      | Some v \<Rightarrow>
          (case json_body print parse body of
             Inl resp \<Rightarrow> Inl resp
           | Inr obj \<Rightarrow>
               (let kvs = insertable (cs_columns spec) obj
                in if kvs = [] then Inl (validation_response print ''no updatable columns matched the request body'')
                   else Inr (update_sql dollar (cs_table spec) (map fst kvs) (cs_id_column spec), map snd kvs @ [v]))))"

definition crud_query ::
  "(json \<Rightarrow> string) \<Rightarrow> (string \<Rightarrow> string + json) \<Rightarrow> (string \<Rightarrow> string) \<Rightarrow> db_kind \<Rightarrow> crud_spec \<Rightarrow> (string \<times> string) list \<Rightarrow> string \<Rightarrow> string \<Rightarrow>
   validator option \<Rightarrow> http_response + string \<times> json list" where
  "crud_query print parse lossy kind spec path_params query_string body validator =
     (let dollar = (kind = Postgres)
      in case cs_op spec of
           Crud_insert \<Rightarrow> insert_plan print parse dollar spec body validator
         | Crud_select \<Rightarrow>
             (let filters = select_filters lossy spec path_params query_string
              in Inr (select_sql dollar (cs_table spec) (map fst filters), map snd filters))
         | Crud_update \<Rightarrow> update_plan print parse dollar spec path_params body
         | Crud_delete \<Rightarrow>
             (case id_param path_params (cs_id_column spec) of
                None \<Rightarrow> Inl (error_response print 400 ''missing path id for delete'')
              | Some v \<Rightarrow> Inr (delete_sql dollar (cs_table spec) (cs_id_column spec), [v])))"

fun first_row :: "json \<Rightarrow> json option" where
  "first_row (JArray (row # rows)) = Some row"
| "first_row _ = None"

definition crud_reply :: "(json \<Rightarrow> string) \<Rightarrow> crud_op \<Rightarrow> db_error + json \<Rightarrow> http_response" where
  "crud_reply print op result =
     (case result of
        Inl e \<Rightarrow> db_error_response print e
      | Inr rows \<Rightarrow>
          (case op of
             Crud_insert \<Rightarrow> json_response 200 (print (case first_row rows of Some row \<Rightarrow> row | None \<Rightarrow> rows))
           | Crud_select \<Rightarrow> json_response 200 (print rows)
           | _ \<Rightarrow>
               (case first_row rows of
                  Some row \<Rightarrow> json_response 200 (print row)
                | None \<Rightarrow> error_response print 404 ''row not found'')))"

definition crud_dispatch_bytes ::
  "('f, 'd) driver \<Rightarrow> 'f codec \<Rightarrow> (string \<Rightarrow> string + json) \<Rightarrow> (string \<Rightarrow> string) \<Rightarrow> any_pool \<Rightarrow> crud_spec \<Rightarrow> (string \<times> string) list \<Rightarrow>
   string \<Rightarrow> string \<Rightarrow> validator option \<Rightarrow> 'd \<Rightarrow> http_response \<times> 'd" where
  "crud_dispatch_bytes drv cd parse lossy pool spec path_params query_string body validator d =
     (case crud_query (cd_print cd) parse lossy (ap_kind pool) spec path_params query_string body validator of
        Inl resp \<Rightarrow> (resp, d)
      | Inr (sql, params) \<Rightarrow>
          (case query_with_params drv cd pool sql params d of
             (result, d) \<Rightarrow> (crud_reply (cd_print cd) (cs_op spec) result, d)))"

definition default_max_body_size :: nat where
  "default_max_body_size = 50 * 1024 * 1024"

text \<open>\<open>read\<close> is the body as it arrives, \<open>None\<close> if the transport fails.\<close>

definition crud_handler ::
  "('f, 'd) driver \<Rightarrow> 'f codec \<Rightarrow> (string \<Rightarrow> string + json) \<Rightarrow> (string \<Rightarrow> string) \<Rightarrow> any_pool \<Rightarrow> crud_spec \<Rightarrow> validator option \<Rightarrow>
   (http_request \<Rightarrow> string option) \<Rightarrow> (http_request \<Rightarrow> (string \<times> string) list option) \<Rightarrow> 'd handler" where
  "crud_handler drv cd parse lossy pool spec validator read path_params req d =
     (case read req of
        Some body \<Rightarrow>
          if length body \<le> default_max_body_size
          then (case crud_dispatch_bytes drv cd parse lossy pool spec (case path_params req of Some ps \<Rightarrow> ps | None \<Rightarrow> [])
                       (case rq_query req of Some q \<Rightarrow> q | None \<Rightarrow> []) body validator d of
                  (resp, d) \<Rightarrow> (Response resp, d))
          else (Response (error_response (cd_print cd) 400 ''could not read request body''), d)
      | None \<Rightarrow> (Response (error_response (cd_print cd) 400 ''could not read request body''), d))"

definition crud_insert_handler ::
  "('f, 'd) driver \<Rightarrow> 'f codec \<Rightarrow> (string \<Rightarrow> string + json) \<Rightarrow> (string \<Rightarrow> string) \<Rightarrow> any_pool \<Rightarrow> string \<Rightarrow> string list \<Rightarrow>
   validator option \<Rightarrow> (http_request \<Rightarrow> string option) \<Rightarrow> (http_request \<Rightarrow> (string \<times> string) list option) \<Rightarrow> 'd handler" where
  "crud_insert_handler drv cd parse lossy pool table columns validator =
     crud_handler drv cd parse lossy pool
       \<lparr>cs_op = Crud_insert, cs_table = table, cs_columns = columns, cs_id_column = ''id''\<rparr> validator"

definition crud_insert_bytes ::
  "('f, 'd) driver \<Rightarrow> 'f codec \<Rightarrow> (string \<Rightarrow> string + json) \<Rightarrow> (string \<Rightarrow> string) \<Rightarrow> any_pool \<Rightarrow> string \<Rightarrow> string list \<Rightarrow>
   validator option \<Rightarrow> string \<Rightarrow> 'd \<Rightarrow> http_response \<times> 'd" where
  "crud_insert_bytes drv cd parse lossy pool table columns validator body =
     crud_dispatch_bytes drv cd parse lossy pool
       \<lparr>cs_op = Crud_insert, cs_table = table, cs_columns = columns, cs_id_column = ''id''\<rparr> [] [] body validator"

definition crud_select_handler :: "(json \<Rightarrow> string) \<Rightarrow> 'd handler" where
  "crud_select_handler print req d = (Response (error_response print 501 ''use crud_handler''), d)"

section \<open>Lemmas on identifiers\<close>

definition safe_char :: "char \<Rightarrow> bool" where
  "safe_char c \<longleftrightarrow> ident_char c \<or> c \<in> set '' ,()=*?$''"

lemma ident_char_safe: "ident_char c \<Longrightarrow> safe_char c" and ident_char_not_mark: "ident_char c \<Longrightarrow> c \<noteq> CHR ''?''"
  by (auto simp: safe_char_def ident_char_def is_alpha_def is_digit_def)

lemma valid_identifier_chars: "is_valid_sql_identifier name \<Longrightarrow> list_all ident_char name"
  by (auto simp: is_valid_sql_identifier_def ident_char_def split: list.splits)

lemma valid_identifier_free: "is_valid_sql_identifier name \<Longrightarrow> CHR ''?'' \<notin> set name"
  using valid_identifier_chars ident_char_not_mark by (fastforce simp: list_all_iff)

definition lower_char :: "char \<Rightarrow> char" where
  "lower_char c = (let n = (of_char c :: nat) in if 65 \<le> n \<and> n \<le> 90 then char_of (n + 32) else c)"

lemma ascii_lower_map: "ascii_lower s = map lower_char s"
  by (simp add: ascii_lower_def lower_char_def [abs_def])

lemma underscore_iff: "c = CHR ''_'' \<longleftrightarrow> of_char c = (95 :: nat)"
proof -
  have "(of_char (CHR ''_'') :: nat) = 95" by simp
  then show ?thesis by (metis of_char_eq_iff)
qed

lemma of_lower_char: "(of_char (lower_char c) :: nat) = (if 65 \<le> (of_char c :: nat) \<and> (of_char c :: nat) \<le> 90 then of_char c + 32 else of_char c)"
  by (simp add: lower_char_def Let_def take_bit_eq_mod)

lemma lower_char_ident [simp]: "is_alpha (lower_char c) = is_alpha c" "lower_char c = CHR ''_'' \<longleftrightarrow> c = CHR ''_''" "is_digit (lower_char c) = is_digit c"
  unfolding underscore_iff is_alpha_def is_digit_def of_lower_char by auto

lemma lowered_identifier:
  assumes "is_valid_sql_identifier a" and "eq_ignore_ascii_case a b"
  shows "is_valid_sql_identifier b"
proof -
  have low: "is_valid_sql_identifier (map lower_char s) = is_valid_sql_identifier s" for s
    by (cases s) (simp_all add: is_valid_sql_identifier_def ident_char_def [abs_def] list.pred_map comp_def)
  have "map lower_char a = map lower_char b" using assms(2) by (simp add: eq_ignore_ascii_case_def ascii_lower_map)
  then show ?thesis using low [of a] low [of b] assms(1) by simp
qed

section \<open>Lemmas on statements\<close>

text \<open>The statement of an operation on the columns it names.\<close>

definition crud_statement :: "bool \<Rightarrow> crud_spec \<Rightarrow> string list \<Rightarrow> string" where
  "crud_statement dollar spec cols =
     (case cs_op spec of
        Crud_insert \<Rightarrow> insert_sql dollar (cs_table spec) cols
      | Crud_select \<Rightarrow> select_sql dollar (cs_table spec) cols
      | Crud_update \<Rightarrow> update_sql dollar (cs_table spec) cols (cs_id_column spec)
      | Crud_delete \<Rightarrow> delete_sql dollar (cs_table spec) (cs_id_column spec))"

definition statement_params :: "crud_spec \<Rightarrow> string list \<Rightarrow> nat" where
  "statement_params spec cols =
     (case cs_op spec of Crud_update \<Rightarrow> length cols + 1 | Crud_delete \<Rightarrow> 1 | _ \<Rightarrow> length cols)"

lemma spec_validate_ok:
  assumes "spec_validate spec = Inr ()"
  shows "is_valid_sql_identifier (cs_table spec)" "is_valid_sql_identifier (cs_id_column spec)" "list_all is_valid_sql_identifier (cs_columns spec)"
  using assms by (auto simp: spec_validate_def find_None_iff list_all_iff split: if_splits option.splits)

lemma equals_placeholder_marks:
  assumes "is_valid_sql_identifier c"
  shows "placeholders (equals_placeholder False j c) = 1"
    and "number_placeholders (equals_placeholder False j c) i = equals_placeholder True (i + 1) c"
  using valid_identifier_free [OF assms]
  by (simp_all add: equals_placeholder_def placeholders_free number_placeholders_free placeholder_def)

lemma equals_placeholders_joined:
  assumes "list_all is_valid_sql_identifier cols" and "CHR ''?'' \<notin> set sep"
  shows "number_placeholders (join_str sep (numbered (equals_placeholder False) j cols)) i = join_str sep (numbered (equals_placeholder True) i cols)"
    and "placeholders (join_str sep (numbered (equals_placeholder False) j cols)) = length cols"
  using numbered_join [of sep cols "equals_placeholder False" "equals_placeholder True" j i] assms equals_placeholder_marks
  by (auto simp: list_all_iff)

lemma column_list_free: "list_all is_valid_sql_identifier cols \<Longrightarrow> CHR ''?'' \<notin> set (join_str '', '' cols)"
  using set_join_str [of "'', ''" cols] valid_identifier_free by (fastforce simp: list_all_iff)

lemma value_marks:
  "number_placeholders (join_str '', '' (numbered (\<lambda>i _. placeholder False i) j cols)) i = join_str '', '' (numbered (\<lambda>i _. placeholder True i) i cols)"
  "placeholders (join_str '', '' (numbered (\<lambda>i _. placeholder False i) j cols)) = length cols"
  using numbered_join [of "'', ''" cols "\<lambda>i _. placeholder False i" "\<lambda>i _. placeholder True i" j i]
  by (simp_all add: placeholder_def)

lemma crud_statement_placeholders:
  assumes "is_valid_sql_identifier (cs_table spec)" "is_valid_sql_identifier (cs_id_column spec)" "list_all is_valid_sql_identifier cols"
  shows "number_placeholders (crud_statement False spec cols) 0 = crud_statement True spec cols"
    and "placeholders (crud_statement False spec cols) = statement_params spec cols"
proof -
  note free = valid_identifier_free [OF assms(1)] column_list_free [OF assms(3)]
  note marks = equals_placeholder_marks [OF assms(2)] equals_placeholders_joined [OF assms(3)] value_marks
  note defs = crud_statement_def statement_params_def insert_sql_def select_sql_def update_sql_def delete_sql_def where_clause_def
  show "number_placeholders (crud_statement False spec cols) 0 = crud_statement True spec cols"
    by (cases "cs_op spec"; cases "cols = []") (simp_all add: defs free marks placeholders_free number_placeholders_free)
  show "placeholders (crud_statement False spec cols) = statement_params spec cols"
    by (cases "cs_op spec"; cases "cols = []") (simp_all add: defs free marks placeholders_free)
qed

lemma placeholder_safe: "list_all safe_char (placeholder dollar i)"
  using nat_str_digits [of i] by (auto simp: placeholder_def list_all_iff safe_char_def ident_char_def)

lemma join_str_safe: "list_all safe_char sep \<Longrightarrow> list_all (list_all safe_char) ps \<Longrightarrow> list_all safe_char (join_str sep ps)"
  using set_join_str [of sep ps] by (fastforce simp: list_all_iff)

lemma valid_identifier_safe: "is_valid_sql_identifier name \<Longrightarrow> list_all safe_char name"
  using valid_identifier_chars ident_char_safe by (fastforce simp: list_all_iff)

lemma numbered_safe:
  assumes "\<And>i x. x \<in> set xs \<Longrightarrow> list_all safe_char (f i x)"
  shows "list_all (list_all safe_char) (numbered f i xs)"
  using set_numbered [of _ f i xs] assms by (fastforce simp: list_all_iff)

lemma equals_placeholder_safe: "is_valid_sql_identifier c \<Longrightarrow> list_all safe_char (equals_placeholder dollar i c)"
  using valid_identifier_safe [of c] placeholder_safe [of dollar i] by (simp add: equals_placeholder_def) (simp add: safe_char_def)

lemma crud_statement_safe:
  assumes "is_valid_sql_identifier (cs_table spec)" "is_valid_sql_identifier (cs_id_column spec)" "list_all is_valid_sql_identifier cols"
  shows "list_all safe_char (crud_statement dollar spec cols)"
proof -
  have sets: "list_all (list_all safe_char) (numbered (equals_placeholder dollar) 0 cols)"
    using assms(3) equals_placeholder_safe by (intro numbered_safe) (auto simp: list_all_iff)
  have vals: "list_all (list_all safe_char) (numbered (\<lambda>i _. placeholder dollar i) 0 cols)"
    using placeholder_safe by (intro numbered_safe) auto
  have cols: "list_all (list_all safe_char) cols" using assms(3) valid_identifier_safe by (auto simp: list_all_iff)
  have texts: "list_all safe_char '', ''" "list_all safe_char '' AND ''" "list_all safe_char '' WHERE ''" "list_all safe_char ''INSERT INTO ''"
    "list_all safe_char '' (''" "list_all safe_char '') VALUES (''" "list_all safe_char '') RETURNING *''" "list_all safe_char ''SELECT * FROM ''"
    "list_all safe_char ''UPDATE ''" "list_all safe_char '' SET ''" "list_all safe_char '' RETURNING *''" "list_all safe_char ''DELETE FROM ''"
    by code_simp+
  note parts = join_str_safe [OF texts(1) sets] join_str_safe [OF texts(2) sets] join_str_safe [OF texts(1) vals] join_str_safe [OF texts(1) cols]
    valid_identifier_safe [OF assms(1)] equals_placeholder_safe [OF assms(2)]
  show ?thesis
    unfolding crud_statement_def insert_sql_def select_sql_def update_sql_def delete_sql_def where_clause_def
    by (cases "cs_op spec") (simp_all only: crud_op.case list_all_append texts parts list.pred_inject(1) if_split simp_thms)
qed

section \<open>Lemmas on plans\<close>

lemma insertable_columns: "c \<in> set (map fst (insertable columns obj)) \<Longrightarrow> c \<in> set columns"
  by (auto simp: insertable_def map_filter_def)

lemma query_pair_allowed: "query_pair lossy allowed pair = Some (k, v) \<Longrightarrow> is_allowed allowed k"
  by (auto simp: query_pair_def Let_def split: if_splits option.splits prod.splits)

lemma parse_query_allowed:
  assumes "(k, v) \<in> set (crud_parse_query lossy q allowed)"
  shows "is_allowed allowed k"
proof -
  from assms obtain pair where "query_pair lossy allowed pair = Some (k, v)"
    by (auto simp: crud_parse_query_def map_filter_def)
  then show ?thesis by (rule query_pair_allowed)
qed

definition named_column :: "crud_spec \<Rightarrow> string \<Rightarrow> bool" where
  "named_column spec c \<longleftrightarrow> is_allowed (cs_id_column spec # cs_columns spec) c"

lemma column_named: "c \<in> set (cs_columns spec) \<Longrightarrow> named_column spec c"
  by (auto simp: named_column_def is_allowed_def list_ex_iff eq_ignore_ascii_case_def)

lemma named_column_valid:
  assumes "spec_validate spec = Inr ()" and "named_column spec c"
  shows "is_valid_sql_identifier c"
  using spec_validate_ok [OF assms(1)] assms(2) lowered_identifier
  by (fastforce simp: named_column_def is_allowed_def list_ex_iff list_all_iff)

text \<open>Every plan is the statement of its operation on columns that the specification names.\<close>

lemma crud_query_plan:
  assumes "crud_query print parse lossy kind spec path_params query_string body validator = Inr (sql, params)"
  shows "\<exists>cols. list_all (named_column spec) cols \<and> sql = crud_statement (kind = Postgres) spec cols \<and> length params = statement_params spec cols"
proof (cases "cs_op spec")
  case Crud_insert
  then obtain obj where "(sql, params) = (insert_sql (kind = Postgres) (cs_table spec) (map fst (insertable (cs_columns spec) obj)),
      map snd (insertable (cs_columns spec) obj))"
    using assms by (auto simp: crud_query_def insert_plan_def Let_def split: sum.splits if_splits)
  then show ?thesis using Crud_insert insertable_columns column_named
    by (intro exI [of _ "map fst (insertable (cs_columns spec) obj)"]) (auto simp: crud_statement_def statement_params_def list_all_iff)
next
  case Crud_select
  let ?fs = "select_filters lossy spec path_params query_string"
  have "named_column spec c" if "c \<in> set (map fst ?fs)" for c
    using that parse_query_allowed
    by (fastforce simp: select_filters_def named_column_def is_allowed_def eq_ignore_ascii_case_def split: option.splits)
  then show ?thesis using Crud_select assms
    by (intro exI [of _ "map fst ?fs"]) (auto simp: crud_query_def crud_statement_def statement_params_def list_all_iff Let_def)
next
  case Crud_update
  then obtain obj v where "(sql, params) = (update_sql (kind = Postgres) (cs_table spec) (map fst (insertable (cs_columns spec) obj)) (cs_id_column spec),
      map snd (insertable (cs_columns spec) obj) @ [v])"
    using assms by (auto simp: crud_query_def update_plan_def Let_def split: sum.splits if_splits option.splits)
  then show ?thesis using Crud_update insertable_columns column_named
    by (intro exI [of _ "map fst (insertable (cs_columns spec) obj)"]) (auto simp: crud_statement_def statement_params_def list_all_iff)
next
  case Crud_delete
  then show ?thesis using assms
    by (intro exI [of _ "[]"]) (auto simp: crud_query_def crud_statement_def statement_params_def split: option.splits)
qed

lemma json_body_status: "json_body print parse body = Inl resp \<Longrightarrow> rp_status resp = 422"
  by (auto simp: json_body_def validation_response_def split: sum.splits option.splits)

lemma db_error_status: "rp_status (db_error_response print e) \<in> {500, 503}"
  by (cases "(print, e)" rule: db_error_response.cases) (auto simp: service_unavailable_response_def Let_def)

section \<open>Properties\<close>

text \<open>C31: No text of the client reaches a statement. With a specification that passes its validation, whatever path parameters, query string
  and body a client sends, the statement is that of the operation on columns that the specification names, up to case; these are valid
  identifiers, and the text has no quotes, semicolons, comments or other characters beside those of identifiers, blanks and simple punctuation.\<close>

theorem crud_statements_injection_free:
  assumes "spec_validate spec = Inr ()"
    and "crud_query print parse lossy kind spec path_params query_string body validator = Inr (sql, params)"
  shows "\<exists>cols. sql = crud_statement (kind = Postgres) spec cols \<and> list_all (named_column spec) cols \<and>
    list_all is_valid_sql_identifier cols \<and> list_all safe_char sql"
proof -
  obtain cols where cols: "list_all (named_column spec) cols" "sql = crud_statement (kind = Postgres) spec cols"
    using crud_query_plan [OF assms(2)] by blast
  have valid: "list_all is_valid_sql_identifier cols" using cols(1) named_column_valid [OF assms(1)] by (auto simp: list_all_iff)
  show ?thesis using cols valid crud_statement_safe [OF spec_validate_ok(1,2) [OF assms(1)] valid] by blast
qed

text \<open>Placeholders and parameters agree for every engine: as many placeholders as parameters without numbers, and for
  Postgres the same statement with the placeholders numbered from left to right. The pool's own renumbering leaves the statement as it is.\<close>

theorem crud_parameters_match_placeholders:
  assumes "spec_validate spec = Inr ()"
    and "crud_query print parse lossy (ap_kind pool) spec path_params query_string body validator = Inr (sql, params)"
  shows "normalize_sql pool sql = sql \<and>
    (\<exists>plain. count_list plain (CHR ''?'') = length params \<and> sql = (if ap_kind pool = Postgres then number_placeholders plain 0 else plain))"
proof -
  obtain cols where cols: "list_all (named_column spec) cols" "sql = crud_statement (ap_kind pool = Postgres) spec cols"
    "length params = statement_params spec cols"
    using crud_query_plan [OF assms(2)] by blast
  have valid: "list_all is_valid_sql_identifier cols" using cols(1) named_column_valid [OF assms(1)] by (auto simp: list_all_iff)
  note marks = crud_statement_placeholders [OF spec_validate_ok(1,2) [OF assms(1)] valid]
  have "number_placeholders (number_placeholders s i) j = number_placeholders s i" for s i j
    by (induction s arbitrary: i) (auto simp: number_placeholders_free nat_str_free)
  then have "normalize_sql pool sql = sql" using cols(2) marks(1) by (metis (full_types) normalize_sql_def)
  then show ?thesis using cols marks by (intro conjI exI [of _ "crud_statement False spec cols"]) (auto split: if_splits)
qed

text \<open>A request that is rejected does not reach the database and gets a client error; a request that reaches it gets its first row or rows, or
  a missing row, which only updates and deletes report, or an error that tells whether to retry.\<close>

theorem crud_outcomes:
  assumes "crud_dispatch_bytes drv cd parse lossy pool spec path_params query_string body validator d = (resp, d')"
  shows "(rp_status resp \<in> {400, 422} \<and> d' = d) \<or>
    (\<exists>sql params result. query_with_params drv cd pool sql params d = (result, d') \<and>
       (case result of
          Inl e \<Rightarrow> rp_status resp \<in> {500, 503}
        | Inr rows \<Rightarrow> rp_status resp = (if cs_op spec \<in> {Crud_update, Crud_delete} \<and> first_row rows = None then 404 else 200)))"
proof (cases "crud_query (cd_print cd) parse lossy (ap_kind pool) spec path_params query_string body validator")
  case (Inl r)
  have "rp_status r \<in> {400, 422}"
    using Inl json_body_status
    by (cases "cs_op spec")
      (fastforce simp: crud_query_def insert_plan_def update_plan_def validation_response_def Let_def split: sum.splits option.splits if_splits)+
  then show ?thesis using assms Inl by (auto simp: crud_dispatch_bytes_def)
next
  case (Inr plan)
  obtain sql params where plan: "plan = (sql, params)" by fastforce
  obtain result d1 where q: "query_with_params drv cd pool sql params d = (result, d1)" by fastforce
  have r: "resp = crud_reply (cd_print cd) (cs_op spec) result" "d' = d1" using assms Inr plan q by (auto simp: crud_dispatch_bytes_def)
  have "case result of
      Inl e \<Rightarrow> rp_status resp \<in> {500, 503}
    | Inr rows \<Rightarrow> rp_status resp = (if cs_op spec \<in> {Crud_update, Crud_delete} \<and> first_row rows = None then 404 else 200)"
    using db_error_status by (cases "cs_op spec") (auto simp: r crud_reply_def split: sum.split option.split)
  then show ?thesis using q r(2) by blast
qed

section \<open>Witnesses\<close>

definition example_spec :: crud_spec where
  "example_spec = \<lparr>cs_op = Crud_select, cs_table = ''users'', cs_columns = [''name'', ''age''], cs_id_column = ''id''\<rparr>"

definition example_query_string :: string where
  "example_query_string = ''NAME=x%27%3B--&evil;=1&age=3''"

definition example_sql :: string where
  "example_sql = ''SELECT * FROM users WHERE id = $1 AND NAME = $2 AND age = $3''"

definition example_params :: "json list" where
  "example_params = [JString ''u7'', JString [CHR ''x'', CHR 0x27, CHR '';'', CHR ''-'', CHR ''-''], JString ''3'']"

lemma example_plan:
  "crud_query (\<lambda>_. []) (\<lambda>_. Inl []) id Postgres example_spec [(''id'', ''u7'')] example_query_string [] None = Inr (example_sql, example_params)"
  by code_simp

lemma example_spec_valid: "spec_validate example_spec = Inr ()"
  by code_simp

theorem crud_statements_injection_free_witness: "list_all safe_char example_sql"
  using crud_statements_injection_free [OF example_spec_valid example_plan] by blast

definition postgres_pool :: any_pool where
  "postgres_pool = \<lparr>ap_kind = Postgres, ap_default_isolation = None, ap_request_acquire_timeout = None\<rparr>"

theorem crud_parameters_match_placeholders_witness:
  "\<exists>plain. count_list plain (CHR ''?'') = 3 \<and> example_sql = number_placeholders plain 0"
proof -
  have "ap_kind postgres_pool = Postgres" by (simp add: postgres_pool_def)
  from crud_parameters_match_placeholders [OF example_spec_valid, of _ _ _ postgres_pool, unfolded this, OF example_plan]
  show ?thesis by (simp add: example_params_def numeral_3_eq_3)
qed

theorem crud_outcomes_witness:
  "rp_status (fst (crud_dispatch_bytes example_driver example_codec (\<lambda>_. Inl []) id example_pool (example_spec\<lparr>cs_op := Crud_delete\<rparr>)
      [(''id'', ''u7'')] [] [] None (5, None))) = 404"
proof -
  obtain resp d' where r: "crud_dispatch_bytes example_driver example_codec (\<lambda>_. Inl []) id example_pool (example_spec\<lparr>cs_op := Crud_delete\<rparr>)
      [(''id'', ''u7'')] [] [] None (5, None) = (resp, d')" by (rule prod.exhaust)
  have "rp_status resp \<notin> {400, 422}"
    using r by (auto simp: crud_dispatch_bytes_def crud_query_def id_param_def eq_ignore_ascii_case_def example_spec_def parse_int_def
      query_with_params_def query_with_def crud_reply_def example_driver_def rows_to_json_def Let_def split: option.splits)
  then have "rp_status resp = 404" using crud_outcomes [OF r]
    by (auto simp: query_with_params_def query_with_def example_driver_def rows_to_json_def)
  then show ?thesis by (simp add: r)
qed

end
