(* ===== verification/Migrations.thy ===== *)
theory Migrations
  imports Database Middleware
begin

text \<open>
  SQL migrations: \<^verbatim>\<open>crates/justapi-core/src/db/migrations.rs\<close>.

  \<^item> The database is a parameter: the engine, \<open>execute\<close> and the query for numbers, over a state.
  \<^item> A directory is the list of its entries, in the order in which it is read: a name, and the contents of the file or an error.
  \<^item> The properties assume of the database that the tracking table works, that failures leave it as it is, and that scripts do not
    write it.

  The lemmas show which statements a run executes: the scripts of the pending migrations in order, each followed by the insertion of its
  version, up to the one that fails; and that a second run applies nothing.
\<close>

section \<open>Files\<close>

record migration =
  mg_version :: nat
  mg_name :: string
  mg_up_sql :: string
  mg_down_sql :: "string option"

definition strip_suffix :: "string \<Rightarrow> string \<Rightarrow> string option" where
  "strip_suffix p s = (if starts_with (rev s) (rev p) then Some (take (length s - length p) s) else None)"

definition parse_filename :: "string \<Rightarrow> (nat \<times> string) option" where
  "parse_filename filename =
     (case strip_suffix ''.sql'' filename of
        None \<Rightarrow> None
      | Some stem \<Rightarrow>
          (case split_once ''_'' stem of
             None \<Rightarrow> None
           | Some (v, name) \<Rightarrow> (case parse_uint 64 v of Some version \<Rightarrow> Some (version, name) | None \<Rightarrow> None)))"

definition section_text :: "string \<Rightarrow> string \<Rightarrow> string" where
  "section_text marker s = trim_both is_space (trim_start_pat marker (trim_both is_space s))"

definition parse_content :: "string \<Rightarrow> string \<times> string option" where
  "parse_content content =
     (case split_once ''-- DOWN'' content of
        Some (up, down) \<Rightarrow> (section_text ''-- UP'' up, Some (section_text ''-- DOWN'' down))
      | None \<Rightarrow> (section_text ''-- UP'' content, None))"

definition quoted_path :: "string \<Rightarrow> string" where
  "quoted_path p = [CHR 0x22] @ p @ [CHR 0x22]"

definition migration_from_file :: "string \<Rightarrow> string + string \<Rightarrow> string + migration" where
  "migration_from_file filename contents =
     (case parse_filename filename of
        None \<Rightarrow> Inl (''Migration filename must be <version>_<name>.sql, got: '' @ quoted_path filename)
      | Some (version, name) \<Rightarrow>
          (case contents of
             Inl e \<Rightarrow> Inl (''Cannot read '' @ quoted_path filename @ '': '' @ e)
           | Inr content \<Rightarrow>
               (case parse_content content of
                  (up, down) \<Rightarrow> Inr \<lparr>mg_version = version, mg_name = name, mg_up_sql = up, mg_down_sql = down\<rparr>)))"

text \<open>\<open>path.extension() == Some("sql")\<close>: a name that starts with its only dot has no extension.\<close>

definition has_sql_extension :: "string \<Rightarrow> bool" where
  "has_sql_extension name \<longleftrightarrow> (case strip_suffix ''.sql'' name of Some stem \<Rightarrow> stem \<noteq> [] | None \<Rightarrow> False)"

fun read_migrations :: "(string + string \<times> (string + string)) list \<Rightarrow> string + migration list" where
  "read_migrations [] = Inr []"
| "read_migrations (Inl e # es) = Inl (''Read error: '' @ e)"
| "read_migrations (Inr (name, contents) # es) =
     (if \<not> has_sql_extension name then read_migrations es
      else case migration_from_file name contents of
             Inl e \<Rightarrow> Inl e
           | Inr m \<Rightarrow> (case read_migrations es of Inl e \<Rightarrow> Inl e | Inr ms \<Rightarrow> Inr (m # ms)))"

text \<open>\<open>None\<close>: the directory does not exist; an error: it cannot be read. The list of the migrator is replaced on success only.\<close>

definition discover ::
  "string \<Rightarrow> (string + (string + string \<times> (string + string)) list) option \<Rightarrow> migration list \<Rightarrow> (string + unit) \<times> migration list" where
  "discover dir entries old =
     (case entries of
        None \<Rightarrow> (Inl (''Migrations directory not found: '' @ quoted_path dir), old)
      | Some (Inl e) \<Rightarrow> (Inl (''Cannot read '' @ quoted_path dir @ '': '' @ e), old)
      | Some (Inr es) \<Rightarrow>
          (case read_migrations es of
             Inl e \<Rightarrow> (Inl e, old)
           | Inr ms \<Rightarrow> (Inr (), sort_key mg_version ms)))"

section \<open>The tracking table\<close>

record 'd migration_db =
  md_kind :: db_kind
  md_execute :: "string \<Rightarrow> 'd \<Rightarrow> (string + nat) \<times> 'd"
  md_query :: "string \<Rightarrow> 'd \<Rightarrow> (string + int list) \<times> 'd"

fun tracking_table_sql :: "db_kind \<Rightarrow> string" where
  "tracking_table_sql Postgres =
     ''CREATE TABLE IF NOT EXISTS _justapi_migrations (version BIGINT PRIMARY KEY, name TEXT NOT NULL, applied_at TIMESTAMPTZ DEFAULT NOW())''"
| "tracking_table_sql Sqlite =
     ''CREATE TABLE IF NOT EXISTS _justapi_migrations (version INTEGER PRIMARY KEY, name TEXT NOT NULL, applied_at TEXT DEFAULT (datetime('' @
     [CHR 0x27] @ ''now'' @ [CHR 0x27] @ '')))''"
| "tracking_table_sql MySql =
     ''CREATE TABLE IF NOT EXISTS _justapi_migrations (version BIGINT PRIMARY KEY, name VARCHAR(255) NOT NULL, applied_at TIMESTAMP DEFAULT CURRENT_TIMESTAMP)''"

definition ensure_tracking_table :: "'d migration_db \<Rightarrow> 'd \<Rightarrow> (string + unit) \<times> 'd" where
  "ensure_tracking_table db d =
     (case md_execute db (tracking_table_sql (md_kind db)) d of
        (Inl e, d) \<Rightarrow> (Inl (''Create tracking table error: '' @ e), d)
      | (Inr _, d) \<Rightarrow> (Inr (), d))"

definition versions_sql :: string where
  "versions_sql = ''SELECT version FROM _justapi_migrations''"

text \<open>\<open>v as u64\<close>.\<close>

definition version_as_u64 :: "int \<Rightarrow> nat" where
  "version_as_u64 v = nat (v mod 2 ^ 64)"

definition get_applied_versions :: "'d migration_db \<Rightarrow> 'd \<Rightarrow> (string + nat list) \<times> 'd" where
  "get_applied_versions db d =
     (case md_query db versions_sql d of
        (Inl e, d) \<Rightarrow> (Inl (''Query applied migrations error: '' @ e), d)
      | (Inr vs, d) \<Rightarrow> (Inr (map version_as_u64 vs), d))"

definition double_quotes :: "string \<Rightarrow> string" where
  "double_quotes s = concat (map (\<lambda>c. if c = CHR 0x27 then [CHR 0x27, CHR 0x27] else [c]) s)"

definition record_sql :: "db_kind \<Rightarrow> nat \<Rightarrow> string \<Rightarrow> string" where
  "record_sql kind version name =
     (let row = ''_justapi_migrations (version, name) VALUES ('' @ nat_str version @ '', '' @ [CHR 0x27] @ double_quotes name @ [CHR 0x27] @ '')''
      in case kind of
           Postgres \<Rightarrow> ''INSERT INTO '' @ row @ '' ON CONFLICT DO NOTHING''
         | Sqlite \<Rightarrow> ''INSERT OR IGNORE INTO '' @ row
         | MySql \<Rightarrow> ''INSERT IGNORE INTO '' @ row)"

definition record_migration :: "'d migration_db \<Rightarrow> nat \<Rightarrow> string \<Rightarrow> 'd \<Rightarrow> (string + unit) \<times> 'd" where
  "record_migration db version name d =
     (case md_execute db (record_sql (md_kind db) version name) d of
        (Inl e, d) \<Rightarrow> (Inl (''Record migration error: '' @ e), d)
      | (Inr _, d) \<Rightarrow> (Inr (), d))"

definition remove_sql :: "nat \<Rightarrow> string" where
  "remove_sql version = ''DELETE FROM _justapi_migrations WHERE version = '' @ nat_str version"

definition remove_migration :: "'d migration_db \<Rightarrow> nat \<Rightarrow> 'd \<Rightarrow> (string + unit) \<times> 'd" where
  "remove_migration db version d =
     (case md_execute db (remove_sql version) d of
        (Inl e, d) \<Rightarrow> (Inl (''Delete migration error: '' @ e), d)
      | (Inr _, d) \<Rightarrow> (Inr (), d))"

section \<open>Running and rolling back\<close>

fun run_pending :: "'d migration_db \<Rightarrow> nat list \<Rightarrow> migration list \<Rightarrow> migration list \<Rightarrow> 'd \<Rightarrow> (string + migration list) \<times> 'd" where
  "run_pending db applied [] applied_list d = (Inr applied_list, d)"
| "run_pending db applied (m # ms) applied_list d =
     (if mg_version m \<in> set applied then run_pending db applied ms applied_list d
      else case md_execute db (mg_up_sql m) d of
             (Inl e, d) \<Rightarrow> (Inl (''Migration v'' @ nat_str (mg_version m) @ '' error: '' @ e), d)
           | (Inr _, d) \<Rightarrow>
               (case record_migration db (mg_version m) (mg_name m) d of
                  (Inl e, d) \<Rightarrow> (Inl e, d)
                | (Inr _, d) \<Rightarrow> run_pending db applied ms (applied_list @ [m]) d))"

definition migrator_run :: "'d migration_db \<Rightarrow> migration list \<Rightarrow> 'd \<Rightarrow> (string + migration list) \<times> 'd" where
  "migrator_run db ms d =
     (case ensure_tracking_table db d of
        (Inl e, d) \<Rightarrow> (Inl e, d)
      | (Inr _, d) \<Rightarrow>
          (case get_applied_versions db d of
             (Inl e, d) \<Rightarrow> (Inl e, d)
           | (Inr applied, d) \<Rightarrow> run_pending db applied ms [] d))"

definition rollback_one :: "'d migration_db \<Rightarrow> migration list \<Rightarrow> 'd \<Rightarrow> (string + unit) \<times> 'd" where
  "rollback_one db ms d =
     (case get_applied_versions db d of
        (Inl e, d) \<Rightarrow> (Inl e, d)
      | (Inr applied, d) \<Rightarrow>
          if applied = [] then (Inl ''No migrations to roll back'', d)
          else let max_version = foldr max applied 0
               in case find (\<lambda>m. mg_version m = max_version) ms of
                    None \<Rightarrow> (Inl (''Migration v'' @ nat_str max_version @ '' not found in files''), d)
                  | Some m \<Rightarrow>
                      (case mg_down_sql m of
                         None \<Rightarrow> (Inr (), d)
                       | Some down_sql \<Rightarrow>
                           (case md_execute db down_sql d of
                              (Inl e, d) \<Rightarrow> (Inl (''Rollback v'' @ nat_str (mg_version m) @ '' error: '' @ e), d)
                            | (Inr _, d) \<Rightarrow> remove_migration db (mg_version m) d)))"

section \<open>Databases that track versions\<close>

text \<open>The recorded versions \<open>vs\<close> are what the query returns; the statements of the migrator change them as they say, failures and
  the scripts do not.\<close>

definition tracks :: "'d migration_db \<Rightarrow> ('d \<Rightarrow> nat set) \<Rightarrow> migration list \<Rightarrow> bool" where
  "tracks db vs ms \<longleftrightarrow>
     (\<forall>d. vs (snd (md_execute db (tracking_table_sql (md_kind db)) d)) = vs d) \<and>
     (\<forall>d. case md_query db versions_sql d of (Inl _, d') \<Rightarrow> vs d' = vs d | (Inr is, d') \<Rightarrow> vs d' = vs d \<and> version_as_u64 ` set is = vs d) \<and>
     (\<forall>m \<in> set ms. \<forall>d. case md_execute db (record_sql (md_kind db) (mg_version m) (mg_name m)) d of
          (Inl _, d') \<Rightarrow> vs d' = vs d | (Inr _, d') \<Rightarrow> vs d' = insert (mg_version m) (vs d)) \<and>
     (\<forall>m \<in> set ms. \<forall>d. case md_execute db (remove_sql (mg_version m)) d of
          (Inl _, d') \<Rightarrow> vs d' = vs d | (Inr _, d') \<Rightarrow> vs d' = vs d - {mg_version m}) \<and>
     (\<forall>m \<in> set ms. \<forall>sql \<in> insert (mg_up_sql m) (set_option (mg_down_sql m)). \<forall>d. vs (snd (md_execute db sql d)) = vs d)"

lemma tracks_rules:
  assumes "tracks db vs ms"
  shows "md_execute db (tracking_table_sql (md_kind db)) d = (r, d') \<Longrightarrow> vs d' = vs d"
    and "md_query db versions_sql d = (q, d') \<Longrightarrow> vs d' = vs d"
    and "md_query db versions_sql d = (Inr is, d') \<Longrightarrow> version_as_u64 ` set is = vs d"
    and "m \<in> set ms \<Longrightarrow> md_execute db (record_sql (md_kind db) (mg_version m) (mg_name m)) d = (Inl e, d') \<Longrightarrow> vs d' = vs d"
    and "m \<in> set ms \<Longrightarrow> md_execute db (record_sql (md_kind db) (mg_version m) (mg_name m)) d = (Inr n, d') \<Longrightarrow> vs d' = insert (mg_version m) (vs d)"
    and "m \<in> set ms \<Longrightarrow> md_execute db (remove_sql (mg_version m)) d = (Inr n, d') \<Longrightarrow> vs d' = vs d - {mg_version m}"
    and "m \<in> set ms \<Longrightarrow> md_execute db (mg_up_sql m) d = (r, d') \<Longrightarrow> vs d' = vs d"
    and "m \<in> set ms \<Longrightarrow> mg_down_sql m = Some down \<Longrightarrow> md_execute db down d = (r, d') \<Longrightarrow> vs d' = vs d"
proof -
  note t = assms [unfolded tracks_def]
  show "md_execute db (tracking_table_sql (md_kind db)) d = (r, d') \<Longrightarrow> vs d' = vs d" using t by (metis snd_conv)
  show "md_query db versions_sql d = (q, d') \<Longrightarrow> vs d' = vs d"
    using t [THEN conjunct2, THEN conjunct1, rule_format, of d] by (auto split: sum.splits)
  show "md_query db versions_sql d = (Inr is, d') \<Longrightarrow> version_as_u64 ` set is = vs d"
    using t [THEN conjunct2, THEN conjunct1, rule_format, of d] by auto
  show "m \<in> set ms \<Longrightarrow> md_execute db (record_sql (md_kind db) (mg_version m) (mg_name m)) d = (Inl e, d') \<Longrightarrow> vs d' = vs d"
    and "m \<in> set ms \<Longrightarrow> md_execute db (record_sql (md_kind db) (mg_version m) (mg_name m)) d = (Inr n, d') \<Longrightarrow> vs d' = insert (mg_version m) (vs d)"
    using t [THEN conjunct2, THEN conjunct2, THEN conjunct1, rule_format, of m d] by auto
  show "m \<in> set ms \<Longrightarrow> md_execute db (remove_sql (mg_version m)) d = (Inr n, d') \<Longrightarrow> vs d' = vs d - {mg_version m}"
    using t [THEN conjunct2, THEN conjunct2, THEN conjunct2, THEN conjunct1, rule_format, of m d] by auto
  show "m \<in> set ms \<Longrightarrow> md_execute db (mg_up_sql m) d = (r, d') \<Longrightarrow> vs d' = vs d"
    and "m \<in> set ms \<Longrightarrow> mg_down_sql m = Some down \<Longrightarrow> md_execute db down d = (r, d') \<Longrightarrow> vs d' = vs d"
    using t [THEN conjunct2, THEN conjunct2, THEN conjunct2, THEN conjunct2, rule_format, of m _ d] by (auto simp: prod_eq_iff)
qed

definition pending :: "nat set \<Rightarrow> migration list \<Rightarrow> migration list" where
  "pending applied ms = filter (\<lambda>m. mg_version m \<notin> applied) ms"

lemma pending_Cons: "pending applied (m # ms) = (if mg_version m \<in> applied then pending applied ms else m # pending applied ms)"
  by (simp add: pending_def)

text \<open>Statements that succeed one after the other, and those of a migration: its script and the insertion of its version.\<close>

fun exec_all :: "'d migration_db \<Rightarrow> string list \<Rightarrow> 'd \<Rightarrow> 'd option" where
  "exec_all db [] d = Some d"
| "exec_all db (sql # sqls) d = (case md_execute db sql d of (Inl e, _) \<Rightarrow> None | (Inr _, d) \<Rightarrow> exec_all db sqls d)"

definition migration_statements :: "'d migration_db \<Rightarrow> migration \<Rightarrow> string list" where
  "migration_statements db m = [mg_up_sql m, record_sql (md_kind db) (mg_version m) (mg_name m)]"

text \<open>A migration that stops a run: its script fails, or it succeeds and the insertion of its version fails.\<close>

definition halted_at :: "'d migration_db \<Rightarrow> migration \<Rightarrow> 'd \<Rightarrow> string \<Rightarrow> 'd \<Rightarrow> bool" where
  "halted_at db m d e d' \<longleftrightarrow>
     (\<exists>x. md_execute db (mg_up_sql m) d = (Inl x, d') \<and> e = ''Migration v'' @ nat_str (mg_version m) @ '' error: '' @ x) \<or>
     (\<exists>n d1 x. md_execute db (mg_up_sql m) d = (Inr n, d1) \<and>
        md_execute db (record_sql (md_kind db) (mg_version m) (mg_name m)) d1 = (Inl x, d') \<and> e = ''Record migration error: '' @ x)"

lemma exec_all_append: "exec_all db (xs @ ys) d = Option.bind (exec_all db xs d) (exec_all db ys)"
  by (induction xs arbitrary: d) (auto split: prod.splits sum.splits)

text \<open>A run executes the statements of a prefix of the pending migrations, of all of them if it succeeds, and stops at the next one if not.\<close>

lemma run_pending_exec:
  assumes "run_pending db applied ms acc d = (r, d')"
  shows "\<exists>now d1. exec_all db (concat (map (migration_statements db) now)) d = Some d1 \<and>
    (case r of Inr l \<Rightarrow> now = pending (set applied) ms \<and> l = acc @ now \<and> d' = d1
     | Inl e \<Rightarrow> \<exists>m rest. pending (set applied) ms = now @ m # rest \<and> halted_at db m d1 e d')"
  using assms
proof (induction ms arbitrary: acc d)
  case Nil
  then show ?case by (intro exI [of _ "[]"] exI [of _ d]) (auto simp: pending_def)
next
  case (Cons m ms)
  show ?case
  proof (cases "mg_version m \<in> set applied")
    case True
    then have run: "run_pending db applied ms acc d = (r, d')" and same: "pending (set applied) (m # ms) = pending (set applied) ms"
      using Cons.prems by (simp_all add: pending_Cons)
    show ?thesis unfolding same using Cons.IH [OF run] .
  next
    case False
    obtain r1 d1 where up: "md_execute db (mg_up_sql m) d = (r1, d1)" by fastforce
    obtain r2 d2 where rec: "md_execute db (record_sql (md_kind db) (mg_version m) (mg_name m)) d1 = (r2, d2)" by fastforce
    show ?thesis
    proof (cases "\<exists>n k. r1 = Inr n \<and> r2 = Inr k")
      case True
      then obtain n k where ok: "r1 = Inr n" "r2 = Inr k" by blast
      have "run_pending db applied ms (acc @ [m]) d2 = (r, d')"
        using Cons.prems False up rec ok by (simp add: record_migration_def)
      from Cons.IH [OF this] obtain now d3 where
        IH: "exec_all db (concat (map (migration_statements db) now)) d2 = Some d3"
          "case r of Inr l \<Rightarrow> now = pending (set applied) ms \<and> l = (acc @ [m]) @ now \<and> d' = d3
             | Inl e \<Rightarrow> \<exists>m' rest. pending (set applied) ms = now @ m' # rest \<and> halted_at db m' d3 e d'"
        by blast
      have "exec_all db (concat (map (migration_statements db) (m # now))) d = Some d3"
        using IH(1) up rec ok by (simp add: migration_statements_def)
      with IH(2) False show ?thesis by (intro exI [of _ "m # now"] exI [of _ d3]) (auto simp: pending_Cons split: sum.splits)
    next
      case stop: False
      then have "\<exists>e. r = Inl e \<and> halted_at db m d e d'"
        using Cons.prems False up rec by (cases r1; cases r2) (auto simp: record_migration_def halted_at_def)
      with False show ?thesis by (intro exI [of _ "[]"] exI [of _ d]) (auto simp: pending_Cons)
    qed
  qed
qed

lemma exec_all_tracks:
  assumes "tracks db vs ms"
  shows "set now \<subseteq> set ms \<Longrightarrow> exec_all db (concat (map (migration_statements db) now)) d = Some d1 \<Longrightarrow> vs d1 = vs d \<union> mg_version ` set now"
proof (induction now arbitrary: d)
  case (Cons m now)
  then have m: "m \<in> set ms" by simp
  obtain n d2 where up: "md_execute db (mg_up_sql m) d = (Inr n, d2)"
    using Cons.prems(2) by (auto simp: migration_statements_def split: prod.splits sum.splits)
  obtain k d3 where rec: "md_execute db (record_sql (md_kind db) (mg_version m) (mg_name m)) d2 = (Inr k, d3)"
    using Cons.prems(2) up by (auto simp: migration_statements_def split: prod.splits sum.splits)
  have "vs d1 = vs d3 \<union> mg_version ` set now" using Cons.IH [of d3] Cons.prems up rec by (simp add: migration_statements_def)
  then show ?case using tracks_rules(7) [OF assms m up] tracks_rules(5) [OF assms m rec] by auto
qed simp

lemma halted_at_tracks:
  assumes "tracks db vs ms" and "m \<in> set ms" and "halted_at db m d e d'"
  shows "vs d' = vs d"
  using assms(3) tracks_rules(7) [OF assms(1,2)] tracks_rules(4) [OF assms(1,2)] by (fastforce simp: halted_at_def)

lemma get_applied_ok:
  assumes "tracks db vs ms" and "get_applied_versions db d = (r, d')"
  shows "vs d' = vs d" and "r = Inr applied \<Longrightarrow> set applied = vs d"
  using assms tracks_rules(2,3) [OF assms(1), of d] by (auto simp: get_applied_versions_def split: prod.splits sum.splits)

lemma ensure_table_ok: "tracks db vs ms \<Longrightarrow> ensure_tracking_table db d = (r, d') \<Longrightarrow> vs d' = vs d"
  using tracks_rules(1) [of db vs ms d] by (auto simp: ensure_tracking_table_def split: prod.splits sum.splits)

lemma foldr_max: "xs \<noteq> [] \<Longrightarrow> foldr max xs (0 :: nat) = Max (set xs)"
proof (induction xs)
  case (Cons a xs)
  then show ?case by (cases "xs = []") auto
qed simp

text \<open>What a run does before it looks at the migrations: it creates the table and reads the versions.\<close>

definition migration_setup :: "'d migration_db \<Rightarrow> 'd \<Rightarrow> (string + nat list) \<times> 'd" where
  "migration_setup db d =
     (case ensure_tracking_table db d of (Inl e, d) \<Rightarrow> (Inl e, d) | (Inr _, d) \<Rightarrow> get_applied_versions db d)"

lemma migration_setup_ok:
  assumes "tracks db vs ms" and "migration_setup db d = (r, d')"
  shows "vs d' = vs d" and "r = Inr applied \<Longrightarrow> set applied = vs d"
proof -
  obtain r1 d1 where e: "ensure_tracking_table db d = (r1, d1)" by fastforce
  obtain r2 d2 where g: "get_applied_versions db d1 = (r2, d2)" by fastforce
  note ok = ensure_table_ok [OF assms(1) e] get_applied_ok [OF assms(1) g]
  show "vs d' = vs d" "r = Inr applied \<Longrightarrow> set applied = vs d"
    using assms(2) e g ok by (auto simp: migration_setup_def split: sum.splits)
qed

lemma migrator_run_eq:
  "migrator_run db ms d = (case migration_setup db d of (Inl e, d) \<Rightarrow> (Inl e, d) | (Inr applied, d) \<Rightarrow> run_pending db applied ms [] d)"
  by (simp add: migrator_run_def migration_setup_def split: prod.split sum.split)

lemma migrator_run_spec:
  assumes T: "tracks db vs ms" and run: "migrator_run db ms d = (r, d')" and s0: "migration_setup db d = (Inr applied, d0)"
  shows "\<exists>now d1. exec_all db (concat (map (migration_statements db) now)) d0 = Some d1 \<and> vs d' = vs d \<union> mg_version ` set now \<and>
    (case r of Inr l \<Rightarrow> now = pending (vs d) ms \<and> l = now \<and> d' = d1
     | Inl e \<Rightarrow> \<exists>m rest. pending (vs d) ms = now @ m # rest \<and> halted_at db m d1 e d')"
proof -
  note vs0 = migration_setup_ok [OF T s0]
  have "run_pending db applied ms [] d0 = (r, d')" using run s0 by (simp add: migrator_run_eq)
  from run_pending_exec [OF this, unfolded vs0(2) [OF refl] append_Nil] obtain now d1 where
    now: "exec_all db (concat (map (migration_statements db) now)) d0 = Some d1"
      "case r of Inr l \<Rightarrow> now = pending (vs d) ms \<and> l = now \<and> d' = d1
       | Inl e \<Rightarrow> \<exists>m rest. pending (vs d) ms = now @ m # rest \<and> halted_at db m d1 e d'"
    by blast
  have sub: "set now \<subseteq> set ms" "\<And>m rest. pending (vs d) ms = now @ m # rest \<Longrightarrow> m \<in> set ms"
    using now(2) by (auto simp: pending_def split: sum.splits dest!: arg_cong [where f = set])
  have "vs d' = vs d1" using now(2) sub(2) halted_at_tracks [OF T] by (auto split: sum.splits)
  then show ?thesis using now exec_all_tracks [OF T sub(1) now(1)] vs0(1) by auto
qed

lemma migrator_run_success:
  assumes "tracks db vs ms" and "migrator_run db ms d = (Inr l, d')"
  shows "l = pending (vs d) ms" and "vs d' = vs d \<union> mg_version ` set l"
proof -
  obtain applied d0 where "migration_setup db d = (Inr applied, d0)"
    using assms(2) by (auto simp: migrator_run_eq split: prod.splits sum.splits)
  from migrator_run_spec [OF assms this] show "l = pending (vs d) ms" "vs d' = vs d \<union> mg_version ` set l" by auto
qed

section \<open>Properties\<close>

text \<open>C32: A run of the migrator that gets past its set-up executes, from the state the set-up left, the scripts of pending migrations and no others, in the
  order of the list, each followed by the insertion of its version. When it succeeds these are all of them, and it returns them. When it fails, it
  stopped at the first pending migration after them: the script of that one failed, or the script was executed and the insertion of its
  version failed, so that the version is not recorded. The recorded versions are the old ones and those of the migrations before. When the
  set-up fails, no script is executed.\<close>

theorem migrations_run_in_order:
  assumes "tracks db vs ms" and "migrator_run db ms d = (r, d')"
  shows "case migration_setup db d of
      (Inl e, d0) \<Rightarrow> r = Inl e \<and> d' = d0 \<and> vs d' = vs d
    | (Inr applied, d0) \<Rightarrow>
        (\<exists>now d1. exec_all db (concat (map (migration_statements db) now)) d0 = Some d1 \<and> vs d' = vs d \<union> mg_version ` set now \<and>
           (case r of Inr l \<Rightarrow> now = pending (vs d) ms \<and> l = now \<and> d' = d1
            | Inl e \<Rightarrow> \<exists>m rest. pending (vs d) ms = now @ m # rest \<and> halted_at db m d1 e d'))"
proof (cases "migration_setup db d")
  case (Pair s d0)
  show ?thesis
  proof (cases s)
    case (Inl e)
    then show ?thesis using assms(2) Pair migration_setup_ok(1) [OF assms(1) Pair] by (auto simp: migrator_run_eq)
  next
    case (Inr applied)
    from migrator_run_spec [OF assms] Pair Inr show ?thesis by simp
  qed
qed

text \<open>Migrations are applied once: after a run that succeeded, every version of the list is recorded, and a second run that succeeds applies
  nothing and records nothing more.\<close>

theorem migrations_applied_once:
  assumes "tracks db vs ms" and "migrator_run db ms d = (Inr l, d')" and "migrator_run db ms d' = (Inr l', d'')"
  shows "mg_version ` set ms \<subseteq> vs d' \<and> l' = [] \<and> vs d'' = vs d'"
proof -
  have first: "l = pending (vs d) ms" "vs d' = vs d \<union> mg_version ` set l" using migrator_run_success [OF assms(1,2)] by auto
  then have all: "mg_version ` set ms \<subseteq> vs d'" by (auto simp: pending_def)
  then have "pending (vs d') ms = []" by (auto simp: pending_def filter_empty_conv)
  then show ?thesis using all migrator_run_success [OF assms(1,3)] by auto
qed

text \<open>A rollback that succeeds undoes the applied migration with the highest version: it is no longer recorded, unless it has no script to undo it, when
  nothing changes.\<close>

theorem rollback_removes_highest:
  assumes "tracks db vs ms" and "rollback_one db ms d = (Inr u, d')"
  shows "\<exists>m \<in> set ms. mg_version m = Max (vs d) \<and> mg_version m \<in> vs d \<and>
    vs d' = (if mg_down_sql m = None then vs d else vs d - {mg_version m})"
proof -
  obtain r1 d1 where g: "get_applied_versions db d = (r1, d1)" by fastforce
  note vs1 = get_applied_ok [OF assms(1) g]
  obtain applied m where a: "r1 = Inr applied" "applied \<noteq> []" "find (\<lambda>m. mg_version m = foldr max applied 0) ms = Some m"
    using assms(2) g by (auto simp: rollback_one_def Let_def split: sum.splits if_splits option.splits)
  have m: "m \<in> set ms" "mg_version m = Max (vs d)" using find_SomeD [OF a(3)] foldr_max [OF a(2)] vs1(2) [OF a(1)] by auto
  moreover have "Max (vs d) \<in> vs d" using vs1(2) [OF a(1)] a(2) by (metis List.finite_set Max_in set_empty)
  moreover have "vs d' = (if mg_down_sql m = None then vs d else vs d - {mg_version m})"
  proof (cases "mg_down_sql m")
    case None
    then show ?thesis using assms(2) g a vs1(1) by (simp add: rollback_one_def)
  next
    case (Some down)
    obtain r2 d2 where x: "md_execute db down d1 = (r2, d2)" by fastforce
    obtain r3 d3 where y: "md_execute db (remove_sql (mg_version m)) d2 = (r3, d3)" by fastforce
    show ?thesis
      using assms(2) g a Some x y vs1(1) tracks_rules(8) [OF assms(1) m(1) Some x] tracks_rules(6) [OF assms(1) m(1), of d2 _ d3]
      by (auto simp: rollback_one_def remove_migration_def split: sum.splits)
  qed
  ultimately show ?thesis by auto
qed

section \<open>Witnesses\<close>

definition example_migration :: migration where
  "example_migration = \<lparr>mg_version = 1, mg_name = ''init'', mg_up_sql = ''CREATE TABLE t (a)'', mg_down_sql = Some ''DROP TABLE t''\<rparr>"

text \<open>A database whose state is whether the migration is recorded, and the scripts it has executed.\<close>

definition example_db :: "(bool \<times> string list) migration_db" where
  "example_db =
     \<lparr>md_kind = Sqlite,
      md_execute = (\<lambda>sql (d, log). (Inr 0,
        if sql = record_sql Sqlite 1 ''init'' then (True, log) else if sql = remove_sql 1 then (False, log)
        else if sql = tracking_table_sql Sqlite then (d, log) else (d, log @ [sql]))),
      md_query = (\<lambda>sql (d, log). (Inr (if d then [1] else []), (d, log)))\<rparr>"

definition example_versions :: "bool \<times> string list \<Rightarrow> nat set" where
  "example_versions d = (if fst d then {1} else {})"

lemma example_sql_distinct:
  "record_sql Sqlite 1 ''init'' \<noteq> remove_sql 1" "tracking_table_sql Sqlite \<noteq> record_sql Sqlite 1 ''init''" "tracking_table_sql Sqlite \<noteq> remove_sql 1"
  "''CREATE TABLE t (a)'' \<noteq> record_sql Sqlite 1 ''init''" "''CREATE TABLE t (a)'' \<noteq> remove_sql 1"
  "''DROP TABLE t'' \<noteq> record_sql Sqlite 1 ''init''" "''DROP TABLE t'' \<noteq> remove_sql 1" "''CREATE TABLE t (a)'' \<noteq> tracking_table_sql Sqlite"
  "''DROP TABLE t'' \<noteq> tracking_table_sql Sqlite"
  by (simp_all add: record_sql_def remove_sql_def Let_def)

lemma example_tracks: "tracks example_db example_versions [example_migration]"
  using example_sql_distinct
  by (auto simp: tracks_def example_db_def example_versions_def example_migration_def version_as_u64_def split: prod.splits)

lemma example_run:
  "migrator_run example_db [example_migration] (False, []) = (Inr [example_migration], (True, [''CREATE TABLE t (a)'']))"
  "migrator_run example_db [example_migration] (True, [''CREATE TABLE t (a)'']) = (Inr [], (True, [''CREATE TABLE t (a)'']))"
  using example_sql_distinct
  by (simp_all add: migrator_run_def ensure_tracking_table_def get_applied_versions_def record_migration_def example_db_def example_migration_def version_as_u64_def)

theorem migrations_run_in_order_witness:
  "pending {} [example_migration] = [example_migration] \<and>
   exec_all example_db (concat (map (migration_statements example_db) [example_migration])) (False, []) = Some (True, [''CREATE TABLE t (a)''])"
proof -
  have "migration_setup example_db (False, []) = (Inr [], (False, []))"
    using example_sql_distinct
    by (simp add: migration_setup_def ensure_tracking_table_def get_applied_versions_def example_db_def version_as_u64_def)
  then show ?thesis using migrations_run_in_order [OF example_tracks example_run(1)] by (auto simp: example_versions_def)
qed

theorem migrations_applied_once_witness: "mg_version ` set [example_migration] \<subseteq> example_versions (True, [''CREATE TABLE t (a)''])"
  using migrations_applied_once [OF example_tracks example_run] by simp

theorem rollback_removes_highest_witness: "example_versions (snd (rollback_one example_db [example_migration] (True, []))) = {}"
proof -
  have "rollback_one example_db [example_migration] (True, []) = (Inr (), (False, [''DROP TABLE t'']))"
    using example_sql_distinct
    by (simp add: rollback_one_def get_applied_versions_def remove_migration_def example_db_def example_migration_def version_as_u64_def)
  from rollback_removes_highest [OF example_tracks this] this show ?thesis
    by (auto simp: example_versions_def example_migration_def)
qed

section \<open>Defects\<close>

text \<open>The versions are read once: two files with one version are both applied in a run, though only one of them is recorded.\<close>

lemma duplicate_versions_both_run:
  assumes "tracks db vs [m, m']" and "mg_version m' = mg_version m" and "mg_version m \<notin> vs d"
    and "migrator_run db [m, m'] d = (Inr l, d')"
  shows "l = [m, m'] \<and> vs d' = insert (mg_version m) (vs d)"
  using migrator_run_success [OF assms(1,4)] assms(2,3) by (auto simp: pending_def)

end
