(* ===== verification/Inference_Engine.thy ===== *)
theory Inference_Engine
  imports Spec_Decode Control_Plane Responses
begin

text \<open>
  The streaming engine of \<^verbatim>\<open>crates/justapi-inference/src/engine.rs\<close> and the OpenAI drivers of \<^verbatim>\<open>src/openai.rs\<close> over it.

  \<^item> A model is the function that gives the tokens it sends for a prompt, parameters and a sink, until it ends in whatever way; the
    thread that runs it drops its result. A receiver that is read to its end accepts every token.
  \<^item> The drivers take what an engine delivers on the channel of a request, or its error: the streaming engine of this theory, or
    the scheduler engine of \<open>Sched_Engine\<close>, whose drivers differ in how they notice the end of a stream.
  \<^item> The serialiser \<open>print\<close>, the identifier and the time of a response are parameters.

  The lemmas show that a streamed answer and a complete answer agree, that a client can split the stream into its events, and
  that serving a model through tree speculation gives the answers of the model itself.
\<close>

section \<open>Devices and the registry\<close>

definition discover_devices :: "(nat \<Rightarrow> bool) \<Rightarrow> (nat \<Rightarrow> bool) \<Rightarrow> engine_device list" where
  "discover_devices cuda metal = Cpu # map Cuda (filter cuda [0..<8]) @ map Metal (filter metal [0..<8])"

datatype model_source = Mock_source | Real_source string

type_synonym model_fun = "token list \<Rightarrow> sampling_params \<Rightarrow> sink \<Rightarrow> generated_token list"
type_synonym model_registry = "(string \<times> model_fun \<times> model_source) list"

definition registry_register :: "string \<Rightarrow> model_fun \<Rightarrow> model_source \<Rightarrow> model_registry \<Rightarrow> model_registry" where
  "registry_register name model source reg = AList.update name (model, source) reg"

definition registry_get :: "string \<Rightarrow> model_registry \<Rightarrow> model_fun option" where
  "registry_get name reg = map_option fst (map_of reg name)"

definition registry_list :: "model_registry \<Rightarrow> string list" where
  "registry_list reg = map fst reg"

definition registry_len :: "model_registry \<Rightarrow> nat" where
  "registry_len reg = length reg"

record engine =
  en_device :: engine_device
  en_registry :: model_registry

text \<open>\<open>to_candle\<close> is the construction of the device, which may fail.\<close>

definition engine_new :: "(engine_device \<Rightarrow> string + unit) \<Rightarrow> engine_device \<Rightarrow> model_error + engine" where
  "engine_new to_candle device =
     (case to_candle device of Inl e \<Rightarrow> Inl (Generation e) | Inr _ \<Rightarrow> Inr \<lparr>en_device = device, en_registry = []\<rparr>)"

definition engine_register :: "string \<Rightarrow> model_fun \<Rightarrow> engine \<Rightarrow> engine" where
  "engine_register name model e = e\<lparr>en_registry := registry_register name model Mock_source (en_registry e)\<rparr>"

definition engine_get :: "string \<Rightarrow> engine \<Rightarrow> model_fun option" where
  "engine_get name e = registry_get name (en_registry e)"

text \<open>A mock model panics, if at all, before its first token.\<close>

definition mock_fun :: "mock_model \<Rightarrow> model_fun" where
  "mock_fun m prompt params sink = (case mock_generate m prompt params sink of Some (_, out) \<Rightarrow> out | None \<Rightarrow> [])"

definition engine_register_mock :: "string \<Rightarrow> engine \<Rightarrow> engine" where
  "engine_register_mock name e = engine_register name (mock_fun (mock_new 32000)) e"

text \<open>\<open>partial\<close> is what a speculating model has sent when one of its models fails.\<close>

definition speculative_fun :: "'g draw \<Rightarrow> forward \<Rightarrow> forward \<Rightarrow> nat \<Rightarrow> 'g \<Rightarrow> model_fun \<Rightarrow> model_fun" where
  "speculative_fun draw target draft gamma seed partial prompt params sink =
     (case speculative_generate draw target draft prompt params gamma seed sink of
        Some (Inr (_, s)) \<Rightarrow> ds_out s
      | _ \<Rightarrow> partial prompt params sink)"

definition tree_speculative_fun :: "'g draw \<Rightarrow> forward \<Rightarrow> forward \<Rightarrow> nat \<Rightarrow> nat \<Rightarrow> 'g \<Rightarrow> model_fun \<Rightarrow> model_fun" where
  "tree_speculative_fun draw target draft gamma branch seed partial prompt params sink =
     (case speculative_generate_tree draw target draft prompt params gamma branch seed sink of
        Some (Inr (_, s)) \<Rightarrow> ds_out s
      | _ \<Rightarrow> partial prompt params sink)"

definition engine_register_speculative ::
  "'g draw \<Rightarrow> string \<Rightarrow> forward \<Rightarrow> forward \<Rightarrow> nat \<Rightarrow> 'g \<Rightarrow> model_fun \<Rightarrow> engine \<Rightarrow> engine" where
  "engine_register_speculative draw name target draft gamma seed partial e =
     engine_register name (speculative_fun draw target draft gamma seed partial) e"

definition engine_register_tree_speculative ::
  "'g draw \<Rightarrow> string \<Rightarrow> forward \<Rightarrow> forward \<Rightarrow> nat \<Rightarrow> nat \<Rightarrow> 'g \<Rightarrow> model_fun \<Rightarrow> engine \<Rightarrow> engine" where
  "engine_register_tree_speculative draw name target draft gamma branch seed partial e =
     engine_register name (tree_speculative_fun draw target draft gamma branch seed partial) e"

text \<open>\<open>load_real\<close> is the loader of the feature \<open>real\<close>, \<open>None\<close> without the feature.\<close>

definition engine_load :: "(string \<Rightarrow> string + model_fun) option \<Rightarrow> string \<Rightarrow> string \<Rightarrow> engine \<Rightarrow> (model_error + unit) \<times> engine" where
  "engine_load load_real name model_dir e =
     (case load_real of
        None \<Rightarrow> (Inl (FeatureRequired ''real''), e)
      | Some load \<Rightarrow>
          (case load model_dir of
             Inl msg \<Rightarrow> (Inl (Generation msg), e)
           | Inr model \<Rightarrow> (Inr (), e\<lparr>en_registry := registry_register name model (Real_source model_dir) (en_registry e)\<rparr>)))"

definition generate_stream :: "engine \<Rightarrow> string \<Rightarrow> token list \<Rightarrow> sampling_params \<Rightarrow> model_error + generated_token list" where
  "generate_stream e name prompt params =
     (case engine_get name e of
        None \<Rightarrow> Inl (NotFound name)
      | Some model \<Rightarrow> Inr (model prompt params (\<lambda>_ _. True)))"

definition list_models :: "engine \<Rightarrow> string list" where
  "list_models e = registry_list (en_registry e)"

definition engine_model_source :: "string \<Rightarrow> engine \<Rightarrow> model_source option" where
  "engine_model_source name e = map_option snd (map_of (en_registry e) name)"

fun model_error_display :: "model_error \<Rightarrow> string" where
  "model_error_display (NotFound name) = ''model '' @ [CHR 0x27] @ name @ [CHR 0x27] @ '' not found in registry''"
| "model_error_display (FeatureRequired f) =
     ''feature '' @ [CHR 0x27] @ f @ [CHR 0x27] @ '' is required for this operation (enable it in the crate features)''"
| "model_error_display NotImplemented = ''real model loading is not implemented yet (lands with the KV-cache in Phase 42)''"
| "model_error_display (Generation msg) = ''generation failed: '' @ msg"
| "model_error_display (Io msg) = msg"

section \<open>Requests\<close>

record chat_message =
  cm_role :: string
  cm_content :: string
  cm_name :: "string option"

definition default_max_tokens :: nat where
  "default_max_tokens = 256"

record chat_request =
  cr_model :: string
  cr_messages :: "chat_message list"
  cr_temperature :: "rat option"
  cr_max_tokens :: nat
  cr_max_completion_tokens :: "nat option"
  cr_top_p :: "rat option"
  cr_stream :: bool
  cr_stop :: "string list option"
  cr_user :: "string option"

definition effective_max_tokens :: "chat_request \<Rightarrow> nat" where
  "effective_max_tokens req = (case cr_max_completion_tokens req of Some n \<Rightarrow> n | None \<Rightarrow> cr_max_tokens req)"

record completion_request =
  tr_model :: string
  tr_prompt :: string
  tr_temperature :: "rat option"
  tr_max_tokens :: nat
  tr_top_p :: "rat option"
  tr_stream :: bool
  tr_stop :: "string list option"

datatype embedding_input = Single string | Many "string list"

fun into_texts :: "embedding_input \<Rightarrow> string list" where
  "into_texts (Single s) = [s]"
| "into_texts (Many v) = v"

record embedding_request =
  er_model :: string
  er_input :: embedding_input
  er_encoding_format :: "string option"

definition prompt_from_messages :: "chat_message list \<Rightarrow> string" where
  "prompt_from_messages messages = concat (map (\<lambda>m. cm_role m @ '': '' @ cm_content m @ [CHR 0x0A]) messages)"

definition or_one :: "rat option \<Rightarrow> rat" where
  "or_one x = (case x of Some t \<Rightarrow> t | None \<Rightarrow> 1)"

definition chat_params :: "chat_request \<Rightarrow> sampling_params" where
  "chat_params req =
     sampling_params_default\<lparr>max_tokens := effective_max_tokens req, temperature := or_one (cr_temperature req), top_p := or_one (cr_top_p req)\<rparr>"

definition completion_params :: "completion_request \<Rightarrow> sampling_params" where
  "completion_params req =
     sampling_params_default\<lparr>max_tokens := tr_max_tokens req, temperature := or_one (tr_temperature req), top_p := or_one (tr_top_p req)\<rparr>"

section \<open>Responses\<close>

fun finish_reason_str :: "finish_reason \<Rightarrow> string" where
  "finish_reason_str Length = ''length''"
| "finish_reason_str Stop = ''stop''"
| "finish_reason_str Cancelled = ''stop''"

record usage =
  us_prompt_tokens :: nat
  us_completion_tokens :: nat
  us_total_tokens :: nat

record chat_response =
  co_id :: string
  co_created :: nat
  co_model :: string
  co_content :: string
  co_finish_reason :: string
  co_usage :: usage

record completion_response =
  cp_id :: string
  cp_created :: nat
  cp_model :: string
  cp_text :: string
  cp_finish_reason :: string
  cp_usage :: usage

text \<open>A chunk has one choice with index 0; the record holds its delta and finish reason.\<close>

record chat_chunk =
  ck_id :: string
  ck_created :: nat
  ck_model :: string
  ck_role :: "string option"
  ck_content :: "string option"
  ck_finish_reason :: "string option"

definition opt_field :: "string \<Rightarrow> string option \<Rightarrow> (string \<times> json) list" where
  "opt_field k v = (case v of Some s \<Rightarrow> [(k, JString s)] | None \<Rightarrow> [])"

definition chunk_json :: "chat_chunk \<Rightarrow> json" where
  "chunk_json c =
     JObject [(''id'', JString (ck_id c)), (''object'', JString ''chat.completion.chunk''), (''created'', JNumber (int (ck_created c))),
       (''model'', JString (ck_model c)),
       (''choices'', JArray [JObject ([(''index'', JNumber 0), (''delta'', JObject (opt_field ''role'' (ck_role c) @ opt_field ''content'' (ck_content c)))] @
          opt_field ''finish_reason'' (ck_finish_reason c))])]"

definition usage_json :: "usage \<Rightarrow> json" where
  "usage_json u =
     JObject [(''prompt_tokens'', JNumber (int (us_prompt_tokens u))), (''completion_tokens'', JNumber (int (us_completion_tokens u))),
       (''total_tokens'', JNumber (int (us_total_tokens u)))]"

definition chat_response_json :: "chat_response \<Rightarrow> json" where
  "chat_response_json r =
     JObject [(''id'', JString (co_id r)), (''object'', JString ''chat.completion''), (''created'', JNumber (int (co_created r))),
       (''model'', JString (co_model r)),
       (''choices'', JArray [JObject [(''index'', JNumber 0),
          (''message'', JObject [(''role'', JString ''assistant''), (''content'', JString (co_content r))]),
          (''finish_reason'', JString (co_finish_reason r))]]),
       (''usage'', usage_json (co_usage r))]"

definition completion_response_json :: "completion_response \<Rightarrow> json" where
  "completion_response_json r =
     JObject [(''id'', JString (cp_id r)), (''object'', JString ''text_completion''), (''created'', JNumber (int (cp_created r))),
       (''model'', JString (cp_model r)),
       (''choices'', JArray [JObject [(''text'', JString (cp_text r)), (''index'', JNumber 0), (''finish_reason'', JString (cp_finish_reason r))]]),
       (''usage'', usage_json (cp_usage r))]"

definition api_error_json :: "string \<Rightarrow> string \<Rightarrow> json" where
  "api_error_json message ty =
     JObject [(''error'', JObject [(''message'', JString message), (''type'', JString ty), (''param'', JNull), (''code'', JNull)])]"

definition error_json :: "(json \<Rightarrow> string) \<Rightarrow> string \<Rightarrow> string \<Rightarrow> nat \<Rightarrow> nat \<times> string" where
  "error_json print message ty status = (status, print (api_error_json message ty))"

definition sse_frame :: "string \<Rightarrow> string" where
  "sse_frame payload = ''data: '' @ payload @ [CHR 0x0A, CHR 0x0A]"

definition sse_event :: "(json \<Rightarrow> string) \<Rightarrow> chat_chunk \<Rightarrow> string" where
  "sse_event print c = sse_frame (print (chunk_json c))"

definition sse_error :: "(json \<Rightarrow> string) \<Rightarrow> string \<Rightarrow> string" where
  "sse_error print message = sse_frame (print (api_error_json message ''server_error''))"

definition sse_done :: string where
  "sse_done = sse_frame ''[DONE]''"

text \<open>The identifier is the time in nanoseconds in hexadecimal.\<close>

fun short_hex :: "nat \<Rightarrow> string" where
  "short_hex n = (if n < 16 then [''0123456789abcdef'' ! n] else short_hex (n div 16) @ [''0123456789abcdef'' ! (n mod 16)])"

definition short_id :: "nat \<Rightarrow> string" where
  "short_id nanos = short_hex (nanos mod 0xfffffffffffffff)"

section \<open>Drivers\<close>

type_synonym token_source = "string \<Rightarrow> token list \<Rightarrow> sampling_params \<Rightarrow> model_error + generated_token list"

definition role_chunk :: "string \<Rightarrow> nat \<Rightarrow> string \<Rightarrow> chat_chunk" where
  "role_chunk i created model =
     \<lparr>ck_id = i, ck_created = created, ck_model = model, ck_role = Some ''assistant'', ck_content = None, ck_finish_reason = None\<rparr>"

definition token_chunk :: "string \<Rightarrow> nat \<Rightarrow> string \<Rightarrow> generated_token \<Rightarrow> chat_chunk" where
  "token_chunk i created model tok =
     \<lparr>ck_id = i, ck_created = created, ck_model = model, ck_role = None, ck_content = Some (gt_text tok),
      ck_finish_reason = map_option finish_reason_str (gt_finish_reason tok)\<rparr>"

definition done_chunk :: "string \<Rightarrow> nat \<Rightarrow> string \<Rightarrow> chat_chunk" where
  "done_chunk i created model =
     \<lparr>ck_id = i, ck_created = created, ck_model = model, ck_role = None, ck_content = None, ck_finish_reason = Some ''length''\<rparr>"

text \<open>Whether the stream was finished: the streaming engine's drivers look at the last token, those of the scheduler at any token.\<close>

definition last_finished :: "generated_token list \<Rightarrow> bool" where
  "last_finished toks = fold (\<lambda>tok _. gt_finish_reason tok \<noteq> None) toks False"

definition any_finished :: "generated_token list \<Rightarrow> bool" where
  "any_finished toks = fold (\<lambda>tok finished. if gt_finish_reason tok \<noteq> None then True else finished) toks False"

definition token_chunks :: "(generated_token list \<Rightarrow> bool) \<Rightarrow> string \<Rightarrow> nat \<Rightarrow> string \<Rightarrow> generated_token list \<Rightarrow> chat_chunk list" where
  "token_chunks finished i created model toks =
     map (token_chunk i created model) toks @ (if finished toks then [] else [done_chunk i created model])"

definition error_events :: "(json \<Rightarrow> string) \<Rightarrow> model_error \<Rightarrow> string list" where
  "error_events print e = [sse_error print (model_error_display e), sse_done]"

definition chat_stream_with ::
  "(generated_token list \<Rightarrow> bool) \<Rightarrow> token_source \<Rightarrow> (json \<Rightarrow> string) \<Rightarrow> string \<Rightarrow> nat \<Rightarrow> chat_request \<Rightarrow> string list" where
  "chat_stream_with finished dlv print i created req =
     sse_event print (role_chunk i created (cr_model req)) #
     (case dlv (cr_model req) (tokenize (prompt_from_messages (cr_messages req))) (chat_params req) of
        Inl e \<Rightarrow> error_events print e
      | Inr toks \<Rightarrow> map (sse_event print) (token_chunks finished i created (cr_model req) toks) @ [sse_done])"

definition completion_stream_with ::
  "(generated_token list \<Rightarrow> bool) \<Rightarrow> token_source \<Rightarrow> (json \<Rightarrow> string) \<Rightarrow> string \<Rightarrow> nat \<Rightarrow> completion_request \<Rightarrow> string list" where
  "completion_stream_with finished dlv print i created req =
     (case dlv (tr_model req) (tokenize (tr_prompt req)) (completion_params req) of
        Inl e \<Rightarrow> error_events print e
      | Inr toks \<Rightarrow> map (sse_event print) (token_chunks finished i created (tr_model req) toks) @ [sse_done])"

text \<open>The loop of the complete drivers: text, finish reason and number of tokens.\<close>

definition collect_tokens :: "generated_token list \<Rightarrow> string \<times> string \<times> nat" where
  "collect_tokens toks =
     fold (\<lambda>tok (content, finish, n).
        (content @ gt_text tok, case gt_finish_reason tok of Some r \<Rightarrow> finish_reason_str r | None \<Rightarrow> finish, n + 1)) toks ([], ''length'', 0)"

definition usage_of :: "nat \<Rightarrow> nat \<Rightarrow> usage" where
  "usage_of prompt completion = \<lparr>us_prompt_tokens = prompt, us_completion_tokens = completion, us_total_tokens = prompt + completion\<rparr>"

definition chat_completion_with :: "token_source \<Rightarrow> string \<Rightarrow> nat \<Rightarrow> chat_request \<Rightarrow> model_error + chat_response" where
  "chat_completion_with dlv i created req =
     (let tokens = tokenize (prompt_from_messages (cr_messages req))
      in case dlv (cr_model req) tokens (chat_params req) of
           Inl e \<Rightarrow> Inl e
         | Inr toks \<Rightarrow>
             (case collect_tokens toks of
                (content, finish, n) \<Rightarrow>
                  Inr \<lparr>co_id = i, co_created = created, co_model = cr_model req, co_content = content, co_finish_reason = finish,
                       co_usage = usage_of (length tokens) n\<rparr>))"

definition completion_with :: "token_source \<Rightarrow> string \<Rightarrow> nat \<Rightarrow> completion_request \<Rightarrow> model_error + completion_response" where
  "completion_with dlv i created req =
     (let tokens = tokenize (tr_prompt req)
      in case dlv (tr_model req) tokens (completion_params req) of
           Inl e \<Rightarrow> Inl e
         | Inr toks \<Rightarrow>
             (case collect_tokens toks of
                (content, finish, n) \<Rightarrow>
                  Inr \<lparr>cp_id = i, cp_created = created, cp_model = tr_model req, cp_text = content, cp_finish_reason = finish,
                       cp_usage = usage_of (length tokens) n\<rparr>))"

definition chat_completion_stream :: "engine \<Rightarrow> (json \<Rightarrow> string) \<Rightarrow> nat \<Rightarrow> nat \<Rightarrow> chat_request \<Rightarrow> string list" where
  "chat_completion_stream e print nanos = chat_stream_with last_finished (generate_stream e) print (''chatcmpl-'' @ short_id nanos)"

definition chat_completion :: "engine \<Rightarrow> nat \<Rightarrow> nat \<Rightarrow> chat_request \<Rightarrow> model_error + chat_response" where
  "chat_completion e nanos = chat_completion_with (generate_stream e) (''chatcmpl-'' @ short_id nanos)"

definition completion_stream :: "engine \<Rightarrow> (json \<Rightarrow> string) \<Rightarrow> nat \<Rightarrow> nat \<Rightarrow> completion_request \<Rightarrow> string list" where
  "completion_stream e print nanos = completion_stream_with last_finished (generate_stream e) print (''cmpl-'' @ short_id nanos)"

definition completion :: "engine \<Rightarrow> nat \<Rightarrow> nat \<Rightarrow> completion_request \<Rightarrow> model_error + completion_response" where
  "completion e nanos = completion_with (generate_stream e) (''cmpl-'' @ short_id nanos)"

definition scheduled_chat_completion_stream :: "token_source \<Rightarrow> (json \<Rightarrow> string) \<Rightarrow> nat \<Rightarrow> nat \<Rightarrow> chat_request \<Rightarrow> string list" where
  "scheduled_chat_completion_stream dlv print nanos = chat_stream_with any_finished dlv print (''chatcmpl-'' @ short_id nanos)"

definition scheduled_chat_completion :: "token_source \<Rightarrow> nat \<Rightarrow> nat \<Rightarrow> chat_request \<Rightarrow> model_error + chat_response" where
  "scheduled_chat_completion dlv nanos = chat_completion_with dlv (''chatcmpl-'' @ short_id nanos)"

definition scheduled_completion_stream :: "token_source \<Rightarrow> (json \<Rightarrow> string) \<Rightarrow> nat \<Rightarrow> nat \<Rightarrow> completion_request \<Rightarrow> string list" where
  "scheduled_completion_stream dlv print nanos = completion_stream_with any_finished dlv print (''cmpl-'' @ short_id nanos)"

definition scheduled_completion :: "token_source \<Rightarrow> nat \<Rightarrow> nat \<Rightarrow> completion_request \<Rightarrow> model_error + completion_response" where
  "scheduled_completion dlv nanos = completion_with dlv (''cmpl-'' @ short_id nanos)"

record embedding_object =
  eo_index :: nat
  eo_embedding :: "rat list"

record embedding_response =
  es_data :: "embedding_object list"
  es_model :: string
  es_usage :: usage

text \<open>The coordinates as exact rationals.\<close>

definition embeddings :: "embedding_request \<Rightarrow> model_error + embedding_response" where
  "embeddings req =
     (let toks = map tokenize (into_texts (er_input req)); total_tokens = sum_list (map length toks)
      in Inr \<lparr>es_data = map (\<lambda>(i, ts). \<lparr>eo_index = i, eo_embedding = map (\<lambda>t. of_nat (unat t) / 1000 - 1 / 2) ts\<rparr>) (enumerate 0 toks),
              es_model = er_model req,
              es_usage = \<lparr>us_prompt_tokens = total_tokens, us_completion_tokens = 0, us_total_tokens = total_tokens\<rparr>\<rparr>)"

definition model_permission_json :: json where
  "model_permission_json =
     JObject [(''id'', JString []), (''object'', JString []), (''created'', JNumber 0), (''allow_create_engine'', JBool False),
       (''allow_sampling'', JBool False), (''allow_logprobs'', JBool False), (''allow_search_indices'', JBool False), (''allow_view'', JBool False),
       (''organization'', JString []), (''group'', JNull), (''is_blocking'', JBool False)]"

definition model_object_json :: "nat \<Rightarrow> string \<Rightarrow> json" where
  "model_object_json created i =
     JObject [(''id'', JString i), (''object'', JString ''model''), (''created'', JNumber (int created)), (''owned_by'', JString ''justapi''),
       (''permission'', JArray [model_permission_json]), (''root'', JNull), (''parent'', JNull)]"

definition model_list_json :: "engine \<Rightarrow> nat \<Rightarrow> json" where
  "model_list_json e created = JObject [(''object'', JString ''list''), (''data'', JArray (map (model_object_json created) (list_models e)))]"

section \<open>Lemmas on streams\<close>

lemma last_finished_snoc [simp]: "last_finished [] = False" "last_finished (toks @ [t]) = (gt_finish_reason t \<noteq> None)"
  by (simp_all add: last_finished_def)

lemma any_finished_snoc [simp]: "any_finished [] = False" "any_finished (toks @ [t]) = (gt_finish_reason t \<noteq> None \<or> any_finished toks)"
  by (auto simp: any_finished_def)

lemma any_finished_iff: "any_finished toks \<longleftrightarrow> (\<exists>t \<in> set toks. gt_finish_reason t \<noteq> None)"
  by (induction toks rule: rev_induct) auto

lemma finished_at_end: "list_all (\<lambda>t. gt_finish_reason t = None) (butlast toks) \<Longrightarrow> last_finished toks = any_finished toks"
  by (cases toks rule: rev_cases) (auto simp: any_finished_iff list_all_iff)

text \<open>The text of a list of chunks, and the last finish reason among them.\<close>

definition chunks_text :: "chat_chunk list \<Rightarrow> string" where
  "chunks_text cs = concat (List.map_filter ck_content cs)"

definition chunks_finish :: "chat_chunk list \<Rightarrow> string option" where
  "chunks_finish cs = (case List.map_filter ck_finish_reason cs of [] \<Rightarrow> None | rs \<Rightarrow> Some (last rs))"

lemma map_filter_append: "List.map_filter f (xs @ ys) = List.map_filter f xs @ List.map_filter f ys"
  by (induction xs) (auto simp: map_filter_simps split: option.splits)

lemma collect_tokens_spec:
  "collect_tokens toks =
     (concat (map gt_text toks),
      (case chunks_finish (map (token_chunk i created model) toks) of Some r \<Rightarrow> r | None \<Rightarrow> ''length''), length toks)"
proof (induction toks rule: rev_induct)
  case Nil
  then show ?case by (simp add: collect_tokens_def chunks_finish_def map_filter_simps)
next
  case (snoc t toks)
  then show ?case
    by (auto simp: collect_tokens_def chunks_finish_def map_filter_append map_filter_simps token_chunk_def split: option.splits list.splits)
qed

lemma no_finish_chunks: "\<not> any_finished toks \<longleftrightarrow> List.map_filter ck_finish_reason (map (token_chunk i created model) toks) = []"
  by (induction toks rule: rev_induct) (auto simp: map_filter_append map_filter_simps token_chunk_def split: option.splits)

lemma token_chunks_agree:
  assumes "finished = any_finished \<or> finished = last_finished \<and> list_all (\<lambda>t. gt_finish_reason t = None) (butlast toks)"
    and "collect_tokens toks = (content, finish, n)"
  shows "chunks_text (token_chunks finished i created model toks) = content"
    and "chunks_finish (token_chunks finished i created model toks) = Some finish"
    and "length (List.map_filter ck_content (token_chunks finished i created model toks)) = n"
proof -
  have c: "content = concat (map gt_text toks)" "n = length toks"
    "finish = (case chunks_finish (map (token_chunk i created model) toks) of Some r \<Rightarrow> r | None \<Rightarrow> ''length'')"
    using assms(2) collect_tokens_spec [of toks i created model] by simp_all
  have f: "finished toks = any_finished toks" using assms(1) finished_at_end by blast
  have texts: "List.map_filter ck_content (token_chunks finished i created model toks) = map gt_text toks"
  proof -
    have "List.map_filter ck_content (map (token_chunk i created model) toks) = map gt_text toks"
      by (induction toks) (simp_all add: map_filter_simps token_chunk_def)
    then show ?thesis by (simp add: token_chunks_def map_filter_append map_filter_simps done_chunk_def)
  qed
  then show "chunks_text (token_chunks finished i created model toks) = content"
    and "length (List.map_filter ck_content (token_chunks finished i created model toks)) = n"
    by (simp_all add: chunks_text_def c)
  show "chunks_finish (token_chunks finished i created model toks) = Some finish"
    using no_finish_chunks [of toks i created model] c(3) f
    by (auto simp: chunks_finish_def token_chunks_def map_filter_append map_filter_simps done_chunk_def split: list.splits)
qed

lemma split_once_shorter: "split_once pat s = Some (a, b) \<Longrightarrow> pat \<noteq> [] \<Longrightarrow> length b < length s"
proof (induction pat s arbitrary: a rule: split_once.induct)
  case (2 pat x xs)
  then show ?case by (auto split: if_splits)
qed (auto split: if_splits)

text \<open>How a client reads a stream of events: up to blank lines, without the field name.\<close>

function sse_payloads :: "string \<Rightarrow> string list" where
  "sse_payloads s = (case split_once [CHR 0x0A, CHR 0x0A] s of None \<Rightarrow> [] | Some (ev, rest) \<Rightarrow> drop 6 ev # sse_payloads rest)"
  by pat_completeness auto

termination
  by (relation "measure length") (auto dest: split_once_shorter)

declare sse_payloads.simps [simp del]

lemma split_once_frame:
  assumes "CHR 0x0A \<notin> set p"
  shows "split_once [CHR 0x0A, CHR 0x0A] (p @ CHR 0x0A # CHR 0x0A # rest) = Some (p, rest)"
  using assms
proof (induction p)
  case (Cons c p)
  then show ?case by (cases "p @ CHR 0x0A # CHR 0x0A # rest") auto
qed simp

lemma sse_payloads_frames: "list_all (\<lambda>p. CHR 0x0A \<notin> set p) ps \<Longrightarrow> sse_payloads (concat (map sse_frame ps)) = ps"
proof (induction ps)
  case Nil
  then show ?case by (simp add: sse_payloads.simps)
next
  case (Cons p ps)
  then have "CHR 0x0A \<notin> set (''data: '' @ p)" by simp
  from split_once_frame [OF this, of "concat (map sse_frame ps)"]
  have "split_once [CHR 0x0A, CHR 0x0A] (concat (map sse_frame (p # ps))) = Some (''data: '' @ p, concat (map sse_frame ps))"
    by (simp add: sse_frame_def)
  then show ?case using Cons by (subst sse_payloads.simps) simp
qed

lemma engine_get_register [simp]: "engine_get name (engine_register name model e) = Some model"
  by (simp add: engine_get_def engine_register_def registry_get_def registry_register_def map_of_update) 

lemma chat_agrees_with:
  assumes "dlv (cr_model req) (tokenize (prompt_from_messages (cr_messages req))) (chat_params req) = Inr toks"
    and "finished = any_finished \<or> finished = last_finished \<and> list_all (\<lambda>t. gt_finish_reason t = None) (butlast toks)"
  shows "\<exists>r chunks. chat_completion_with dlv i created req = Inr r \<and>
    chat_stream_with finished dlv print i created req = map (sse_event print) (role_chunk (co_id r) created (cr_model req) # chunks) @ [sse_done] \<and>
    chunks_text chunks = co_content r \<and> chunks_finish chunks = Some (co_finish_reason r) \<and>
    length (List.map_filter ck_content chunks) = us_completion_tokens (co_usage r)"
proof -
  obtain content finish n where c: "collect_tokens toks = (content, finish, n)" by (cases "collect_tokens toks")
  let ?r = "\<lparr>co_id = i, co_created = created, co_model = cr_model req, co_content = content, co_finish_reason = finish,
    co_usage = usage_of (length (tokenize (prompt_from_messages (cr_messages req)))) n\<rparr>"
  let ?chunks = "token_chunks finished i created (cr_model req) toks"
  have "chat_completion_with dlv i created req = Inr ?r" by (simp add: chat_completion_with_def assms(1) c Let_def)
  moreover have "chat_stream_with finished dlv print i created req = map (sse_event print) (role_chunk (co_id ?r) created (cr_model req) # ?chunks) @ [sse_done]"
    by (simp add: chat_stream_with_def assms(1))
  moreover have "chunks_text ?chunks = co_content ?r" "chunks_finish ?chunks = Some (co_finish_reason ?r)"
    "length (List.map_filter ck_content ?chunks) = us_completion_tokens (co_usage ?r)"
    using token_chunks_agree [OF assms(2) c] by (simp_all add: usage_of_def)
  ultimately show ?thesis by blast
qed

section \<open>Properties\<close>

text \<open>C34: A streamed chat and a complete chat agree: the stream is the role, one event for each token and, if no token said why generation ended, a
  final event, and then the end mark; its text, its finish reason and the number of its text events are the content, the finish
  reason and the completion tokens of the complete answer, if a model gives a reason with its last token only.\<close>

theorem streamed_chat_agrees:
  assumes "generate_stream e (cr_model req) (tokenize (prompt_from_messages (cr_messages req))) (chat_params req) = Inr toks"
    and "list_all (\<lambda>t. gt_finish_reason t = None) (butlast toks)"
  shows "\<exists>r chunks. chat_completion e nanos created req = Inr r \<and>
    chat_completion_stream e print nanos created req =
      map (sse_event print) (role_chunk (co_id r) created (cr_model req) # chunks) @ [sse_done] \<and>
    chunks_text chunks = co_content r \<and> chunks_finish chunks = Some (co_finish_reason r) \<and>
    length (List.map_filter ck_content chunks) = us_completion_tokens (co_usage r)"
  unfolding chat_completion_def chat_completion_stream_def
  using assms by (intro chat_agrees_with) auto

text \<open>A scheduled chat agrees with its stream without a condition on the tokens.\<close>

theorem scheduled_chat_agrees:
  assumes "dlv (cr_model req) (tokenize (prompt_from_messages (cr_messages req))) (chat_params req) = Inr toks"
  shows "\<exists>r chunks. scheduled_chat_completion dlv nanos created req = Inr r \<and>
    scheduled_chat_completion_stream dlv print nanos created req =
      map (sse_event print) (role_chunk (co_id r) created (cr_model req) # chunks) @ [sse_done] \<and>
    chunks_text chunks = co_content r \<and> chunks_finish chunks = Some (co_finish_reason r)"
  unfolding scheduled_chat_completion_def scheduled_chat_completion_stream_def
  using chat_agrees_with [where dlv = dlv and req = req and finished = any_finished, OF assms] by blast

text \<open>A client can read a chat stream back: split at blank lines, its events are the serialised chunks in order and then the end mark, or for a failure the
  role, the error and the end mark, if the serialiser puts no line break into its output.\<close>

theorem chat_stream_readable:
  assumes "\<And>j. CHR 0x0A \<notin> set (print j)"
  shows "\<exists>js. sse_payloads (concat (chat_stream_with finished dlv print i created req)) = map print js @ [''[DONE]''] \<and>
    (case dlv (cr_model req) (tokenize (prompt_from_messages (cr_messages req))) (chat_params req) of
       Inl e \<Rightarrow> js = [chunk_json (role_chunk i created (cr_model req)), api_error_json (model_error_display e) ''server_error'']
     | Inr toks \<Rightarrow> js = map chunk_json (role_chunk i created (cr_model req) # token_chunks finished i created (cr_model req) toks))"
proof -
  have read: "sse_payloads (concat (map sse_frame (map print js @ [''[DONE]'']))) = map print js @ [''[DONE]'']" for js
    using assms by (intro sse_payloads_frames) (auto simp: list_all_iff)
  show ?thesis
  proof (cases "dlv (cr_model req) (tokenize (prompt_from_messages (cr_messages req))) (chat_params req)")
    case (Inl e)
    show ?thesis
      using read [of "[chunk_json (role_chunk i created (cr_model req)), api_error_json (model_error_display e) ''server_error'']"]
      by (simp add: Inl chat_stream_with_def error_events_def sse_event_def sse_error_def sse_done_def)
  next
    case (Inr toks)
    show ?thesis
      using read [of "map chunk_json (role_chunk i created (cr_model req) # token_chunks finished i created (cr_model req) toks)"]
      by (simp add: Inr chat_stream_with_def sse_event_def [abs_def] sse_done_def comp_def)
  qed
qed


section \<open>Witnesses\<close>

definition example_chat :: chat_request where
  "example_chat =
     \<lparr>cr_model = ''m'', cr_messages = [\<lparr>cm_role = ''user'', cm_content = ''hi'', cm_name = None\<rparr>], cr_temperature = Some 0, cr_max_tokens = 4,
      cr_max_completion_tokens = None, cr_top_p = None, cr_stream = True, cr_stop = None, cr_user = None\<rparr>"

definition example_tokens :: "generated_token list" where
  "example_tokens = [\<lparr>gt_id = 1, gt_text = ''a'', gt_logprob = 0, gt_finish_reason = None\<rparr>,
     \<lparr>gt_id = 2, gt_text = ''b'', gt_logprob = 0, gt_finish_reason = Some Stop\<rparr>]"

definition empty_engine :: engine where
  "empty_engine = \<lparr>en_device = Cpu, en_registry = []\<rparr>"

theorem streamed_chat_agrees_witness:
  "\<exists>r chunks. chat_completion (engine_register ''m'' (\<lambda>_ _ _. example_tokens) empty_engine) 0 0 example_chat = Inr r \<and>
     chunks_text chunks = co_content r \<and> chunks_finish chunks = Some (co_finish_reason r)"
proof -
  let ?e = "engine_register ''m'' (\<lambda>_ _ _. example_tokens) empty_engine"
  have "generate_stream ?e (cr_model example_chat) (tokenize (prompt_from_messages (cr_messages example_chat))) (chat_params example_chat) =
      Inr example_tokens"
    by (simp add: generate_stream_def example_chat_def)
  moreover have "list_all (\<lambda>t. gt_finish_reason t = None) (butlast example_tokens)" by (simp add: example_tokens_def)
  ultimately show ?thesis using streamed_chat_agrees [of ?e example_chat example_tokens 0 0] by blast
qed

theorem chat_stream_readable_witness:
  "\<exists>js :: json list. sse_payloads (concat (chat_stream_with any_finished (\<lambda>_ _ _. Inr example_tokens) (\<lambda>_. ''{}'') ''i'' 0 example_chat)) =
     map (\<lambda>_. ''{}'') js @ [''[DONE]'']"
proof -
  have "CHR 0x0A \<notin> set ''{}''" by simp
  from chat_stream_readable [where print = "\<lambda>_. ''{}''" and finished = any_finished and dlv = "\<lambda>_ _ _. Inr example_tokens"
      and i = "''i''" and created = 0 and req = example_chat, OF this]
  show ?thesis by blast
qed


section \<open>Defects\<close>

text \<open>The drivers of the streaming engine forget a finish reason that a later token does not repeat: the stream then ends with the reason of the length,
  where the complete answer gives the real one.\<close>

lemma finish_reason_forgotten:
  "\<not> last_finished (rev example_tokens) \<and>
   chunks_finish (token_chunks last_finished i created model (rev example_tokens)) = Some ''length'' \<and>
   fst (snd (collect_tokens (rev example_tokens))) = ''stop''"
  by (simp add: last_finished_def example_tokens_def chunks_finish_def token_chunks_def token_chunk_def done_chunk_def collect_tokens_def map_filter_simps)

text \<open>The stop strings of a request have no effect.\<close>

lemma stop_strings_ignored: "chat_completion e nanos created (req\<lparr>cr_stop := stop\<rparr>) = chat_completion e nanos created req"
proof -
  have "effective_max_tokens (req\<lparr>cr_stop := stop\<rparr>) = effective_max_tokens req" by (simp add: effective_max_tokens_def split: option.split)
  then have "chat_params (req\<lparr>cr_stop := stop\<rparr>) = chat_params req" by (simp add: chat_params_def)
  then show ?thesis by (simp add: chat_completion_def chat_completion_with_def Let_def split: sum.split prod.split)
qed

end
