(* ===== verification/Openai_Http.thy ===== *)
theory Openai_Http
  imports Inference_Engine
begin

text \<open>
  The OpenAI endpoints of \<^verbatim>\<open>crates/justapi-core/src/openai.rs\<close> over the drivers of \<open>Inference_Engine\<close>, alone, over the scheduler, and
  behind the control plane and the router of \<open>Control_Plane\<close>.

  \<^item> Reading a body and deserialising it are parameters that may fail with a message; the clock and the serialiser are parameters.
  \<^item> The state of a routed handler is the router, whose round-robin counter routing advances.

  The lemmas show which statuses the endpoints answer, that a routed endpoint answers as the plain one does for the resolved model,
  and that it serves only requests for which an eligible replica exists.
\<close>

section \<open>Plain handlers\<close>

definition safe_status :: "nat \<Rightarrow> nat" where
  "safe_status st = (if 100 \<le> st \<and> st < 1000 then st else 500)"

definition api_error_response :: "(json \<Rightarrow> string) \<Rightarrow> string \<Rightarrow> string \<Rightarrow> nat \<Rightarrow> http_response" where
  "api_error_response print message ty status =
     (case error_json print message ty status of (st, body) \<Rightarrow> json_response (safe_status st) body)"

definition invalid_request :: "(json \<Rightarrow> string) \<Rightarrow> string \<Rightarrow> http_response" where
  "invalid_request print message = api_error_response print message ''invalid_request_error'' 400"

definition generation_failed :: "(json \<Rightarrow> string) \<Rightarrow> model_error \<Rightarrow> http_response" where
  "generation_failed print e = json_response 422 (print (api_error_json (model_error_display e) ''server_error''))"

text \<open>The two ends of a handler: the events of a stream, or a whole answer.\<close>

definition serve_chat ::
  "(json \<Rightarrow> string) \<Rightarrow> (chat_request \<Rightarrow> string list) \<Rightarrow> (chat_request \<Rightarrow> model_error + chat_response) \<Rightarrow> chat_request \<Rightarrow> http_response" where
  "serve_chat print stream answer req =
     (if cr_stream req then streaming_response 200 ''text/event-stream'' (stream req)
      else case answer req of
             Inr resp \<Rightarrow> json_response 200 (print (chat_response_json resp))
           | Inl e \<Rightarrow> generation_failed print e)"

definition serve_completion ::
  "(json \<Rightarrow> string) \<Rightarrow> (completion_request \<Rightarrow> string list) \<Rightarrow> (completion_request \<Rightarrow> model_error + completion_response) \<Rightarrow> completion_request \<Rightarrow>
   http_response" where
  "serve_completion print stream answer req =
     (if tr_stream req then streaming_response 200 ''text/event-stream'' (stream req)
      else case answer req of
             Inr resp \<Rightarrow> json_response 200 (print (completion_response_json resp))
           | Inl e \<Rightarrow> generation_failed print e)"

text \<open>\<open>print_embedding\<close> serialises an embedding response, whose coordinates are not integers.\<close>

definition serve_embeddings ::
  "(json \<Rightarrow> string) \<Rightarrow> (embedding_response \<Rightarrow> string) \<Rightarrow> embedding_request \<Rightarrow> http_response" where
  "serve_embeddings print print_embedding req =
     (case embeddings req of
        Inr resp \<Rightarrow> json_response 200 (print_embedding resp)
      | Inl e \<Rightarrow> generation_failed print e)"

definition parsed_body ::
  "(json \<Rightarrow> string) \<Rightarrow> (http_request \<Rightarrow> string + string) \<Rightarrow> (string \<Rightarrow> string + 'r) \<Rightarrow> ('r \<Rightarrow> http_response) \<Rightarrow> http_request \<Rightarrow> http_response" where
  "parsed_body print read parse serve req =
     (case read req of
        Inl e \<Rightarrow> invalid_request print e
      | Inr body \<Rightarrow> (case parse body of Inl e \<Rightarrow> invalid_request print e | Inr r \<Rightarrow> serve r))"

definition chat_completions_handler ::
  "engine \<Rightarrow> (json \<Rightarrow> string) \<Rightarrow> (http_request \<Rightarrow> string + string) \<Rightarrow> (string \<Rightarrow> string + chat_request) \<Rightarrow> nat \<Rightarrow> nat \<Rightarrow> 'w handler" where
  "chat_completions_handler e print read parse nanos created req w =
     (Response (parsed_body print read parse
        (serve_chat print (chat_completion_stream e print nanos created) (chat_completion e nanos created)) req), w)"

definition completions_handler ::
  "engine \<Rightarrow> (json \<Rightarrow> string) \<Rightarrow> (http_request \<Rightarrow> string + string) \<Rightarrow> (string \<Rightarrow> string + completion_request) \<Rightarrow> nat \<Rightarrow> nat \<Rightarrow> 'w handler" where
  "completions_handler e print read parse nanos created req w =
     (Response (parsed_body print read parse
        (serve_completion print (completion_stream e print nanos created) (completion e nanos created)) req), w)"

definition embeddings_handler ::
  "(json \<Rightarrow> string) \<Rightarrow> (embedding_response \<Rightarrow> string) \<Rightarrow> (http_request \<Rightarrow> string + string) \<Rightarrow> (string \<Rightarrow> string + embedding_request) \<Rightarrow> 'w handler" where
  "embeddings_handler print print_embedding read parse req w =
     (Response (parsed_body print read parse (serve_embeddings print print_embedding) req), w)"

definition models_handler :: "engine \<Rightarrow> (json \<Rightarrow> string) \<Rightarrow> nat \<Rightarrow> 'w handler" where
  "models_handler e print created req w = (Response (json_response 200 (print (model_list_json e created))), w)"

definition scheduled_chat_completions_handler ::
  "token_source \<Rightarrow> (json \<Rightarrow> string) \<Rightarrow> (http_request \<Rightarrow> string + string) \<Rightarrow> (string \<Rightarrow> string + chat_request) \<Rightarrow> nat \<Rightarrow> nat \<Rightarrow> 'w handler" where
  "scheduled_chat_completions_handler dlv print read parse nanos created req w =
     (Response (parsed_body print read parse
        (serve_chat print (scheduled_chat_completion_stream dlv print nanos created) (scheduled_chat_completion dlv nanos created)) req), w)"

definition scheduled_completions_handler ::
  "token_source \<Rightarrow> (json \<Rightarrow> string) \<Rightarrow> (http_request \<Rightarrow> string + string) \<Rightarrow> (string \<Rightarrow> string + completion_request) \<Rightarrow> nat \<Rightarrow> nat \<Rightarrow> 'w handler" where
  "scheduled_completions_handler dlv print read parse nanos created req w =
     (Response (parsed_body print read parse
        (serve_completion print (scheduled_completion_stream dlv print nanos created) (scheduled_completion dlv nanos created)) req), w)"

section \<open>Routed handlers\<close>

definition json_string_field :: "json \<Rightarrow> string \<Rightarrow> string option" where
  "json_string_field v k = (case json_get v k of Some (JString s) \<Rightarrow> Some s | _ \<Rightarrow> None)"

definition routing_context :: "(string \<Rightarrow> string + json) \<Rightarrow> string \<Rightarrow> route_request option" where
  "routing_context parse_json body =
     (case parse_json body of
        Inl _ \<Rightarrow> None
      | Inr v \<Rightarrow>
          map_option (\<lambda>model. \<lparr>rr_model = model, rr_version = json_string_field v ''version'', rr_routing_key = json_string_field v ''routing_key''\<rparr>)
            (json_string_field v ''model''))"

datatype admit_outcome = Serve route_decision | Reject http_response

definition admit ::
  "(json \<Rightarrow> string) \<Rightarrow> (string \<Rightarrow> string + json) \<Rightarrow> control_plane \<Rightarrow> string \<Rightarrow> replica_router \<Rightarrow> admit_outcome \<times> replica_router" where
  "admit print parse_json cp body rt =
     (case routing_context parse_json body of
        None \<Rightarrow> (Reject (invalid_request print (''request must include a '' @ [CHR 0x60] @ ''model'' @ [CHR 0x60])), rt)
      | Some request \<Rightarrow>
          (case route cp request rt of
             (Some d, rt) \<Rightarrow> (Serve d, rt)
           | (None, rt) \<Rightarrow>
               (Reject (api_error_response print ''no replica available to serve this request (all at capacity or no route)'' ''server_error'' 503), rt)))"

text \<open>The body is read, admitted and only then deserialised; \<open>set_model\<close> puts the resolved name into the request.\<close>

definition routed_handler ::
  "(json \<Rightarrow> string) \<Rightarrow> (http_request \<Rightarrow> string + string) \<Rightarrow> (string \<Rightarrow> string + json) \<Rightarrow> (string \<Rightarrow> string + 'r) \<Rightarrow> (string \<Rightarrow> 'r \<Rightarrow> 'r) \<Rightarrow>
   ('r \<Rightarrow> http_response) \<Rightarrow> control_plane \<Rightarrow> replica_router handler" where
  "routed_handler print read parse_json parse set_model serve cp req rt =
     (case read req of
        Inl e \<Rightarrow> (Response (invalid_request print e), rt)
      | Inr body \<Rightarrow>
          (case admit print parse_json cp body rt of
             (Reject resp, rt) \<Rightarrow> (Response resp, rt)
           | (Serve d, rt) \<Rightarrow>
               (case parse body of
                  Inl e \<Rightarrow> (Response (invalid_request print e), rt)
                | Inr r \<Rightarrow> (Response (serve (set_model (rm_name (rd_resolved d)) r)), rt))))"

definition routed_chat_completions_handler ::
  "engine \<Rightarrow> (json \<Rightarrow> string) \<Rightarrow> (http_request \<Rightarrow> string + string) \<Rightarrow> (string \<Rightarrow> string + json) \<Rightarrow> (string \<Rightarrow> string + chat_request) \<Rightarrow> nat \<Rightarrow> nat \<Rightarrow>
   control_plane \<Rightarrow> replica_router handler" where
  "routed_chat_completions_handler e print read parse_json parse nanos created cp =
     routed_handler print read parse_json parse (\<lambda>m r. r\<lparr>cr_model := m\<rparr>)
       (serve_chat print (chat_completion_stream e print nanos created) (chat_completion e nanos created)) cp"

definition routed_completions_handler ::
  "engine \<Rightarrow> (json \<Rightarrow> string) \<Rightarrow> (http_request \<Rightarrow> string + string) \<Rightarrow> (string \<Rightarrow> string + json) \<Rightarrow> (string \<Rightarrow> string + completion_request) \<Rightarrow> nat \<Rightarrow> nat \<Rightarrow>
   control_plane \<Rightarrow> replica_router handler" where
  "routed_completions_handler e print read parse_json parse nanos created cp =
     routed_handler print read parse_json parse (\<lambda>m r. r\<lparr>tr_model := m\<rparr>)
       (serve_completion print (completion_stream e print nanos created) (completion e nanos created)) cp"

definition routed_embeddings_handler ::
  "(json \<Rightarrow> string) \<Rightarrow> (embedding_response \<Rightarrow> string) \<Rightarrow> (http_request \<Rightarrow> string + string) \<Rightarrow> (string \<Rightarrow> string + json) \<Rightarrow> (string \<Rightarrow> string + embedding_request) \<Rightarrow>
   control_plane \<Rightarrow> replica_router handler" where
  "routed_embeddings_handler print print_embedding read parse_json parse cp =
     routed_handler print read parse_json parse (\<lambda>m r. r\<lparr>er_model := m\<rparr>) (serve_embeddings print print_embedding) cp"

section \<open>Lemmas\<close>

lemma error_statuses [simp]:
  "rp_status (invalid_request print e) = 400" "rp_status (generation_failed print err) = 422"
  "rp_status (api_error_response print msg ty 503) = 503"
  by (simp_all add: invalid_request_def api_error_response_def error_json_def safe_status_def generation_failed_def)

lemma streaming_status [simp]: "rp_status (streaming_response st ct cs) = st"
  by (simp add: streaming_response_def)

lemma serve_chat_status:
  "rp_status (serve_chat print stream answer r) = (if cr_stream r \<or> (\<exists>resp. answer r = Inr resp) then 200 else 422)"
  by (auto simp: serve_chat_def split: sum.splits)

lemma route_served:
  assumes "route cp request rt = (Some d, rt')"
  shows "cp_resolve cp (rr_model request) (rr_version request) (rr_routing_key request) = Some (rd_resolved d)"
    and "\<exists>r \<in> set (rt_replicas rt). eligible (rd_resolved d) r"
proof -
  obtain m where m: "cp_resolve cp (rr_model request) (rr_version request) (rr_routing_key request) = Some m" "candidates rt m \<noteq> []"
    "rd_resolved d = m"
    using assms by (auto simp: route_def Let_def split: option.splits if_splits routing_strategy.splits)
  then show "cp_resolve cp (rr_model request) (rr_version request) (rr_routing_key request) = Some (rd_resolved d)" by simp
  from m(2) obtain r where "r \<in> set (candidates rt m)" by (meson list.set_sel(1))
  then show "\<exists>r \<in> set (rt_replicas rt). eligible (rd_resolved d) r" using m(3) by (auto simp: candidates_def)
qed

lemma routed_handler_responds:
  "\<exists>resp rt'. routed_handler print read parse_json parse set_model serve cp req rt = (Response resp, rt')"
  by (auto simp: routed_handler_def split: sum.split prod.split admit_outcome.split)

lemma route_rejected:
  assumes "route cp request rt = (None, rt')"
  shows "rt' = rt \<and> (case cp_resolve cp (rr_model request) (rr_version request) (rr_routing_key request) of
    None \<Rightarrow> True | Some m \<Rightarrow> list_all (\<lambda>r. \<not> eligible m r) (rt_replicas rt))"
  using assms by (auto simp: route_def Let_def candidates_def filter_empty_conv list_all_iff split: option.splits if_splits routing_strategy.splits)

section \<open>Properties\<close>

text \<open>C35: A routed chat endpoint answers with a completion, a stream or a failed generation only when the request names a model that the control plane
  resolves and for which some replica is eligible, and then exactly as the plain endpoint does for the same request with the resolved model name;
  if there is no such replica it answers 503 and leaves the router as it is, and a request that cannot be read or names no model is answered 400.\<close>

theorem routed_chat_admission:
  assumes "routed_chat_completions_handler e print read parse_json parse nanos created cp req rt = (Response resp, rt')"
  shows "(rp_status resp = 400 \<and> (case read req of
            Inl _ \<Rightarrow> True
          | Inr body \<Rightarrow> routing_context parse_json body = None \<or> (\<exists>msg. parse body = Inl msg))) \<or>
    (rp_status resp = 503 \<and> rt' = rt \<and> (\<exists>body request. read req = Inr body \<and> routing_context parse_json body = Some request \<and>
        (case cp_resolve cp (rr_model request) (rr_version request) (rr_routing_key request) of
           None \<Rightarrow> True | Some m \<Rightarrow> list_all (\<lambda>r. \<not> eligible m r) (rt_replicas rt)))) \<or>
    (\<exists>body request m r. read req = Inr body \<and> routing_context parse_json body = Some request \<and>
        cp_resolve cp (rr_model request) (rr_version request) (rr_routing_key request) = Some m \<and>
        (\<exists>x \<in> set (rt_replicas rt). eligible m x) \<and> parse body = Inr r \<and>
        (Response resp, rt) = chat_completions_handler e print (\<lambda>_. Inr body) (\<lambda>_. Inr (r\<lparr>cr_model := rm_name m\<rparr>)) nanos created req rt)"
proof (cases "read req")
  case (Inl msg)
  then show ?thesis using assms by (auto simp: routed_chat_completions_handler_def routed_handler_def)
next
  case (Inr body)
  note defs = routed_chat_completions_handler_def routed_handler_def admit_def
  show ?thesis
  proof (cases "routing_context parse_json body")
    case None
    then show ?thesis using assms Inr by (auto simp: defs)
  next
    case (Some request)
    obtain od rt1 where route: "route cp request rt = (od, rt1)" by fastforce
    show ?thesis
    proof (cases od)
      case None
      then show ?thesis using assms Inr Some route route_rejected [of cp request rt rt1] by (auto simp: defs)
    next
      case (Some d)
      note served = route_served [OF route [unfolded Some]]
      show ?thesis
      proof (cases "parse body")
        case (Inl msg)
        then show ?thesis using assms \<open>read req = Inr body\<close> \<open>routing_context parse_json body = Some request\<close> route Some by (auto simp: defs)
      next
        case (Inr r)
        have "resp = serve_chat print (chat_completion_stream e print nanos created) (chat_completion e nanos created) (r\<lparr>cr_model := rm_name (rd_resolved d)\<rparr>)"
          using assms \<open>read req = Inr body\<close> \<open>routing_context parse_json body = Some request\<close> route Some Inr by (simp add: defs)
        then show ?thesis
          using \<open>read req = Inr body\<close> \<open>routing_context parse_json body = Some request\<close> served Inr
          by (intro disjI2 exI [of _ body] exI [of _ request] exI [of _ "rd_resolved d"] exI [of _ r])
            (simp add: chat_completions_handler_def parsed_body_def)
      qed
    qed
  qed
qed

definition example_http_request :: http_request where
  "example_http_request =
     \<lparr>rq_method = POST, rq_path = ''/v1/chat/completions'', rq_query = None, rq_headers = [], rq_body = [], rq_claims = None, rq_peer = None\<rparr>"

theorem routed_chat_admission_witness:
  "\<exists>resp. routed_chat_completions_handler empty_engine (\<lambda>_. []) (\<lambda>_. Inr ''b'') (\<lambda>_. Inr (JObject [(''model'', JString ''m'')]))
       (\<lambda>_. Inr example_chat) 0 0 example_plane example_http_request \<lparr>rt_strategy = LeastLoaded, rt_replicas = [], rt_rr = 0\<rparr> =
     (Response resp, \<lparr>rt_strategy = LeastLoaded, rt_replicas = [], rt_rr = 0\<rparr>) \<and> rp_status resp = 503"
proof -
  let ?rt = "\<lparr>rt_strategy = LeastLoaded, rt_replicas = [], rt_rr = 0\<rparr>" and ?json = "\<lambda>_. Inr (JObject [(''model'', JString ''m'')])"
  let ?h = "routed_chat_completions_handler empty_engine (\<lambda>_. []) (\<lambda>_. Inr ''b'') ?json (\<lambda>_. Inr example_chat) 0 0 example_plane"
  obtain resp rt' where h: "?h example_http_request ?rt = (Response resp, rt')"
    using routed_handler_responds by (fastforce simp: routed_chat_completions_handler_def)
  have "routing_context ?json ''b'' \<noteq> None" by (simp add: routing_context_def json_string_field_def)
  with routed_chat_admission [OF h] h show ?thesis by auto
qed

end
