(* ===== verification/Observability.thy ===== *)
theory Observability
  imports Complex_Main Responses
begin

text \<open>
  Metrics, health checks and alerts: \<^verbatim>\<open>crates/justapi-core/src/metrics.rs\<close>, \<^verbatim>\<open>src/health.rs\<close> and
  \<^verbatim>\<open>src/alerting.rs\<close>.

  \<^item> The counters are 64-bit words, on which \<open>fetch_add\<close> and \<open>fetch_sub\<close> wrap; a latency is a rational number of milliseconds.
  \<^item> A health check takes some number of milliseconds and yields a status, or never ends. All checks run at once, each
    under its own timeout.
  \<^item> The texts of numbers with a fraction and of JSON values are parameters, as are the clock and the network.

  The lemmas show what the histogram counts, that the percentiles are the least bucket bounds that enough samples stay below,
  and that the health endpoint fails exactly when a component is unhealthy or late.
\<close>

section \<open>Metrics\<close>

definition latency_bounds :: "rat list" where
  "latency_bounds = [1, 5/2, 5, 10, 25, 50, 100, 250, 500, 1000, 2500, 5000, 10000]"

record latency_hist =
  lh_buckets :: "64 word list"
  lh_count :: "64 word"
  lh_sum_us :: "64 word"

definition hist_new :: latency_hist where
  "hist_new = \<lparr>lh_buckets = map (\<lambda>_. 0) latency_bounds, lh_count = 0, lh_sum_us = 0\<rparr>"

text \<open>The cast of a floating point number to \<open>u64\<close> saturates.\<close>

definition as_u64 :: "rat \<Rightarrow> 64 word" where
  "as_u64 r = (if r < 0 then 0 else if 2 ^ 64 - 1 \<le> r then - 1 else of_int \<lfloor>r\<rfloor>)"

definition hist_record :: "rat \<Rightarrow> latency_hist \<Rightarrow> latency_hist" where
  "hist_record latency_ms h =
     (let h = h\<lparr>lh_count := lh_count h + 1, lh_sum_us := lh_sum_us h + as_u64 (latency_ms * 1000)\<rparr>
      in case find_index (\<lambda>threshold. latency_ms \<le> threshold) latency_bounds of
           Some i \<Rightarrow> h\<lparr>lh_buckets := (lh_buckets h)[i := lh_buckets h ! i + 1]\<rparr>
         | None \<Rightarrow> h)"

definition hist_snapshot :: "latency_hist \<Rightarrow> 64 word \<times> rat \<times> 64 word list" where
  "hist_snapshot h = (lh_count h, of_nat (unat (lh_sum_us h)) / 1000, lh_buckets h)"

record metrics =
  requests_total :: "64 word"
  errors_total :: "64 word"
  bytes_in :: "64 word"
  bytes_out :: "64 word"
  active_connections :: "64 word"
  status_2xx :: "64 word"
  status_3xx :: "64 word"
  status_4xx :: "64 word"
  status_5xx :: "64 word"
  latency :: latency_hist
  extra_providers :: "string list"

definition metrics_new :: metrics where
  "metrics_new =
     \<lparr>requests_total = 0, errors_total = 0, bytes_in = 0, bytes_out = 0, active_connections = 0, status_2xx = 0, status_3xx = 0,
      status_4xx = 0, status_5xx = 0, latency = hist_new, extra_providers = []\<rparr>"

definition record_request :: "metrics \<Rightarrow> metrics" where
  "record_request m = m\<lparr>requests_total := requests_total m + 1\<rparr>"

definition record_error :: "metrics \<Rightarrow> metrics" where
  "record_error m = m\<lparr>errors_total := errors_total m + 1\<rparr>"

definition record_status :: "nat \<Rightarrow> metrics \<Rightarrow> metrics" where
  "record_status code m =
     (if 200 \<le> code \<and> code \<le> 299 then m\<lparr>status_2xx := status_2xx m + 1\<rparr>
      else if 300 \<le> code \<and> code \<le> 399 then m\<lparr>status_3xx := status_3xx m + 1\<rparr>
      else if 400 \<le> code \<and> code \<le> 499 then m\<lparr>status_4xx := status_4xx m + 1\<rparr>
      else if 500 \<le> code \<and> code \<le> 599 then m\<lparr>status_5xx := status_5xx m + 1\<rparr>
      else m)"

definition record_latency :: "rat \<Rightarrow> metrics \<Rightarrow> metrics" where
  "record_latency ms m = m\<lparr>latency := hist_record ms (latency m)\<rparr>"

definition add_bytes_in :: "64 word \<Rightarrow> metrics \<Rightarrow> metrics" where
  "add_bytes_in n m = m\<lparr>bytes_in := bytes_in m + n\<rparr>"

definition add_bytes_out :: "64 word \<Rightarrow> metrics \<Rightarrow> metrics" where
  "add_bytes_out n m = m\<lparr>bytes_out := bytes_out m + n\<rparr>"

text \<open>A provider is the text that it renders.\<close>

definition register_extra_provider :: "string \<Rightarrow> metrics \<Rightarrow> metrics" where
  "register_extra_provider provider m = m\<lparr>extra_providers := extra_providers m @ [provider]\<rparr>"

definition connection_opened :: "metrics \<Rightarrow> metrics" where
  "connection_opened m = m\<lparr>active_connections := active_connections m + 1\<rparr>"

definition connection_closed :: "metrics \<Rightarrow> metrics" where
  "connection_closed m = m\<lparr>active_connections := active_connections m - 1\<rparr>"

fun percentile_scan :: "rat \<Rightarrow> nat \<Rightarrow> (rat \<times> 64 word) list \<Rightarrow> rat" where
  "percentile_scan target_count cumulative [] = last latency_bounds"
| "percentile_scan target_count cumulative ((bound, n) # rest) =
     (let cumulative = cumulative + unat n
      in if target_count \<le> of_nat cumulative then bound else percentile_scan target_count cumulative rest)"

definition percentile :: "latency_hist \<Rightarrow> rat \<Rightarrow> rat" where
  "percentile h pct = percentile_scan (of_nat (unat (lh_count h)) * pct) 0 (zip latency_bounds (lh_buckets h))"

definition percentiles :: "metrics \<Rightarrow> (rat \<times> rat \<times> rat \<times> rat) option" where
  "percentiles m =
     (if lh_count (latency m) = 0 then None
      else Some (percentile (latency m) (1/2), percentile (latency m) (95/100), percentile (latency m) (99/100),
                 percentile (latency m) (999/1000)))"

text \<open>\<open>prometheus\<close>; \<open>fixed3\<close> prints with three digits after the point, \<open>num\<close> prints a number.\<close>

definition nl :: string where
  "nl = [CHR 0x0A]"

definition help_type :: "string \<Rightarrow> string \<Rightarrow> string \<Rightarrow> string" where
  "help_type name help ty = ''# HELP '' @ name @ '' '' @ help @ nl @ ''# TYPE '' @ name @ '' '' @ ty @ nl"

definition sample :: "string \<Rightarrow> string \<Rightarrow> string" where
  "sample name v = name @ '' '' @ v @ nl"

definition label :: "string \<Rightarrow> string \<Rightarrow> string \<Rightarrow> string" where
  "label name key v = name @ [CHR 0x7B] @ key @ ''='' @ [CHR 0x22] @ v @ [CHR 0x22, CHR 0x7D]"

abbreviation word_str :: "64 word \<Rightarrow> string" where
  "word_str w \<equiv> nat_str (unat w)"

definition bucket_lines :: "(rat \<Rightarrow> string) \<Rightarrow> latency_hist \<Rightarrow> string list" where
  "bucket_lines num h =
     map (\<lambda>(bound, n). sample (label ''justapi_request_duration_ms_bucket'' ''le'' (num bound)) (word_str n)) (zip latency_bounds (lh_buckets h))"

definition prometheus :: "(rat \<Rightarrow> string) \<Rightarrow> (rat \<Rightarrow> string) \<Rightarrow> metrics \<Rightarrow> string" where
  "prometheus fixed3 num m =
     concat
       ([help_type ''justapi_requests_total'' ''Total number of requests.'' ''counter'',
         sample ''justapi_requests_total'' (word_str (requests_total m)),
         help_type ''justapi_errors_total'' ''Total number of errors.'' ''counter'',
         sample ''justapi_errors_total'' (word_str (errors_total m)),
         help_type ''justapi_bytes_in_total'' ''Total bytes received.'' ''counter'',
         sample ''justapi_bytes_in_total'' (word_str (bytes_in m)),
         help_type ''justapi_bytes_out_total'' ''Total bytes sent.'' ''counter'',
         sample ''justapi_bytes_out_total'' (word_str (bytes_out m)),
         help_type ''justapi_active_connections'' ''Current active connections.'' ''gauge'',
         sample ''justapi_active_connections'' (word_str (active_connections m)),
         help_type ''justapi_requests_by_status'' ''Requests by HTTP status code class.'' ''counter'',
         sample (label ''justapi_requests_by_status'' ''code'' ''2xx'') (word_str (status_2xx m)),
         sample (label ''justapi_requests_by_status'' ''code'' ''3xx'') (word_str (status_3xx m)),
         sample (label ''justapi_requests_by_status'' ''code'' ''4xx'') (word_str (status_4xx m)),
         sample (label ''justapi_requests_by_status'' ''code'' ''5xx'') (word_str (status_5xx m)),
         help_type ''justapi_request_duration_ms'' ''Request latency in milliseconds.'' ''histogram'',
         sample ''justapi_request_duration_ms_count'' (word_str (lh_count (latency m))),
         sample ''justapi_request_duration_ms_sum'' (fixed3 (fst (snd (hist_snapshot (latency m)))))] @
        bucket_lines num (latency m) @
        [sample (label ''justapi_request_duration_ms_bucket'' ''le'' ''+Inf'') (word_str (lh_count (latency m)))] @
        extra_providers m)"

definition quoted :: "string \<Rightarrow> string" where
  "quoted s = [CHR 0x22] @ s @ [CHR 0x22]"

definition simple_health_response :: http_response where
  "simple_health_response = json_response 200 ([CHR 0x7B] @ quoted ''status'' @ '':'' @ quoted ''ok'' @ [CHR 0x7D])"

definition ready_response :: http_response where
  "ready_response = json_response 200 ([CHR 0x7B] @ quoted ''ready'' @ '':true'' @ [CHR 0x7D])"

definition live_response :: http_response where
  "live_response = json_response 200 ([CHR 0x7B] @ quoted ''alive'' @ '':true'' @ [CHR 0x7D])"

definition metrics_response :: "(rat \<Rightarrow> string) \<Rightarrow> (rat \<Rightarrow> string) \<Rightarrow> metrics \<Rightarrow> http_response" where
  "metrics_response fixed3 num m =
     (let body = prometheus fixed3 num m
      in \<lparr>rp_status = 200, rp_headers = [(''content-type'', ''text/plain; version=0.0.4''), (''content-length'', nat_str (length body))],
          rp_body = body\<rparr>)"

section \<open>Health\<close>

datatype health_status = Healthy | Degraded string | Unhealthy string

text \<open>A registered check: its name, and how long it takes and what it yields, if it ends.\<close>

record health_check =
  hc_name :: string
  hc_result :: "(nat \<times> health_status) option"

type_synonym health_registry = "health_check list"

definition health_register :: "health_check \<Rightarrow> health_registry \<Rightarrow> health_registry" where
  "health_register check reg = reg @ [check]"

definition health_is_empty :: "health_registry \<Rightarrow> bool" where
  "health_is_empty reg \<longleftrightarrow> reg = []"

definition run_check :: "nat \<Rightarrow> health_check \<Rightarrow> health_status" where
  "run_check check_timeout c =
     (case hc_result c of
        Some (t, status) \<Rightarrow>
          if t \<le> check_timeout then status
          else Unhealthy (''health check '' @ [CHR 0x27] @ hc_name c @ [CHR 0x27] @ '' timed out after '' @ nat_str (check_timeout div 1000) @ ''s'')
      | None \<Rightarrow>
          Unhealthy (''health check '' @ [CHR 0x27] @ hc_name c @ [CHR 0x27] @ '' timed out after '' @ nat_str (check_timeout div 1000) @ ''s''))"

definition check_all_with_timeout :: "nat \<Rightarrow> health_registry \<Rightarrow> (string \<times> health_status) list" where
  "check_all_with_timeout check_timeout reg = map (\<lambda>c. (hc_name c, run_check check_timeout c)) reg"

definition check_all :: "health_registry \<Rightarrow> (string \<times> health_status) list" where
  "check_all reg = check_all_with_timeout 5000 reg"

datatype overall_health = Overall_healthy | Overall_degraded | Overall_unhealthy

fun overall_loop :: "bool \<Rightarrow> (string \<times> health_status) list \<Rightarrow> overall_health" where
  "overall_loop has_degraded [] = (if has_degraded then Overall_degraded else Overall_healthy)"
| "overall_loop has_degraded ((_, Unhealthy _) # cs) = Overall_unhealthy"
| "overall_loop has_degraded ((_, Degraded _) # cs) = overall_loop True cs"
| "overall_loop has_degraded ((_, Healthy) # cs) = overall_loop has_degraded cs"

definition overall :: "(string \<times> health_status) list \<Rightarrow> overall_health" where
  "overall components = overall_loop False components"

text \<open>The fields of a \<open>BTreeMap\<close> come in the order of their names.\<close>

fun status_json :: "health_status \<Rightarrow> json" where
  "status_json Healthy = JObject [(''status'', JString ''healthy'')]"
| "status_json (Degraded msg) = JObject [(''message'', JString msg), (''status'', JString ''degraded'')]"
| "status_json (Unhealthy msg) = JObject [(''message'', JString msg), (''status'', JString ''unhealthy'')]"

definition component_json :: "string \<times> health_status \<Rightarrow> json" where
  "component_json c = JObject [(''name'', JString (fst c)), (''status'', status_json (snd c))]"

definition report_json :: "(string \<times> health_status) list \<Rightarrow> json" where
  "report_json components =
     JObject
       [(''status'', JString (case overall components of Overall_healthy \<Rightarrow> ''healthy'' | Overall_degraded \<Rightarrow> ''degraded'' | Overall_unhealthy \<Rightarrow> ''unhealthy'')),
        (''components'', JArray (map component_json components))]"

text \<open>\<open>to_str\<close> is the serialiser, which may fail.\<close>

definition health_response :: "(json \<Rightarrow> string option) \<Rightarrow> health_registry \<Rightarrow> http_response" where
  "health_response to_str reg =
     (let report = check_all reg;
          status = (case overall report of Overall_healthy \<Rightarrow> 200 | Overall_degraded \<Rightarrow> 200 | Overall_unhealthy \<Rightarrow> 503)
      in json_response status
           (case to_str (report_json report) of
              Some body \<Rightarrow> body
            | None \<Rightarrow> [CHR 0x7B] @ quoted ''status'' @ '':'' @ quoted ''error'' @ '','' @ quoted ''message'' @ '':'' @ quoted ''serialization failed'' @ [CHR 0x7D]))"

section \<open>Alerts\<close>

datatype alert_severity = Info | Warning | Critical

fun severity_level :: "alert_severity \<Rightarrow> nat" where
  "severity_level Info = 0"
| "severity_level Warning = 1"
| "severity_level Critical = 2"

fun severity_display :: "alert_severity \<Rightarrow> string" where
  "severity_display Info = ''info''"
| "severity_display Warning = ''warning''"
| "severity_display Critical = ''critical''"

datatype alert_channel = Slack | PagerDuty | Generic

record alerting_config =
  webhook_url :: "string option"
  min_severity :: alert_severity
  channel :: alert_channel
  app_name :: string

definition alerting_default :: alerting_config where
  "alerting_default = \<lparr>webhook_url = None, min_severity = Warning, channel = Generic, app_name = ''justapi''\<rparr>"

definition alerting_new :: "string \<Rightarrow> alert_channel \<Rightarrow> alerting_config" where
  "alerting_new url ch = alerting_default\<lparr>webhook_url := Some url\<rparr>"

definition build_slack_payload :: "int \<Rightarrow> string \<Rightarrow> alert_severity \<Rightarrow> string \<Rightarrow> json" where
  "build_slack_payload now app severity message =
     JObject [(''attachments'', JArray [JObject
       [(''color'', JString (case severity of Info \<Rightarrow> ''#36a64f'' | Warning \<Rightarrow> ''#ffcc00'' | Critical \<Rightarrow> ''#ff0000'')),
        (''title'', JString (''['' @ app @ ''] '' @ severity_display severity @ '' Alert'')), (''text'', JString message), (''ts'', JNumber now)]])]"

definition build_pagerduty_payload :: "string \<Rightarrow> alert_severity \<Rightarrow> string \<Rightarrow> json" where
  "build_pagerduty_payload app severity message =
     JObject
       [(''routing_key'', JString ''webhook''), (''event_action'', JString ''trigger''),
        (''payload'', JObject
           [(''summary'', JString message), (''source'', JString app), (''severity'', JString (severity_display severity)),
            (''custom_details'', JObject [(''app'', JString app), (''message'', JString message)])])]"

definition build_generic_payload :: "int \<Rightarrow> string \<Rightarrow> alert_severity \<Rightarrow> string \<Rightarrow> json" where
  "build_generic_payload now app severity message =
     JObject [(''app'', JString app), (''severity'', JString (severity_display severity)), (''message'', JString message), (''timestamp'', JNumber now)]"

text \<open>An alert has a line in the log, and a payload for the webhook where there is one.\<close>

definition send_alert :: "int \<Rightarrow> alerting_config \<Rightarrow> alert_severity \<Rightarrow> string \<Rightarrow> ((alert_severity \<times> string) \<times> (string \<times> json) option) option" where
  "send_alert now c severity message =
     (if severity_level severity < severity_level (min_severity c) then None
      else Some ((severity, ''['' @ app_name c @ ''] '' @ severity_display severity @ '': '' @ message),
                 map_option (\<lambda>url. (url,
                   case channel c of
                     Slack \<Rightarrow> build_slack_payload now (app_name c) severity message
                   | PagerDuty \<Rightarrow> build_pagerduty_payload (app_name c) severity message
                   | Generic \<Rightarrow> build_generic_payload now (app_name c) severity message)) (webhook_url c)))"

section \<open>Lemmas on the histogram\<close>

text \<open>The numbers of samples that fall into the buckets with the given upper bounds, each sample into the first that holds it.\<close>

fun bucket_counts :: "rat list \<Rightarrow> rat list \<Rightarrow> nat list" where
  "bucket_counts [] xs = []"
| "bucket_counts (b # bs) xs = length (filter (\<lambda>x. x \<le> b) xs) # bucket_counts bs (filter (\<lambda>x. \<not> x \<le> b) xs)"

lemma length_bucket_counts [simp]: "length (bucket_counts bs xs) = length bs"
  by (induction bs arbitrary: xs) auto

lemma bucket_counts_snoc:
  "bucket_counts bs (xs @ [x]) =
     (case find_index (\<lambda>b. x \<le> b) bs of
        Some i \<Rightarrow> (bucket_counts bs xs)[i := bucket_counts bs xs ! i + 1]
      | None \<Rightarrow> bucket_counts bs xs)"
  by (induction bs arbitrary: xs) (auto split: option.splits)

lemma bucket_counts_le: "n \<in> set (bucket_counts bs xs) \<Longrightarrow> n \<le> length xs"
proof (induction bs arbitrary: xs)
  case (Cons b bs)
  then show ?case by (auto dest!: Cons.IH intro: le_trans [OF _ length_filter_le])
qed simp

lemma hist_record_all:
  "lh_buckets (fold hist_record xs hist_new) = map of_nat (bucket_counts latency_bounds xs) \<and>
   lh_count (fold hist_record xs hist_new) = of_nat (length xs)"
proof (induction xs rule: rev_induct)
  case Nil
  then show ?case by (simp add: hist_new_def latency_bounds_def)
next
  case (snoc x xs)
  then show ?case
    by (auto simp: hist_record_def Let_def bucket_counts_snoc map_update find_index_Some add.commute split: option.splits)
qed

lemma count_split:
  fixes b c :: rat
  assumes "b \<le> c"
  shows "length (filter (\<lambda>x. x \<le> c) xs) = length (filter (\<lambda>x. x \<le> b) xs) + length (filter (\<lambda>x. x \<le> c) (filter (\<lambda>x. \<not> x \<le> b) xs))"
  using assms by (induction xs) auto

lemma percentile_scan_spec:
  assumes "sorted bs" and "length ys < 2 ^ 64"
  shows "case percentile_scan t c (zip bs (map of_nat (bucket_counts bs ys))) of r \<Rightarrow>
    (r \<in> set bs \<and> t \<le> of_nat (c + length (filter (\<lambda>x. x \<le> r) ys)) \<or> r = last latency_bounds \<and> (\<forall>b\<in>set bs. of_nat (c + length (filter (\<lambda>x. x \<le> b) ys)) < t)) \<and>
    (\<forall>b\<in>set bs. b < r \<longrightarrow> of_nat (c + length (filter (\<lambda>x. x \<le> b) ys)) < t)"
  using assms
proof (induction bs arbitrary: c ys)
  case (Cons b bs)
  let ?n = "length (filter (\<lambda>x. x \<le> b) ys)" and ?ys = "filter (\<lambda>x. \<not> x \<le> b) ys"
  have "?n < 2 ^ 64" using Cons.prems(2) by (meson le_less_trans length_filter_le)
  then have n: "unat (of_nat ?n :: 64 word) = ?n" by (simp add: unat_of_nat)
  show ?case
  proof (cases "t \<le> of_nat (c + ?n)")
    case True
    then show ?thesis using Cons.prems(1) by (auto simp: n Let_def)
  next
    case False
    have ys: "length ?ys < 2 ^ 64" using Cons.prems(2) by (meson le_less_trans length_filter_le)
    have split: "length (filter (\<lambda>x. x \<le> b') ys) = ?n + length (filter (\<lambda>x. x \<le> b') ?ys)" if "b' \<in> set bs" for b'
      using Cons.prems(1) that by (intro count_split) auto
    have "percentile_scan t c (zip (b # bs) (map of_nat (bucket_counts (b # bs) ys))) =
        percentile_scan t (c + ?n) (zip bs (map of_nat (bucket_counts bs ?ys)))"
      using False by (simp add: n Let_def)
    then show ?thesis
      using Cons.IH [OF _ ys, of "c + ?n"] Cons.prems(1) False split by (auto simp: add.assoc)
  qed
qed simp

lemma overall_loop_unhealthy: "overall_loop d cs = Overall_unhealthy \<longleftrightarrow> (\<exists>c m. c \<in> set cs \<and> snd c = Unhealthy m)"
  by (induction d cs rule: overall_loop.induct) auto

lemma run_check_unhealthy:
  "(\<exists>m. run_check limit c = Unhealthy m) \<longleftrightarrow>
     (case hc_result c of None \<Rightarrow> True | Some (t, s) \<Rightarrow> limit < t \<or> (case s of Unhealthy _ \<Rightarrow> True | _ \<Rightarrow> False))"
  by (auto simp: run_check_def split: option.splits health_status.splits)

section \<open>Properties\<close>

text \<open>Each percentile is the least bucket bound that at least its share of the recorded samples does not exceed, and the
  largest bound if there is none.\<close>

theorem percentile_is_least_sufficient_bound:
  assumes "length xs < 2 ^ 64"
  shows "let p = percentile (fold hist_record xs hist_new) pct; below = (\<lambda>b. of_nat (length (filter (\<lambda>x. x \<le> b) xs)) :: rat);
      wanted = of_nat (length xs) * pct
    in p \<in> set latency_bounds \<and> (wanted \<le> below p \<or> p = 10000) \<and> list_all (\<lambda>b. p \<le> b \<or> below b < wanted) latency_bounds"
proof -
  let ?h = "fold hist_record xs hist_new"
  have h: "lh_buckets ?h = map of_nat (bucket_counts latency_bounds xs)" "unat (lh_count ?h) = length xs"
    using hist_record_all [of xs] assms by (simp_all add: unat_of_nat)
  have "sorted latency_bounds" by (simp add: latency_bounds_def)
  note spec = percentile_scan_spec [OF this assms, of "of_nat (length xs) * pct" 0]
  have l: "last latency_bounds = 10000" "(10000 :: rat) \<in> set latency_bounds" by (simp_all add: latency_bounds_def)
  show ?thesis using spec l unfolding percentile_def h Let_def list_all_iff by auto
qed

theorem percentile_is_least_sufficient_bound_witness: "percentile (fold hist_record [3, 20, 20000] hist_new) (1/2) = 25"
proof -
  define p where "p = percentile (fold hist_record [3, 20, 20000] hist_new) (1/2)"
  from percentile_is_least_sufficient_bound [of "[3, 20, 20000]" "1/2"]
  have "p \<in> set latency_bounds" "3/2 \<le> (of_nat (length (filter (\<lambda>x. x \<le> p) [3, 20, 20000])) :: rat) \<or> p = 10000" "p \<le> 25"
    unfolding p_def [symmetric] Let_def list_all_iff by (auto simp: latency_bounds_def)
  then have "p = 25" by (auto simp: latency_bounds_def)
  then show ?thesis by (simp add: p_def)
qed

text \<open>The health endpoint answers 503 exactly if some registered check reports an unhealthy component, takes longer than
  five seconds or never ends, and 200 otherwise.\<close>

theorem health_endpoint_exact:
  "rp_status (health_response to_str reg) =
     (if list_ex (\<lambda>c. case hc_result c of None \<Rightarrow> True | Some (t, s) \<Rightarrow> 5000 < t \<or> (case s of Unhealthy _ \<Rightarrow> True | _ \<Rightarrow> False)) reg
      then 503 else 200)"
proof -
  have "overall (check_all reg) = Overall_unhealthy \<longleftrightarrow>
      list_ex (\<lambda>c. case hc_result c of None \<Rightarrow> True | Some (t, s) \<Rightarrow> 5000 < t \<or> (case s of Unhealthy _ \<Rightarrow> True | _ \<Rightarrow> False)) reg"
    unfolding overall_def overall_loop_unhealthy check_all_def check_all_with_timeout_def list_ex_iff run_check_unhealthy [symmetric] by auto
  then show ?thesis by (auto simp: health_response_def Let_def split: overall_health.splits)
qed

text \<open>The bucket of a bound counts the samples above the previous bound only, while a histogram of Prometheus counts all
  samples up to the bound: a sample of half a millisecond is missing from the bucket of two and a half.\<close>

lemma histogram_not_cumulative:
  "lh_buckets (fold hist_record [1/2] hist_new) ! 0 = 1" "lh_buckets (fold hist_record [1/2] hist_new) ! 1 = 0"
  by (simp_all add: hist_record_def hist_new_def latency_bounds_def Let_def)

text \<open>The channel of a new configuration is always the generic one.\<close>

lemma alert_channel_ignored: "channel (alerting_new url c) = Generic"
  by (simp add: alerting_new_def alerting_default_def)

end
