(* ===== verification/Memory.thy ===== *)
theory Memory
  imports Prelude
begin

text \<open>
  Request memory: \<^verbatim>\<open>crates/justapi-core/src/memory.rs\<close>, a bump arena and a pool of byte buffers.

  \<^item> An arena is its buffer and its cursor; an allocated slice is the range of its positions. The shared arena does the same
    operations behind a mutex and copies the slice out.
  \<^item> A buffer of the pool is its contents and its capacity. The capacities that the standard library gives to a new and to
    a grown vector are parameters; it promises only that they are large enough.

  The lemmas show that allocations since the last reset do not overlap and keep their bytes, that an allocation fails exactly
  when the bytes do not fit, and that the pool hands out empty buffers only and keeps no more than its limit.
\<close>

section \<open>The arena\<close>

record request_arena =
  ar_buffer :: string
  ar_cursor :: nat

definition default_arena_size :: nat where
  "default_arena_size = 16 * 1024"

definition arena_with_capacity :: "nat \<Rightarrow> request_arena" where
  "arena_with_capacity cap = \<lparr>ar_buffer = replicate cap (CHR 0x00), ar_cursor = 0\<rparr>"

definition arena_new :: request_arena where
  "arena_new = arena_with_capacity default_arena_size"

definition arena_alloc :: "string \<Rightarrow> request_arena \<Rightarrow> (nat \<times> nat) option \<times> request_arena" where
  "arena_alloc bytes a =
     (let start = ar_cursor a; stop = start + length bytes in
      if length (ar_buffer a) < stop then (None, a)
      else (Some (start, stop),
            a\<lparr>ar_buffer := take start (ar_buffer a) @ bytes @ drop stop (ar_buffer a), ar_cursor := stop\<rparr>))"

definition arena_read :: "request_arena \<Rightarrow> nat \<times> nat \<Rightarrow> string" where
  "arena_read a r = take (snd r - fst r) (drop (fst r) (ar_buffer a))"

definition arena_reset :: "request_arena \<Rightarrow> request_arena" where
  "arena_reset a = a\<lparr>ar_cursor := 0\<rparr>"

definition arena_used :: "request_arena \<Rightarrow> nat" where
  "arena_used a = ar_cursor a"

definition arena_capacity :: "request_arena \<Rightarrow> nat" where
  "arena_capacity a = length (ar_buffer a)"

definition arena_available :: "request_arena \<Rightarrow> nat" where
  "arena_available a = length (ar_buffer a) - ar_cursor a"

text \<open>\<open>SharedArena::alloc_str\<close>.\<close>

definition shared_alloc_str :: "string \<Rightarrow> request_arena \<Rightarrow> string option \<times> request_arena" where
  "shared_alloc_str s a = (case arena_alloc s a of (r, a) \<Rightarrow> (map_option (arena_read a) r, a))"

text \<open>A sequence of allocations.\<close>

fun alloc_all :: "string list \<Rightarrow> request_arena \<Rightarrow> (nat \<times> nat) option list \<times> request_arena" where
  "alloc_all [] a = ([], a)"
| "alloc_all (b # bs) a =
     (case arena_alloc b a of (r, a) \<Rightarrow> case alloc_all bs a of (rs, a) \<Rightarrow> (r # rs, a))"

section \<open>The buffer pool\<close>

record byte_vec =
  bv_bytes :: string
  bv_capacity :: nat

definition bucket_sizes :: "nat list" where
  "bucket_sizes = [1024, 4096, 16384, 65536]"

record buffer_pool =
  bp_buckets :: "byte_vec list list"
  bp_max_per_bucket :: nat

definition pool_with_max :: "nat \<Rightarrow> buffer_pool" where
  "pool_with_max n = \<lparr>bp_buckets = [[], [], [], []], bp_max_per_bucket = n\<rparr>"

definition buffer_pool_new :: buffer_pool where
  "buffer_pool_new = pool_with_max 128"

definition bucket_index :: "nat \<Rightarrow> nat" where
  "bucket_index min_size =
     (case find_index (\<lambda>size. min_size \<le> size) bucket_sizes of Some i \<Rightarrow> i | None \<Rightarrow> length bucket_sizes - 1)"

definition pool_acquire :: "(nat \<Rightarrow> nat) \<Rightarrow> nat \<Rightarrow> buffer_pool \<Rightarrow> byte_vec \<times> buffer_pool" where
  "pool_acquire fresh min_size p =
     (let idx = bucket_index min_size; pool = bp_buckets p ! idx in
      if pool = [] then (\<lparr>bv_bytes = [], bv_capacity = fresh (bucket_sizes ! idx)\<rparr>, p)
      else (last pool, p\<lparr>bp_buckets := (bp_buckets p)[idx := butlast pool]\<rparr>))"

definition pool_release :: "byte_vec \<Rightarrow> buffer_pool \<Rightarrow> buffer_pool" where
  "pool_release buf p =
     (let buf = buf\<lparr>bv_bytes := []\<rparr>; idx = bucket_index (bv_capacity buf); pool = bp_buckets p ! idx in
      if length pool < bp_max_per_bucket p then p\<lparr>bp_buckets := (bp_buckets p)[idx := pool @ [buf]]\<rparr> else p)"

text \<open>\<open>Vec::extend_from_slice\<close>.\<close>

definition vec_extend :: "(nat \<Rightarrow> nat \<Rightarrow> nat) \<Rightarrow> string \<Rightarrow> byte_vec \<Rightarrow> byte_vec" where
  "vec_extend grow bytes v =
     (let needed = length (bv_bytes v) + length bytes in
      v\<lparr>bv_bytes := bv_bytes v @ bytes,
        bv_capacity := (if needed \<le> bv_capacity v then bv_capacity v else grow (bv_capacity v) needed)\<rparr>)"

text \<open>Uses of the pool: a buffer is acquired, or some buffer is returned.\<close>

datatype pool_use = Acquire_buf nat | Release_buf byte_vec

fun pool_use_step :: "(nat \<Rightarrow> nat) \<Rightarrow> pool_use \<Rightarrow> buffer_pool \<Rightarrow> buffer_pool" where
  "pool_use_step fresh (Acquire_buf n) p = snd (pool_acquire fresh n p)"
| "pool_use_step fresh (Release_buf b) p = pool_release b p"

section \<open>Lemmas on the arena\<close>

definition arena_ok :: "request_arena \<Rightarrow> bool" where
  "arena_ok a \<longleftrightarrow> ar_cursor a \<le> length (ar_buffer a)"

lemma arena_alloc_Some:
  assumes "arena_ok a" and "length bytes \<le> arena_available a"
  obtains a' where "arena_alloc bytes a = (Some (ar_cursor a, ar_cursor a + length bytes), a')" "arena_ok a'"
    "ar_cursor a' = ar_cursor a + length bytes" "length (ar_buffer a') = length (ar_buffer a)"
    "arena_read a' (ar_cursor a, ar_cursor a + length bytes) = bytes"
    "\<And>r. snd r \<le> ar_cursor a \<Longrightarrow> arena_read a' r = arena_read a r"
proof -
  let ?a = "snd (arena_alloc bytes a)"
  have a: "arena_alloc bytes a = (Some (ar_cursor a, ar_cursor a + length bytes), ?a)"
    and buf: "ar_buffer ?a = take (ar_cursor a) (ar_buffer a) @ bytes @ drop (ar_cursor a + length bytes) (ar_buffer a)"
    and cur: "ar_cursor ?a = ar_cursor a + length bytes"
    using assms by (auto simp: arena_alloc_def Let_def arena_ok_def arena_available_def)
  have "arena_read ?a r = arena_read a r" if r: "snd r \<le> ar_cursor a" for r
  proof (rule nth_equalityI)
    show "length (arena_read ?a r) = length (arena_read a r)"
      using assms r by (auto simp: arena_read_def buf arena_ok_def arena_available_def)
    show "arena_read ?a r ! i = arena_read a r ! i" if "i < length (arena_read ?a r)" for i
      using assms r that by (auto simp: arena_read_def buf arena_ok_def arena_available_def nth_append)
  qed
  moreover have "arena_read ?a (ar_cursor a, ar_cursor a + length bytes) = bytes"
    using assms by (simp add: arena_read_def buf arena_ok_def)
  ultimately show thesis
    using that [OF a] assms by (simp add: arena_ok_def cur buf arena_available_def)
qed

lemma arena_alloc_None: "arena_ok a \<Longrightarrow> arena_available a < length bytes \<Longrightarrow> arena_alloc bytes a = (None, a)"
  by (auto simp: arena_alloc_def arena_ok_def arena_available_def Let_def)

lemma arena_alloc_cases:
  assumes "arena_ok a"
  obtains (full) "arena_available a < length bytes" "arena_alloc bytes a = (None, a)"
  | (granted) a' where "length bytes \<le> arena_available a" "arena_alloc bytes a = (Some (ar_cursor a, ar_cursor a + length bytes), a')"
    "arena_ok a'" "ar_cursor a' = ar_cursor a + length bytes" "length (ar_buffer a') = length (ar_buffer a)"
    "arena_read a' (ar_cursor a, ar_cursor a + length bytes) = bytes"
    "\<And>r. snd r \<le> ar_cursor a \<Longrightarrow> arena_read a' r = arena_read a r"
  using arena_alloc_None [OF assms] arena_alloc_Some [OF assms] by (metis not_le)

text \<open>The bytes granted by a sequence of allocations.\<close>

definition granted_bytes :: "(nat \<times> nat) option list \<Rightarrow> string list \<Rightarrow> nat" where
  "granted_bytes rs bs = sum_list (map2 (\<lambda>r b. if r = None then 0 else length b) rs bs)"

lemma alloc_all_frame:
  assumes "arena_ok a" and "alloc_all bs a = (rs, a')"
  shows "arena_ok a' \<and> length rs = length bs \<and> length (ar_buffer a') = length (ar_buffer a) \<and>
    ar_cursor a' = ar_cursor a + granted_bytes rs bs \<and> (\<forall>r. snd r \<le> ar_cursor a \<longrightarrow> arena_read a' r = arena_read a r)"
  using assms
proof (induction bs arbitrary: a rs)
  case Nil
  then show ?case by (simp add: granted_bytes_def)
next
  case (Cons b bs)
  obtain rs' where r: "alloc_all bs (snd (arena_alloc b a)) = (rs', a')" "rs = fst (arena_alloc b a) # rs'"
    using Cons.prems(2) by (auto split: prod.splits)
  show ?case
  proof (rule arena_alloc_cases [OF Cons.prems(1), of b])
    assume "arena_alloc b a = (None, a)"
    then show ?thesis using Cons.IH [OF Cons.prems(1), of rs'] r by (simp add: granted_bytes_def)
  next
    fix a1 assume a1: "arena_alloc b a = (Some (ar_cursor a, ar_cursor a + length b), a1)" "arena_ok a1"
      "ar_cursor a1 = ar_cursor a + length b" "length (ar_buffer a1) = length (ar_buffer a)"
      "\<And>r. snd r \<le> ar_cursor a \<Longrightarrow> arena_read a1 r = arena_read a r"
    then show ?thesis using Cons.IH [OF a1(2), of rs'] r by (simp add: granted_bytes_def)
  qed
qed

lemma alloc_all_append:
  "alloc_all (bs @ cs) a = (case alloc_all bs a of (rs, a1) \<Rightarrow> case alloc_all cs a1 of (qs, a2) \<Rightarrow> (rs @ qs, a2))"
  by (induction bs arbitrary: a) (auto split: prod.splits)

text \<open>One request in the middle of a sequence.\<close>

lemma alloc_all_middle:
  assumes ok: "arena_ok a" and run: "alloc_all bs a = (rs, a')" and i: "i < length bs"
  obtains a1 a2 where "arena_ok a1" "alloc_all (take i bs) a = (take i rs, a1)" "arena_alloc (bs ! i) a1 = (rs ! i, a2)"
    "alloc_all (drop (Suc i) bs) a2 = (drop (Suc i) rs, a')"
proof -
  have split: "bs = take i bs @ bs ! i # drop (Suc i) bs" using i by (simp add: id_take_nth_drop)
  obtain ps a1 where p: "alloc_all (take i bs) a = (ps, a1)" by fastforce
  obtain r a2 where r: "arena_alloc (bs ! i) a1 = (r, a2)" by fastforce
  obtain qs a3 where q: "alloc_all (drop (Suc i) bs) a2 = (qs, a3)" by fastforce
  have "(rs, a') = (ps @ r # qs, a3)"
    using run by (subst (asm) split) (simp add: alloc_all_append p r q)
  moreover have "length ps = i" "arena_ok a1" using alloc_all_frame [OF ok p] i by auto
  ultimately show thesis using that p r q by (simp add: nth_append)
qed

lemma pool_buckets:
  assumes "length (bp_buckets p) = 4" and "\<forall>bucket\<in>set (bp_buckets p). length bucket \<le> bp_max_per_bucket p \<and> (\<forall>b\<in>set bucket. bv_bytes b = [])"
  shows "length (bp_buckets (pool_use_step fresh u p)) = 4 \<and> bp_max_per_bucket (pool_use_step fresh u p) = bp_max_per_bucket p \<and>
    (\<forall>bucket\<in>set (bp_buckets (pool_use_step fresh u p)). length bucket \<le> bp_max_per_bucket p \<and> (\<forall>b\<in>set bucket. bv_bytes b = []))"
proof -
  have idx: "bucket_index n < 4" for n
    by (simp add: bucket_index_def bucket_sizes_def)
  have nth: "bp_buckets p ! bucket_index n \<in> set (bp_buckets p)" for n using idx [of n] assms(1) by simp
  show ?thesis
  proof (cases u)
    case (Acquire_buf n)
    have "\<forall>b\<in>set (butlast (bp_buckets p ! bucket_index n)). bv_bytes b = []" "length (butlast (bp_buckets p ! bucket_index n)) \<le> bp_max_per_bucket p"
      using assms(2) nth [of n] by (auto dest: in_set_butlastD)
    then show ?thesis using assms Acquire_buf by (auto simp: pool_acquire_def Let_def dest!: set_update_subset_insert [THEN subsetD])
  next
    case (Release_buf b)
    show ?thesis using assms Release_buf nth [of "bv_capacity b"]
      by (auto simp: pool_release_def Let_def dest!: set_update_subset_insert [THEN subsetD])
  qed
qed

definition pool_ok :: "buffer_pool \<Rightarrow> bool" where
  "pool_ok p \<longleftrightarrow>
     length (bp_buckets p) = 4 \<and>
     (\<forall>bucket\<in>set (bp_buckets p). length bucket \<le> bp_max_per_bucket p \<and> (\<forall>b\<in>set bucket. bv_bytes b = []))"

lemma pool_ok_step: "pool_ok p \<Longrightarrow> pool_ok (pool_use_step fresh u p) \<and> bp_max_per_bucket (pool_use_step fresh u p) = bp_max_per_bucket p"
  unfolding pool_ok_def using pool_buckets [of p fresh u] by auto

lemma pool_ok_uses:
  "pool_ok p \<Longrightarrow> pool_ok (fold (pool_use_step fresh) us p) \<and> bp_max_per_bucket (fold (pool_use_step fresh) us p) = bp_max_per_bucket p"
  using pool_ok_step by (induction us arbitrary: p) fastforce+

lemma pool_ok_new: "pool_ok (pool_with_max n)"
  by (simp add: pool_ok_def pool_with_max_def)

lemma acquire_empty: "pool_ok p \<Longrightarrow> bv_bytes (fst (pool_acquire fresh n p)) = []"
proof -
  assume p: "pool_ok p"
  have "bucket_index n < 4" by (simp add: bucket_index_def bucket_sizes_def)
  then have "bp_buckets p ! bucket_index n \<in> set (bp_buckets p)" using p by (simp add: pool_ok_def)
  then show ?thesis using p by (auto simp: pool_acquire_def Let_def pool_ok_def)
qed

section \<open>Properties\<close>

text \<open>Allocations from an arena since its last reset do not overlap and keep their bytes, whatever is allocated
  afterwards, and an allocation fails exactly when its bytes do not fit behind those granted before.\<close>

theorem arena_allocations_stable:
  assumes "alloc_all bs (arena_reset a0) = (rs, a)" and "i < length bs"
  shows "(rs ! i = None \<longleftrightarrow> arena_capacity a0 < granted_bytes (take i rs) (take i bs) + length (bs ! i)) \<and>
    (\<forall>s e. rs ! i = Some (s, e) \<longrightarrow>
       e \<le> arena_capacity a0 \<and> arena_read a (s, e) = bs ! i \<and> (\<forall>j<i. \<forall>s' e'. rs ! j = Some (s', e') \<longrightarrow> e' \<le> s))"
proof -
  have ok: "arena_ok (arena_reset a0)" by (simp add: arena_ok_def arena_reset_def)
  obtain a1 a2 where m: "arena_ok a1" "alloc_all (take i bs) (arena_reset a0) = (take i rs, a1)"
    "arena_alloc (bs ! i) a1 = (rs ! i, a2)" "alloc_all (drop (Suc i) bs) a2 = (drop (Suc i) rs, a)"
    by (rule alloc_all_middle [OF ok assms])
  have front: "ar_cursor a1 = granted_bytes (take i rs) (take i bs)" "length (ar_buffer a1) = arena_capacity a0"
    using alloc_all_frame [OF ok m(2)] by (auto simp: arena_reset_def arena_capacity_def)
  have before: "e' \<le> ar_cursor a1" if j: "j < i" "rs ! j = Some (s', e')" for j s' e'
  proof -
    have "j < length (take i bs)" using j assms(2) by simp
    then obtain b1 b2 where b: "arena_ok b1" "arena_alloc (take i bs ! j) b1 = (take i rs ! j, b2)"
      "alloc_all (drop (Suc j) (take i bs)) b2 = (drop (Suc j) (take i rs), a1)"
      by (rule alloc_all_middle [OF ok m(2)])
    show ?thesis using b(2) j alloc_all_frame [OF _ b(3)]
      by (rule_tac arena_alloc_cases [OF b(1), of "take i bs ! j"]) auto
  qed
  show ?thesis
  proof (rule arena_alloc_cases [OF m(1), of "bs ! i"])
    assume "arena_available a1 < length (bs ! i)" "arena_alloc (bs ! i) a1 = (None, a1)"
    then show ?thesis using m(3) front m(1) by (auto simp: arena_available_def arena_ok_def)
  next
    fix b assume b: "length (bs ! i) \<le> arena_available a1"
      "arena_alloc (bs ! i) a1 = (Some (ar_cursor a1, ar_cursor a1 + length (bs ! i)), b)" "arena_ok b"
      "ar_cursor b = ar_cursor a1 + length (bs ! i)" "arena_read b (ar_cursor a1, ar_cursor a1 + length (bs ! i)) = bs ! i"
    then have "b = a2" "rs ! i = Some (ar_cursor a1, ar_cursor a1 + length (bs ! i))" using m(3) by auto
    then show ?thesis using b m(1) front before alloc_all_frame [OF _ m(4)] by (auto simp: arena_available_def arena_ok_def)
  qed
qed

theorem arena_allocations_stable_witness:
  "alloc_all [''ab'', ''toolong'', ''c''] (arena_reset (arena_with_capacity 4)) =
     ([Some (0, 2), None, Some (2, 3)], \<lparr>ar_buffer = ''abc'' @ [CHR 0x00], ar_cursor = 3\<rparr>) \<and>
   arena_read \<lparr>ar_buffer = ''abc'' @ [CHR 0x00], ar_cursor = 3\<rparr> (2, 3) = ''c''"
proof -
  have run: "alloc_all [''ab'', ''toolong'', ''c''] (arena_reset (arena_with_capacity 4)) =
     ([Some (0, 2), None, Some (2, 3)], \<lparr>ar_buffer = ''abc'' @ [CHR 0x00], ar_cursor = 3\<rparr>)"
    by code_simp
  from arena_allocations_stable [OF this, of 2] run show ?thesis by simp
qed

text \<open>A buffer acquired from the pool holds no bytes of an earlier use, whatever was acquired and returned before, and
  no bucket holds more buffers than the limit.\<close>

theorem pooled_buffers_are_empty:
  "(case fold (pool_use_step fresh) us (pool_with_max n) of p \<Rightarrow>
      bv_bytes (fst (pool_acquire fresh min_size p)) = [] \<and> list_all (\<lambda>bucket. length bucket \<le> n) (bp_buckets p))"
proof -
  let ?p = "fold (pool_use_step fresh) us (pool_with_max n)"
  have "pool_ok ?p" "bp_max_per_bucket ?p = n"
    using pool_ok_uses [OF pool_ok_new, of fresh us n] by (auto simp: pool_with_max_def)
  then show ?thesis using acquire_empty [of ?p fresh min_size] by (auto simp: pool_ok_def list_all_iff)
qed

text \<open>A buffer is filed under the bucket that its capacity fits into, and a bucket serves all requests up to its size: a
  buffer that was returned with a capacity between two sizes is smaller than the request that gets it. And a request above
  the largest size gets a buffer of that size.\<close>

lemma acquire_may_be_too_small:
  "bv_capacity (fst (pool_acquire (\<lambda>n. n) 4096 (pool_release \<lparr>bv_bytes = [], bv_capacity = 1025\<rparr> buffer_pool_new))) = 1025 \<and>
   bv_capacity (fst (pool_acquire (\<lambda>n. n) 100000 buffer_pool_new)) = 65536"
  by (simp add: pool_release_def pool_acquire_def buffer_pool_new_def pool_with_max_def bucket_index_def bucket_sizes_def Let_def)

end
