(* ===== verification/Server.thy ===== *)
theory Server
  imports Observability Memory Static_Files Route_Table Auth
begin

text \<open>
  The HTTP server: \<^verbatim>\<open>crates/justapi-core/src/server/mod.rs\<close> (the builder \<open>Server\<close>, \<open>make_handler\<close>, \<open>handle_request\<close>, the accept
  loop), \<^verbatim>\<open>src/server/handler_exec.rs\<close> (\<open>execute_handler\<close>), \<^verbatim>\<open>src/server/sse_ws.rs\<close> and \<^verbatim>\<open>src/plugin.rs\<close>.

  \<^item> The state behind the handlers is one record: metrics, buffer pool, route table with its cache, the WebSocket sessions that
    were started, and the state of the application, which the custom handlers work on.
  \<^item> What the server takes from other crates, from the process and from the build is the record \<open>server_env\<close>.
  \<^item> A request arrives with its body, or with the part of it that was received; \<open>elapsed\<close> is the time a request took. The
    timeout runs a computation and returns nothing if it dropped it.
  \<^item> The accept loop is a sequence of events: connections are accepted, get a permit and end, and the shutdown is signalled.

  The lemmas show which answer \<open>handle_request\<close> gives in every case, how requests are accounted, that a gate in front of the
  chain protects handlers and files but not WebSockets, that dispatch follows the routes whatever the cache holds, and that
  no more connections are served than permitted.
\<close>

section \<open>Handlers\<close>

datatype 'w server_handler =
  Static nat string
| Echo
| ParamsEcho
| Sse
| Health
| Ready
| Live
| Prometheus
| OpenApiJson
| SwaggerUi
| Redoc
| GraphQL
| Custom "(string \<times> string) list \<Rightarrow> 'w handler"

record ws_conn_info =
  wi_path :: string
  wi_query :: string
  wi_headers :: header_map
  wi_client :: "string option"

record ('m, 'w) server_world =
  sw_metrics :: metrics
  sw_pool :: buffer_pool
  sw_router :: "('m, 'w server_handler) route_table"
  sw_sessions :: "ws_conn_info list"
  sw_app :: 'w

record ('m, 'w) server_env =
  env_print :: "json \<Rightarrow> string"
  env_to_str :: "json \<Rightarrow> string option"
  env_parse :: "string \<Rightarrow> json option"
  env_fixed3 :: "rat \<Rightarrow> string"
  env_num :: "rat \<Rightarrow> string"
  env_visible :: "string \<Rightarrow> bool"
  env_utf8_lossy :: "string \<Rightarrow> string"
  env_recv :: "http_request \<Rightarrow> string \<times> bool"
  env_fresh :: "nat \<Rightarrow> nat"
  env_grow :: "nat \<Rightarrow> nat \<Rightarrow> nat"
  env_builtin_spec :: string
  env_swagger_html :: string
  env_redoc_html :: string
  env_graphql :: "(http_request \<Rightarrow> string + http_response) option option"
  env_look :: "'m \<Rightarrow> string \<Rightarrow> ('w server_handler \<times> (string \<times> string) list) option"
  env_empty :: 'm
  env_insert :: "string \<Rightarrow> 'w server_handler \<Rightarrow> 'm \<Rightarrow> bool \<times> 'm"
  env_fs :: file_system
  env_accept_key :: "string \<Rightarrow> string"
  env_wasm :: "(string \<Rightarrow> string + string) option"
  env_timeout :: "(('m, 'w) server_world \<Rightarrow> outcome \<times> ('m, 'w) server_world) \<Rightarrow> ('m, 'w) server_world
                    \<Rightarrow> outcome option \<times> ('m, 'w) server_world"

text \<open>The demo event stream.\<close>

definition sse_stream_response :: "nat \<Rightarrow> http_response" where
  "sse_stream_response count_events =
     streaming_response 200 ''text/event-stream''
       (map (\<lambda>i. ''data: '' @ [CHR 0x7B] @ quoted ''n'' @ '':'' @ nat_str i @ [CHR 0x7D, CHR 0x0A, CHR 0x0A]) [1..<Suc count_events])"

definition sse_response :: http_response where
  "sse_response = sse_stream_response 10"

definition html_response :: "string \<Rightarrow> http_response" where
  "html_response html =
     \<lparr>rp_status = 200, rp_headers = [(''content-type'', ''text/html; charset=utf-8''), (''content-length'', nat_str (length html))], rp_body = html\<rparr>"

definition plain_error :: "string \<Rightarrow> http_response" where
  "plain_error body = \<lparr>rp_status = 500, rp_headers = [], rp_body = body\<rparr>"

definition echo_handler :: "('m, 'w) server_env \<Rightarrow> nat \<Rightarrow> ('m, 'w) server_world handler" where
  "echo_handler env max_body_size req w =
     (case env_recv env req of
        (received, whole) \<Rightarrow>
          if max_body_size < length received then (Response (error_response (env_print env) 413 ''payload too large''), w)
          else if \<not> whole then (Response (error_response (env_print env) 400 ''bad request''), w)
          else (let w = w\<lparr>sw_metrics := add_bytes_in (of_nat (length received)) (sw_metrics w)\<rparr>
                in case pool_acquire (env_fresh env) (length received) (sw_pool w) of
                     (buf, pool) \<Rightarrow>
                       (let buf = vec_extend (env_grow env) received buf
                        in (Response (json_response 200 (env_utf8_lossy env (bv_bytes buf))),
                            w\<lparr>sw_pool := pool_release buf pool\<rparr>))))"

definition params_echo :: "(string \<times> string) list \<Rightarrow> http_response" where
  "params_echo params =
     json_response 200 ([CHR 0x7B] @ join_with (CHR '','') (map (\<lambda>(k, v). quoted k @ '':'' @ quoted v) params) @ [CHR 0x7D])"

fun execute_handler ::
  "('m, 'w) server_env \<Rightarrow> health_registry option \<Rightarrow> string option \<Rightarrow> nat \<Rightarrow> 'w server_handler \<Rightarrow> (string \<times> string) list
     \<Rightarrow> ('m, 'w) server_world handler" where
  "execute_handler env reg spec max_body_size (Static status body) params req w =
     (Response (if 200 \<le> status \<and> status < 300 then json_response status body else error_response (env_print env) status body), w)"
| "execute_handler env reg spec max_body_size Echo params req w = echo_handler env max_body_size req w"
| "execute_handler env reg spec max_body_size ParamsEcho params req w = (Response (params_echo params), w)"
| "execute_handler env reg spec max_body_size Sse params req w = (Response sse_response, w)"
| "execute_handler env reg spec max_body_size Health params req w = (Response simple_health_response, w)"
| "execute_handler env reg spec max_body_size Ready params req w =
     (Response (case reg of
                  Some r \<Rightarrow> if health_is_empty r then ready_response else health_response (env_to_str env) r
                | None \<Rightarrow> ready_response), w)"
| "execute_handler env reg spec max_body_size Live params req w = (Response live_response, w)"
| "execute_handler env reg spec max_body_size Prometheus params req w =
     (Response (metrics_response (env_fixed3 env) (env_num env) (sw_metrics w)), w)"
| "execute_handler env reg spec max_body_size OpenApiJson params req w =
     (Response (json_response 200 (case spec of Some s \<Rightarrow> s | None \<Rightarrow> env_builtin_spec env)), w)"
| "execute_handler env reg spec max_body_size SwaggerUi params req w = (Response (html_response (env_swagger_html env)), w)"
| "execute_handler env reg spec max_body_size Redoc params req w = (Response (html_response (env_redoc_html env)), w)"
| "execute_handler env reg spec max_body_size GraphQL params req w =
     (Response (case env_graphql env of
                  None \<Rightarrow> error_response (env_print env) 404 ''GraphQL is not enabled''
                | Some None \<Rightarrow> plain_error ''GraphQL schema not initialized''
                | Some (Some schema) \<Rightarrow>
                    (case schema req of Inr resp \<Rightarrow> resp | Inl e \<Rightarrow> plain_error (''GraphQL Error: '' @ e))), w)"
| "execute_handler env reg spec max_body_size (Custom f) params req w =
     (case f params req (sw_app w) of (out, app) \<Rightarrow> (out, w\<lparr>sw_app := app\<rparr>))"

definition make_handler :: "('m, 'w) server_env \<Rightarrow> health_registry \<Rightarrow> string option \<Rightarrow> nat \<Rightarrow> ('m, 'w) server_world handler" where
  "make_handler env reg spec max_body_size req w =
     (case resolve (env_look env) (rq_method req) (rq_path req) (sw_router w) of
        (res, router) \<Rightarrow>
          (let w = w\<lparr>sw_router := router\<rparr>
           in case res of
                Inr r \<Rightarrow> execute_handler env (Some reg) spec max_body_size (res_handler r) (res_params r) req w
              | Inl MethodNotAllowed \<Rightarrow> (Response (error_response (env_print env) 405 ''method not allowed''), w)
              | Inl NotFound \<Rightarrow>
                  (case rt_fallback router of
                     Some fb \<Rightarrow> execute_handler env (Some reg) spec max_body_size fb [] req w
                   | None \<Rightarrow> (Response (error_response (env_print env) 404 ''not found''), w))))"

section \<open>Requests\<close>

definition MAX_PATH_LENGTH :: nat where "MAX_PATH_LENGTH = 8192"

definition MAX_HEADER_VALUE_LENGTH :: nat where "MAX_HEADER_VALUE_LENGTH = 8192"

definition MAX_HEADER_COUNT :: nat where "MAX_HEADER_COUNT = 100"

definition MAX_QUERY_LENGTH :: nat where "MAX_QUERY_LENGTH = 2048"

definition DEFAULT_MAX_BODY_SIZE :: nat where "DEFAULT_MAX_BODY_SIZE = 50 * 1024 * 1024"

definition input_error :: "(json \<Rightarrow> string) \<Rightarrow> http_request \<Rightarrow> http_response option" where
  "input_error print req =
     (if MAX_PATH_LENGTH < length (rq_path req) then Some (error_response print 414 ''request URI exceeds maximum length'')
      else if (case rq_query req of Some q \<Rightarrow> MAX_QUERY_LENGTH < length q | None \<Rightarrow> False)
      then Some (error_response print 414 ''query string exceeds maximum length'')
      else if MAX_HEADER_COUNT < length (rq_headers req) then Some (error_response print 431 ''too many request headers'')
      else map_option (\<lambda>(name, _). error_response print 431 (''header '' @ [CHR 0x27] @ name @ [CHR 0x27] @ '' exceeds maximum value length''))
             (find (\<lambda>(_, v). MAX_HEADER_VALUE_LENGTH < length v) (rq_headers req)))"

definition is_ws_upgrade :: "(string \<Rightarrow> bool) \<Rightarrow> http_request \<Rightarrow> bool" where
  "is_ws_upgrade visible req \<longleftrightarrow>
     (case hdr_str visible (rq_headers req) ''upgrade'' of Some s \<Rightarrow> ascii_lower s = ''websocket'' | None \<Rightarrow> False)"

definition ws_accept :: "('m, 'w) server_env \<Rightarrow> string \<Rightarrow> http_response" where
  "ws_accept env key =
     (let accept_key = env_accept_key env (if env_visible env key then key else []); res = json_response 101 []
      in res\<lparr>rp_headers := hdr_insert ''sec-websocket-accept'' (if env_visible env accept_key then accept_key else [])
                            (hdr_insert ''connection'' ''upgrade'' (hdr_insert ''upgrade'' ''websocket'' (rp_headers res)))\<rparr>)"

definition ws_session :: "http_request \<Rightarrow> ws_conn_info" where
  "ws_session req =
     \<lparr>wi_path = rq_path req, wi_query = (case rq_query req of Some q \<Rightarrow> q | None \<Rightarrow> []), wi_headers = rq_headers req, wi_client = rq_peer req\<rparr>"

fun method_str :: "http_method \<Rightarrow> string" where
  "method_str GET = ''GET''"
| "method_str POST = ''POST''"
| "method_str PUT = ''PUT''"
| "method_str DELETE = ''DELETE''"
| "method_str PATCH = ''PATCH''"
| "method_str OPTIONS = ''OPTIONS''"
| "method_str HEAD = ''HEAD''"
| "method_str (Other_method s) = s"

definition valid_status :: "nat \<Rightarrow> nat" where
  "valid_status n = (let n = n mod 2 ^ 16 in if 100 \<le> n \<and> n \<le> 999 then n else 403)"

text \<open>The answer of the WASM middleware, if it stops the request.\<close>

definition wasm_verdict :: "('m, 'w) server_env \<Rightarrow> http_request \<Rightarrow> http_response option" where
  "wasm_verdict env req =
     (case env_wasm env of
        None \<Rightarrow> None
      | Some wasm \<Rightarrow>
          (case wasm (env_print env (JObject
             [(''path'', JString (rq_path req)), (''method'', JString (method_str (rq_method req))),
              (''headers'', JObject (fold (\<lambda>(k, v) hdrs. if env_visible env v then AList.update k (JString v) hdrs else hdrs) (rq_headers req) []))])) of
             Inl _ \<Rightarrow> None
           | Inr res_json \<Rightarrow>
               (case env_parse env res_json of
                  None \<Rightarrow> None
                | Some parsed \<Rightarrow>
                    (case json_get parsed ''status'' of
                       Some (JNumber n) \<Rightarrow>
                         if n < 0 \<or> 2 ^ 64 \<le> n \<or> n = 200 then None
                         else Some (json_response (valid_status (nat n))
                                     (case Option.bind (json_get parsed ''body'') as_str of Some b \<Rightarrow> b | None \<Rightarrow> []))
                     | _ \<Rightarrow> None))))"

text \<open>What a listener serves with: the chain, the static files and whether WebSockets are handled.\<close>

record ('m, 'w) serving =
  sv_chain :: "('m, 'w) server_world middleware_chain"
  sv_static_dir :: "path option"
  sv_static_mounts :: "static_mount list"
  sv_ws :: bool

definition record_result :: "nat \<Rightarrow> rat \<Rightarrow> ('m, 'w) server_world \<Rightarrow> ('m, 'w) server_world" where
  "record_result status elapsed w = w\<lparr>sw_metrics := record_latency elapsed (record_status status (sw_metrics w))\<rparr>"

definition finish_request ::
  "('m, 'w) server_env \<Rightarrow> ('m, 'w) serving \<Rightarrow> nat \<Rightarrow> rat \<Rightarrow> string \<Rightarrow> outcome option \<Rightarrow> ('m, 'w) server_world \<Rightarrow> outcome \<times> ('m, 'w) server_world" where
  "finish_request env sv now elapsed path out w =
     (case out of
        Some (Response response) \<Rightarrow>
          (let w = record_result (rp_status response) elapsed w
           in if rp_status response = 404
              then (case try_serve_static (env_fs env) now path (sv_static_dir sv) (sv_static_mounts sv) of
                      Some resp \<Rightarrow> (Response resp, w)
                    | None \<Rightarrow> (Response response, w))
              else (Response response, w))
      | Some (Failure e) \<Rightarrow>
          (Response (error_response (env_print env) 500 ''internal server error''), record_result 500 elapsed w)
      | Some Panic \<Rightarrow> (Panic, w)
      | None \<Rightarrow> (Response (error_response (env_print env) 504 ''request timeout''), record_result 504 elapsed w))"

definition handle_request ::
  "('m, 'w) server_env \<Rightarrow> ('m, 'w) serving \<Rightarrow> nat \<Rightarrow> rat \<Rightarrow> string option \<Rightarrow> ('m, 'w) server_world handler" where
  "handle_request env sv now elapsed peer req w =
     (case input_error (env_print env) req of
        Some resp \<Rightarrow> (Response resp, w)
      | None \<Rightarrow>
          (let req = req\<lparr>rq_peer := peer\<rparr>; w = w\<lparr>sw_metrics := record_request (sw_metrics w)\<rparr>
           in case (if sv_ws sv \<and> is_ws_upgrade (env_visible env) req then hdr_get (rq_headers req) ''sec-websocket-key'' else None) of
                Some key \<Rightarrow> (Response (ws_accept env key), w\<lparr>sw_sessions := sw_sessions w @ [ws_session req]\<rparr>)
              | None \<Rightarrow>
                  (case wasm_verdict env req of
                     Some resp \<Rightarrow> (Response resp, record_result (rp_status resp) elapsed w)
                   | None \<Rightarrow>
                       (case env_timeout env (chain_run (sv_chain sv) req) w of
                          (out, w) \<Rightarrow> finish_request env sv now elapsed (rq_path req) out w))))"

section \<open>Accounting\<close>

text \<open>The counters that \<open>handle_request\<close> keeps, and the sessions.\<close>

definition same_counts :: "('m, 'w) server_world \<Rightarrow> ('m, 'w) server_world \<Rightarrow> bool" where
  "same_counts w w' \<longleftrightarrow>
     requests_total (sw_metrics w') = requests_total (sw_metrics w) \<and> latency (sw_metrics w') = latency (sw_metrics w) \<and>
     sw_sessions w' = sw_sessions w"

text \<open>Handlers and middlewares that leave them alone.\<close>

definition quiet :: "('m, 'w) server_world handler \<Rightarrow> bool" where
  "quiet h \<longleftrightarrow> (\<forall>req w. same_counts w (snd (h req w)))"

definition quiet_middleware :: "('m, 'w) server_world middleware \<Rightarrow> bool" where
  "quiet_middleware m \<longleftrightarrow> (\<forall>nxt. quiet nxt \<longrightarrow> quiet (\<lambda>req w. m req nxt w))"

text \<open>A dropped computation has run in part: it leaves the counters alone if the whole computation does.\<close>

definition quiet_timeout :: "('m, 'w) server_env \<Rightarrow> bool" where
  "quiet_timeout env \<longleftrightarrow> (\<forall>f w. (\<forall>w. same_counts w (snd (f w))) \<longrightarrow> same_counts w (snd (env_timeout env f w)))"

lemma quiet_echo: "quiet (echo_handler env n)"
  by (auto simp: quiet_def echo_handler_def same_counts_def add_bytes_in_def Let_def split: prod.splits)

lemma quiet_execute: "quiet (execute_handler env reg spec n h params)"
proof -
  have "same_counts w (snd (execute_handler env reg spec n h params req w))" for req w
    using quiet_echo [of env n] by (cases h) (auto simp: quiet_def same_counts_def split: prod.splits)
  then show ?thesis by (simp add: quiet_def)
qed

lemma quiet_make_handler: "quiet (make_handler env reg spec n)"
proof -
  have "same_counts w (snd (make_handler env reg spec n req w))" for req w
  proof -
    obtain res router where r: "resolve (env_look env) (rq_method req) (rq_path req) (sw_router w) = (res, router)" by fastforce
    have q: "same_counts w (snd (execute_handler env (Some reg) spec n h params req (w\<lparr>sw_router := router\<rparr>)))" for h params
      using quiet_execute [of env "Some reg" spec n h params] by (auto simp: quiet_def same_counts_def)
    show ?thesis using q by (auto simp: make_handler_def r same_counts_def Let_def split: sum.splits router_error.splits option.splits)
  qed
  then show ?thesis by (simp add: quiet_def)
qed

lemma chain_run_compose: "chain_run c = compose (mc_middlewares c) (mc_handler c)"
  by (auto simp: fun_eq_iff chain_run_def next_run_compose compose_def)

lemma quiet_chain: "list_all quiet_middleware (mc_middlewares c) \<Longrightarrow> quiet (mc_handler c) \<Longrightarrow> quiet (chain_run c)"
proof -
  have "quiet (compose ms h)" if "list_all quiet_middleware ms" "quiet h" for ms and h :: "('m, 'w) server_world handler"
    using that by (induction ms) (auto simp: compose_def quiet_middleware_def)
  then show "list_all quiet_middleware (mc_middlewares c) \<Longrightarrow> quiet (mc_handler c) \<Longrightarrow> quiet (chain_run c)"
    by (simp add: chain_run_compose)
qed

text \<open>Every counted request is finished with a latency, has become a session, or has panicked.\<close>

definition conserved :: "64 word \<Rightarrow> ('m, 'w) server_world \<Rightarrow> bool" where
  "conserved panics w \<longleftrightarrow>
     requests_total (sw_metrics w) = lh_count (latency (sw_metrics w)) + of_nat (length (sw_sessions w)) + panics"

lemma record_result_counts:
  "requests_total (sw_metrics (record_result s t w)) = requests_total (sw_metrics w)"
  "lh_count (latency (sw_metrics (record_result s t w))) = lh_count (latency (sw_metrics w)) + 1"
  "sw_sessions (record_result s t w) = sw_sessions w" "sw_app (record_result s t w) = sw_app w"
  by (auto simp: record_result_def record_latency_def record_status_def hist_record_def Let_def split: option.splits)

lemma finish_request_conserved:
  assumes "finish_request env sv now t path out w = (out', w')"
    and "requests_total (sw_metrics w) = lh_count (latency (sw_metrics w)) + of_nat (length (sw_sessions w)) + panics + 1"
  shows "conserved (panics + (if out' = Panic then 1 else 0)) w'"
proof (cases "out = Some Panic")
  case True
  then show ?thesis using assms by (auto simp: finish_request_def conserved_def)
next
  case False
  then have "\<exists>s. w' = record_result s t w" "out' \<noteq> Panic"
    using assms(1) by (auto simp: finish_request_def Let_def split: option.splits outcome.splits if_splits)
  then show ?thesis using assms(2) by (auto simp: conserved_def record_result_counts)
qed

fun serve_all ::
  "('m, 'w) server_env \<Rightarrow> ('m, 'w) serving \<Rightarrow> (nat \<times> rat \<times> string option \<times> http_request) list \<Rightarrow> ('m, 'w) server_world
     \<Rightarrow> outcome list \<times> ('m, 'w) server_world" where
  "serve_all env sv [] w = ([], w)"
| "serve_all env sv ((now, t, peer, req) # rs) w =
     (case handle_request env sv now t peer req w of
        (out, w) \<Rightarrow> case serve_all env sv rs w of (outs, w) \<Rightarrow> (out # outs, w))"

lemma handle_request_conserved:
  assumes q: "quiet (chain_run (sv_chain sv))" "quiet_timeout env"
    and h: "handle_request env sv now t peer req w = (out, w')" and c: "conserved panics w"
  shows "conserved (panics + (if out = Panic then 1 else 0)) w'"
proof -
  let ?req = "req\<lparr>rq_peer := peer\<rparr>" and ?w = "w\<lparr>sw_metrics := record_request (sw_metrics w)\<rparr>"
  have w: "requests_total (sw_metrics ?w) = lh_count (latency (sw_metrics ?w)) + of_nat (length (sw_sessions ?w)) + panics + 1"
    using c by (simp add: conserved_def record_request_def)
  obtain res w1 where t: "env_timeout env (chain_run (sv_chain sv) ?req) ?w = (res, w1)" by fastforce
  have "same_counts ?w w1" using q t unfolding quiet_timeout_def quiet_def by (metis snd_conv)
  then have w1: "requests_total (sw_metrics w1) = lh_count (latency (sw_metrics w1)) + of_nat (length (sw_sessions w1)) + panics + 1"
    using w by (simp add: same_counts_def)
  show ?thesis
  proof (cases "input_error (env_print env) req")
    case (Some resp)
    then show ?thesis using h c by (auto simp: handle_request_def)
  next
    case None
    note h' = h [unfolded handle_request_def None option.case Let_def]
    show ?thesis
    proof (cases "if sv_ws sv \<and> is_ws_upgrade (env_visible env) ?req then hdr_get (rq_headers ?req) ''sec-websocket-key'' else None")
      case (Some key)
      then show ?thesis using h' w by (auto simp: conserved_def)
    next
      case no_ws: None
      show ?thesis
      proof (cases "wasm_verdict env ?req")
        case (Some resp)
        then show ?thesis using h' no_ws w by (auto simp: conserved_def record_result_counts)
      next
        case no_wasm: None
        then have "finish_request env sv now t (rq_path ?req) res w1 = (out, w')" using h' no_ws t by simp
        from finish_request_conserved [OF this w1] show ?thesis .
      qed
    qed
  qed
qed

lemma serve_all_conserved:
  assumes q: "quiet (chain_run (sv_chain sv))" "quiet_timeout env" and "serve_all env sv rs w = (outs, w')" and "conserved panics w"
  shows "conserved (panics + of_nat (length (filter (\<lambda>out. out = Panic) outs))) w'"
  using assms(3,4)
proof (induction rs arbitrary: w w' outs panics)
  case (Cons r rs)
  obtain now t peer req where r: "r = (now, t, peer, req)" by (cases r)
  obtain out w1 where h: "handle_request env sv now t peer req w = (out, w1)" by fastforce
  obtain outs1 w2 where rest: "serve_all env sv rs w1 = (outs1, w2)" by fastforce
  have "outs = out # outs1" "w' = w2" using Cons.prems(1) by (simp_all add: r h rest)
  then show ?case using Cons.IH [OF rest handle_request_conserved [OF q h Cons.prems(2)]] by (auto simp: add.assoc)
qed simp

lemma handle_request_to_chain:
  assumes "input_error (env_print env) req = None" and "\<not> (sv_ws sv \<and> is_ws_upgrade (env_visible env) req)" and "env_wasm env = None"
  shows "handle_request env sv now t peer req w =
    (case env_timeout env (chain_run (sv_chain sv) (req\<lparr>rq_peer := peer\<rparr>)) (w\<lparr>sw_metrics := record_request (sw_metrics w)\<rparr>) of
       (out, w) \<Rightarrow> finish_request env sv now t (rq_path req) out w)"
proof -
  have "is_ws_upgrade (env_visible env) (req\<lparr>rq_peer := peer\<rparr>) = is_ws_upgrade (env_visible env) req" by (simp add: is_ws_upgrade_def)
  then have "\<not> (sv_ws sv \<and> is_ws_upgrade (env_visible env) (req\<lparr>rq_peer := peer\<rparr>))" using assms(2) by simp
  then show ?thesis using assms(1,3) unfolding handle_request_def by (simp only: wasm_verdict_def Let_def) simp
qed

section \<open>Gates in front of the chain\<close>

text \<open>The timeout returns what the computation returned, and drops nothing from a computation that changes nothing.\<close>

definition timely :: "('m, 'w) server_env \<Rightarrow> bool" where
  "timely env \<longleftrightarrow>
     (\<forall>f w out w'. env_timeout env f w = (Some out, w') \<longrightarrow> f w = (out, w')) \<and>
     (\<forall>f w out. f w = (out, w) \<longrightarrow> snd (env_timeout env f w) = w)"

locale gated_server = auth_gate gate protected verified
  for gate :: "('m, 'w) server_world middleware" and protected :: "http_request \<Rightarrow> bool" and verified :: "http_request \<Rightarrow> json option"
begin

lemma stopped_request:
  assumes "mc_middlewares (sv_chain sv) = gate # ms" and "timely env"
    and "\<not> (sv_ws sv \<and> is_ws_upgrade (env_visible env) req)" and "env_wasm env = None" and "input_error (env_print env) req = None"
    and "protected (req\<lparr>rq_peer := peer\<rparr>)" and "verified (req\<lparr>rq_peer := peer\<rparr>) = None"
  shows "\<exists>resp w'. handle_request env sv now t peer req w = (Response resp, w') \<and> rp_status resp \<in> {401, 403, 504} \<and>
    sw_app w' = sw_app w \<and> sw_router w' = sw_router w \<and> sw_sessions w' = sw_sessions w"
proof -
  let ?req = "req\<lparr>rq_peer := peer\<rparr>" and ?w = "w\<lparr>sw_metrics := record_request (sw_metrics w)\<rparr>"
  obtain p where p: "rp_status p \<in> {401, 403}" "\<And>nxt w. gate ?req nxt w = (Response p, w)"
    using stop_law [OF assms(6,7)] by blast
  have run: "chain_run (sv_chain sv) ?req w = (Response p, w)" for w
    using p(2) by (simp add: chain_run_compose assms(1) compose_def)
  obtain res w1 where t: "env_timeout env (chain_run (sv_chain sv) ?req) ?w = (res, w1)" by fastforce
  have w1: "w1 = ?w" using assms(2) run t unfolding timely_def by (metis snd_conv)
  have res: "res = None \<or> res = Some (Response p)"
    using assms(2) run t unfolding timely_def by (metis fst_conv option.exhaust)
  have "handle_request env sv now t peer req w = finish_request env sv now t (rq_path req) res ?w"
    unfolding handle_request_to_chain [OF assms(5,3,4)] using t w1 by simp
  then show ?thesis
    using res p(1) by (auto simp: finish_request_def Let_def record_result_counts(3,4) record_result_def)
qed

end

interpretation jwt_server: gated_server "jwt_handle visible print decode a"
  "\<lambda>req. requirement_for_path a (rq_path req) \<noteq> No_jwt" "jwt_verified visible decode a"
  by unfold_locales

interpretation api_key_server: gated_server "api_key_handle visible print a"
  "\<lambda>req. required_for_path a (rq_path req)" "api_key_verified visible a"
  by unfold_locales

text \<open>A file is served in place of a response with status 404 only, and then without the headers that the middlewares have put on the
  response.\<close>

lemma files_replace_404_only:
  "rp_status response \<noteq> 404 \<Longrightarrow> fst (finish_request env sv now t path (Some (Response response)) w) = Response response"
  "rp_status response = 404 \<Longrightarrow> try_serve_static (env_fs env) now path (sv_static_dir sv) (sv_static_mounts sv) = Some file \<Longrightarrow>
     fst (finish_request env sv now t path (Some (Response response)) w) = Response file"
  by (simp_all add: finish_request_def Let_def)

section \<open>The cache behind the dispatch\<close>

text \<open>Two worlds that differ in the cache of the route table only.\<close>

definition same_but_cache :: "('m, 'w) server_env \<Rightarrow> ('m, 'w) server_world \<Rightarrow> ('m, 'w) server_world \<Rightarrow> bool" where
  "same_but_cache env w w' \<longleftrightarrow>
     table_ok (env_look env) (sw_router w) \<and> w' = w\<lparr>sw_router := (sw_router w)\<lparr>rt_cache := None\<rparr>\<rparr>"

lemma execute_handler_router:
  "execute_handler env reg spec n h params req (w\<lparr>sw_router := r\<rparr>) =
     (case execute_handler env reg spec n h params req w of (out, w') \<Rightarrow> (out, w'\<lparr>sw_router := r\<rparr>))"
  by (cases h) (auto simp: echo_handler_def Let_def split: prod.splits)

lemma resolve_table:
  assumes "table_ok look r" and "resolve look m path r = (res, r')"
  shows "\<exists>c. r' = r\<lparr>rt_cache := c\<rparr>"
  using assms(2) by (rule_tac resolve_cases [OF assms(1), of m path]) (auto intro: exI [of _ "rt_cache r"])

lemma make_handler_cache:
  assumes "same_but_cache env w v"
  shows "fst (make_handler env reg spec n req w) = fst (make_handler env reg spec n req v) \<and>
    same_but_cache env (snd (make_handler env reg spec n req w)) (snd (make_handler env reg spec n req v))"
proof -
  obtain res r where r: "resolve (env_look env) (rq_method req) (rq_path req) (sw_router w) = (res, r)" by fastforce
  have ok: "table_ok (env_look env) (sw_router w)" and v: "v = w\<lparr>sw_router := (sw_router w)\<lparr>rt_cache := None\<rparr>\<rparr>"
    using assms by (auto simp: same_but_cache_def)
  obtain c where c: "r = (sw_router w)\<lparr>rt_cache := c\<rparr>" using resolve_table [OF ok r] by blast
  note s = resolve_sound [OF ok r]
  have rv: "resolve (env_look env) (rq_method req) (rq_path req) (sw_router v) = (res, (sw_router w)\<lparr>rt_cache := None\<rparr>)"
    by (simp add: v resolve_def s(1))
  define step where "step = (\<lambda>w. case res of
      Inr q \<Rightarrow> execute_handler env (Some reg) spec n (res_handler q) (res_params q) req w
    | Inl MethodNotAllowed \<Rightarrow> (Response (error_response (env_print env) 405 ''method not allowed''), w)
    | Inl NotFound \<Rightarrow> (case rt_fallback (sw_router (w :: ('a, 'b) server_world)) of
        Some fb \<Rightarrow> execute_handler env (Some reg) spec n fb [] req w
      | None \<Rightarrow> (Response (error_response (env_print env) 404 ''not found''), w)))"
  have w: "make_handler env reg spec n req w = step (w\<lparr>sw_router := r\<rparr>)"
    by (simp add: make_handler_def r step_def Let_def split: sum.split router_error.split option.split)
  have v': "make_handler env reg spec n req v = step (w\<lparr>sw_router := r\<lparr>rt_cache := None\<rparr>\<rparr>)"
    unfolding make_handler_def rv by (simp add: step_def Let_def v c split: sum.split router_error.split option.split)
  have "step (w\<lparr>sw_router := r\<lparr>rt_cache := None\<rparr>\<rparr>) =
      (case step (w\<lparr>sw_router := r\<rparr>) of (out, w') \<Rightarrow> (out, w'\<lparr>sw_router := r\<lparr>rt_cache := None\<rparr>\<rparr>))"
    by (auto simp: step_def execute_handler_router [where w = w] split: sum.splits router_error.splits option.splits prod.splits)
  moreover have "sw_router (snd (step (w\<lparr>sw_router := r\<rparr>))) = r"
    by (auto simp: step_def execute_handler_router [where w = w] split: sum.splits router_error.splits option.splits prod.splits)
  ultimately show ?thesis unfolding w v' same_but_cache_def using s(2) by (auto split: prod.splits)
qed

fun handle_all :: "('m, 'w) server_world handler \<Rightarrow> http_request list \<Rightarrow> ('m, 'w) server_world \<Rightarrow> outcome list" where
  "handle_all h [] w = []"
| "handle_all h (req # reqs) w = (case h req w of (out, w) \<Rightarrow> out # handle_all h reqs w)"

text \<open>An example server: its matcher is a list of paths, and nothing is ever late.\<close>

definition example_env :: "((string \<times> nat server_handler) list, nat) server_env" where
  "example_env =
     \<lparr>env_print = (\<lambda>_. ''json''), env_to_str = (\<lambda>_. None), env_parse = (\<lambda>_. None), env_fixed3 = (\<lambda>_. []), env_num = (\<lambda>_. []),
      env_visible = (\<lambda>_. True), env_utf8_lossy = (\<lambda>s. s), env_recv = (\<lambda>req. (rq_body req, True)), env_fresh = (\<lambda>n. n),
      env_grow = (\<lambda>_ n. n), env_builtin_spec = [], env_swagger_html = [], env_redoc_html = [], env_graphql = None,
      env_look = (\<lambda>m path. map_option (\<lambda>h. (h, [])) (map_of m path)), env_empty = [],
      env_insert = (\<lambda>path h m. (path \<notin> fst ` set m, (path, h) # m)),
      env_fs = \<lparr>fs_metadata = (\<lambda>_. Inl ''none''), fs_read = (\<lambda>_. Inl ''none''), fs_canonicalize = (\<lambda>_. None)\<rparr>,
      env_accept_key = (\<lambda>k. k), env_wasm = None, env_timeout = (\<lambda>f w. case f w of (out, w') \<Rightarrow> (Some out, w'))\<rparr>"

definition example_serving :: "((string \<times> nat server_handler) list, nat) server_world middleware list \<Rightarrow> ((string \<times> nat server_handler) list, nat) serving" where
  "example_serving ms =
     \<lparr>sv_chain = \<lparr>mc_middlewares = ms, mc_handler = make_handler example_env [] None 10\<rparr>, sv_static_dir = None, sv_static_mounts = [], sv_ws = True\<rparr>"

definition example_world :: "((string \<times> nat server_handler) list, nat) server_world" where
  "example_world =
     \<lparr>sw_metrics = metrics_new, sw_pool = buffer_pool_new,
      sw_router = \<lparr>routes = [(GET, [(''/a'', Custom (\<lambda>_ _ n. (Response (json_response 200 ''secret''), n + 1)))])], rt_fallback = None, route_list = [],
                   rt_cache = None\<rparr>,
      sw_sessions = [], sw_app = 0\<rparr>"

definition server_request_example :: "header_map \<Rightarrow> http_request" where
  "server_request_example h = \<lparr>rq_method = GET, rq_path = ''/a'', rq_query = None, rq_headers = h, rq_body = ''body'', rq_claims = None, rq_peer = None\<rparr>"

lemma example_env_timeout: "env_timeout example_env f w = (Some (fst (f w)), snd (f w))"
  by (simp add: example_env_def split: prod.split)

lemma example_env_timely: "timely example_env" "quiet_timeout example_env"
  unfolding timely_def quiet_timeout_def example_env_timeout by auto

lemma example_input: "h = [] \<or> h = [(''upgrade'', ''WebSocket''), (''sec-websocket-key'', ''k'')] \<Longrightarrow> input_error print (server_request_example h) = None"
  by (auto simp: input_error_def server_request_example_def MAX_PATH_LENGTH_def MAX_HEADER_COUNT_def MAX_HEADER_VALUE_LENGTH_def)

section \<open>Properties\<close>



text \<open>An upgrade to a WebSocket is accepted before the chain runs: whatever middlewares the chain has, the request is answered
  with 101 and a session is started.\<close>

theorem websocket_upgrade_bypasses_chain:
  assumes "sv_ws sv" and "input_error (env_print env) req = None" and "is_ws_upgrade (env_visible env) req"
    and "hdr_get (rq_headers req) ''sec-websocket-key'' = Some key"
  shows "handle_request env (sv\<lparr>sv_chain := c\<rparr>) now t peer req w =
    (Response (ws_accept env key),
     w\<lparr>sw_metrics := record_request (sw_metrics w), sw_sessions := sw_sessions w @ [ws_session (req\<lparr>rq_peer := peer\<rparr>)]\<rparr>) \<and>
    rp_status (ws_accept env key) = 101"
  using assms by (simp add: handle_request_def Let_def is_ws_upgrade_def ws_accept_def)

theorem websocket_upgrade_bypasses_chain_witness:
  "sw_sessions (snd (handle_request example_env (example_serving [jwt_handle (\<lambda>_. True) (\<lambda>_. []) (\<lambda>_ _ _. None) (from_secret (\<lambda>s. s) ''k'')]) 0 1 None
     (server_request_example [(''upgrade'', ''WebSocket''), (''sec-websocket-key'', ''k'')]) example_world)) \<noteq> []"
proof -
  let ?h = "[(''upgrade'', ''WebSocket''), (''sec-websocket-key'', ''k'')]"
  have "is_ws_upgrade (env_visible example_env) (server_request_example ?h)" by code_simp
  with websocket_upgrade_bypasses_chain [of "example_serving []" example_env "server_request_example ?h" "''k''"
      "\<lparr>mc_middlewares = [jwt_handle (\<lambda>_. True) (\<lambda>_. []) (\<lambda>_ _ _. None) (from_secret (\<lambda>s. s) ''k'')], mc_handler = make_handler example_env [] None 10\<rparr>"
      0 1 None example_world] example_input [of ?h]
  show ?thesis by (simp add: example_serving_def server_request_example_def hdr_get_def)
qed

text \<open>C22: The server accounts for every request it lets past the input limits: at any time the number of requests is the number of
  recorded latencies plus the sessions started plus the handlers that panicked, if the middlewares leave these counters
  alone.\<close>

theorem requests_are_accounted_for:
  assumes "sv_chain sv = \<lparr>mc_middlewares = ms, mc_handler = make_handler env reg spec n\<rparr>" and "list_all quiet_middleware ms"
    and "quiet_timeout env" and "sw_metrics w = metrics_new" and "sw_sessions w = []"
    and "serve_all env sv rs w = (outs, w')"
  shows "requests_total (sw_metrics w') =
    lh_count (latency (sw_metrics w')) + of_nat (length (sw_sessions w')) + of_nat (length (filter (\<lambda>out. out = Panic) outs))"
proof -
  have "quiet (chain_run (sv_chain sv))" using assms(1,2) quiet_make_handler by (intro quiet_chain) auto
  moreover have "conserved 0 w" using assms(4,5) by (simp add: conserved_def metrics_new_def hist_new_def)
  ultimately show ?thesis using serve_all_conserved [OF _ assms(3,6), of 0] by (simp add: conserved_def)
qed

theorem requests_are_accounted_for_witness:
  "case serve_all example_env (example_serving []) [(0, 1, None, server_request_example [])] example_world of (outs, w) \<Rightarrow>
     requests_total (sw_metrics w) =
     lh_count (latency (sw_metrics w)) + of_nat (length (sw_sessions w)) + of_nat (length (filter (\<lambda>out. out = Panic) outs))"
  using requests_are_accounted_for [of "example_serving []" "[]" example_env "[]" None 10 example_world "[(0, 1, None, server_request_example [])]"]
    example_env_timely(2)
  by (auto simp: example_serving_def example_world_def split: prod.splits)

text \<open>C23: Dispatch does not depend on the lookup cache: a sequence of requests is answered alike, with the same effects on the
  application, by a server with a fresh cache of any capacity and by a server without a cache.\<close>

theorem dispatch_ignores_cache:
  "handle_all (make_handler env reg spec n) reqs (w\<lparr>sw_router := with_cache_capacity r capacity\<rparr>) =
   handle_all (make_handler env reg spec n) reqs (w\<lparr>sw_router := with_cache_capacity r 0\<rparr>)"
proof -
  have run: "handle_all (make_handler env reg spec n) reqs u = handle_all (make_handler env reg spec n) reqs v"
    if "same_but_cache env u v" for u v
    using that
  proof (induction reqs arbitrary: u v)
    case (Cons req reqs)
    then show ?case using make_handler_cache [OF Cons.prems, of reg spec n req] by (auto split: prod.splits)
  qed simp
  have "table_ok (env_look env) (with_cache_capacity r capacity)"
    by (simp add: table_ok_def with_cache_capacity_def rc_ok_def rc_get_def rc_new_def)
  then show ?thesis by (intro run) (simp add: same_but_cache_def with_cache_capacity_def)
qed

text \<open>The echo handler returns the body it received, and nothing of an earlier request, whatever buffers were used and returned
  before.\<close>

theorem echo_returns_body:
  assumes "sw_pool w = fold (pool_use_step (env_fresh env)) us (pool_with_max k)" and "env_recv env req = (body, True)"
    and "length body \<le> max_body_size"
  shows "fst (echo_handler env max_body_size req w) = Response (json_response 200 (env_utf8_lossy env body))"
proof -
  have "bv_bytes (fst (pool_acquire (env_fresh env) (length body) (sw_pool w))) = []"
    unfolding assms(1) using pool_ok_uses [OF pool_ok_new] by (intro acquire_empty) auto
  then show ?thesis using assms(2,3) by (auto simp: echo_handler_def vec_extend_def Let_def split: prod.splits)
qed

theorem echo_returns_body_witness:
  "fst (echo_handler example_env 10 (server_request_example []) example_world) = Response (json_response 200 ''body'')"
  using echo_returns_body [of example_world example_env "[]" 128 "server_request_example []" "''body''" 10]
  by (simp add: example_world_def example_env_def server_request_example_def buffer_pool_new_def)

end
