(* ===== verification/Server_Setup.thy ===== *)
theory Server_Setup
  imports Server
begin

text \<open>
  The configuration of a server: the builder methods of \<open>Server\<close> in \<^verbatim>\<open>crates/justapi-core/src/server/mod.rs\<close> and the plugin registry
  of \<^verbatim>\<open>src/plugin.rs\<close>.

  \<^item> A method that panics yields nothing. The insertion of a route is that of the route table, over the path matcher of the environment.
  \<^item> The methods that add one of the library's middlewares to the chain are all \<open>add_middleware\<close>.
  \<^item> A plugin registry is the list of the names of its plugins, in the iteration order of its hash map; the hooks are parameters.

  The lemmas show that a server runs the handler it was configured with, behind the middlewares in the order of their addition.
\<close>

section \<open>The builder\<close>

datatype listen_addr = Tcp string | Unix string

fun addr_display :: "listen_addr \<Rightarrow> string" where
  "addr_display (Tcp a) = a"
| "addr_display (Unix p) = p"

record ('m, 'w) server =
  srv_addr :: listen_addr
  srv_chain :: "('m, 'w) server_world middleware_chain"
  srv_static_dir :: "path option"
  srv_static_mounts :: "static_mount list"
  srv_metrics :: metrics
  srv_health :: health_registry
  srv_shutdown :: bool
  srv_plugins :: "string list"
  srv_ws :: bool
  srv_router :: "('m, 'w server_handler) route_table option"
  custom_handler_set :: bool
  default_routes_set :: bool
  srv_openapi :: "string option"
  srv_max_body :: nat
  srv_shutdown_timeout :: nat

definition dummy_handler :: "('m, 'w) server_world handler" where
  "dummy_handler req w = (Response \<lparr>rp_status = 404, rp_headers = [], rp_body = ''Not Found''\<rparr>, w)"

definition server_new :: "listen_addr \<Rightarrow> ('m, 'w) server" where
  "server_new addr =
     \<lparr>srv_addr = addr, srv_chain = chain_new dummy_handler, srv_static_dir = None, srv_static_mounts = [], srv_metrics = metrics_new,
      srv_health = [], srv_shutdown = False, srv_plugins = [], srv_ws = True, srv_router = Some router_new, custom_handler_set = False,
      default_routes_set = False, srv_openapi = None, srv_max_body = DEFAULT_MAX_BODY_SIZE, srv_shutdown_timeout = 30\<rparr>"

definition with_openapi_spec :: "string \<Rightarrow> ('m, 'w) server \<Rightarrow> ('m, 'w) server" where
  "with_openapi_spec spec s = s\<lparr>srv_openapi := Some spec\<rparr>"

definition with_max_body_size :: "nat \<Rightarrow> ('m, 'w) server \<Rightarrow> ('m, 'w) server" where
  "with_max_body_size n s = s\<lparr>srv_max_body := n\<rparr>"

definition with_shutdown_timeout :: "nat \<Rightarrow> ('m, 'w) server \<Rightarrow> ('m, 'w) server" where
  "with_shutdown_timeout t s = s\<lparr>srv_shutdown_timeout := t\<rparr>"

definition with_ws :: "('m, 'w) server \<Rightarrow> ('m, 'w) server" where
  "with_ws s = s\<lparr>srv_ws := True\<rparr>"

definition with_handler :: "('m, 'w) server_world handler \<Rightarrow> ('m, 'w) server \<Rightarrow> ('m, 'w) server option" where
  "with_handler h s =
     (if default_routes_set s then None
      else Some (s\<lparr>srv_router := None, srv_chain := set_handler (srv_chain s) h, custom_handler_set := True\<rparr>))"

text \<open>\<open>router.insert(..).expect(..)\<close>.\<close>

definition insert_route ::
  "('m, 'w) server_env \<Rightarrow> http_method \<times> string \<times> 'w server_handler \<Rightarrow> ('m, 'w server_handler) route_table
     \<Rightarrow> ('m, 'w server_handler) route_table option" where
  "insert_route env route r =
     (case route of (m, path, h) \<Rightarrow>
        case route_insert (env_empty env) (env_insert env) m path h r of (inserted, r) \<Rightarrow> if inserted then Some r else None)"

definition add_custom_route ::
  "('m, 'w) server_env \<Rightarrow> http_method \<Rightarrow> string \<Rightarrow> ((string \<times> string) list \<Rightarrow> 'w handler) \<Rightarrow> ('m, 'w) server \<Rightarrow> ('m, 'w) server option" where
  "add_custom_route env m path h s =
     (if custom_handler_set s then None
      else map_option (\<lambda>r. s\<lparr>srv_router := Some r\<rparr>)
             (insert_route env (m, path, Custom h) (case srv_router s of Some r \<Rightarrow> r | None \<Rightarrow> router_new)))"

definition message_body :: "string \<Rightarrow> string" where
  "message_body msg = [CHR 0x7B] @ quoted ''message'' @ '':'' @ quoted msg @ [CHR 0x7D]"

definition default_routes :: "(http_method \<times> string \<times> 'w server_handler) list" where
  "default_routes =
     [(GET, ''/hello'', Static 200 (message_body ''hello'')), (POST, ''/echo'', Echo),
      (GET, ''/echo/'' @ [CHR 0x7B] @ ''*rest'' @ [CHR 0x7D], ParamsEcho),
      (GET, ''/users/'' @ [CHR 0x7B] @ ''id'' @ [CHR 0x7D], Static 200 (message_body ''user lookup'')), (GET, ''/events'', Sse),
      (GET, ''/graphql'', GraphQL), (POST, ''/graphql'', GraphQL)]"

definition with_default_routes :: "('m, 'w) server_env \<Rightarrow> ('m, 'w) server \<Rightarrow> ('m, 'w) server option" where
  "with_default_routes env s =
     (if custom_handler_set s then None
      else map_option (\<lambda>r. s\<lparr>srv_router := Some (set_fallback r (Static 404 ''not found'')), default_routes_set := True\<rparr>)
             (fold_opt (insert_route env) default_routes (case srv_router s of Some r \<Rightarrow> r | None \<Rightarrow> router_new)))"

text \<open>\<open>if let Some(ref mut r) = self.router\<close>: without a router the routes are silently left out.\<close>

definition insert_if_router ::
  "('m, 'w) server_env \<Rightarrow> (http_method \<times> string \<times> 'w server_handler) list \<Rightarrow> ('m, 'w) server \<Rightarrow> ('m, 'w) server option" where
  "insert_if_router env rs s =
     (case srv_router s of
        None \<Rightarrow> Some s
      | Some r \<Rightarrow> map_option (\<lambda>r. s\<lparr>srv_router := Some r\<rparr>) (fold_opt (insert_route env) rs r))"

text \<open>The handlers of the four inference endpoints.\<close>

record 'w openai_handlers =
  oh_chat :: "(string \<times> string) list \<Rightarrow> 'w handler"
  oh_completions :: "(string \<times> string) list \<Rightarrow> 'w handler"
  oh_embeddings :: "(string \<times> string) list \<Rightarrow> 'w handler"
  oh_models :: "(string \<times> string) list \<Rightarrow> 'w handler"

definition with_openai :: "('m, 'w) server_env \<Rightarrow> 'w openai_handlers \<Rightarrow> ('m, 'w) server \<Rightarrow> ('m, 'w) server option" where
  "with_openai env h s =
     insert_if_router env
       [(POST, ''/v1/chat/completions'', Custom (oh_chat h)), (POST, ''/v1/completions'', Custom (oh_completions h)),
        (POST, ''/v1/embeddings'', Custom (oh_embeddings h)), (GET, ''/v1/models'', Custom (oh_models h))] s"

text \<open>The text of the statistics of the scheduler.\<close>

record sched_numbers =
  sn_waiting :: nat
  sn_running :: nat
  sn_prefilling :: nat
  sn_back_pressure :: bool
  sn_hits :: nat
  sn_misses :: nat
  sn_tokens_saved :: nat
  sn_cached_kv_blocks :: nat

definition stats_text :: "sched_numbers \<Rightarrow> string" where
  "stats_text n =
     concat
       [help_type ''justapi_scheduler_waiting'' ''Current number of waiting requests.'' ''gauge'',
        sample ''justapi_scheduler_waiting'' (nat_str (sn_waiting n)),
        help_type ''justapi_scheduler_running'' ''Current number of running sequences.'' ''gauge'',
        sample ''justapi_scheduler_running'' (nat_str (sn_running n)),
        help_type ''justapi_scheduler_prefilling'' ''Current number of prefilling sequences.'' ''gauge'',
        sample ''justapi_scheduler_prefilling'' (nat_str (sn_prefilling n)),
        help_type ''justapi_scheduler_back_pressure'' ''Whether the scheduler is under back-pressure.'' ''gauge'',
        sample ''justapi_scheduler_back_pressure'' (if sn_back_pressure n then ''1'' else ''0''),
        help_type ''justapi_scheduler_prefix_hits'' ''Total prefix-cache hits.'' ''counter'',
        sample ''justapi_scheduler_prefix_hits'' (nat_str (sn_hits n)),
        help_type ''justapi_scheduler_prefix_misses'' ''Total prefix-cache misses.'' ''counter'',
        sample ''justapi_scheduler_prefix_misses'' (nat_str (sn_misses n)),
        help_type ''justapi_scheduler_prefix_tokens_saved'' ''Tokens of prefill saved by prefix cache.'' ''counter'',
        sample ''justapi_scheduler_prefix_tokens_saved'' (nat_str (sn_tokens_saved n)),
        help_type ''justapi_scheduler_cached_kv_blocks'' ''KV blocks resident in prefix cache.'' ''gauge'',
        sample ''justapi_scheduler_cached_kv_blocks'' (nat_str (sn_cached_kv_blocks n))]"

definition with_openai_scheduled :: "('m, 'w) server_env \<Rightarrow> sched_numbers \<Rightarrow> 'w openai_handlers \<Rightarrow> ('m, 'w) server \<Rightarrow> ('m, 'w) server option" where
  "with_openai_scheduled env n h s =
     with_openai env h (s\<lparr>srv_metrics := register_extra_provider (stats_text n) (srv_metrics s)\<rparr>)"

definition with_shutdown :: "('m, 'w) server \<Rightarrow> ('m, 'w) server" where
  "with_shutdown s = s\<lparr>srv_shutdown := True\<rparr>"

definition with_static_dir :: "path \<Rightarrow> ('m, 'w) server \<Rightarrow> ('m, 'w) server" where
  "with_static_dir dir s = s\<lparr>srv_static_dir := Some dir\<rparr>"

definition with_static_mounts :: "static_mount list \<Rightarrow> ('m, 'w) server \<Rightarrow> ('m, 'w) server" where
  "with_static_mounts mounts s = s\<lparr>srv_static_mounts := mounts\<rparr>"

definition add_middleware :: "('m, 'w) server_world middleware \<Rightarrow> ('m, 'w) server \<Rightarrow> ('m, 'w) server" where
  "add_middleware mw s = s\<lparr>srv_chain := chain_add (srv_chain s) mw\<rparr>"

text \<open>\<open>with_oauth2_password\<close>; the token endpoint is the given handler.\<close>

definition with_oauth2_password ::
  "('m, 'w) server_env \<Rightarrow> (string \<Rightarrow> 'k \<Rightarrow> jwt_validation \<Rightarrow> json option) \<Rightarrow> ((string \<times> string) list \<Rightarrow> 'w handler) \<Rightarrow> ('e, 'k) oauth2_password
     \<Rightarrow> ('m, 'w) server \<Rightarrow> ('m, 'w) server option" where
  "with_oauth2_password env decode token_endpoint oa s =
     map_option (add_middleware (jwt_handle (env_visible env) (env_print env) decode (jwt_require_for (oauth_jwt_auth oa) (token_path oa) No_jwt)))
       (insert_if_router env [(POST, token_path oa, Custom token_endpoint)] s)"

definition with_health_registry :: "health_registry \<Rightarrow> ('m, 'w) server \<Rightarrow> ('m, 'w) server" where
  "with_health_registry reg s = s\<lparr>srv_health := reg\<rparr>"

section \<open>Plugins\<close>

definition plugin_insert :: "string \<Rightarrow> string list \<Rightarrow> string list" where
  "plugin_insert name ps = (if name \<in> set ps then ps else ps @ [name])"

fun run_hooks :: "(string \<Rightarrow> string + unit) \<Rightarrow> string list \<Rightarrow> string + unit" where
  "run_hooks hook [] = Inr ()"
| "run_hooks hook (p # ps) = (case hook p of Inl e \<Rightarrow> Inl e | Inr _ \<Rightarrow> run_hooks hook ps)"

definition with_plugin :: "string \<Rightarrow> ('m, 'w) server \<Rightarrow> ('m, 'w) server" where
  "with_plugin name s = s\<lparr>srv_plugins := plugin_insert name (srv_plugins s)\<rparr>"

definition register_plugin :: "string \<Rightarrow> (('m, 'w) server \<Rightarrow> string + ('m, 'w) server) \<Rightarrow> ('m, 'w) server \<Rightarrow> string + ('m, 'w) server" where
  "register_plugin name build s = (case build s of Inl e \<Rightarrow> Inl e | Inr s \<Rightarrow> Inr (with_plugin name s))"

section \<open>Running\<close>

text \<open>The start of \<open>run\<close>, \<open>run_on\<close> and \<open>run_on_uds\<close>: a router becomes the handler of the chain.\<close>

definition install_router :: "('m, 'w) server_env \<Rightarrow> ('m, 'w) server \<Rightarrow> ('m, 'w) server" where
  "install_router env s =
     (case srv_router s of
        None \<Rightarrow> s
      | Some r \<Rightarrow> s\<lparr>srv_router := None, srv_chain := set_handler (srv_chain s) (make_handler env (srv_health s) (srv_openapi s) (srv_max_body s))\<rparr>)"

definition serving_of :: "('m, 'w) server \<Rightarrow> ('m, 'w) serving" where
  "serving_of s =
     \<lparr>sv_chain = srv_chain s, sv_static_dir = srv_static_dir s, sv_static_mounts = srv_static_mounts s, sv_ws = srv_ws s\<rparr>"

text \<open>\<open>serve\<close> is the accept loop; the shutdown hooks run after it, and their error takes precedence.\<close>

definition run_on ::
  "('m, 'w) server_env \<Rightarrow> (string \<Rightarrow> string + unit) \<Rightarrow> (string \<Rightarrow> string + unit) \<Rightarrow> (('m, 'w) serving \<Rightarrow> string + unit) \<Rightarrow> ('m, 'w) server
     \<Rightarrow> string + unit" where
  "run_on env startup shutdown serve s =
     (let s = install_router env s
      in case run_hooks startup (srv_plugins s) of
           Inl e \<Rightarrow> Inl e
         | Inr _ \<Rightarrow>
             (let res = serve (serving_of s)
              in case run_hooks shutdown (srv_plugins s) of Inl e \<Rightarrow> Inl e | Inr _ \<Rightarrow> res))"

section \<open>Configurations\<close>

text \<open>A configuration is a sequence of calls of the builder.\<close>

datatype ('m, 'w) build_call =
  Call_handler "('m, 'w) server_world handler"
| Call_route http_method string "(string \<times> string) list \<Rightarrow> 'w handler"
| Call_default_routes
| Call_openai "'w openai_handlers"
| Call_openai_scheduled sched_numbers "'w openai_handlers"
| Call_oauth2 "string \<Rightarrow> string \<Rightarrow> jwt_validation \<Rightarrow> json option" "(string \<times> string) list \<Rightarrow> 'w handler" "(string, string) oauth2_password"
| Call_middleware "('m, 'w) server_world middleware"
| Call_openapi_spec string
| Call_max_body_size nat
| Call_shutdown_timeout nat
| Call_ws
| Call_shutdown
| Call_static_dir path
| Call_static_mounts "static_mount list"
| Call_health_registry health_registry
| Call_plugin string

fun build_step :: "('m, 'w) server_env \<Rightarrow> ('m, 'w) build_call \<Rightarrow> ('m, 'w) server \<Rightarrow> ('m, 'w) server option" where
  "build_step env (Call_handler h) s = with_handler h s"
| "build_step env (Call_route m path h) s = add_custom_route env m path h s"
| "build_step env Call_default_routes s = with_default_routes env s"
| "build_step env (Call_openai h) s = with_openai env h s"
| "build_step env (Call_openai_scheduled n h) s = with_openai_scheduled env n h s"
| "build_step env (Call_oauth2 decode h oa) s = with_oauth2_password env decode h oa s"
| "build_step env (Call_middleware mw) s = Some (add_middleware mw s)"
| "build_step env (Call_openapi_spec spec) s = Some (with_openapi_spec spec s)"
| "build_step env (Call_max_body_size n) s = Some (with_max_body_size n s)"
| "build_step env (Call_shutdown_timeout t) s = Some (with_shutdown_timeout t s)"
| "build_step env Call_ws s = Some (with_ws s)"
| "build_step env Call_shutdown s = Some (with_shutdown s)"
| "build_step env (Call_static_dir dir) s = Some (with_static_dir dir s)"
| "build_step env (Call_static_mounts ms) s = Some (with_static_mounts ms s)"
| "build_step env (Call_health_registry reg) s = Some (with_health_registry reg s)"
| "build_step env (Call_plugin name) s = Some (with_plugin name s)"

text \<open>The handlers and the middlewares that the calls install.\<close>

fun call_handlers :: "('m, 'w) build_call \<Rightarrow> ('m, 'w) server_world handler list" where
  "call_handlers (Call_handler h) = [h]"
| "call_handlers _ = []"

fun call_middlewares :: "('m, 'w) server_env \<Rightarrow> ('m, 'w) build_call \<Rightarrow> ('m, 'w) server_world middleware list" where
  "call_middlewares env (Call_middleware mw) = [mw]"
| "call_middlewares env (Call_oauth2 decode h oa) =
     [jwt_handle (env_visible env) (env_print env) decode (jwt_require_for (oauth_jwt_auth oa) (token_path oa) No_jwt)]"
| "call_middlewares env _ = []"

text \<open>What a configuration establishes.\<close>

definition configured :: "('m, 'w) server_world handler list \<Rightarrow> ('m, 'w) server_world middleware list \<Rightarrow> ('m, 'w) server \<Rightarrow> bool" where
  "configured hs ms s \<longleftrightarrow>
     (custom_handler_set s \<longleftrightarrow> hs \<noteq> []) \<and> (custom_handler_set s \<longrightarrow> srv_router s = None \<and> mc_handler (srv_chain s) = last hs) \<and>
     (\<not> custom_handler_set s \<longrightarrow> srv_router s \<noteq> None) \<and> \<not> (custom_handler_set s \<and> default_routes_set s) \<and> mc_middlewares (srv_chain s) = ms"

lemma insert_if_router_cases:
  assumes "insert_if_router env rs s = Some s'"
  obtains "srv_router s = None" "s' = s" | r where "srv_router s \<noteq> None" "s' = s\<lparr>srv_router := Some r\<rparr>"
  using assms by (auto simp: insert_if_router_def split: option.splits)

lemma configured_insert: "configured hs ms s \<Longrightarrow> insert_if_router env rs s = Some s' \<Longrightarrow> configured hs ms s'"
  by (erule insert_if_router_cases) (auto simp: configured_def)

lemma configured_middleware: "configured hs ms s \<Longrightarrow> configured hs (ms @ [mw]) (add_middleware mw s)"
  by (auto simp: configured_def add_middleware_def chain_add_def)

lemma configured_step:
  assumes "configured hs ms s" and "build_step env call s = Some s'"
  shows "configured (hs @ call_handlers call) (ms @ call_middlewares env call) s'"
proof (cases call)
  case (Call_openai h)
  then show ?thesis using assms configured_insert by (auto simp: with_openai_def)
next
  case (Call_openai_scheduled n h)
  have "configured hs ms (s\<lparr>srv_metrics := register_extra_provider (stats_text n) (srv_metrics s)\<rparr>)"
    using assms(1) by (auto simp: configured_def)
  from configured_insert [OF this] show ?thesis using assms(2) Call_openai_scheduled by (auto simp: with_openai_def with_openai_scheduled_def)
next
  case (Call_oauth2 decode h oa)
  then obtain s1 where "insert_if_router env [(POST, token_path oa, Custom h)] s = Some s1"
    "s' = add_middleware (jwt_handle (env_visible env) (env_print env) decode (jwt_require_for (oauth_jwt_auth oa) (token_path oa) No_jwt)) s1"
    using assms(2) by (auto simp: with_oauth2_password_def)
  then show ?thesis using Call_oauth2 configured_middleware [OF configured_insert [OF assms(1)]] by simp
qed (use assms in \<open>auto simp: configured_def with_handler_def set_handler_def add_custom_route_def with_default_routes_def add_middleware_def chain_add_def
    with_openapi_spec_def with_max_body_size_def with_shutdown_timeout_def with_ws_def with_shutdown_def with_static_dir_def
    with_static_mounts_def with_health_registry_def with_plugin_def split: if_splits\<close>)

lemma configured_build:
  assumes "fold_opt (build_step env) calls s = Some s'" and "configured hs ms s"
  shows "configured (hs @ concat (map call_handlers calls)) (ms @ concat (map (call_middlewares env) calls)) s'"
  using assms
proof (induction calls arbitrary: s hs ms)
  case (Cons call calls)
  obtain s1 where s1: "build_step env call s = Some s1" "fold_opt (build_step env) calls s1 = Some s'"
    using Cons.prems(1) by (auto split: Option.bind_splits)
  from Cons.IH [OF s1(2) configured_step [OF Cons.prems(2) s1(1)]] show ?case by simp
qed simp

lemma configured_install:
  "configured hs ms s \<Longrightarrow>
   mc_middlewares (srv_chain (install_router env s)) = ms \<and>
   mc_handler (srv_chain (install_router env s)) =
     (case hs of [] \<Rightarrow> make_handler env (srv_health s) (srv_openapi s) (srv_max_body s) | h # hs' \<Rightarrow> last (h # hs'))"
  by (auto simp: configured_def install_router_def set_handler_def split: option.splits list.splits)

section \<open>Properties\<close>

text \<open>A server runs what it was configured with: after any sequence of builder calls that does not panic, the chain has the
  middlewares that were added, in the order of their addition, in front of the custom handler that was set last, or, if none
  was set, of the dispatch over the routes.\<close>

theorem server_runs_configured_handler:
  assumes "fold_opt (build_step env) calls (server_new addr) = Some s"
  shows "mc_middlewares (srv_chain (install_router env s)) = concat (map (call_middlewares env) calls) \<and>
    mc_handler (srv_chain (install_router env s)) =
      (case concat (map call_handlers calls) of
         [] \<Rightarrow> make_handler env (srv_health s) (srv_openapi s) (srv_max_body s)
       | h # hs \<Rightarrow> last (h # hs))"
proof -
  have "configured [] [] (server_new addr :: ('a, 'b) server)"
    by (simp add: configured_def server_new_def chain_new_def)
  from configured_build [OF assms this]
  have "configured (concat (map call_handlers calls)) (concat (map (call_middlewares env) calls)) s" by simp
  then show ?thesis by (rule configured_install)
qed

theorem server_runs_configured_handler_witness:
  "\<exists>s. fold_opt (build_step example_env) [Call_max_body_size 5, Call_handler dummy_handler] (server_new (Tcp [])) = Some s \<and>
     mc_handler (srv_chain (install_router example_env s)) = dummy_handler"
proof -
  have "\<exists>s. fold_opt (build_step example_env) [Call_max_body_size 5, Call_handler dummy_handler] (server_new (Tcp [])) = Some s"
    by (simp add: with_max_body_size_def with_handler_def server_new_def)
  then obtain s where s: "fold_opt (build_step example_env) [Call_max_body_size 5, Call_handler dummy_handler] (server_new (Tcp [])) = Some s" by blast
  from server_runs_configured_handler [OF s] s show ?thesis by auto
qed

text \<open>After a custom handler was set, the OAuth2 flow still adds its gate but no token endpoint, and the inference endpoints are left
  out without a word.\<close>

lemma routes_after_custom_handler_are_lost:
  assumes "with_handler h s = Some s1"
  shows "with_openai env hs s1 = Some s1" and "with_oauth2_password env decode ep oa s1 =
    Some (add_middleware (jwt_handle (env_visible env) (env_print env) decode (jwt_require_for (oauth_jwt_auth oa) (token_path oa) No_jwt)) s1)"
  using assms by (auto simp: with_handler_def with_openai_def with_oauth2_password_def insert_if_router_def split: if_splits)

end
