(* ===== verification/Listener.thy ===== *)
theory Listener
  imports Observability
begin

text \<open>
  The accept loop of the server: \<open>serve_generic\<close> and \<open>serve_connection\<close> of \<^verbatim>\<open>crates/justapi-core/src/server/mod.rs\<close>, with the limits
  that it reads from the environment.

  \<^item> A connection is accepted, waits for a permit of the semaphore, serves requests and ends. The loop and the tasks of the
    connections run interleaved: a run is a sequence of events, and time passes in ticks.
  \<^item> A task gives its permit back when it ends in whatever way. It reports the end of its connection unless it unwinds from a panic, which
    happens in builds without \<open>panic = "abort"\<close>, or is dropped.
  \<^item> A loop with a shutdown token ends when the token is cancelled, and then waits for the connections, at most for the shutdown
    timeout; a loop without a token ends only when accepting fails. The task of a connection is told of the cancellation at some time
    later, and then starts no request any more.
  \<^item> The tasks belong to the loop: when it returns, those that are left are dropped.

  The lemmas show that the permits are conserved, so that no more connections are served at a time than there are permits, what the gauge of
  the metrics counts, that nothing is accepted after the loop was left, and when the loop can return.
\<close>

section \<open>Limits\<close>

text \<open>The variables of the environment, if set.\<close>

definition max_connections :: "string option \<Rightarrow> nat" where
  "max_connections var =
     (case Option.bind var (parse_uint 64) of Some n \<Rightarrow> if 0 < n then n else 10000 | None \<Rightarrow> 10000)"

definition request_timeout :: "string option \<Rightarrow> nat" where
  "request_timeout var = (case Option.bind var (parse_uint 64) of Some s \<Rightarrow> s | None \<Rightarrow> 60)"

section \<open>The loop\<close>

text \<open>A loop that drains has the time at which it stops waiting.\<close>

datatype loop_phase = Accepting | Draining nat | Returned "string + unit"

record listener =
  ls_free :: nat
  ls_token :: "bool option"
  ls_timeout :: nat
  ls_now :: nat
  ls_phase :: loop_phase
  ls_waiting :: "nat list"
  ls_active :: "nat list"
  ls_busy :: "nat \<Rightarrow> bool"
  ls_told :: "nat \<Rightarrow> bool"
  ls_metrics :: metrics

definition listener_new :: "nat \<Rightarrow> bool \<Rightarrow> nat \<Rightarrow> metrics \<Rightarrow> listener" where
  "listener_new permits with_token timeout m =
     \<lparr>ls_free = permits, ls_token = (if with_token then Some False else None), ls_timeout = timeout, ls_now = 0, ls_phase = Accepting,
      ls_waiting = [], ls_active = [], ls_busy = (\<lambda>_. False), ls_told = (\<lambda>_. False), ls_metrics = m\<rparr>"

datatype loop_event =
  Accepted nat | Accept_failed string | Permit nat | Request nat | Respond nat | Told nat | Closed nat | Unwound nat
| Tick | Cancel | Leave | Drained | Drain_timeout

text \<open>The task of a served connection ends; its permit is dropped.\<close>

definition end_task :: "nat \<Rightarrow> listener \<Rightarrow> listener" where
  "end_task c s = s\<lparr>ls_active := remove1 c (ls_active s), ls_free := ls_free s + 1\<rparr>"

text \<open>The loop returns; the remaining tasks are dropped.\<close>

definition loop_return :: "string + unit \<Rightarrow> listener \<Rightarrow> listener" where
  "loop_return r s = s\<lparr>ls_phase := Returned r, ls_waiting := [], ls_active := [], ls_free := ls_free s + length (ls_active s)\<rparr>"

text \<open>\<open>Accepted\<close>: the loop spawns the task of a new connection. \<open>Leave\<close>: the loop notices the cancellation; \<open>Told\<close>: the task of a connection does.
  \<open>Closed\<close>: the connection has ended, by its client, an error or the shutdown.\<close>

fun accept_step :: "loop_event \<Rightarrow> listener \<Rightarrow> listener option" where
  "accept_step (Accepted c) s =
     (if ls_phase s = Accepting \<and> c \<notin> set (ls_waiting s) \<union> set (ls_active s) then Some (s\<lparr>ls_waiting := ls_waiting s @ [c]\<rparr>) else None)"
| "accept_step (Accept_failed e) s = (if ls_phase s = Accepting then Some (loop_return (Inl e) s) else None)"
| "accept_step (Permit c) s =
     (if c \<in> set (ls_waiting s) \<and> 0 < ls_free s
      then Some (s\<lparr>ls_free := ls_free s - 1, ls_waiting := remove1 c (ls_waiting s), ls_active := ls_active s @ [c],
                   ls_busy := (ls_busy s)(c := False), ls_told := (ls_told s)(c := False), ls_metrics := connection_opened (ls_metrics s)\<rparr>)
      else None)"
| "accept_step (Request c) s =
     (if c \<in> set (ls_active s) \<and> \<not> ls_busy s c \<and> \<not> ls_told s c then Some (s\<lparr>ls_busy := (ls_busy s)(c := True)\<rparr>) else None)"
| "accept_step (Respond c) s =
     (if c \<in> set (ls_active s) \<and> ls_busy s c then Some (s\<lparr>ls_busy := (ls_busy s)(c := False)\<rparr>) else None)"
| "accept_step (Told c) s =
     (if c \<in> set (ls_active s) \<and> ls_token s = Some True then Some (s\<lparr>ls_told := (ls_told s)(c := True)\<rparr>) else None)"
| "accept_step (Closed c) s =
     (if c \<in> set (ls_active s) then Some (end_task c (s\<lparr>ls_metrics := connection_closed (ls_metrics s)\<rparr>)) else None)"
| "accept_step (Unwound c) s = (if c \<in> set (ls_active s) then Some (end_task c s) else None)"
| "accept_step Tick s = Some (s\<lparr>ls_now := ls_now s + 1\<rparr>)"
| "accept_step Cancel s = (case ls_token s of Some _ \<Rightarrow> Some (s\<lparr>ls_token := Some True\<rparr>) | None \<Rightarrow> None)"
| "accept_step Leave s =
     (if ls_phase s = Accepting \<and> ls_token s = Some True then Some (s\<lparr>ls_phase := Draining (ls_now s + ls_timeout s)\<rparr>) else None)"
| "accept_step Drained s =
     (case ls_phase s of
        Draining _ \<Rightarrow> if ls_waiting s = [] \<and> ls_active s = [] then Some (loop_return (Inr ()) s) else None
      | _ \<Rightarrow> None)"
| "accept_step Drain_timeout s =
     (case ls_phase s of Draining deadline \<Rightarrow> if deadline \<le> ls_now s then Some (loop_return (Inr ()) s) else None | _ \<Rightarrow> None)"

abbreviation loop_run :: "nat \<Rightarrow> bool \<Rightarrow> nat \<Rightarrow> loop_event list \<Rightarrow> listener option" where
  "loop_run permits with_token timeout es \<equiv> fold_opt accept_step es (listener_new permits with_token timeout metrics_new)"

section \<open>Invariant\<close>

text \<open>The number of tasks that ended in a panic.\<close>

definition unwound :: "loop_event list \<Rightarrow> nat" where
  "unwound es = length (filter (\<lambda>e. \<exists>c. e = Unwound c) es)"

definition listener_ok :: "nat \<Rightarrow> nat \<Rightarrow> nat \<Rightarrow> listener \<Rightarrow> bool" where
  "listener_ok permits timeout panics s \<longleftrightarrow>
     ls_timeout s = timeout \<and> ls_free s + length (ls_active s) = permits \<and> distinct (ls_waiting s @ ls_active s) \<and>
     (case ls_phase s of
        Returned _ \<Rightarrow> ls_waiting s = [] \<and> ls_active s = []
      | Accepting \<Rightarrow> active_connections (ls_metrics s) = of_nat (length (ls_active s) + panics)
      | Draining d \<Rightarrow> active_connections (ls_metrics s) = of_nat (length (ls_active s) + panics) \<and> d \<le> ls_now s + timeout)"

lemma remove1_length: "c \<in> set xs \<Longrightarrow> length xs = Suc (length (remove1 c xs))"
  using length_pos_if_in_set [of c xs] by (simp add: length_remove1)

lemma listener_ok_step:
  assumes "listener_ok permits timeout panics s" and "accept_step e s = Some s'"
  shows "listener_ok permits timeout (panics + unwound [e]) s'"
proof (cases e)
  case (Permit c)
  then have "c \<in> set (ls_waiting s)" "0 < ls_free s"
    "s' = s\<lparr>ls_free := ls_free s - 1, ls_waiting := remove1 c (ls_waiting s), ls_active := ls_active s @ [c],
       ls_busy := (ls_busy s)(c := False), ls_told := (ls_told s)(c := False), ls_metrics := connection_opened (ls_metrics s)\<rparr>"
    using assms(2) by (auto split: if_splits)
  then show ?thesis
    using assms(1) Permit by (cases "ls_phase s") (auto simp: listener_ok_def connection_opened_def unwound_def)
next
  case (Closed c)
  then have c: "c \<in> set (ls_active s)" "s' = end_task c (s\<lparr>ls_metrics := connection_closed (ls_metrics s)\<rparr>)"
    using assms(2) by (auto split: if_splits)
  have "distinct (ls_waiting s @ remove1 c (ls_active s))"
    using assms(1) by (auto simp: listener_ok_def dest: notin_set_remove1 set_remove1_subset [THEN subsetD])
  then show ?thesis
    using assms(1) c remove1_length [OF c(1)] Closed
    by (cases "ls_phase s") (simp_all add: listener_ok_def end_task_def connection_closed_def unwound_def)
next
  case (Unwound c)
  then have c: "c \<in> set (ls_active s)" "s' = end_task c s" using assms(2) by (auto split: if_splits)
  have "distinct (ls_waiting s @ remove1 c (ls_active s))"
    using assms(1) by (auto simp: listener_ok_def dest: notin_set_remove1 set_remove1_subset [THEN subsetD])
  then show ?thesis
    using assms(1) c remove1_length [OF c(1)] Unwound
    by (cases "ls_phase s") (simp_all add: listener_ok_def end_task_def unwound_def)
qed (use assms in \<open>auto simp: listener_ok_def loop_return_def unwound_def split: if_splits option.splits loop_phase.splits\<close>)

lemma unwound_Nil [simp]: "unwound [] = 0"
  by (simp add: unwound_def)

lemma unwound_Cons: "unwound (e # es) = unwound [e] + unwound es"
  by (simp add: unwound_def)

lemma run_ok:
  "fold_opt accept_step es s = Some s' \<Longrightarrow> listener_ok permits timeout panics s \<Longrightarrow> listener_ok permits timeout (panics + unwound es) s'"
proof (induction es arbitrary: s panics)
  case (Cons e es)
  obtain s1 where s1: "accept_step e s = Some s1" "fold_opt accept_step es s1 = Some s'"
    using Cons.prems(1) by (auto split: Option.bind_splits)
  show ?case using Cons.IH [OF s1(2) listener_ok_step [OF Cons.prems(2) s1(1)]] by (simp add: add.assoc unwound_Cons [of e es])
qed simp

lemma loop_run_ok: "loop_run permits b timeout es = Some s \<Longrightarrow> listener_ok permits timeout (unwound es) s"
  using run_ok [of es _ s permits timeout 0] by (simp add: listener_ok_def listener_new_def metrics_new_def)

section \<open>Draining\<close>

lemma draining_step:
  assumes "ls_phase s = Draining d" and "accept_step e s = Some s'"
  shows "(ls_phase s' = Draining d \<or> ls_phase s' = Returned (Inr ()) \<and> (ls_waiting s = [] \<and> ls_active s = [] \<or> d \<le> ls_now s)) \<and>
    set (ls_waiting s' @ ls_active s') \<subseteq> set (ls_waiting s @ ls_active s) \<and>
    (distinct (ls_waiting s @ ls_active s) \<longrightarrow> (\<forall>c. c \<in> set (ls_active s) \<and> ls_told s c \<longrightarrow> e \<noteq> Request c \<and> (c \<in> set (ls_active s') \<longrightarrow> ls_told s' c) \<and> c \<notin> set (ls_waiting s')))"
  using assms
  by (cases e) (auto simp: end_task_def loop_return_def split: if_splits option.splits dest: set_remove1_subset [THEN subsetD])

lemma returned_run:
  assumes "listener_ok permits timeout panics s" and "ls_phase s = Returned r" and "fold_opt accept_step es s = Some s'"
  shows "ls_phase s' = Returned r \<and> ls_waiting s' = [] \<and> ls_active s' = [] \<and> (\<forall>c. Request c \<notin> set es)"
  using assms
proof (induction es arbitrary: s panics)
  case (Cons e es)
  obtain s1 where s1: "accept_step e s = Some s1" "fold_opt accept_step es s1 = Some s'"
    using Cons.prems(3) by (auto split: Option.bind_splits)
  have "ls_phase s1 = Returned r \<and> (\<forall>c. e \<noteq> Request c)"
    using Cons.prems(1,2) s1(1) by (cases e) (auto simp: listener_ok_def split: option.splits)
  then show ?case using Cons.IH [OF listener_ok_step [OF Cons.prems(1) s1(1)] _ s1(2)] by auto
qed (simp add: listener_ok_def)

lemma never_requests:
  assumes "listener_ok permits timeout panics s" and "ls_phase s = Draining d" and "fold_opt accept_step es s = Some s'"
    and "c \<notin> set (ls_waiting s @ ls_active s)"
  shows "Request c \<notin> set es"
  using assms
proof (induction es arbitrary: s panics)
  case (Cons e es)
  obtain s1 where s1: "accept_step e s = Some s1" "fold_opt accept_step es s1 = Some s'"
    using Cons.prems(3) by (auto split: Option.bind_splits)
  note st = draining_step [OF Cons.prems(2) s1(1)] and ok1 = listener_ok_step [OF Cons.prems(1) s1(1)]
  have e: "e \<noteq> Request c" using s1(1) Cons.prems(4) by (auto split: if_splits)
  have c1: "c \<notin> set (ls_waiting s1 @ ls_active s1)" using st Cons.prems(4) by blast
  show ?case
  proof (cases "ls_phase s1 = Draining d")
    case True
    then show ?thesis using Cons.IH [OF ok1 True s1(2) c1] e by simp
  next
    case False
    then have "ls_phase s1 = Returned (Inr ())" using st by blast
    then show ?thesis using returned_run [OF ok1 _ s1(2)] e by auto
  qed
qed simp

text \<open>The deadline is never moved, nothing is accepted, and a connection that was told of the shutdown starts no request.\<close>

lemma draining_run:
  assumes "listener_ok permits timeout panics s" and "ls_phase s = Draining d" and "fold_opt accept_step es s = Some s'"
  shows "(ls_phase s' = Draining d \<or> ls_phase s' = Returned (Inr ())) \<and>
    set (ls_waiting s' @ ls_active s') \<subseteq> set (ls_waiting s @ ls_active s) \<and>
    (\<forall>c. c \<in> set (ls_active s) \<and> ls_told s c \<longrightarrow> Request c \<notin> set es)"
  using assms
proof (induction es arbitrary: s panics)
  case (Cons e es)
  obtain s1 where s1: "accept_step e s = Some s1" "fold_opt accept_step es s1 = Some s'"
    using Cons.prems(3) by (auto split: Option.bind_splits)
  have dist: "distinct (ls_waiting s @ ls_active s)" using Cons.prems(1) by (simp add: listener_ok_def)
  note st = draining_step [OF Cons.prems(2) s1(1)] and ok1 = listener_ok_step [OF Cons.prems(1) s1(1)]
  show ?case
  proof (cases "ls_phase s1 = Draining d")
    case True
    note IH = Cons.IH [OF ok1 True s1(2)]
    have "Request c \<notin> set (e # es)" if "c \<in> set (ls_active s)" "ls_told s c" for c
    proof (cases "c \<in> set (ls_active s1)")
      case True
      then show ?thesis using IH st dist that by auto
    next
      case False
      then have "c \<notin> set (ls_waiting s1 @ ls_active s1)" using st dist that by auto
      then show ?thesis using never_requests [OF ok1 \<open>ls_phase s1 = Draining d\<close> s1(2)] st dist that by auto
    qed
    then show ?thesis using IH st by blast
  next
    case False
    then have r: "ls_phase s1 = Returned (Inr ())" using st by blast
    note after = returned_run [OF ok1 r s1(2)]
    have "Request c \<notin> set (e # es)" if "c \<in> set (ls_active s)" "ls_told s c" for c
      using st dist that after by auto
    then show ?thesis using after by auto
  qed
qed simp

section \<open>Properties\<close>





text \<open>The limit does not bound what is accepted: connections without a permit are accepted in any number, and wait in their tasks.\<close>

lemma accepted_connections_unbounded:
  "\<exists>s. loop_run permits b timeout (map Accepted [0..<n]) = Some s \<and> length (ls_waiting s) = n"
proof -
  have "\<exists>s. loop_run permits b timeout (map Accepted [0..<n]) = Some s \<and> ls_phase s = Accepting \<and> ls_waiting s = [0..<n] \<and> ls_active s = []"
    by (induction n) (auto simp: listener_new_def fold_opt_append)
  then show ?thesis by auto
qed

text \<open>A connection that can not be accepted ends the loop, and with it every connection that is being served.\<close>

lemma failed_accept_drops_all:
  "ls_phase s = Accepting \<Longrightarrow>
   \<exists>s'. accept_step (Accept_failed e) s = Some s' \<and> ls_phase s' = Returned (Inl e) \<and> ls_active s' = [] \<and> ls_waiting s' = []"
  by (simp add: loop_return_def)

end
