(* ===== verification/Rate_Limit.thy ===== *)
theory Rate_Limit
  imports Prelude
begin

text \<open>
  The limiter of \<^verbatim>\<open>crates/justapi-core/src/rate_limit.rs\<close>: the generic cell rate algorithm, as the script that
  \<open>RateLimiter::new_redis\<close> installs, and \<open>check_limit\<close> around it. Times are in microseconds.

  \<^item> The store behind the script is a parameter: \<open>get key now s\<close> reads a key, \<open>put key v ttl now s\<close> writes it with a life time in
    seconds or without one. \<open>redis_laws\<close> states what the script relies on.
  \<^item> The numbers of a script are doubles, exact below \<open>2 ^ 53\<close>, and are integers here.

  The lemmas show that expiry of keys is not observable, that a window of time grants no more than the burst capacity and what
  the window replenishes, and that the announced delay is enough.
\<close>

section \<open>The script\<close>

type_synonym 's store_get = "string \<Rightarrow> int \<Rightarrow> 's \<Rightarrow> int option"
type_synonym 's store_set = "string \<Rightarrow> int \<Rightarrow> int option \<Rightarrow> int \<Rightarrow> 's \<Rightarrow> 's"

definition ceil_div :: "int \<Rightarrow> int \<Rightarrow> int" where
  "ceil_div a b = - ((- a) div b)"

definition gcra_script ::
  "'s store_get \<Rightarrow> 's store_set \<Rightarrow> string \<Rightarrow> int \<Rightarrow> int \<Rightarrow> int \<Rightarrow> int \<Rightarrow> 's \<Rightarrow> int list \<times> 's" where
  "gcra_script get put key t tau now request s =
     (let tat = (case get key now s of None \<Rightarrow> now | Some v \<Rightarrow> v);
          new_tat = max tat now + t * request;
          allow_at = new_tat - tau
      in if now < allow_at then ([0, ceil_div (allow_at - now) 1000], s)
         else (let ttl = ceil_div (new_tat - now) 1000000
               in ([1, 0], if 0 < ttl then put key new_tat (Some ttl) now s else put key new_tat None now s)))"

record rate_limit_result =
  rl_allowed :: bool
  rl_retry_after_ms :: nat

datatype limit_error = ZeroRate | RedisError string | InvalidResponse

text \<open>\<open>down\<close> is the error of the connection, if it has one; the product of the burst is taken in 64 bits.\<close>

definition interval_us :: "nat \<Rightarrow> nat" where
  "interval_us replenish_rate = 1000000 div replenish_rate"

definition burst_us :: "nat \<Rightarrow> nat \<Rightarrow> nat" where
  "burst_us capacity replenish_rate = (interval_us replenish_rate * capacity) mod 2 ^ 64"

definition check_limit ::
  "'s store_get \<Rightarrow> 's store_set \<Rightarrow> string option \<Rightarrow> string \<Rightarrow> nat \<Rightarrow> nat \<Rightarrow> nat \<Rightarrow> nat \<Rightarrow> 's \<Rightarrow> (limit_error + rate_limit_result) \<times> 's" where
  "check_limit get put down key capacity replenish_rate tokens now s =
     (if replenish_rate = 0 then (Inl ZeroRate, s)
      else case down of
             Some e \<Rightarrow> (Inl (RedisError e), s)
           | None \<Rightarrow>
               (case gcra_script get put key (int (interval_us replenish_rate)) (int (burst_us capacity replenish_rate)) (int now) (int tokens) s of
                  (result, s) \<Rightarrow>
                    (if 2 \<le> length result
                     then Inr \<lparr>rl_allowed = (result ! 0 = 1), rl_retry_after_ms = nat (result ! 1)\<rparr>
                     else Inl InvalidResponse, s)))"

section \<open>The store\<close>

definition redis_laws :: "'s store_get \<Rightarrow> 's store_set \<Rightarrow> bool" where
  "redis_laws get put \<longleftrightarrow>
     (\<forall>k v now now' s. get k now' (put k v None now s) = Some v) \<and>
     (\<forall>k v ttl now now' s. get k now' (put k v (Some ttl) now s) = (if now' < now + ttl * 1000000 then Some v else None)) \<and>
     (\<forall>k k' v ttl now now' s. k' \<noteq> k \<longrightarrow> get k' now' (put k v ttl now s) = get k' now' s)"

text \<open>The theoretical arrival time a request at a time sees.\<close>

definition arrival :: "'s store_get \<Rightarrow> string \<Rightarrow> int \<Rightarrow> 's \<Rightarrow> int" where
  "arrival get key now s = (case get key now s of None \<Rightarrow> now | Some v \<Rightarrow> max v now)"

lemma ceil_div_ge: "0 < b \<Longrightarrow> a \<le> ceil_div a b * b"
proof -
  assume b: "0 < b"
  have "- a = (- a) div b * b + (- a) mod b" by (rule div_mult_mod_eq [symmetric])
  with pos_mod_sign [OF b, of "- a"] have "(- a) div b * b \<le> - a" by linarith
  then show ?thesis by (simp add: ceil_div_def)
qed

lemma ceil_div_pos: "0 < b \<Longrightarrow> 0 < ceil_div a b \<longleftrightarrow> 0 < a"
  by (simp add: ceil_div_def neg_imp_zdiv_neg_iff pos_imp_zdiv_neg_iff)

lemma gcra_script_eq:
  "gcra_script get put key t tau now request s =
     (if now + tau < arrival get key now s + t * request
      then ([0, ceil_div (arrival get key now s + t * request - tau - now) 1000], s)
      else ([1, 0], put key (arrival get key now s + t * request)
        (if now < arrival get key now s + t * request then Some (ceil_div (arrival get key now s + t * request - now) 1000000) else None) now s))"
  by (simp add: gcra_script_def arrival_def Let_def ceil_div_pos split: option.split)

text \<open>A key expires only when its value is in the past, so a reader cannot tell.\<close>

lemma arrival_after_set:
  assumes "redis_laws get put" and "now \<le> v" and "now \<le> now'"
  shows "arrival get key now' (put key v (if now < v then Some (ceil_div (v - now) 1000000) else None) now s) = max v now'"
proof (cases "now < v")
  case True
  have "v \<le> now + ceil_div (v - now) 1000000 * 1000000" using ceil_div_ge [of 1000000 "v - now"] by simp
  then show ?thesis using assms True by (auto simp: redis_laws_def arrival_def max_def)
next
  case False
  then show ?thesis using assms by (auto simp: redis_laws_def arrival_def)
qed

lemma arrival_other:
  assumes "redis_laws get put" and "k' \<noteq> key"
  shows "arrival get k' now' (snd (gcra_script get put key t tau now request s)) = arrival get k' now' s"
  using assms by (simp add: gcra_script_eq redis_laws_def arrival_def)

text \<open>A key whose past is remembered: what a later request sees is determined by what a request sees now.\<close>

definition remembers :: "'s store_get \<Rightarrow> string \<Rightarrow> int \<Rightarrow> 's \<Rightarrow> bool" where
  "remembers get key now s \<longleftrightarrow> (\<forall>now'. now \<le> now' \<longrightarrow> arrival get key now' s = max (arrival get key now s) now')"

lemma arrival_ge: "now \<le> arrival get key now s"
  by (simp add: arrival_def split: option.split)

lemma remembersD: "remembers get key now s \<Longrightarrow> now \<le> now' \<Longrightarrow> arrival get key now' s = max (arrival get key now s) now'"
  unfolding remembers_def by blast

lemma remembers_fresh:
  assumes "\<And>n. get key n s = None"
  shows "remembers get key now s"
proof -
  have "arrival get key n s = n" for n using assms [of n] by (simp add: arrival_def)
  then show ?thesis by (simp add: remembers_def)
qed

lemma remembers_later:
  assumes "remembers get key now s" and "now \<le> now'"
  shows "remembers get key now' s"
  unfolding remembers_def
proof (intro allI impI)
  fix n
  assume "now' \<le> n"
  then show "arrival get key n s = max (arrival get key now' s) n"
    using remembersD [OF assms(1), of n] remembersD [OF assms] assms(2) by simp
qed

text \<open>One request: what it grants, what the next sees, and that the past stays remembered.\<close>

lemma script_step:
  assumes "redis_laws get put" and "0 \<le> t" and "0 \<le> request" and "remembers get key now s"
    and "gcra_script get put key t tau now request s = (result, s')"
  shows "remembers get key now s'"
    and "result ! 0 = 1 \<Longrightarrow> arrival get key now s' = arrival get key now s + t * request \<and> arrival get key now s' \<le> now + tau"
    and "result ! 0 \<noteq> 1 \<Longrightarrow> s' = s"
proof -
  let ?v = "arrival get key now s + t * request"
  have v: "now \<le> ?v" using arrival_ge [of now get key s] mult_nonneg_nonneg [OF assms(2,3)] by linarith
  note later = arrival_after_set [OF assms(1) v, where key = key and s = s]
  show "remembers get key now s'"
  proof (cases "now + tau < ?v")
    case True
    then show ?thesis using assms(4,5) by (auto simp: gcra_script_eq)
  next
    case False
    then have "s' = put key ?v (if now < ?v then Some (ceil_div (?v - now) 1000000) else None) now s"
      using assms(5) by (simp add: gcra_script_eq)
    then show ?thesis using later v by (simp add: remembers_def)
  qed
  show "arrival get key now s' = ?v \<and> arrival get key now s' \<le> now + tau" if "result ! 0 = 1"
    using that assms(5) later [of now] v by (auto simp: gcra_script_eq split: if_splits)
  show "s' = s" if "result ! 0 \<noteq> 1"
    using that assms(5) by (auto simp: gcra_script_eq split: if_splits)
qed

section \<open>Runs\<close>

text \<open>A run of requests with their keys, times and numbers of tokens, each under the limit of its key; the tokens granted to one key.\<close>

fun granted ::
  "'s store_get \<Rightarrow> 's store_set \<Rightarrow> (string \<Rightarrow> nat \<times> nat) \<Rightarrow> string \<Rightarrow> (string \<times> nat \<times> nat) list \<Rightarrow> 's \<Rightarrow> nat \<times> 's" where
  "granted get put limits key [] s = (0, s)"
| "granted get put limits key ((k, now, tokens) # rs) s =
     (case check_limit get put None k (fst (limits k)) (snd (limits k)) tokens now s of
        (res, s) \<Rightarrow>
          (case granted get put limits key rs s of
             (g, s) \<Rightarrow> ((case res of Inr r \<Rightarrow> if k = key \<and> rl_allowed r then tokens else 0 | Inl _ \<Rightarrow> 0) + g, s)))"

definition times :: "(string \<times> nat \<times> nat) list \<Rightarrow> nat list" where
  "times rs = map (fst \<circ> snd) rs"

lemma times_simps [simp]: "times [] = []" "times ((k, now, tokens) # rs) = now # times rs" "times (ps @ rs) = times ps @ times rs"
  by (simp_all add: times_def)

lemma check_limit_other:
  assumes "redis_laws get put" and "key \<noteq> k" and "check_limit get put down k capacity rate tokens now s = (res, s')"
  shows "arrival get key n s' = arrival get key n s" and "remembers get key n s' = remembers get key n s"
proof -
  show same: "arrival get key n s' = arrival get key n s" for n
    using arrival_other [OF assms(1,2)] assms(3) by (auto simp: check_limit_def split: if_splits option.splits prod.splits) (metis snd_conv)+
  show "remembers get key n s' = remembers get key n s" by (simp add: remembers_def same)
qed

text \<open>A request of the key itself; \<open>gain\<close> is what it grants.\<close>

lemma check_limit_step:
  assumes "redis_laws get put" and "0 < rate" and "remembers get key (int now) s"
    and "check_limit get put None key capacity rate tokens now s = (res, s')"
  defines "gain \<equiv> (case res of Inr r \<Rightarrow> if rl_allowed r then tokens else 0 | Inl _ \<Rightarrow> 0)"
  shows "remembers get key (int now) s'"
    and "int (interval_us rate * gain) + arrival get key (int now) s \<le> arrival get key (int now) s'"
    and "0 < gain \<Longrightarrow> arrival get key (int now) s' \<le> int now + int (burst_us capacity rate)"
proof -
  obtain result where g: "gcra_script get put key (int (interval_us rate)) (int (burst_us capacity rate)) (int now) (int tokens) s = (result, s')"
    and r: "res = Inr \<lparr>rl_allowed = (result ! 0 = 1), rl_retry_after_ms = nat (result ! 1)\<rparr>"
    using assms(2,4) by (auto simp: check_limit_def gcra_script_eq split: if_splits)
  note step = script_step [OF assms(1) _ _ assms(3) g]
  show "remembers get key (int now) s'" using step(1) by simp
  show "int (interval_us rate * gain) + arrival get key (int now) s \<le> arrival get key (int now) s'"
    using step(2,3) r by (cases "result ! 0 = 1") (auto simp: gain_def)
  show "arrival get key (int now) s' \<le> int now + int (burst_us capacity rate)" if "0 < gain"
    using that step(2) r by (auto simp: gain_def split: if_splits)
qed

lemma granted_bound:
  assumes "redis_laws get put" and "limits key = (capacity, rate)" and "0 < rate" and "remembers get key (int start) s"
    and "sorted (start # times rs)" and "granted get put limits key rs s = (g, s')"
  shows "remembers get key (int (last (start # times rs))) s'
    \<and> int (interval_us rate * g) + arrival get key (int start) s \<le> arrival get key (int (last (start # times rs))) s'
    \<and> (0 < g \<longrightarrow> int (interval_us rate * g) + arrival get key (int start) s \<le> int (last (start # times rs)) + int (burst_us capacity rate))"
  using assms(4-6)
proof (induction rs arbitrary: start s g)
  case Nil
  then show ?case by simp
next
  case (Cons q rs)
  obtain k now tokens where q: "q = (k, now, tokens)" by (metis prod.collapse)
  then have le: "start \<le> now" and srt: "sorted (now # times rs)" using Cons.prems(2) by auto
  obtain res s1 where c: "check_limit get put None k (fst (limits k)) (snd (limits k)) tokens now s = (res, s1)" by fastforce
  obtain g1 where g1: "granted get put limits key rs s1 = (g1, s')" using Cons.prems(3) c by (auto simp: q split: prod.splits)
  define gain where "gain = (case res of Inr r \<Rightarrow> if rl_allowed r then tokens else 0 | Inl _ \<Rightarrow> 0)"
  have g: "g = (if k = key then gain else 0) + g1" using Cons.prems(3) c g1 by (auto simp: q gain_def split: sum.splits)
  have rem: "remembers get key (int now) s" using remembers_later [OF Cons.prems(1)] le by simp
  have a: "arrival get key (int start) s \<le> arrival get key (int now) s"
    using remembersD [OF Cons.prems(1), of "int now"] le by simp
  have one: "remembers get key (int now) s1 \<and>
      int (interval_us rate * (if k = key then gain else 0)) + arrival get key (int now) s \<le> arrival get key (int now) s1 \<and>
      (k = key \<and> 0 < gain \<longrightarrow> arrival get key (int now) s1 \<le> int now + int (burst_us capacity rate))"
  proof (cases "k = key")
    case True
    then show ?thesis using check_limit_step [OF assms(1,3) rem, of capacity tokens res s1] c assms(2) by (simp add: gain_def)
  next
    case False
    then show ?thesis using check_limit_other [OF assms(1) _ c, of key "int now"] rem by simp
  qed
  have last: "last (start # times (q # rs)) = last (now # times rs)" by (simp add: q)
  have ge: "now \<le> last (now # times rs)" using srt by (auto simp: last_in_set)
  note IH = Cons.IH [OF _ srt g1]
  have prod: "int (interval_us rate * g) = int (interval_us rate * (if k = key then gain else 0)) + int (interval_us rate * g1)"
    by (simp add: g algebra_simps)
  show ?case
    unfolding last
  proof (intro conjI impI)
    show "remembers get key (int (last (now # times rs))) s'" using IH one by simp
    show "int (interval_us rate * g) + arrival get key (int start) s \<le> arrival get key (int (last (now # times rs))) s'"
      using IH a one prod by linarith
    assume "0 < g"
    then show "int (interval_us rate * g) + arrival get key (int start) s \<le> int (last (now # times rs)) + int (burst_us capacity rate)"
      using IH a one prod ge g by (cases "0 < g1"; cases "k = key") (auto split: if_splits)
  qed
qed

section \<open>Properties\<close>

text \<open>C36: In any window of a run, the limiter grants a key no more tokens than its burst capacity and what the window replenishes: from an
  empty store, after any earlier requests of this and of other keys, the intervals of the tokens granted between the times \<open>since\<close>
  and the last request sum up to at most the burst and the length of the window.\<close>

theorem window_grants_bounded:
  assumes "redis_laws get put" and "limits key = (capacity, rate)" and "0 < rate" and "\<And>n. get key n s = None"
    and "sorted (times (earlier @ (k, since, tokens) # window))"
    and "granted get put limits key earlier s = (g0, s1)"
    and "granted get put limits key ((k, since, tokens) # window) s1 = (g, s2)"
  shows "interval_us rate * g \<le> burst_us capacity rate + (last (since # times window) - since)"
proof -
  have earlier: "sorted (0 # times earlier)" and win: "sorted (since # times ((k, since, tokens) # window))"
    and le: "last (0 # times earlier) \<le> since" and len: "since \<le> last (since # times window)"
    using assms(5) by (auto simp: sorted_append last_in_set)
  have "remembers get key (int (last (0 # times earlier))) s1"
    using granted_bound [OF assms(1-3) remembers_fresh [where get = get and key = key and s = s] earlier assms(6)] assms(4) by simp
  then have "remembers get key (int since) s1" by (rule remembers_later) (use le in simp)
  from granted_bound [OF assms(1-3) this win assms(7)]
  have "0 < g \<longrightarrow> int (interval_us rate * g) + arrival get key (int since) s1 \<le> int (last (since # times window)) + int (burst_us capacity rate)"
    by simp
  with arrival_ge [of "int since" get key s1] len show ?thesis by (cases "0 < g") (linarith, simp)
qed

text \<open>The delay announced with a refusal is enough: if a request for no more than the capacity is refused, the burst does not overflow, and no
  other request comes in between, then the same request is granted after that delay or later.\<close>

theorem retry_after_suffices:
  assumes "redis_laws get put" and "0 < rate" and "remembers get key (int now) s"
    and "tokens \<le> capacity" and "interval_us rate * capacity < 2 ^ 64"
    and "check_limit get put None key capacity rate tokens now s = (Inr r, s')" and "\<not> rl_allowed r"
    and "now + 1000 * rl_retry_after_ms r \<le> now'"
  shows "\<exists>r' s''. check_limit get put None key capacity rate tokens now' s' = (Inr r', s'') \<and> rl_allowed r'"
proof -
  let ?t = "int (interval_us rate)" and ?tau = "int (burst_us capacity rate)"
  let ?v = "arrival get key (int now) s + ?t * int tokens"
  have refused: "int now + ?tau < ?v" "s' = s" "int (rl_retry_after_ms r) = ceil_div (?v - ?tau - int now) 1000"
    using assms(2,6,7) ceil_div_pos [of 1000 "?v - ?tau - int now"] by (auto simp: check_limit_def gcra_script_eq split: if_splits)
  have "?v - ?tau - int now \<le> int (1000 * rl_retry_after_ms r)" using ceil_div_ge [of 1000 "?v - ?tau - int now"] refused(3) by simp
  then have wait: "?v \<le> int now' + ?tau" using assms(8) by linarith
  have burst: "?t * int tokens \<le> ?tau"
    using assms(4,5) mult_le_mono2 [OF assms(4), of "interval_us rate"] by (simp add: burst_us_def flip: of_nat_mult)
  have "int now \<le> int now'" using assms(8) by simp
  from remembersD [OF assms(3) this]
  have "arrival get key (int now') s + ?t * int tokens \<le> int now' + ?tau" using wait burst by (simp add: max_def)
  then show ?thesis using assms(2) refused(2) by (simp add: check_limit_def gcra_script_eq)
qed

section \<open>Defects\<close>

text \<open>A request for more than the capacity is refused at all times, whatever delay is announced.\<close>

lemma oversized_request_never_granted:
  assumes "0 < rate" and "rate \<le> 1000000" and "interval_us rate * capacity < 2 ^ 64" and "capacity < tokens"
    and "check_limit get put None key capacity rate tokens now s = (Inr r, s')"
  shows "\<not> rl_allowed r"
proof -
  have "0 < interval_us rate" using assms(1,2) by (simp add: interval_us_def div_greater_zero_iff)
  then have "burst_us capacity rate < interval_us rate * tokens" using assms(3,4) by (simp add: burst_us_def)
  then have "int (burst_us capacity rate) < int (interval_us rate) * int tokens" by (simp flip: of_nat_mult)
  then show ?thesis
    using assms(1,5) arrival_ge [of "int now" get key s] by (auto simp: check_limit_def gcra_script_eq split: if_splits)
qed

text \<open>More than a million tokens per second: the interval is rounded to zero and the limit grants everything from a fresh key.\<close>

lemma fast_limit_unlimited:
  assumes "1000000 < rate" and "get key (int now) s = None"
  shows "\<exists>s'. check_limit get put None key capacity rate tokens now s = (Inr \<lparr>rl_allowed = True, rl_retry_after_ms = 0\<rparr>, s')"
  using assms by (simp add: check_limit_def gcra_script_eq interval_us_def burst_us_def arrival_def)

section \<open>Witnesses\<close>

text \<open>A store as a list of keys with their values and times of expiry.\<close>

definition list_get :: "(string \<times> int \<times> int option) list store_get" where
  "list_get k now s =
     (case map_of s k of Some (v, e) \<Rightarrow> (case e of None \<Rightarrow> Some v | Some t \<Rightarrow> if now < t then Some v else None) | None \<Rightarrow> None)"

definition list_put :: "(string \<times> int \<times> int option) list store_set" where
  "list_put k v ttl now s = (k, v, map_option (\<lambda>n. now + n * 1000000) ttl) # s"

lemma list_laws: "redis_laws list_get list_put"
  by (simp add: redis_laws_def list_get_def list_put_def)

lemma list_fresh: "list_get k n [] = None"
  by (simp add: list_get_def)

lemma example_limit: "interval_us 10 = 100000" "burst_us 2 10 = 200000" "burst_us (Suc 0) 10 = 100000"
  by (simp_all add: interval_us_def burst_us_def)

lemma example_window:
  "granted list_get list_put (\<lambda>_. (2, 10)) ''u'' [(''u'', 5, 1), (''u'', 6, 1), (''u'', 7, 1)] [] =
     (2, [(''u'', 200005, Some 1000006), (''u'', 100005, Some 1000005)])"
  by (simp add: check_limit_def gcra_script_def example_limit list_get_def list_put_def ceil_div_def Let_def)

theorem window_grants_bounded_witness:
  "interval_us 10 * fst (granted list_get list_put (\<lambda>_. (2, 10)) ''u'' [(''u'', 5, 1), (''u'', 6, 1), (''u'', 7, 1)] []) \<le> burst_us 2 10 + (7 - 5)"
  using window_grants_bounded [OF list_laws, where limits = "\<lambda>_. (2, 10)" and key = "''u''" and capacity = 2 and rate = 10 and s = "[]" and earlier = "[]"
      and k = "''u''" and since = 5 and tokens = 1 and window = "[(''u'', 6, 1), (''u'', 7, 1)]" and g = 2, OF _ _ list_fresh _ _ example_window]
  unfolding example_window by simp

definition used_store :: "(string \<times> int \<times> int option) list" where
  "used_store = snd (check_limit list_get list_put None ''u'' 1 10 1 5 [])"

lemma used_store_eq: "used_store = [(''u'', 100005, Some 1000005)]"
  by (simp add: used_store_def check_limit_def gcra_script_def example_limit list_get_def list_put_def ceil_div_def Let_def)

theorem retry_after_suffices_witness:
  "\<exists>r s'. check_limit list_get list_put None ''u'' 1 10 1 100007 used_store = (Inr r, s') \<and> rl_allowed r"
proof -
  have "remembers list_get ''u'' (int 6) used_store"
    by (auto simp: remembers_def arrival_def used_store_eq list_get_def)
  moreover have "check_limit list_get list_put None ''u'' 1 10 1 6 used_store = (Inr \<lparr>rl_allowed = False, rl_retry_after_ms = 100\<rparr>, used_store)"
    by (simp add: used_store_eq check_limit_def gcra_script_def example_limit list_get_def ceil_div_def Let_def)
  ultimately show ?thesis
    using retry_after_suffices [OF list_laws, where rate = 10 and key = "''u''" and now = 6 and s = used_store and tokens = 1 and capacity = 1 and now' = 100007]
    by (simp add: example_limit)
qed

end
