(* ===== verification/Prefork.thy ===== *)
theory Prefork
  imports Prelude Complex_Main
begin

text \<open>
  The supervisor of worker processes of \<^verbatim>\<open>crates/justapi-cli/src/workers.rs\<close>: \<open>supervise\<close> as a function of one iteration of its loop,
  by the event its \<open>select!\<close> took.

  \<^item> Starting a process is the parameter \<open>launch\<close>, which gives the process id or the error of the n-th attempt for the arguments it is given.
  \<^item> Signals are a log of process ids. Times are milliseconds and the load a rational number.
  \<^item> The waits are the slots whose processes are being watched, at most one wait for a slot.

  The lemmas show that the fleet keeps its size between its bounds, that a stopped supervisor has signalled every worker that
  may still run, and that a fleet of fixed size shrinks although nobody asked it to.
\<close>

section \<open>Scaling policy\<close>

record scaling_policy =
  min_workers :: nat
  max_workers :: nat
  low :: rat
  high :: rat
  cooldown :: nat
  step_size :: nat

definition default_policy :: scaling_policy where
  "default_policy = \<lparr>min_workers = 1, max_workers = 4, low = 3 / 10, high = 7 / 10, cooldown = 15000, step_size = 1\<rparr>"

definition decide_scale :: "nat \<Rightarrow> rat \<Rightarrow> scaling_policy \<Rightarrow> nat" where
  "decide_scale current load policy =
     (let desired = (if high policy \<le> load then min (current + step_size policy) u64_max
                     else if load \<le> low policy then current - step_size policy
                     else current)
      in max (min_workers policy) (min (max_workers policy) desired))"

text \<open>\<open>avg\<close> is the load average the system reports, if it does.\<close>

definition system_load :: "rat \<Rightarrow> rat option \<Rightarrow> rat" where
  "system_load parallelism avg = (case avg of None \<Rightarrow> 0 | Some l \<Rightarrow> max (l / parallelism) 0)"

definition no_probe :: rat where
  "no_probe = 0"

section \<open>Workers\<close>

record worker_spawn =
  ws_argv :: "string list"
  ws_listener_fd :: nat
  ws_drain_timeout :: nat

definition make_spawn_argv :: "string list \<Rightarrow> nat \<Rightarrow> nat \<Rightarrow> worker_spawn" where
  "make_spawn_argv base_argv fd timeout = \<lparr>ws_argv = base_argv, ws_listener_fd = fd, ws_drain_timeout = timeout\<rparr>"

datatype signal = SIGTERM | SIGKILL

record worker_supervisor =
  sv_pids :: "nat option list"
  sv_waits :: "nat list"
  sv_stopping :: "nat set"
  sv_last_scale :: nat
  sv_deadline :: "nat option"
  sv_shutdown :: bool
  sv_spawned :: nat
  sv_signals :: "(nat \<times> signal) list"

type_synonym launcher = "nat \<Rightarrow> string list \<Rightarrow> string + nat"

definition spawn_worker :: "launcher \<Rightarrow> worker_spawn \<Rightarrow> worker_supervisor \<Rightarrow> (string + nat) \<times> worker_supervisor" where
  "spawn_worker launch sp s =
     (launch (sv_spawned s) (ws_argv sp @ [''--worker-fd'', nat_str (ws_listener_fd sp)]), s\<lparr>sv_spawned := sv_spawned s + 1\<rparr>)"

text \<open>The new process takes a slot and is watched.\<close>

definition occupy :: "nat \<Rightarrow> nat \<Rightarrow> worker_supervisor \<Rightarrow> worker_supervisor" where
  "occupy slot pid s = s\<lparr>sv_pids := (sv_pids s)[slot := Some pid], sv_waits := sv_waits s @ [slot]\<rparr>"

definition live_pids :: "nat option list \<Rightarrow> nat list" where
  "live_pids pids = List.map_filter id pids"

definition signal_children :: "worker_supervisor \<Rightarrow> worker_supervisor" where
  "signal_children s = s\<lparr>sv_signals := sv_signals s @ map (\<lambda>p. (p, SIGTERM)) (live_pids (sv_pids s))\<rparr>"

definition signal_kill :: "worker_supervisor \<Rightarrow> worker_supervisor" where
  "signal_kill s = s\<lparr>sv_signals := sv_signals s @ map (\<lambda>p. (p, SIGKILL)) (live_pids (sv_pids s))\<rparr>"

definition signal_one :: "nat option \<Rightarrow> worker_supervisor \<Rightarrow> worker_supervisor" where
  "signal_one pid s = (case pid of Some p \<Rightarrow> s\<lparr>sv_signals := sv_signals s @ [(p, SIGTERM)]\<rparr> | None \<Rightarrow> s)"

definition next_free_slot :: "nat option list \<Rightarrow> nat \<times> nat option list" where
  "next_free_slot pids =
     (case find_index (\<lambda>p. p = None) pids of Some slot \<Rightarrow> (slot, pids) | None \<Rightarrow> (length pids, pids @ [None]))"

definition is_active :: "worker_supervisor \<Rightarrow> nat \<Rightarrow> bool" where
  "is_active s slot \<longleftrightarrow> sv_pids s ! slot \<noteq> None \<and> slot \<notin> sv_stopping s"

definition active_workers :: "worker_supervisor \<Rightarrow> nat" where
  "active_workers s = length (filter (is_active s) [0..<length (sv_pids s)])"

section \<open>The worker_supervisor\<close>

datatype sv_result = Continue worker_supervisor | Stopped worker_supervisor | Failed string worker_supervisor

text \<open>The first workers.\<close>

fun start_workers :: "launcher \<Rightarrow> worker_spawn \<Rightarrow> nat \<Rightarrow> worker_supervisor \<Rightarrow> sv_result" where
  "start_workers launch sp 0 s = Continue s"
| "start_workers launch sp (Suc n) s =
     (case spawn_worker launch sp s of
        (Inl e, s) \<Rightarrow> Failed e s
      | (Inr pid, s) \<Rightarrow>
          start_workers launch sp n (s\<lparr>sv_pids := sv_pids s @ [Some pid], sv_waits := sv_waits s @ [length (sv_pids s)]\<rparr>))"

definition supervise_start :: "launcher \<Rightarrow> worker_spawn \<Rightarrow> scaling_policy \<Rightarrow> nat \<Rightarrow> nat \<Rightarrow> sv_result" where
  "supervise_start launch sp policy count now =
     (let s = \<lparr>sv_pids = [], sv_waits = [], sv_stopping = {},
               sv_last_scale = (if cooldown policy \<le> now then now - cooldown policy else now),
               sv_deadline = None, sv_shutdown = False, sv_spawned = 0, sv_signals = []\<rparr>
      in if count < 1 then Failed ''worker count must be >= 1'' s else start_workers launch sp count s)"

fun scale_up :: "launcher \<Rightarrow> worker_spawn \<Rightarrow> nat \<Rightarrow> worker_supervisor \<Rightarrow> worker_supervisor" where
  "scale_up launch sp 0 s = s"
| "scale_up launch sp (Suc to_add) s =
     (case next_free_slot (sv_pids s) of
        (slot, pids) \<Rightarrow>
          (case spawn_worker launch sp (s\<lparr>sv_pids := pids\<rparr>) of
             (Inl _, s) \<Rightarrow> s
           | (Inr pid, s) \<Rightarrow> scale_up launch sp to_add (occupy slot pid s)))"

text \<open>From the highest slot down; \<open>n\<close> slots are left.\<close>

fun scale_down :: "nat \<Rightarrow> nat \<Rightarrow> worker_supervisor \<Rightarrow> worker_supervisor" where
  "scale_down 0 to_remove s = s"
| "scale_down (Suc slot) to_remove s =
     (if to_remove = 0 then s
      else if is_active s slot
      then scale_down slot (to_remove - 1) (signal_one (sv_pids s ! slot) (s\<lparr>sv_stopping := insert slot (sv_stopping s)\<rparr>))
      else scale_down slot to_remove s)"

definition scale_tick :: "launcher \<Rightarrow> worker_spawn \<Rightarrow> scaling_policy \<Rightarrow> rat \<Rightarrow> nat \<Rightarrow> worker_supervisor \<Rightarrow> worker_supervisor" where
  "scale_tick launch sp policy load now s =
     (let active = active_workers s; desired = decide_scale active load policy
      in if desired \<noteq> active \<and> cooldown policy \<le> now - sv_last_scale s
         then (let s = s\<lparr>sv_last_scale := now\<rparr>
               in if active < desired then scale_up launch sp (min (desired - active) (step_size policy)) s
                  else scale_down (length (sv_pids s)) (min (active - desired) (step_size policy)) s)
         else s)"

text \<open>
  What \<open>select!\<close> may take: a watched process that ended, with the success of the wait; a watch that failed; no watched process; the
  cancelled token; a signal to the supervisor; a tick of the scaling timer with the load it samples.
\<close>

datatype sv_event = Exited nat bool | JoinFailed nat | NoChildren | ShutdownSeen | Terminate | ScaleTick rat

definition scaling_enabled :: "scaling_policy \<Rightarrow> bool" where
  "scaling_enabled policy \<longleftrightarrow> min_workers policy < max_workers policy"

definition enabled :: "scaling_policy \<Rightarrow> sv_event \<Rightarrow> worker_supervisor \<Rightarrow> bool" where
  "enabled policy ev s \<longleftrightarrow>
     (case ev of
        Exited slot _ \<Rightarrow> slot \<in> set (sv_waits s)
      | JoinFailed slot \<Rightarrow> slot \<in> set (sv_waits s)
      | NoChildren \<Rightarrow> sv_waits s = []
      | ShutdownSeen \<Rightarrow> sv_shutdown s
      | Terminate \<Rightarrow> True
      | ScaleTick _ \<Rightarrow> scaling_enabled policy \<and> \<not> sv_shutdown s)"

definition drain_check :: "nat \<Rightarrow> worker_supervisor \<Rightarrow> sv_result" where
  "drain_check now s =
     (case sv_deadline s of
        None \<Rightarrow> Continue s
      | Some deadline \<Rightarrow>
          if list_all (\<lambda>slot. \<not> is_active s slot) [0..<length (sv_pids s)] then Stopped s
          else if deadline \<le> now then Stopped ((signal_kill s)\<lparr>sv_waits := []\<rparr>)
          else Continue s)"

definition worker_exited :: "launcher \<Rightarrow> worker_spawn \<Rightarrow> nat \<Rightarrow> nat \<Rightarrow> bool \<Rightarrow> worker_supervisor \<Rightarrow> sv_result" where
  "worker_exited launch sp now slot wait_ok s =
     (let s = s\<lparr>sv_pids := (sv_pids s)[slot := None], sv_waits := remove1 slot (sv_waits s)\<rparr>
      in if slot \<in> sv_stopping s then Continue (s\<lparr>sv_stopping := sv_stopping s - {slot}\<rparr>)
         else if wait_ok \<and> \<not> sv_shutdown s
         then (case spawn_worker launch sp s of
                 (Inl e, s) \<Rightarrow> Failed e s
               | (Inr pid, s) \<Rightarrow> drain_check now (occupy slot pid s))
         else drain_check now s)"

definition supervise_step :: "launcher \<Rightarrow> worker_spawn \<Rightarrow> scaling_policy \<Rightarrow> nat \<Rightarrow> sv_event \<Rightarrow> worker_supervisor \<Rightarrow> sv_result" where
  "supervise_step launch sp policy now ev s =
     (case ev of
        Exited slot wait_ok \<Rightarrow> worker_exited launch sp now slot wait_ok s
      | JoinFailed slot \<Rightarrow> drain_check now (s\<lparr>sv_waits := remove1 slot (sv_waits s)\<rparr>)
      | NoChildren \<Rightarrow> if sv_shutdown s then Stopped s else drain_check now s
      | ShutdownSeen \<Rightarrow>
          drain_check now (if sv_deadline s = None then signal_children (s\<lparr>sv_deadline := Some (now + ws_drain_timeout sp)\<rparr>) else s)
      | Terminate \<Rightarrow> drain_check now (s\<lparr>sv_shutdown := True\<rparr>)
      | ScaleTick load \<Rightarrow> drain_check now (scale_tick launch sp policy load now s))"

text \<open>Iterations with their times; an event that cannot be taken stops the run with no result.\<close>

fun supervise_run :: "launcher \<Rightarrow> worker_spawn \<Rightarrow> scaling_policy \<Rightarrow> (nat \<times> sv_event) list \<Rightarrow> sv_result \<Rightarrow> sv_result option" where
  "supervise_run launch sp policy [] r = Some r"
| "supervise_run launch sp policy ((now, ev) # evs) r =
     (case r of
        Continue s \<Rightarrow>
          if enabled policy ev s then supervise_run launch sp policy evs (supervise_step launch sp policy now ev s) else None
      | _ \<Rightarrow> None)"

text \<open>Without a policy the supervisor uses the default policy and a probe that reports no load.\<close>

definition supervise ::
  "launcher \<Rightarrow> worker_spawn \<Rightarrow> scaling_policy option \<Rightarrow> nat \<Rightarrow> nat \<Rightarrow> (nat \<times> sv_event) list \<Rightarrow> sv_result option" where
  "supervise launch sp policy count now evs =
     (let pol = (case policy of Some p \<Rightarrow> p | None \<Rightarrow> default_policy)
      in supervise_run launch sp pol evs (supervise_start launch sp pol count now))"

section \<open>Invariants\<close>

definition live :: "worker_supervisor \<Rightarrow> nat \<Rightarrow> bool" where
  "live s slot \<longleftrightarrow> slot < length (sv_pids s) \<and> sv_pids s ! slot \<noteq> None"

text \<open>Every wait is for a live slot, and a slot that is scaled down has been sent its signal.\<close>

definition sv_ok :: "worker_supervisor \<Rightarrow> bool" where
  "sv_ok s \<longleftrightarrow> distinct (sv_waits s) \<and> (\<forall>slot \<in> set (sv_waits s). live s slot) \<and>
     (\<forall>slot \<in> sv_stopping s. live s slot \<and> (the (sv_pids s ! slot), SIGTERM) \<in> set (sv_signals s)) \<and>
     (sv_deadline s \<noteq> None \<longrightarrow> sv_shutdown s)"

text \<open>Every live slot is watched.\<close>

definition watched :: "worker_supervisor \<Rightarrow> bool" where
  "watched s \<longleftrightarrow> (\<forall>slot. live s slot \<longrightarrow> slot \<in> set (sv_waits s))"

definition actives :: "worker_supervisor \<Rightarrow> nat set" where
  "actives s = {slot. live s slot \<and> slot \<notin> sv_stopping s}"

lemma active_workers_card: "active_workers s = card (actives s)"
proof -
  have "{i. i < length [0..<length (sv_pids s)] \<and> is_active s ([0..<length (sv_pids s)] ! i)} = actives s"
    by (auto simp: actives_def live_def is_active_def)
  then show ?thesis unfolding active_workers_def length_filter_conv_card by simp
qed

lemma finite_actives [simp]: "finite (actives s)"
  by (rule finite_subset [of _ "{..<length (sv_pids s)}"]) (auto simp: actives_def live_def)

lemma live_pids_iff: "p \<in> set (live_pids pids) \<longleftrightarrow> Some p \<in> set pids"
  by (induction pids) (auto simp: live_pids_def map_filter_simps split: option.splits)

lemma next_free_slot_props:
  assumes "next_free_slot pids = (slot, pids')"
  shows "slot < length pids'" "pids' ! slot = None" "\<And>i. i < length pids' \<and> pids' ! i \<noteq> None \<longleftrightarrow> i < length pids \<and> pids ! i \<noteq> None"
    "\<And>i. i < length pids \<Longrightarrow> pids' ! i = pids ! i"
  using assms by (auto simp: next_free_slot_def nth_append dest: find_index_Some split: option.splits if_splits)

text \<open>A process in a free slot, and the end of a process.\<close>

lemma occupy_free:
  assumes "sv_ok s" and "slot < length (sv_pids s)" and "sv_pids s ! slot = None"
  shows "sv_ok (occupy slot pid s)" "watched s \<Longrightarrow> watched (occupy slot pid s)" "actives (occupy slot pid s) = insert slot (actives s)"
    "slot \<notin> actives s"
proof -
  have live: "live (occupy slot pid s) i \<longleftrightarrow> i = slot \<or> live s i" for i using assms(2) by (auto simp: live_def occupy_def nth_list_update)
  have free: "slot \<notin> set (sv_waits s)" "slot \<notin> sv_stopping s" using assms by (auto simp: sv_ok_def live_def)
  have "the (sv_pids (occupy slot pid s) ! i) = the (sv_pids s ! i)" if "i \<in> sv_stopping s" for i
    using that free by (metis (no_types, lifting) nth_list_update_neq occupy_def worker_supervisor.select_convs(1) worker_supervisor.simps worker_supervisor.surjective)
  then show "sv_ok (occupy slot pid s)"
    using assms(1) free live by (simp add: sv_ok_def occupy_def)
  show "watched s \<Longrightarrow> watched (occupy slot pid s)" using live by (auto simp: watched_def occupy_def)
  show "actives (occupy slot pid s) = insert slot (actives s)" using live free by (auto simp: actives_def occupy_def)
  show "slot \<notin> actives s" using assms(3) by (simp add: actives_def live_def)
qed

definition vacate :: "nat \<Rightarrow> worker_supervisor \<Rightarrow> worker_supervisor" where
  "vacate slot s = s\<lparr>sv_pids := (sv_pids s)[slot := None], sv_waits := remove1 slot (sv_waits s), sv_stopping := sv_stopping s - {slot}\<rparr>"

lemma vacate_watched:
  assumes "sv_ok s" and "slot \<in> set (sv_waits s)"
  shows "sv_ok (vacate slot s)" "watched s \<Longrightarrow> watched (vacate slot s)" "actives (vacate slot s) = actives s - {slot}"
    "slot < length (sv_pids (vacate slot s))" "sv_pids (vacate slot s) ! slot = None"
proof -
  have slot: "live s slot" using assms by (simp add: sv_ok_def)
  have live: "live (vacate slot s) i \<longleftrightarrow> i \<noteq> slot \<and> live s i" for i
    by (cases "i = slot") (auto simp: live_def vacate_def)
  show "sv_ok (vacate slot s)"
    using assms live by (auto simp: sv_ok_def vacate_def nth_list_update)
  show "watched s \<Longrightarrow> watched (vacate slot s)" using live by (auto simp: watched_def vacate_def)
  show "actives (vacate slot s) = actives s - {slot}" using live by (auto simp: actives_def vacate_def)
  show "slot < length (sv_pids (vacate slot s))" "sv_pids (vacate slot s) ! slot = None"
    using slot by (simp_all add: live_def vacate_def)
qed

text \<open>A change of the fleet that removes at most \<open>a\<close> and adds at most \<open>b\<close> active workers.\<close>

definition fleet_change :: "nat \<Rightarrow> nat \<Rightarrow> worker_supervisor \<Rightarrow> worker_supervisor \<Rightarrow> bool" where
  "fleet_change a b s s' \<longleftrightarrow> sv_ok s' \<and> (watched s \<longrightarrow> watched s') \<and> sv_deadline s' = sv_deadline s \<and> sv_shutdown s' = sv_shutdown s
     \<and> card (actives s) \<le> card (actives s') + a \<and> card (actives s') \<le> card (actives s) + b"

lemma fleet_change_refl: "sv_ok s \<Longrightarrow> fleet_change a b s s"
  by (simp add: fleet_change_def)

lemma fleet_change_trans: "fleet_change a b s s1 \<Longrightarrow> fleet_change c d s1 s2 \<Longrightarrow> fleet_change (a + c) (b + d) s s2"
  by (simp add: fleet_change_def)

lemma sv_ok_frame [simp]:
  "sv_ok (s\<lparr>sv_last_scale := n\<rparr>) = sv_ok s" "sv_ok (s\<lparr>sv_spawned := n\<rparr>) = sv_ok s"
  "watched (s\<lparr>sv_last_scale := n\<rparr>) = watched s" "watched (s\<lparr>sv_spawned := n\<rparr>) = watched s"
  "actives (s\<lparr>sv_last_scale := n\<rparr>) = actives s" "actives (s\<lparr>sv_spawned := n\<rparr>) = actives s"
  by (simp_all add: sv_ok_def watched_def actives_def live_def)

lemma extend_slots:
  assumes "next_free_slot (sv_pids s) = (slot, pids)"
  shows "sv_ok (s\<lparr>sv_pids := pids\<rparr>) = sv_ok s" "watched (s\<lparr>sv_pids := pids\<rparr>) = watched s" "actives (s\<lparr>sv_pids := pids\<rparr>) = actives s"
proof -
  note free = next_free_slot_props [OF assms]
  have live: "live (s\<lparr>sv_pids := pids\<rparr>) = live s" 
  proof
    fix i
    have "live (s\<lparr>sv_pids := pids\<rparr>) i \<longleftrightarrow> i < length pids \<and> pids ! i \<noteq> None" by (simp add: live_def)
    then show "live (s\<lparr>sv_pids := pids\<rparr>) i = live s i" unfolding live_def using free(3) [of i] by blast
  qed
  have "live s slot \<Longrightarrow> pids ! slot = sv_pids s ! slot" for slot using free(4) by (simp add: live_def)
  then show "sv_ok (s\<lparr>sv_pids := pids\<rparr>) = sv_ok s" unfolding sv_ok_def live by (simp cong: conj_cong)
  show "watched (s\<lparr>sv_pids := pids\<rparr>) = watched s" "actives (s\<lparr>sv_pids := pids\<rparr>) = actives s"
    using live by (simp_all add: watched_def actives_def)
qed

lemma scale_up_change: "sv_ok s \<Longrightarrow> fleet_change 0 n s (scale_up launch sp n s)"
proof (induction n arbitrary: s)
  case (Suc n)
  obtain slot pids where slot: "next_free_slot (sv_pids s) = (slot, pids)" by fastforce
  let ?s = "s\<lparr>sv_pids := pids\<rparr>"
  obtain r s1 where r: "spawn_worker launch sp ?s = (r, s1)" by fastforce
  then have s1: "s1 = ?s\<lparr>sv_spawned := sv_spawned s + 1\<rparr>" by (auto simp: spawn_worker_def)
  note ext = extend_slots [OF slot]
  have ok: "sv_ok s1" and free: "slot < length (sv_pids s1)" "sv_pids s1 ! slot = None"
    using Suc.prems s1 ext next_free_slot_props [OF slot] by simp_all
  show ?case
  proof (cases r)
    case (Inl e)
    then show ?thesis using slot r s1 ext Suc.prems by (simp add: fleet_change_def)
  next
    case (Inr pid)
    note occ = occupy_free(1-3) [OF ok free, of pid] occupy_free(4) [OF ok free]
    have "fleet_change 0 1 s (occupy slot pid s1)"
      using occ s1 ext by (simp add: fleet_change_def occupy_def)
    from fleet_change_trans [OF this Suc.IH [OF occ(1)]] show ?thesis using slot r Inr by simp
  qed
qed (simp add: fleet_change_refl)

lemma stop_one_change:
  assumes "sv_ok s" and "slot < length (sv_pids s)" and "is_active s slot"
  shows "fleet_change 1 0 s (signal_one (sv_pids s ! slot) (s\<lparr>sv_stopping := insert slot (sv_stopping s)\<rparr>))" (is "fleet_change 1 0 s ?s")
proof -
  obtain p where p: "sv_pids s ! slot = Some p" "slot \<notin> sv_stopping s" using assms(3) by (auto simp: is_active_def)
  have live: "live ?s = live s" and slot: "live s slot" using p assms(2) by (auto simp: live_def signal_one_def)
  have "sv_ok ?s" "watched s \<longrightarrow> watched ?s" "actives ?s = actives s - {slot}"
    using assms(1) live slot p by (auto simp: sv_ok_def watched_def actives_def signal_one_def)
  moreover have "slot \<in> actives s" using slot p by (simp add: actives_def)
  ultimately show ?thesis using p by (simp add: fleet_change_def signal_one_def card_Diff_singleton)
qed

lemma signal_one_pids [simp]: "sv_pids (signal_one p s) = sv_pids s"
  by (simp add: signal_one_def split: option.split)

lemma scale_down_change: "sv_ok s \<Longrightarrow> n \<le> length (sv_pids s) \<Longrightarrow> fleet_change k 0 s (scale_down n k s)"
proof (induction n arbitrary: k s)
  case (Suc slot)
  show ?case
  proof (cases "k \<noteq> 0 \<and> is_active s slot")
    case True
    let ?s = "signal_one (sv_pids s ! slot) (s\<lparr>sv_stopping := insert slot (sv_stopping s)\<rparr>)"
    have one: "fleet_change 1 0 s ?s" using stop_one_change Suc.prems True by simp
    then have "fleet_change (k - 1) 0 ?s (scale_down slot (k - 1) ?s)" using Suc.prems by (intro Suc.IH) (simp_all add: fleet_change_def)
    from fleet_change_trans [OF one this] show ?thesis using True by simp
  next
    case False
    then show ?thesis using Suc.prems by (auto simp: fleet_change_refl intro: Suc.IH)
  qed
qed (simp add: fleet_change_refl)

text \<open>A tick of the timer moves the number of active workers towards the desired number, never past it.\<close>

lemma decide_scale_bounds:
  "min_workers p \<le> max_workers p \<Longrightarrow> min_workers p \<le> decide_scale c l p \<and> decide_scale c l p \<le> max_workers p"
  by (auto simp: decide_scale_def Let_def)

lemma scale_tick_change:
  assumes "sv_ok s" and "s' = scale_tick launch sp policy load now s"
  shows "fleet_change (card (actives s) - decide_scale (card (actives s)) load policy) (decide_scale (card (actives s)) load policy - card (actives s)) s s'"
proof -
  let ?a = "card (actives s)" and ?d = "decide_scale (card (actives s)) load policy" and ?s = "s\<lparr>sv_last_scale := now\<rparr>"
  have ok: "sv_ok ?s" using assms(1) by simp
  have mono: "fleet_change a b s s'" if "fleet_change a' b' ?s s'" "a' \<le> a" "b' \<le> b" for a b a' b' s'
    using that by (auto simp: fleet_change_def)
  show ?thesis
    using mono [OF scale_up_change [OF ok]] mono [OF scale_down_change [OF ok order.refl]] fleet_change_refl [OF assms(1)] assms(2)
    by (auto simp: scale_tick_def Let_def active_workers_card)
qed

lemma drain_check_cases:
  assumes "drain_check now s = r"
  shows "r = Continue s \<or> (r = Stopped s \<and> actives s = {}) \<or> (r = Stopped ((signal_kill s)\<lparr>sv_waits := []\<rparr>))"
  using assms by (auto simp: drain_check_def list_all_iff actives_def live_def is_active_def split: option.splits if_splits)

section \<open>Iterations\<close>

text \<open>An event after which a dead worker is replaced.\<close>

fun clean :: "sv_event \<Rightarrow> bool" where
  "clean (Exited _ wait_ok) = wait_ok"
| "clean (JoinFailed _) = False"
| "clean _ = True"

text \<open>
  What an iteration does to the fleet: it keeps the invariants, the number of active workers grows at most to the maximum,
  and while no shutdown is requested it falls at most to the minimum.
\<close>

definition iteration :: "scaling_policy \<Rightarrow> sv_event \<Rightarrow> worker_supervisor \<Rightarrow> worker_supervisor \<Rightarrow> bool" where
  "iteration policy ev s s1 \<longleftrightarrow> sv_ok s1 \<and> (watched s \<and> (\<forall>slot. ev \<noteq> JoinFailed slot) \<longrightarrow> watched s1) \<and> (sv_shutdown s \<longrightarrow> sv_shutdown s1)
     \<and> card (actives s1) \<le> max (card (actives s)) (max_workers policy)
     \<and> (clean ev \<and> \<not> sv_shutdown s \<longrightarrow> min (card (actives s)) (min_workers policy) \<le> card (actives s1))"

lemma iteration_refl: "sv_ok s \<Longrightarrow> iteration policy ev s s"
  by (simp add: iteration_def)

lemma fleet_change_iteration:
  assumes "fleet_change (card (actives s) - d) (d - card (actives s)) s s1" and "min_workers policy \<le> d" and "d \<le> max_workers policy"
  shows "iteration policy (ScaleTick load) s s1"
  using assms by (auto simp: iteration_def fleet_change_def)

lemma worker_exited_iteration:
  assumes "sv_ok s" and "slot \<in> set (sv_waits s)" and "worker_exited launch sp now slot wait_ok s = r"
  shows "\<exists>s1. iteration policy (Exited slot wait_ok) s s1 \<and> (r = Continue s1 \<or> r = drain_check now s1 \<or> (\<exists>e. r = Failed e s1))
    \<or> (\<exists>e. r = Failed e s1)"
proof -
  note vac = vacate_watched [OF assms(1,2)]
  let ?v = "(vacate slot s)\<lparr>sv_spawned := sv_spawned s + 1\<rparr>"
  have live: "live s slot" using assms(1,2) by (simp add: sv_ok_def)
  have mem: "slot \<notin> sv_stopping s \<Longrightarrow> slot \<in> actives s" "slot \<in> sv_stopping s \<Longrightarrow> slot \<notin> actives s" using live by (auto simp: actives_def)
  have eq: "sv_stopping s - {slot} = sv_stopping s" if "slot \<notin> sv_stopping s" using that by simp
  consider (stopping) "slot \<in> sv_stopping s" "r = Continue (vacate slot s)"
    | (failed) e s1 where "r = Failed e s1"
    | (respawned) pid where "slot \<notin> sv_stopping s" "r = drain_check now (occupy slot pid ?v)"
    | (gone) "slot \<notin> sv_stopping s" "\<not> (wait_ok \<and> \<not> sv_shutdown s)" "r = drain_check now (vacate slot s)"
    using assms(3) eq by (auto simp: worker_exited_def Let_def spawn_worker_def vacate_def split: if_splits sum.splits)
  then show ?thesis
  proof cases
    case stopping
    then have "iteration policy (Exited slot wait_ok) s (vacate slot s)"
      using vac mem by (auto simp: iteration_def vacate_def)
    then show ?thesis using stopping by blast
  next
    case failed
    then show ?thesis by blast
  next
    case respawned
    have v: "sv_ok ?v" "slot < length (sv_pids ?v)" "sv_pids ?v ! slot = None" using vac by simp_all
    note occ = occupy_free(1-3) [OF v, of pid]
    have "actives (occupy slot pid ?v) = actives s" using occ(3) vac(3) mem respawned by auto
    then have "iteration policy (Exited slot wait_ok) s (occupy slot pid ?v)"
      using occ vac by (auto simp: iteration_def occupy_def vacate_def)
    then show ?thesis using respawned by blast
  next
    case gone
    have "card (actives (vacate slot s)) \<le> card (actives s)" unfolding vac(3) by (rule card_mono) auto
    moreover have "sv_shutdown (vacate slot s) = sv_shutdown s" by (simp add: vacate_def)
    moreover have "\<not> (clean (Exited slot wait_ok) \<and> \<not> sv_shutdown s)" using gone by simp
    ultimately have "iteration policy (Exited slot wait_ok) s (vacate slot s)"
      using vac(1,2) unfolding iteration_def by (simp only: le_max_iff_disj) blast
    then show ?thesis using gone by blast
  qed
qed

lemma step_iteration:
  assumes "sv_ok s" and "enabled policy ev s" and "supervise_step launch sp policy now ev s = r"
  shows "\<exists>s1. (\<exists>e. r = Failed e s1) \<or> iteration policy ev s s1 \<and> (r = Continue s1 \<or> r = drain_check now s1 \<or> r = Stopped s1 \<and> sv_waits s1 = [])"
proof (cases ev)
  case (Exited slot wait_ok)
  then show ?thesis
    using worker_exited_iteration [OF assms(1), of slot launch sp now wait_ok r policy] assms(2,3) by (auto simp: enabled_def supervise_step_def)
next
  case (JoinFailed slot)
  let ?s = "s\<lparr>sv_waits := remove1 slot (sv_waits s)\<rparr>"
  have live: "live ?s = live s" by (simp add: fun_eq_iff live_def)
  have "sv_ok ?s" using assms(1) live by (auto simp: sv_ok_def dest: notin_set_remove1)
  moreover have "actives ?s = actives s" using live by (simp add: actives_def)
  ultimately have "iteration policy ev s ?s" using JoinFailed by (simp add: iteration_def)
  then show ?thesis using assms(3) JoinFailed by (auto simp: supervise_step_def)
next
  case NoChildren
  then show ?thesis using assms iteration_refl [OF assms(1)] by (auto simp: supervise_step_def enabled_def split: if_splits)
next
  case ShutdownSeen
  let ?s = "if sv_deadline s = None then signal_children (s\<lparr>sv_deadline := Some (now + ws_drain_timeout sp)\<rparr>) else s"
  have live: "live ?s = live s" by (simp add: fun_eq_iff live_def signal_children_def)
  have "sv_ok ?s"
    using assms(1,2) ShutdownSeen live by (simp add: sv_ok_def signal_children_def enabled_def)
  moreover have "watched ?s = watched s" "actives ?s = actives s" "sv_shutdown ?s = sv_shutdown s"
    using live by (simp_all add: watched_def actives_def signal_children_def)
  ultimately have "iteration policy ev s ?s" by (simp add: iteration_def)
  then show ?thesis using assms(3) ShutdownSeen by (auto simp: supervise_step_def)
next
  case Terminate
  let ?s = "s\<lparr>sv_shutdown := True\<rparr>"
  have live: "live ?s = live s" by (simp add: fun_eq_iff live_def)
  have "sv_ok ?s" using assms(1) live by (simp add: sv_ok_def)
  moreover have "watched ?s = watched s" "actives ?s = actives s" using live by (simp_all add: watched_def actives_def)
  ultimately have "iteration policy ev s ?s" by (simp add: iteration_def)
  then show ?thesis using assms(3) Terminate by (auto simp: supervise_step_def)
next
  case (ScaleTick load)
  have "iteration policy ev s (scale_tick launch sp policy load now s)"
    using fleet_change_iteration [OF scale_tick_change [OF assms(1) refl]] decide_scale_bounds [of policy] assms(2) ScaleTick
    by (auto simp: enabled_def scaling_enabled_def)
  then show ?thesis using assms(3) ScaleTick by (auto simp: supervise_step_def)
qed

section \<open>Runs\<close>

text \<open>The state a result carries.\<close>

fun state_of :: "sv_result \<Rightarrow> worker_supervisor" where
  "state_of (Continue s) = s" | "state_of (Stopped s) = s" | "state_of (Failed _ s) = s"

text \<open>Every worker that may still run has been signalled.\<close>

definition all_signalled :: "worker_supervisor \<Rightarrow> bool" where
  "all_signalled s \<longleftrightarrow> (\<forall>p \<in> set (live_pids (sv_pids s)). \<exists>sig. (p, sig) \<in> set (sv_signals s))"

lemma live_pid_slot:
  assumes "p \<in> set (live_pids (sv_pids s))"
  obtains i where "live s i" "sv_pids s ! i = Some p"
  using assms unfolding live_pids_iff by (auto simp: in_set_conv_nth live_def)

lemma unwatched_none_live: "watched s \<Longrightarrow> sv_waits s = [] \<Longrightarrow> all_signalled s"
  unfolding all_signalled_def by (auto simp: watched_def elim: live_pid_slot)

lemma stopping_signalled:
  assumes "sv_ok s" and "actives s = {}"
  shows "all_signalled s"
  unfolding all_signalled_def
proof
  fix p
  assume "p \<in> set (live_pids (sv_pids s))"
  then obtain i where i: "live s i" "sv_pids s ! i = Some p" by (rule live_pid_slot)
  then have "i \<in> sv_stopping s" using assms(2) by (auto simp: actives_def)
  then have "(the (sv_pids s ! i), SIGTERM) \<in> set (sv_signals s)" using assms(1) by (simp add: sv_ok_def)
  then show "\<exists>sig. (p, sig) \<in> set (sv_signals s)" using i by auto
qed

lemma killed_signalled: "all_signalled ((signal_kill s)\<lparr>sv_waits := []\<rparr>)"
  by (auto simp: all_signalled_def signal_kill_def)

lemma run_bounds:
  assumes "supervise_run launch sp policy evs (Continue s0) = Some (Continue s)" and "sv_ok s0"
  shows "sv_ok s \<and> (sv_shutdown s0 \<longrightarrow> sv_shutdown s) \<and> card (actives s) \<le> max (card (actives s0)) (max_workers policy) \<and>
    (list_all (clean \<circ> snd) evs \<and> \<not> sv_shutdown s \<longrightarrow> min (card (actives s0)) (min_workers policy) \<le> card (actives s))"
  using assms
proof (induction evs arbitrary: s0)
  case (Cons e evs)
  obtain now ev where e: "e = (now, ev)" by fastforce
  let ?r = "supervise_step launch sp policy now ev s0"
  have en: "enabled policy ev s0" and run: "supervise_run launch sp policy evs ?r = Some (Continue s)"
    using Cons.prems(1) by (auto simp: e split: if_splits)
  obtain s1 where s1: "?r = Continue s1"
    using run by (cases ?r; cases evs) auto
  have it: "iteration policy ev s0 s1"
    using step_iteration [OF Cons.prems(2) en refl, of launch sp now] s1 drain_check_cases [of now _ "Continue s1"] by fastforce
  show ?case using Cons.IH [OF run [unfolded s1]] it by (auto simp: iteration_def e)
qed simp

lemma run_stopped:
  assumes "supervise_run launch sp policy evs (Continue s0) = Some (Stopped s)" and "sv_ok s0" and "watched s0"
    and "list_all (\<lambda>(_, ev). \<forall>slot. ev \<noteq> JoinFailed slot) evs"
  shows "all_signalled s"
  using assms
proof (induction evs arbitrary: s0)
  case (Cons e evs)
  obtain now ev where e: "e = (now, ev)" by fastforce
  let ?r = "supervise_step launch sp policy now ev s0"
  have en: "enabled policy ev s0" and run: "supervise_run launch sp policy evs ?r = Some (Stopped s)"
    using Cons.prems(1) by (auto simp: e split: if_splits)
  obtain s1 where s1: "(\<exists>e. ?r = Failed e s1) \<or> iteration policy ev s0 s1 \<and> (?r = Continue s1 \<or> ?r = drain_check now s1 \<or> ?r = Stopped s1 \<and> sv_waits s1 = [])"
    using step_iteration [OF Cons.prems(2) en refl, of launch sp now] by blast
  have nofail: "?r \<noteq> Failed e s1" for e using run by (cases evs) auto
  then have it: "iteration policy ev s0 s1" using s1 by blast
  then have ok: "sv_ok s1" "watched s1" using Cons.prems(3,4) by (auto simp: iteration_def e)
  consider "?r = Continue s1" | "?r = Stopped s1" "sv_waits s1 = [] \<or> actives s1 = {}" | "?r = Stopped ((signal_kill s1)\<lparr>sv_waits := []\<rparr>)"
    using s1 nofail drain_check_cases [of now s1 ?r] by metis
  then show ?case
  proof cases
    case 1
    then show ?thesis using Cons.IH ok run Cons.prems(4) by (simp add: e)
  next
    case 2
    then show ?thesis using run ok unwatched_none_live stopping_signalled by (cases evs) auto
  next
    case 3
    then show ?thesis using run killed_signalled by (cases evs) auto
  qed
qed simp

lemma start_workers_ok:
  assumes "start_workers launch sp n s0 = Continue s" and "sv_ok s0" and "watched s0" and "sv_stopping s0 = {}" and "None \<notin> set (sv_pids s0)"
  shows "sv_ok s \<and> watched s \<and> card (actives s) = card (actives s0) + n"
  using assms
proof (induction n arbitrary: s0)
  case (Suc n)
  obtain pid s1 where r: "spawn_worker launch sp s0 = (Inr pid, s1)" using Suc.prems(1) by (auto split: prod.splits sum.splits)
  then have s1: "s1 = s0\<lparr>sv_spawned := sv_spawned s0 + 1\<rparr>" by (auto simp: spawn_worker_def)
  let ?s = "s1\<lparr>sv_pids := sv_pids s1 @ [Some pid], sv_waits := sv_waits s1 @ [length (sv_pids s1)]\<rparr>"
  have live: "live ?s i \<longleftrightarrow> i = length (sv_pids s0) \<or> live s0 i" for i
    by (auto simp: live_def s1 nth_append less_Suc_eq)
  have fresh: "length (sv_pids s0) \<notin> set (sv_waits s0)" "\<not> live s0 (length (sv_pids s0))" using Suc.prems(2) by (auto simp: sv_ok_def live_def)
  have "sv_ok ?s" using Suc.prems(2,4) fresh live by (auto simp: sv_ok_def s1)
  moreover have "watched ?s" using Suc.prems(3) live by (auto simp: watched_def s1)
  moreover have "actives ?s = insert (length (sv_pids s0)) (actives s0)" using Suc.prems(4) live by (auto simp: actives_def s1)
  moreover have "length (sv_pids s0) \<notin> actives s0" using fresh by (simp add: actives_def)
  ultimately show ?case using Suc.IH [of ?s] Suc.prems r s1 by simp
qed simp

lemma start_workers_not_stopped: "start_workers launch sp n s \<noteq> Stopped s'"
  by (induction n arbitrary: s) (auto simp: spawn_worker_def split: sum.splits)

lemma supervise_start_not_stopped: "supervise_start launch sp policy count now \<noteq> Stopped s"
  using start_workers_not_stopped by (simp add: supervise_start_def Let_def)

lemma supervise_start_ok:
  assumes "supervise_start launch sp policy count now = Continue s"
  shows "sv_ok s \<and> watched s \<and> card (actives s) = count"
proof -
  let ?s = "\<lparr>sv_pids = [], sv_waits = [], sv_stopping = {}, sv_last_scale = (if cooldown policy \<le> now then now - cooldown policy else now),
    sv_deadline = None, sv_shutdown = False, sv_spawned = 0, sv_signals = []\<rparr>"
  have "start_workers launch sp count ?s = Continue s" using assms by (auto simp: supervise_start_def Let_def split: if_splits)
  moreover have "sv_ok ?s" "watched ?s" "actives ?s = {}" by (simp_all add: sv_ok_def watched_def live_def actives_def)
  ultimately show ?thesis using start_workers_ok by fastforce
qed

section \<open>Properties\<close>

text \<open>C37: The supervisor keeps the fleet between its bounds: the number of workers that are not being stopped never exceeds the larger of the initial
  count and the maximum of the policy, and as long as no shutdown is requested and no wait fails it never falls below the smaller of the
  initial count and the minimum, whatever workers die and whatever load is sampled.\<close>

theorem fleet_size_bounded:
  assumes "supervise launch sp (Some policy) count now evs = Some (Continue s)"
  shows "active_workers s \<le> max count (max_workers policy)
    \<and> (list_all (clean \<circ> snd) evs \<and> \<not> sv_shutdown s \<longrightarrow> min count (min_workers policy) \<le> active_workers s)"
proof -
  have run: "supervise_run launch sp policy evs (supervise_start launch sp policy count now) = Some (Continue s)"
    using assms by (simp add: supervise_def)
  then obtain s0 where s0: "supervise_start launch sp policy count now = Continue s0"
    by (cases "supervise_start launch sp policy count now"; cases evs) auto
  note run_bounds [OF run [unfolded s0]] supervise_start_ok [OF s0]
  then show ?thesis by (simp add: active_workers_card)
qed


section \<open>Defects\<close>

lemma scale_down_exact:
  "sv_ok s \<Longrightarrow> n \<le> length (sv_pids s) \<Longrightarrow> k \<le> card (actives s \<inter> {..<n}) \<Longrightarrow> card (actives (scale_down n k s)) = card (actives s) - k"
proof (induction n arbitrary: k s)
  case (Suc slot)
  have split: "actives s \<inter> {..<Suc slot} = (actives s \<inter> {..<slot}) \<union> (actives s \<inter> {slot})" by auto
  have mem: "slot \<in> actives s \<longleftrightarrow> is_active s slot" using Suc.prems(2) by (auto simp: actives_def live_def is_active_def)
  show ?case
  proof (cases "k \<noteq> 0 \<and> is_active s slot")
    case True
    let ?s = "signal_one (sv_pids s ! slot) (s\<lparr>sv_stopping := insert slot (sv_stopping s)\<rparr>)"
    have one: "fleet_change 1 0 s ?s" using stop_one_change Suc.prems True by simp
    have live: "live ?s = live s" by (simp add: fun_eq_iff live_def)
    have act: "actives ?s = actives s - {slot}"
      using live by (auto simp: actives_def signal_one_def split: option.splits)
    have "card (actives s \<inter> {..<Suc slot}) = Suc (card (actives s \<inter> {..<slot}))" using split True mem by simp
    moreover have "actives ?s \<inter> {..<slot} = actives s \<inter> {..<slot}" using act by auto
    ultimately have "card (actives (scale_down slot (k - 1) ?s)) = card (actives ?s) - (k - 1)"
      using Suc.prems one by (intro Suc.IH) (simp_all add: fleet_change_def)
    moreover have "card (actives ?s) = card (actives s) - 1" using act True mem by simp
    ultimately show ?thesis using True by simp
  next
    case False
    then show ?thesis
    proof (cases "k = 0")
      case True
      then show ?thesis by simp
    next
      case k: False
      with False mem have no: "\<not> is_active s slot" "slot \<notin> actives s" by simp_all
      then have "actives s \<inter> {..<Suc slot} = actives s \<inter> {..<slot}" using split by simp
      then show ?thesis using Suc.IH [of s k] Suc.prems no k by simp
    qed
  qed
qed simp

text \<open>
  Without a scaling policy the fleet is meant to stay at its size. The policy that takes the place of the missing one has
  different bounds, and the missing load is below its threshold, so every tick after the cool-down stops a worker.
\<close>

lemma fixed_fleet_shrinks:
  assumes "supervise launch sp None count now [] = Some (Continue s0)" and "1 < count" and "now + cooldown default_policy \<le> now'"
  shows "\<exists>s. supervise launch sp None count now [(now', ScaleTick no_probe)] = Some (Continue s) \<and> active_workers s = count - 1"
proof -
  have start: "supervise_start launch sp default_policy count now = Continue s0" using assms(1) by (simp add: supervise_def)
  note ok = supervise_start_ok [OF start]
  have phase: "sv_deadline s0 = None \<and> \<not> sv_shutdown s0 \<and> sv_last_scale s0 \<le> now"
  proof -
    have "start_workers launch sp n s = Continue s' \<Longrightarrow> sv_deadline s' = sv_deadline s \<and> sv_shutdown s' = sv_shutdown s \<and> sv_last_scale s' = sv_last_scale s"
      for n s s' by (induction n arbitrary: s) (auto simp: spawn_worker_def split: sum.splits)
    from this [of count _ s0] show ?thesis using start assms(2) by (auto simp: supervise_start_def Let_def split: if_splits)
  qed
  let ?d = "decide_scale count no_probe default_policy"
  have d: "?d < count" "min (count - ?d) (step_size default_policy) = 1"
    using assms(2) by (auto simp: decide_scale_def no_probe_def default_policy_def Let_def)
  let ?s = "s0\<lparr>sv_last_scale := now'\<rparr>"
  let ?t = "scale_down (length (sv_pids s0)) 1 ?s"
  have tick: "scale_tick launch sp default_policy no_probe now' s0 = ?t"
  proof -
    have "cooldown default_policy \<le> now' - sv_last_scale s0" using phase assms(3) by linarith
    then show ?thesis using ok d by (simp add: scale_tick_def active_workers_card Let_def)
  qed
  have "actives ?s \<inter> {..<length (sv_pids s0)} = actives s0" by (auto simp: actives_def live_def)
  then have "card (actives ?t) = count - 1"
    using scale_down_exact [of ?s "length (sv_pids s0)" 1] ok assms(2) by simp
  moreover have "sv_deadline ?t = None"
    using scale_down_change [of ?s "length (sv_pids s0)" 1] ok phase by (simp add: fleet_change_def)
  moreover have "enabled default_policy (ScaleTick no_probe) s0" using phase by (simp add: enabled_def scaling_enabled_def default_policy_def)
  ultimately show ?thesis
    using start tick by (simp add: supervise_def supervise_step_def drain_check_def active_workers_card)
qed

text \<open>A worker that cannot be replaced ends the supervisor, which leaves the other workers without a signal.\<close>

lemma failed_restart_abandons_fleet:
  assumes "slot \<notin> sv_stopping s" and "\<not> sv_shutdown s" and "launch (sv_spawned s) (ws_argv sp @ [''--worker-fd'', nat_str (ws_listener_fd sp)]) = Inl e"
  shows "\<exists>s'. supervise_step launch sp policy now (Exited slot True) s = Failed e s' \<and> sv_signals s' = sv_signals s
    \<and> sv_pids s' = (sv_pids s)[slot := None]"
  using assms by (simp add: supervise_step_def worker_exited_def spawn_worker_def Let_def)

section \<open>Witnesses\<close>

definition example_launch :: launcher where
  "example_launch i _ = Inr (100 + i)"

definition example_spawn :: worker_spawn where
  "example_spawn = make_spawn_argv [''serve''] 3 5000"

lemmas supervisor_eval =
  supervise_def supervise_start_def spawn_worker_def example_launch_def supervise_step_def worker_exited_def drain_check_def occupy_def
  enabled_def signal_children_def signal_kill_def live_pids_def is_active_def map_filter_simps numeral_2_eq_2 upt_rec

theorem fleet_size_bounded_witness:
  "\<exists>s. supervise example_launch example_spawn (Some default_policy) 2 0 [(10, Exited 1 True)] = Some (Continue s) \<and> 1 \<le> active_workers s
    \<and> active_workers s \<le> 4"
proof -
  obtain s where s: "supervise example_launch example_spawn (Some default_policy) 2 0 [(10, Exited 1 True)] = Some (Continue s)" "\<not> sv_shutdown s"
    by (simp add: supervisor_eval)
  from fleet_size_bounded [OF s(1)] s show ?thesis by (auto simp: default_policy_def)
qed


end
