(* ===== verification/Background.thy ===== *)
theory Background
  imports Prelude
begin

text \<open>
  Work in the background of the Python crate: the task runner of \<^verbatim>\<open>crates/justapi-py/src/background.rs\<close>, the job scheduler of
  \<^verbatim>\<open>src/scheduler.rs\<close> on top of it, and the dispatch of \<^verbatim>\<open>src/gil_pool.rs\<close>.

  \<^item> A task is any value; what calling it does is the parameter \<open>call\<close>. The next time of a cron expression after a time is the
    parameter \<open>after\<close>. Times are milliseconds, kept in 64 bits.
  \<^item> Submitting threads and workers are lists of thread states that take steps in any order. The queue's own counter is
    changed under the lock of the queue, so it is the length of the queue. The statistics are 64-bit counters that wrap around.

  The lemmas show how far the queue can grow, that the statistics add up, that interval jobs fire exactly when the interval has passed
  since they last fired, and that jobs are handed to the workers of the calling process in turn.
\<close>

section \<open>The task runner\<close>

datatype call_result = Returned | Coroutine bool | Raised

record bg_stats =
  st_submitted :: u64
  st_active :: u64
  st_completed :: u64
  st_failed :: u64
  st_dropped :: u64
  st_asyncs :: u64

definition stats_zero :: bg_stats where
  "stats_zero = \<lparr>st_submitted = 0, st_active = 0, st_completed = 0, st_failed = 0, st_dropped = 0, st_asyncs = 0\<rparr>"

text \<open>
  A submitting thread between the atomic steps of \<open>enqueue\<close> for the first of its tasks: before the check of the size, before the push,
  before counting the submission, before counting the activity. A worker waits for a task, calls it, counts a coroutine with the
  success of running it, counts the result, counts the end, or has left.
\<close>

datatype 't submitter = Check "'t list" | Push 't "'t list" | CountSubmitted "'t list" | CountActive "'t list"

datatype 't bg_worker = Waiting | Calling 't | CountAsync bool | CountResult bool | CountDone | Left

record 't runner =
  ru_queue :: "'t list"
  ru_stats :: bg_stats
  ru_shutdown :: bool
  ru_max_total :: nat
  ru_submitters :: "'t submitter list"
  ru_workers :: "'t bg_worker list"

definition worker_count :: "bool \<Rightarrow> nat \<Rightarrow> nat" where
  "worker_count gil_enabled n = (if gil_enabled then min (n + 4) 32 else min (n * 2) 256)"

text \<open>\<open>threads\<close> is the number of threads that submit tasks; \<open>env\<close> the limit from the environment, if it is a number.\<close>

definition runner_new :: "nat option \<Rightarrow> bool \<Rightarrow> nat \<Rightarrow> nat \<Rightarrow> 't runner" where
  "runner_new env gil_enabled parallelism threads =
     \<lparr>ru_queue = [], ru_stats = stats_zero, ru_shutdown = False, ru_max_total = (case env of Some n \<Rightarrow> n | None \<Rightarrow> 100000),
      ru_submitters = replicate threads (Check []), ru_workers = replicate (worker_count gil_enabled parallelism) Waiting\<rparr>"

text \<open>The atomic steps of \<open>enqueue\<close>, for all tasks of a batch in order.\<close>

definition submitter_step :: "'t submitter \<Rightarrow> 't runner \<Rightarrow> ('t submitter \<times> 't runner) option" where
  "submitter_step th r =
     (case th of
        Check [] \<Rightarrow> None
      | Check (t # ts) \<Rightarrow>
          if ru_max_total r \<le> length (ru_queue r)
          then Some (Check ts, r\<lparr>ru_stats := (ru_stats r)\<lparr>st_dropped := st_dropped (ru_stats r) + 1\<rparr>\<rparr>)
          else Some (Push t ts, r)
      | Push t ts \<Rightarrow> Some (CountSubmitted ts, r\<lparr>ru_queue := ru_queue r @ [t]\<rparr>)
      | CountSubmitted ts \<Rightarrow> Some (CountActive ts, r\<lparr>ru_stats := (ru_stats r)\<lparr>st_submitted := st_submitted (ru_stats r) + 1\<rparr>\<rparr>)
      | CountActive ts \<Rightarrow> Some (Check ts, r\<lparr>ru_stats := (ru_stats r)\<lparr>st_active := st_active (ru_stats r) + 1\<rparr>\<rparr>))"

text \<open>The atomic steps of \<open>worker\<close> and \<open>process\<close>.\<close>

definition worker_step :: "('t \<Rightarrow> call_result) \<Rightarrow> 't bg_worker \<Rightarrow> 't runner \<Rightarrow> ('t bg_worker \<times> 't runner) option" where
  "worker_step call w r =
     (case w of
        Waiting \<Rightarrow>
          (case ru_queue r of
             t # q \<Rightarrow> Some (Calling t, r\<lparr>ru_queue := q\<rparr>)
           | [] \<Rightarrow> if ru_shutdown r then Some (Left, r) else None)
      | Calling t \<Rightarrow>
          (case call t of
             Returned \<Rightarrow> Some (CountResult True, r)
           | Coroutine ok \<Rightarrow> Some (CountAsync ok, r)
           | Raised \<Rightarrow> Some (CountResult False, r))
      | CountAsync ok \<Rightarrow> Some (CountResult ok, r\<lparr>ru_stats := (ru_stats r)\<lparr>st_asyncs := st_asyncs (ru_stats r) + 1\<rparr>\<rparr>)
      | CountResult ok \<Rightarrow>
          Some (CountDone, r\<lparr>ru_stats :=
            (if ok then (ru_stats r)\<lparr>st_completed := st_completed (ru_stats r) + 1\<rparr>
             else (ru_stats r)\<lparr>st_failed := st_failed (ru_stats r) + 1\<rparr>)\<rparr>)
      | CountDone \<Rightarrow> Some (Waiting, r\<lparr>ru_stats := (ru_stats r)\<lparr>st_active := st_active (ru_stats r) - 1\<rparr>\<rparr>)
      | Left \<Rightarrow> None)"

text \<open>
  Events: a thread that has nothing to submit starts on a batch (\<open>BackgroundTasks::run\<close>, \<open>submit_py_task\<close>), a submitter or a worker
  takes a step, shutdown is requested.
\<close>

datatype 't bg_event = Submit nat "'t list" | SubmitterStep nat | WorkerStep nat | Shutdown

definition bg_step :: "('t \<Rightarrow> call_result) \<Rightarrow> 't bg_event \<Rightarrow> 't runner \<Rightarrow> 't runner option" where
  "bg_step call ev r =
     (case ev of
        Submit i ts \<Rightarrow>
          if i < length (ru_submitters r) \<and> ru_submitters r ! i = Check [] then Some (r\<lparr>ru_submitters := (ru_submitters r)[i := Check ts]\<rparr>) else None
      | SubmitterStep i \<Rightarrow>
          if i < length (ru_submitters r)
          then map_option (\<lambda>(th, r). r\<lparr>ru_submitters := (ru_submitters r)[i := th]\<rparr>) (submitter_step (ru_submitters r ! i) r) else None
      | WorkerStep i \<Rightarrow>
          if i < length (ru_workers r)
          then map_option (\<lambda>(w, r). r\<lparr>ru_workers := (ru_workers r)[i := w]\<rparr>) (worker_step call (ru_workers r ! i) r) else None
      | Shutdown \<Rightarrow> Some (r\<lparr>ru_shutdown := True\<rparr>))"

definition bg_run :: "('t \<Rightarrow> call_result) \<Rightarrow> 't bg_event list \<Rightarrow> 't runner \<Rightarrow> 't runner option" where
  "bg_run call evs r = fold_opt (bg_step call) evs r"

text \<open>The tasks an object collects before they are submitted as one batch.\<close>

definition add_task :: "'t \<Rightarrow> 't list \<Rightarrow> 't list" where
  "add_task t pending = pending @ [t]"

definition run_tasks :: "nat \<Rightarrow> 't list \<Rightarrow> 't bg_event \<times> 't list" where
  "run_tasks thread pending = (Submit thread pending, [])"

section \<open>Bounds and accounting of the runner\<close>

definition push_count :: "'t submitter \<Rightarrow> nat" where
  "push_count th = (case th of Push _ _ \<Rightarrow> 1 | _ \<Rightarrow> 0)"

definition pushing :: "'t runner \<Rightarrow> nat" where
  "pushing r = sum_list (map push_count (ru_submitters r))"

text \<open>Tasks pushed but not yet counted as submitted, or as active; tasks popped whose result, or end, is not yet counted.\<close>

definition uncounted_submit :: "'t submitter \<Rightarrow> nat" where
  "uncounted_submit th = (case th of CountSubmitted _ \<Rightarrow> 1 | _ \<Rightarrow> 0)"

definition uncounted_active :: "'t submitter \<Rightarrow> nat" where
  "uncounted_active th = (case th of CountSubmitted _ \<Rightarrow> 1 | CountActive _ \<Rightarrow> 1 | _ \<Rightarrow> 0)"

definition uncounted_result :: "'t bg_worker \<Rightarrow> nat" where
  "uncounted_result w = (case w of Calling _ \<Rightarrow> 1 | CountAsync _ \<Rightarrow> 1 | CountResult _ \<Rightarrow> 1 | _ \<Rightarrow> 0)"

definition uncounted_done :: "'t bg_worker \<Rightarrow> nat" where
  "uncounted_done w = (case w of Waiting \<Rightarrow> 0 | Left \<Rightarrow> 0 | _ \<Rightarrow> 1)"

definition accounts_ok :: "'t runner \<Rightarrow> bool" where
  "accounts_ok r \<longleftrightarrow>
     st_submitted (ru_stats r) + of_nat (sum_list (map uncounted_submit (ru_submitters r))) =
       of_nat (length (ru_queue r)) + of_nat (sum_list (map uncounted_result (ru_workers r))) + st_completed (ru_stats r) + st_failed (ru_stats r) \<and>
     st_active (ru_stats r) + of_nat (sum_list (map uncounted_active (ru_submitters r))) =
       of_nat (length (ru_queue r)) + of_nat (sum_list (map uncounted_done (ru_workers r)))"

definition queue_bounded :: "'t runner \<Rightarrow> bool" where
  "queue_bounded r \<longleftrightarrow> length (ru_queue r) + pushing r + 1 \<le> ru_max_total r + max 1 (length (ru_submitters r))"

lemma sum_update: "i < length xs \<Longrightarrow> sum_list (map f (xs[i := y])) + f (xs ! i) = sum_list (map f xs) + (f y :: nat)"
proof (induction xs arbitrary: i)
  case (Cons x xs)
  then show ?case by (cases i) auto
qed simp

lemma word_sum_update:
  assumes "i < length xs"
  shows "(of_nat (sum_list (map f (xs[i := y]))) :: u64) = of_nat (sum_list (map f xs)) + of_nat (f y) - of_nat (f (xs ! i))"
proof -
  have "(of_nat (sum_list (map f (xs[i := y])) + f (xs ! i)) :: u64) = of_nat (sum_list (map f xs) + f y)"
    using sum_update [OF assms, of f y] by simp
  then show ?thesis by (simp add: algebra_simps)
qed

lemma pushing_le: "pushing r \<le> length (ru_submitters r)"
proof -
  have "sum_list (map push_count ths) \<le> length ths" for ths :: "'a submitter list"
    by (induction ths) (auto simp: push_count_def split: submitter.splits)
  then show ?thesis by (simp add: pushing_def)
qed

lemmas uncounted_defs = uncounted_submit_def uncounted_active_def uncounted_result_def uncounted_done_def

lemma submitter_accounts:
  assumes "accounts_ok r" and "i < length (ru_submitters r)" and "submitter_step (ru_submitters r ! i) r = Some (th, r')"
  shows "accounts_ok (r'\<lparr>ru_submitters := (ru_submitters r')[i := th]\<rparr>)"
proof -
  have "ru_submitters r' = ru_submitters r" "ru_workers r' = ru_workers r"
    using assms(3) by (auto simp: submitter_step_def split: submitter.splits list.splits if_splits)
  then show ?thesis
    using assms unfolding accounts_ok_def
    by (simp add: word_sum_update)
      (auto simp: submitter_step_def uncounted_defs algebra_simps split: submitter.splits list.splits if_splits)
qed

lemma worker_accounts:
  assumes "accounts_ok r" and "i < length (ru_workers r)" and "worker_step call (ru_workers r ! i) r = Some (w, r')"
  shows "accounts_ok (r'\<lparr>ru_workers := (ru_workers r')[i := w]\<rparr>)"
proof -
  have "ru_submitters r' = ru_submitters r" "ru_workers r' = ru_workers r"
    using assms(3) by (auto simp: worker_step_def split: bg_worker.splits list.splits if_splits call_result.splits)
  then show ?thesis
    using assms unfolding accounts_ok_def
    by (simp add: word_sum_update)
      (auto simp: worker_step_def uncounted_defs algebra_simps split: bg_worker.splits list.splits if_splits call_result.splits)
qed

lemma submitter_bounded:
  assumes "queue_bounded r" and "i < length (ru_submitters r)" and "submitter_step (ru_submitters r ! i) r = Some (th, r')"
  shows "queue_bounded (r'\<lparr>ru_submitters := (ru_submitters r')[i := th]\<rparr>)"
proof -
  let ?r = "r'\<lparr>ru_submitters := (ru_submitters r')[i := th]\<rparr>"
  have same: "ru_submitters r' = ru_submitters r" "ru_max_total r' = ru_max_total r"
    using assms(3) by (auto simp: submitter_step_def split: submitter.splits list.splits if_splits)
  have sum: "pushing ?r + push_count (ru_submitters r ! i) = pushing r + push_count th"
    using sum_update [OF assms(2), of push_count th] same by (simp add: pushing_def)
  show ?thesis
  proof (cases "\<exists>t ts. th = Push t ts")
    case True
    then have "length (ru_queue r') < ru_max_total r'"
      using assms(3) by (auto simp: submitter_step_def split: submitter.splits list.splits if_splits)
    then show ?thesis using pushing_le [of ?r] same assms(2) by (simp add: queue_bounded_def)
  next
    case False
    then have "length (ru_queue r') + push_count th \<le> length (ru_queue r) + push_count (ru_submitters r ! i)"
      using assms(3) by (auto simp: submitter_step_def push_count_def split: submitter.splits list.splits if_splits)
    then show ?thesis using sum same assms(1) by (simp add: queue_bounded_def)
  qed
qed

lemma bg_step_ok:
  assumes "bg_step call ev r = Some r'" and "accounts_ok r" and "queue_bounded r"
  shows "accounts_ok r' \<and> queue_bounded r' \<and> ru_max_total r' = ru_max_total r \<and> length (ru_submitters r') = length (ru_submitters r)"
proof (cases ev)
  case (Submit i ts)
  then have i: "i < length (ru_submitters r)" "ru_submitters r ! i = Check []" and r': "r' = r\<lparr>ru_submitters := (ru_submitters r)[i := Check ts]\<rparr>"
    using assms(1) by (auto simp: bg_step_def split: if_splits)
  have "pushing r' = pushing r" using sum_update [OF i(1), of push_count "Check ts"] i(2) by (simp add: r' pushing_def push_count_def)
  then show ?thesis
    using assms(2,3) i by (simp add: r' accounts_ok_def queue_bounded_def word_sum_update uncounted_defs)
next
  case (SubmitterStep i)
  then obtain th r1 where i: "i < length (ru_submitters r)" and st: "submitter_step (ru_submitters r ! i) r = Some (th, r1)"
    and r': "r' = r1\<lparr>ru_submitters := (ru_submitters r1)[i := th]\<rparr>"
    using assms(1) by (auto simp: bg_step_def split: if_splits)
  have "ru_submitters r1 = ru_submitters r \<and> ru_max_total r1 = ru_max_total r"
    using st by (auto simp: submitter_step_def split: submitter.splits list.splits if_splits)
  then show ?thesis using submitter_accounts [OF assms(2) i st] submitter_bounded [OF assms(3) i st] r' by simp
next
  case (WorkerStep i)
  then obtain w r1 where i: "i < length (ru_workers r)" and st: "worker_step call (ru_workers r ! i) r = Some (w, r1)"
    and r': "r' = r1\<lparr>ru_workers := (ru_workers r1)[i := w]\<rparr>"
    using assms(1) by (auto simp: bg_step_def split: if_splits)
  have "ru_submitters r1 = ru_submitters r \<and> ru_max_total r1 = ru_max_total r \<and> length (ru_queue r1) \<le> length (ru_queue r)"
    using st by (auto simp: worker_step_def split: bg_worker.splits list.splits if_splits call_result.splits)
  then show ?thesis using worker_accounts [OF assms(2) i st] assms(3) r' by (simp add: queue_bounded_def pushing_def)
next
  case Shutdown
  then show ?thesis using assms by (auto simp: bg_step_def accounts_ok_def queue_bounded_def pushing_def)
qed

lemma bg_run_ok:
  assumes "bg_run call evs (runner_new env gil n threads) = Some r"
  shows "accounts_ok r \<and> queue_bounded r \<and> ru_max_total r = (case env of Some m \<Rightarrow> m | None \<Rightarrow> 100000) \<and> length (ru_submitters r) = threads"
proof -
  let ?I = "\<lambda>r. accounts_ok r \<and> queue_bounded r \<and> ru_max_total r = (case env of Some m \<Rightarrow> m | None \<Rightarrow> 100000) \<and> length (ru_submitters r) = threads"
  let ?r = "runner_new env gil n threads :: 'a runner"
  have init: "?I ?r"
    by (simp add: runner_new_def stats_zero_def accounts_ok_def queue_bounded_def pushing_def push_count_def uncounted_defs sum_list_replicate
        max_def split: option.split)
  show ?thesis
  proof (rule fold_opt_invariant [where I = ?I])
    show "fold_opt (bg_step call) evs ?r = Some r" using assms unfolding bg_run_def .
    show "?I ?r" by (rule init)
    fix x s s'
    assume "?I s" and "bg_step call x s = Some s'"
    then show "?I s'" using bg_step_ok [of call x s s'] by simp
  qed
qed

section \<open>The job scheduler\<close>

text \<open>Arithmetic and casts of 64-bit signed integers, without overflow checks.\<close>

definition i64 :: "int \<Rightarrow> int" where
  "i64 x = (x + 2 ^ 63) mod 2 ^ 64 - 2 ^ 63"

datatype 's trigger = Cron 's | Every nat

record ('s, 't) job =
  jb_id :: nat
  jb_name :: string
  jb_trigger :: "'s trigger"
  jb_task :: 't
  jb_last_fire_ms :: "int option"
  jb_next_fire_ms :: "int option"

definition compute_next :: "('s \<Rightarrow> int \<Rightarrow> int option) \<Rightarrow> 's trigger \<Rightarrow> int option \<Rightarrow> int \<Rightarrow> int option" where
  "compute_next after trigger last_fire_ms now_ms =
     (case trigger of
        Cron s \<Rightarrow> after s now_ms
      | Every seconds \<Rightarrow>
          (let base = (case last_fire_ms of Some t \<Rightarrow> t | None \<Rightarrow> now_ms);
               step = i64 (int seconds * 1000);
               nxt = i64 (base + step)
           in Some (if nxt \<le> now_ms then i64 (now_ms + step) else nxt)))"

record ('s, 't) job_scheduler =
  js_jobs :: "('s, 't) job list"
  js_fired :: u64
  js_next_id :: nat
  js_running :: bool

definition job_scheduler_new :: "('s, 't) job_scheduler" where
  "job_scheduler_new = \<lparr>js_jobs = [], js_fired = 0, js_next_id = 1, js_running = False\<rparr>"

text \<open>One job in one tick: the tasks it submits and the job afterwards.\<close>

definition tick_job :: "('s \<Rightarrow> int \<Rightarrow> int option) \<Rightarrow> int \<Rightarrow> ('s, 't) job \<Rightarrow> 't list \<times> ('s, 't) job" where
  "tick_job after now_ms j =
     (let nxt = (case jb_next_fire_ms j of
                   Some t \<Rightarrow> Some t
                 | None \<Rightarrow> compute_next after (jb_trigger j) (jb_last_fire_ms j) now_ms);
          j = j\<lparr>jb_next_fire_ms := nxt\<rparr>;
          due = (case nxt of Some t \<Rightarrow> t \<le> now_ms | None \<Rightarrow> False)
      in if due
         then ([jb_task j], j\<lparr>jb_last_fire_ms := Some now_ms,
                               jb_next_fire_ms := compute_next after (jb_trigger j) (Some now_ms) now_ms\<rparr>)
         else ([], j))"

text \<open>A tick of the loop; its tasks are submitted to the runner in order.\<close>

definition scheduler_tick :: "('s \<Rightarrow> int \<Rightarrow> int option) \<Rightarrow> int \<Rightarrow> ('s, 't) job_scheduler \<Rightarrow> 't list \<times> ('s, 't) job_scheduler" where
  "scheduler_tick after now_ms s =
     (if js_running s
      then (let results = map (tick_job after now_ms) (js_jobs s); fired = concat (map fst results)
            in (fired, s\<lparr>js_jobs := map snd results, js_fired := js_fired s + of_nat (length fired)\<rparr>))
      else ([], s))"

definition add_job :: "string \<Rightarrow> 's trigger \<Rightarrow> 't \<Rightarrow> ('s, 't) job_scheduler \<Rightarrow> nat \<times> ('s, 't) job_scheduler" where
  "add_job name trigger task s =
     (js_next_id s,
      s\<lparr>js_next_id := js_next_id s + 1,
        js_jobs := js_jobs s @ [\<lparr>jb_id = js_next_id s, jb_name = name, jb_trigger = trigger, jb_task = task,
                                 jb_last_fire_ms = None, jb_next_fire_ms = None\<rparr>]\<rparr>)"

definition schedule_cron ::
  "(string \<Rightarrow> string + 's) \<Rightarrow> string \<Rightarrow> 't \<Rightarrow> ('s, 't) job_scheduler \<Rightarrow> (string + nat) \<times> ('s, 't) job_scheduler" where
  "schedule_cron parse cron_expr task s =
     (case parse cron_expr of
        Inl e \<Rightarrow> (Inl (''invalid cron expr: '' @ e), s)
      | Inr sched \<Rightarrow> (case add_job (''cron:'' @ cron_expr) (Cron sched) task s of (i, s) \<Rightarrow> (Inr i, s)))"

definition schedule_every :: "nat \<Rightarrow> 't \<Rightarrow> ('s, 't) job_scheduler \<Rightarrow> (string + nat) \<times> ('s, 't) job_scheduler" where
  "schedule_every seconds task s =
     (if seconds = 0 then (Inl ''every(seconds) requires seconds > 0'', s)
      else case add_job (''every:'' @ nat_str seconds @ ''s'') (Every seconds) task s of (i, s) \<Rightarrow> (Inr i, s))"

definition scheduler_start :: "('s, 't) job_scheduler \<Rightarrow> ('s, 't) job_scheduler" where
  "scheduler_start s = s\<lparr>js_running := True\<rparr>"

definition scheduler_stop :: "('s, 't) job_scheduler \<Rightarrow> ('s, 't) job_scheduler" where
  "scheduler_stop s = s\<lparr>js_running := False\<rparr>"

definition remove_job :: "nat \<Rightarrow> ('s, 't) job_scheduler \<Rightarrow> bool \<times> ('s, 't) job_scheduler" where
  "remove_job i s =
     (let jobs = filter (\<lambda>j. jb_id j \<noteq> i) (js_jobs s) in (length jobs \<noteq> length (js_jobs s), s\<lparr>js_jobs := jobs\<rparr>))"

definition maybe_start_if_jobs :: "('s, 't) job_scheduler \<Rightarrow> ('s, 't) job_scheduler" where
  "maybe_start_if_jobs s = (if js_jobs s = [] then s else scheduler_start s)"

text \<open>The times at which a job fires when the loop ticks at the given times.\<close>

fun job_fires :: "('s \<Rightarrow> int \<Rightarrow> int option) \<Rightarrow> int list \<Rightarrow> ('s, 't) job \<Rightarrow> int list" where
  "job_fires after [] j = []"
| "job_fires after (now # ts) j =
     (case tick_job after now j of (fired, j) \<Rightarrow> map (\<lambda>_. now) fired @ job_fires after ts j)"

text \<open>The reference: a fire at every tick at which the interval has passed since the previous fire.\<close>

fun spaced :: "int \<Rightarrow> int \<Rightarrow> int list \<Rightarrow> int list" where
  "spaced step base [] = []"
| "spaced step base (t # ts) = (if base + step \<le> t then t # spaced step t ts else spaced step base ts)"

lemma i64_id: "- (2 ^ 63) \<le> x \<Longrightarrow> x < 2 ^ 63 \<Longrightarrow> i64 x = x"
  by (simp add: i64_def mod_pos_pos_trivial)

lemma spaced_gaps: "successively (\<lambda>a b. a + step \<le> b) (base # spaced step base ts)"
  by (induction step base ts rule: spaced.induct) (auto simp: successively_Cons)

lemma every_next:
  assumes "0 \<le> t" and "t < 2 ^ 62" and "0 < seconds" and "int seconds * 1000 < 2 ^ 62"
  shows "compute_next after (Every seconds) (Some t) t = Some (t + int seconds * 1000)"
    and "compute_next after (Every seconds) None t = Some (t + int seconds * 1000)"
  using assms by (simp_all add: compute_next_def Let_def i64_id)

lemma job_fires_spaced:
  assumes "jb_trigger j = Every seconds" and "jb_next_fire_ms j = Some (base + int seconds * 1000)" and "0 < seconds" and "int seconds * 1000 < 2 ^ 62"
    and "list_all (\<lambda>t. 0 \<le> t \<and> t < 2 ^ 62) ts"
  shows "job_fires after ts j = spaced (int seconds * 1000) base ts"
  using assms
proof (induction ts arbitrary: j base)
  case (Cons t ts)
  show ?case
  proof (cases "base + int seconds * 1000 \<le> t")
    case True
    let ?j = "j\<lparr>jb_next_fire_ms := Some (t + int seconds * 1000), jb_last_fire_ms := Some t\<rparr>"
    have "tick_job after t j = ([jb_task j], ?j)"
      using Cons.prems True by (simp add: tick_job_def every_next)
    then show ?thesis using Cons.IH [of ?j t] Cons.prems True by simp
  next
    case False
    have "tick_job after t j = ([], j)" using Cons.prems False by (simp add: tick_job_def)
    then show ?thesis using Cons.IH [of j base] Cons.prems False by simp
  qed
qed simp

section \<open>The pool of interpreter threads\<close>

datatype runtime_mode = GilBased | GilFree

definition from_gil_enabled :: "bool \<Rightarrow> runtime_mode" where
  "from_gil_enabled enabled = (if enabled then GilBased else GilFree)"

text \<open>\<open>env\<close> is the number in the environment, \<open>parallelism\<close> the number of processors, if known.\<close>

definition default_pool_size :: "nat option \<Rightarrow> nat option \<Rightarrow> runtime_mode \<Rightarrow> nat" where
  "default_pool_size env parallelism mode =
     (case (case env of Some n \<Rightarrow> if 0 < n then Some n else None | None \<Rightarrow> None) of
        Some n \<Rightarrow> n
      | None \<Rightarrow> (case mode of
                   GilFree \<Rightarrow> max (case parallelism of Some n \<Rightarrow> n | None \<Rightarrow> 4) 2
                 | GilBased \<Rightarrow> 1))"

text \<open>\<open>Py_GIL_DISABLED\<close> at compile time decides; otherwise the interpreter is asked, which may not answer.\<close>

definition detect_mode :: "bool \<Rightarrow> bool option \<Rightarrow> runtime_mode" where
  "detect_mode gil_disabled answer = (if gil_disabled then GilFree else from_gil_enabled (case answer of Some b \<Rightarrow> b | None \<Rightarrow> True))"

record 'j gil_pool =
  gp_channels :: "'j list list"
  gp_capacity :: nat
  gp_mode :: runtime_mode
  gp_next :: u64

definition build_pool :: "nat \<Rightarrow> runtime_mode \<Rightarrow> 'j gil_pool" where
  "build_pool num_threads mode =
     \<lparr>gp_channels = replicate num_threads [], gp_capacity = max num_threads 1 * 16, gp_mode = mode, gp_next = 0\<rparr>"

text \<open>The pool and the process that owns its threads.\<close>

type_synonym 'j pool_slot = "('j gil_pool \<times> nat) option"

definition pool_for :: "nat \<Rightarrow> nat \<Rightarrow> runtime_mode \<Rightarrow> 'j pool_slot \<Rightarrow> 'j gil_pool" where
  "pool_for pid n mode slot =
     (case slot of Some (p, owner) \<Rightarrow> if owner = pid then p else build_pool n mode | None \<Rightarrow> build_pool n mode)"

definition init_pool :: "nat \<Rightarrow> nat option \<Rightarrow> nat \<Rightarrow> runtime_mode \<Rightarrow> 'j pool_slot \<Rightarrow> 'j pool_slot" where
  "init_pool pid num_threads default_size mode slot =
     Some (pool_for pid (case num_threads of Some n \<Rightarrow> n | None \<Rightarrow> default_size) mode slot, pid)"

datatype dispatch = Sent nat | QueueFull nat | DivisionByZero

text \<open>
  One dispatch: the channel is chosen; a full channel makes the caller wait, and the send happens when a place is free.
\<close>

definition run_python :: "nat \<Rightarrow> nat \<Rightarrow> runtime_mode \<Rightarrow> 'j \<Rightarrow> 'j pool_slot \<Rightarrow> dispatch \<times> 'j pool_slot" where
  "run_python pid default_size mode job slot =
     (let p = pool_for pid default_size mode slot; n = length (gp_channels p)
      in if n = 0 then (DivisionByZero, Some (p\<lparr>gp_next := gp_next p + 1\<rparr>, pid))
         else (let idx = (if n = 1 then 0 else unat (gp_next p) mod n);
                   p = (if n = 1 then p else p\<lparr>gp_next := gp_next p + 1\<rparr>)
               in if length (gp_channels p ! idx) < gp_capacity p
                  then (Sent idx, Some (p\<lparr>gp_channels := (gp_channels p)[idx := gp_channels p ! idx @ [job]]\<rparr>, pid))
                  else (QueueFull idx, Some (p, pid))))"

definition pool_mode :: "'j pool_slot \<Rightarrow> runtime_mode option" where
  "pool_mode slot = map_option (gp_mode \<circ> fst) slot"

lemma pool_for_owner: "\<exists>p'. snd (run_python pid n mode job slot) = Some (p', pid)"
  by (auto simp: run_python_def Let_def)

text \<open>A process never hands a job to the channels of another process: the pool is its own or a fresh one.\<close>

lemma forked_pool_rebuilt:
  assumes "owner \<noteq> pid" and "0 < n"
  shows "\<exists>i p'. run_python pid n mode job (Some (p, owner)) = (Sent i, Some (p', pid)) \<and> i < n \<and> gp_channels p' = (replicate n [])[i := [job]]"
  using assms by (auto simp: run_python_def pool_for_def build_pool_def Let_def)

text \<open>The jobs dispatched from a counter go to the channels in turn.\<close>

lemma round_robin:
  assumes "run_python pid n mode job (Some (p, pid)) = (Sent i, slot)" and "1 < length (gp_channels p)"
  shows "i = unat (gp_next p) mod length (gp_channels p) \<and>
    (\<exists>p'. slot = Some (p', pid) \<and> gp_next p' = gp_next p + 1 \<and> length (gp_channels p') = length (gp_channels p))"
  using assms by (auto simp: run_python_def pool_for_def Let_def split: if_splits)

section \<open>Properties\<close>

text \<open>C39: Under any interleaving of submitting threads and workers the queue holds at most its limit and one task for each further
  submitting thread, and the counters add up: when no thread is inside an operation and the queue is empty, no task is counted as
  active and every submitted task is counted as completed or failed.\<close>

theorem task_runner_accounts:
  assumes "bg_run call evs (runner_new env gil n threads) = Some r"
  shows "length (ru_queue r) \<le> (case env of Some m \<Rightarrow> m | None \<Rightarrow> 100000) + (threads - 1) \<and>
    (list_all (\<lambda>th. \<exists>ts. th = Check ts) (ru_submitters r) \<and> list_all (\<lambda>w. w = Waiting \<or> w = Left) (ru_workers r) \<and> ru_queue r = [] \<longrightarrow>
     st_active (ru_stats r) = 0 \<and> st_submitted (ru_stats r) = st_completed (ru_stats r) + st_failed (ru_stats r))"
proof -
  note ok = bg_run_ok [OF assms]
  have "length (ru_queue r) + 1 \<le> (case env of Some m \<Rightarrow> m | None \<Rightarrow> 100000) + max 1 threads"
    using ok by (auto simp: queue_bounded_def)
  then have bound: "length (ru_queue r) \<le> (case env of Some m \<Rightarrow> m | None \<Rightarrow> 100000) + (threads - 1)"
    by (simp add: max_def split: if_splits)
  moreover have "st_active (ru_stats r) = 0 \<and> st_submitted (ru_stats r) = st_completed (ru_stats r) + st_failed (ru_stats r)"
    if quiet: "list_all (\<lambda>th. \<exists>ts. th = Check ts) (ru_submitters r)" "list_all (\<lambda>w. w = Waiting \<or> w = Left) (ru_workers r)" "ru_queue r = []"
  proof -
    have "map f (ru_submitters r) = map (\<lambda>_. 0) (ru_submitters r)" if "\<And>ts. f (Check ts) = 0" for f :: "'a submitter \<Rightarrow> nat"
      using quiet(1) that by (auto simp: list_all_iff)
    moreover have "map f (ru_workers r) = map (\<lambda>_. 0) (ru_workers r)" if "f Waiting = 0" "f Left = 0" for f :: "'a bg_worker \<Rightarrow> nat"
      using quiet(2) that by (auto simp: list_all_iff)
    ultimately have "sum_list (map uncounted_submit (ru_submitters r)) = 0" "sum_list (map uncounted_active (ru_submitters r)) = 0"
      "sum_list (map uncounted_result (ru_workers r)) = 0" "sum_list (map uncounted_done (ru_workers r)) = 0"
      by (simp_all add: uncounted_defs)
    note zero = this
    have "accounts_ok r" using ok by simp
    then show ?thesis unfolding accounts_ok_def zero quiet(3) by simp
  qed
  ultimately show ?thesis by blast
qed

text \<open>A job registered with an interval fires at exactly those ticks at which the interval has passed since it last fired, counted from the
  first tick of the loop; so two fires are never closer than the interval. The times and the interval are below \<open>2 ^ 62\<close>.\<close>

theorem interval_job_fires_spaced:
  assumes "schedule_every seconds task s = (Inr i, s')" and "int seconds * 1000 < 2 ^ 62" and "list_all (\<lambda>t. 0 \<le> t \<and> t < 2 ^ 62) (start # ts)"
  shows "job_fires after (start # ts) (last (js_jobs s')) = spaced (int seconds * 1000) start ts
    \<and> successively (\<lambda>a b. a + int seconds * 1000 \<le> b) (start # job_fires after (start # ts) (last (js_jobs s')))"
proof -
  let ?j = "last (js_jobs s')"
  have sec: "0 < seconds" and j: "jb_trigger ?j = Every seconds" "jb_last_fire_ms ?j = None" "jb_next_fire_ms ?j = None"
    using assms(1) by (auto simp: schedule_every_def add_job_def split: if_splits)
  let ?k = "?j\<lparr>jb_next_fire_ms := Some (start + int seconds * 1000)\<rparr>"
  have "tick_job after start ?j = ([], ?k)"
    using assms(2,3) sec j by (simp add: tick_job_def every_next Let_def)
  then have "job_fires after (start # ts) ?j = job_fires after ts ?k" by simp
  also have "\<dots> = spaced (int seconds * 1000) start ts"
    using job_fires_spaced [of ?k seconds start ts after] assms(2,3) sec j by simp
  finally show ?thesis using spaced_gaps by simp
qed

section \<open>Defects\<close>

text \<open>Two threads that both see a place in the queue fill it beyond its limit.\<close>

lemma queue_limit_exceeded:
  "map_option (\<lambda>r. (length (ru_queue r), ru_max_total r))
     (bg_run (\<lambda>_. Returned) [Submit 0 [()], Submit 1 [()], SubmitterStep 0, SubmitterStep 1, SubmitterStep 0, SubmitterStep 1]
       (runner_new (Some 1) True 1 2)) = Some (2, 1)"
  by (simp add: bg_run_def bg_step_def runner_new_def submitter_step_def numeral_2_eq_2)

text \<open>A worker that is done with a task before its submission has been counted makes the number of active tasks wrap around.\<close>

lemma active_wraps_around:
  "map_option (\<lambda>r. st_active (ru_stats r))
     (bg_run (\<lambda>_. Returned) [Submit 0 [()], SubmitterStep 0, SubmitterStep 0, WorkerStep 0, WorkerStep 0, WorkerStep 0, WorkerStep 0]
       (runner_new (Some 1) True 1 1)) = Some (- 1)"
  by (simp add: bg_run_def bg_step_def runner_new_def submitter_step_def worker_step_def worker_count_def stats_zero_def)

text \<open>A task submitted after the workers have left is accepted and counted, and no step can run it.\<close>

lemma submitted_after_shutdown:
  assumes "list_all (\<lambda>w. w = Left) (ru_workers r)" and "i < length (ru_submitters r)" and "ru_submitters r ! i = Check []"
    and "length (ru_queue r) < ru_max_total r"
  shows "\<exists>r'. bg_run call [Submit i [t], SubmitterStep i, SubmitterStep i, SubmitterStep i, SubmitterStep i] r = Some r' \<and>
    ru_queue r' = ru_queue r @ [t] \<and> st_submitted (ru_stats r') = st_submitted (ru_stats r) + 1 \<and> (\<forall>w. bg_step call (WorkerStep w) r' = None)"
proof -
  have "\<And>w. w < length (ru_workers r) \<Longrightarrow> ru_workers r ! w = Left" using assms(1) by (simp add: list_all_length)
  then show ?thesis using assms(2-4) by (simp add: bg_run_def bg_step_def submitter_step_def worker_step_def)
qed

text \<open>A pool of no threads fails at the first dispatch.\<close>

lemma empty_pool_fails: "fst (run_python pid n mode job (init_pool pid (Some 0) d mode None)) = DivisionByZero"
  by (simp add: run_python_def init_pool_def pool_for_def build_pool_def)

section \<open>Witnesses\<close>

theorem task_runner_accounts_witness:
  "\<exists>r. bg_run (\<lambda>_. Returned) [Submit 0 [()], SubmitterStep 0, SubmitterStep 0, SubmitterStep 0, SubmitterStep 0,
       WorkerStep 0, WorkerStep 0, WorkerStep 0, WorkerStep 0] (runner_new None True 1 1) = Some r \<and>
     length (ru_queue r) \<le> 100000 \<and> st_active (ru_stats r) = 0"
proof -
  have same: "(replicate 5 Waiting)[0 := Waiting] = (replicate 5 Waiting :: unit bg_worker list)" by (simp add: list_update_same_conv)
  obtain r :: "unit runner" where r: "bg_run (\<lambda>_. Returned) [Submit 0 [()], SubmitterStep 0, SubmitterStep 0, SubmitterStep 0, SubmitterStep 0,
       WorkerStep 0, WorkerStep 0, WorkerStep 0, WorkerStep 0] (runner_new None True 1 1) = Some r"
    "list_all (\<lambda>th. \<exists>ts. th = Check ts) (ru_submitters r)" "list_all (\<lambda>w. w = Waiting \<or> w = Left) (ru_workers r)" "ru_queue r = []"
    by (simp add: bg_run_def bg_step_def runner_new_def submitter_step_def worker_step_def worker_count_def stats_zero_def same list_all_iff)
  from task_runner_accounts [OF r(1)] r show ?thesis by simp
qed

theorem interval_job_fires_spaced_witness:
  "job_fires (\<lambda>_ _. None) [1000, 2500, 3100, 4000, 5200] (last (js_jobs (snd (schedule_every 2 () (job_scheduler_new :: (unit, unit) job_scheduler))))) = [3100, 5200]"
proof -
  obtain i s' where s': "schedule_every 2 () (job_scheduler_new :: (unit, unit) job_scheduler) = (Inr i, s')"
    by (simp add: schedule_every_def add_job_def)
  from interval_job_fires_spaced [OF s', of 1000 "[2500, 3100, 4000, 5200]" "\<lambda>_ _. None"] show ?thesis
    unfolding s' by simp
qed

end
