(* ===== verification/Edge.thy ===== *)
theory Edge
  imports Route_Table Validate
begin

text \<open>
  Services at the edge of the HTTP crate: the configurable gateway of \<^verbatim>\<open>crates/justapi-core/src/gateway.rs\<close> over the route table, the
  audit log of \<^verbatim>\<open>src/audit.rs\<close> and the secrets of \<^verbatim>\<open>src/secrets.rs\<close>.

  \<^item> The path matcher of a route table, reading and parsing of the configuration file, the environment and the files of secrets
    are parameters, as are the tables of upper-case letters.
  \<^item> The audit log is a list of entries; time is the parameter \<open>duration\<close>.

  The lemmas show that a gateway serves the last configuration that could be loaded and touches no request it has no route for,
  that the audit log changes no answer and records exactly the requests of its rule, and that a registered secret is resolved by
  its own source.
\<close>

section \<open>Gateway\<close>

record gateway_route =
  gr_upstream :: string
  gr_rate_limit_capacity :: "nat option"
  gr_rate_limit_replenish_rate :: "nat option"
  gr_wasm_plugin :: "string option"

record gateway_config_data =
  gc_routes :: "(string \<times> (string \<times> gateway_route) list) list"
  gc_global_rate_limit :: "nat option"

type_synonym 'm gateway_router = "('m, gateway_route) route_table"

record 'm gateway_state =
  gs_config :: gateway_config_data
  gs_router :: "'m gateway_router"

definition config_default :: gateway_config_data where
  "config_default = \<lparr>gc_routes = [], gc_global_rate_limit = None\<rparr>"

definition gateway_method :: "(string \<Rightarrow> string) \<Rightarrow> string \<Rightarrow> http_method option" where
  "gateway_method to_uppercase method_str =
     map_of [(''GET'', GET), (''POST'', POST), (''PUT'', PUT), (''DELETE'', DELETE), (''PATCH'', PATCH), (''OPTIONS'', OPTIONS)] (to_uppercase method_str)"

definition insert_gateway_route ::
  "(string \<Rightarrow> string) \<Rightarrow> 'm \<Rightarrow> (string \<Rightarrow> gateway_route \<Rightarrow> 'm \<Rightarrow> bool \<times> 'm) \<Rightarrow> string \<Rightarrow> string \<times> gateway_route \<Rightarrow> 'm gateway_router \<Rightarrow> 'm gateway_router" where
  "insert_gateway_route to_uppercase fresh ins path mr r =
     (case gateway_method to_uppercase (fst mr) of
        None \<Rightarrow> r
      | Some m \<Rightarrow> snd (route_insert fresh ins m path (snd mr) r))"

definition build_router ::
  "(string \<Rightarrow> string) \<Rightarrow> 'm \<Rightarrow> (string \<Rightarrow> gateway_route \<Rightarrow> 'm \<Rightarrow> bool \<times> 'm) \<Rightarrow> gateway_config_data \<Rightarrow> 'm gateway_router" where
  "build_router to_uppercase fresh ins config =
     fold (\<lambda>(path, methods) r. fold (insert_gateway_route to_uppercase fresh ins path) methods r) (gc_routes config) router_new"

text \<open>\<open>mode\<close> are the permissions of the file, if they can be read; a file that others may write is reported and read.\<close>

definition world_writable :: "nat option \<Rightarrow> bool" where
  "world_writable mode = (case mode of Some m \<Rightarrow> odd (m div 2) | None \<Rightarrow> False)"

definition load_config ::
  "(string \<Rightarrow> string) \<Rightarrow> 'm \<Rightarrow> (string \<Rightarrow> gateway_route \<Rightarrow> 'm \<Rightarrow> bool \<times> 'm) \<Rightarrow> (string \<Rightarrow> string + gateway_config_data) \<Rightarrow> string + string \<Rightarrow>
   string + 'm gateway_state" where
  "load_config to_uppercase fresh ins parse file =
     (case file of
        Inl e \<Rightarrow> Inl e
      | Inr data \<Rightarrow>
          (case parse data of
             Inl e \<Rightarrow> Inl e
           | Inr config \<Rightarrow> Inr \<lparr>gs_config = config, gs_router = build_router to_uppercase fresh ins config\<rparr>))"

definition gateway_state_new :: "string + 'm gateway_state \<Rightarrow> 'm gateway_state" where
  "gateway_state_new loaded = (case loaded of Inl _ \<Rightarrow> \<lparr>gs_config = config_default, gs_router = router_new\<rparr> | Inr st \<Rightarrow> st)"

text \<open>A change of the file: both parts are replaced, or none.\<close>

definition gateway_reload :: "string + 'm gateway_state \<Rightarrow> 'm gateway_state \<Rightarrow> 'm gateway_state" where
  "gateway_reload loaded st = (case loaded of Inl _ \<Rightarrow> st | Inr st' \<Rightarrow> st')"

definition get_route ::
  "('m \<Rightarrow> string \<Rightarrow> (gateway_route \<times> (string \<times> string) list) option) \<Rightarrow> http_method \<Rightarrow> string \<Rightarrow> 'm gateway_state \<Rightarrow>
   gateway_route route_resolution option \<times> 'm gateway_state" where
  "get_route look m path st =
     (case resolve look m path (gs_router st) of
        (Inr res, r) \<Rightarrow> (Some res, st\<lparr>gs_router := r\<rparr>)
      | (Inl _, r) \<Rightarrow> (None, st\<lparr>gs_router := r\<rparr>))"

definition gateway_handle ::
  "('m \<Rightarrow> string \<Rightarrow> (gateway_route \<times> (string \<times> string) list) option) \<Rightarrow> 'm gateway_state \<Rightarrow> 'w middleware" where
  "gateway_handle look st req nxt w =
     (case route_at look (gs_router st) (rq_method req) (rq_path req) of
        Inr (route, _) \<Rightarrow>
          (Response \<lparr>rp_status = 200, rp_headers = [(''x-justapi-gateway'', ''hot-reloaded'')], rp_body = ''Proxied to: '' @ gr_upstream route\<rparr>, w)
      | Inl _ \<Rightarrow> nxt req w)"

section \<open>Audit log\<close>

record audit_rule =
  ar_methods :: "http_method list"
  ar_paths :: "string list"

definition rule_new :: audit_rule where
  "rule_new = \<lparr>ar_methods = [], ar_paths = []\<rparr>"

definition rule_method :: "http_method \<Rightarrow> audit_rule \<Rightarrow> audit_rule" where
  "rule_method m r = r\<lparr>ar_methods := ar_methods r @ [m]\<rparr>"

definition rule_path :: "string \<Rightarrow> audit_rule \<Rightarrow> audit_rule" where
  "rule_path p r = r\<lparr>ar_paths := ar_paths r @ [p]\<rparr>"

definition rule_default :: audit_rule where
  "rule_default = \<lparr>ar_methods = [POST, PUT, DELETE, PATCH], ar_paths = []\<rparr>"

definition rule_matches :: "audit_rule \<Rightarrow> http_method \<Rightarrow> string \<Rightarrow> bool" where
  "rule_matches r m path =
     (if ar_methods r \<noteq> [] \<and> \<not> list_ex (\<lambda>x. x = m) (ar_methods r) then False
      else if ar_paths r \<noteq> [] \<and> \<not> list_ex (\<lambda>p. starts_with path p) (ar_paths r) then False
      else True)"

record audit_entry =
  ae_method :: http_method
  ae_path :: string
  ae_status :: nat
  ae_duration_us :: nat

text \<open>A handler that panics leaves no entry.\<close>

definition audit_wrap :: "audit_rule \<Rightarrow> nat \<Rightarrow> 'w handler \<Rightarrow> (audit_entry list \<times> 'w) handler" where
  "audit_wrap rule duration h req lw =
     (case lw of
        (log, w) \<Rightarrow>
          (case h req w of
             (out, w) \<Rightarrow>
               (out,
                (case out of
                   Panic \<Rightarrow> log
                 | _ \<Rightarrow>
                     if rule_matches rule (rq_method req) (rq_path req)
                     then log @ [\<lparr>ae_method = rq_method req, ae_path = rq_path req,
                                  ae_status = (case out of Response resp \<Rightarrow> rp_status resp | _ \<Rightarrow> 0), ae_duration_us = duration\<rparr>]
                     else log), w)))"

section \<open>Secrets\<close>

datatype secret_source = Env_source string | File_source string | Inline_source string

record secret =
  sc_source :: secret_source
  sc_name :: string

text \<open>The last component of a path, unless the path ends in the parent directory or has none.\<close>

definition file_name :: "string \<Rightarrow> string option" where
  "file_name path =
     (case rev (filter (\<lambda>c. c \<noteq> [] \<and> c \<noteq> ''.'') (split_on (CHR ''/'') path)) of
        [] \<Rightarrow> None
      | c # _ \<Rightarrow> if c = ''..'' then None else Some c)"

definition secret_env :: "string \<Rightarrow> secret" where
  "secret_env var = \<lparr>sc_source = Env_source var, sc_name = var\<rparr>"

definition secret_file :: "string \<Rightarrow> secret" where
  "secret_file path = \<lparr>sc_source = File_source path, sc_name = (case file_name path of Some n \<Rightarrow> n | None \<Rightarrow> path)\<rparr>"

definition secret_inline :: "string \<Rightarrow> string \<Rightarrow> secret" where
  "secret_inline v label = \<lparr>sc_source = Inline_source v, sc_name = label\<rparr>"

datatype secret_error = EnvNotSet string | CannotRead string string | NotRegistered string

definition secret_resolve ::
  "(string \<Rightarrow> string option) \<Rightarrow> (string \<Rightarrow> string + string) \<Rightarrow> (char \<Rightarrow> bool) \<Rightarrow> secret \<Rightarrow> secret_error + string" where
  "secret_resolve env read is_ws s =
     (case sc_source s of
        Env_source var \<Rightarrow> (case env var of Some v \<Rightarrow> Inr v | None \<Rightarrow> Inl (EnvNotSet var))
      | File_source path \<Rightarrow> (case read path of Inr v \<Rightarrow> Inr (trim_both is_ws v) | Inl e \<Rightarrow> Inl (CannotRead path e))
      | Inline_source v \<Rightarrow> Inr v)"

definition secrets_register :: "secret \<Rightarrow> (string \<times> secret) list \<Rightarrow> (string \<times> secret) list" where
  "secrets_register s reg = AList.update (sc_name s) s reg"

definition secrets_resolve ::
  "(string \<Rightarrow> string option) \<Rightarrow> (string \<Rightarrow> string + string) \<Rightarrow> (char \<Rightarrow> bool) \<Rightarrow> string \<Rightarrow> (string \<times> secret) list \<Rightarrow> secret_error + string" where
  "secrets_resolve env read is_ws name reg =
     (case map_of reg name of Some s \<Rightarrow> secret_resolve env read is_ws s | None \<Rightarrow> Inl (NotRegistered name))"

definition resolve_all_secrets ::
  "(string \<Rightarrow> string option) \<Rightarrow> (string \<Rightarrow> string + string) \<Rightarrow> (char \<Rightarrow> bool) \<Rightarrow> (string \<times> secret) list \<Rightarrow> (string \<times> (secret_error + string)) list" where
  "resolve_all_secrets env read is_ws reg = map (\<lambda>(n, s). (n, secret_resolve env read is_ws s)) reg"

section \<open>Lemmas\<close>

text \<open>After any changes of the file, the gateway has the last configuration that could be loaded, or the one it had.\<close>

lemma gateway_keeps_last_good:
  "fold gateway_reload loads st = (case rev (filter (Not \<circ> isl) loads) of [] \<Rightarrow> st | l # _ \<Rightarrow> projr l)"
proof (induction loads rule: rev_induct)
  case (snoc l loads)
  then show ?case by (cases l) (auto simp: gateway_reload_def)
qed simp

lemma gateway_passes_unrouted:
  "(\<And>m router. (m, router) \<in> set (routes (gs_router st)) \<Longrightarrow> look router (rq_path req) = None) \<Longrightarrow> gateway_handle look st req nxt w = nxt req w"
  by (auto simp: gateway_handle_def route_at_def list_ex_iff split: option.splits Option.bind_splits dest: map_of_SomeD)

text \<open>Unknown methods of a configuration add no route.\<close>

lemma insert_route_unknown: "gateway_method to_uppercase m = None \<Longrightarrow> insert_gateway_route to_uppercase fresh ins path (m, r) t = t"
  by (simp add: insert_gateway_route_def)

lemma audit_transparent:
  "fst (audit_wrap rule d h req (log, w)) = fst (h req w) \<and> snd (snd (audit_wrap rule d h req (log, w))) = snd (h req w)"
  by (simp add: audit_wrap_def split: prod.split)

lemma rule_matches_iff:
  "rule_matches r m path \<longleftrightarrow> (ar_methods r = [] \<or> m \<in> set (ar_methods r)) \<and> (ar_paths r = [] \<or> (\<exists>p \<in> set (ar_paths r). starts_with path p))"
  by (auto simp: rule_matches_def list_ex_iff)

text \<open>Which requests of a run are in the log, in order.\<close>

lemma audit_log_exact:
  assumes "fst (h req w) \<noteq> Panic"
  shows "map (\<lambda>e. (ae_method e, ae_path e)) (fst (snd (audit_wrap rule d h req (log, w)))) =
    map (\<lambda>e. (ae_method e, ae_path e)) log @ (if rule_matches rule (rq_method req) (rq_path req) then [(rq_method req, rq_path req)] else [])"
  using assms by (auto simp: audit_wrap_def split: prod.split outcome.split)

text \<open>A secret is resolved by its own source; sources of other kinds are not tried.\<close>

lemma registered_secret_resolves:
  "secrets_resolve env read is_ws (sc_name s) (secrets_register s reg) = secret_resolve env read is_ws s"
  "n \<noteq> sc_name s \<Longrightarrow> secrets_resolve env read is_ws n (secrets_register s reg) = secrets_resolve env read is_ws n reg"
  by (simp_all add: secrets_resolve_def secrets_register_def update_conv')

lemma env_secret_not_from_file:
  "env var = None \<Longrightarrow> secrets_resolve env read is_ws var (secrets_register (secret_env var) reg) = Inl (EnvNotSet var)"
  by (simp add: secrets_resolve_def secrets_register_def update_conv' secret_env_def secret_resolve_def)

end
