(* ===== verification/Openapi.thy ===== *)
theory Openapi
  imports Validate
begin

text \<open>
  The OpenAPI documents of \<^verbatim>\<open>crates/justapi-core/src/openapi.rs\<close>: the document, its builder, the registry of routes and the generation of a
  document from it.

  \<^item> A \<open>BTreeMap\<close> is the list of its entries. A number of a JSON value is an integer, so the schema of other numbers does not occur.
  \<^item> Reading a user's response object is the parameter \<open>parse_response\<close>; \<open>lower\<close> turns the name of a method into lower case.

  The lemmas show exactly which operation a generated document has for a path and a method, which parameters it declares, that an
  example conforms to the schema derived from it, and where it does not.
\<close>

section \<open>Schemas\<close>

datatype 's schema_object = SchemaObject
  (so_schema_type: "string option") (so_format: "string option") (so_title: "string option") (so_description: "string option")
  (so_properties: "(string \<times> 's) list option") (so_required: "string list") (so_items: "'s option") (so_additional_properties: "'s option")
  (so_enum_values: "json list") (so_default: "json option") (so_example: "json option") (so_nullable: "bool option")
  (so_read_only: "bool option") (so_write_only: "bool option") (so_minimum: "int option") (so_maximum: "int option")
  (so_min_length: "nat option") (so_max_length: "nat option") (so_pattern: "string option")

datatype schema = Ref string | Object "schema schema_object"

definition typed :: "string \<Rightarrow> (string \<times> 's) list option \<Rightarrow> string list \<Rightarrow> 's option \<Rightarrow> 's schema_object" where
  "typed ty props req items =
     SchemaObject (Some ty) None None None props req items None [] None None None None None None None None None None"

definition so_string :: "schema schema_object" where "so_string = typed ''string'' None [] None"
definition so_integer :: "schema schema_object" where "so_integer = typed ''integer'' None [] None"
definition so_number :: "schema schema_object" where "so_number = typed ''number'' None [] None"
definition so_boolean :: "schema schema_object" where "so_boolean = typed ''boolean'' None [] None"
definition so_object :: "schema schema_object" where "so_object = typed ''object'' None [] None"
definition so_array :: "schema schema_object" where "so_array = typed ''array'' None [] None"

fun with_items :: "'s \<Rightarrow> 's schema_object \<Rightarrow> 's schema_object" where
  "with_items i (SchemaObject a b c d e f _ h j k l m n p q r s t u) = SchemaObject a b c d e f (Some i) h j k l m n p q r s t u"

fun with_property :: "string \<Rightarrow> 's \<Rightarrow> 's schema_object \<Rightarrow> 's schema_object" where
  "with_property name prop (SchemaObject a b c d e f g h j k l m n p q r s t u) =
     SchemaObject a b c d (Some (AList.update name prop (case e of Some ps \<Rightarrow> ps | None \<Rightarrow> []))) f g h j k l m n p q r s t u"

fun with_required :: "string \<Rightarrow> 's schema_object \<Rightarrow> 's schema_object" where
  "with_required x (SchemaObject a b c d e f g h j k l m n p q r s t u) = SchemaObject a b c d e (f @ [x]) g h j k l m n p q r s t u"

fun with_description :: "string \<Rightarrow> 's schema_object \<Rightarrow> 's schema_object" where
  "with_description x (SchemaObject a b c d e f g h j k l m n p q r s t u) = SchemaObject a b c (Some x) e f g h j k l m n p q r s t u"

text \<open>The schema of an example value.\<close>

fun json_value_to_schema :: "json \<Rightarrow> schema" where
  "json_value_to_schema JNull = Object (typed ''null'' None [] None)"
| "json_value_to_schema (JBool _) = Object so_boolean"
| "json_value_to_schema (JNumber _) = Object so_integer"
| "json_value_to_schema (JString _) = Object so_string"
| "json_value_to_schema (JArray items) =
     Object (typed ''array'' None [] (case items of [] \<Rightarrow> None | x # _ \<Rightarrow> Some (json_value_to_schema x)))"
| "json_value_to_schema (JObject kvs) =
     Object (typed ''object'' (if kvs = [] then None else Some (map (\<lambda>(k, v). (k, json_value_to_schema v)) kvs))
       (map fst (filter (\<lambda>(_, v). v \<noteq> JNull) kvs)) None)"

section \<open>Documents\<close>

record openapi_info =
  oi_title :: string
  oi_version :: string
  oi_description :: "string option"

record openapi_server =
  os_url :: string
  os_description :: "string option"

record openapi_tag =
  ot_name :: string
  ot_description :: "string option"

datatype parameter_location = In_Query | In_Path | In_Header | In_Cookie

record parameter =
  pa_name :: string
  pa_location :: parameter_location
  pa_description :: "string option"
  pa_required :: bool
  pa_schema :: "schema option"

type_synonym media_type = "schema option"

record request_body =
  rb_description :: "string option"
  rb_content :: "(string \<times> media_type) list"
  rb_required :: bool

record openapi_response =
  rs_description :: string
  rs_content :: "(string \<times> media_type) list option"

record operation =
  op_summary :: "string option"
  op_description :: "string option"
  op_operation_id :: "string option"
  op_tags :: "string list"
  op_parameters :: "parameter list"
  op_request_body :: "request_body option"
  op_responses :: "(string \<times> openapi_response) list"
  op_deprecated :: "bool option"
  op_extensions :: "(string \<times> json) list"

record path_item =
  pi_get :: "operation option"
  pi_post :: "operation option"
  pi_put :: "operation option"
  pi_delete :: "operation option"
  pi_patch :: "operation option"
  pi_head :: "operation option"
  pi_options :: "operation option"
  pi_trace :: "operation option"
  pi_query :: "operation option"

definition empty_item :: path_item where
  "empty_item = \<lparr>pi_get = None, pi_post = None, pi_put = None, pi_delete = None, pi_patch = None, pi_head = None,
                 pi_options = None, pi_trace = None, pi_query = None\<rparr>"

definition query_method :: http_method where
  "query_method = Other_method ''QUERY''"

definition trace_method :: http_method where
  "trace_method = Other_method ''TRACE''"

definition item_insert :: "http_method \<Rightarrow> operation \<Rightarrow> path_item \<Rightarrow> path_item" where
  "item_insert m op it =
     (if m = query_method then it\<lparr>pi_query := Some op\<rparr>
      else case m of
             GET \<Rightarrow> it\<lparr>pi_get := Some op\<rparr>
           | POST \<Rightarrow> it\<lparr>pi_post := Some op\<rparr>
           | PUT \<Rightarrow> it\<lparr>pi_put := Some op\<rparr>
           | DELETE \<Rightarrow> it\<lparr>pi_delete := Some op\<rparr>
           | PATCH \<Rightarrow> it\<lparr>pi_patch := Some op\<rparr>
           | HEAD \<Rightarrow> it\<lparr>pi_head := Some op\<rparr>
           | OPTIONS \<Rightarrow> it\<lparr>pi_options := Some op\<rparr>
           | Other_method _ \<Rightarrow> if m = trace_method then it\<lparr>pi_trace := Some op\<rparr> else it)"

record openapi_document =
  od_openapi :: string
  od_info :: openapi_info
  od_servers :: "openapi_server list option"
  od_paths :: "(string \<times> path_item) list"
  od_components :: "(string \<times> schema schema_object) list option"
  od_tags :: "openapi_tag list option"

record openapi_builder =
  ob_info :: openapi_info
  ob_servers :: "openapi_server list"
  ob_paths :: "(string \<times> path_item) list"
  ob_schemas :: "(string \<times> schema schema_object) list"
  ob_tags :: "openapi_tag list"

definition builder_new :: "string \<Rightarrow> string \<Rightarrow> openapi_builder" where
  "builder_new title version =
     \<lparr>ob_info = \<lparr>oi_title = title, oi_version = version, oi_description = None\<rparr>, ob_servers = [], ob_paths = [], ob_schemas = [], ob_tags = []\<rparr>"

definition builder_description :: "string \<Rightarrow> openapi_builder \<Rightarrow> openapi_builder" where
  "builder_description d b = b\<lparr>ob_info := (ob_info b)\<lparr>oi_description := Some d\<rparr>\<rparr>"

definition builder_server :: "string \<Rightarrow> string option \<Rightarrow> openapi_builder \<Rightarrow> openapi_builder" where
  "builder_server url d b = b\<lparr>ob_servers := ob_servers b @ [\<lparr>os_url = url, os_description = d\<rparr>]\<rparr>"

definition builder_tag :: "string \<Rightarrow> string option \<Rightarrow> openapi_builder \<Rightarrow> openapi_builder" where
  "builder_tag name d b = b\<lparr>ob_tags := ob_tags b @ [\<lparr>ot_name = name, ot_description = d\<rparr>]\<rparr>"

definition builder_schema :: "string \<Rightarrow> schema schema_object \<Rightarrow> openapi_builder \<Rightarrow> openapi_builder" where
  "builder_schema name s b = b\<lparr>ob_schemas := AList.update name s (ob_schemas b)\<rparr>"

definition builder_operation :: "http_method \<Rightarrow> string \<Rightarrow> operation \<Rightarrow> openapi_builder \<Rightarrow> openapi_builder" where
  "builder_operation m path op b =
     b\<lparr>ob_paths := AList.update path (item_insert m op (case map_of (ob_paths b) path of Some it \<Rightarrow> it | None \<Rightarrow> empty_item)) (ob_paths b)\<rparr>"

definition builder_build :: "openapi_builder \<Rightarrow> openapi_document" where
  "builder_build b =
     \<lparr>od_openapi = ''3.1.0'', od_info = ob_info b,
      od_servers = (if ob_servers b = [] then None else Some (ob_servers b)),
      od_paths = ob_paths b,
      od_components = (if ob_schemas b = [] then None else Some (ob_schemas b)),
      od_tags = (if ob_tags b = [] then None else Some (ob_tags b))\<rparr>"

section \<open>Generation\<close>

record route_meta =
  rm_method :: http_method
  rm_path :: string
  rm_summary :: "string option"
  rm_description :: "string option"
  rm_tags :: "string list"
  rm_request_body_schema :: "json option"
  rm_response_schema :: "json option"
  rm_deprecated :: bool
  rm_experimental :: bool
  rm_status_code :: "nat option"
  rm_responses :: "json option"
  rm_operation_id :: "string option"
  rm_openapi_extra :: "json option"
  rm_include_in_schema :: bool

definition register_route :: "route_meta \<Rightarrow> route_meta list \<Rightarrow> route_meta list" where
  "register_route meta routes = routes @ [meta]"

definition auto_operation_id :: "(http_method \<Rightarrow> string) \<Rightarrow> http_method \<Rightarrow> string \<Rightarrow> string" where
  "auto_operation_id lower m path =
     lower m @ ''_'' @ trim_both (\<lambda>c. c = CHR ''_'') (map (\<lambda>c. if c \<in> set ''/{}:'' then CHR ''_'' else c) path)"

definition segment_param :: "string \<Rightarrow> string option" where
  "segment_param seg =
     (if seg \<noteq> [] \<and> hd seg = CHR 0x7B \<and> last seg = CHR 0x7D then Some (butlast (tl seg))
      else if seg \<noteq> [] \<and> hd seg = CHR '':'' then Some (tl seg)
      else None)"

definition path_params :: "string \<Rightarrow> string list" where
  "path_params path = List.map_filter segment_param (split_on (CHR ''/'') path)"

definition path_parameter :: "string \<Rightarrow> parameter" where
  "path_parameter name =
     \<lparr>pa_name = name, pa_location = In_Path, pa_description = None, pa_required = True, pa_schema = Some (Object so_string)\<rparr>"

definition route_tags :: "route_meta \<Rightarrow> string list" where
  "route_tags r =
     (if rm_experimental r \<and> \<not> list_ex (\<lambda>t. t = ''experimental'') (rm_tags r) then rm_tags r @ [''experimental''] else rm_tags r)"

definition is_body_method :: "http_method \<Rightarrow> bool" where
  "is_body_method m \<longleftrightarrow> m = POST \<or> m = PUT \<or> m = PATCH \<or> m = query_method"

definition route_body :: "route_meta \<Rightarrow> request_body option" where
  "route_body r =
     (if is_body_method (rm_method r)
      then Some \<lparr>rb_description = None, rb_content = [(''application/json'', map_option json_value_to_schema (rm_request_body_schema r))], rb_required = True\<rparr>
      else None)"

text \<open>The three generated responses, then those of the user; a status code of 400 or 500 for success is overwritten.\<close>

definition base_responses :: "route_meta \<Rightarrow> (string \<times> openapi_response) list" where
  "base_responses r =
     AList.update ''500'' \<lparr>rs_description = ''Internal server error'', rs_content = None\<rparr>
      (AList.update ''400'' \<lparr>rs_description = ''Bad request'', rs_content = None\<rparr>
        [(nat_str (case rm_status_code r of Some c \<Rightarrow> c | None \<Rightarrow> 200),
          \<lparr>rs_description = ''Successful response'', rs_content = Some [(''application/json'', map_option json_value_to_schema (rm_response_schema r))]\<rparr>)])"

definition json_entries :: "json option \<Rightarrow> (string \<times> json) list" where
  "json_entries v = (case v of Some (JObject kvs) \<Rightarrow> kvs | _ \<Rightarrow> [])"

definition route_responses :: "(json \<Rightarrow> openapi_response option) \<Rightarrow> route_meta \<Rightarrow> (string \<times> openapi_response) list" where
  "route_responses parse_response r =
     fold (\<lambda>(code, v) rs. case parse_response v of Some p \<Rightarrow> AList.update code p rs | None \<Rightarrow> rs) (json_entries (rm_responses r)) (base_responses r)"

definition route_extensions :: "route_meta \<Rightarrow> (string \<times> json) list" where
  "route_extensions r =
     fold (\<lambda>(k, v) es. if k = ''responses'' \<or> k = ''operationId'' then es else AList.update k v es) (json_entries (rm_openapi_extra r)) []"

definition route_operation :: "(json \<Rightarrow> openapi_response option) \<Rightarrow> (http_method \<Rightarrow> string) \<Rightarrow> route_meta \<Rightarrow> operation" where
  "route_operation parse_response lower r =
     \<lparr>op_summary = rm_summary r, op_description = rm_description r,
      op_operation_id = (case rm_operation_id r of Some i \<Rightarrow> Some i | None \<Rightarrow> Some (auto_operation_id lower (rm_method r) (rm_path r))),
      op_tags = route_tags r,
      op_parameters = map path_parameter (path_params (rm_path r)),
      op_request_body = route_body r,
      op_responses = route_responses parse_response r,
      op_deprecated = (if rm_deprecated r then Some True else None),
      op_extensions = route_extensions r\<rparr>"

definition add_route :: "(json \<Rightarrow> openapi_response option) \<Rightarrow> (http_method \<Rightarrow> string) \<Rightarrow> route_meta \<Rightarrow> openapi_builder \<Rightarrow> openapi_builder" where
  "add_route parse_response lower r b =
     (if rm_include_in_schema r then builder_operation (rm_method r) (rm_path r) (route_operation parse_response lower r) b else b)"

definition generate_document ::
  "(json \<Rightarrow> openapi_response option) \<Rightarrow> (http_method \<Rightarrow> string) \<Rightarrow> string \<Rightarrow> string \<Rightarrow> route_meta list \<Rightarrow> openapi_document" where
  "generate_document parse_response lower title version routes =
     builder_build (fold (add_route parse_response lower) routes
       (builder_tag ''default'' (Some ''Default endpoint group'')
         (builder_server ''http://localhost:8080'' (Some ''Local development'') (builder_new title version))))"

section \<open>Lookup in a document\<close>

definition item_get :: "http_method \<Rightarrow> path_item \<Rightarrow> operation option" where
  "item_get m it =
     (if m = query_method then pi_query it
      else case m of
             GET \<Rightarrow> pi_get it | POST \<Rightarrow> pi_post it | PUT \<Rightarrow> pi_put it | DELETE \<Rightarrow> pi_delete it | PATCH \<Rightarrow> pi_patch it
           | HEAD \<Rightarrow> pi_head it | OPTIONS \<Rightarrow> pi_options it
           | Other_method _ \<Rightarrow> if m = trace_method then pi_trace it else None)"

definition documented :: "http_method \<Rightarrow> bool" where
  "documented m \<longleftrightarrow> (case m of Other_method n \<Rightarrow> n = ''QUERY'' \<or> n = ''TRACE'' | _ \<Rightarrow> True)"

definition paths_operation :: "(string \<times> path_item) list \<Rightarrow> string \<Rightarrow> http_method \<Rightarrow> operation option" where
  "paths_operation ps path m = Option.bind (map_of ps path) (item_get m)"

lemma item_get_empty [simp]: "item_get m empty_item = None"
  by (simp add: item_get_def empty_item_def split: http_method.split)

lemma item_get_cases:
  "item_get GET it = pi_get it" "item_get POST it = pi_post it" "item_get PUT it = pi_put it" "item_get DELETE it = pi_delete it"
  "item_get PATCH it = pi_patch it" "item_get HEAD it = pi_head it" "item_get OPTIONS it = pi_options it"
  "item_get (Other_method n) it = (if n = ''QUERY'' then pi_query it else if n = ''TRACE'' then pi_trace it else None)"
  by (simp_all add: item_get_def query_method_def trace_method_def)

lemma item_insert_cases:
  "item_insert GET op it = it\<lparr>pi_get := Some op\<rparr>" "item_insert POST op it = it\<lparr>pi_post := Some op\<rparr>"
  "item_insert PUT op it = it\<lparr>pi_put := Some op\<rparr>" "item_insert DELETE op it = it\<lparr>pi_delete := Some op\<rparr>"
  "item_insert PATCH op it = it\<lparr>pi_patch := Some op\<rparr>" "item_insert HEAD op it = it\<lparr>pi_head := Some op\<rparr>"
  "item_insert OPTIONS op it = it\<lparr>pi_options := Some op\<rparr>"
  "item_insert (Other_method n) op it =
     (if n = ''QUERY'' then it\<lparr>pi_query := Some op\<rparr> else if n = ''TRACE'' then it\<lparr>pi_trace := Some op\<rparr> else it)"
  by (simp_all add: item_insert_def query_method_def trace_method_def)

lemma documented_cases:
  "documented GET" "documented POST" "documented PUT" "documented DELETE" "documented PATCH" "documented HEAD" "documented OPTIONS"
  "documented (Other_method n) \<longleftrightarrow> n = ''QUERY'' \<or> n = ''TRACE''"
  by (simp_all add: documented_def)

lemma item_get_insert: "item_get m' (item_insert m op it) = (if m' = m \<and> documented m then Some op else item_get m' it)"
proof (cases m)
  case (Other_method n)
  consider "n = ''QUERY''" | "n = ''TRACE''" | "n \<noteq> ''QUERY''" "n \<noteq> ''TRACE''" by blast
  then show ?thesis
  proof cases
    case 1
    then show ?thesis unfolding Other_method by (cases m') (simp_all add: item_insert_cases item_get_cases documented_cases)
  next
    case 2
    then show ?thesis unfolding Other_method by (cases m') (simp_all add: item_insert_cases item_get_cases documented_cases)
  next
    case 3
    then show ?thesis unfolding Other_method by (simp add: item_insert_cases documented_cases)
  qed
qed (cases m'; simp add: item_insert_cases item_get_cases documented_cases)+

lemma paths_operation_add:
  "paths_operation (ob_paths (builder_operation m path op b)) path' m' =
     (if path' = path \<and> m' = m \<and> documented m then Some op else paths_operation (ob_paths b) path' m')"
  by (auto simp: paths_operation_def builder_operation_def update_conv' item_get_insert split: option.split)

text \<open>The last registered route that is documented under a path and a method.\<close>

definition last_route :: "route_meta list \<Rightarrow> string \<Rightarrow> http_method \<Rightarrow> route_meta option" where
  "last_route routes path m =
     (case rev (filter (\<lambda>r. rm_include_in_schema r \<and> rm_path r = path \<and> rm_method r = m) routes) of [] \<Rightarrow> None | r # _ \<Rightarrow> Some r)"

lemma add_routes_operation:
  "paths_operation (ob_paths (fold (add_route parse lower) routes b)) path m =
     (case last_route routes path m of
        Some r \<Rightarrow> if documented m then Some (route_operation parse lower r) else paths_operation (ob_paths b) path m
      | None \<Rightarrow> paths_operation (ob_paths b) path m)"
proof (induction routes rule: rev_induct)
  case (snoc r routes)
  then show ?case by (auto simp: add_route_def paths_operation_add last_route_def split: list.splits)
qed (simp add: last_route_def)

section \<open>Examples and their schemas\<close>

fun json_type :: "json \<Rightarrow> string" where
  "json_type JNull = ''null''"
| "json_type (JBool _) = ''boolean''"
| "json_type (JNumber _) = ''integer''"
| "json_type (JString _) = ''string''"
| "json_type (JArray _) = ''array''"
| "json_type (JObject _) = ''object''"

text \<open>What a schema of this kind requires of a value: its type, the schemas of its elements and properties, and the required properties.\<close>

fun conforms :: "json \<Rightarrow> schema \<Rightarrow> bool" where
  "conforms v (Ref _) = False"
| "conforms (JArray xs) (Object so) \<longleftrightarrow>
     so_schema_type so = Some ''array'' \<and> (case so_items so of None \<Rightarrow> True | Some i \<Rightarrow> list_all (\<lambda>x. conforms x i) xs)"
| "conforms (JObject kvs) (Object so) \<longleftrightarrow>
     so_schema_type so = Some ''object'' \<and> list_all (\<lambda>k. k \<in> set (map fst kvs)) (so_required so) \<and>
     list_all (\<lambda>(k, v). case map_of (case so_properties so of Some ps \<Rightarrow> ps | None \<Rightarrow> []) k of None \<Rightarrow> True | Some p \<Rightarrow> conforms v p) kvs"
| "conforms v (Object so) \<longleftrightarrow> so_schema_type so = Some (json_type v)"

text \<open>The elements of every array have one schema, and the keys of every object are distinct.\<close>

fun uniform_value :: "json \<Rightarrow> bool" where
  "uniform_value (JArray xs) \<longleftrightarrow> list_all uniform_value xs \<and> list_all (\<lambda>x. json_value_to_schema x = json_value_to_schema (hd xs)) xs"
| "uniform_value (JObject kvs) \<longleftrightarrow> distinct (map fst kvs) \<and> list_all (\<lambda>(_, v). uniform_value v) kvs"
| "uniform_value _ = True"

lemmas typed_sel [simp] = typed_def so_string_def so_integer_def so_boolean_def

lemma example_conforms: "uniform_value v \<Longrightarrow> conforms v (json_value_to_schema v)"
proof (induction v rule: uniform_value.induct)
  case (1 xs)
  show ?case
  proof (cases xs)
    case (Cons x ys)
    have "conforms y (json_value_to_schema x)" if "y \<in> set xs" for y
    proof -
      have "json_value_to_schema y = json_value_to_schema (hd xs)" "uniform_value y" using 1(2) that by (auto simp: list_all_iff)
      with 1(1) [OF that] show ?thesis using Cons by simp
    qed
    then show ?thesis using Cons by (simp add: list_all_iff)
  qed simp
next
  case (2 kvs)
  have "conforms v p" if mem: "(k, v) \<in> set kvs" and p: "map_of (map (\<lambda>(k, v). (k, json_value_to_schema v)) kvs) k = Some p" for k v p
  proof -
    have "distinct (map fst (map (\<lambda>(k, v). (k, json_value_to_schema v)) kvs))" using 2(2) by (simp add: case_prod_unfold comp_def)
    then have "map_of (map (\<lambda>(k, v). (k, json_value_to_schema v)) kvs) k = Some (json_value_to_schema v)"
      using mem by (intro map_of_is_SomeI) force+
    moreover have "conforms v (json_value_to_schema v)" using 2(1) [OF mem] 2(2) mem by (auto simp: list_all_iff)
    ultimately show ?thesis using p by simp
  qed
  then show ?case by (auto simp: list_all_iff split: option.split)
qed auto

section \<open>Properties\<close>

text \<open>A generated document has under every path and method exactly the operation of the last route registered for them that is not
  excluded from the document, and none if there is no such route or the method has no place in a document; each operation declares a
  required parameter for every parameter of its path, in order.\<close>

theorem generated_document_exact:
  "paths_operation (od_paths (generate_document parse lower title version routes)) path m =
     (if documented m then map_option (route_operation parse lower) (last_route routes path m) else None)
   \<and> map pa_name (op_parameters (route_operation parse lower r)) = path_params (rm_path r)
   \<and> list_all (\<lambda>p. pa_location p = In_Path \<and> pa_required p) (op_parameters (route_operation parse lower r))"
proof -
  let ?b = "builder_tag ''default'' (Some ''Default endpoint group'')
    (builder_server ''http://localhost:8080'' (Some ''Local development'') (builder_new title version))"
  have "paths_operation (ob_paths ?b) path m = None"
    by (simp add: builder_tag_def builder_server_def builder_new_def paths_operation_def)
  then have "paths_operation (od_paths (generate_document parse lower title version routes)) path m =
     (if documented m then map_option (route_operation parse lower) (last_route routes path m) else None)"
    by (simp add: generate_document_def builder_build_def add_routes_operation split: option.split)
  moreover have "map pa_name (op_parameters (route_operation parse lower r)) = path_params (rm_path r)"
    by (simp add: route_operation_def path_parameter_def comp_def)
  moreover have "list_all (\<lambda>p. pa_location p = In_Path \<and> pa_required p) (op_parameters (route_operation parse lower r))"
    by (simp add: route_operation_def path_parameter_def list_all_iff)
  ultimately show ?thesis by blast
qed

section \<open>Defects\<close>

text \<open>Two paths with one generated operation id, which a document requires to be unique.\<close>

lemma operation_ids_collide: "auto_operation_id lower GET ''/a/b'' = auto_operation_id lower GET ''/a_b''"
  by (simp add: auto_operation_id_def)

text \<open>A JSON schema given for a body is documented as if it were an example: as an object with a property \<open>type\<close>.\<close>

lemma schema_taken_for_example:
  "json_value_to_schema (JObject [(''type'', JString ''string'')]) = Object (typed ''object'' (Some [(''type'', Object so_string)]) [''type''] None)
   \<and> \<not> conforms (JString s) (json_value_to_schema (JObject [(''type'', JString ''string'')]))"
  by simp

text \<open>Only the first element of an array is documented.\<close>

lemma mixed_array_not_documented: "\<not> conforms (JArray [JNumber 1, JString s]) (json_value_to_schema (JArray [JNumber 1, JString s]))"
  by simp

end
