(* ===== verification/Py_Request.thy ===== *)
theory Py_Request
  imports Crud Responses
begin

text \<open>
  The request object that Python handlers see, \<^verbatim>\<open>crates/justapi-py/src/request.rs\<close>: its attributes, its behaviour as a mapping, and the
  objects for headers, query parameters, URLs and state.

  \<^item> Python values are the datatype \<open>py\<close>; an object of the application is an opaque name. An integer that does not fit into 64 bits
    becomes the float next to it.
  \<^item> Bytes are read as text by the parameter \<open>lossy\<close>. Parsing of JSON and forms that a layer above has parsed are values of the request.

  The lemmas show which attributes a key reads, that the decoder of query parameters is the one of the generated handlers, how
  hosts, ports and URLs correspond, and where membership and lookup disagree.
\<close>

section \<open>Values and the connection\<close>

datatype py = PNone | PBool bool | PInt int | PFloat int | PStr string | PBytes string | PTuple "py list" | PList "py list" | PDict "(string \<times> py) list"
  | PHeaders "(string \<times> string) list" | PQueryParams "(string \<times> string) list" | PUrl string string "nat option" string string string
  | PState "(string \<times> py) list" | PObject string

datatype py_error = KeyError string | AttributeError string | NotImplementedError | ValueError | StopAsyncIteration | RuntimeError string

record conn =
  cn_method :: string
  cn_path :: string
  cn_path_params_raw :: "(string \<times> string) list"
  cn_query_string_raw :: string
  cn_headers_raw :: "(string \<times> string) list"
  cn_scheme :: string
  cn_client :: "(string \<times> nat) option"
  cn_app :: "py option"
  cn_http_version :: string
  cn_state :: "(string \<times> py) list"

definition same_name :: "string \<Rightarrow> string \<Rightarrow> bool" where
  "same_name a b \<longleftrightarrow> ascii_lower a = ascii_lower b"

definition host_of :: "(string \<Rightarrow> string) \<Rightarrow> conn \<Rightarrow> string option" where
  "host_of lossy c = map_option (\<lambda>(_, v). lossy v) (find (\<lambda>(k, _). same_name k ''host'') (cn_headers_raw c))"

text \<open>The part before the last colon, and the part after it.\<close>

definition rsplit_colon :: "string \<Rightarrow> (string \<times> string) option" where
  "rsplit_colon s =
     (if CHR '':'' \<in> set s
      then Some (rev (tl (dropWhile (\<lambda>c. c \<noteq> CHR '':'') (rev s))), rev (takeWhile (\<lambda>c. c \<noteq> CHR '':'') (rev s)))
      else None)"

definition parse_u16 :: "string \<Rightarrow> nat option" where
  "parse_u16 s = (if s \<noteq> [] \<and> list_all is_digit s \<and> digits_value s < 65536 then Some (digits_value s) else None)"

definition split_host_port :: "string \<Rightarrow> string \<times> nat option" where
  "split_host_port host =
     (case rsplit_colon host of
        Some (h, p) \<Rightarrow> if list_all is_digit p then (h, parse_u16 p) else (host, None)
      | None \<Rightarrow> (host, None))"

text \<open>Plus signs become spaces before the escapes are read.\<close>

fun decode_escapes :: "string \<Rightarrow> string" where
  "decode_escapes [] = []"
| "decode_escapes (b # s) =
     (if b = CHR ''%'' \<and> 2 \<le> length s
      then (case (crud_hex_digit (s ! 0), crud_hex_digit (s ! 1)) of
              (Some hi, Some lo) \<Rightarrow> char_of (hi * 16 + lo) # decode_escapes (drop 2 s)
            | _ \<Rightarrow> b # decode_escapes s)
      else b # decode_escapes s)"

definition py_percent_decode :: "(string \<Rightarrow> string) \<Rightarrow> string \<Rightarrow> string" where
  "py_percent_decode lossy s = lossy (decode_escapes (map (\<lambda>c. if c = CHR ''+'' then CHR '' '' else c) s))"

definition decode_pairs :: "(string \<Rightarrow> string) \<Rightarrow> string \<Rightarrow> (string \<times> string) list" where
  "decode_pairs lossy qs =
     map (\<lambda>pair. case Validate.split_once ''='' pair of
                    Some (k, v) \<Rightarrow> (py_percent_decode lossy k, py_percent_decode lossy v)
                  | None \<Rightarrow> (py_percent_decode lossy pair, py_percent_decode lossy []))
       (filter (\<lambda>p. p \<noteq> []) (split_on (CHR ''&'') qs))"

definition build_query_params :: "(string \<Rightarrow> string) \<Rightarrow> conn \<Rightarrow> py" where
  "build_query_params lossy c = PQueryParams (decode_pairs lossy (lossy (cn_query_string_raw c)))"

definition build_headers :: "conn \<Rightarrow> py" where
  "build_headers c = PHeaders (cn_headers_raw c)"

text \<open>A dictionary built by setting one entry after the other.\<close>

definition dict_of :: "(string \<times> py) list \<Rightarrow> py" where
  "dict_of kvs = PDict (fold (\<lambda>(k, v). AList.update k v) kvs [])"

definition build_cookies :: "(string \<Rightarrow> string) \<Rightarrow> conn \<Rightarrow> py" where
  "build_cookies lossy c =
     dict_of (concat (map (\<lambda>(_, v).
       List.map_filter (\<lambda>part. map_option (\<lambda>(ck, cv). (trim_both is_space ck, PStr cv)) (Validate.split_once ''='' (trim_both is_space part)))
         (split_on (CHR '';'') (lossy v)))
       (filter (\<lambda>(k, _). same_name k ''cookie'') (cn_headers_raw c))))"

definition build_url :: "(string \<Rightarrow> string) \<Rightarrow> string \<Rightarrow> string \<Rightarrow> string \<Rightarrow> string \<Rightarrow> string \<Rightarrow> py" where
  "build_url lossy scheme host path query fragment =
     (case split_host_port host of (hostname, port) \<Rightarrow> PUrl scheme hostname port path (lossy query) fragment)"

definition conn_client :: "conn \<Rightarrow> py" where
  "conn_client c = (case cn_client c of Some (h, p) \<Rightarrow> PTuple [PStr h, PInt (int p)] | None \<Rightarrow> PNone)"

definition conn_path_params :: "conn \<Rightarrow> py" where
  "conn_path_params c = dict_of (map (\<lambda>(k, v). (k, PStr v)) (cn_path_params_raw c))"

definition conn_host :: "(string \<Rightarrow> string) \<Rightarrow> conn \<Rightarrow> string" where
  "conn_host lossy c = (case host_of lossy c of Some h \<Rightarrow> h | None \<Rightarrow> ''localhost'')"

definition conn_url :: "(string \<Rightarrow> string) \<Rightarrow> conn \<Rightarrow> py" where
  "conn_url lossy c = build_url lossy (cn_scheme c) (conn_host lossy c) (cn_path c) (cn_query_string_raw c) []"

definition conn_base_url :: "(string \<Rightarrow> string) \<Rightarrow> conn \<Rightarrow> py" where
  "conn_base_url lossy c = build_url lossy (cn_scheme c) (conn_host lossy c) [] [] []"

definition build_scope :: "(string \<Rightarrow> string) \<Rightarrow> conn \<Rightarrow> py" where
  "build_scope lossy c =
     PDict [(''type'', PStr ''http''), (''method'', PStr (cn_method c)), (''http_version'', PStr (cn_http_version c)),
       (''scheme'', PStr (cn_scheme c)), (''path'', PStr (cn_path c)), (''raw_path'', PNone), (''query_string'', PBytes (cn_query_string_raw c)),
       (''headers'', PList (map (\<lambda>(k, v). PTuple [PBytes k, PBytes v]) (cn_headers_raw c))),
       (''client'', conn_client c),
       (''server'', case host_of lossy c of
                      Some h \<Rightarrow> (case split_host_port h of (host, port) \<Rightarrow> PTuple [PStr host, PInt (int (case port of Some p \<Rightarrow> p | None \<Rightarrow> 0))])
                    | None \<Rightarrow> PNone),
       (''app'', case cn_app c of Some a \<Rightarrow> a | None \<Rightarrow> PNone), (''state'', PDict (cn_state c)), (''path_params'', conn_path_params c)]"

section \<open>The request\<close>

record py_request =
  pr_conn :: conn
  pr_body_raw :: string
  pr_db_url_raw :: "string option"
  pr_form_data :: "py option"
  pr_path_params_cached :: "py option"
  pr_parsed_body :: "py option"

text \<open>Claims of a token as Python values: objects inside the claims are dropped.\<close>

fun json_value_to_request :: "json \<Rightarrow> py" where
  "json_value_to_request JNull = PNone"
| "json_value_to_request (JBool b) = PBool b"
| "json_value_to_request (JNumber n) = (if - (2 ^ 63) \<le> n \<and> n < 2 ^ 63 then PInt n else PFloat n)"
| "json_value_to_request (JString s) = PStr s"
| "json_value_to_request (JArray xs) = PList (map json_value_to_request xs)"
| "json_value_to_request (JObject _) = PNone"

definition claims_state :: "(string \<Rightarrow> json option) \<Rightarrow> string option \<Rightarrow> (string \<times> py) list" where
  "claims_state parse auth_claims =
     (case Option.bind auth_claims parse of
        Some (JObject kvs) \<Rightarrow> [(''auth'', dict_of (map (\<lambda>(k, v). (k, json_value_to_request v)) kvs))]
      | _ \<Rightarrow> [])"

definition request_new :: "(string \<Rightarrow> json option) \<Rightarrow> conn \<Rightarrow> string \<Rightarrow> string option \<Rightarrow> py option \<Rightarrow> string option \<Rightarrow> py_request" where
  "request_new parse c body db_url form_data auth_claims =
     \<lparr>pr_conn = c\<lparr>cn_state := claims_state parse auth_claims\<rparr>, pr_body_raw = body, pr_db_url_raw = db_url, pr_form_data = form_data,
      pr_path_params_cached = None, pr_parsed_body = None\<rparr>"

definition set_parsed_body :: "py \<Rightarrow> py_request \<Rightarrow> py_request" where
  "set_parsed_body v r = r\<lparr>pr_parsed_body := Some v\<rparr>"

definition request_path_params :: "py_request \<Rightarrow> py \<times> py_request" where
  "request_path_params r =
     (case pr_path_params_cached r of
        Some d \<Rightarrow> (d, r)
      | None \<Rightarrow> (conn_path_params (pr_conn r), r\<lparr>pr_path_params_cached := Some (conn_path_params (pr_conn r))\<rparr>))"

definition request_json :: "(string \<Rightarrow> py_error + py) \<Rightarrow> py_request \<Rightarrow> py_error + py" where
  "request_json loads r = (case pr_parsed_body r of Some v \<Rightarrow> Inr v | None \<Rightarrow> loads (pr_body_raw r))"

definition validated_body :: "py_request \<Rightarrow> py" where
  "validated_body r = (case pr_parsed_body r of Some v \<Rightarrow> v | None \<Rightarrow> PNone)"

definition request_form :: "(string \<Rightarrow> string) \<Rightarrow> (string \<Rightarrow> string) \<Rightarrow> py_request \<Rightarrow> py" where
  "request_form lossy lower r =
     (case pr_form_data r of
        Some d \<Rightarrow> d
      | None \<Rightarrow>
          (let ct = (case find (\<lambda>(k, _). same_name k ''content-type'') (cn_headers_raw (pr_conn r)) of
                       Some (_, v) \<Rightarrow> lower (lossy v) | None \<Rightarrow> [])
           in if starts_with ct ''application/x-www-form-urlencoded''
              then dict_of (map (\<lambda>(k, v). (k, PStr v)) (decode_pairs lossy (lossy (pr_body_raw r))))
              else PDict []))"

definition receive_message :: "py \<Rightarrow> py" where
  "receive_message body = PDict [(''type'', PStr ''http.request''), (''body'', body), (''more_body'', PBool False)]"

definition state_get :: "string \<Rightarrow> conn \<Rightarrow> py option" where
  "state_get k c = map_of (cn_state c) k"

definition url_for :: "(py \<Rightarrow> py_error + py) \<Rightarrow> conn \<Rightarrow> py_error + py" where
  "url_for call c = (case cn_app c of Some a \<Rightarrow> call a | None \<Rightarrow> Inl NotImplementedError)"

text \<open>The attributes a connection serves under a key.\<close>

definition conn_attribute :: "(string \<Rightarrow> string) \<Rightarrow> conn \<Rightarrow> string \<Rightarrow> py option" where
  "conn_attribute lossy c key =
     map_of [(''method'', PStr (cn_method c)), (''path'', PStr (cn_path c)), (''path_params'', conn_path_params c),
       (''query_string'', PBytes (cn_query_string_raw c)), (''headers'', build_headers c), (''query_params'', build_query_params lossy c),
       (''cookies'', build_cookies lossy c), (''scheme'', PStr (cn_scheme c)), (''client'', conn_client c),
       (''app'', case cn_app c of Some a \<Rightarrow> a | None \<Rightarrow> PNone), (''url'', conn_url lossy c), (''base_url'', conn_base_url lossy c),
       (''scope'', build_scope lossy c), (''state'', PState (cn_state c))] key"

definition connection_get :: "(string \<Rightarrow> string) \<Rightarrow> string \<Rightarrow> py option \<Rightarrow> conn \<Rightarrow> py" where
  "connection_get lossy key dflt c =
     (case conn_attribute lossy c key of
        Some v \<Rightarrow> v
      | None \<Rightarrow> (case state_get key c of Some v \<Rightarrow> v | None \<Rightarrow> (case dflt of Some d \<Rightarrow> d | None \<Rightarrow> PNone)))"

definition request_get :: "(string \<Rightarrow> string) \<Rightarrow> string \<Rightarrow> py option \<Rightarrow> py_request \<Rightarrow> py \<times> py_request" where
  "request_get lossy key dflt r =
     (if key = ''path_params'' then request_path_params r
      else if key = ''body'' then (case pr_parsed_body r of Some v \<Rightarrow> v | None \<Rightarrow> PBytes (pr_body_raw r), r)
      else if key = ''db_url'' then (case pr_db_url_raw r of Some s \<Rightarrow> PStr s | None \<Rightarrow> PNone, r)
      else if key = ''form'' then (case pr_form_data r of Some d \<Rightarrow> d | None \<Rightarrow> PNone, r)
      else (connection_get lossy key dflt (pr_conn r), r))"

definition item_or_key_error :: "string \<Rightarrow> py \<Rightarrow> py_error + py" where
  "item_or_key_error key v = (if v = PNone then Inl (KeyError key) else Inr v)"

definition request_getitem :: "(string \<Rightarrow> string) \<Rightarrow> string \<Rightarrow> py_request \<Rightarrow> (py_error + py) \<times> py_request" where
  "request_getitem lossy key r = (case request_get lossy key None r of (v, r) \<Rightarrow> (item_or_key_error key v, r))"

definition connection_getitem :: "(string \<Rightarrow> string) \<Rightarrow> string \<Rightarrow> conn \<Rightarrow> py_error + py" where
  "connection_getitem lossy key c = item_or_key_error key (connection_get lossy key None c)"

definition connection_setitem :: "string \<Rightarrow> py \<Rightarrow> conn \<Rightarrow> conn" where
  "connection_setitem key v c = c\<lparr>cn_state := AList.update key v (cn_state c)\<rparr>"

definition request_setitem :: "string \<Rightarrow> py \<Rightarrow> py_request \<Rightarrow> py_request" where
  "request_setitem key v r = r\<lparr>pr_conn := connection_setitem key v (pr_conn r)\<rparr>"

definition conn_names :: "string list" where
  "conn_names = [''method'', ''path'', ''path_params'', ''query_string'', ''headers'', ''query_params'', ''cookies'', ''scope'', ''url'', ''base_url'',
     ''state'', ''scheme'']"

definition connection_contains :: "string \<Rightarrow> conn \<Rightarrow> bool" where
  "connection_contains key c \<longleftrightarrow> state_get key c \<noteq> None \<or> key \<in> set conn_names"

definition request_contains :: "string \<Rightarrow> py_request \<Rightarrow> bool" where
  "request_contains key r \<longleftrightarrow> state_get key (pr_conn r) \<noteq> None \<or> key \<in> set conn_names \<or> key = ''body'' \<or> key = ''db_url''"

section \<open>Headers, query parameters, URLs\<close>

definition headers_find :: "(string \<Rightarrow> string) \<Rightarrow> (string \<times> string) list \<Rightarrow> string \<Rightarrow> string option" where
  "headers_find lossy raw key = map_option (\<lambda>(_, v). lossy v) (find (\<lambda>(k, _). same_name k key) (rev raw))"

definition headers_get :: "(string \<Rightarrow> string) \<Rightarrow> (string \<times> string) list \<Rightarrow> string \<Rightarrow> py option \<Rightarrow> py" where
  "headers_get lossy raw key dflt =
     (case headers_find lossy raw key of Some v \<Rightarrow> PStr v | None \<Rightarrow> (case dflt of Some d \<Rightarrow> d | None \<Rightarrow> PNone))"

definition headers_getitem :: "(string \<Rightarrow> string) \<Rightarrow> (string \<times> string) list \<Rightarrow> string \<Rightarrow> py_error + py" where
  "headers_getitem lossy raw key = (case headers_find lossy raw key of Some v \<Rightarrow> Inr (PStr v) | None \<Rightarrow> Inl (KeyError key))"

definition headers_contains :: "(string \<times> string) list \<Rightarrow> string \<Rightarrow> bool" where
  "headers_contains raw key \<longleftrightarrow> list_ex (\<lambda>(k, _). same_name k key) (rev raw)"

definition headers_items :: "(string \<Rightarrow> string) \<Rightarrow> (string \<times> string) list \<Rightarrow> py" where
  "headers_items lossy raw = PList (map (\<lambda>(k, v). PTuple [PStr (lossy k), PStr (lossy v)]) raw)"

definition headers_keys :: "(string \<Rightarrow> string) \<Rightarrow> (string \<times> string) list \<Rightarrow> py" where
  "headers_keys lossy raw = PList (map (\<lambda>(k, _). PStr (lossy k)) raw)"

definition headers_values :: "(string \<Rightarrow> string) \<Rightarrow> (string \<times> string) list \<Rightarrow> py" where
  "headers_values lossy raw = PList (map (\<lambda>(_, v). PStr (lossy v)) raw)"

definition headers_raw :: "(string \<times> string) list \<Rightarrow> py" where
  "headers_raw raw = PList (map (\<lambda>(k, v). PTuple [PBytes k, PBytes v]) raw)"

definition query_find :: "(string \<times> string) list \<Rightarrow> string \<Rightarrow> string option" where
  "query_find items key = map_option snd (find (\<lambda>(k, _). k = key) (rev items))"

definition query_get :: "(string \<times> string) list \<Rightarrow> string \<Rightarrow> py option \<Rightarrow> py" where
  "query_get items key dflt = (case query_find items key of Some v \<Rightarrow> PStr v | None \<Rightarrow> (case dflt of Some d \<Rightarrow> d | None \<Rightarrow> PNone))"

definition query_getitem :: "(string \<times> string) list \<Rightarrow> string \<Rightarrow> py_error + py" where
  "query_getitem items key = (case query_find items key of Some v \<Rightarrow> Inr (PStr v) | None \<Rightarrow> Inl (KeyError key))"

definition query_getlist :: "(string \<times> string) list \<Rightarrow> string \<Rightarrow> py" where
  "query_getlist items key = PList (map (\<lambda>(_, v). PStr v) (filter (\<lambda>(k, _). k = key) items))"

definition query_contains :: "(string \<times> string) list \<Rightarrow> string \<Rightarrow> bool" where
  "query_contains items key \<longleftrightarrow> list_ex (\<lambda>(k, _). k = key) (rev items)"

definition query_multi_items :: "(string \<times> string) list \<Rightarrow> py" where
  "query_multi_items items = PList (map (\<lambda>(k, v). PTuple [PStr k, PStr v]) items)"

definition query_keys :: "(string \<times> string) list \<Rightarrow> py" where
  "query_keys items = PList (map (\<lambda>(k, _). PStr k) items)"

definition query_values :: "(string \<times> string) list \<Rightarrow> py" where
  "query_values items = PList (map (\<lambda>(_, v). PStr v) items)"

definition url_string :: "string \<Rightarrow> string \<Rightarrow> nat option \<Rightarrow> string \<Rightarrow> string \<Rightarrow> string \<Rightarrow> string" where
  "url_string scheme host port path query fragment =
     scheme @ ''://'' @ host @
     (case port of
        Some p \<Rightarrow> if scheme = ''http'' \<and> p = 80 \<or> scheme = ''https'' \<and> p = 443 then [] else '':'' @ nat_str p
      | None \<Rightarrow> []) @
     path @ (if query = [] then [] else ''?'' @ query) @ (if fragment = [] then [] else ''#'' @ fragment)"

fun url_str :: "py \<Rightarrow> string" where
  "url_str (PUrl s h p pa q f) = url_string s h p pa q f"
| "url_str _ = []"

definition url_repr :: "py \<Rightarrow> string" where
  "url_repr u = ''URL('' @ url_str u @ '')''"

definition url_eq :: "py \<Rightarrow> py \<Rightarrow> bool" where
  "url_eq a b \<longleftrightarrow> url_str a = url_str b"

definition state_getattr :: "string \<Rightarrow> (string \<times> py) list \<Rightarrow> py_error + py" where
  "state_getattr k d = (case map_of d k of Some v \<Rightarrow> Inr v | None \<Rightarrow> Inl (AttributeError k))"

definition state_getitem :: "string \<Rightarrow> (string \<times> py) list \<Rightarrow> py_error + py" where
  "state_getitem k d = (case map_of d k of Some v \<Rightarrow> Inr v | None \<Rightarrow> Inl (KeyError k))"

definition state_setitem :: "string \<Rightarrow> py \<Rightarrow> (string \<times> py) list \<Rightarrow> (string \<times> py) list" where
  "state_setitem k v d = AList.update k v d"

definition state_delitem :: "string \<Rightarrow> (string \<times> py) list \<Rightarrow> (py_error + unit) \<times> (string \<times> py) list" where
  "state_delitem k d = (if map_of d k = None then (Inl (KeyError k), d) else (Inr (), AList.delete k d))"

definition state_contains :: "string \<Rightarrow> (string \<times> py) list \<Rightarrow> bool" where
  "state_contains k d \<longleftrightarrow> map_of d k \<noteq> None"

text \<open>The stream of a body: one chunk; an iterator over it starts anew.\<close>

record request_stream =
  rst_body :: string
  rst_done :: bool

definition stream_aiter :: "request_stream \<Rightarrow> request_stream" where
  "stream_aiter s = s\<lparr>rst_done := False\<rparr>"

definition stream_anext :: "request_stream \<Rightarrow> (py_error + py) \<times> request_stream" where
  "stream_anext s = (if rst_done s then (Inl StopAsyncIteration, s) else (Inr (PBytes (rst_body s)), s\<lparr>rst_done := True\<rparr>))"

section \<open>Lemmas\<close>

lemma crud_hex_digit_space: "crud_hex_digit (CHR '' '') = None" "crud_hex_digit (CHR ''+'') = None"
  by (simp_all add: crud_hex_digit_def)

text \<open>The two decoders of escaped text are the same function.\<close>

lemma decode_escapes_eq: "decode_escapes (map (\<lambda>c. if c = CHR ''+'' then CHR '' '' else c) s) = percent_bytes s"
proof (induction s rule: percent_bytes.induct)
  case (2 b s)
  let ?f = "\<lambda>c. if c = CHR ''+'' then CHR '' '' else c"
  have hex: "crud_hex_digit (map ?f s ! i) = crud_hex_digit (s ! i)" if "i < length s" for i
    using that crud_hex_digit_space by simp
  show ?case
  proof (cases "b = CHR ''%'' \<and> 2 \<le> length s")
    case True
    then have "crud_hex_digit (map ?f s ! 0) = crud_hex_digit (s ! 0)" "crud_hex_digit (map ?f s ! 1) = crud_hex_digit (s ! 1)"
      using hex [of 0] hex [of 1] by linarith+
    then show ?thesis using True 2 by (simp add: drop_map split: option.split)
  next
    case False
    then show ?thesis using 2 by auto
  qed
qed simp

theorem query_decoders_agree: "py_percent_decode lossy s = Crud.percent_decode lossy s"
  by (simp add: py_percent_decode_def Crud.percent_decode_def decode_escapes_eq)

lemma rsplit_last: "CHR '':'' \<notin> set p \<Longrightarrow> rsplit_colon (h @ CHR '':'' # p) = Some (h, p)"
  by (simp add: rsplit_colon_def takeWhile_append dropWhile_append)

lemma colon_not_digit: "list_all is_digit p \<Longrightarrow> CHR '':'' \<notin> set p"
  by (auto simp: list_all_iff is_digit_def)

lemma split_host_port_port: "p < 65536 \<Longrightarrow> split_host_port (h @ '':'' @ nat_str p) = (h, Some p)"
  using nat_str_digits [of p] rsplit_last [OF colon_not_digit, of "nat_str p" h]
  by (simp add: split_host_port_def parse_u16_def digits_value_nat_str)

lemma split_host_port_none: "CHR '':'' \<notin> set h \<Longrightarrow> split_host_port h = (h, None)"
  by (simp add: split_host_port_def rsplit_colon_def)

text \<open>The URL of a request shows the host header as the client sent it, apart from a port that is the default of the scheme.\<close>

theorem request_url_shows_host:
  assumes "host_of lossy c = Some (h @ '':'' @ nat_str p)" and "p < 65536"
  shows "url_str (conn_url lossy c) = cn_scheme c @ ''://'' @ h @
      (if cn_scheme c = ''http'' \<and> p = 80 \<or> cn_scheme c = ''https'' \<and> p = 443 then [] else '':'' @ nat_str p) @
      cn_path c @ (if lossy (cn_query_string_raw c) = [] then [] else ''?'' @ lossy (cn_query_string_raw c))"
  using assms split_host_port_port [OF assms(2), of h] by (simp add: conn_url_def conn_host_def build_url_def url_string_def)

text \<open>Membership and lookup of a request agree for every key but four, if no value of the state is \<open>None\<close>.\<close>

lemma attribute_keys: "conn_attribute lossy c key \<noteq> None \<longleftrightarrow> key \<in> set conn_names \<or> key = ''client'' \<or> key = ''app''"
  by (auto simp: conn_attribute_def conn_names_def)

lemma attribute_not_none:
  "conn_attribute lossy c key = Some v \<Longrightarrow> key \<noteq> ''client'' \<Longrightarrow> key \<noteq> ''app'' \<Longrightarrow> v \<noteq> PNone"
  by (auto simp: conn_attribute_def dict_of_def conn_path_params_def build_headers_def build_query_params_def build_cookies_def conn_url_def
      conn_base_url_def build_url_def build_scope_def split: if_splits prod.splits)

theorem request_membership_agrees:
  assumes "key \<notin> {''client'', ''app'', ''form'', ''db_url''}" and "state_get key (pr_conn r) \<noteq> Some PNone" and "pr_parsed_body r \<noteq> Some PNone"
    and "pr_path_params_cached r \<noteq> Some PNone"
  shows "request_contains key r \<longleftrightarrow> (\<exists>v. fst (request_getitem lossy key r) = Inr v)"
proof -
  consider "key = ''path_params''" | "key = ''body''" | "key \<noteq> ''path_params''" "key \<noteq> ''body''" by blast
  then show ?thesis
  proof cases
    case 1
    then have "request_contains key r" by (simp add: request_contains_def conn_names_def)
    then show ?thesis using 1 assms(4)
      by (cases "pr_path_params_cached r")
        (simp_all add: request_getitem_def request_get_def request_path_params_def item_or_key_error_def conn_path_params_def dict_of_def)
  next
    case 2
    then show ?thesis using assms(3)
      by (cases "pr_parsed_body r") (simp_all add: request_contains_def request_getitem_def request_get_def item_or_key_error_def)
  next
    case 3
    have get: "fst (request_getitem lossy key r) = item_or_key_error key (connection_get lossy key None (pr_conn r))"
      using assms(1) 3 by (simp add: request_getitem_def request_get_def)
    show ?thesis
    proof (cases "conn_attribute lossy (pr_conn r) key")
      case None
      then have "request_contains key r \<longleftrightarrow> state_get key (pr_conn r) \<noteq> None"
        using attribute_keys [of lossy "pr_conn r" key] assms(1) 3 by (simp add: request_contains_def)
      then show ?thesis using None assms(2) unfolding get
        by (cases "state_get key (pr_conn r)") (simp_all add: connection_get_def item_or_key_error_def)
    next
      case (Some v)
      then have "request_contains key r"
        using attribute_keys [of lossy "pr_conn r" key] assms(1) by (simp add: request_contains_def)
      moreover have "v \<noteq> PNone" using attribute_not_none [OF Some] assms(1) by simp
      ultimately show ?thesis unfolding get using Some by (simp add: connection_get_def item_or_key_error_def)
    qed
  qed
qed

section \<open>Defects\<close>

text \<open>The peer's address can be read but is no member; the database URL is a member but may not be readable.\<close>

lemma client_no_member:
  assumes "cn_client (pr_conn r) = Some a" and "state_get ''client'' (pr_conn r) = None"
  shows "\<not> request_contains ''client'' r \<and> (\<exists>v. fst (request_getitem lossy ''client'' r) = Inr v)"
  using assms by (cases a)
    (simp add: request_contains_def conn_names_def request_getitem_def request_get_def connection_get_def conn_attribute_def conn_client_def
      item_or_key_error_def)

lemma db_url_member_unreadable:
  assumes "pr_db_url_raw r = None"
  shows "request_contains ''db_url'' r \<and> fst (request_getitem lossy ''db_url'' r) = Inl (KeyError ''db_url'')"
  using assms by (simp add: request_contains_def request_getitem_def request_get_def item_or_key_error_def)

text \<open>An item stored under the name of an attribute cannot be read back.\<close>

lemma stored_attribute_shadowed: "fst (request_getitem lossy ''method'' (request_setitem ''method'' v r)) = Inr (PStr (cn_method (pr_conn r)))"
  by (simp add: request_getitem_def request_get_def connection_get_def conn_attribute_def request_setitem_def connection_setitem_def item_or_key_error_def)

text \<open>Objects inside the claims of a token reach the handler as \<open>None\<close>.\<close>

lemma nested_claims_dropped:
  "parse cs = Some (JObject [(k, JObject kvs)]) \<Longrightarrow> state_get ''auth'' (pr_conn (request_new parse c b d f (Some cs))) = Some (PDict [(k, PNone)])"
  by (simp add: state_get_def request_new_def claims_state_def dict_of_def)

text \<open>Of two host headers the URL is built from the first, the headers object answers the last.\<close>

lemma host_headers_disagree:
  assumes "cn_headers_raw c = [(''host'', a), (''host'', b)]"
  shows "host_of lossy c = Some (lossy a) \<and> headers_find lossy (cn_headers_raw c) ''host'' = Some (lossy b)"
  using assms by (simp add: host_of_def headers_find_def same_name_def)

text \<open>A port that is no port is dropped with its colon.\<close>

lemma port_dropped: "split_host_port ''h:99999'' = (''h'', None)"
  by (simp add: split_host_port_def rsplit_colon_def parse_u16_def is_digit_def)

end
