(* ===== verification/Spec2Isabelle.thy ===== *)
theory Spec2Isabelle
  imports Pd_Scheduler Sched_Engine Fleet Auth Resilience Route_Table Coalesce Validate Dag Xml Static_Files Compress Extract Batching Crud Migrations Openai_Http Server_Setup Listener
    Rate_Limit Prefork Background Edge Openapi Diagnostics Py_Request
begin

text \<open>
  \<^bold>\<open>A verification of the Rust core of JustAPI.\<close>

  JustAPI is a web and inference server. Its Rust core has two halves and two crates around them. The inference crate
  (\<^verbatim>\<open>src/crates/justapi-inference\<close>) runs language models: a scheduler batches requests, a block pool and two prefix caches
  manage the key-value memory, speculative decoding accelerates generation, and a control plane with a router, an
  autoscaler and a supervisor manages replicas. The HTTP crate (\<^verbatim>\<open>src/crates/justapi-core\<close>) serves requests: a route
  table finds the handler, and a chain of middlewares around it authenticates, limits, protects and decorates. The Python
  extension (\<^verbatim>\<open>src/crates/justapi-py\<close>) runs handlers written in Python, and the command line (\<^verbatim>\<open>src/crates/justapi-cli\<close>) starts worker
  processes.

  \<^bold>\<open>The theories and the code they model.\<close>

  \<^item> \<open>Prelude\<close>: machine integers, vectors and slices that panic out of range, strings, loops that may panic, choice
    and update of vector elements; the lemmas all theories share.
  \<^item> \<open>Kv_Cache\<close> models \<^verbatim>\<open>kv_cache.rs\<close>: \<open>KvBlockPool\<close> as the record \<open>kv_block_pool\<close> with one definition per method
    (\<open>alloc\<close>, \<open>retain\<close>, \<open>reclaim\<close>, \<open>release\<close>, \<open>free_cached\<close>, \<open>pin\<close>, \<open>unpin\<close>, \<open>evict\<close> and the clock sweep
    \<open>evict_one\<close>), \<open>Sequence\<close> and \<open>PrefixCache\<close>. It shows that the pool refines an abstract machine over free, used and
    cached blocks, that a block in use is not handed out again, how the clock sweep chooses, and that a prefix hit is
    sound and maximal.
  \<^item> \<open>Radix_Cache\<close> models \<^verbatim>\<open>radix_cache.rs\<close>: the tree as a datatype, insertion with edge splitting, lookup and the two
    evictions. It shows that a lookup matches the longest stored prefix and returns the blocks computed for it, that
    no run panics, and that eviction terminates and conserves blocks.
  \<^item> \<open>Model_Types\<close> models \<^verbatim>\<open>model.rs\<close>: sampling parameters, tokens and \<open>MockModel\<close>.
  \<^item> \<open>Scheduler\<close> models \<^verbatim>\<open>scheduler.rs\<close> over the pool and the radix cache: admission, chunked prefill, decode, step
    completion, retirement, cancellation and hand-over. It shows the token and batch budgets, that no request is lost or
    reordered, that the prefill chunks partition a prompt, and that ids stay unique.
  \<^item> \<open>Pd_Scheduler\<close> models \<^verbatim>\<open>pd.rs\<close>: a prefill and a decode scheduler with the hand-over between them.
  \<^item> \<open>Spec_Decode\<close> models \<^verbatim>\<open>spec_decode.rs\<close> and \<^verbatim>\<open>spec_decode_tree.rs\<close>: a round of the draft scheme and of the tree scheme, and
    the loop around them. Both are refined to plain greedy decoding through the contract \<open>refining_round\<close>.
  \<^item> \<open>Control_Plane\<close> models \<^verbatim>\<open>control_plane.rs\<close>, \<^verbatim>\<open>router.rs\<close> and \<^verbatim>\<open>gateway.rs\<close>: version resolution, replica selection and the
    readiness gate. \<open>Fleet\<close> models \<^verbatim>\<open>autoscaler.rs\<close> and \<^verbatim>\<open>supervisor.rs\<close> on top of the router, through the contract
    \<open>replica_directory\<close>.
  \<^item> \<open>Http_Types\<close> models the middleware chain of \<^verbatim>\<open>middleware.rs\<close> and the requests, responses and JSON values it handles.
    \<open>Middleware\<close> models the access log, CORS, security headers and the rate-limit middlewares, \<open>Auth\<close> the JWT and API-key
    gates and the OAuth2 password flow of the same file, through the contract \<open>auth_gate\<close>.
  \<^item> \<open>Resilience\<close> models \<^verbatim>\<open>resilience.rs\<close>: circuit breakers, timeout, retry policy, bulkhead, fallback and fault injection.
  \<^item> \<open>Route_Table\<close> models \<^verbatim>\<open>router.rs\<close> of the HTTP crate: the method table and its bounded lookup cache, through the contract
    \<open>lossy_cache\<close>.
  \<^item> \<open>Sampling\<close> and \<open>Sched_Engine\<close> model \<^verbatim>\<open>scheduler_engine.rs\<close>: the choice of a token among the logits, and the engine that drives the
    scheduler, calls the model and feeds one stream per request. They show that sampling keeps the top-k nucleus and that a
    step of the loop delivers the tokens it computed and closes the streams of finished requests.
  \<^item> \<open>Inference_Engine\<close> models \<^verbatim>\<open>engine.rs\<close> and \<^verbatim>\<open>openai.rs\<close>: the registry, streaming generation and the drivers of the OpenAI protocol.
    It shows that a streamed and a complete answer agree, that a client reads back the events of a stream, and that an engine
    with tree speculation streams what the model alone generates. \<open>Openai_Http\<close> models the endpoints of \<^verbatim>\<open>openai.rs\<close> of the HTTP
    crate, alone, over the scheduler, and behind the control plane, where only requests with an eligible replica are served.
  \<^item> \<open>Coalesce\<close> models \<^verbatim>\<open>coalesce.rs\<close> as interleaved tasks: at most one leader per key computes, and followers get the answer
    of their own key.
  \<^item> \<open>Validate\<close> models \<^verbatim>\<open>validate.rs\<close> (formats, coercion, schema errors), \<open>Responses\<close> the response builders of \<^verbatim>\<open>lib.rs\<close> and the typed
    errors of \<^verbatim>\<open>error.rs\<close>, \<open>Xml\<close> the conversion of \<^verbatim>\<open>xml.rs\<close>, which refines a recursive reading of the document, and \<open>Extract\<close> the
    extractors, uploads and typed responses of \<^verbatim>\<open>extract.rs\<close>, \<^verbatim>\<open>multipart.rs\<close> and \<^verbatim>\<open>serialize.rs\<close>.
  \<^item> \<open>Static_Files\<close> models \<^verbatim>\<open>static_files.rs\<close>: path resolution, ranges and conditional requests; files outside the root are not
    served. \<open>Compress\<close> models \<^verbatim>\<open>compress.rs\<close>: content negotiation and the compression middleware.
  \<^item> \<open>Memory\<close> models the arena and the buffer pool of \<^verbatim>\<open>memory.rs\<close>, \<open>Observability\<close> the metrics, health checks and alerts of
    \<^verbatim>\<open>metrics.rs\<close>, \<^verbatim>\<open>health.rs\<close> and \<^verbatim>\<open>alerting.rs\<close>.
  \<^item> \<open>Server\<close>, \<open>Server_Setup\<close> and \<open>Listener\<close> model \<^verbatim>\<open>server/mod.rs\<close>: dispatch of a request through the middlewares, the router
    and the handlers, the configuration of a server, and the accept loop with its permits and shutdown. The contract
    \<open>gated_server\<close> carries what an authentication gate guarantees over to the whole server.
  \<^item> \<open>Batching\<close> models \<^verbatim>\<open>batching.rs\<close> as a state machine, with the contract \<open>batch_processor\<close>: batches are bounded and in order,
    and every call is answered once, with the result of its own payload.
  \<^item> \<open>Database\<close>, \<open>Migrations\<close> and \<open>Crud\<close> model \<^verbatim>\<open>db/query.rs\<close>, \<^verbatim>\<open>db/pool.rs\<close>, \<^verbatim>\<open>db/migrations.rs\<close> and \<^verbatim>\<open>server/crud.rs\<close>: the text
    of every statement, parameters and rows, streams, transactions, migrations, and the generated handlers. They show that
    statements of a validated specification cannot be influenced by clients, that placeholders and parameters agree, that a
    transaction is committed as a whole, and that migrations are applied in order and once.
  \<^item> \<open>Dag\<close> models \<^verbatim>\<open>justapi-py/src/dag.rs\<close>, the executor of task graphs: its result does not depend on the schedule, it ends, and
    it reports a deadlock exactly when a task cannot be derived.
  \<^item> \<open>Background\<close> models \<^verbatim>\<open>background.rs\<close>, \<^verbatim>\<open>scheduler.rs\<close> and \<^verbatim>\<open>gil_pool.rs\<close> of the same crate: the task runner as interleaved submitting
    and working threads, the scheduled jobs with their ticks, and the pool of interpreter threads. It bounds the queue, shows
    that the counters add up in quiet states, and that fires of an interval job keep their distance.
  \<^item> \<open>Py_Request\<close> models \<^verbatim>\<open>request.rs\<close>, the request object of Python handlers, over a datatype of Python values: its attributes and
    mapping behaviour, headers, query parameters, URLs, state and stream. Its query decoder is shown to agree with the extractors'.
  \<^item> \<open>Prefork\<close> models \<^verbatim>\<open>justapi-cli/src/workers.rs\<close>, the supervisor of worker processes, one iteration of its loop at a time: the fleet
    keeps its bounds, and a stopped supervisor has signalled every worker that may still run.
  \<^item> \<open>Rate_Limit\<close> models \<^verbatim>\<open>rate_limit.rs\<close> with its Redis script and the expiry of keys: what a key is granted in any window is bounded by the
    burst and the time of the window, and waiting for the announced delay suffices.
  \<^item> \<open>Edge\<close> models the reloaded gateway configuration, the audit log and the secrets of \<^verbatim>\<open>gateway.rs\<close>, \<^verbatim>\<open>audit.rs\<close> and \<^verbatim>\<open>secrets.rs\<close> of the HTTP
    crate, \<open>Openapi\<close> the schemas, the builder and the generated document of \<^verbatim>\<open>openapi.rs\<close>, and \<open>Diagnostics\<close> the rendering of \<^verbatim>\<open>dx.rs\<close>
    and \<^verbatim>\<open>error_catalog.rs\<close>: an unreadable configuration keeps the old one, the document lists exactly the visible routes, and no
    text of a diagnostic can bring an escape character into the terminal.

  \<^bold>\<open>Conventions.\<close> A struct is a record, an enum a datatype, a method a definition with explicit state passing. A computation
  that may panic returns an option, one that may fail a sum type; the outcome of a handler is a response, an error or a
  panic. A hash map is an association list with distinct keys whose order is the iteration order. Finite floating-point
  values that are only compared, added or halved are exact rationals. Locks are taken once per operation, so an
  operation is atomic; interleaved requests are sequences of operations.

  \<^bold>\<open>Loops.\<close> Loops are recursive functions with termination proofs, except the outer loop of speculative decoding, which
  takes the number of its rounds: \<open>max_tokens\<close> rounds are enough because each round emits a token, which is part of
  the losslessness theorems.

  \<^bold>\<open>Parameters.\<close> The crates the code calls are parameters of the definitions: the path matcher \<^verbatim>\<open>matchit\<close>, the limiters of
  \<^verbatim>\<open>governor\<close>, token signing of \<^verbatim>\<open>jsonwebtoken\<close>, schema validation of \<^verbatim>\<open>jsonschema\<close>, the XML events of \<^verbatim>\<open>quick-xml\<close>, the parser of
  \<^verbatim>\<open>multer\<close>, the compressors, the drivers of \<^verbatim>\<open>sqlx\<close>, the store of Redis, cron expressions, the launching of processes, calls
  of Python objects, the file system, form decoding, timers, clocks, random numbers and JSON parsing and printing. Where a theorem needs something of them it says so in its hypotheses, and a witness satisfies them.

  \<^bold>\<open>Defects shown.\<close> Several theorems describe what the code does where that is not what it means to do: an evicted block
  is allocated twice, a concurrent prefix hit panics, retirement leaks blocks, an oversized request starves the queue, a
  radix edge splits inside a block, cancellation crosses pools, draft speculation misses a stop token, reports drop
  loaded adapters, a half-open breaker wedges, a late registration stays hidden behind a cached miss, CORS
  reflects origins without \<open>Vary\<close>, a dropped leader wedges its key, top-k keeps one token too many, a numeric offset of a
  time is rejected, an entity tag is only length and age, a WebSocket upgrade bypasses the middlewares, an unsupported
  encoding disables compression, write-ahead logging is not switched on, question marks in literals are renumbered, two
  migrations with one version are both run, a finish reason before the last token of a stream is forgotten, stop
  sequences of OpenAI requests are ignored, a fleet without a scaling policy shrinks to one worker, a failed restart abandons
  the other workers, a limit above a million per second grants everything, concurrent submitters exceed the queue limit, tasks
  submitted after shutdown never run, a body schema is documented as an example, generated operation ids collide, nested token
  claims are dropped, and membership and lookup of a request disagree.

  \<^bold>\<open>Not modelled.\<close> The neural models under \<^verbatim>\<open>justapi-inference/src/real\<close> (tensor arithmetic of the \<^verbatim>\<open>candle\<close> crate), protocol code over
  other crates (HTTP/3, gRPC, GraphQL, WebSocket frames, WASM), mail delivery, tracing output, the generation of clients, the remaining
  Python bindings of \<^verbatim>\<open>justapi-py\<close> (conversions between Python objects and the types modelled here), the other commands of the command
  line and the benchmarks: they are input and output, bindings to other systems, or generated text.
\<close>

end
